(* ===== verification/Prelude.thy ===== *)
theory Prelude
  imports Complex_Main "HOL-Library.AList"
begin

text \<open>
  What every component of the backend model shares: Python values that HOL does not have
  under the same name (ordered dictionaries, characters and strings of code points below
  256), the error sums, and the two interfaces that the stateful components implement
  (a machine whose every operation keeps an invariant, and one that also respects a
  capacity).

  A Python \<^verbatim>\<open>dict\<close> or \<^verbatim>\<open>OrderedDict\<close> whose insertion order matters is an association
  list, oldest entry first. A Python \<^verbatim>\<open>str\<close> is a HOL \<open>string\<close>: a list of characters, each of
  which stands for the code point of the same number, so the model covers every text over the
  code points below 256.
\<close>

named_theorems odict_simps "ordered dictionaries"
named_theorems text_simps "Python text"

subsection \<open>Ordered dictionaries\<close>

type_synonym ('k, 'v) odict = "('k \<times> 'v) list"

definition od_keys :: "('k, 'v) odict \<Rightarrow> 'k list" where
  "od_keys d = map fst d"

definition od_del :: "'k \<Rightarrow> ('k, 'v) odict \<Rightarrow> ('k, 'v) odict" where
  "od_del k d = filter (\<lambda>e. fst e \<noteq> k) d"

text \<open>\<^verbatim>\<open>store[k] = v; store.move_to_end(k)\<close>.\<close>

definition od_push :: "'k \<Rightarrow> 'v \<Rightarrow> ('k, 'v) odict \<Rightarrow> ('k, 'v) odict" where
  "od_push k v d = od_del k d @ [(k, v)]"

text \<open>\<^verbatim>\<open>store[k] = v\<close> on a plain dictionary: an existing key keeps its position.\<close>

definition od_set :: "'k \<Rightarrow> 'v \<Rightarrow> ('k, 'v) odict \<Rightarrow> ('k, 'v) odict" where
  "od_set k v d = AList.update k v d"

text \<open>\<^verbatim>\<open>while len(store) > n: store.popitem(last=False)\<close>.\<close>

fun od_trim :: "nat \<Rightarrow> ('k, 'v) odict \<Rightarrow> ('k, 'v) odict" where
  "od_trim n [] = []"
| "od_trim n (e # d) = (if length (e # d) > n then od_trim n d else e # d)"

definition od_ok :: "('k, 'v) odict \<Rightarrow> bool" where
  "od_ok d \<longleftrightarrow> distinct (od_keys d)"

lemma od_keys_simps [simp]:
  "od_keys [] = []" "od_keys (e # d) = fst e # od_keys d" "od_keys (d @ d') = od_keys d @ od_keys d'"
  by (simp_all add: od_keys_def)

lemma od_trim_drop: "od_trim n d = drop (length d - n) d"
  by (induction d) (auto simp: Suc_diff_le)

lemma length_od_trim: "length (od_trim n d) = min n (length d)"
  by (auto simp: od_trim_drop)

lemma set_od_trim: "set (od_trim n d) \<subseteq> set d"
  by (simp add: od_trim_drop set_drop_subset)

lemma od_trim_id [simp]: "length d \<le> n \<Longrightarrow> od_trim n d = d"
  by (simp add: od_trim_drop)

lemma od_trim_Suc: "length d = Suc n \<Longrightarrow> od_trim n d = tl d"
  by (simp add: od_trim_drop drop_Suc)

lemma od_ok_Nil [simp]: "od_ok []"
  by (simp add: od_ok_def)

lemma od_keys_del [simp]: "od_keys (od_del k d) = filter (\<lambda>x. x \<noteq> k) (od_keys d)"
  by (induction d) (auto simp: od_del_def)

lemma od_ok_del [intro]: "od_ok d \<Longrightarrow> od_ok (od_del k d)"
  by (simp add: od_ok_def)

lemma od_ok_filter [intro]: "od_ok d \<Longrightarrow> od_ok (filter P d)"
  by (simp add: od_ok_def od_keys_def distinct_map_filter)

lemma od_ok_push [intro]: "od_ok d \<Longrightarrow> od_ok (od_push k v d)"
  by (simp add: od_ok_def od_push_def)

lemma od_ok_drop [intro]: "od_ok d \<Longrightarrow> od_ok (drop n d)"
  by (simp add: od_ok_def od_keys_def drop_map [symmetric] distinct_drop)

lemma od_ok_trim [intro]: "od_ok d \<Longrightarrow> od_ok (od_trim n d)"
  by (simp add: od_trim_drop od_ok_drop)

lemma map_of_od_del [odict_simps]: "map_of (od_del k d) = (map_of d)(k := None)"
  by (induction d) (auto simp: od_del_def fun_eq_iff)

lemma map_of_od_push [odict_simps]: "map_of (od_push k v d) = (map_of d)(k \<mapsto> v)"
  by (auto simp: od_push_def map_add_def odict_simps fun_eq_iff split: option.split)

lemma map_of_od_set [odict_simps]: "map_of (od_set k v d) = (map_of d)(k \<mapsto> v)"
  by (simp add: od_set_def update_conv' fun_eq_iff)

lemma length_od_del_le: "length (od_del k d) \<le> length d"
  by (simp add: od_del_def)

lemma length_od_del_less: "k \<in> set (od_keys d) \<Longrightarrow> length (od_del k d) < length d"
  by (induction d) (auto simp: od_del_def less_Suc_eq_le)

lemma length_od_push_le: "length (od_push k v d) \<le> Suc (length d)"
  by (simp add: od_push_def length_od_del_le)

lemma map_of_od_filter:
  "od_ok d \<Longrightarrow> map_of (filter P d) k
    = (case map_of d k of None \<Rightarrow> None | Some v \<Rightarrow> if P (k, v) then Some v else None)"
proof (induction d)
  case (Cons e d)
  then show ?case
  proof (cases "fst e = k")
    case True
    with Cons.prems have "map_of d k = None"
      by (auto simp: od_ok_def od_keys_def map_of_eq_None_iff)
    with True Cons show ?thesis by (auto simp: od_ok_def)
  next
    case False
    with Cons show ?thesis by (auto simp: od_ok_def)
  qed
qed simp

lemma od_ok_map_of: "od_ok d \<Longrightarrow> (k, v) \<in> set d \<longleftrightarrow> map_of d k = Some v"
  by (auto simp: od_ok_def od_keys_def dest: map_of_SomeD)

lemma map_of_od_trim_le:
  assumes "od_ok d" and "map_of (od_trim n d) k = Some v"
  shows "map_of d k = Some v"
  using assms set_od_trim [of n d] by (auto simp: od_ok_map_of [symmetric] od_ok_trim)

lemma map_of_member: "map_of d k = Some v \<Longrightarrow> k \<in> set (od_keys d)"
  by (force simp: od_keys_def dest: map_of_SomeD)

lemma map_of_keys: "map_of d k = None \<longleftrightarrow> k \<notin> set (od_keys d)"
  by (simp add: od_keys_def map_of_eq_None_iff)

lemma length_od_push_member: "k \<in> set (od_keys d) \<Longrightarrow> length (od_push k v d) \<le> length d"
  using length_od_del_less [of k d] by (simp add: od_push_def)

lemma od_ok_set [intro]: "od_ok d \<Longrightarrow> od_ok (od_set k v d)"
  unfolding od_ok_def od_keys_def od_set_def by (rule distinct_update)

lemma od_keys_set: "set (od_keys (od_set k v d)) = insert k (set (od_keys d))"
  unfolding od_keys_def od_set_def by (simp add: dom_update)

lemma set_od_set: "set (od_set k v d) \<subseteq> insert (k, v) (set d)"
  unfolding od_set_def by (induction d) auto

subsection \<open>Errors as values\<close>

definition bind_ok :: "'e + 'a \<Rightarrow> ('a \<Rightarrow> 'e + 'b) \<Rightarrow> 'e + 'b" where
  "bind_ok r f = (case r of Inl e \<Rightarrow> Inl e | Inr a \<Rightarrow> f a)"

lemma bind_ok_simps [simp]:
  "bind_ok (Inl e) f = Inl e" "bind_ok (Inr a) f = f a"
  by (simp_all add: bind_ok_def)

lemma bind_ok_Inr: "bind_ok r f = Inr b \<longleftrightarrow> (\<exists>a. r = Inr a \<and> f a = Inr b)"
  by (cases r) auto

lemma bind_okE: "bind_ok r f = Inr b \<Longrightarrow> (\<And>a. r = Inr a \<Longrightarrow> f a = Inr b \<Longrightarrow> P) \<Longrightarrow> P"
  by (cases r) auto

fun map_ok :: "('a \<Rightarrow> 'e + 'b) \<Rightarrow> 'a list \<Rightarrow> 'e + 'b list" where
  "map_ok f [] = Inr []"
| "map_ok f (x # xs) = bind_ok (f x) (\<lambda>y. bind_ok (map_ok f xs) (\<lambda>ys. Inr (y # ys)))"

lemma map_ok_Inr_map: "(\<And>x. x \<in> set xs \<Longrightarrow> f x = Inr (g x)) \<Longrightarrow> map_ok f xs = Inr (map g xs)"
  by (induction xs) auto

subsection \<open>Machines\<close>

text \<open>
  Every long-lived object of the backend (a cache, a limiter, a ticket store, a run) is
  a state and a set of operations. A client that holds one relies on an invariant that each
  operation keeps; the lemmas here lift it to any sequence of operations.
\<close>

locale machine =
  fixes step :: "'s \<Rightarrow> 'op \<Rightarrow> 's"
    and inv :: "'s \<Rightarrow> bool"
  assumes step_inv: "inv s \<Longrightarrow> inv (step s op)"
begin

lemma run_inv: "inv s \<Longrightarrow> inv (foldl step s ops)"
  by (induction ops arbitrary: s) (auto intro: step_inv)

end

text \<open>
  A loop: a step either goes on (\<open>None\<close>) or ends with a result. \<open>run_steps\<close> gives it a number
  of steps to use up; a loop whose good states shrink needs no more steps than their size.
\<close>

fun run_steps :: "('s \<Rightarrow> 'r option \<times> 's) \<Rightarrow> nat \<Rightarrow> 's \<Rightarrow> ('r \<times> 's) option" where
  "run_steps step 0 s = None"
| "run_steps step (Suc n) s = (case step s of (Some r, t) \<Rightarrow> Some (r, t) | (None, t) \<Rightarrow> run_steps step n t)"

locale stepping =
  fixes step :: "'s \<Rightarrow> 'r option \<times> 's"
    and good :: "'s \<Rightarrow> bool"
    and size_of :: "'s \<Rightarrow> nat"
  assumes keeps_good: "good s \<Longrightarrow> step s = (None, t) \<Longrightarrow> good t"
    and shrinks: "good s \<Longrightarrow> step s = (None, t) \<Longrightarrow> size_of t < size_of s"
begin

lemma run_ends: "good s \<Longrightarrow> size_of s < n \<Longrightarrow> \<exists>r t. run_steps step n s = Some (r, t)"
proof (induction n arbitrary: s)
  case (Suc n)
  obtain r t where st: "step s = (r, t)" by fastforce
  show ?case
  proof (cases r)
    case None
    with Suc.prems st have "good t" "size_of t < n"
      using keeps_good [of s t] shrinks [of s t] by auto
    with Suc.IH st None show ?thesis by simp
  qed (simp add: st)
qed simp

lemma run_good:
  "good s \<Longrightarrow> run_steps step n s = Some (r, t) \<Longrightarrow> \<exists>u. good u \<and> step u = (Some r, t)"
proof (induction n arbitrary: s)
  case (Suc n)
  obtain x u where st: "step s = (x, u)" by fastforce
  show ?case
  proof (cases x)
    case None
    with Suc.prems(1) st have "good u" by (auto intro: keeps_good)
    with Suc.IH Suc.prems(2) st None show ?thesis by simp
  next
    case (Some y)
    with Suc.prems st show ?thesis by auto
  qed
qed simp

end

text \<open>
  A counted loop, \<^verbatim>\<open>for n in range(1, m + 1)\<close>, whose body may return; and what holds before every
  round.
\<close>

fun for_rounds :: "(nat \<Rightarrow> 's \<Rightarrow> 'r option \<times> 's) \<Rightarrow> nat \<Rightarrow> nat \<Rightarrow> 's \<Rightarrow> 'r option \<times> 's" where
  "for_rounds body n 0 s = (None, s)"
| "for_rounds body n (Suc k) s =
     (case body n s of (Some r, t) \<Rightarrow> (Some r, t) | (None, t) \<Rightarrow> for_rounds body (Suc n) k t)"

locale counted_loop =
  fixes body :: "nat \<Rightarrow> 's \<Rightarrow> 'r option \<times> 's"
    and m :: nat
    and inv :: "nat \<Rightarrow> 's \<Rightarrow> bool"
  assumes keeps: "inv n s \<Longrightarrow> n \<le> m \<Longrightarrow> body n s = (None, t) \<Longrightarrow> inv (Suc n) t"
begin

lemma rounds_over: "inv n s \<Longrightarrow> n + k = Suc m \<Longrightarrow> for_rounds body n k s = (None, t) \<Longrightarrow> inv (Suc m) t"
  by (induction k arbitrary: n s) (auto split: prod.splits option.splits dest: keeps)

lemma rounds_return:
  "inv n s \<Longrightarrow> n + k = Suc m \<Longrightarrow> for_rounds body n k s = (Some r, t) \<Longrightarrow>
    \<exists>i u. n \<le> i \<and> i \<le> m \<and> inv i u \<and> body i u = (Some r, t)"
proof (induction k arbitrary: n s)
  case (Suc k)
  obtain x u where st: "body n s = (x, u)" by fastforce
  show ?case
  proof (cases x)
    case None
    then have "inv (Suc n) u" using keeps Suc.prems st by simp
    with Suc.IH [of "Suc n" u] Suc.prems st None
    have "\<exists>i v. Suc n \<le> i \<and> i \<le> m \<and> inv i v \<and> body i v = (Some r, t)" by simp
    then show ?thesis using Suc_leD by blast
  next
    case (Some y)
    with Suc.prems st show ?thesis by auto
  qed
qed simp

end

text \<open>
  The contract of a cache, as its clients rely on it: a lookup answers nothing or the value
  most recently stored under that key, whatever was evicted, expired or dropped between.
\<close>

locale sound_cache =
  fixes look :: "'c \<Rightarrow> 'k \<Rightarrow> 'v option"
    and step :: "'c \<Rightarrow> 'op \<Rightarrow> 'c"
    and stores :: "'op \<Rightarrow> ('k \<times> 'v) option"
    and inv :: "'c \<Rightarrow> bool"
  assumes keep_inv: "inv c \<Longrightarrow> inv (step c op)"
    and store_look: "inv c \<Longrightarrow> stores op = Some (k, v) \<Longrightarrow> look (step c op) k = Some w \<Longrightarrow> w = v"
    and other_look: "inv c \<Longrightarrow> (\<And>v. stores op \<noteq> Some (k, v)) \<Longrightarrow>
      look (step c op) k = Some w \<Longrightarrow> look c k = Some w"
begin

fun last_stored :: "'k \<Rightarrow> 'v option \<Rightarrow> 'op list \<Rightarrow> 'v option" where
  "last_stored k w [] = w"
| "last_stored k w (op # ops) =
     last_stored k (case stores op of None \<Rightarrow> w | Some (k', v) \<Rightarrow> if k' = k then Some v else w) ops"

lemma step_last:
  assumes "inv c" and "look c k = Some u \<longrightarrow> w = Some u"
  shows "look (step c op) k = Some u \<longrightarrow>
    (case stores op of None \<Rightarrow> w | Some (k', v) \<Rightarrow> if k' = k then Some v else w) = Some u"
  using assms store_look [of c op k _ u] other_look [of c op k u]
  by (auto split: option.split)

lemma run_last_stored:
  "inv c \<Longrightarrow> (\<And>u. look c k = Some u \<Longrightarrow> w = Some u) \<Longrightarrow>
    look (foldl step c ops) k = Some v \<Longrightarrow> last_stored k w ops = Some v"
proof (induction ops arbitrary: c w)
  case (Cons op ops)
  let ?w = "case stores op of None \<Rightarrow> w | Some (k', v) \<Rightarrow> if k' = k then Some v else w"
  have "\<And>u. look (step c op) k = Some u \<Longrightarrow> ?w = Some u"
    using step_last Cons.prems(1,2) by blast
  moreover have "inv (step c op)" using Cons.prems(1) by (rule keep_inv)
  ultimately show ?case using Cons.IH [of "step c op" ?w] Cons.prems(3) by simp
qed simp

end

end
