(* ===== verification/PyText.thy ===== *)
theory PyText
  imports Prelude "HOL-Library.Sublist"
begin

text \<open>
  The string operations of Python's \<^verbatim>\<open>str\<close> that the backend uses, on code points below 256:
  character classes, \<^verbatim>\<open>strip\<close>, \<^verbatim>\<open>rstrip\<close>, \<^verbatim>\<open>split\<close>, \<^verbatim>\<open>splitlines\<close>, \<^verbatim>\<open>join\<close>, \<^verbatim>\<open>lower\<close> and
  the decimal rendering of integers.
\<close>

definition code_pt :: "char \<Rightarrow> nat" where
  "code_pt c = of_char c"

definition py_isspace :: "char \<Rightarrow> bool" where
  "py_isspace c \<longleftrightarrow> (let n = code_pt c in
     9 \<le> n \<and> n \<le> 13 \<or> 28 \<le> n \<and> n \<le> 32 \<or> n = 133 \<or> n = 160)"

definition is_digit :: "char \<Rightarrow> bool" where
  "is_digit c \<longleftrightarrow> 48 \<le> code_pt c \<and> code_pt c \<le> 57"

definition is_letter :: "char \<Rightarrow> bool" where
  "is_letter c \<longleftrightarrow> (let n = code_pt c in 65 \<le> n \<and> n \<le> 90 \<or> 97 \<le> n \<and> n \<le> 122)"

text \<open>\<^verbatim>\<open>\w\<close> of a \<^verbatim>\<open>str\<close> pattern: alphanumeric or the underscore.\<close>

definition is_word :: "char \<Rightarrow> bool" where
  "is_word c \<longleftrightarrow> (let n = code_pt c in
     is_digit c \<or> is_letter c \<or> n = 95 \<or> n = 170 \<or> n = 178 \<or> n = 179 \<or> n = 181 \<or> n = 185
     \<or> n = 186 \<or> 188 \<le> n \<and> n \<le> 190 \<or> 192 \<le> n \<and> n \<noteq> 215 \<and> n \<noteq> 247)"

definition lower_char :: "char \<Rightarrow> char" where
  "lower_char c = (let n = code_pt c in
     if 65 \<le> n \<and> n \<le> 90 \<or> 192 \<le> n \<and> n \<le> 222 \<and> n \<noteq> 215 then char_of (n + 32) else c)"

definition py_lower :: "string \<Rightarrow> string" where
  "py_lower = map lower_char"

text \<open>\<^verbatim>\<open>upper\<close> on ASCII letters (the only texts the code upper-cases).\<close>

definition upper_ascii :: "char \<Rightarrow> char" where
  "upper_ascii c = (let n = code_pt c in if 97 \<le> n \<and> n \<le> 122 then char_of (n - 32) else c)"

definition lstrip_by :: "('a \<Rightarrow> bool) \<Rightarrow> 'a list \<Rightarrow> 'a list" where
  "lstrip_by f s = dropWhile f s"

definition rstrip_by :: "('a \<Rightarrow> bool) \<Rightarrow> 'a list \<Rightarrow> 'a list" where
  "rstrip_by f s = rev (dropWhile f (rev s))"

definition py_strip :: "string \<Rightarrow> string" where
  "py_strip s = rstrip_by py_isspace (lstrip_by py_isspace s)"

fun join_with :: "string \<Rightarrow> string list \<Rightarrow> string" where
  "join_with sep [] = []"
| "join_with sep [x] = x"
| "join_with sep (x # y # xs) = x @ sep @ join_with sep (y # xs)"

text \<open>\<^verbatim>\<open>sub in s\<close>.\<close>

fun contains_text :: "'a list \<Rightarrow> 'a list \<Rightarrow> bool" where
  "contains_text w [] \<longleftrightarrow> w = []"
| "contains_text w (c # s) \<longleftrightarrow> prefix w (c # s) \<or> contains_text w s"

lemma contains_text_sublist: "contains_text w s \<longleftrightarrow> sublist w s"
  by (induction s) (auto simp: sublist_Cons_right)

text \<open>\<^verbatim>\<open>s.split()\<close>: the maximal runs of non-space characters.\<close>

fun words_aux :: "string \<Rightarrow> string \<Rightarrow> string list" where
  "words_aux w [] = (if w = [] then [] else [rev w])"
| "words_aux w (c # s) =
     (if py_isspace c then (if w = [] then words_aux [] s else rev w # words_aux [] s)
      else words_aux (c # w) s)"

definition py_split :: "string \<Rightarrow> string list" where
  "py_split s = words_aux [] s"

text \<open>\<^verbatim>\<open>s.splitlines()\<close>: \<^verbatim>\<open>\r\n\<close> is one break, and a final break opens no line.\<close>

definition is_break :: "char \<Rightarrow> bool" where
  "is_break c \<longleftrightarrow> (let n = code_pt c in 10 \<le> n \<and> n \<le> 13 \<or> 28 \<le> n \<and> n \<le> 30 \<or> n = 133)"

fun lines_aux :: "string \<Rightarrow> string \<Rightarrow> string list" where
  "lines_aux w [] = (if w = [] then [] else [rev w])"
| "lines_aux w [c] = (if is_break c then [rev w] else [rev (c # w)])"
| "lines_aux w (c # d # s) =
     (if c = CHR 0x0D \<and> d = CHR 0x0A then rev w # lines_aux [] s
      else if is_break c then rev w # lines_aux [] (d # s)
      else lines_aux (c # w) (d # s))"

definition splitlines :: "string \<Rightarrow> string list" where
  "splitlines s = lines_aux [] s"

text \<open>\<^verbatim>\<open>str(n)\<close> for an integer.\<close>

fun nat_digits :: "nat \<Rightarrow> string" where
  "nat_digits n =
     (if n < 10 then [char_of (48 + n)] else nat_digits (n div 10) @ [char_of (48 + n mod 10)])"

declare nat_digits.simps [simp del]

definition str_int :: "int \<Rightarrow> string" where
  "str_int i = (if i < 0 then ''-'' @ nat_digits (nat (- i)) else nat_digits (nat i))"

text \<open>\<^verbatim>\<open>int\<close> of a text: blanks around it, a sign, digits with single underscores between them.\<close>

fun digit_groups :: "bool \<Rightarrow> string \<Rightarrow> string option" where
  "digit_groups after [] = (if after then Some [] else None)"
| "digit_groups after (c # s) =
     (if is_digit c then map_option (\<lambda>d. c # d) (digit_groups True s)
      else if c = CHR ''_'' \<and> after then digit_groups False s else None)"

definition int_value :: "string \<Rightarrow> int" where
  "int_value s = foldl (\<lambda>n c. 10 * n + (int (code_pt c) - 48)) 0 s"

definition int_of_text :: "string \<Rightarrow> int option" where
  "int_of_text s = (let t = py_strip s;
       (neg, u) = (case t of [] \<Rightarrow> (False, t)
         | c # r \<Rightarrow> if c = CHR ''-'' then (True, r) else if c = CHR ''+'' then (False, r) else (False, t))
     in case digit_groups False u of
          None \<Rightarrow> None
        | Some d \<Rightarrow> if length d > 4300 then None else Some (if neg then - int_value d else int_value d))"

text \<open>\<^verbatim>\<open>s.replace("\n", " ")\<close>.\<close>

definition newline_to_space :: "string \<Rightarrow> string" where
  "newline_to_space s = map (\<lambda>c. if c = CHR 0x0A then CHR '' '' else c) s"

lemma code_pt_less: "code_pt c < 256"
  unfolding code_pt_def by (cases c) (simp only: of_char_Char horner_sum_of_bool_2_less, simp split: bool.split)

lemma length_py_lower [simp]: "length (py_lower s) = length s"
  by (simp add: py_lower_def)

lemma rstrip_by_append:
  "\<not> f c \<Longrightarrow> rstrip_by f (xs @ c # ys) = xs @ c # rstrip_by f ys"
  by (simp add: rstrip_by_def dropWhile_append3 dropWhile_append)

lemma lstrip_by_append:
  "\<not> f c \<Longrightarrow> lstrip_by f (xs @ c # ys) = lstrip_by f xs @ c # ys"
  by (induction xs) (auto simp: lstrip_by_def)

lemma rstrip_by_suffixes: "\<exists>zs. ys = rstrip_by f ys @ zs \<and> (\<forall>c \<in> set zs. f c)"
proof -
  have "rev ys = takeWhile f (rev ys) @ dropWhile f (rev ys)" by simp
  then have "ys = rev (dropWhile f (rev ys)) @ rev (takeWhile f (rev ys))"
    by (metis rev_append rev_rev_ident)
  then show ?thesis unfolding rstrip_by_def by (metis set_rev set_takeWhileD)
qed

lemma lstrip_by_prefixes: "\<exists>zs. ys = zs @ lstrip_by f ys \<and> (\<forall>c \<in> set zs. f c)"
  unfolding lstrip_by_def by (metis set_takeWhileD takeWhile_dropWhile_id)

lemma set_rstrip_by: "set (rstrip_by f s) \<subseteq> set s"
  unfolding rstrip_by_def by (metis set_dropWhileD set_rev subsetI)

lemma set_lstrip_by: "set (lstrip_by f s) \<subseteq> set s"
  unfolding lstrip_by_def by (meson set_dropWhileD subsetI)

lemma set_py_strip: "set (py_strip s) \<subseteq> set s"
  unfolding py_strip_def using set_rstrip_by set_lstrip_by by (metis subset_trans)

definition is_upper :: "char \<Rightarrow> bool" where
  "is_upper c \<longleftrightarrow> (let n = code_pt c in 65 \<le> n \<and> n \<le> 90 \<or> 192 \<le> n \<and> n \<le> 222 \<and> n \<noteq> 215)"

lemma lower_char_alt: "lower_char c = (if is_upper c then char_of (code_pt c + 32) else c)"
  unfolding lower_char_def is_upper_def Let_def by (rule refl)

lemma code_pt_lower: "is_upper c \<Longrightarrow> code_pt (char_of (code_pt c + 32)) = code_pt c + 32"
  unfolding code_pt_def is_upper_def Let_def by (subst of_char_of) auto

lemma not_upper_lower: "\<not> is_upper (lower_char c)"
proof (cases "is_upper c")
  case True
  then have "code_pt (lower_char c) = code_pt c + 32" by (simp add: lower_char_alt code_pt_lower)
  with True show ?thesis unfolding is_upper_def Let_def by auto
next
  case False
  then show ?thesis by (simp add: lower_char_alt)
qed

lemma lower_char_idem [simp]: "lower_char (lower_char c) = lower_char c"
  using not_upper_lower [of c] by (simp add: lower_char_alt [of "lower_char c"])

subsection \<open>Evaluating character classes\<close>

text \<open>
  Code equations that read the bits of a character, so that evaluating a pattern on a
  text does no arithmetic.
\<close>

definition letter_bits :: "bool \<Rightarrow> bool \<Rightarrow> bool \<Rightarrow> bool \<Rightarrow> bool \<Rightarrow> bool" where
  "letter_bits b0 b1 b2 b3 b4 \<longleftrightarrow>
     (b0 \<or> b1 \<or> b2 \<or> b3 \<or> b4) \<and> \<not> (b4 \<and> b3 \<and> (b2 \<or> b1 \<and> b0))"

lemma upper_ascii_code [code]:
  "upper_ascii (Char b0 b1 b2 b3 b4 b5 b6 b7) =
     Char b0 b1 b2 b3 b4 (b5 \<and> \<not> (\<not> b7 \<and> b6 \<and> letter_bits b0 b1 b2 b3 b4)) b6 b7"
  by (cases b0; cases b1; cases b2; cases b3; cases b4; cases b5; cases b6; cases b7;
    simp add: upper_ascii_def code_pt_def letter_bits_def char_of_def bit_0)

lemma is_letter_code [code]:
  "is_letter (Char b0 b1 b2 b3 b4 b5 b6 b7) \<longleftrightarrow> \<not> b7 \<and> b6 \<and> letter_bits b0 b1 b2 b3 b4"
  by (cases b0; cases b1; cases b2; cases b3; cases b4; cases b5; cases b6; cases b7;
    simp add: is_letter_def code_pt_def letter_bits_def)

lemma is_digit_code [code]:
  "is_digit (Char b0 b1 b2 b3 b4 b5 b6 b7) \<longleftrightarrow>
     \<not> b7 \<and> \<not> b6 \<and> b5 \<and> b4 \<and> \<not> (b3 \<and> (b2 \<or> b1))"
  by (cases b0; cases b1; cases b2; cases b3; cases b4; cases b5; cases b6; cases b7;
    simp add: is_digit_def code_pt_def)

lemma py_isspace_code [code]:
  "py_isspace (Char b0 b1 b2 b3 b4 b5 b6 b7) \<longleftrightarrow>
     (if b7 then \<not> b6 \<and> (if b5 then \<not> b4 \<and> \<not> b3 \<and> \<not> b2 \<and> \<not> b1 \<and> \<not> b0
                            else \<not> b4 \<and> \<not> b3 \<and> b2 \<and> \<not> b1 \<and> b0)
      else \<not> b6 \<and> (if b5 then \<not> b4 \<and> \<not> b3 \<and> \<not> b2 \<and> \<not> b1 \<and> \<not> b0
                      else if b4 then b3 \<and> b2
                      else b3 \<and> (b0 \<or> b1 \<or> b2) \<and> \<not> (b2 \<and> b1)))"
  by (cases b0; cases b1; cases b2; cases b3; cases b4; cases b5; cases b6; cases b7;
    simp add: py_isspace_def code_pt_def)

lemma is_word_code [code]:
  "is_word (Char b0 b1 b2 b3 b4 b5 b6 b7) \<longleftrightarrow>
     (if b7 then
       (let n = code_pt (Char b0 b1 b2 b3 b4 b5 b6 b7) in n = 170 \<or> n = 178 \<or> n = 179 \<or> n = 181
         \<or> n = 185 \<or> n = 186 \<or> 188 \<le> n \<and> n \<le> 190 \<or> 192 \<le> n \<and> n \<noteq> 215 \<and> n \<noteq> 247)
      else if b6 then letter_bits b0 b1 b2 b3 b4 \<or> b0 \<and> b1 \<and> b2 \<and> b3 \<and> b4 \<and> \<not> b5
      else b5 \<and> b4 \<and> \<not> (b3 \<and> (b2 \<or> b1)))"
  by (cases b0; cases b1; cases b2; cases b3; cases b4; cases b5; cases b6; cases b7;
    simp add: is_word_def is_letter_def is_digit_def code_pt_def letter_bits_def)

lemma lower_char_code [code]:
  "lower_char (Char b0 b1 b2 b3 b4 b5 b6 b7) =
     (if b7 then (let n = code_pt (Char b0 b1 b2 b3 b4 b5 b6 b7)
                  in if 192 \<le> n \<and> n \<le> 222 \<and> n \<noteq> 215 then char_of (n + 32)
                     else Char b0 b1 b2 b3 b4 b5 b6 b7)
      else Char b0 b1 b2 b3 b4 (b5 \<or> b6 \<and> letter_bits b0 b1 b2 b3 b4) b6 b7)"
  by (cases b0; cases b1; cases b2; cases b3; cases b4; cases b5; cases b6; cases b7;
    simp add: lower_char_def code_pt_def letter_bits_def char_of_def bit_0)

end
