(* ===== verification/PyRegex.thy ===== *)
theory PyRegex
  imports PyText
begin

text \<open>
  Python's \<^verbatim>\<open>re\<close> module as far as the backend uses it: a backtracking matcher over a
  position (the text already read, reversed, and the text still to read) and the captured
  groups. \<open>rx_match\<close> lists the ways an expression can match from a position in the order in
  which the backtracking engine tries them, so the engine's answer is the first element:
  alternatives are tried left to right, greedy repetition tries another round before it stops,
  lazy repetition stops before it tries another round. A round of a repetition that reads
  nothing is not repeated.
\<close>

datatype rx =
    Eps
  | Cls "char \<Rightarrow> bool"
  | Seq rx rx
  | Alt rx rx
  | Star rx
  | Lazy rx
  | Grp nat rx
  | Back nat
  | NotAhead rx
  | AtStart
  | AtLineStart
  | AtEnd
  | WordB
  | NotAfter "char \<Rightarrow> bool"

type_synonym rx_pos = "string \<times> string \<times> (nat \<times> string) list"

fun rx_rest :: "rx_pos \<Rightarrow> string" where
  "rx_rest (p, r, g) = r"

fun rx_read :: "rx_pos \<Rightarrow> string" where
  "rx_read (p, r, g) = p"

fun rx_groups :: "rx_pos \<Rightarrow> (nat \<times> string) list" where
  "rx_groups (p, r, g) = g"

text \<open>What was read between two positions of the same text.\<close>

definition rx_span :: "rx_pos \<Rightarrow> rx_pos \<Rightarrow> string" where
  "rx_span s t = take (length (rx_rest s) - length (rx_rest t)) (rx_rest s)"

definition head_is :: "('a \<Rightarrow> bool) \<Rightarrow> 'a list \<Rightarrow> bool" where
  "head_is f xs = (case xs of [] \<Rightarrow> False | x # _ \<Rightarrow> f x)"

fun take_class :: "(char \<Rightarrow> bool) \<Rightarrow> rx_pos \<Rightarrow> rx_pos list" where
  "take_class f (p, [], g) = []"
| "take_class f (p, c # r, g) = (if f c then [(c # p, r, g)] else [])"

fun take_text :: "string \<Rightarrow> rx_pos \<Rightarrow> rx_pos list" where
  "take_text w (p, r, g) =
     (if prefix w r then [(rev w @ p, drop (length w) r, g)] else [])"

definition advances :: "rx_pos \<Rightarrow> rx_pos \<Rightarrow> bool" where
  "advances s t \<longleftrightarrow> length (rx_rest t) < length (rx_rest s)"

function rx_match :: "rx \<Rightarrow> rx_pos \<Rightarrow> rx_pos list" where
  "rx_match Eps s = [s]"
| "rx_match (Cls f) s = take_class f s"
| "rx_match (Seq a b) s = concat (map (rx_match b) (rx_match a s))"
| "rx_match (Alt a b) s = rx_match a s @ rx_match b s"
| "rx_match (Star a) s =
     concat (map (\<lambda>t. if advances s t then rx_match (Star a) t else []) (rx_match a s)) @ [s]"
| "rx_match (Lazy a) s =
     s # concat (map (\<lambda>t. if advances s t then rx_match (Lazy a) t else []) (rx_match a s))"
| "rx_match (Grp i a) s =
     map (\<lambda>t. (rx_read t, rx_rest t, (i, rx_span s t) # rx_groups t)) (rx_match a s)"
| "rx_match (Back i) s =
     (case map_of (rx_groups s) i of None \<Rightarrow> [] | Some w \<Rightarrow> take_text w s)"
| "rx_match (NotAhead a) s = (if rx_match a s = [] then [s] else [])"
| "rx_match AtStart s = (if rx_read s = [] then [s] else [])"
| "rx_match AtLineStart s =
     (if rx_read s = [] \<or> head_is (\<lambda>c. c = CHR 0x0A) (rx_read s) then [s] else [])"
| "rx_match AtEnd s = (if rx_rest s = [] then [s] else [])"
| "rx_match WordB s =
     (if head_is is_word (rx_read s) \<noteq> head_is is_word (rx_rest s) then [s] else [])"
| "rx_match (NotAfter f) s = (if head_is f (rx_read s) then [] else [s])"
  by pat_completeness auto
termination
  by (relation "measures [\<lambda>(a, s). size a, \<lambda>(a, s). length (rx_rest s)]")
    (auto simp: advances_def)

declare rx_match.simps(5,6) [simp del]

subsection \<open>Shorthands of the pattern language\<close>

definition chr :: "char \<Rightarrow> rx" where
  "chr c = Cls (\<lambda>x. x = c)"

fun lit :: "string \<Rightarrow> rx" where
  "lit [] = Eps"
| "lit (c # w) = Seq (chr c) (lit w)"

text \<open>An ASCII literal under \<^verbatim>\<open>re.IGNORECASE\<close>.\<close>

fun lit_ci :: "string \<Rightarrow> rx" where
  "lit_ci [] = Eps"
| "lit_ci (c # w) = Seq (Cls (\<lambda>x. upper_ascii x = upper_ascii c)) (lit_ci w)"

fun alts :: "rx list \<Rightarrow> rx" where
  "alts [] = Cls (\<lambda>_. False)"
| "alts [a] = a"
| "alts (a # b # as) = Alt a (alts (b # as))"

fun seqs :: "rx list \<Rightarrow> rx" where
  "seqs [] = Eps"
| "seqs [a] = a"
| "seqs (a # b # as) = Seq a (seqs (b # as))"

definition plus :: "rx \<Rightarrow> rx" where
  "plus a = Seq a (Star a)"

definition any :: rx where
  "any = Cls (\<lambda>_. True)"

definition spaces :: rx where
  "spaces = Star (Cls py_isspace)"

definition spaces1 :: rx where
  "spaces1 = plus (Cls py_isspace)"

definition opt :: "rx \<Rightarrow> rx" where
  "opt a = Alt a Eps"

definition word1 :: rx where
  "word1 = plus (Cls is_word)"

text \<open>A dot of a pattern without \<^verbatim>\<open>re.DOTALL\<close>, and \<^verbatim>\<open>$\<close> with \<^verbatim>\<open>re.MULTILINE\<close>.\<close>

definition dot :: rx where
  "dot = Cls (\<lambda>c. c \<noteq> CHR 0x0A)"

definition line_end :: rx where
  "line_end = NotAhead dot"

subsection \<open>\<^verbatim>\<open>match\<close>, \<^verbatim>\<open>search\<close>, \<^verbatim>\<open>finditer\<close> and \<^verbatim>\<open>sub\<close>\<close>

definition first_match :: "rx \<Rightarrow> string \<Rightarrow> string \<Rightarrow> rx_pos option" where
  "first_match a p r = (case rx_match a (p, r, []) of [] \<Rightarrow> None | t # _ \<Rightarrow> Some t)"

text \<open>\<open>match_at_start\<close> is \<^verbatim>\<open>pattern.match(s)\<close>; it answers the matched text and the groups.\<close>

definition match_at_start :: "rx \<Rightarrow> string \<Rightarrow> (string \<times> (nat \<times> string) list) option" where
  "match_at_start a s =
     map_option (\<lambda>t. (rx_span ([], s, []) t, rx_groups t)) (first_match a [] s)"

fun search_from :: "rx \<Rightarrow> string \<Rightarrow> string \<Rightarrow> (string \<times> (nat \<times> string) list) option" where
  "search_from a p [] =
     map_option (\<lambda>t. (rx_span (p, [], []) t, rx_groups t)) (first_match a p [])"
| "search_from a p (c # r) =
     (case first_match a p (c # r) of
        Some t \<Rightarrow> Some (rx_span (p, c # r, []) t, rx_groups t)
      | None \<Rightarrow> search_from a (c # p) r)"

definition search :: "rx \<Rightarrow> string \<Rightarrow> (string \<times> (nat \<times> string) list) option" where
  "search a s = search_from a [] s"

text \<open>
  The scan behind \<^verbatim>\<open>finditer\<close> and \<^verbatim>\<open>sub\<close>: the text as a list of pieces, a character that no
  match covers (\<open>Inl\<close>) or a match with its groups (\<open>Inr\<close>). The patterns the backend scans with
  always read at least one character; a match that reads none is passed over.
\<close>

type_synonym piece = "char + (string \<times> (nat \<times> string) list)"

function scan_from :: "rx \<Rightarrow> string \<Rightarrow> string \<Rightarrow> piece list" where
  "scan_from a p [] = []"
| "scan_from a p (c # r) =
     (case first_match a p (c # r) of
        Some t \<Rightarrow>
          (if length (rx_rest t) < length (c # r)
           then Inr (rx_span (p, c # r, []) t, rx_groups t) # scan_from a (rx_read t) (rx_rest t)
           else Inl c # scan_from a (c # p) r)
      | None \<Rightarrow> Inl c # scan_from a (c # p) r)"
  by pat_completeness auto
termination
  by (relation "measure (\<lambda>(a, p, r). length r)") auto

definition scan :: "rx \<Rightarrow> string \<Rightarrow> piece list" where
  "scan a s = scan_from a [] s"

definition piece_text :: "piece \<Rightarrow> string" where
  "piece_text x = (case x of Inl c \<Rightarrow> [c] | Inr (w, g) \<Rightarrow> w)"

definition sub_by :: "rx \<Rightarrow> (string \<Rightarrow> (nat \<times> string) list \<Rightarrow> string) \<Rightarrow> string \<Rightarrow> string" where
  "sub_by a f s = concat (map (\<lambda>x. case x of Inl c \<Rightarrow> [c] | Inr (w, g) \<Rightarrow> f w g) (scan a s))"

fun spans_from :: "nat \<Rightarrow> piece list \<Rightarrow> (nat \<times> nat \<times> (nat \<times> string) list) list" where
  "spans_from n [] = []"
| "spans_from n (Inl c # xs) = spans_from (Suc n) xs"
| "spans_from n (Inr (w, g) # xs) = (n, n + length w, g) # spans_from (n + length w) xs"

subsection \<open>Matches stay inside the text\<close>

text \<open>Every position a match reaches is a later position of the same text.\<close>

definition later :: "rx_pos \<Rightarrow> rx_pos \<Rightarrow> bool" where
  "later s t \<longleftrightarrow> (\<exists>w. rx_rest s = w @ rx_rest t \<and> rx_read t = rev w @ rx_read s)"

lemma later_refl [simp, intro]: "later s s"
  by (auto simp: later_def)

lemma later_trans: "later s t \<Longrightarrow> later t u \<Longrightarrow> later s u"
  by (auto simp: later_def)

lemma later_same_place:
  "later s t \<Longrightarrow> rx_rest t' = rx_rest t \<Longrightarrow> rx_read t' = rx_read t \<Longrightarrow> later s t'"
  by (simp add: later_def)

lemma later_span: "later s t \<Longrightarrow> rx_rest s = rx_span s t @ rx_rest t \<and> rx_read t = rev (rx_span s t) @ rx_read s"
  by (auto simp: later_def rx_span_def)

lemma later_take_class: "t \<in> set (take_class f s) \<Longrightarrow> later s t"
  by (induction f s rule: take_class.induct) (auto simp: later_def split: if_splits)

lemma later_take_text: "t \<in> set (take_text w s) \<Longrightarrow> later s t"
  by (cases s) (auto simp: later_def prefix_def split: if_splits)

lemma in_match_Star:
  "t \<in> set (rx_match (Star a) s) \<longleftrightarrow>
     t = s \<or> (\<exists>u \<in> set (rx_match a s). advances s u \<and> t \<in> set (rx_match (Star a) u))"
  by (subst rx_match.simps(5)) (simp split: if_split, blast)

lemma in_match_Lazy:
  "t \<in> set (rx_match (Lazy a) s) \<longleftrightarrow>
     t = s \<or> (\<exists>u \<in> set (rx_match a s). advances s u \<and> t \<in> set (rx_match (Lazy a) u))"
  by (subst rx_match.simps(6)) (simp split: if_split, blast)

lemma rx_match_later: "t \<in> set (rx_match a s) \<Longrightarrow> later s t"
proof (induction a s arbitrary: t rule: rx_match.induct)
  case (2 f s)
  then show ?case by (simp add: later_take_class)
next
  case (3 a b s)
  then obtain u where "u \<in> set (rx_match a s)" "t \<in> set (rx_match b u)" by (simp only: rx_match.simps) auto
  then show ?case using 3 by (blast intro: later_trans)
next
  case (5 a s)
  then show ?case using in_match_Star [of t a s] by (blast intro: later_trans)
next
  case (6 a s)
  then show ?case using in_match_Lazy [of t a s] by (blast intro: later_trans)
next
  case (7 i a s)
  then obtain u where "u \<in> set (rx_match a s)"
    and t: "t = (rx_read u, rx_rest u, (i, rx_span s u) # rx_groups u)"
    by (simp only: rx_match.simps set_map) blast
  then have "later s u" using 7 by blast
  then show ?case by (rule later_same_place) (simp_all add: t)
next
  case (8 i s)
  then show ?case by (auto split: option.splits dest: later_take_text)
qed (auto split: if_splits)

lemma first_match_later: "first_match a p r = Some t \<Longrightarrow> later (p, r, []) t"
  unfolding first_match_def using rx_match_later [of t a "(p, r, [])"] by (auto split: list.splits)

lemma scan_from_text: "concat (map piece_text (scan_from a p r)) = r"
proof (induction a p r rule: scan_from.induct)
  case (2 a p c r)
  show ?case
  proof (cases "first_match a p (c # r)")
    case None
    with 2 show ?thesis by (simp add: piece_text_def)
  next
    case (Some t)
    then have "c # r = rx_span (p, c # r, []) t @ rx_rest t"
      using later_span [OF first_match_later [OF Some]] by simp
    with Some 2 show ?thesis by (auto simp: piece_text_def)
  qed
qed simp

theorem scan_text: "concat (map piece_text (scan a s)) = s"
  by (simp add: scan_def scan_from_text)

text \<open>A pattern that matches nowhere leaves the text as it is.\<close>

lemma scan_from_no_match:
  "(\<And>u v. r = u @ v \<Longrightarrow> first_match a (rev u @ p) v = None) \<Longrightarrow> scan_from a p r = map Inl r"
proof (induction r arbitrary: p)
  case (Cons c r)
  have "first_match a p (c # r) = None" using Cons.prems [of "[]" "c # r"] by simp
  moreover have "\<And>u v. r = u @ v \<Longrightarrow> first_match a (rev u @ c # p) v = None"
    using Cons.prems [of "c # u" v for u v] by simp
  ultimately show ?case using Cons.IH [of "c # p"] by simp
qed simp

lemma all_splits_Cons:
  "(\<forall>u v. c # r = u @ v \<longrightarrow> P u v) \<longleftrightarrow> P [] (c # r) \<and> (\<forall>u v. r = u @ v \<longrightarrow> P (c # u) v)"
  by (auto simp: Cons_eq_append_conv)

text \<open>A search finds something exactly when the pattern matches from some place of the text.\<close>

lemma search_from_None:
  "search_from a p r = None \<longleftrightarrow> (\<forall>u v. r = u @ v \<longrightarrow> rx_match a (rev u @ p, v, []) = [])"
proof (induction a p r rule: search_from.induct)
  case (1 a p)
  then show ?case by (auto simp: first_match_def split: list.splits)
next
  case (2 a p c r)
  have "(\<forall>u v. c # r = u @ v \<longrightarrow> rx_match a (rev u @ p, v, []) = [])
    \<longleftrightarrow> rx_match a (p, c # r, []) = [] \<and> (\<forall>u v. r = u @ v \<longrightarrow> rx_match a (rev u @ c # p, v, []) = [])"
    by (subst all_splits_Cons) simp
  then show ?case using 2 by (auto simp: first_match_def split: list.splits)
qed

lemma search_None: "search a s = None \<longleftrightarrow> (\<forall>u v. s = u @ v \<longrightarrow> rx_match a (rev u, v, []) = [])"
  by (simp add: search_def search_from_None)

lemma search_found: "rx_match a (rev u, v, []) \<noteq> [] \<Longrightarrow> search a (u @ v) \<noteq> None"
  by (auto simp: search_None)

text \<open>A literal matches exactly where its text stands.\<close>

lemma rx_match_lit: "rx_match (lit w) (p, r, g) = take_text w (p, r, g)"
proof (induction w arbitrary: p r)
  case (Cons c w)
  show ?case by (cases r) (auto simp: chr_def Cons)
qed simp

subsection \<open>What a match has read\<close>

lemma rx_span_self [simp]: "rx_span s s = []"
  by (simp add: rx_span_def)

lemma rx_span_trans:
  assumes "later s u" and "later u t"
  shows "rx_span s t = rx_span s u @ rx_span u t"
  using assms by (auto simp: later_def rx_span_def)

lemma in_match_Seq:
  "t \<in> set (rx_match (Seq a b) s) \<longleftrightarrow> (\<exists>u \<in> set (rx_match a s). t \<in> set (rx_match b u))"
  by (simp only: rx_match.simps set_concat set_map) blast

lemma in_match_Alt:
  "t \<in> set (rx_match (Alt a b) s) \<longleftrightarrow> t \<in> set (rx_match a s) \<or> t \<in> set (rx_match b s)"
  by simp

lemma in_match_Grp:
  "t \<in> set (rx_match (Grp i a) s) \<longleftrightarrow>
     (\<exists>u \<in> set (rx_match a s). t = (rx_read u, rx_rest u, (i, rx_span s u) # rx_groups u))"
  by (simp only: rx_match.simps set_map) blast

lemma in_match_NotAhead:
  "t \<in> set (rx_match (NotAhead a) s) \<longleftrightarrow> t = s \<and> rx_match a s = []"
  by simp

lemma in_match_alts:
  "as \<noteq> [] \<Longrightarrow> t \<in> set (rx_match (alts as) s) \<longleftrightarrow> (\<exists>a \<in> set as. t \<in> set (rx_match a s))"
  by (induction as rule: alts.induct) auto

lemma in_match_lit: "t \<in> set (rx_match (lit w) s) \<Longrightarrow> rx_span s t = w"
  by (cases s) (auto simp: rx_match_lit rx_span_def prefix_def split: if_splits)

lemma in_match_class: "t \<in> set (take_class f s) \<Longrightarrow> list_all f (rx_span s t)"
  by (induction f s rule: take_class.induct) (auto simp: rx_span_def split: if_splits)

lemma span_Star_class: "t \<in> set (rx_match (Star (Cls f)) s) \<Longrightarrow> list_all f (rx_span s t)"
proof (induction "length (rx_rest s)" arbitrary: s rule: less_induct)
  case less
  from less.prems consider "t = s"
    | u where "u \<in> set (rx_match (Cls f) s)" "advances s u" "t \<in> set (rx_match (Star (Cls f)) u)"
    using in_match_Star [of t "Cls f" s] by blast
  then show ?case
  proof cases
    case 2
    from 2(1,3) have "later s u" "later u t" by (blast dest: rx_match_later)+
    then have "rx_span s t = rx_span s u @ rx_span u t" by (rule rx_span_trans)
    moreover have "list_all f (rx_span s u)" using 2(1) by (simp add: in_match_class)
    moreover have "list_all f (rx_span u t)" using less.hyps 2 by (simp add: advances_def)
    ultimately show ?thesis by simp
  qed simp
qed

lemma span_Seq_lit:
  "t \<in> set (rx_match (Seq (lit w) a) s) \<Longrightarrow>
    \<exists>u \<in> set (rx_match (lit w) s). t \<in> set (rx_match a u) \<and> rx_span s t = w @ rx_span u t"
  unfolding in_match_Seq by (metis in_match_lit rx_match_later rx_span_trans)

text \<open>A match changes only the groups its expression names.\<close>

fun group_ids :: "rx \<Rightarrow> nat set" where
  "group_ids (Seq a b) = group_ids a \<union> group_ids b"
| "group_ids (Alt a b) = group_ids a \<union> group_ids b"
| "group_ids (Star a) = group_ids a"
| "group_ids (Lazy a) = group_ids a"
| "group_ids (Grp i a) = insert i (group_ids a)"
| "group_ids _ = {}"

lemma take_groups:
  "t \<in> set (take_class f s) \<Longrightarrow> rx_groups t = rx_groups s"
  "t \<in> set (take_text w s) \<Longrightarrow> rx_groups t = rx_groups s"
  by (cases s, cases "rx_rest s", auto split: if_splits)+

lemma group_ids_lit [simp]: "group_ids (lit w) = {}"
  by (induction w) (auto simp: chr_def)

lemma match_groups:
  "t \<in> set (rx_match a s) \<Longrightarrow> i \<notin> group_ids a \<Longrightarrow> map_of (rx_groups t) i = map_of (rx_groups s) i"
proof (induction a s arbitrary: t rule: rx_match.induct)
  case (3 a b s)
  then obtain u where "u \<in> set (rx_match a s)" "t \<in> set (rx_match b u)"
    by (auto simp only: in_match_Seq)
  with 3 show ?case by simp
next
  case (5 a s)
  then show ?case using in_match_Star [of t a s] by (metis group_ids.simps(3))
next
  case (6 a s)
  then show ?case using in_match_Lazy [of t a s] by (metis group_ids.simps(4))
next
  case (7 j a s)
  then obtain u where "u \<in> set (rx_match a s)"
    and "t = (rx_read u, rx_rest u, (j, rx_span s u) # rx_groups u)"
    by (auto simp only: in_match_Grp)
  with 7 show ?case by auto
next
  case (8 j s)
  then show ?case by (auto split: option.splits dest: take_groups)
qed (auto split: if_splits dest: take_groups)

text \<open>What a group captures is a piece of the text.\<close>

definition rx_text :: "rx_pos \<Rightarrow> string" where
  "rx_text s = rev (rx_read s) @ rx_rest s"

definition groups_in :: "rx_pos \<Rightarrow> bool" where
  "groups_in s \<longleftrightarrow> (\<forall>(i, w) \<in> set (rx_groups s). sublist w (rx_text s))"

lemma later_text: "later s t \<Longrightarrow> rx_text t = rx_text s"
  by (auto simp: later_def rx_text_def)

lemma match_text: "t \<in> set (rx_match a s) \<Longrightarrow> rx_text t = rx_text s"
  by (blast dest: rx_match_later intro: later_text)

lemma span_sublist:
  assumes "later s t"
  shows "sublist (rx_span s t) (rx_text s)"
proof -
  have "rx_text s = rev (rx_read s) @ rx_span s t @ rx_rest t"
    using later_span [OF assms] by (simp add: rx_text_def)
  then show ?thesis by (metis sublist_appendI)
qed

lemma groups_in_same: "rx_groups t = rx_groups s \<Longrightarrow> rx_text t = rx_text s \<Longrightarrow> groups_in s \<Longrightarrow> groups_in t"
  by (simp add: groups_in_def)

lemma match_groups_in: "t \<in> set (rx_match a s) \<Longrightarrow> groups_in s \<Longrightarrow> groups_in t"
proof (induction a s arbitrary: t rule: rx_match.induct)
  case (2 f s)
  then show ?case using take_groups(1) match_text [of t "Cls f" s] by (metis groups_in_same rx_match.simps(2))
next
  case (3 a b s)
  then obtain u where "u \<in> set (rx_match a s)" "t \<in> set (rx_match b u)" by (auto simp only: in_match_Seq)
  with 3 show ?case by blast
next
  case (5 a s)
  then show ?case using in_match_Star [of t a s] by blast
next
  case (6 a s)
  then show ?case using in_match_Lazy [of t a s] by blast
next
  case (7 i a s)
  then obtain u where u: "u \<in> set (rx_match a s)"
    and t: "t = (rx_read u, rx_rest u, (i, rx_span s u) # rx_groups u)"
    by (auto simp only: in_match_Grp)
  have "sublist (rx_span s u) (rx_text s)" by (rule span_sublist) (rule rx_match_later [OF u])
  moreover have "rx_text t = rx_text s" "rx_text u = rx_text s"
    using match_text [OF u] by (simp_all add: t rx_text_def)
  moreover have "groups_in u" using 7 u by blast
  ultimately show ?case by (simp add: groups_in_def t)
next
  case (8 i s)
  then obtain w where "t \<in> set (take_text w s)" by (auto split: option.splits)
  then have "rx_groups t = rx_groups s" "rx_text t = rx_text s"
    using take_groups(2) later_take_text later_text by blast+
  with 8 show ?case by (blast intro: groups_in_same)
qed (auto split: if_splits)

lemma first_match_in: "first_match a p r = Some t \<Longrightarrow> t \<in> set (rx_match a (p, r, []))"
  by (auto simp: first_match_def split: list.splits)

lemma search_from_groups:
  "search_from a p r = Some (w, g) \<Longrightarrow> (i, v) \<in> set g \<Longrightarrow> sublist v (rev p @ r)"
proof (induction a p r rule: search_from.induct)
  case (1 a p)
  then obtain t where "first_match a p [] = Some t" and g: "g = rx_groups t" by auto
  then have t: "t \<in> set (rx_match a (p, [], []))" by (blast dest: first_match_in)
  have "groups_in t" by (rule match_groups_in [OF t]) (simp add: groups_in_def)
  then show ?case using 1 match_text [OF t] by (auto simp: groups_in_def g rx_text_def)
next
  case (2 a p c r)
  show ?case
  proof (cases "first_match a p (c # r)")
    case None
    with 2 show ?thesis by simp
  next
    case (Some t)
    then have t: "t \<in> set (rx_match a (p, c # r, []))" by (rule first_match_in)
    have "groups_in t" by (rule match_groups_in [OF t]) (simp add: groups_in_def)
    then show ?thesis using 2 Some match_text [OF t] by (auto simp: groups_in_def rx_text_def)
  qed
qed

lemma search_groups: "search a s = Some (w, g) \<Longrightarrow> map_of g i = Some v \<Longrightarrow> sublist v s"
  using search_from_groups [of a "[]" s w g i v] by (auto simp: search_def dest: map_of_SomeD)

text \<open>Where a scan reports a match, the pattern matched that text there.\<close>

lemma scan_from_matches:
  "Inr (w, g) \<in> set (scan_from a p r) \<Longrightarrow>
    \<exists>q v t. t \<in> set (rx_match a (q, v, [])) \<and> w = rx_span (q, v, []) t \<and> g = rx_groups t"
proof (induction a p r rule: scan_from.induct)
  case (2 a p c r)
  show ?case
  proof (cases "first_match a p (c # r)")
    case None
    with 2 show ?thesis by simp
  next
    case (Some t)
    then have "t \<in> set (rx_match a (p, c # r, []))"
      by (auto simp: first_match_def split: list.splits)
    moreover from Some 2 have "(w = rx_span (p, c # r, []) t \<and> g = rx_groups t) \<or>
      (\<exists>q v t. t \<in> set (rx_match a (q, v, [])) \<and> w = rx_span (q, v, []) t \<and> g = rx_groups t)"
      by (auto split: if_splits)
    ultimately show ?thesis by blast
  qed
qed simp

lemma scan_matches:
  "Inr (w, g) \<in> set (scan a s) \<Longrightarrow>
    \<exists>q v t. t \<in> set (rx_match a (q, v, [])) \<and> w = rx_span (q, v, []) t \<and> g = rx_groups t"
  unfolding scan_def by (rule scan_from_matches)

subsection \<open>Where a scan reports nothing\<close>

text \<open>Expressions that read at least one character on every match.\<close>

fun reads_some :: "rx \<Rightarrow> bool" where
  "reads_some (Cls f) = True"
| "reads_some (Seq a b) = (reads_some a \<or> reads_some b)"
| "reads_some (Alt a b) = (reads_some a \<and> reads_some b)"
| "reads_some (Grp i a) = reads_some a"
| "reads_some _ = False"

lemma later_shorter: "later s t \<Longrightarrow> length (rx_rest t) \<le> length (rx_rest s)"
  by (auto simp: later_def)

lemma reads_some_shorter:
  "reads_some a \<Longrightarrow> t \<in> set (rx_match a s) \<Longrightarrow> length (rx_rest t) < length (rx_rest s)"
proof (induction a arbitrary: s t rule: reads_some.induct)
  case (1 f)
  then show ?case by (cases "(f, s)" rule: take_class.cases) (auto split: if_splits)
next
  case (2 a b)
  then obtain u where u: "u \<in> set (rx_match a s)" "t \<in> set (rx_match b u)" by (auto simp only: in_match_Seq)
  then have "length (rx_rest u) \<le> length (rx_rest s)" "length (rx_rest t) \<le> length (rx_rest u)"
    by (auto dest!: rx_match_later later_shorter)
  with 2 u show ?case by fastforce
next
  case (4 i a)
  then obtain u where "u \<in> set (rx_match a s)" "rx_rest t = rx_rest u"
    unfolding in_match_Grp by auto
  with 4 show ?case by simp
qed auto

lemma scan_from_skips:
  "scan_from a p r = us @ Inl c # vs \<Longrightarrow> reads_some a \<Longrightarrow>
    \<exists>q. rx_match a (q, c # concat (map piece_text vs), []) = []"
proof (induction a p r arbitrary: us rule: scan_from.induct)
  case (2 a p d r)
  show ?case
  proof (cases "first_match a p (d # r)")
    case None
    then have e: "scan_from a p (d # r) = Inl d # scan_from a (d # p) r" by simp
    show ?thesis
    proof (cases us)
      case Nil
      from "2.prems"(1) have "Inl d # scan_from a (d # p) r = us @ Inl c # vs" unfolding e .
      with Nil have "c = d" "vs = scan_from a (d # p) r" by auto
      then show ?thesis using None by (auto simp: scan_from_text first_match_def split: list.splits)
    next
      case (Cons u us')
      from "2.prems"(1) have "Inl d # scan_from a (d # p) r = us @ Inl c # vs" unfolding e .
      with Cons have "scan_from a (d # p) r = us' @ Inl c # vs" by simp
      then show ?thesis using "2.IH"(1) None "2.prems"(2) by blast
    qed
  next
    case (Some t)
    then have "t \<in> set (rx_match a (p, d # r, []))" by (auto simp: first_match_def split: list.splits)
    then have less: "length (rx_rest t) < length (d # r)"
      using reads_some_shorter [OF "2.prems"(2)] by fastforce
    with Some "2.prems"(1) obtain us' where "scan_from a (rx_read t) (rx_rest t) = us' @ Inl c # vs"
      by (cases us) auto
    then show ?thesis using "2.IH"(2) Some less "2.prems"(2) by blast
  qed
qed simp

lemma scan_skips:
  "scan a s = us @ Inl c # vs \<Longrightarrow> reads_some a \<Longrightarrow>
    \<exists>q. rx_match a (q, c # concat (map piece_text vs), []) = []"
  unfolding scan_def by (rule scan_from_skips)

subsection \<open>Finding a known text\<close>

text \<open>
  Introduction rules that build a match of a known text piece by piece: \<open>reads a w s t\<close> says
  that from \<open>s\<close> the expression can read exactly \<open>w\<close> and arrive at \<open>t\<close>.
\<close>

named_theorems rx_intros "matches of a known text"

lemma reads_Seq [rx_intros]:
  "u \<in> set (rx_match a s) \<Longrightarrow> t \<in> set (rx_match b u) \<Longrightarrow> t \<in> set (rx_match (Seq a b) s)"
  unfolding in_match_Seq by blast

lemma reads_lit_ci:
  "map upper_ascii v = map upper_ascii w \<Longrightarrow>
    (rev v @ p, r, g) \<in> set (rx_match (lit_ci w) (p, v @ r, g))"
proof (induction w arbitrary: v p)
  case (Cons c w)
  then obtain d v' where v: "v = d # v'" by (cases v) auto
  with Cons.prems have "(rev v' @ d # p, r, g) \<in> set (rx_match (lit_ci w) (d # p, v' @ r, g))"
    by (intro Cons.IH) simp
  with v Cons.prems show ?case by simp
qed simp

lemma reads_Star_class:
  "list_all f v \<Longrightarrow> (rev v @ p, r, g) \<in> set (rx_match (Star (Cls f)) (p, v @ r, g))"
proof (induction v arbitrary: p)
  case Nil
  then show ?case using in_match_Star [of "(p, r, g)" "Cls f" "(p, r, g)"] by simp
next
  case (Cons c v)
  then have "(rev v @ c # p, r, g) \<in> set (rx_match (Star (Cls f)) (c # p, v @ r, g))" by simp
  moreover have "(c # p, v @ r, g) \<in> set (rx_match (Cls f) (p, (c # v) @ r, g))"
    and "advances (p, (c # v) @ r, g) (c # p, v @ r, g)"
    using Cons.prems by (simp_all add: advances_def)
  ultimately have "(rev v @ c # p, r, g) \<in> set (rx_match (Star (Cls f)) (p, (c # v) @ r, g))"
    using in_match_Star by blast
  then show ?case by simp
qed

lemma reads_spaces1:
  "v \<noteq> [] \<Longrightarrow> list_all py_isspace v \<Longrightarrow>
    (rev v @ p, r, g) \<in> set (rx_match spaces1 (p, v @ r, g))"
proof -
  assume v: "v \<noteq> []" "list_all py_isspace v"
  then obtain c v' where "v = c # v'" "py_isspace c" "list_all py_isspace v'" by (cases v) auto
  with reads_Star_class [of py_isspace v' "c # p" r g] show ?thesis
    by (simp add: spaces1_def plus_def)
qed

lemma reads_alts:
  "a \<in> set as \<Longrightarrow> t \<in> set (rx_match a s) \<Longrightarrow> t \<in> set (rx_match (alts as) s)"
  by (metis empty_iff in_match_alts list.set(1))

lemma reads_Grp:
  "(q, v, g') \<in> set (rx_match a s) \<Longrightarrow> (q, v, (i, rx_span s (q, v, g')) # g') \<in> set (rx_match (Grp i a) s)"
  unfolding in_match_Grp by (rule bexI [of _ "(q, v, g')"]) simp_all

lemma reads_lit: "(rev w @ p, r, g) \<in> set (rx_match (lit w) (p, w @ r, g))"
  by (simp add: rx_match_lit)

lemma reads_Lazy_any: "(rev v @ p, r, g) \<in> set (rx_match (Lazy any) (p, v @ r, g))"
proof (induction v arbitrary: p)
  case Nil
  then show ?case using in_match_Lazy [of "(p, r, g)" any "(p, r, g)"] by simp
next
  case (Cons c v)
  then have "(rev v @ c # p, r, g) \<in> set (rx_match (Lazy any) (c # p, v @ r, g))" by simp
  moreover have "(c # p, v @ r, g) \<in> set (rx_match any (p, (c # v) @ r, g))"
    and "advances (p, (c # v) @ r, g) (c # p, v @ r, g)"
    by (simp_all add: advances_def any_def)
  ultimately have "(rev v @ c # p, r, g) \<in> set (rx_match (Lazy any) (p, (c # v) @ r, g))"
    using in_match_Lazy by blast
  then show ?case by simp
qed

lemma reads_Eps: "(p, r, g) \<in> set (rx_match Eps (p, r, g))"
  by simp

text \<open>Greedy repetition of a class: the engine's first answer reads as far as the class goes.\<close>

lemma Star_class_first:
  "\<exists>ts. rx_match (Star (Cls f)) (p, r, g) =
     (rev (takeWhile f r) @ p, dropWhile f r, g) # ts"
proof (induction r arbitrary: p)
  case Nil
  then show ?case by (subst rx_match.simps(5)) simp
next
  case (Cons c r)
  then obtain ts where "rx_match (Star (Cls f)) (c # p, r, g) =
      (rev (takeWhile f r) @ c # p, dropWhile f r, g) # ts" by blast
  then show ?case by (subst rx_match.simps(5)) (simp add: advances_def)
qed

lemma concat_map_first: "xs = x # ys \<Longrightarrow> f x = y # zs \<Longrightarrow> \<exists>ts. concat (map f xs) = y # ts"
  by simp

lemma plus_class_first:
  "f c \<Longrightarrow> \<exists>ts. rx_match (plus (Cls f)) (p, c # r, g) =
     (rev (takeWhile f r) @ c # p, dropWhile f r, g) # ts"
  using Star_class_first [of f "c # p" r g] by (simp add: plus_def)

end
