(* ===== verification/SqlText.thy ===== *)
theory SqlText
  imports PyRegex
begin

text \<open>
  \<^verbatim>\<open>backend/app/core/sql_text.py\<close>: the one left-to-right scanner that finds comments and
  quoted runs in SQL text, per dialect, and its three uses (blank the comments, blank comments
  and literals, list the masked spans). The scanner is the module's regular expression,
  branch by branch; its named groups are numbered below.
\<close>

datatype dialect = Postgres | Mysql | Clickhouse | DefaultSql

definition g_block :: nat where "g_block = 1"
definition g_line :: nat where "g_line = 2"
definition g_sq :: nat where "g_sq = 3"
definition g_dq :: nat where "g_dq = 4"
definition g_bq :: nat where "g_bq = 5"
definition g_dollar :: nat where "g_dollar = 6"
definition g_tag :: nat where "g_tag = 7"

lemmas group_defs = g_block_def g_line_def g_sq_def g_dq_def g_bq_def g_dollar_def g_tag_def

subsection \<open>The scanner\<close>

text \<open>A quoted run: the quote, then non-quotes and doubled quotes, then the quote.\<close>

definition quoted :: "char \<Rightarrow> rx" where
  "quoted q = seqs [chr q, Star (Alt (Cls (\<lambda>c. c \<noteq> q)) (lit [q, q])), chr q]"

definition not_newline :: rx where
  "not_newline = Cls (\<lambda>c. c \<noteq> CHR 0x0A)"

definition dollar_quoted :: rx where
  "dollar_quoted = seqs
     [chr (CHR ''$''),
      Grp g_tag (Alt (Seq (Cls (\<lambda>c. is_letter c \<or> c = CHR ''_''))
                          (Star (Cls (\<lambda>c. is_letter c \<or> is_digit c \<or> c = CHR ''_'')))) Eps),
      chr (CHR ''$''), Lazy any, chr (CHR ''$''), Back g_tag, chr (CHR ''$'')]"

definition quote_branches :: "dialect \<Rightarrow> rx list" where
  "quote_branches d = (case d of
     Postgres \<Rightarrow> [Grp g_sq (quoted (CHR 0x27)), Grp g_dq (quoted (CHR 0x22)), Grp g_dollar dollar_quoted]
   | Mysql \<Rightarrow> [Grp g_sq (quoted (CHR 0x27)), Grp g_dq (quoted (CHR 0x22)), Grp g_bq (quoted (CHR 0x60))]
   | Clickhouse \<Rightarrow> [Grp g_sq (quoted (CHR 0x27)), Grp g_dq (quoted (CHR 0x22)), Grp g_bq (quoted (CHR 0x60))]
   | DefaultSql \<Rightarrow> [Grp g_sq (quoted (CHR 0x27)), Grp g_dq (quoted (CHR 0x22)), Grp g_bq (quoted (CHR 0x60))])"

definition line_comment_forms :: "dialect \<Rightarrow> rx list" where
  "line_comment_forms d = (case d of
     Postgres \<Rightarrow> [Seq (lit ''--'') (Star not_newline)]
   | Mysql \<Rightarrow>
      [seqs [lit ''--'', NotAhead (Cls (\<lambda>c. \<not> py_isspace c \<and> \<not> code_pt c \<le> 31)), Star not_newline],
       Seq (lit ''#'') (Star not_newline)]
   | Clickhouse \<Rightarrow>
      [Seq (lit ''--'') (Star not_newline), Seq (lit ''#'') (Star not_newline),
       Seq (lit ''//'') (Star not_newline)]
   | DefaultSql \<Rightarrow> [Seq (lit ''--'') (Star not_newline)])"

definition block_comment :: rx where
  "block_comment = seqs [lit ''/*'', Lazy any, lit ''*/'']"

definition build_scanner :: "dialect \<Rightarrow> rx" where
  "build_scanner d =
     alts (Grp g_block block_comment # Grp g_line (alts (line_comment_forms d)) # quote_branches d)"

definition has_group :: "nat \<Rightarrow> (nat \<times> string) list \<Rightarrow> bool" where
  "has_group i g \<longleftrightarrow> map_of g i \<noteq> None"

definition is_comment_match :: "(nat \<times> string) list \<Rightarrow> bool" where
  "is_comment_match g \<longleftrightarrow> has_group g_block g \<or> has_group g_line g"

definition blank_comment :: "string \<Rightarrow> (nat \<times> string) list \<Rightarrow> string" where
  "blank_comment w g = (if is_comment_match g then '' '' else w)"

definition sql_dialect_for :: "string \<Rightarrow> dialect" where
  "sql_dialect_for db_type = (let t = py_lower db_type in
     if t = ''postgres'' \<or> t = ''postgresql'' then Postgres
     else if t = ''mysql'' \<or> t = ''mariadb'' then Mysql
     else if t = ''clickhouse'' then Clickhouse
     else DefaultSql)"

definition strip_sql_comments :: "string \<Rightarrow> string \<Rightarrow> string" where
  "strip_sql_comments query db_type =
     sub_by (build_scanner (sql_dialect_for db_type)) blank_comment query"

definition dq_is_a_literal :: "dialect \<Rightarrow> bool" where
  "dq_is_a_literal d \<longleftrightarrow> d \<noteq> Postgres"

definition literal_groups :: "dialect \<Rightarrow> nat list" where
  "literal_groups d = [g_sq, g_dollar] @ (if dq_is_a_literal d then [g_dq] else [])"

definition is_masked :: "dialect \<Rightarrow> (nat \<times> string) list \<Rightarrow> bool" where
  "is_masked d g \<longleftrightarrow> is_comment_match g \<or> list_ex (\<lambda>i. has_group i g) (literal_groups d)"

definition strip_sql_comments_and_literals :: "string \<Rightarrow> string \<Rightarrow> string" where
  "strip_sql_comments_and_literals query db_type =
     (let d = sql_dialect_for db_type
      in sub_by (build_scanner d) (\<lambda>w g. if is_masked d g then '' '' else w) query)"

definition masked_spans :: "string \<Rightarrow> string \<Rightarrow> (nat \<times> nat) list" where
  "masked_spans query db_type =
     (let d = sql_dialect_for db_type
      in map (\<lambda>(a, b, g). (a, b))
           (filter (\<lambda>(a, b, g). is_masked d g) (spans_from 0 (scan (build_scanner d) query))))"

definition starts_inside_masked :: "nat \<Rightarrow> (nat \<times> nat) list \<Rightarrow> bool" where
  "starts_inside_masked off spans \<longleftrightarrow> list_ex (\<lambda>(a, b). a \<le> off \<and> off < b) spans"

subsection \<open>What the scanner takes for a comment\<close>

definition is_block_text :: "string \<Rightarrow> bool" where
  "is_block_text w \<longleftrightarrow> (\<exists>u. w = ''/*'' @ u @ ''*/'')"

definition line_openers :: "dialect \<Rightarrow> string list" where
  "line_openers d = (case d of
     Postgres \<Rightarrow> [''--''] | Mysql \<Rightarrow> [''--'', ''#''] | Clickhouse \<Rightarrow> [''--'', ''#'', ''//'']
   | DefaultSql \<Rightarrow> [''--''])"

definition is_line_text :: "dialect \<Rightarrow> string \<Rightarrow> bool" where
  "is_line_text d w \<longleftrightarrow> (\<exists>op u. op \<in> set (line_openers d) \<and> w = op @ u \<and> CHR 0x0A \<notin> set u)"

definition is_comment_text :: "dialect \<Rightarrow> string \<Rightarrow> bool" where
  "is_comment_text d w \<longleftrightarrow> is_block_text w \<or> is_line_text d w"

lemma block_comment_text:
  assumes "t \<in> set (rx_match block_comment s)"
  shows "is_block_text (rx_span s t)"
proof -
  from assms obtain u where u: "u \<in> set (rx_match (lit ''/*'') s)"
    and t: "t \<in> set (rx_match (Seq (Lazy any) (lit ''*/'')) u)"
    and s: "rx_span s t = ''/*'' @ rx_span u t"
    unfolding block_comment_def seqs.simps using span_Seq_lit by blast
  from t obtain v where v: "v \<in> set (rx_match (Lazy any) u)" and tv: "t \<in> set (rx_match (lit ''*/'') v)"
    unfolding in_match_Seq by blast
  then have "rx_span u t = rx_span u v @ ''*/''"
    using rx_span_trans rx_match_later in_match_lit by metis
  with s show ?thesis unfolding is_block_text_def by auto
qed

lemma line_form_text:
  assumes "t \<in> set (rx_match (Seq (lit op) (Star not_newline)) s)"
  shows "\<exists>u. rx_span s t = op @ u \<and> CHR 0x0A \<notin> set u"
proof -
  from assms obtain u where "t \<in> set (rx_match (Star not_newline) u)" and "rx_span s t = op @ rx_span u t"
    using span_Seq_lit by blast
  moreover from this have "list_all (\<lambda>c. c \<noteq> CHR 0x0A) (rx_span u t)"
    unfolding not_newline_def by (intro span_Star_class)
  ultimately show ?thesis by (auto simp: list_all_iff)
qed

lemma line_form_guarded_text:
  assumes "t \<in> set (rx_match (seqs [lit op, NotAhead a, Star not_newline]) s)"
  shows "\<exists>u. rx_span s t = op @ u \<and> CHR 0x0A \<notin> set u"
proof -
  from assms obtain u where "u \<in> set (rx_match (lit op) s)" "t \<in> set (rx_match (Star not_newline) u)"
    by (auto simp only: in_match_Seq seqs.simps in_match_NotAhead)
  then have "t \<in> set (rx_match (Seq (lit op) (Star not_newline)) s)"
    unfolding in_match_Seq by blast
  then show ?thesis by (rule line_form_text)
qed

lemma line_comment_text:
  assumes "t \<in> set (rx_match (alts (line_comment_forms d)) s)"
  shows "is_line_text d (rx_span s t)"
  using assms unfolding is_line_text_def line_comment_forms_def line_openers_def
  by (cases d; simp only: dialect.case alts.simps in_match_Alt list.set)
    (blast dest: line_form_text line_form_guarded_text)+

lemma quoted_groups: "group_ids (quoted q) = {}" "group_ids dollar_quoted = {g_tag}"
  by (simp_all add: quoted_def dollar_quoted_def chr_def any_def)

lemma quote_branches_groups:
  assumes "a \<in> set (quote_branches d)"
  shows "g_block \<notin> group_ids a \<and> g_line \<notin> group_ids a"
proof -
  have "list_all (\<lambda>a. g_block \<notin> group_ids a \<and> g_line \<notin> group_ids a) (quote_branches d)"
    by (cases d) (simp_all add: quote_branches_def quoted_groups group_defs)
  with assms show ?thesis by (auto simp: list_all_iff)
qed

theorem scanner_comment_is_comment:
  assumes "t \<in> set (rx_match (build_scanner d) (p, r, []))" and "is_comment_match (rx_groups t)"
  shows "is_comment_text d (rx_span (p, r, []) t)"
proof -
  let ?s = "(p, r, []) :: rx_pos"
  from assms(1) consider "t \<in> set (rx_match (Grp g_block block_comment) ?s)"
    | "t \<in> set (rx_match (Grp g_line (alts (line_comment_forms d))) ?s)"
    | a where "a \<in> set (quote_branches d)" "t \<in> set (rx_match a ?s)"
    unfolding build_scanner_def by (subst (asm) in_match_alts) auto
  then show ?thesis
  proof cases
    case 1
    then obtain u where "u \<in> set (rx_match block_comment ?s)" and "rx_rest t = rx_rest u"
      by (auto simp only: in_match_Grp rx_rest.simps)
    then show ?thesis using block_comment_text [of u ?s]
      by (simp add: is_comment_text_def rx_span_def)
  next
    case 2
    then obtain u where "u \<in> set (rx_match (alts (line_comment_forms d)) ?s)" and "rx_rest t = rx_rest u"
      by (auto simp only: in_match_Grp rx_rest.simps)
    then show ?thesis using line_comment_text [of u d ?s]
      by (simp add: is_comment_text_def rx_span_def)
  next
    case 3
    then have "\<not> is_comment_match (rx_groups t)"
      using match_groups [OF 3(2)] quote_branches_groups [OF 3(1)]
      by (simp add: is_comment_match_def has_group_def)
    with assms(2) show ?thesis by simp
  qed
qed

subsection \<open>Stripping\<close>

definition pieces_of :: "string \<Rightarrow> string \<Rightarrow> (bool \<times> string) list" where
  "pieces_of query db_type =
     map (\<lambda>x. case x of Inl c \<Rightarrow> (False, [c]) | Inr (w, g) \<Rightarrow> (is_comment_match g, w))
       (scan (build_scanner (sql_dialect_for db_type)) query)"

lemma pieces_of_text: "concat (map snd (pieces_of query db_type)) = query"
proof -
  have "map snd (pieces_of query db_type) =
      map piece_text (scan (build_scanner (sql_dialect_for db_type)) query)"
    by (auto simp: pieces_of_def piece_text_def split: sum.split prod.split)
  then show ?thesis by (simp add: scan_text)
qed

lemma strip_pieces:
  "strip_sql_comments query db_type =
     concat (map (\<lambda>(b, w). if b then '' '' else w) (pieces_of query db_type))"
  unfolding strip_sql_comments_def sub_by_def pieces_of_def
  by (auto simp: blank_comment_def comp_def split: sum.split prod.split intro!: arg_cong [where f = concat])

lemma pieces_comments:
  "(True, w) \<in> set (pieces_of query db_type) \<Longrightarrow> is_comment_text (sql_dialect_for db_type) w"
  unfolding pieces_of_def
  by (auto split: sum.splits prod.splits dest!: scan_matches dest: scanner_comment_is_comment)

text \<open>A text with none of the characters that open a comment or a quote is not touched.\<close>

definition plain_char :: "char \<Rightarrow> bool" where
  "plain_char c \<longleftrightarrow> c \<notin> {CHR ''/'', CHR ''-'', CHR ''#'', CHR 0x27, CHR 0x22, CHR 0x60, CHR ''$''}"

abbreviation plain :: "string \<Rightarrow> bool" where
  "plain \<equiv> list_all plain_char"

lemma scanner_plain_char:
  "plain_char c \<Longrightarrow> rx_match (build_scanner d) (p, c # r, []) = []"
  by (cases d)
    (simp_all add: plain_char_def build_scanner_def quote_branches_def line_comment_forms_def
      block_comment_def quoted_def dollar_quoted_def chr_def)

lemma scanner_at_end: "rx_match (build_scanner d) (p, [], []) = []"
  by (cases d)
    (simp_all add: build_scanner_def quote_branches_def line_comment_forms_def
      block_comment_def quoted_def dollar_quoted_def chr_def)

lemma scan_plain: "plain s \<Longrightarrow> scan (build_scanner d) s = map Inl s"
  unfolding scan_def
proof (rule scan_from_no_match)
  fix u v assume "plain s" "s = u @ v"
  then show "first_match (build_scanner d) (rev u @ []) v = None"
    by (cases v) (simp_all add: first_match_def scanner_plain_char scanner_at_end)
qed

lemma sub_by_Inl: "scan a s = map Inl s \<Longrightarrow> sub_by a f s = s"
  by (simp add: sub_by_def comp_def)

lemma strip_plain: "plain s \<Longrightarrow> strip_sql_comments s db = s"
  by (simp add: strip_sql_comments_def scan_plain sub_by_Inl)

lemma strip_literals_plain: "plain s \<Longrightarrow> strip_sql_comments_and_literals s db = s"
  by (simp add: strip_sql_comments_and_literals_def scan_plain sub_by_Inl Let_def)

lemma spans_from_Inl: "spans_from n (map Inl s) = []"
  by (induction s arbitrary: n) simp_all

lemma masked_plain: "plain s \<Longrightarrow> masked_spans s db = []"
  by (simp add: masked_spans_def scan_plain spans_from_Inl Let_def)

subsection \<open>Spans\<close>

text \<open>The masked spans are in order, disjoint and inside the text.\<close>

fun ordered_spans :: "nat \<Rightarrow> nat \<Rightarrow> (nat \<times> nat) list \<Rightarrow> bool" where
  "ordered_spans lo hi [] \<longleftrightarrow> lo \<le> hi"
| "ordered_spans lo hi ((a, b) # xs) \<longleftrightarrow> lo \<le> a \<and> a \<le> b \<and> ordered_spans b hi xs"

lemma ordered_spans_mono: "ordered_spans lo hi xs \<Longrightarrow> lo' \<le> lo \<Longrightarrow> ordered_spans lo' hi xs"
  by (cases xs) auto

lemma ordered_spans_from:
  "ordered_spans n (n + length (concat (map piece_text xs))) (map (\<lambda>(a, b, g). (a, b)) (spans_from n xs))"
proof (induction n xs rule: spans_from.induct)
  case (2 n c xs)
  then show ?case using ordered_spans_mono by (fastforce simp: piece_text_def)
next
  case (3 n w g xs)
  then show ?case by (simp add: piece_text_def add.assoc)
qed simp

subsection \<open>What no comment is left in\<close>

text \<open>
  A comment starts at a place of the text: a closed block comment, or an opener of a line
  comment of the dialect (MySQL's double dash only when what follows it is white space, a
  control character or the end).
\<close>

definition comment_starts :: "dialect \<Rightarrow> string \<Rightarrow> bool" where
  "comment_starts d s \<longleftrightarrow> (\<exists>u v. s = ''/*'' @ u @ ''*/'' @ v) \<or>
     (\<exists>op v. op \<in> set (line_openers d) \<and> s = op @ v \<and>
       (d = Mysql \<and> op = ''--'' \<longrightarrow> \<not> head_is (\<lambda>c. \<not> py_isspace c \<and> \<not> code_pt c \<le> 31) v))"

lemma scanner_reads_some: "reads_some (build_scanner d)"
  by (cases d) (simp_all add: build_scanner_def quote_branches_def line_comment_forms_def
      block_comment_def quoted_def dollar_quoted_def chr_def)

lemma reads_block:
  "rx_match block_comment (p, ''/*'' @ u @ ''*/'' @ v, []) \<noteq> []"
proof -
  have "(rev ''*/'' @ rev u @ rev ''/*'' @ p, v, []) \<in> set (rx_match block_comment (p, ''/*'' @ u @ ''*/'' @ v, []))"
    unfolding block_comment_def seqs.simps
    by (rule reads_Seq [OF reads_lit reads_Seq [OF reads_Lazy_any reads_lit]])
  then show ?thesis by (metis empty_iff list.set(1))
qed

lemma reads_line_form: "\<exists>t. t \<in> set (rx_match (Seq (lit op) (Star not_newline)) (p, op @ v, g))"
proof -
  have "(rev [] @ rev op @ p, v, g) \<in> set (rx_match (Star not_newline) (rev op @ p, [] @ v, g))"
    unfolding not_newline_def by (rule reads_Star_class) simp
  then have "(rev op @ p, v, g) \<in> set (rx_match (Star not_newline) (rev op @ p, v, g))" by simp
  with reads_lit [of op p v g] show ?thesis by (blast intro: reads_Seq)
qed

lemma no_class_at: "\<not> head_is f v \<Longrightarrow> rx_match (Cls f) (p, v, g) = []"
  by (cases v) (simp_all add: head_is_def)

lemma reads_line_form_guarded:
  assumes "\<not> head_is f v"
  shows "\<exists>t. t \<in> set (rx_match (seqs [lit op, NotAhead (Cls f), Star not_newline]) (p, op @ v, g))"
proof -
  have "(rev op @ p, v, g) \<in> set (rx_match (NotAhead (Cls f)) (rev op @ p, v, g))"
    unfolding in_match_NotAhead using no_class_at [OF assms] by simp
  moreover have "(rev [] @ rev op @ p, v, g) \<in> set (rx_match (Star not_newline) (rev op @ p, [] @ v, g))"
    unfolding not_newline_def by (rule reads_Star_class) simp
  then have "(rev op @ p, v, g) \<in> set (rx_match (Star not_newline) (rev op @ p, v, g))" by simp
  ultimately show ?thesis unfolding seqs.simps using reads_lit [of op p v g] by (blast intro: reads_Seq)
qed

lemma reads_line:
  assumes "op \<in> set (line_openers d)"
    and "d = Mysql \<and> op = ''--'' \<longrightarrow> \<not> head_is (\<lambda>c. \<not> py_isspace c \<and> \<not> code_pt c \<le> 31) v"
  shows "\<exists>t. t \<in> set (rx_match (alts (line_comment_forms d)) (p, op @ v, []))"
proof (cases "d = Mysql \<and> op = ''--''")
  case True
  then have "seqs [lit ''--'', NotAhead (Cls (\<lambda>c. \<not> py_isspace c \<and> \<not> code_pt c \<le> 31)), Star not_newline]
      \<in> set (line_comment_forms d)" by (simp add: line_comment_forms_def)
  moreover obtain t where "t \<in> set (rx_match (seqs [lit ''--'', NotAhead (Cls (\<lambda>c. \<not> py_isspace c \<and> \<not> code_pt c \<le> 31)), Star not_newline]) (p, ''--'' @ v, []))"
    using reads_line_form_guarded assms(2) True by blast
  ultimately show ?thesis using True by (blast intro: reads_alts)
next
  case False
  with assms(1) have "Seq (lit op) (Star not_newline) \<in> set (line_comment_forms d)"
    by (cases d) (auto simp: line_comment_forms_def line_openers_def)
  then show ?thesis using reads_line_form by (blast intro: reads_alts)
qed

lemma reads_scanner:
  assumes "comment_starts d s"
  shows "rx_match (build_scanner d) (p, s, []) \<noteq> []"
proof -
  have blk: "rx_match block_comment (p, s, []) \<noteq> [] \<Longrightarrow> ?thesis"
    unfolding build_scanner_def by (cases "quote_branches d") (simp_all add: quote_branches_def)
  have line: "rx_match (alts (line_comment_forms d)) (p, s, []) \<noteq> [] \<Longrightarrow> ?thesis"
    unfolding build_scanner_def by (cases "quote_branches d") simp_all
  from assms consider u v where "s = ''/*'' @ u @ ''*/'' @ v"
    | op v where "op \<in> set (line_openers d)" "s = op @ v"
      "d = Mysql \<and> op = ''--'' \<longrightarrow> \<not> head_is (\<lambda>c. \<not> py_isspace c \<and> \<not> code_pt c \<le> 31) v"
    unfolding comment_starts_def by blast
  then show ?thesis
  proof cases
    case 1
    then show ?thesis using blk reads_block by metis
  next
    case 2
    then show ?thesis using line reads_line [OF 2(1,3)] by (metis empty_iff list.set(1))
  qed
qed

lemma Grp_sets: "t \<in> set (rx_match (Grp i a) s) \<Longrightarrow> has_group i (rx_groups t)"
  unfolding in_match_Grp by (auto simp: has_group_def)

lemma kept_pieces:
  assumes "pieces_of query db_type = us @ (False, w) # vs"
  shows "(\<exists>a \<in> set (quote_branches (sql_dialect_for db_type)). \<exists>p r t.
           t \<in> set (rx_match a (p, r, [])) \<and> w = rx_span (p, r, []) t) \<or>
        length w = 1 \<and> \<not> comment_starts (sql_dialect_for db_type) (w @ concat (map snd vs))"
proof -
  let ?d = "sql_dialect_for db_type"
  let ?f = "\<lambda>x. case x of Inl c \<Rightarrow> (False, [c]) | Inr (w, g) \<Rightarrow> (is_comment_match g, w)"
  have snd_f: "snd (?f x) = piece_text x" for x by (auto simp: piece_text_def split: sum.split prod.split)
  from assms obtain xs x ys where e: "scan (build_scanner ?d) query = xs @ x # ys"
    and x': "(False, w) = ?f x" and ys: "vs = map ?f ys"
    unfolding pieces_of_def map_eq_append_conv Cons_eq_map_conv by blast
  from x' have x: "?f x = (False, w)" by (rule sym)
  have "map snd vs = map piece_text ys" unfolding ys map_map using snd_f by (simp add: comp_def)
  then have vs: "concat (map snd vs) = concat (map piece_text ys)" by simp
  show ?thesis
  proof (cases x)
    case (Inl c)
    from scan_skips [OF e [unfolded Inl] scanner_reads_some]
    obtain q where "rx_match (build_scanner ?d) (q, c # concat (map piece_text ys), []) = []" by blast
    then have "\<not> comment_starts ?d (c # concat (map piece_text ys))" using reads_scanner by blast
    with Inl x vs show ?thesis by (intro disjI2) auto
  next
    case (Inr m)
    then obtain g where m: "x = Inr (w, g)" and g: "\<not> is_comment_match g" using x by (cases m) auto
    then have "Inr (w, g) \<in> set (scan (build_scanner ?d) query)" using e by simp
    then obtain q v t where t: "t \<in> set (rx_match (build_scanner ?d) (q, v, []))"
      and w: "w = rx_span (q, v, []) t" and gt: "g = rx_groups t"
      using scan_matches by blast
    from t consider "t \<in> set (rx_match (Grp g_block block_comment) (q, v, []))"
      | "t \<in> set (rx_match (Grp g_line (alts (line_comment_forms ?d))) (q, v, []))"
      | a where "a \<in> set (quote_branches ?d)" "t \<in> set (rx_match a (q, v, []))"
      unfolding build_scanner_def by (subst (asm) in_match_alts) auto
    then show ?thesis
    proof cases
      case 1
      with g gt show ?thesis using Grp_sets by (metis is_comment_match_def)
    next
      case 2
      with g gt show ?thesis using Grp_sets by (metis is_comment_match_def)
    next
      case 3
      with w show ?thesis by blast
    qed
  qed
qed

lemma ordered_spans_map_filter:
  "ordered_spans lo hi (map f xs) \<Longrightarrow> ordered_spans lo hi (map f (filter P xs))"
proof (induction xs arbitrary: lo)
  case (Cons x xs)
  obtain a b where x: "f x = (a, b)" by fastforce
  with Cons have "ordered_spans b hi (map f (filter P xs))" "lo \<le> a" "a \<le> b" by auto
  then show ?case using x ordered_spans_mono [of b hi "map f (filter P xs)" lo] by auto
qed simp

section \<open>Properties\<close>

text \<open>
  Stripping comments removes comments and nothing else, and misses none outside the
  quotes: the query is a sequence of pieces, each one kept or blanked, whose texts put
  together are the query; the result is the same sequence with one space for each blanked
  piece; every blanked piece is a block comment or a line comment of the dialect; and a kept
  piece is a single character at which no comment starts, or a quoted run that the scanner
  matched.
\<close>

theorem strip_only_comments:
  "\<exists>ps. concat (map snd ps) = query \<and>
     strip_sql_comments query db_type = concat (map (\<lambda>(b, w). if b then '' '' else w) ps) \<and>
     (\<forall>w. (True, w) \<in> set ps \<longrightarrow> is_comment_text (sql_dialect_for db_type) w) \<and>
     (\<forall>us w vs. ps = us @ (False, w) # vs \<longrightarrow>
        (\<exists>a \<in> set (quote_branches (sql_dialect_for db_type)). \<exists>p r t.
           t \<in> set (rx_match a (p, r, [])) \<and> w = rx_span (p, r, []) t) \<or>
        length w = 1 \<and> \<not> comment_starts (sql_dialect_for db_type) (w @ concat (map snd vs)))"
proof (intro exI [of _ "pieces_of query db_type"] conjI allI impI)
  show "concat (map snd (pieces_of query db_type)) = query" by (rule pieces_of_text)
  show "strip_sql_comments query db_type =
      concat (map (\<lambda>(b, w). if b then '' '' else w) (pieces_of query db_type))" by (rule strip_pieces)
next
  fix w assume "(True, w) \<in> set (pieces_of query db_type)"
  then show "is_comment_text (sql_dialect_for db_type) w" by (rule pieces_comments)
next
  fix us w vs assume "pieces_of query db_type = us @ (False, w) # vs"
  then show "(\<exists>a \<in> set (quote_branches (sql_dialect_for db_type)). \<exists>p r t.
           t \<in> set (rx_match a (p, r, [])) \<and> w = rx_span (p, r, []) t) \<or>
        length w = 1 \<and> \<not> comment_starts (sql_dialect_for db_type) (w @ concat (map snd vs))"
    by (rule kept_pieces)
qed

theorem strip_only_comments_witness:
  "\<exists>ps. concat (map snd ps) = ''SELECT/**/1'' \<and> concat (map (\<lambda>(b, w). if b then '' '' else w) ps) = ''SELECT 1''"
proof -
  have "strip_sql_comments ''SELECT/**/1'' ''mysql'' = ''SELECT 1''" by code_simp
  with strip_only_comments [of "''SELECT/**/1''" "''mysql''"] show ?thesis by metis
qed

text \<open>
  The masked spans of a query are half-open, in order, disjoint and inside the text, so
  an offset lies in at most one of them.
\<close>

theorem masked_spans_ordered: "ordered_spans 0 (length query) (masked_spans query db_type)"
proof -
  let ?d = "sql_dialect_for db_type"
  let ?xs = "spans_from 0 (scan (build_scanner ?d) query)"
  have "ordered_spans 0 (length query) (map (\<lambda>(a, b, g). (a, b)) ?xs)"
    using ordered_spans_from [of 0 "scan (build_scanner ?d) query"] by (simp add: scan_text)
  then show ?thesis unfolding masked_spans_def Let_def by (rule ordered_spans_map_filter)
qed

end
