(* ===== verification/Safety.thy ===== *)
theory Safety
  imports SqlText "HOL-Library.List_Lexorder" "HOL-Library.Char_ord"
begin

text \<open>
  \<^verbatim>\<open>backend/app/core/safety.py\<close>: the guard every query passes before it is executed. The
  deny lists are the module's regular expressions, the checks run in the module's order, and a
  refusal carries the part of its message that depends on the query. JSON parsing is the
  parameter \<open>loads\<close> of the MongoDB check (the standard library's parser); JSON rendering is
  modelled, because the check searches the rendered text.
\<close>

datatype safety_level = ReadOnly | AllowDml | Unrestricted

text \<open>The levels ordered by what they allow.\<close>

fun level_rank :: "safety_level \<Rightarrow> nat" where
  "level_rank ReadOnly = 0"
| "level_rank AllowDml = 1"
| "level_rank Unrestricted = 2"

instantiation safety_level :: linorder
begin

definition less_eq_safety_level :: "safety_level \<Rightarrow> safety_level \<Rightarrow> bool" where
  "less_eq_safety_level a b \<longleftrightarrow> level_rank a \<le> level_rank b"

definition less_safety_level :: "safety_level \<Rightarrow> safety_level \<Rightarrow> bool" where
  "less_safety_level a b \<longleftrightarrow> level_rank a < level_rank b"

instance
proof
  fix x y :: safety_level
  assume "x \<le> y" "y \<le> x"
  then show "x = y"
    by (cases x; cases y; simp add: less_eq_safety_level_def)
qed (auto simp: less_eq_safety_level_def less_safety_level_def)

end

lemma level_cases: "a \<le> b \<longleftrightarrow> a = ReadOnly \<or> b = Unrestricted \<or> a = b"
  by (cases a; cases b; simp add: less_eq_safety_level_def)

subsection \<open>The deny lists\<close>

definition dangerous_patterns :: "rx list" where
  "dangerous_patterns =
    [seqs [WordB, Grp 1 (lit_ci ''DROP''), spaces1,
       Grp 2 (alts (map lit_ci [''TABLE'', ''DATABASE'', ''SCHEMA'', ''INDEX'', ''VIEW''])), WordB],
     seqs [WordB, Grp 1 (lit_ci ''TRUNCATE''), spaces1],
     seqs [WordB, Grp 1 (lit_ci ''ALTER''), spaces1,
       Grp 2 (alts (map lit_ci [''TABLE'', ''DATABASE'', ''SCHEMA''])), WordB],
     seqs [WordB, Grp 1 (alts (map lit_ci [''GRANT'', ''REVOKE''])), spaces1],
     seqs [WordB, Grp 1 (lit_ci ''CREATE''), spaces1,
       Grp 2 (alts (map lit_ci [''TABLE'', ''DATABASE'', ''SCHEMA'', ''INDEX'', ''VIEW'', ''USER'', ''ROLE''])),
       WordB],
     seqs [Grp 1 (Alt AtLineStart (chr (CHR '';''))), spaces, lit_ci ''COPY'', WordB],
     seqs [WordB, lit_ci ''INTO'', spaces1, Grp 1 (alts (map lit_ci [''OUTFILE'', ''DUMPFILE''])), WordB],
     seqs [WordB, lit_ci ''LOAD'', spaces1, lit_ci ''DATA'', WordB],
     seqs [Grp 1 (Alt AtLineStart (chr (CHR '';''))), spaces, lit_ci ''DO'', spaces1,
       Grp 2 (alts [chr (CHR ''$''), Seq (lit_ci ''LANGUAGE'') WordB, chr (CHR 0x27)])]]"

definition meta_command :: rx where
  "meta_command = chr (CHR 0x5C)"

definition server_access_funcs :: "dialect \<Rightarrow> string list" where
  "server_access_funcs d = (case d of
     Postgres \<Rightarrow> [''pg_read_file'', ''pg_read_binary_file'', ''pg_ls_dir'', ''pg_stat_file'', ''pg_ls_logdir'',
       ''pg_ls_waldir'', ''lo_import'', ''lo_export'', ''dblink'', ''dblink_connect'']
   | Mysql \<Rightarrow> [''load_file'']
   | Clickhouse \<Rightarrow> [''file'', ''url'', ''s3'', ''hdfs'', ''remote'', ''remotesecure'', ''jdbc'', ''odbc'', ''mysql'',
       ''postgresql'', ''mongodb'', ''sqlite'', ''azureblobstorage'']
   | DefaultSql \<Rightarrow> [])"

definition server_access_names :: "dialect \<Rightarrow> string list" where
  "server_access_names d =
     (if d = DefaultSql
      then server_access_funcs Postgres @ server_access_funcs Mysql @ server_access_funcs Clickhouse
      else server_access_funcs d)"

definition server_access_pattern :: "dialect \<Rightarrow> rx" where
  "server_access_pattern d =
     seqs [WordB, Grp 1 (alts (map lit_ci (sort (remdups (server_access_names d))))), spaces, chr (CHR ''('')]"

definition dml_in_any_position :: rx where
  "dml_in_any_position =
     seqs [Alt AtStart (Cls (\<lambda>c. c = CHR ''('' \<or> c = CHR '';'')), spaces,
       Grp 1 (alts (map lit_ci [''UPDATE'', ''DELETE'', ''INSERT'', ''MERGE'', ''UPSERT'', ''REPLACE''])), WordB,
       NotAhead (Seq spaces (chr (CHR ''('')))]"

definition is_name_quote :: "char \<Rightarrow> bool" where
  "is_name_quote c \<longleftrightarrow> c \<in> {CHR 0x22, CHR 0x27, CHR 0x60}"

definition dml_patterns :: "rx list" where
  "dml_patterns =
    [seqs [WordB, Grp 1 (lit_ci ''INSERT''), spaces1, lit_ci ''INTO'', WordB],
     seqs [WordB, Grp 1 (lit_ci ''UPDATE''), spaces1,
       plus (Cls (\<lambda>c. is_word c \<or> c = CHR ''.'' \<or> is_name_quote c)),
       Star (Grp 2 (seqs [spaces, chr (CHR ''.''), spaces, plus (Cls (\<lambda>c. is_word c \<or> is_name_quote c))])),
       spaces1, lit_ci ''SET'', WordB],
     seqs [WordB, Grp 1 (lit_ci ''DELETE''), spaces1, lit_ci ''FROM'', WordB],
     seqs [WordB, Grp 1 (lit_ci ''MERGE''), spaces1, lit_ci ''INTO'', WordB],
     seqs [WordB, Grp 1 (lit_ci ''UPSERT''), spaces1, lit_ci ''INTO'', WordB],
     seqs [WordB, Grp 1 (lit_ci ''REPLACE''), spaces1, lit_ci ''INTO'', WordB],
     seqs [Grp 1 (Alt AtLineStart (chr (CHR '';''))), spaces, lit_ci ''CALL'', WordB]]"

definition read_only_leading :: "string list" where
  "read_only_leading =
     [''SELECT'', ''WITH'', ''SHOW'', ''EXPLAIN'', ''DESCRIBE'', ''DESC'', ''TABLE'', ''VALUES'', ''EXISTS'']"

definition leading_token :: rx where
  "leading_token = seqs [AtStart, Star (Cls (\<lambda>c. py_isspace c \<or> c = CHR ''('')), Grp 1 (plus (Cls is_letter))]"

subsection \<open>The SQL guard\<close>

datatype reason =
    NoReason
  | MetaCommand
  | Dangerous string
  | MultipleStatements
  | NotReadOnly
  | ServerAccess string
  | DmlNotAllowed string
  | InvalidJson
  | MongoWrite string
  | MongoScript string
  | MongoWriteStage string

record safety_result =
  is_safe :: bool
  why :: reason
  checked_query :: string

definition refuse :: "reason \<Rightarrow> string \<Rightarrow> safety_result" where
  "refuse r q = \<lparr>is_safe = False, why = r, checked_query = q\<rparr>"

definition admit :: "string \<Rightarrow> safety_result" where
  "admit q = \<lparr>is_safe = True, why = NoReason, checked_query = q\<rparr>"

fun first_hit :: "rx list \<Rightarrow> string \<Rightarrow> string option" where
  "first_hit [] s = None"
| "first_hit (p # ps) s = (case search p s of Some (w, g) \<Rightarrow> Some w | None \<Rightarrow> first_hit ps s)"

definition group_text :: "nat \<Rightarrow> (nat \<times> string) list \<Rightarrow> string" where
  "group_text i g = (case map_of g i of None \<Rightarrow> [] | Some w \<Rightarrow> w)"

definition stripped_sql :: "string \<Rightarrow> string \<Rightarrow> string" where
  "stripped_sql query db_type =
     rstrip_by (\<lambda>c. c = CHR '';'') (py_strip (strip_sql_comments query db_type))"

definition leading_word :: "string \<Rightarrow> string" where
  "leading_word s = (case match_at_start leading_token s of
     None \<Rightarrow> [] | Some (w, g) \<Rightarrow> map upper_ascii (group_text 1 g))"

definition validate_sql :: "safety_level \<Rightarrow> string \<Rightarrow> string \<Rightarrow> safety_result" where
  "validate_sql level query db_type =
    (let stripped = stripped_sql query db_type;
         scrubbed = strip_sql_comments_and_literals query db_type
     in if search meta_command scrubbed \<noteq> None then refuse MetaCommand query
        else case first_hit dangerous_patterns stripped of
          Some w \<Rightarrow> refuse (Dangerous w) query
        | None \<Rightarrow>
          if level = ReadOnly then
            if CHR '';'' \<in> set stripped then refuse MultipleStatements query
            else if leading_word stripped \<notin> set read_only_leading then refuse NotReadOnly query
            else case search (server_access_pattern (sql_dialect_for db_type)) scrubbed of
              Some (w, g) \<Rightarrow> refuse (ServerAccess (group_text 1 g)) query
            | None \<Rightarrow>
              (case search dml_in_any_position scrubbed of
                Some (w, g) \<Rightarrow> refuse (DmlNotAllowed (group_text 1 g)) query
              | None \<Rightarrow>
                (case first_hit dml_patterns stripped of
                  Some w \<Rightarrow> refuse (DmlNotAllowed w) query
                | None \<Rightarrow> admit query))
          else admit query)"

subsection \<open>The MongoDB guard\<close>

datatype json =
    JNull
  | JBool bool
  | JNum string
  | JStr string
  | JArr "json list"
  | JObj "(string \<times> json) list"

datatype py_error = AttributeError | TypeError

definition hex_digit :: "nat \<Rightarrow> char" where
  "hex_digit n = char_of (if n < 10 then 48 + n else 87 + n)"

text \<open>\<^verbatim>\<open>json.dumps\<close> with its default \<^verbatim>\<open>ensure_ascii\<close>: printable ASCII stands for itself.\<close>

definition escape_char :: "char \<Rightarrow> string" where
  "escape_char c =
     (if c = CHR 0x22 then [CHR 0x5C, CHR 0x22]
      else if c = CHR 0x5C then [CHR 0x5C, CHR 0x5C]
      else if c = CHR 0x0A then [CHR 0x5C, CHR ''n'']
      else if c = CHR 0x0D then [CHR 0x5C, CHR ''r'']
      else if c = CHR 0x09 then [CHR 0x5C, CHR ''t'']
      else if c = CHR 0x0C then [CHR 0x5C, CHR ''f'']
      else if c = CHR 0x08 then [CHR 0x5C, CHR ''b'']
      else if 32 \<le> code_pt c \<and> code_pt c \<le> 126 then [c]
      else [CHR 0x5C, CHR ''u'', CHR ''0'', CHR ''0'', hex_digit (code_pt c div 16), hex_digit (code_pt c mod 16)])"

definition dump_string :: "string \<Rightarrow> string" where
  "dump_string s = [CHR 0x22] @ concat (map escape_char s) @ [CHR 0x22]"

fun json_dumps :: "json \<Rightarrow> string" where
  "json_dumps JNull = ''null''"
| "json_dumps (JBool b) = (if b then ''true'' else ''false'')"
| "json_dumps (JNum n) = n"
| "json_dumps (JStr s) = dump_string s"
| "json_dumps (JArr xs) = ''['' @ join_with '', '' (map json_dumps xs) @ '']''"
| "json_dumps (JObj kvs) =
     ''{'' @ join_with '', '' (map (\<lambda>kv. dump_string (fst kv) @ '': '' @ json_dumps (snd kv)) kvs) @ ''}''"

definition write_ops :: "string list" where
  "write_ops = [''insert'', ''update'', ''delete'', ''drop'', ''rename'', ''create_index'', ''drop_index'', ''replace'']"

definition script_ops :: "string list" where
  "script_ops = [''$where'', ''$function'', ''$accumulator'']"

definition write_stages :: "string list" where
  "write_stages = [''$out'', ''$merge'']"

definition dict_get :: "(string \<times> json) list \<Rightarrow> string \<Rightarrow> json \<Rightarrow> json" where
  "dict_get kvs k d = (case map_of kvs k of None \<Rightarrow> d | Some v \<Rightarrow> v)"

text \<open>\<^verbatim>\<open>operation in write_ops\<close>: a list or a dictionary cannot be hashed.\<close>

definition in_write_ops :: "json \<Rightarrow> py_error + string option" where
  "in_write_ops j = (case j of
     JArr _ \<Rightarrow> Inl TypeError
   | JObj _ \<Rightarrow> Inl TypeError
   | JStr s \<Rightarrow> Inr (if s \<in> set write_ops then Some s else None)
   | _ \<Rightarrow> Inr None)"

definition iter_json :: "json \<Rightarrow> py_error + json list" where
  "iter_json j = (case j of
     JArr xs \<Rightarrow> Inr xs
   | JObj kvs \<Rightarrow> Inr (map (JStr \<circ> fst) kvs)
   | JStr s \<Rightarrow> Inr (map (\<lambda>c. JStr [c]) s)
   | _ \<Rightarrow> Inl TypeError)"

fun stage_write :: "json \<Rightarrow> string option" where
  "stage_write (JObj kvs) = List.find (\<lambda>w. w \<in> fst ` set kvs) write_stages"
| "stage_write _ = None"

fun first_some :: "('a \<Rightarrow> 'b option) \<Rightarrow> 'a list \<Rightarrow> 'b option" where
  "first_some f [] = None"
| "first_some f (x # xs) = (case f x of None \<Rightarrow> first_some f xs | Some y \<Rightarrow> Some y)"

definition validate_mongo :: "(string \<Rightarrow> json option) \<Rightarrow> safety_level \<Rightarrow> string \<Rightarrow> py_error + safety_result" where
  "validate_mongo loads level query =
    (case loads query of
      None \<Rightarrow> Inr (refuse InvalidJson query)
    | Some (JObj spec) \<Rightarrow>
       (let operation = dict_get spec ''operation'' (JStr ''find'')
        in if level = ReadOnly then
             bind_ok (in_write_ops operation) (\<lambda>hit.
               case hit of
                 Some s \<Rightarrow> Inr (refuse (MongoWrite s) query)
               | None \<Rightarrow>
                 (let blob = json_dumps (JObj spec)
                  in case List.find (\<lambda>js. contains_text js blob) script_ops of
                       Some js \<Rightarrow> Inr (refuse (MongoScript js) query)
                     | None \<Rightarrow>
                       if operation = JStr ''aggregate'' then
                         bind_ok (iter_json (dict_get spec ''pipeline'' (JArr []))) (\<lambda>stages.
                           case first_some stage_write stages of
                             Some w \<Rightarrow> Inr (refuse (MongoWriteStage w) query)
                           | None \<Rightarrow> Inr (admit query))
                       else Inr (admit query)))
           else Inr (admit query))
    | Some _ \<Rightarrow> Inl AttributeError)"

definition is_mongo :: "string \<Rightarrow> bool" where
  "is_mongo db_type \<longleftrightarrow> db_type = ''mongodb'' \<or> db_type = ''mongo''"

definition validate ::
  "(string \<Rightarrow> json option) \<Rightarrow> safety_level \<Rightarrow> string \<Rightarrow> string \<Rightarrow> py_error + safety_result" where
  "validate loads level query db_type =
    (if level = Unrestricted then Inr (admit query)
     else if is_mongo db_type then validate_mongo loads level query
     else Inr (validate_sql level query db_type))"

definition is_read_only_statement :: "(string \<Rightarrow> json option) \<Rightarrow> string \<Rightarrow> string \<Rightarrow> py_error + bool" where
  "is_read_only_statement loads query db_type =
     bind_ok (validate loads ReadOnly query db_type) (\<lambda>r. Inr (is_safe r))"


subsection \<open>Refusals\<close>

lemma safety_result_simps [simp]:
  "is_safe (refuse r q) = False" "is_safe (admit q) = True" "why (refuse r q) = r"
  "checked_query (refuse r q) = q" "checked_query (admit q) = q"
  "refuse r q \<noteq> admit q'"
  by (simp_all add: refuse_def admit_def)

lemma first_hit_None: "first_hit ps s = None \<longleftrightarrow> (\<forall>p \<in> set ps. search p s = None)"
  by (induction ps) (auto split: option.splits)

lemma validate_sql_safe:
  "is_safe (validate_sql level query db) \<longleftrightarrow>
     search meta_command (strip_sql_comments_and_literals query db) = None \<and>
     first_hit dangerous_patterns (stripped_sql query db) = None \<and>
     (level = ReadOnly \<longrightarrow>
       CHR '';'' \<notin> set (stripped_sql query db) \<and>
       leading_word (stripped_sql query db) \<in> set read_only_leading \<and>
       search (server_access_pattern (sql_dialect_for db)) (strip_sql_comments_and_literals query db) = None \<and>
       search dml_in_any_position (strip_sql_comments_and_literals query db) = None \<and>
       first_hit dml_patterns (stripped_sql query db) = None)"
  unfolding validate_sql_def Let_def
  by (cases "search meta_command (strip_sql_comments_and_literals query db)")
    (auto split: option.split prod.split)

text \<open>
  What the guard relies on in the scanner: a scrub replaces whole pieces of the query by
  blanks and leaves a query without comment and quote characters alone.
\<close>

locale text_scrubber =
  fixes scrub :: "string \<Rightarrow> string" and ordinary :: "char \<Rightarrow> bool"
  assumes scrub_pieces: "\<exists>ps. concat (map snd ps) = q \<and>
      scrub q = concat (map (\<lambda>(b, w). if b then '' '' else w) ps)"
    and scrub_ordinary: "list_all ordinary q \<Longrightarrow> scrub q = q"
begin

lemma scrub_chars: "set (scrub q) \<subseteq> insert (CHR '' '') (set q)"
proof -
  obtain ps where ps: "concat (map snd ps) = q"
    and q: "scrub q = concat (map (\<lambda>(b, w). if b then '' '' else w) ps)"
    using scrub_pieces by blast
  have "set (concat (map (\<lambda>(b, w). if b then '' '' else w) ps)) \<subseteq>
      insert (CHR '' '') (set (concat (map snd ps)))"
    by (induction ps) (auto split: if_splits)
  with ps q show ?thesis by simp
qed

lemma scrub_idem_ordinary: "list_all ordinary q \<Longrightarrow> scrub (scrub q) = scrub q"
  by (simp add: scrub_ordinary)

end

lemma strip_literals_pieces:
  "\<exists>ps. concat (map snd ps) = q \<and>
    strip_sql_comments_and_literals q db = concat (map (\<lambda>(b, w). if b then '' '' else w) ps)"
proof -
  let ?d = "sql_dialect_for db"
  let ?ps = "map (\<lambda>x. case x of Inl c \<Rightarrow> (False, [c]) | Inr (w, g) \<Rightarrow> (is_masked ?d g, w))
    (scan (build_scanner ?d) q)"
  have "map snd ?ps = map piece_text (scan (build_scanner ?d) q)"
    by (auto simp: piece_text_def split: sum.split prod.split)
  moreover have "strip_sql_comments_and_literals q db = concat (map (\<lambda>(b, w). if b then '' '' else w) ?ps)"
    unfolding strip_sql_comments_and_literals_def sub_by_def Let_def
    by (auto simp: comp_def split: sum.split prod.split intro!: arg_cong [where f = concat])
  ultimately show ?thesis by (metis scan_text)
qed

interpretation comments: text_scrubber "\<lambda>q. strip_sql_comments q db" plain_char for db
  using pieces_of_text strip_pieces strip_plain by unfold_locales blast+

interpretation literals: text_scrubber "\<lambda>q. strip_sql_comments_and_literals q db" plain_char for db
  using strip_literals_pieces strip_literals_plain by unfold_locales blast+

subsection \<open>Statements found wherever they stand\<close>

definition ddl_forms :: "(string \<times> string list) list" where
  "ddl_forms =
    [(''DROP'', [''TABLE'', ''DATABASE'', ''SCHEMA'', ''INDEX'', ''VIEW'']),
     (''ALTER'', [''TABLE'', ''DATABASE'', ''SCHEMA'']),
     (''CREATE'', [''TABLE'', ''DATABASE'', ''SCHEMA'', ''INDEX'', ''VIEW'', ''USER'', ''ROLE''])]"

definition ddl_pattern :: "string \<Rightarrow> string list \<Rightarrow> rx" where
  "ddl_pattern k objs =
     seqs [WordB, Grp 1 (lit_ci k), spaces1, Grp 2 (alts (map lit_ci objs)), WordB]"

lemma ddl_patterns_listed: "(k, objs) \<in> set ddl_forms \<Longrightarrow> ddl_pattern k objs \<in> set dangerous_patterns"
  unfolding ddl_forms_def dangerous_patterns_def ddl_pattern_def by auto

lemma head_is_simps [simp]: "head_is f [] = False" "head_is f (x # xs) = f x"
  by (simp_all add: head_is_def)

lemma head_is_append: "xs \<noteq> [] \<Longrightarrow> head_is f (xs @ ys) = head_is f xs"
  by (cases xs) simp_all

lemma head_is_nonempty: "head_is f xs \<Longrightarrow> xs \<noteq> []"
  by (cases xs) simp_all

lemma rx_WordB_start:
  "\<not> head_is is_word p \<Longrightarrow> head_is is_word r \<Longrightarrow> (p, r, g) \<in> set (rx_match WordB (p, r, g))"
  by simp

lemma rx_WordB_end:
  "head_is is_word p \<Longrightarrow> \<not> head_is is_word r \<Longrightarrow> (p, r, g) \<in> set (rx_match WordB (p, r, g))"
  by simp

lemma ddl_pattern_reads:
  assumes k: "map upper_ascii v = k" "head_is is_word v" and sp: "sp \<noteq> []" "list_all py_isspace sp"
    and ob: "obj \<in> set objs" "map upper_ascii w = map upper_ascii obj" "head_is is_word (rev w)" and kk: "map upper_ascii k = k"
    and b: "\<not> head_is is_word p" "\<not> head_is is_word post"
  shows "rx_match (ddl_pattern k objs) (p, v @ sp @ w @ post, []) \<noteq> []"
proof -
  let ?s = "(p, v @ sp @ w @ post, []) :: rx_pos"
  have 0: "?s \<in> set (rx_match WordB ?s)"
    using b(1) k(2) by (intro rx_WordB_start) (simp_all add: head_is_append head_is_nonempty)
  obtain g1 where 1: "(rev v @ p, sp @ w @ post, g1) \<in> set (rx_match (Grp 1 (lit_ci k)) ?s)"
    using reads_Grp [OF reads_lit_ci [of v k p "sp @ w @ post" "[]"]] k kk by (metis append_assoc)
  have 2: "(rev sp @ rev v @ p, w @ post, g1) \<in> set (rx_match spaces1 (rev v @ p, sp @ w @ post, g1))"
    using sp by (rule reads_spaces1)
  have "(rev w @ rev sp @ rev v @ p, post, g1) \<in>
      set (rx_match (alts (map lit_ci objs)) (rev sp @ rev v @ p, w @ post, g1))"
    using ob reads_lit_ci [of w obj] by (intro reads_alts [of "lit_ci obj"]) auto
  then obtain g2 where 3: "(rev w @ rev sp @ rev v @ p, post, g2) \<in>
      set (rx_match (Grp 2 (alts (map lit_ci objs))) (rev sp @ rev v @ p, w @ post, g1))"
    using reads_Grp by blast
  have 4: "(rev w @ rev sp @ rev v @ p, post, g2) \<in> set (rx_match WordB (rev w @ rev sp @ rev v @ p, post, g2))"
    using b(2) ob(3) by (intro rx_WordB_end) (metis head_is_append head_is_nonempty, assumption)
  have "(rev w @ rev sp @ rev v @ p, post, g2) \<in> set (rx_match (ddl_pattern k objs) ?s)"
    unfolding ddl_pattern_def seqs.simps
    by (rule reads_Seq [OF 0 reads_Seq [OF 1 reads_Seq [OF 2 reads_Seq [OF 3 4]]]])
  then show ?thesis by auto
qed

text \<open>Trimming the ends of a text keeps any middle part that starts and ends with a letter.\<close>

lemma rstrip_by_prefix: "prefix (rstrip_by f xs) xs"
  using rstrip_by_suffixes [of xs f] by (auto simp: prefix_def)

lemma lstrip_by_suffix: "suffix (lstrip_by f xs) xs"
  using lstrip_by_prefixes [of xs f] by (auto simp: suffix_def)

lemma stripped_middle:
  assumes "list_all plain_char q" and "q = pre @ c # mid @ d # post"
    and c: "\<not> py_isspace c" and d: "\<not> py_isspace d" "d \<noteq> CHR '';''"
  shows "\<exists>pre' post'. stripped_sql q db = pre' @ c # mid @ d # post' \<and> suffix pre' pre \<and> prefix post' post"
proof -
  let ?semi = "\<lambda>c. c = CHR '';''"
  have "stripped_sql q db = rstrip_by ?semi (rstrip_by py_isspace (lstrip_by py_isspace q))"
    using assms(1) by (simp add: stripped_sql_def py_strip_def strip_plain)
  also have "lstrip_by py_isspace q = lstrip_by py_isspace pre @ c # mid @ d # post"
    using assms(2) c by (simp add: lstrip_by_append)
  also have "rstrip_by py_isspace \<dots> = (lstrip_by py_isspace pre @ c # mid) @ d # rstrip_by py_isspace post"
    using d(1) rstrip_by_append [of py_isspace d "lstrip_by py_isspace pre @ c # mid" post] by simp
  also have "rstrip_by ?semi \<dots> =
      (lstrip_by py_isspace pre @ c # mid) @ d # rstrip_by ?semi (rstrip_by py_isspace post)"
    using d(2) by (intro rstrip_by_append)
  finally have "stripped_sql q db = lstrip_by py_isspace pre @ c # mid @ d #
      rstrip_by ?semi (rstrip_by py_isspace post)" by simp
  moreover have "suffix (lstrip_by py_isspace pre) pre" by (rule lstrip_by_suffix)
  moreover have "prefix (rstrip_by ?semi (rstrip_by py_isspace post)) post"
    using rstrip_by_prefix prefix_order.trans by blast
  ultimately show ?thesis by blast
qed

lemma head_is_prefix: "prefix xs ys \<Longrightarrow> \<not> head_is f ys \<Longrightarrow> \<not> head_is f xs"
  by (cases xs) (auto simp: prefix_def)

lemma head_is_rev_suffix: "suffix xs ys \<Longrightarrow> \<not> head_is f (rev ys) \<Longrightarrow> \<not> head_is f (rev xs)"
  using head_is_prefix [of "rev xs" "rev ys"] by (simp add: suffix_to_prefix)

lemma letter_not_space: "is_letter c \<Longrightarrow> \<not> py_isspace c \<and> c \<noteq> CHR '';'' \<and> c \<noteq> CHR ''('' \<and> is_word c"
  by (auto simp: is_letter_def py_isspace_def is_word_def code_pt_def Let_def)

lemma upper_letter: "is_letter (upper_ascii c) \<Longrightarrow> is_letter c"
proof -
  assume u: "is_letter (upper_ascii c)"
  obtain b0 b1 b2 b3 b4 b5 b6 b7 where c: "c = Char b0 b1 b2 b3 b4 b5 b6 b7" by (cases c)
  show ?thesis using u unfolding c upper_ascii_code by (auto simp: is_letter_code)
qed

lemma ddl_words:
  assumes "(k, objs) \<in> set ddl_forms" and "obj \<in> set objs"
  shows "head_is is_letter k" "head_is is_letter (rev obj)" "map upper_ascii k = k" "map upper_ascii obj = obj"
proof -
  have "list_all (\<lambda>(k, objs). head_is is_letter k \<and> map upper_ascii k = k \<and>
      list_all (\<lambda>obj. head_is is_letter (rev obj) \<and> map upper_ascii obj = obj) objs) ddl_forms"
    by code_simp
  with assms show "head_is is_letter k" "head_is is_letter (rev obj)" "map upper_ascii k = k" "map upper_ascii obj = obj"
    by (auto simp: list_all_iff)
qed

lemma head_letter_upper: "map upper_ascii v = k \<Longrightarrow> head_is is_letter k \<Longrightarrow> head_is is_letter v"
  by (cases v) (auto dest: upper_letter)

lemma head_letter_word: "head_is is_letter v \<Longrightarrow> head_is is_word v"
  by (cases v) (simp_all add: letter_not_space)

lemma ddl_refused_sql:
  assumes q: "plain q" "q = pre @ v @ sp @ w @ post"
    and form: "(k, objs) \<in> set ddl_forms" "obj \<in> set objs"
    and v: "map upper_ascii v = k" and w: "map upper_ascii w = obj"
    and sp: "sp \<noteq> []" "list_all py_isspace sp"
    and b: "\<not> head_is is_word (rev pre)" "\<not> head_is is_word post"
  shows "\<not> is_safe (validate_sql level q db)"
proof -
  note words = ddl_words [OF form]
  have hv: "head_is is_letter v" using v words(1) by (rule head_letter_upper)
  have hw: "head_is is_letter (rev w)"
    using w words(2) by (intro head_letter_upper [of "rev w" "rev obj"]) (auto simp: rev_map)
  from hv obtain c v' where c: "v = c # v'" "is_letter c" by (cases v) auto
  from hw obtain d w' where d: "w = w' @ [d]" "is_letter d" by (cases w rule: rev_cases) auto
  have "\<exists>pre' post'. stripped_sql q db = pre' @ c # (v' @ sp @ w') @ d # post'
      \<and> suffix pre' pre \<and> prefix post' post"
    using q c d letter_not_space by (intro stripped_middle) auto
  then obtain pre' post' where s: "stripped_sql q db = pre' @ v @ sp @ w @ post'"
    and "suffix pre' pre" "prefix post' post" using c d by auto
  then have "\<not> head_is is_word (rev pre')" "\<not> head_is is_word post'"
    using b head_is_rev_suffix head_is_prefix by blast+
  then have "rx_match (ddl_pattern k objs) (rev pre', v @ sp @ w @ post', []) \<noteq> []"
    using v w words form(2) hv hw sp by (intro ddl_pattern_reads) (auto dest: head_letter_word)
  then have "search (ddl_pattern k objs) (stripped_sql q db) \<noteq> None"
    unfolding s by (rule search_found)
  then have "first_hit dangerous_patterns (stripped_sql q db) \<noteq> None"
    using ddl_patterns_listed [OF form(1)] by (auto simp: first_hit_None)
  then show ?thesis by (simp add: validate_sql_safe)
qed

lemma stacked_refused_sql:
  assumes q: "plain q" "q = a @ '';'' @ b" and b: "\<not> list_all (\<lambda>c. py_isspace c \<or> c = CHR '';'') b"
  shows "\<not> is_safe (validate_sql ReadOnly q db)"
proof -
  from b obtain x d y where "b = x @ d # y" and d: "\<not> py_isspace d" "d \<noteq> CHR '';''"
    by (auto simp: list_all_iff in_set_conv_decomp)
  with q have "q = a @ CHR '';'' # x @ d # y" by simp
  moreover have "\<not> py_isspace (CHR '';'')" by code_simp
  ultimately obtain a' y' where "stripped_sql q db = a' @ CHR '';'' # x @ d # y'"
    using stripped_middle [OF q(1)] d by blast
  then show ?thesis by (simp add: validate_sql_safe)
qed

subsection \<open>The first word of an admitted query\<close>

definition opens_text :: "char \<Rightarrow> bool" where
  "opens_text c \<longleftrightarrow> py_isspace c \<or> c = CHR ''(''"

lemma leading_token_alt:
  "leading_token = Seq AtStart (Seq (Star (Cls opens_text)) (Grp 1 (plus (Cls is_letter))))"
  by (simp add: leading_token_def opens_text_def [abs_def])

lemma letter_after_class:
  assumes "t \<in> set (rx_match (Grp 1 (plus (Cls is_letter))) u)"
  shows "head_is is_letter (rx_rest u)"
proof -
  from assms obtain v where "v \<in> set (take_class is_letter u)"
    by (auto simp only: in_match_Grp plus_def in_match_Seq rx_match.simps(2))
  then show ?thesis by (cases u; cases "rx_rest u") (auto split: if_splits)
qed

lemma dropWhile_run: "list_all f w \<Longrightarrow> dropWhile f (w @ z) = dropWhile f z"
  by (induction w) auto

lemma class_run_stops:
  assumes "u \<in> set (rx_match (Star (Cls f)) ([], s, []))" and "head_is g (rx_rest u)"
    and "\<And>c. f c \<Longrightarrow> \<not> g c"
  shows "rx_rest u = dropWhile f s"
proof -
  have "s = rx_span ([], s, []) u @ rx_rest u"
    using later_span [OF rx_match_later [OF assms(1)]] by simp
  moreover have "list_all f (rx_span ([], s, []) u)" using assms(1) by (rule span_Star_class)
  ultimately have "dropWhile f s = dropWhile f (rx_rest u)"
    using dropWhile_run [of f "rx_span ([], s, []) u" "rx_rest u"] by simp
  with assms(2,3) show ?thesis by (cases "rx_rest u") auto
qed

lemma leading_word_cases:
  "leading_word s =
     (if head_is is_letter (dropWhile opens_text s)
      then map upper_ascii (takeWhile is_letter (dropWhile opens_text s)) else [])"
proof (cases "head_is is_letter (dropWhile opens_text s)")
  case True
  let ?p = "rev (takeWhile opens_text s)" and ?r = "dropWhile opens_text s"
  from True obtain c r where r: "?r = c # r" "is_letter c" by (cases ?r) auto
  obtain ts where 1: "rx_match (Star (Cls opens_text)) ([], s, []) = (?p, ?r, []) # ts"
    using Star_class_first [of opens_text "[]" s "[]"] by auto
  obtain us where 2: "rx_match (plus (Cls is_letter)) (?p, ?r, []) =
      (rev (takeWhile is_letter r) @ c # ?p, dropWhile is_letter r, []) # us"
    using plus_class_first [of is_letter c ?p r "[]"] r by auto
  have span: "rx_span (?p, ?r, []) (rev (takeWhile is_letter r) @ c # ?p, dropWhile is_letter r, []) =
      takeWhile is_letter ?r"
  proof -
    have "length r = length (takeWhile is_letter r) + length (dropWhile is_letter r)"
      by (metis length_append takeWhile_dropWhile_id)
    then have "rx_span (?p, ?r, []) (rev (takeWhile is_letter r) @ c # ?p, dropWhile is_letter r, []) =
        take (Suc (length (takeWhile is_letter r))) (c # r)"
      using r by (simp add: rx_span_def)
    also have "\<dots> = c # takeWhile is_letter r" by (simp add: takeWhile_eq_take [symmetric])
    finally show ?thesis using r by simp
  qed
  obtain vs where "rx_match (Grp 1 (plus (Cls is_letter))) (?p, ?r, []) =
      (rev (takeWhile is_letter r) @ c # ?p, dropWhile is_letter r, [(1, takeWhile is_letter ?r)]) # vs"
    using 2 span by simp
  then obtain ws where "rx_match leading_token ([], s, []) =
      (rev (takeWhile is_letter r) @ c # ?p, dropWhile is_letter r, [(1, takeWhile is_letter ?r)]) # ws"
    using 1 unfolding leading_token_alt by simp
  with True show ?thesis
    by (simp add: leading_word_def match_at_start_def first_match_def group_text_def)
next
  case False
  have "rx_match leading_token ([], s, []) = []"
  proof (rule ccontr)
    assume "rx_match leading_token ([], s, []) \<noteq> []"
    then obtain t where "t \<in> set (rx_match leading_token ([], s, []))"
      by (cases "rx_match leading_token ([], s, [])") auto
    then obtain u where u: "u \<in> set (rx_match (Star (Cls opens_text)) ([], s, []))"
      and t: "t \<in> set (rx_match (Grp 1 (plus (Cls is_letter))) u)"
      unfolding leading_token_alt in_match_Seq by (auto split: if_splits)
    from t have h: "head_is is_letter (rx_rest u)" by (rule letter_after_class)
    then have "rx_rest u = dropWhile opens_text s"
      using u by (rule_tac class_run_stops) (auto simp: opens_text_def dest: letter_not_space)
    with h False show False by simp
  qed
  with False show ?thesis by (simp add: leading_word_def match_at_start_def first_match_def)
qed

subsection \<open>Keys of a MongoDB query\<close>

fun all_keys :: "json \<Rightarrow> string set" where
  "all_keys (JArr xs) = (\<Union>x \<in> set xs. all_keys x)"
| "all_keys (JObj kvs) = (\<Union>kv \<in> set kvs. insert (fst kv) (all_keys (snd kv)))"
| "all_keys _ = {}"

definition prints_as_itself :: "string \<Rightarrow> bool" where
  "prints_as_itself w \<longleftrightarrow> list_all (\<lambda>c. escape_char c = [c]) w"

lemma dump_string_keeps: "prints_as_itself w \<Longrightarrow> sublist w (dump_string w)"
proof -
  assume "prints_as_itself w"
  then have "concat (map escape_char w) = w"
    unfolding prints_as_itself_def by (induction w) auto
  then show ?thesis unfolding dump_string_def by (metis sublist_appendI)
qed

lemma sublist_in_middle: "sublist x y \<Longrightarrow> sublist x (a @ y)" "sublist x y \<Longrightarrow> sublist x (y @ b)"
  unfolding sublist_def by (metis append_assoc)+

lemma sublist_join: "x \<in> set xs \<Longrightarrow> sublist x (join_with sep xs)"
proof (induction sep xs rule: join_with.induct)
  case (3 sep x' y xs)
  show ?case
  proof (cases "x = x'")
    case False
    with 3 have "sublist x (join_with sep (y # xs))" by simp
    then show ?thesis by (simp add: sublist_in_middle)
  qed simp
qed auto

lemma all_keys_dumped: "w \<in> all_keys j \<Longrightarrow> prints_as_itself w \<Longrightarrow> sublist w (json_dumps j)"
proof (induction j rule: json_dumps.induct)
  case (5 xs)
  then obtain x where "x \<in> set xs" "sublist w (json_dumps x)" by auto
  then have "sublist w (join_with '', '' (map json_dumps xs))"
    using sublist_join [of "json_dumps x" "map json_dumps xs" "'', ''"] by (auto intro: sublist_order.order_trans)
  then show ?case by (simp only: json_dumps.simps sublist_in_middle)
next
  case (6 kvs)
  let ?f = "\<lambda>kv. dump_string (fst kv) @ '': '' @ json_dumps (snd kv)"
  from 6(2) obtain kv where kv: "kv \<in> set kvs" and w: "w = fst kv \<or> w \<in> all_keys (snd kv)"
    unfolding all_keys.simps by blast
  have "w \<in> all_keys (snd kv) \<Longrightarrow> sublist w (json_dumps (snd kv))"
    using 6(1) [of kv] kv 6(3) by simp
  with w have "sublist w (dump_string (fst kv)) \<or> sublist w (json_dumps (snd kv))"
    using dump_string_keeps [OF 6(3)] by blast
  then have "sublist w (?f kv)"
    by (auto simp only: sublist_in_middle)
  moreover have "sublist (?f kv) (join_with '', '' (map ?f kvs))"
    using kv by (intro sublist_join) simp
  ultimately have "sublist w (join_with '', '' (map ?f kvs))" by (rule sublist_order.order_trans)
  then show ?case
    by (simp only: json_dumps.simps sublist_in_middle)
qed simp_all

lemma find_None: "List.find P xs = None \<longleftrightarrow> (\<forall>x \<in> set xs. \<not> P x)"
  by (induction xs) auto

lemma first_some_None: "first_some f xs = None \<longleftrightarrow> (\<forall>x \<in> set xs. f x = None)"
  by (induction xs) (auto split: option.splits)

lemma script_ops_print: "js \<in> set script_ops \<Longrightarrow> prints_as_itself js"
proof -
  have "list_all prints_as_itself script_ops" by code_simp
  then show "js \<in> set script_ops \<Longrightarrow> prints_as_itself js" by (auto simp: list_all_iff)
qed

lemma no_script_keys:
  assumes "List.find (\<lambda>js. contains_text js (json_dumps j)) script_ops = None" and "js \<in> set script_ops"
  shows "js \<notin> all_keys j"
  using assms all_keys_dumped script_ops_print by (auto simp: find_None contains_text_sublist)

lemma no_head: "\<forall>c \<in> set xs. \<not> P c \<Longrightarrow> \<not> head_is P xs"
  by (cases xs) auto

lemma no_head_append: "\<not> head_is P xs \<Longrightarrow> \<not> head_is P ys \<Longrightarrow> \<not> head_is P (xs @ ys)"
  by (cases xs) auto

lemma no_head_dropWhile: "\<not> head_is P (dropWhile P xs)"
  by (induction xs) auto

lemma validate_mongo_safe:
  "validate_mongo loads ReadOnly q = Inr r \<Longrightarrow> is_safe r \<Longrightarrow>
    \<exists>spec. loads q = Some (JObj spec) \<and>
      in_write_ops (dict_get spec ''operation'' (JStr ''find'')) = Inr None \<and>
      List.find (\<lambda>js. contains_text js (json_dumps (JObj spec))) script_ops = None \<and>
      (dict_get spec ''operation'' (JStr ''find'') = JStr ''aggregate'' \<longrightarrow>
        (\<exists>stages. iter_json (dict_get spec ''pipeline'' (JArr [])) = Inr stages \<and>
          first_some stage_write stages = None))"
  unfolding validate_mongo_def Let_def
  by (auto simp: bind_ok_Inr simp del: json_dumps.simps contains_text.simps
      split: option.splits json.splits if_splits)

section \<open>Properties\<close>





text \<open>
  The level is a ladder: what the guard admits at a stricter level it admits at every
  laxer one, for SQL and for MongoDB queries alike.
\<close>

theorem guard_monotone:
  assumes "validate loads a q db = Inr r" and "is_safe r" and "a \<le> b"
  shows "\<exists>r'. validate loads b q db = Inr r' \<and> is_safe r'"
proof (cases "b = Unrestricted \<or> a = b")
  case True
  with assms show ?thesis by (auto simp: validate_def)
next
  case False
  with assms(3) have ab: "a = ReadOnly" "b = AllowDml" by (cases b; auto simp: level_cases)+
  show ?thesis
  proof (cases "is_mongo db")
    case True
    with assms ab show ?thesis
      using validate_mongo_safe [of loads q r] by (auto simp: validate_def validate_mongo_def Let_def)
  next
    case False
    with assms ab show ?thesis by (auto simp: validate_def validate_sql_safe)
  qed
qed

theorem guard_monotone_witness:
  "\<exists>r. validate (\<lambda>_. None) AllowDml ''SELECT 1'' ''mysql'' = Inr r \<and> is_safe r"
proof -
  have v: "is_safe (validate_sql ReadOnly ''SELECT 1'' ''mysql'')" by code_simp
  have e: "validate (\<lambda>_. None) ReadOnly ''SELECT 1'' ''mysql'' = Inr (validate_sql ReadOnly ''SELECT 1'' ''mysql'')"
    by (simp add: validate_def is_mongo_def)
  have "ReadOnly \<le> AllowDml" by code_simp
  then show ?thesis by (rule guard_monotone [OF e v])
qed

text \<open>
  C37. What the read-only guard does not see. Three concrete queries that it admits: on
  PostgreSQL, where comments nest, a nested comment followed by a quote hides a call of
  \<^verbatim>\<open>pg_read_file\<close> inside what the scanner takes for a literal; on MySQL, where a backslash
  escapes a quote, the literal that holds one escaped quote does the same for \<^verbatim>\<open>load_file\<close>; and
  MySQL executes the text of a \<^verbatim>\<open>/*! ... */\<close> comment, which the scanner blanks.
\<close>

definition nested_comment_query :: string where
  "nested_comment_query = ''SELECT 1 /* /* */ '' @ [CHR 0x27] @ '' */, pg_read_file('' @ [CHR 0x27] @ ''x''
     @ [CHR 0x27] @ '') --'' @ [CHR 0x27]"

definition escaped_quote_query :: string where
  "escaped_quote_query = ''SELECT '' @ [CHR 0x27, CHR 0x5C, CHR 0x27, CHR 0x27] @ '', load_file('' @ [CHR 0x27] @ ''x''
     @ [CHR 0x27] @ '') -- '' @ [CHR 0x27]"

definition executable_comment_query :: string where
  "executable_comment_query = ''SELECT 1 /*! INTO OUTFILE '' @ [CHR 0x27] @ ''x'' @ [CHR 0x27] @ '' */''"

theorem guard_blind_spots:
  "is_safe (validate_sql ReadOnly nested_comment_query ''postgres'') \<and>
   is_safe (validate_sql ReadOnly escaped_quote_query ''mysql'') \<and>
   is_safe (validate_sql ReadOnly executable_comment_query ''mysql'')"
proof (intro conjI)
  show "is_safe (validate_sql ReadOnly nested_comment_query ''postgres'')" by code_simp
  show "is_safe (validate_sql ReadOnly escaped_quote_query ''mysql'')" by code_simp
  show "is_safe (validate_sql ReadOnly executable_comment_query ''mysql'')" by code_simp
qed

text \<open>
  A MongoDB query that read-only mode admits is a JSON object whose operation is not a
  write, in which no key at any depth is one of the server-side script operators, and, for an
  aggregation, no stage of the pipeline writes its output to a collection.
\<close>

theorem mongo_read_only_admits:
  assumes "is_mongo db" and "validate loads ReadOnly q db = Inr r" and "is_safe r"
  shows "\<exists>spec. loads q = Some (JObj spec) \<and>
    (\<forall>w. dict_get spec ''operation'' (JStr ''find'') = JStr w \<longrightarrow> w \<notin> set write_ops) \<and>
    (\<forall>js \<in> set script_ops. js \<notin> all_keys (JObj spec)) \<and>
    (dict_get spec ''operation'' (JStr ''find'') = JStr ''aggregate'' \<longrightarrow>
      (\<exists>stages. iter_json (dict_get spec ''pipeline'' (JArr [])) = Inr stages \<and>
        (\<forall>kvs. JObj kvs \<in> set stages \<longrightarrow> ''$out'' \<notin> fst ` set kvs \<and> ''$merge'' \<notin> fst ` set kvs)))"
proof -
  from assms obtain spec where l: "loads q = Some (JObj spec)"
    and w: "in_write_ops (dict_get spec ''operation'' (JStr ''find'')) = Inr None"
    and js: "List.find (\<lambda>js. contains_text js (json_dumps (JObj spec))) script_ops = None"
    and agg: "dict_get spec ''operation'' (JStr ''find'') = JStr ''aggregate'' \<longrightarrow>
      (\<exists>stages. iter_json (dict_get spec ''pipeline'' (JArr [])) = Inr stages \<and> first_some stage_write stages = None)"
    using validate_mongo_safe [of loads q r] by (auto simp: validate_def)
  have "\<forall>js \<in> set script_ops. js \<notin> all_keys (JObj spec)" using no_script_keys [OF js] by blast
  moreover have "\<forall>w. dict_get spec ''operation'' (JStr ''find'') = JStr w \<longrightarrow> w \<notin> set write_ops"
    using w by (auto simp: in_write_ops_def split: if_splits)
  moreover have "\<And>kvs. stage_write (JObj kvs) = None \<Longrightarrow> ''$out'' \<notin> fst ` set kvs \<and> ''$merge'' \<notin> fst ` set kvs"
    by (simp add: write_stages_def split: if_splits)
  ultimately have parts: "\<forall>js \<in> set script_ops. js \<notin> all_keys (JObj spec)"
    "\<forall>w. dict_get spec ''operation'' (JStr ''find'') = JStr w \<longrightarrow> w \<notin> set write_ops"
    "\<And>kvs. stage_write (JObj kvs) = None \<Longrightarrow> ''$out'' \<notin> fst ` set kvs \<and> ''$merge'' \<notin> fst ` set kvs"
    by blast+
  have "dict_get spec ''operation'' (JStr ''find'') = JStr ''aggregate'' \<longrightarrow>
      (\<exists>stages. iter_json (dict_get spec ''pipeline'' (JArr [])) = Inr stages \<and>
        (\<forall>kvs. JObj kvs \<in> set stages \<longrightarrow> ''$out'' \<notin> fst ` set kvs \<and> ''$merge'' \<notin> fst ` set kvs))"
    using agg parts(3) unfolding first_some_None by blast
  with l parts(1,2) show ?thesis by (intro exI [of _ spec] conjI)
qed

theorem mongo_read_only_admits_witness:
  "\<exists>spec. Some (JObj [(''operation'', JStr ''aggregate''), (''pipeline'', JArr [JObj [(''$match'', JObj [])]])])
      = Some (JObj spec) \<and> (\<forall>js \<in> set script_ops. js \<notin> all_keys (JObj spec))"
proof -
  let ?loads = "\<lambda>_ :: string. Some (JObj [(''operation'', JStr ''aggregate''), (''pipeline'', JArr [JObj [(''$match'', JObj [])]])])"
  have v: "validate ?loads ReadOnly ''q'' ''mongo'' = Inr (admit ''q'')" by code_simp
  have "is_mongo ''mongo''" by code_simp
  from mongo_read_only_admits [OF this v] show ?thesis by auto
qed

end
