(* ===== verification/TtlCache.thy ===== *)
theory TtlCache
  imports Prelude
begin

text \<open>
  \<^verbatim>\<open>backend/app/core/ttl_cache.py\<close>: the cache with a capacity and a lifetime behind the chat
  session locks, the connector health and the schema caches. A stored value may be Python's
  \<^verbatim>\<open>None\<close>, so values are options; an expiry of \<^verbatim>\<open>inf\<close> (no lifetime) is \<open>None\<close>. The clock that
  an operation reads is an argument. The lock makes each operation one step.
\<close>

record ('k, 'v) ttl_cache =
  max_size :: nat
  ttl :: rat
  store :: "('k, 'v option \<times> rat option) odict"

definition new_cache :: "rat \<Rightarrow> int \<Rightarrow> ('k, 'v) ttl_cache" where
  "new_cache ttl_arg max_arg = \<lparr>max_size = nat (max 1 max_arg), ttl = max 0 ttl_arg, store = []\<rparr>"

definition past :: "rat \<Rightarrow> rat option \<Rightarrow> bool" where
  "past now e = (case e of None \<Rightarrow> False | Some t \<Rightarrow> t \<le> now)"

definition get :: "rat \<Rightarrow> 'k \<Rightarrow> ('k, 'v) ttl_cache \<Rightarrow> 'v option \<times> ('k, 'v) ttl_cache" where
  "get now k c = (case map_of (store c) k of
     None \<Rightarrow> (None, c)
   | Some (v, e) \<Rightarrow>
       if ttl c > 0 \<and> past now e then (None, c\<lparr>store := od_del k (store c)\<rparr>)
       else (v, c\<lparr>store := od_push k (v, e) (store c)\<rparr>))"

definition set_entry :: "rat \<Rightarrow> 'k \<Rightarrow> 'v option \<Rightarrow> ('k, 'v) ttl_cache \<Rightarrow> ('k, 'v) ttl_cache" where
  "set_entry now k v c =
     (let e = if ttl c > 0 then Some (now + ttl c) else None
      in c\<lparr>store := od_trim (max_size c) (od_push k (v, e) (store c))\<rparr>)"

definition pop :: "'k \<Rightarrow> 'v option \<Rightarrow> ('k, 'v) ttl_cache \<Rightarrow> 'v option \<times> ('k, 'v) ttl_cache" where
  "pop k dflt c = (case map_of (store c) k of
     None \<Rightarrow> (dflt, c)
   | Some (v, e) \<Rightarrow> (v, c\<lparr>store := od_del k (store c)\<rparr>))"

definition put :: "rat \<Rightarrow> 'k \<Rightarrow> 'v option \<Rightarrow> ('k, 'v) ttl_cache \<Rightarrow> ('k, 'v) ttl_cache" where
  "put now k v c = set_entry now k v c"

definition invalidate :: "'k \<Rightarrow> ('k, 'v) ttl_cache \<Rightarrow> ('k, 'v) ttl_cache" where
  "invalidate k c = snd (pop k None c)"

definition clear :: "('k, 'v) ttl_cache \<Rightarrow> ('k, 'v) ttl_cache" where
  "clear c = c\<lparr>store := []\<rparr>"

definition purge_expired :: "rat \<Rightarrow> ('k, 'v) ttl_cache \<Rightarrow> ('k, 'v) ttl_cache" where
  "purge_expired now c =
     (if ttl c \<le> 0 then c else c\<lparr>store := filter (\<lambda>(k, v, e). \<not> past now e) (store c)\<rparr>)"

definition len :: "rat \<Rightarrow> ('k, 'v) ttl_cache \<Rightarrow> nat \<times> ('k, 'v) ttl_cache" where
  "len now c = (let c' = purge_expired now c in (length (store c'), c'))"

definition contains :: "rat \<Rightarrow> 'k \<Rightarrow> ('k, 'v) ttl_cache \<Rightarrow> bool \<times> ('k, 'v) ttl_cache" where
  "contains now k c = (case get now k c of (v, c') \<Rightarrow> (v \<noteq> None, c'))"

text \<open>
  \<open>get_or_set\<close> reads the clock once before the lock, once under it and once when it stores; the
  factory answers a value or raises.
\<close>

definition get_or_set ::
  "rat \<times> rat \<times> rat \<Rightarrow> 'k \<Rightarrow> 'e + 'v option \<Rightarrow> ('k, 'v) ttl_cache \<Rightarrow> ('e + 'v option) \<times> ('k, 'v) ttl_cache"
where
  "get_or_set reads k factory c = (case reads of (t1, t2, t3) \<Rightarrow>
     (case get t1 k c of
        (Some v, c1) \<Rightarrow> (Inr (Some v), c1)
      | (None, c1) \<Rightarrow>
        (case get t2 k c1 of
           (Some v, c2) \<Rightarrow> (Inr (Some v), c2)
         | (None, c2) \<Rightarrow>
           (case factory of
              Inl err \<Rightarrow> (Inl err, c2)
            | Inr v \<Rightarrow> (Inr v, set_entry t3 k v c2)))))"

subsection \<open>The cache as a machine\<close>

datatype ('k, 'v) op =
    Get rat 'k
  | Set rat 'k "'v option"
  | Pop 'k
  | Clear
  | Len rat

fun step :: "('k, 'v) ttl_cache \<Rightarrow> ('k, 'v) op \<Rightarrow> ('k, 'v) ttl_cache" where
  "step c (Get now k) = snd (get now k c)"
| "step c (Set now k v) = set_entry now k v c"
| "step c (Pop k) = snd (pop k None c)"
| "step c Clear = clear c"
| "step c (Len now) = snd (len now c)"

lemmas cache_defs = get_def set_entry_def pop_def clear_def len_def purge_expired_def Let_def

text \<open>A compound operation is a sequence of the plain ones.\<close>

lemma get_or_set_steps:
  "\<exists>ops. snd (get_or_set (t1, t2, t3) k r c) = foldl step c ops \<and>
     set ops \<subseteq> {Get t1 k, Get t2 k} \<union> (case r of Inl e \<Rightarrow> {} | Inr v \<Rightarrow> {Set t3 k v})"
proof (cases "fst (get t1 k c)")
  case (Some v)
  then show ?thesis by (intro exI [of _ "[Get t1 k]"]) (auto simp: get_or_set_def split: prod.split)
next
  case None
  let ?c1 = "snd (get t1 k c)"
  show ?thesis
  proof (cases "fst (get t2 k ?c1)")
    case (Some v)
    with None show ?thesis
      by (intro exI [of _ "[Get t1 k, Get t2 k]"]) (auto simp: get_or_set_def split: prod.split)
  next
    case None': None
    show ?thesis
    proof (cases r)
      case (Inl e)
      with None None' show ?thesis
        by (intro exI [of _ "[Get t1 k, Get t2 k]"]) (auto simp: get_or_set_def split: prod.split)
    next
      case (Inr v)
      with None None' show ?thesis
        by (intro exI [of _ "[Get t1 k, Get t2 k, Set t3 k v]"]) (auto simp: get_or_set_def split: prod.split)
    qed
  qed
qed

subsection \<open>The invariant\<close>

definition cache_ok :: "nat \<Rightarrow> rat \<Rightarrow> ('k, 'v) ttl_cache \<Rightarrow> bool" where
  "cache_ok m t c \<longleftrightarrow> max_size c = m \<and> ttl c = t \<and> od_ok (store c) \<and> length (store c) \<le> m"

lemma new_cache_ok: "cache_ok (nat (max 1 m)) (max 0 t) (new_cache t m)"
  by (simp add: cache_ok_def new_cache_def)

lemma get_ok: "cache_ok m t c \<Longrightarrow> cache_ok m t (snd (get now k c))"
  using length_od_push_member [of k "store c"] length_od_del_le [of k "store c"]
  by (auto simp: cache_ok_def get_def map_of_member split: option.split)
    (metis (no_types, lifting) map_of_member order.trans)+

lemma ttl_step_ok: "cache_ok m t c \<Longrightarrow> cache_ok m t (step c op)"
proof (cases op)
  case (Get now k)
  then show "cache_ok m t c \<Longrightarrow> ?thesis" by (simp add: get_ok)
next
  case (Set now k v)
  then show "cache_ok m t c \<Longrightarrow> ?thesis"
    by (auto simp: cache_ok_def set_entry_def Let_def length_od_trim)
next
  case (Pop k)
  then show "cache_ok m t c \<Longrightarrow> ?thesis"
    by (auto simp: cache_ok_def pop_def split: option.split intro: order_trans [OF length_od_del_le])
next
  case Clear
  then show "cache_ok m t c \<Longrightarrow> ?thesis" by (simp add: cache_ok_def clear_def)
next
  case (Len now)
  then show "cache_ok m t c \<Longrightarrow> ?thesis"
    by (auto simp: cache_ok_def len_def purge_expired_def Let_def intro: order_trans [OF length_filter_le])
qed

interpretation ttl_machine: machine step "cache_ok m t" for m t
  by unfold_locales (rule ttl_step_ok)

subsection \<open>What a lookup can find\<close>

definition peek :: "('k, 'v) ttl_cache \<Rightarrow> 'k \<Rightarrow> ('v option \<times> rat option) option" where
  "peek c k = map_of (store c) k"

fun stored :: "rat \<Rightarrow> ('k, 'v) op \<Rightarrow> ('k \<times> 'v option \<times> rat option) option" where
  "stored t (Set now k v) = Some (k, v, if t > 0 then Some (now + t) else None)"
| "stored t _ = None"

lemma peek_get: "cache_ok m t c \<Longrightarrow> peek (snd (get now j c)) k = Some w \<Longrightarrow> peek c k = Some w"
  by (auto simp: cache_ok_def peek_def get_def odict_simps split: option.splits if_splits)

lemma peek_set:
  assumes "cache_ok m t c" and "peek (set_entry now j v c) k = Some w"
  shows "w = (if j = k then (v, if t > 0 then Some (now + t) else None) else the (peek c k)) \<and>
    (j \<noteq> k \<longrightarrow> peek c k \<noteq> None)"
proof -
  let ?d = "od_push j (v, if ttl c > 0 then Some (now + ttl c) else None) (store c)"
  have "od_ok ?d" using assms(1) by (auto simp: cache_ok_def)
  moreover from assms(2) have "map_of (od_trim (max_size c) ?d) k = Some w"
    by (simp add: peek_def set_entry_def Let_def)
  ultimately have "map_of ?d k = Some w" by (rule map_of_od_trim_le)
  then show ?thesis using assms(1) by (auto simp: odict_simps peek_def cache_ok_def split: if_splits)
qed

lemma ttl_peek_other:
  assumes "cache_ok m t c" and "\<And>v. stored t op \<noteq> Some (k, v)" and "peek (step c op) k = Some w"
  shows "peek c k = Some w"
proof (cases op)
  case (Get now j)
  with assms show ?thesis by (auto intro: peek_get)
next
  case (Set now j v)
  with assms show ?thesis using peek_set [of m t c now j v k w] by (auto split: if_splits)
next
  case (Pop j)
  with assms show ?thesis
    by (auto simp: peek_def pop_def odict_simps split: option.splits if_splits)
next
  case Clear
  with assms show ?thesis by (simp add: peek_def clear_def)
next
  case (Len now)
  with assms show ?thesis
    by (auto simp: peek_def len_def purge_expired_def Let_def cache_ok_def map_of_od_filter split: option.splits if_splits)
qed

interpretation ttl_sound: sound_cache peek step "stored t" "cache_ok m t" for m t
proof unfold_locales
  fix c :: "('k, 'v) ttl_cache" and op k v w
  assume ok: "cache_ok m t c" and "stored t op = Some (k, v)" and "peek (step c op) k = Some w"
  then show "w = v" using peek_set [OF ok] by (cases op) fastforce+
next
  fix c :: "('k, 'v) ttl_cache" and op k w
  assume "cache_ok m t c" and "\<And>v. stored t op \<noteq> Some (k, v)" and "peek (step c op) k = Some w"
  then show "peek c k = Some w" by (rule ttl_peek_other)
qed (rule ttl_step_ok)

lemma get_value:
  "fst (get now k c) = Some v \<Longrightarrow>
    \<exists>e. peek c k = Some (Some v, e) \<and> (ttl c > 0 \<longrightarrow> \<not> past now e)"
  by (auto simp: get_def peek_def split: option.splits if_splits)

subsection \<open>What stays\<close>

text \<open>
  \<open>from_key k d\<close> is the part of the order that starts at \<open>k\<close>: the entries used no earlier.
\<close>

definition from_key :: "'k \<Rightarrow> ('k, 'v) odict \<Rightarrow> ('k, 'v) odict" where
  "from_key k d = dropWhile (\<lambda>e. fst e \<noteq> k) d"

fun touches :: "('k, 'v) op \<Rightarrow> 'k set" where
  "touches (Get now k) = {k}"
| "touches (Set now k v) = {k}"
| "touches _ = {}"

fun clock :: "('k, 'v) op \<Rightarrow> rat option" where
  "clock (Get now k) = Some now"
| "clock (Set now k v) = Some now"
| "clock (Len now) = Some now"
| "clock _ = None"

text \<open>An operation that leaves \<open>k\<close> alone, before the entry expires.\<close>

fun spares :: "'k \<Rightarrow> rat option \<Rightarrow> ('k, 'v) op \<Rightarrow> bool" where
  "spares k e (Get now j) = (\<not> past now e)"
| "spares k e (Set now j v) = (j \<noteq> k)"
| "spares k e (Pop j) = (j \<noteq> k)"
| "spares k e Clear = False"
| "spares k e (Len now) = (\<not> past now e)"

definition kept :: "'k \<Rightarrow> 'v option \<times> rat option \<Rightarrow> 'k set \<Rightarrow> ('k, 'v) ttl_cache \<Rightarrow> bool" where
  "kept k x T c \<longleftrightarrow> (\<exists>r. from_key k (store c) = (k, x) # r \<and> set (od_keys r) \<subseteq> T)"

lemma from_key_split: "d = takeWhile (\<lambda>e. fst e \<noteq> k) d @ from_key k d"
  by (simp add: from_key_def)

lemma from_key_mid: "k \<notin> set (od_keys d) \<Longrightarrow> from_key k (d @ (k, x) # r) = (k, x) # r"
  by (induction d) (auto simp: from_key_def)

lemma from_keyE:
  assumes "from_key k d = (k, x) # r"
  obtains p where "d = p @ (k, x) # r" and "k \<notin> set (od_keys p)"
proof
  show "d = takeWhile (\<lambda>e. fst e \<noteq> k) d @ (k, x) # r" using from_key_split [of d k] assms by simp
  show "k \<notin> set (od_keys (takeWhile (\<lambda>e. fst e \<noteq> k) d))" by (auto simp: od_keys_def dest: set_takeWhileD)
qed


lemma from_key_filter:
  assumes "from_key k d = (k, x) # r" and "P (k, x)"
  shows "from_key k (filter P d) = (k, x) # filter P r"
proof -
  obtain p where d: "d = p @ (k, x) # r" and p: "k \<notin> set (od_keys p)"
    using assms(1) by (rule from_keyE)
  have "k \<notin> set (od_keys (filter P p))" using p by (auto simp: od_keys_def)
  with d assms(2) show ?thesis by (simp add: from_key_mid)
qed

lemma from_key_append: "from_key k d = (k, x) # r \<Longrightarrow> from_key k (d @ s) = (k, x) # r @ s"
  by (erule from_keyE) (simp add: from_key_mid)

lemma from_key_trim:
  assumes "from_key k d = (k, x) # r" and "length r < n"
  shows "from_key k (od_trim n d) = (k, x) # r"
proof -
  obtain p where d: "d = p @ (k, x) # r" and p: "k \<notin> set (od_keys p)"
    using assms(1) by (rule from_keyE)
  have "od_trim n d = drop (length d - n) p @ (k, x) # r"
    using assms(2) by (simp add: od_trim_drop d)
  moreover have "k \<notin> set (od_keys (drop (length d - n) p))"
    using p by (auto simp: od_keys_def dest: in_set_dropD)
  ultimately show ?thesis by (simp add: from_key_mid)
qed

lemma from_key_push:
  "from_key k d = (k, x) # r \<Longrightarrow> j \<noteq> k \<Longrightarrow> from_key k (od_push j y d) = (k, x) # od_push j y r"
  by (simp add: od_push_def od_del_def from_key_filter from_key_append)

lemma from_key_push_self: "from_key k (od_push k x d) = [(k, x)]"
  unfolding od_push_def by (rule from_key_mid) simp

lemma from_key_map_of: "from_key k d = (k, x) # r \<Longrightarrow> map_of d k = Some x"
  by (erule from_keyE) (auto simp: map_add_def split: option.split dest: map_of_member)

lemma short_suffix:
  assumes "od_ok d" and "from_key k d = (k, x) # r" and "set (od_keys r) \<subseteq> T" and "finite T"
  shows "length r \<le> card T"
proof -
  obtain p where "d = p @ (k, x) # r" using assms(2) by (rule from_keyE)
  with assms(1) have "distinct (od_keys r)" by (simp add: od_ok_def)
  then have "length r = card (set (od_keys r))" by (metis distinct_card length_map od_keys_def)
  also have "\<dots> \<le> card T" by (rule card_mono [OF assms(4,3)])
  finally show ?thesis .
qed

lemma spares_kept:
  assumes ok: "cache_ok m t c" and keep: "kept k (v, e) T c" and op: "spares k e op"
    and T: "touches op - {k} \<subseteq> T" "finite T" "card T < m"
  shows "kept k (v, e) T (step c op)"
proof -
  obtain r where r: "from_key k (store c) = (k, v, e) # r" and rT: "set (od_keys r) \<subseteq> T"
    using keep by (auto simp: kept_def)
  have here: "map_of (store c) k = Some (v, e)" using r by (rule from_key_map_of)
  have del: "kept k (v, e) T (c\<lparr>store := filter P (store c)\<rparr>)" if "P (k, v, e)" for P
    using from_key_filter [where P = P, OF r that] rT by (auto simp: kept_def od_keys_def)
  have push: "set (od_keys (od_push j w r)) \<subseteq> T" if "j \<in> T" for j w
    using rT that by (auto simp: od_push_def)
  show ?thesis
  proof (cases op)
    case (Get now j)
    show ?thesis
    proof (cases "j = k")
      case True
      with Get op here show ?thesis by (auto simp: get_def kept_def from_key_push_self)
    next
      case False
      with Get T(1) have "j \<in> T" by auto
      with False Get show ?thesis
        using keep del [of "\<lambda>x. fst x \<noteq> j"] from_key_push [OF r False] push
        by (auto simp: get_def od_del_def kept_def split: option.split)
    qed
  next
    case (Set now j w)
    with op T(1) have j: "j \<noteq> k" "j \<in> T" by auto
    let ?y = "(w, if ttl c > 0 then Some (now + ttl c) else None)"
    have L: "from_key k (od_push j ?y (store c)) = (k, v, e) # od_push j ?y r"
      using r j(1) by (rule from_key_push)
    have "length (od_push j ?y r) \<le> card T"
      using ok by (intro short_suffix [OF _ L push [OF j(2)] T(2)]) (auto simp: cache_ok_def)
    then have "from_key k (od_trim (max_size c) (od_push j ?y (store c))) = (k, v, e) # od_push j ?y r"
      using T(3) ok by (intro from_key_trim [OF L]) (simp add: cache_ok_def)
    with Set push [OF j(2)] show ?thesis by (simp add: set_entry_def kept_def Let_def)
  next
    case (Pop j)
    with op keep del [of "\<lambda>x. fst x \<noteq> j"] show ?thesis
      by (auto simp: pop_def od_del_def split: option.split)
  next
    case Clear
    with op show ?thesis by simp
  next
    case (Len now)
    with op keep del [of "\<lambda>(k, v, e). \<not> past now e"] show ?thesis
      by (simp add: len_def purge_expired_def Let_def)
  qed
qed

lemma run_spares_kept:
  "cache_ok m t c \<Longrightarrow> kept k (v, e) T c \<Longrightarrow> list_all (spares k e) ops \<Longrightarrow>
    \<Union> (touches ` set ops) - {k} \<subseteq> T \<Longrightarrow> finite T \<Longrightarrow> card T < m \<Longrightarrow>
    kept k (v, e) T (foldl step c ops)"
proof (induction ops arbitrary: c)
  case (Cons op ops)
  have "touches op - {k} \<subseteq> T" "\<Union> (touches ` set ops) - {k} \<subseteq> T" using Cons.prems(4) by auto
  with Cons show ?case by (auto intro: spares_kept ttl_step_ok)
qed simp

lemma set_kept:
  assumes "cache_ok m t c" and "0 < m"
  shows "kept k (v, if t > 0 then Some (now + t) else None) T (set_entry now k v c)"
proof -
  let ?x = "(v, if t > 0 then Some (now + t) else None)"
  have "from_key k (od_trim m (od_push k ?x (store c))) = (k, ?x) # []"
    using assms(2) by (intro from_key_trim from_key_push_self) simp
  moreover have "store (set_entry now k v c) = od_trim m (od_push k ?x (store c))"
    using assms(1) by (simp add: set_entry_def Let_def cache_ok_def)
  ultimately show ?thesis unfolding kept_def by (intro exI [of _ "[]"]) simp
qed

section \<open>Properties\<close>

text \<open>
  The cache is bounded: whatever operations run on a fresh cache, with whatever clock
  readings, it never holds more entries than its capacity (at least one) and no key twice.
\<close>

theorem cache_bounded:
  "length (store (foldl step (new_cache t m) ops)) \<le> nat (max 1 m) \<and>
   distinct (od_keys (store (foldl step (new_cache t m) ops)))"
  using ttl_machine.run_inv [OF new_cache_ok [of m t], of ops] by (simp add: cache_ok_def od_ok_def)

text \<open>
  A lookup answers nothing or the value most recently set under that key, and, when the
  cache has a lifetime, only while the clock is before the time of that set plus the lifetime.
\<close>

theorem lookup_latest_fresh:
  assumes "fst (get now k (foldl step (new_cache t m) ops)) = Some v"
  shows "\<exists>e. ttl_sound.last_stored (max 0 t) k None ops = Some (Some v, e) \<and> (t > 0 \<longrightarrow> \<not> past now e)"
proof -
  let ?c = "foldl step (new_cache t m) ops"
  have ok: "cache_ok (nat (max 1 m)) (max 0 t) ?c" by (rule ttl_machine.run_inv [OF new_cache_ok])
  from get_value [OF assms] obtain e where e: "peek ?c k = Some (Some v, e)"
    and fresh: "ttl ?c > 0 \<longrightarrow> \<not> past now e" by blast
  have "ttl_sound.last_stored (max 0 t) k None ops = Some (Some v, e)"
    by (rule ttl_sound.run_last_stored [OF new_cache_ok _ e]) (simp add: peek_def new_cache_def)
  with fresh ok show ?thesis by (auto simp: cache_ok_def)
qed

theorem lookup_latest_fresh_witness:
  "\<exists>e. ttl_sound.last_stored (max 0 60) ''b'' None [Set 0 ''a'' (Some (1 :: nat)), Set 5 ''b'' (Some 2), Get 6 ''a'']
      = Some (Some 2, e) \<and> ((60 :: rat) > 0 \<longrightarrow> \<not> past 64 e)"
  by (rule lookup_latest_fresh [where m = 2])
    (simp add: new_cache_def set_entry_def get_def past_def od_push_def od_del_def)

text \<open>
  What is in use stays: after an entry is set, any operations that neither replace,
  remove nor outlive it, and that touch fewer other keys than the capacity, leave it there for
  the next lookup. Only the least recently used entries are evicted.
\<close>

theorem recently_used_stays:
  assumes "e = (if t > 0 then Some (now + t) else None)"
    and "list_all (spares k e) ops"
    and "int (card (\<Union> (touches ` set ops) - {k})) < max 1 m" and "0 \<le> t" and "\<not> past later e"
  shows "fst (get later k (foldl step (set_entry now k v (foldl step (new_cache t m) before)) ops)) = v"
proof -
  let ?m = "nat (max 1 m)"
  let ?c = "foldl step (new_cache t m) before"
  let ?T = "\<Union> (touches ` set ops) - {k}"
  have ok: "cache_ok ?m t ?c"
    using ttl_machine.run_inv [OF new_cache_ok [of m t], of before] assms(4) by (simp only: max_absorb2)
  then have ok': "cache_ok ?m t (set_entry now k v ?c)" using ttl_step_ok [of ?m t ?c "Set now k v"] by simp
  have "finite (touches op)" for op :: "('a, 'b) op" by (cases op) auto
  then have "finite ?T" by simp
  moreover have "kept k (v, e) ?T (set_entry now k v ?c)" using set_kept [OF ok] assms(1) by simp
  ultimately have "kept k (v, e) ?T (foldl step (set_entry now k v ?c) ops)"
    using ok' assms(2,3) by (intro run_spares_kept) auto
  then have "map_of (store (foldl step (set_entry now k v ?c) ops)) k = Some (v, e)"
    by (auto simp: kept_def dest: from_key_map_of)
  with assms(5) show ?thesis by (simp add: get_def)
qed

theorem recently_used_stays_witness:
  "fst (get 9 ''b'' (foldl step (set_entry 1 ''b'' (Some (7 :: nat)) (foldl step (new_cache 30 2) [Set 0 ''a'' (Some 3)]))
     [Set 2 ''c'' (Some 4), Get 3 ''b'', Set 4 ''c'' None])) = Some 7"
  by (rule recently_used_stays [OF refl]) (simp_all add: past_def insert_commute)

end
