(* ===== verification/QueryData.thy ===== *)
theory QueryData
  imports Prelude
begin

text \<open>
  The result of a query (\<^verbatim>\<open>QueryResult\<close> of \<^verbatim>\<open>backend/app/connectors/base.py\<close>), which the
  cache, the pipeline and the validators share, and the one constructor of derived results.
\<close>

record 'v query_result =
  columns :: "string list"
  rows :: "'v list list"
  row_count :: int
  execution_time_ms :: rat
  error :: "string option"
  error_type :: "string option"
  truncated :: bool

definition empty_result :: "'v query_result" where
  "empty_result = \<lparr>columns = [], rows = [], row_count = 0, execution_time_ms = 0, error = None,
     error_type = None, truncated = False\<rparr>"

text \<open>
  \<^verbatim>\<open>derive_result\<close>: the overrides that its callers pass (\<^verbatim>\<open>row_count\<close>, \<^verbatim>\<open>execution_time_ms\<close>,
  \<^verbatim>\<open>error\<close>, \<^verbatim>\<open>error_type\<close>) are a record of options; overriding \<^verbatim>\<open>truncated\<close> is a \<^verbatim>\<open>TypeError\<close>.
\<close>

record overrides =
  o_row_count :: "int option"
  o_time :: "rat option"
  o_error :: "string option option"
  o_error_type :: "string option option"
  o_truncated :: "bool option"

definition derive_result ::
  "'v query_result \<Rightarrow> 'v list list \<Rightarrow> bool \<Rightarrow> string list option \<Rightarrow> overrides \<Rightarrow> 'v query_result option" where
  "derive_result base new_rows extra cols ov =
     (if o_truncated ov \<noteq> None then None
      else Some \<lparr>columns = (case cols of Some c \<Rightarrow> c | None \<Rightarrow> columns base),
        rows = new_rows,
        row_count = (case o_row_count ov of Some n \<Rightarrow> n | None \<Rightarrow> int (length new_rows)),
        execution_time_ms = (case o_time ov of Some t \<Rightarrow> t | None \<Rightarrow> execution_time_ms base),
        error = (case o_error ov of Some e \<Rightarrow> e | None \<Rightarrow> error base),
        error_type = (case o_error_type ov of Some e \<Rightarrow> e | None \<Rightarrow> None),
        truncated = truncated base \<or> extra\<rparr>)"

end
