(* ===== verification/QueryCache.thy ===== *)
theory QueryCache
  imports PyText QueryData
begin

text \<open>
  \<^verbatim>\<open>backend/app/core/query_cache.py\<close>: the cache of query results, with its key (a normal form
  of the SQL text, hashed), its lifetime, its eviction and its files. The digest of
  \<^verbatim>\<open>hashlib.sha256\<close> and the rendering of a cell by \<^verbatim>\<open>str\<close> are parameters; the two clocks an
  operation reads, and whether its file access succeeds, are arguments.
\<close>

section \<open>The normal form of a query\<close>

definition is_quote :: "char \<Rightarrow> bool" where
  "is_quote c \<longleftrightarrow> c = CHR 0x27 \<or> c = CHR 0x22 \<or> c = CHR 0x60"

text \<open>
  The loop of \<^verbatim>\<open>_normalize_query\<close>: whether anything was output, the open quote, whether a space
  is pending, and the text left. Inside quotes a doubled quote is read in one step.
\<close>

function normalize_from :: "bool \<Rightarrow> char option \<Rightarrow> bool \<Rightarrow> string \<Rightarrow> string" where
  "normalize_from out quote pending [] = []"
| "normalize_from out (Some q) pending (c # r) =
     (if c = q then
        (if r \<noteq> [] \<and> hd r = q then c # hd r # normalize_from True (Some q) pending (tl r)
         else c # normalize_from True None pending r)
      else c # normalize_from True (Some q) pending r)"
| "normalize_from out None pending (c # r) =
     (if is_quote c then
        (if pending \<and> out then '' '' else []) @ c # normalize_from True (Some c) False r
      else if py_isspace c then normalize_from out None True r
      else (if pending \<and> out then '' '' else []) @ lower_char c # normalize_from True None False r)"
  by pat_completeness auto
termination
  by (relation "measure (\<lambda>(b, q, p, s). length s)") auto

definition normalize_query :: "string \<Rightarrow> string" where
  "normalize_query query = normalize_from False None False query"

section \<open>Entries and files\<close>

record 'v cached_result =
  result :: "'v query_result"
  cached_at :: rat
  schema_version :: "string option"

record 'v cache_file =
  file_key :: string
  file_cached_at :: rat
  file_schema :: "string option"
  file_columns :: "string list"
  file_rows :: "'v list list"
  file_row_count :: int
  file_time_ms :: rat

record 'v query_cache =
  max_size :: nat
  ttl :: rat
  store :: "(string, 'v cached_result) odict"
  persist :: bool
  files :: "string \<rightharpoonup> 'v cache_file"

definition new_query_cache :: "nat \<Rightarrow> rat \<Rightarrow> bool \<Rightarrow> (string \<rightharpoonup> 'v cache_file) \<Rightarrow> 'v query_cache" where
  "new_query_cache max_n ttl_seconds dir fs =
     \<lparr>max_size = max_n, ttl = ttl_seconds, store = [], persist = dir, files = fs\<rparr>"

definition make_key :: "(string \<Rightarrow> string) \<Rightarrow> string \<Rightarrow> string \<Rightarrow> string option \<Rightarrow> string" where
  "make_key sha connection_key query version =
     (let qhash = take 16 (sha (normalize_query query));
          sv = (case version of None \<Rightarrow> ''_'' | Some v \<Rightarrow> if v = [] then ''_'' else v)
      in connection_key @ '':'' @ sv @ '':'' @ qhash)"

definition file_path :: "(string \<Rightarrow> string) \<Rightarrow> string \<Rightarrow> string" where
  "file_path sha key = take 24 (sha key) @ ''.json''"

definition load_from_disk ::
  "(string \<Rightarrow> string) \<Rightarrow> rat \<times> rat \<Rightarrow> bool \<Rightarrow> string \<Rightarrow> 'v query_cache \<Rightarrow>
    'v query_result option \<times> 'v query_cache" where
  "load_from_disk sha clocks io key c = (case clocks of (tick, wall) \<Rightarrow>
     if \<not> persist c \<or> \<not> io then (None, c)
     else case files c (file_path sha key) of
       None \<Rightarrow> (None, c)
     | Some data \<Rightarrow>
         if wall - file_cached_at data > ttl c
         then (None, c\<lparr>files := (files c)(file_path sha key := None)\<rparr>)
         else
           (let res = \<lparr>columns = file_columns data, rows = file_rows data,
                row_count = file_row_count data, execution_time_ms = file_time_ms data,
                error = None, error_type = None, truncated = False\<rparr>
            in (Some res, c\<lparr>store := od_set key
                 \<lparr>result = res, cached_at = tick, schema_version = file_schema data\<rparr> (store c)\<rparr>)))"

definition delete_persisted :: "(string \<Rightarrow> string) \<Rightarrow> bool \<Rightarrow> string \<Rightarrow> 'v query_cache \<Rightarrow> 'v query_cache" where
  "delete_persisted sha io key c =
     (if persist c \<and> io then c\<lparr>files := (files c)(file_path sha key := None)\<rparr> else c)"

definition persist_to_disk ::
  "(string \<Rightarrow> string) \<Rightarrow> ('v \<Rightarrow> 'v) \<Rightarrow> rat \<Rightarrow> bool \<Rightarrow> string \<Rightarrow> 'v query_result \<Rightarrow> string option \<Rightarrow>
    'v query_cache \<Rightarrow> 'v query_cache" where
  "persist_to_disk sha str_cell wall io key res version c =
     (if persist c \<and> io then
        c\<lparr>files := (files c)(file_path sha key \<mapsto>
          \<lparr>file_key = key, file_cached_at = wall, file_schema = version, file_columns = columns res,
           file_rows = map (map str_cell) (take 200 (rows res)), file_row_count = row_count res,
           file_time_ms = execution_time_ms res\<rparr>)\<rparr>
      else c)"

definition lookup ::
  "(string \<Rightarrow> string) \<Rightarrow> rat \<times> rat \<Rightarrow> bool \<Rightarrow> string \<Rightarrow> string \<Rightarrow> string option \<Rightarrow> 'v query_cache \<Rightarrow>
    'v query_result option \<times> 'v query_cache" where
  "lookup sha clocks io connection_key query version c =
     (let key = make_key sha connection_key query version in
      case map_of (store c) key of
        None \<Rightarrow> load_from_disk sha clocks io key c
      | Some entry \<Rightarrow>
          if fst clocks - cached_at entry > ttl c then (None, c\<lparr>store := od_del key (store c)\<rparr>)
          else (Some (result entry), c\<lparr>store := od_push key entry (store c)\<rparr>))"

definition is_error :: "'v query_result \<Rightarrow> bool" where
  "is_error res \<longleftrightarrow> error res \<noteq> None \<and> error res \<noteq> Some []"

definition put ::
  "(string \<Rightarrow> string) \<Rightarrow> ('v \<Rightarrow> 'v) \<Rightarrow> rat \<times> rat \<Rightarrow> bool \<Rightarrow> string \<Rightarrow> string \<Rightarrow> 'v query_result \<Rightarrow>
    string option \<Rightarrow> 'v query_cache \<Rightarrow> 'v query_cache" where
  "put sha str_cell clocks io connection_key query res version c =
     (if is_error res then c
      else
        (let key = make_key sha connection_key query version;
             d = od_push key \<lparr>result = res, cached_at = fst clocks, schema_version = version\<rparr> (store c);
             c1 = c\<lparr>store := od_trim (max_size c) d\<rparr>;
             evicted = od_keys (take (length d - max_size c) d)
         in persist_to_disk sha str_cell (snd clocks) io key res version
              (fold (delete_persisted sha io) evicted c1)))"

definition invalidate :: "string \<Rightarrow> 'v query_cache \<Rightarrow> 'v query_cache" where
  "invalidate connection_key c =
     c\<lparr>store := filter (\<lambda>(k, v). \<not> prefix (connection_key @ '':'') k) (store c)\<rparr>"

definition invalidate_schema :: "string \<Rightarrow> string \<Rightarrow> 'v query_cache \<Rightarrow> 'v query_cache" where
  "invalidate_schema connection_key version c =
     c\<lparr>store := filter (\<lambda>(k, v). \<not> (prefix (connection_key @ '':'') k \<and> schema_version v \<noteq> Some version))
        (store c)\<rparr>"

definition clear :: "'v query_cache \<Rightarrow> 'v query_cache" where
  "clear c = c\<lparr>store := []\<rparr>"

definition size_of :: "'v query_cache \<Rightarrow> nat" where
  "size_of c = length (store c)"

section \<open>Lemmas on the normal form\<close>

text \<open>
  The quoted runs of a text, each with its quotes (the last may be open). A reference reading
  of the text that knows nothing of the normal form.
\<close>

fun onto_head :: "string \<Rightarrow> string list \<Rightarrow> string list" where
  "onto_head w [] = [w]"
| "onto_head w (x # xs) = (w @ x) # xs"

function quoted_runs :: "char option \<Rightarrow> string \<Rightarrow> string list" where
  "quoted_runs None [] = []"
| "quoted_runs (Some q) [] = [[]]"
| "quoted_runs None (c # r) = (if is_quote c then onto_head [c] (quoted_runs (Some c) r) else quoted_runs None r)"
| "quoted_runs (Some q) (c # r) =
     (if c = q then
        (if r \<noteq> [] \<and> hd r = q then onto_head [c, c] (quoted_runs (Some q) (tl r))
         else [c] # quoted_runs None r)
      else onto_head [c] (quoted_runs (Some q) r))"
  by pat_completeness auto
termination
  by (relation "measure (\<lambda>(q, s). length s)") auto

lemma code_pt_inject: "code_pt c = code_pt d \<longleftrightarrow> c = d"
  by (simp add: code_pt_def)

lemma code_pt_char_of: "n < 256 \<Longrightarrow> code_pt (char_of n) = n"
  by (simp add: code_pt_def)

lemma lower_char_pt:
  "code_pt (lower_char c) = (let n = code_pt c in
     if 65 \<le> n \<and> n \<le> 90 \<or> 192 \<le> n \<and> n \<le> 222 \<and> n \<noteq> 215 then n + 32 else n)"
  unfolding lower_char_def Let_def by (auto simp: code_pt_char_of)

lemma is_quote_pt: "is_quote c \<longleftrightarrow> code_pt c = 39 \<or> code_pt c = 34 \<or> code_pt c = 96"
proof -
  have "code_pt (CHR 0x27) = 39" "code_pt (CHR 0x22) = 34" "code_pt (CHR 0x60) = 96" by code_simp+
  then show ?thesis unfolding is_quote_def by (metis code_pt_inject)
qed

lemma lower_char_not_quote: "\<not> is_quote c \<Longrightarrow> \<not> is_quote (lower_char c)"
  by (auto simp: is_quote_pt lower_char_pt Let_def)

lemma lower_char_facts:
  "lower_char (lower_char c) = lower_char c \<and> (py_isspace (lower_char c) \<longrightarrow> py_isspace c)"
  by (auto simp: code_pt_inject [symmetric] lower_char_pt py_isspace_def Let_def)

lemma space_not_quote: "\<not> is_quote (CHR '' '')" "py_isspace (CHR '' '')"
  by code_simp+

text \<open>Outside quotes, the output begins with a quote only where the input does.\<close>

lemma normalize_head:
  "normalize_from True None p s = c # t \<Longrightarrow> is_quote c \<Longrightarrow> \<not> p \<and> s \<noteq> [] \<and> hd s = c"
proof (induction True "None :: char option" p s arbitrary: c t rule: normalize_from.induct)
  case (3 p d r)
  show ?case
  proof (cases "is_quote d")
    case True
    with 3 space_not_quote show ?thesis by (auto split: if_splits)
  next
    case nq: False
    show ?thesis
    proof (cases "py_isspace d")
      case True
      with nq 3 show ?thesis by auto
    next
      case False
      with nq 3(3,4) space_not_quote lower_char_not_quote show ?thesis by (auto split: if_splits)
    qed
  qed
qed simp

text \<open>What the loop outputs from a state, the loop reproduces from that state.\<close>

lemma normalize_quote_step:
  "(t = [] \<or> hd t \<noteq> q) \<Longrightarrow> normalize_from b (Some q) p (q # t) = q # normalize_from True None p t"
  by (cases t) auto

lemma normalize_restart:
  "(quote \<noteq> None \<longrightarrow> \<not> p \<and> is_quote (the quote)) \<Longrightarrow>
    normalize_from out quote False (normalize_from out quote p s) = normalize_from out quote p s"
proof (induction out quote p s rule: normalize_from.induct)
  case (2 out q p c r)
  then have p: "\<not> p" and q: "is_quote q" by simp_all
  show ?case
  proof (cases "c = q")
    case False
    with 2 p show ?thesis by simp
  next
    case c: True
    show ?thesis
    proof (cases "r \<noteq> [] \<and> hd r = q")
      case True
      with 2 p c show ?thesis by simp
    next
      case False
      let ?t = "normalize_from True None p r"
      have "?t = [] \<or> hd ?t \<noteq> q"
        using normalize_head [of p r q] q False by (cases ?t) auto
      moreover have "normalize_from True None False ?t = ?t" using 2(2) c False by simp
      moreover have "normalize_from out (Some q) p (c # r) = q # ?t" using c False by auto
      ultimately show ?thesis using p normalize_quote_step [of ?t q out False] by (simp only:)
    qed
  qed
next
  case (3 out p c r)
  let ?pre = "if p \<and> out then '' '' else []"
  show ?case
  proof (cases "is_quote c")
    case True
    with 3(1) have "normalize_from True (Some c) False (normalize_from True (Some c) False r) =
        normalize_from True (Some c) False r" by simp
    with True show ?thesis using space_not_quote by simp
  next
    case nq: False
    show ?thesis
    proof (cases "py_isspace c")
      case True
      with nq 3 show ?thesis by simp
    next
      case False
      with nq 3(3) have ih: "normalize_from True None False (normalize_from True None False r) =
        normalize_from True None False r" by simp
      have "\<not> is_quote (lower_char c)" "\<not> py_isspace (lower_char c)"
        "lower_char (lower_char c) = lower_char c"
        using nq False lower_char_facts lower_char_not_quote by blast+
      with ih nq False show ?thesis using space_not_quote by simp
    qed
  qed
qed simp

lemma runs_quote_step:
  "(t = [] \<or> hd t \<noteq> q) \<Longrightarrow> quoted_runs (Some q) (q # t) = [q] # quoted_runs None t"
  by (cases t) auto

lemma runs_normalize:
  "(quote \<noteq> None \<longrightarrow> \<not> p \<and> is_quote (the quote)) \<Longrightarrow>
    quoted_runs quote (normalize_from out quote p s) = quoted_runs quote s"
proof (induction out quote p s rule: normalize_from.induct)
  case (1 out quote p)
  then show ?case by simp
next
  case (2 out q p c r)
  then have p: "\<not> p" and q: "is_quote q" by simp_all
  show ?case
  proof (cases "c = q")
    case False
    with 2 p show ?thesis by simp
  next
    case c: True
    show ?thesis
    proof (cases "r \<noteq> [] \<and> hd r = q")
      case True
      with 2 p c show ?thesis by simp
    next
      case False
      let ?t = "normalize_from True None p r"
      have "?t = [] \<or> hd ?t \<noteq> q"
        using normalize_head [of p r q] q False by (cases ?t) auto
      moreover have "quoted_runs None ?t = quoted_runs None r" using 2(2) c False by simp
      moreover have "quoted_runs (Some q) (c # r) = [q] # quoted_runs None r"
        using c False by (cases r) auto
      moreover have "normalize_from out (Some q) p (c # r) = q # ?t" using c False by auto
      ultimately show ?thesis using runs_quote_step [of ?t q] by (simp only:)
    qed
  qed
next
  case (3 out p c r)
  show ?case
  proof (cases "is_quote c")
    case True
    with 3(1) space_not_quote show ?thesis by simp
  next
    case nq: False
    show ?thesis
    proof (cases "py_isspace c")
      case True
      with nq 3 show ?thesis by simp
    next
      case False
      with nq 3(3) lower_char_not_quote [OF nq] space_not_quote show ?thesis by simp
    qed
  qed
qed

section \<open>The cache as a machine\<close>

datatype 'v op =
    Lookup "rat \<times> rat" bool string string "string option"
  | Put "rat \<times> rat" bool string string "'v query_result" "string option"
  | Invalidate string
  | InvalidateSchema string string
  | Clear

fun step :: "(string \<Rightarrow> string) \<Rightarrow> ('v \<Rightarrow> 'v) \<Rightarrow> 'v query_cache \<Rightarrow> 'v op \<Rightarrow> 'v query_cache" where
  "step sha str_cell c (Lookup t io conn q v) = snd (lookup sha t io conn q v c)"
| "step sha str_cell c (Put t io conn q res v) = put sha str_cell t io conn q res v c"
| "step sha str_cell c (Invalidate conn) = invalidate conn c"
| "step sha str_cell c (InvalidateSchema conn v) = invalidate_schema conn v c"
| "step sha str_cell c Clear = clear c"

text \<open>The cache the agents use: no directory for files.\<close>

definition cache_ok :: "nat \<Rightarrow> rat \<Rightarrow> 'v query_cache \<Rightarrow> bool" where
  "cache_ok n t c \<longleftrightarrow> max_size c = n \<and> ttl c = t \<and> \<not> persist c \<and> od_ok (store c) \<and> length (store c) \<le> n"

lemma delete_persisted_simps:
  "store (delete_persisted sha io k c) = store c" "max_size (delete_persisted sha io k c) = max_size c"
  "ttl (delete_persisted sha io k c) = ttl c" "persist (delete_persisted sha io k c) = persist c"
  by (simp_all add: delete_persisted_def)

lemma fold_delete_persisted:
  "store (fold (delete_persisted sha io) ks c) = store c \<and> max_size (fold (delete_persisted sha io) ks c) = max_size c \<and>
   ttl (fold (delete_persisted sha io) ks c) = ttl c \<and> persist (fold (delete_persisted sha io) ks c) = persist c"
  by (induction ks arbitrary: c) (simp_all add: delete_persisted_simps)

lemma persist_to_disk_simps:
  "store (persist_to_disk sha f w io k r v c) = store c" "max_size (persist_to_disk sha f w io k r v c) = max_size c"
  "ttl (persist_to_disk sha f w io k r v c) = ttl c" "persist (persist_to_disk sha f w io k r v c) = persist c"
  by (simp_all add: persist_to_disk_def)

lemma put_fields:
  "max_size (put sha f t io conn q res v c) = max_size c" "ttl (put sha f t io conn q res v c) = ttl c"
  "persist (put sha f t io conn q res v c) = persist c"
  "store (put sha f t io conn q res v c) =
     (if is_error res then store c
      else od_trim (max_size c) (od_push (make_key sha conn q v)
        \<lparr>result = res, cached_at = fst t, schema_version = v\<rparr> (store c)))"
  by (simp_all add: put_def Let_def persist_to_disk_simps fold_delete_persisted)

lemma lookup_off:
  "\<not> persist c \<Longrightarrow> lookup sha t io conn q v c =
    (case map_of (store c) (make_key sha conn q v) of
       None \<Rightarrow> (None, c)
     | Some e \<Rightarrow> if fst t - cached_at e > ttl c then (None, c\<lparr>store := od_del (make_key sha conn q v) (store c)\<rparr>)
         else (Some (result e), c\<lparr>store := od_push (make_key sha conn q v) e (store c)\<rparr>))"
  by (simp add: lookup_def load_from_disk_def Let_def split: prod.split option.split)

lemma length_push_member: "map_of d k = Some v \<Longrightarrow> length (od_push k v d) \<le> length d"
  using length_od_del_less [of k d] map_of_member [of d k v] by (simp add: od_push_def)

lemma query_step_ok: "cache_ok n t c \<Longrightarrow> cache_ok n t (step sha f c op)"
proof (cases op)
  case (Lookup u io conn q v)
  assume ok: "cache_ok n t c"
  then have "\<not> persist c" by (simp add: cache_ok_def)
  with ok Lookup show ?thesis
    using length_push_member [of "store c"] length_od_del_le [of _ "store c"]
    by (auto simp: cache_ok_def lookup_off split: option.split)
      (metis (no_types, lifting) order.trans)+
next
  case (Put u io conn q res v)
  then show "cache_ok n t c \<Longrightarrow> ?thesis" by (auto simp: cache_ok_def put_fields length_od_trim)
qed (auto simp: cache_ok_def invalidate_def invalidate_schema_def clear_def intro: order_trans [OF length_filter_le])

interpretation query_machine: machine "step sha f" "cache_ok n t" for sha f n t
  by unfold_locales (rule query_step_ok)

definition peek :: "'v query_cache \<Rightarrow> string \<Rightarrow> 'v cached_result option" where
  "peek c k = map_of (store c) k"

fun stored :: "(string \<Rightarrow> string) \<Rightarrow> 'v op \<Rightarrow> (string \<times> 'v cached_result) option" where
  "stored sha (Put t io conn q res v) =
     (if is_error res then None
      else Some (make_key sha conn q v, \<lparr>result = res, cached_at = fst t, schema_version = v\<rparr>))"
| "stored sha _ = None"

lemma peek_put:
  assumes "cache_ok n t c" and "peek (put sha f u io conn q res v c) k = Some w"
  shows "if \<not> is_error res \<and> make_key sha conn q v = k
    then w = \<lparr>result = res, cached_at = fst u, schema_version = v\<rparr> else peek c k = Some w"
proof (cases "is_error res")
  case True
  with assms show ?thesis by (simp add: peek_def put_fields)
next
  case False
  let ?d = "od_push (make_key sha conn q v) \<lparr>result = res, cached_at = fst u, schema_version = v\<rparr> (store c)"
  have "od_ok ?d" using assms(1) by (auto simp: cache_ok_def)
  moreover from assms(2) False have "map_of (od_trim (max_size c) ?d) k = Some w"
    by (simp add: peek_def put_fields)
  ultimately have "map_of ?d k = Some w" by (rule map_of_od_trim_le)
  with False show ?thesis by (auto simp: odict_simps peek_def split: if_splits)
qed

lemma query_peek_other:
  assumes ok: "cache_ok n t c" and other: "\<And>v. stored sha op \<noteq> Some (k, v)" and look: "peek (step sha f c op) k = Some w"
  shows "peek c k = Some w"
proof (cases op)
  case (Lookup u io conn q v)
  have "\<not> persist c" using ok by (simp add: cache_ok_def)
  with Lookup look show ?thesis
    by (auto simp: peek_def lookup_off odict_simps split: option.splits if_splits)
next
  case (Put u io conn q res v)
  with look peek_put [OF ok, of sha f u io conn q res v k w] other show ?thesis by (auto split: if_splits)
next
  case (Invalidate conn)
  with ok look show ?thesis
    by (auto simp: peek_def invalidate_def cache_ok_def map_of_od_filter split: option.splits if_splits)
next
  case (InvalidateSchema conn v)
  with ok look show ?thesis
    by (auto simp: peek_def invalidate_schema_def cache_ok_def map_of_od_filter split: option.splits if_splits)
next
  case Clear
  with look show ?thesis by (simp add: peek_def clear_def)
qed

interpretation query_sound: sound_cache peek "step sha f" "stored sha" "cache_ok n t" for sha f n t
proof unfold_locales
  fix sha f n t c op k v w
  assume ok: "cache_ok n t c" and st: "stored sha op = Some (k, v)" and "peek (step sha f c op) k = Some w"
  then show "w = v"
  proof (cases op)
    case (Put u io conn q res x)
    with st have "\<not> is_error res" "make_key sha conn q x = k"
      "v = \<lparr>result = res, cached_at = fst u, schema_version = x\<rparr>" by (simp_all split: if_splits)
    with Put peek_put [OF ok] \<open>peek (step sha f c op) k = Some w\<close> show ?thesis by fastforce
  qed simp_all
next
  fix sha f n t c op k w
  assume "cache_ok n t c" and "\<And>v. stored sha op \<noteq> Some (k, v)" and "peek (step sha f c op) k = Some w"
  then show "peek c k = Some w" by (rule query_peek_other)
qed (rule query_step_ok)

lemma new_ok: "cache_ok n t (new_query_cache n t False fs)"
  by (simp add: cache_ok_def new_query_cache_def)

section \<open>What the files change\<close>

text \<open>
  With a directory, an invalidated entry comes back from its file, and loading a file does not
  evict. Both on concrete caches (with the identity for the digest).
\<close>

definition sample_result :: "nat query_result" where
  "sample_result = \<lparr>columns = [''n''], rows = [[1]], row_count = 1, execution_time_ms = 2,
     error = None, error_type = None, truncated = False\<rparr>"

lemma invalidate_keeps_files:
  "fst (lookup (\<lambda>s. s) (2, 2) True ''c'' ''SELECT 1'' None
     (invalidate ''c'' (put (\<lambda>s. s) (\<lambda>v. v) (1, 1) True ''c'' ''SELECT 1'' sample_result None
       (new_query_cache 4 600 True Map.empty)))) = Some sample_result"
  by (simp add: lookup_def invalidate_def put_def new_query_cache_def load_from_disk_def persist_to_disk_def
      sample_result_def is_error_def make_key_def od_push_def od_del_def Let_def)

section \<open>Properties\<close>

text \<open>
  The normal form keeps literals: the quoted runs of a query (strings and quoted
  identifiers, quotes and doubled quotes included) are exactly the quoted runs of its normal
  form, so two queries with one normal form have the same literals; and normalizing twice is
  normalizing once.
\<close>

theorem normal_form_keeps_literals:
  "quoted_runs None (normalize_query q) = quoted_runs None q \<and>
   normalize_query (normalize_query q) = normalize_query q"
  unfolding normalize_query_def using runs_normalize [of None False False q] normalize_restart [of None False False q]
  by simp

text \<open>
  C27. The in-memory cache is bounded and sound: after any operations on a fresh one it holds
  at most its capacity, and what a lookup answers is the result most recently put under the same
  key, which is not an error and is no older than the lifetime.
\<close>

theorem cached_result_latest_fresh:
  assumes "fst (lookup sha clocks io conn q v (foldl (step sha f) (new_query_cache n t False fs) ops)) = Some res"
  shows "(\<exists>e. query_sound.last_stored sha (make_key sha conn q v) None ops = Some e \<and> result e = res \<and>
      fst clocks - cached_at e \<le> t) \<and>
    size_of (foldl (step sha f) (new_query_cache n t False fs) ops) \<le> n"
proof -
  let ?c = "foldl (step sha f) (new_query_cache n t False fs) ops"
  have ok: "cache_ok n t ?c" by (rule query_machine.run_inv [OF new_ok])
  with assms obtain e where e: "peek ?c (make_key sha conn q v) = Some e" "result e = res" "fst clocks - cached_at e \<le> t"
    by (auto simp: lookup_off cache_ok_def peek_def split: option.splits if_splits)
  have "query_sound.last_stored sha (make_key sha conn q v) None ops = Some e"
    by (rule query_sound.run_last_stored [OF new_ok _ e(1)]) (simp add: peek_def new_query_cache_def)
  with e ok show ?thesis by (auto simp: cache_ok_def size_of_def)
qed

theorem cached_result_latest_fresh_witness:
  "\<exists>e. query_sound.last_stored (\<lambda>s. s) (make_key (\<lambda>s. s) ''c'' ''select  1'' None) None
      [Put (1, 1) True ''c'' ''SELECT 1'' sample_result None] = Some e \<and> result e = sample_result"
proof -
  have "normalize_query ''select  1'' = normalize_query ''SELECT 1''" by code_simp
  then have same_key: "make_key (\<lambda>s. s) ''c'' ''select  1'' None = make_key (\<lambda>s. s) ''c'' ''SELECT 1'' None"
    by (simp only: make_key_def)
  have "fst (lookup (\<lambda>s. s) (5, 5) True ''c'' ''select  1'' None
      (foldl (step (\<lambda>s. s) (\<lambda>v. v)) (new_query_cache 4 600 False Map.empty)
        [Put (1, 1) True ''c'' ''SELECT 1'' sample_result None])) = Some sample_result"
    by (simp add: same_key lookup_def put_def new_query_cache_def persist_to_disk_def sample_result_def
        is_error_def od_push_def od_del_def Let_def)
  from cached_result_latest_fresh [OF this] show ?thesis by blast
qed

text \<open>
  Invalidation works while nothing is on disk: after a connection is invalidated no lookup
  for it answers, whatever the query and the version; and after its schema version changes, what
  a lookup for it still answers was stored under the current version.
\<close>

theorem invalidation_drops:
  assumes "\<not> persist c"
  shows "fst (lookup sha clocks io conn q v (invalidate conn c)) = None \<and>
    (fst (lookup sha clocks io conn q v (invalidate_schema conn cur c)) = Some res \<longrightarrow>
      (\<exists>e. (make_key sha conn q v, e) \<in> set (store c) \<and> result e = res \<and> schema_version e = Some cur))"
proof -
  have key: "prefix (conn @ '':'') (make_key sha conn q v)" by (simp add: make_key_def Let_def)
  have "map_of (store (invalidate conn c)) (make_key sha conn q v) = None"
    using key by (auto simp: invalidate_def map_of_eq_None_iff)
  then have "fst (lookup sha clocks io conn q v (invalidate conn c)) = None"
    using assms by (subst lookup_off) (auto simp: invalidate_def)
  moreover have "\<exists>e. (make_key sha conn q v, e) \<in> set (store c) \<and> result e = res \<and> schema_version e = Some cur"
    if "fst (lookup sha clocks io conn q v (invalidate_schema conn cur c)) = Some res"
  proof -
    have "\<not> persist (invalidate_schema conn cur c)" using assms by (simp add: invalidate_schema_def)
    with that obtain e where "map_of (store (invalidate_schema conn cur c)) (make_key sha conn q v) = Some e" "result e = res"
      by (auto simp: lookup_off split: option.splits if_splits)
    then show ?thesis using key by (auto simp: invalidate_schema_def dest!: map_of_SomeD)
  qed
  ultimately show ?thesis by blast
qed

theorem invalidation_drops_witness:
  "fst (lookup (\<lambda>s. s) (2, 2) True ''c'' ''SELECT 1'' None
     (invalidate ''c'' (put (\<lambda>s. s) (\<lambda>v. v) (1, 1) True ''c'' ''SELECT 1'' sample_result None
       (new_query_cache 4 600 False Map.empty)))) = None"
proof -
  have "\<not> persist (put (\<lambda>s. s) (\<lambda>v. v) (1, 1) True ''c'' ''SELECT 1'' sample_result None
       (new_query_cache 4 600 False Map.empty))"
    by (simp add: put_fields new_query_cache_def)
  from invalidation_drops [OF this] show ?thesis by blast
qed

text \<open>
  C37. Where the normal form is not conservative: comments are not literals to it, so a
  line comment's newline, which ends the comment, is folded into a space, which does not. Two
  queries of which one reads column \<^verbatim>\<open>b\<close> and the other does not share every cache key.
\<close>

theorem comment_collision:
  "make_key sha conn (''SELECT a -- x'' @ [CHR 0x0A] @ '', b FROM t'') v = make_key sha conn ''SELECT a -- x , b FROM t'' v"
proof -
  have "normalize_query (''SELECT a -- x'' @ [CHR 0x0A] @ '', b FROM t'') = normalize_query ''SELECT a -- x , b FROM t''"
    by code_simp
  then show ?thesis by (simp only: make_key_def)
qed

end
