(* ===== verification/AgentLimiter.thy ===== *)
theory AgentLimiter
  imports Prelude
begin

text \<open>
  \<^verbatim>\<open>backend/app/core/agent_limiter.py\<close>: the cap on concurrent agent calls and on calls per
  hour, per user. The in-memory implementation is modelled in full; the script that runs
  inside Redis is a reply (not connected, failed, or a code), because the Redis server is not
  part of the repository.
\<close>

datatype refusal = TooManyConcurrent int | HourlyLimit int

record 'u limiter =
  concurrent :: "'u \<Rightarrow> int"
  hourly_calls :: "'u \<Rightarrow> rat list"

record limits =
  max_concurrent :: int
  max_per_hour :: int

definition new_limiter :: "'u limiter" where
  "new_limiter = \<lparr>concurrent = (\<lambda>_. 0), hourly_calls = (\<lambda>_. [])\<rparr>"

datatype redis_reply = NotConnected | Failed | Code int

definition acquire_redis :: "limits \<Rightarrow> int \<Rightarrow> refusal option" where
  "acquire_redis cfg code =
     (if code = 1 then Some (TooManyConcurrent (max_concurrent cfg))
      else if code = 2 then Some (HourlyLimit (max_per_hour cfg))
      else None)"

definition acquire_memory :: "limits \<Rightarrow> rat \<Rightarrow> 'u \<Rightarrow> 'u limiter \<Rightarrow> refusal option \<times> 'u limiter" where
  "acquire_memory cfg now u s =
     (if concurrent s u \<ge> max_concurrent cfg then (Some (TooManyConcurrent (max_concurrent cfg)), s)
      else
        (let calls = filter (\<lambda>t. t > now - 3600) (hourly_calls s u);
             s1 = s\<lparr>hourly_calls := (hourly_calls s)(u := calls)\<rparr>
         in if int (length calls) \<ge> max_per_hour cfg then (Some (HourlyLimit (max_per_hour cfg)), s1)
            else (None, s1\<lparr>concurrent := (concurrent s1)(u := concurrent s1 u + 1),
                           hourly_calls := (hourly_calls s1)(u := calls @ [now])\<rparr>)))"

definition acquire ::
  "limits \<Rightarrow> redis_reply \<Rightarrow> rat \<Rightarrow> 'u \<Rightarrow> 'u limiter \<Rightarrow> refusal option \<times> 'u limiter" where
  "acquire cfg redis now u s =
     (case redis of Code code \<Rightarrow> (acquire_redis cfg code, s)
      | NotConnected \<Rightarrow> acquire_memory cfg now u s
      | Failed \<Rightarrow> acquire_memory cfg now u s)"

definition release :: "redis_reply \<Rightarrow> 'u \<Rightarrow> 'u limiter \<Rightarrow> 'u limiter" where
  "release redis u s =
     (case redis of Code code \<Rightarrow> s
      | NotConnected \<Rightarrow> s\<lparr>concurrent := (concurrent s)(u := max 0 (concurrent s u - 1))\<rparr>
      | Failed \<Rightarrow> s\<lparr>concurrent := (concurrent s)(u := max 0 (concurrent s u - 1))\<rparr>)"

subsection \<open>Runs of the in-memory limiter\<close>

text \<open>
  A run records, beside the state, the admitted calls (user and time, in order) and the last
  reading of the clock; the clock never goes back.
\<close>

datatype 'u op = Acquire rat 'u | Release 'u

record 'u run =
  limiter :: "'u limiter"
  admitted :: "('u \<times> rat) list"
  last_time :: rat

fun step :: "limits \<Rightarrow> redis_reply \<Rightarrow> 'u run \<Rightarrow> 'u op \<Rightarrow> 'u run" where
  "step cfg redis r (Acquire d u) =
     (let now = last_time r + max 0 d in
      case acquire cfg redis now u (limiter r) of
        (None, s) \<Rightarrow> \<lparr>limiter = s, admitted = admitted r @ [(u, now)], last_time = now\<rparr>
      | (Some e, s) \<Rightarrow> r\<lparr>limiter := s, last_time := now\<rparr>)"
| "step cfg redis r (Release u) = r\<lparr>limiter := release redis u (limiter r)\<rparr>"

definition start_run :: "rat \<Rightarrow> 'u run" where
  "start_run t = \<lparr>limiter = new_limiter, admitted = [], last_time = t\<rparr>"

definition admitted_by :: "'u \<Rightarrow> ('u \<times> rat) list \<Rightarrow> rat list" where
  "admitted_by u xs = map snd (filter (\<lambda>x. fst x = u) xs)"

text \<open>A window of an hour that ends at any time holds at most \<open>n\<close> of the times.\<close>

definition in_hour :: "rat \<Rightarrow> rat list \<Rightarrow> rat list" where
  "in_hour t ts = filter (\<lambda>x. t - 3600 < x \<and> x \<le> t) ts"

definition windows_ok :: "int \<Rightarrow> rat list \<Rightarrow> bool" where
  "windows_ok n ts \<longleftrightarrow> (\<forall>t. int (length (in_hour t ts)) \<le> n)"

text \<open>
  What holds of one user: the clock, the counter, the recorded calls and the admitted calls.
  The recorded calls agree with the admitted ones after some cutoff at least an hour ago.
\<close>

definition quota_ok :: "limits \<Rightarrow> rat \<Rightarrow> int \<Rightarrow> rat list \<Rightarrow> rat list \<Rightarrow> bool" where
  "quota_ok cfg now k calls made \<longleftrightarrow>
     (\<forall>t \<in> set made. t \<le> now) \<and>
     (\<exists>c \<le> now - 3600. filter (\<lambda>t. t > c) calls = filter (\<lambda>t. t > c) made) \<and>
     windows_ok (max 0 (max_per_hour cfg)) made \<and> 0 \<le> k \<and> k \<le> max 0 (max_concurrent cfg)"

definition user_ok :: "limits \<Rightarrow> 'u run \<Rightarrow> 'u \<Rightarrow> bool" where
  "user_ok cfg r u \<longleftrightarrow> quota_ok cfg (last_time r) (concurrent (limiter r) u) (hourly_calls (limiter r) u)
     (admitted_by u (admitted r))"

definition run_ok :: "limits \<Rightarrow> 'u run \<Rightarrow> bool" where
  "run_ok cfg r \<longleftrightarrow> (\<forall>u. user_ok cfg r u)"

lemma start_ok: "run_ok cfg (start_run t)"
  by (auto simp: run_ok_def user_ok_def quota_ok_def start_run_def new_limiter_def admitted_by_def windows_ok_def in_hour_def
      intro: exI [of _ "t - 3600"])

lemma admitted_by_simps [simp]:
  "admitted_by u (xs @ [(v, t)]) = admitted_by u xs @ (if v = u then [t] else [])"
  by (simp add: admitted_by_def)

text \<open>Filtering by a later cutoff forgets nothing that a later window can see.\<close>

lemma filter_cutoff:
  "c \<le> (d :: rat) \<Longrightarrow> filter (\<lambda>t. t > c) xs = filter (\<lambda>t. t > c) ys \<Longrightarrow>
    filter (\<lambda>t. t > d) xs = filter (\<lambda>t. t > d) ys"
proof -
  assume "c \<le> d" and e: "filter (\<lambda>t. t > c) xs = filter (\<lambda>t. t > c) ys"
  then have "filter (\<lambda>t. t > d) zs = filter (\<lambda>t. t > d) (filter (\<lambda>t. t > c) zs)" for zs
    by (auto simp: intro!: filter_cong)
  then show ?thesis using e by metis
qed

lemma window_admit:
  assumes w: "windows_ok n ts" and past: "\<forall>t \<in> set ts. t \<le> now"
    and few: "int (length (filter (\<lambda>t. t > now - 3600) ts)) < n"
  shows "windows_ok n (ts @ [now])"
  unfolding windows_ok_def
proof
  fix t
  show "int (length (in_hour t (ts @ [now]))) \<le> n"
  proof (cases "t - 3600 < now \<and> now \<le> t")
    case False
    then have "in_hour t (ts @ [now]) = in_hour t ts" by (auto simp: in_hour_def)
    with w show ?thesis by (simp add: windows_ok_def)
  next
    case True
    have "in_hour t ts = filter (\<lambda>x. t - 3600 < x \<and> x \<le> t) (filter (\<lambda>x. x > now - 3600) ts)"
      using True by (auto simp: in_hour_def intro!: filter_cong)
    then have "length (in_hour t ts) \<le> length (filter (\<lambda>x. x > now - 3600) ts)" by (simp only: length_filter_le)
    with few True show ?thesis by (simp add: in_hour_def)
  qed
qed

lemma acquire_other:
  "u \<noteq> v \<Longrightarrow> concurrent (snd (acquire_memory cfg now v s)) u = concurrent s u \<and>
    hourly_calls (snd (acquire_memory cfg now v s)) u = hourly_calls s u"
  by (simp add: acquire_memory_def Let_def)

lemma quota_later: "quota_ok cfg now k calls made \<Longrightarrow> now \<le> now' \<Longrightarrow> quota_ok cfg now' k calls made"
proof -
  assume q: "quota_ok cfg now k calls made" and n: "now \<le> now'"
  from q obtain c where c: "c \<le> now - 3600" "filter (\<lambda>t. t > c) calls = filter (\<lambda>t. t > c) made"
    unfolding quota_ok_def by blast
  from c(1) n have "c \<le> now' - 3600" by linarith
  with c(2) have "\<exists>c \<le> now' - 3600. filter (\<lambda>t. t > c) calls = filter (\<lambda>t. t > c) made" by blast
  moreover have "\<forall>t \<in> set made. t \<le> now'" using q n unfolding quota_ok_def by (blast intro: order_trans)
  ultimately show ?thesis using q unfolding quota_ok_def by (elim conjE) (intro conjI)
qed

lemma quota_recent:
  assumes "quota_ok cfg now k calls made" and "now \<le> now'"
  shows "filter (\<lambda>t. t > now' - 3600) calls = filter (\<lambda>t. t > now' - 3600) made"
proof -
  from assms(1) obtain c where c: "c \<le> now - 3600" "filter (\<lambda>t. t > c) calls = filter (\<lambda>t. t > c) made"
    unfolding quota_ok_def by blast
  from c(1) assms(2) have "c \<le> now' - 3600" by linarith
  then show ?thesis using c(2) by (rule filter_cutoff)
qed

lemma quota_refused:
  assumes "quota_ok cfg now k calls made" and "now \<le> now'"
  shows "quota_ok cfg now' k (filter (\<lambda>t. t > now' - 3600) calls) made"
proof -
  have "filter (\<lambda>t. t > now' - 3600) (filter (\<lambda>t. t > now' - 3600) calls) = filter (\<lambda>t. t > now' - 3600) made"
    using quota_recent [OF assms] by simp
  then have "\<exists>c \<le> now' - 3600. filter (\<lambda>t. t > c) (filter (\<lambda>t. t > now' - 3600) calls) = filter (\<lambda>t. t > c) made"
    by blast
  with quota_later [OF assms] show ?thesis unfolding quota_ok_def by (elim conjE) (intro conjI)
qed

lemma quota_admit:
  assumes q: "quota_ok cfg now k calls made" "now \<le> now'"
    and "k < max_concurrent cfg"
    and few: "int (length (filter (\<lambda>t. t > now' - 3600) calls)) < max_per_hour cfg"
  shows "quota_ok cfg now' (k + 1) (filter (\<lambda>t. t > now' - 3600) calls @ [now']) (made @ [now'])"
proof -
  have "windows_ok (max 0 (max_per_hour cfg)) (made @ [now'])"
    using quota_later [OF q] few quota_recent [OF q] by (intro window_admit) (auto simp: quota_ok_def)
  moreover have "filter (\<lambda>t. t > now' - 3600) (filter (\<lambda>t. t > now' - 3600) calls @ [now'])
      = filter (\<lambda>t. t > now' - 3600) (made @ [now'])"
    using quota_recent [OF q] by simp
  then have "\<exists>c \<le> now' - 3600. filter (\<lambda>t. t > c) (filter (\<lambda>t. t > now' - 3600) calls @ [now'])
      = filter (\<lambda>t. t > c) (made @ [now'])" by blast
  moreover have "\<forall>t \<in> set (made @ [now']). t \<le> now'" "0 \<le> k + 1 \<and> k + 1 \<le> max 0 (max_concurrent cfg)"
    using quota_later [OF q] assms(3) unfolding quota_ok_def by auto
  ultimately show ?thesis unfolding quota_ok_def by (elim conjE) (intro conjI)
qed

lemma limiter_step_ok:
  assumes "run_ok cfg r" and mem: "redis = NotConnected \<or> redis = Failed"
  shows "run_ok cfg (step cfg redis r op)"
  unfolding run_ok_def
proof
  fix v
  have v: "user_ok cfg r v" using assms(1) by (simp add: run_ok_def)
  show "user_ok cfg (step cfg redis r op) v"
  proof (cases op)
    case (Acquire d u)
    let ?now = "last_time r + max 0 d"
    have later: "last_time r \<le> ?now" by simp
    have acq: "acquire cfg redis ?now u (limiter r) = acquire_memory cfg ?now u (limiter r)"
      using mem by (auto simp: acquire_def)
    show ?thesis
    proof (cases "v = u")
      case False
      with Acquire acq v acquire_other [OF False, of cfg ?now "limiter r"] quota_later [OF _ later] show ?thesis
        by (auto simp: user_ok_def admitted_by_def Let_def split: prod.split option.split)
    next
      case True
      with Acquire acq v quota_later [OF _ later] quota_refused [OF _ later] quota_admit [OF _ later] show ?thesis
        by (auto simp: user_ok_def acquire_memory_def Let_def)
    qed
  next
    case (Release u)
    with v mem show ?thesis by (auto simp: user_ok_def quota_ok_def release_def)
  qed
qed

interpretation limiter_machine: machine "step cfg NotConnected" "run_ok cfg" for cfg
  by unfold_locales (simp add: limiter_step_ok)

section \<open>Properties\<close>


text \<open>
  A refusal says which limit: a call is refused exactly when the user already holds the
  concurrent limit or has made the hourly limit of calls in the last hour, the refusal names
  that limit, it takes no slot, and no other user's counts change either way. A connected Redis
  decides alone.
\<close>

theorem acquire_outcome:
  "fst (acquire cfg NotConnected now u s) =
     (if concurrent s u \<ge> max_concurrent cfg then Some (TooManyConcurrent (max_concurrent cfg))
      else if int (length (filter (\<lambda>t. t > now - 3600) (hourly_calls s u))) \<ge> max_per_hour cfg
      then Some (HourlyLimit (max_per_hour cfg)) else None) \<and>
   concurrent (snd (acquire cfg NotConnected now u s)) =
     (if fst (acquire cfg NotConnected now u s) = None then (concurrent s)(u := concurrent s u + 1) else concurrent s) \<and>
   (v = u \<or> hourly_calls (snd (acquire cfg NotConnected now u s)) v = hourly_calls s v) \<and>
   snd (acquire cfg (Code n) now u s) = s"
  by (auto simp: acquire_def acquire_memory_def Let_def)

end
