(* ===== verification/WsTickets.thy ===== *)
theory WsTickets
  imports PyText
begin

text \<open>
  \<^verbatim>\<open>backend/app/core/ws_tickets.py\<close>: single-use tickets for the WebSocket handshake. The
  random token of \<^verbatim>\<open>secrets.token_urlsafe\<close>, the clock and the answers of Redis are arguments;
  what Redis holds under a key is a text that \<^verbatim>\<open>json.loads\<close>, a parameter, reads as a
  dictionary.
\<close>

record ticket =
  user_id :: string
  project_id :: string
  connection_id :: string
  expires_at :: rat

record ticket_store =
  default_ttl :: rat
  tickets :: "(string, ticket) odict"

definition new_store :: "rat \<Rightarrow> ticket_store" where
  "new_store t = \<lparr>default_ttl = t, tickets = []\<rparr>"

definition prune :: "rat \<Rightarrow> ticket_store \<Rightarrow> ticket_store" where
  "prune now s = s\<lparr>tickets := filter (\<lambda>(k, t). \<not> expires_at t \<le> now) (tickets s)\<rparr>"

text \<open>What Redis answered: it is not connected, the call raised, or a reply.\<close>

datatype 'a redis = NotConnected | Failed | Reply 'a

definition issue ::
  "unit redis \<Rightarrow> rat \<Rightarrow> string \<Rightarrow> string \<Rightarrow> string \<Rightarrow> string \<Rightarrow> rat option \<Rightarrow> ticket_store \<Rightarrow>
    (string \<times> rat) \<times> ticket_store" where
  "issue redis now token user project connection ttl_arg s =
     (let ttl = (case ttl_arg of Some t \<Rightarrow> t | None \<Rightarrow> default_ttl s);
          in_memory =
            (let s1 = prune now s
             in s1\<lparr>tickets := od_set token \<lparr>user_id = user, project_id = project, connection_id = connection,
                  expires_at = now + ttl\<rparr> (tickets s1)\<rparr>)
      in ((token, ttl), case redis of Reply _ \<Rightarrow> s | NotConnected \<Rightarrow> in_memory | Failed \<Rightarrow> in_memory))"

definition redeem_memory :: "rat \<Rightarrow> string \<Rightarrow> string \<Rightarrow> string \<Rightarrow> ticket_store \<Rightarrow> string option \<times> ticket_store" where
  "redeem_memory now token project connection s =
     (let s1 = prune now s;
          s2 = s1\<lparr>tickets := od_del token (tickets s1)\<rparr>
      in case map_of (tickets s1) token of
           None \<Rightarrow> (None, s1)
         | Some entry \<Rightarrow>
             if expires_at entry \<le> now then (None, s2)
             else if project_id entry \<noteq> project \<or> connection_id entry \<noteq> connection then (None, s2)
             else (Some (user_id entry), s2))"

definition redeem ::
  "(string \<Rightarrow> (string \<rightharpoonup> string) option) \<Rightarrow> string option redis \<Rightarrow> rat \<Rightarrow> string \<Rightarrow> string \<Rightarrow> string \<Rightarrow>
    ticket_store \<Rightarrow> string option \<times> ticket_store" where
  "redeem loads redis now token project connection s =
     (if token = [] then (None, s)
      else case redis of
        Reply (Some raw) \<Rightarrow>
          (case loads raw of
             None \<Rightarrow> (None, s)
           | Some entry \<Rightarrow>
               if entry ''project_id'' \<noteq> Some project \<or> entry ''connection_id'' \<noteq> Some connection then (None, s)
               else (entry ''user_id'', s))
      | Reply None \<Rightarrow> redeem_memory now token project connection s
      | NotConnected \<Rightarrow> redeem_memory now token project connection s
      | Failed \<Rightarrow> redeem_memory now token project connection s)"

subsection \<open>The in-memory store as a machine\<close>

datatype op =
    Issue rat string string string string "rat option"
  | Redeem rat string string string

fun step :: "ticket_store \<Rightarrow> op \<Rightarrow> ticket_store" where
  "step s (Issue now tok u p c t) = snd (issue NotConnected now tok u p c t s)"
| "step s (Redeem now tok p c) = snd (redeem (\<lambda>_. None) NotConnected now tok p c s)"

definition store_ok :: "rat \<Rightarrow> ticket_store \<Rightarrow> bool" where
  "store_ok t s \<longleftrightarrow> default_ttl s = t \<and> od_ok (tickets s)"

lemma new_store_ok: "store_ok t (new_store t)"
  by (simp add: store_ok_def new_store_def)

lemma ticket_step_ok: "store_ok t s \<Longrightarrow> store_ok t (step s op)"
  by (cases op) (auto simp: store_ok_def issue_def redeem_def redeem_memory_def prune_def Let_def split: option.split)

interpretation ticket_machine: machine step "store_ok t" for t
  by unfold_locales (rule ticket_step_ok)

definition peek :: "ticket_store \<Rightarrow> string \<Rightarrow> ticket option" where
  "peek s k = map_of (tickets s) k"

fun stored :: "rat \<Rightarrow> op \<Rightarrow> (string \<times> ticket) option" where
  "stored t (Issue now tok u p c a) =
     Some (tok, \<lparr>user_id = u, project_id = p, connection_id = c,
       expires_at = now + (case a of Some x \<Rightarrow> x | None \<Rightarrow> t)\<rparr>)"
| "stored t (Redeem now tok p c) = None"

lemma peek_prune: "od_ok (tickets s) \<Longrightarrow> peek (prune now s) k = Some w \<Longrightarrow> peek s k = Some w"
  by (auto simp: peek_def prune_def map_of_od_filter split: option.splits if_splits)

lemma prune_ok: "od_ok (tickets s) \<Longrightarrow> od_ok (tickets (prune now s))"
  by (simp add: prune_def od_ok_filter)

lemma peek_issue:
  "store_ok t s \<Longrightarrow> peek (step s (Issue now tok u p c a)) k = Some w \<Longrightarrow>
    if tok = k then w = \<lparr>user_id = u, project_id = p, connection_id = c,
       expires_at = now + (case a of Some x \<Rightarrow> x | None \<Rightarrow> t)\<rparr> else peek s k = Some w"
  using peek_prune [of s now k w]
  by (auto simp: store_ok_def issue_def Let_def peek_def odict_simps prune_def split: if_splits)

lemma peek_redeem:
  assumes "store_ok t s"
  shows "peek (step s (Redeem now tok p c)) k = Some w \<Longrightarrow> peek s k = Some w"
    and "tok \<noteq> [] \<Longrightarrow> peek (step s (Redeem now tok p c)) tok = None"
  using assms peek_prune [of s now k w]
  by (auto simp: store_ok_def redeem_def redeem_memory_def Let_def peek_def odict_simps
      split: option.splits if_splits)

interpretation ticket_sound: sound_cache peek step "stored t" "store_ok t" for t
proof unfold_locales
  fix t s op k v w
  assume "store_ok t s" and "stored t op = Some (k, v)" and "peek (step s op) k = Some w"
  then show "w = v" using peek_issue [of t s] by (cases op) (fastforce simp del: step.simps)+
next
  fix t s op k w
  assume ok: "store_ok t s" and "\<And>v. stored t op \<noteq> Some (k, v)" and "peek (step s op) k = Some w"
  then show "peek s k = Some w"
    using peek_issue [OF ok] peek_redeem(1) [OF ok]
    by (cases op) (simp_all del: step.simps, metis prod.inject)
qed (rule ticket_step_ok)

lemma redeemed_entry:
  "fst (redeem_memory now tok p c s) = Some u \<Longrightarrow> od_ok (tickets s) \<Longrightarrow>
    \<exists>e. peek s tok = Some e \<and> user_id e = u \<and> project_id e = p \<and> connection_id e = c \<and> now < expires_at e"
  using peek_prune [of s now tok]
  by (auto simp: redeem_memory_def Let_def peek_def split: option.splits if_splits)

text \<open>A ticket that is gone stays gone until it is issued again.\<close>

lemma gone_stays:
  "store_ok t s \<Longrightarrow> peek s tok = None \<Longrightarrow> \<forall>op \<in> set ops. \<forall>now u p c a. op \<noteq> Issue now tok u p c a \<Longrightarrow>
    peek (foldl step s ops) tok = None"
proof (induction ops arbitrary: s)
  case (Cons op ops)
  have "\<And>v. stored t op \<noteq> Some (tok, v)" using Cons.prems(3) by (cases op) auto
  then have "peek (step s op) tok = None"
    using ticket_sound.other_look [OF Cons.prems(1)] Cons.prems(2) by (metis not_Some_eq)
  with Cons show ?case by (auto intro: ticket_step_ok)
qed simp

section \<open>Properties\<close>

text \<open>
  A ticket is worth what it was issued for: if redeeming a ticket on a store with any
  history answers a user, then the last ticket issued under that token was issued to that user,
  for the same project and connection, and has not expired.
\<close>

theorem redeem_only_issued:
  assumes "fst (redeem loads NotConnected now tok p c (foldl step (new_store t) ops)) = Some u"
  shows "\<exists>e. ticket_sound.last_stored t tok None ops = Some e \<and>
    user_id e = u \<and> project_id e = p \<and> connection_id e = c \<and> now < expires_at e"
proof -
  let ?s = "foldl step (new_store t) ops"
  have ok: "store_ok t ?s" by (rule ticket_machine.run_inv [OF new_store_ok])
  from assms have "fst (redeem_memory now tok p c ?s) = Some u" by (auto simp: redeem_def split: if_splits)
  with ok obtain e where e: "peek ?s tok = Some e" "user_id e = u \<and> project_id e = p \<and> connection_id e = c \<and> now < expires_at e"
    using redeemed_entry by (metis store_ok_def)
  have "ticket_sound.last_stored t tok None ops = Some e"
    by (rule ticket_sound.run_last_stored [OF new_store_ok _ e(1)]) (simp add: peek_def new_store_def)
  with e(2) show ?thesis by blast
qed

theorem redeem_only_issued_witness:
  "\<exists>e. ticket_sound.last_stored 30 ''tk'' None [Issue 0 ''tk'' ''ann'' ''p1'' ''c1'' None] = Some e \<and>
    user_id e = ''ann'' \<and> project_id e = ''p1'' \<and> connection_id e = ''c1'' \<and> (9 :: rat) < expires_at e"
  by (rule redeem_only_issued [where loads = "\<lambda>_. None"])
    (simp add: redeem_def redeem_memory_def issue_def new_store_def prune_def od_set_def Let_def)



end
