(* ===== verification/PyValue.thy ===== *)
theory PyValue
  imports PyText
begin

text \<open>
  Python values whose type the code does not fix: what a language model's plan, a decoded JSON
  text or a database cell may be. Floats are exact rationals rounded to 53 bits where the code
  rounds; the functions here are the ones the components share (\<^verbatim>\<open>dict.get\<close>, truth, hashability,
  \<^verbatim>\<open>round\<close>), and \<^verbatim>\<open>backend/app/core/numeric.py\<close>.
\<close>

section \<open>Floats\<close>

text \<open>\<open>round_even\<close> is Python's \<^verbatim>\<open>round\<close>: to the nearest integer, ties to the even one.\<close>

definition round_even :: "rat \<Rightarrow> int" where
  "round_even r = (let f = \<lfloor>r\<rfloor>; d = r - of_int f in
     if d < 1 / 2 then f else if d > 1 / 2 then f + 1 else if even f then f else f + 1)"

fun bit_length :: "nat \<Rightarrow> nat" where
  "bit_length n = (if n = 0 then 0 else Suc (bit_length (n div 2)))"

declare bit_length.simps [simp del]

definition pow2 :: "int \<Rightarrow> rat" where
  "pow2 e = (if e \<ge> 0 then 2 ^ nat e else 1 / 2 ^ nat (- e))"

text \<open>The exponent of a positive rational: \<open>2 ^ e \<le> x < 2 ^ (e + 1)\<close>.\<close>

definition exponent :: "rat \<Rightarrow> int" where
  "exponent x = (case quotient_of x of (p, q) \<Rightarrow>
     let e = int (bit_length (nat p)) - int (bit_length (nat q)) in if pow2 e \<le> x then e else e - 1)"

text \<open>The nearest double of a rational (no overflow, no subnormals).\<close>

definition fl :: "rat \<Rightarrow> rat" where
  "fl x = (if x = 0 then 0 else
     let y = \<bar>x\<bar>; u = pow2 (exponent y - 52); m = of_int (round_even (y / u)) * u
     in if x < 0 then - m else m)"

lemma pow2_pos: "0 < pow2 e"
  by (simp add: pow2_def)

lemma round_even_bounds: "of_int (round_even r) \<le> r + 1 / 2" "r - 1 / 2 \<le> of_int (round_even r)"
proof -
  have f: "of_int \<lfloor>r\<rfloor> \<le> r" "r < of_int \<lfloor>r\<rfloor> + 1" by linarith+
  show "of_int (round_even r) \<le> r + 1 / 2" "r - 1 / 2 \<le> of_int (round_even r)"
    unfolding round_even_def Let_def using f by (simp_all split: if_split) linarith+
qed

lemma round_even_nonneg: "0 \<le> r \<Longrightarrow> 0 \<le> round_even r"
  by (auto simp: round_even_def Let_def)

lemma fl_nonneg: "0 \<le> x \<Longrightarrow> 0 \<le> fl x"
  using pow2_pos [of "exponent x - 52"]
  by (auto simp: fl_def Let_def intro!: mult_nonneg_nonneg round_even_nonneg divide_nonneg_pos)

text \<open>Rounding moves a value by at most half a unit of its last place.\<close>

lemma fl_close: "0 < x \<Longrightarrow> \<bar>fl x - x\<bar> \<le> pow2 (exponent x - 52) / 2"
proof -
  assume x: "0 < x"
  let ?u = "pow2 (exponent x - 52)"
  have u: "0 < ?u" by (rule pow2_pos)
  have "\<bar>of_int (round_even (x / ?u)) - x / ?u\<bar> \<le> 1 / 2"
    using round_even_bounds [of "x / ?u"] by linarith
  then have "\<bar>of_int (round_even (x / ?u)) - x / ?u\<bar> * ?u \<le> 1 / 2 * ?u"
    using u by (intro mult_right_mono) auto
  moreover have "of_int (round_even (x / ?u)) * ?u - x = (of_int (round_even (x / ?u)) - x / ?u) * ?u"
    using u by (simp add: left_diff_distrib)
  ultimately have "\<bar>of_int (round_even (x / ?u)) * ?u - x\<bar> \<le> ?u / 2"
    using u by (simp add: abs_mult)
  with x show ?thesis by (simp add: fl_def Let_def)
qed

text \<open>The exponent is the right one, so a double's value is at least its leading power of two.\<close>

lemma bit_length_bounds: "0 < n \<Longrightarrow> 2 ^ (bit_length n - 1) \<le> n \<and> n < 2 ^ bit_length n \<and> 0 < bit_length n"
proof (induction n rule: bit_length.induct)
  case (1 n)
  show ?case
  proof (cases "n = 1")
    case True
    then show ?thesis by (simp add: bit_length.simps)
  next
    case False
    with 1 have half: "0 < n div 2" by simp
    with 1 False have ih: "2 ^ (bit_length (n div 2) - 1) \<le> n div 2" "n div 2 < 2 ^ bit_length (n div 2)" "0 < bit_length (n div 2)"
      by simp_all
    have b: "bit_length n = Suc (bit_length (n div 2))" using "1.prems" by (subst bit_length.simps) simp
    have "(2::nat) ^ bit_length (n div 2) = 2 * 2 ^ (bit_length (n div 2) - 1)"
      using ih(3) by (cases "bit_length (n div 2)") simp_all
    with ih(1) have "(2::nat) ^ bit_length (n div 2) \<le> n" by simp
    moreover have "n < 2 * 2 ^ bit_length (n div 2)" using ih(2) by simp
    ultimately show ?thesis by (simp add: b)
  qed
qed

lemma pow2_add: "pow2 (a + b) = pow2 a * pow2 b"
proof -
  have powi: "pow2 e = 2 powi e" for e
    by (simp add: pow2_def power_int_def inverse_eq_divide power_one_over)
  show ?thesis unfolding powi by (simp add: power_int_add)
qed

lemma pow2_nat: "pow2 (int n) = 2 ^ n"
  by (simp add: pow2_def)

lemma pow2_le_mono: "a \<le> b \<Longrightarrow> pow2 a \<le> pow2 b"
proof -
  assume "a \<le> b"
  then obtain k where b: "b = a + int k" using zle_iff_zadd by blast
  have "(1::rat) \<le> 2 ^ k" by simp
  then have "pow2 a * 1 \<le> pow2 a * 2 ^ k" using pow2_pos [of a] by (intro mult_left_mono) simp_all
  then show ?thesis unfolding b pow2_add pow2_nat by simp
qed

lemma exponent_bounds:
  assumes "0 < x"
  shows "pow2 (exponent x) \<le> x" "x < pow2 (exponent x + 1)"
proof -
  obtain p q where pq: "quotient_of x = (p, q)" by fastforce
  have q: "0 < q" using quotient_of_denom_pos [OF pq] .
  have x: "x = of_int p / of_int q" using quotient_of_div [OF pq] .
  have p: "0 < p" using assms q by (simp add: x zero_less_divide_iff)
  define a b where "a = bit_length (nat p)" and "b = bit_length (nat q)"
  have pa: "2 ^ (a - 1) \<le> nat p" "nat p < 2 ^ a" "0 < a" and qb: "2 ^ (b - 1) \<le> nat q" "nat q < 2 ^ b" "0 < b"
    using bit_length_bounds [of "nat p"] bit_length_bounds [of "nat q"] p q by (simp_all add: a_def b_def)
  have P: "of_int p = (of_nat (nat p) :: rat)" and Q: "of_int q = (of_nat (nat q) :: rat)" using p q by simp_all
  have pr: "(2::rat) ^ (a - 1) \<le> of_int p" "of_int p < (2::rat) ^ a"
    unfolding P using pa by (metis of_nat_le_iff of_nat_numeral of_nat_power, metis of_nat_less_iff of_nat_numeral of_nat_power)
  have qr: "(2::rat) ^ (b - 1) \<le> of_int q" "of_int q < (2::rat) ^ b"
    unfolding Q using qb by (metis of_nat_le_iff of_nat_numeral of_nat_power, metis of_nat_less_iff of_nat_numeral of_nat_power)
  have q0: "(0::rat) < of_int q" using q by simp
  define e where "e = int a - int b"
  have "pow2 (e + 1) * 2 ^ (b - 1) = pow2 (e + 1 + int (b - 1))" by (simp only: pow2_add pow2_nat)
  also have "e + 1 + int (b - 1) = int a" using qb(3) by (simp add: e_def)
  finally have up: "pow2 (e + 1) * 2 ^ (b - 1) = 2 ^ a" by (simp only: pow2_nat)
  have "pow2 (e - 1) * 2 ^ b = pow2 (e - 1 + int b)" by (simp only: pow2_add pow2_nat)
  also have "e - 1 + int b = int (a - 1)" using pa(3) by (simp add: e_def)
  finally have down: "pow2 (e - 1) * 2 ^ b = 2 ^ (a - 1)" by (simp only: pow2_nat)
  have "2 ^ a \<le> pow2 (e + 1) * of_int q"
    unfolding up [symmetric] using qr(1) pow2_pos [of "e + 1"] by (intro mult_left_mono) simp_all
  with pr(2) have "of_int p < pow2 (e + 1) * of_int q" by linarith
  then have hi: "x < pow2 (e + 1)" using q0 by (simp add: x pos_divide_less_eq)
  have "pow2 (e - 1) * of_int q \<le> 2 ^ (a - 1)"
    unfolding down [symmetric] using qr(2) pow2_pos [of "e - 1"] by (intro mult_left_mono) simp_all
  with pr(1) have "pow2 (e - 1) * of_int q \<le> of_int p" by linarith
  then have lo: "pow2 (e - 1) \<le> x" using q0 by (simp add: x pos_le_divide_eq)
  have "exponent x = (if pow2 e \<le> x then e else e - 1)"
    by (simp add: exponent_def pq Let_def e_def a_def b_def)
  then show "pow2 (exponent x) \<le> x" "x < pow2 (exponent x + 1)" using hi lo by auto
qed

lemma fl_ge_leading:
  assumes "0 < x"
  shows "pow2 (exponent x) \<le> fl x"
proof -
  let ?u = "pow2 (exponent x - 52)"
  have u: "0 < ?u" by (rule pow2_pos)
  have "pow2 (exponent x) = pow2 (int 52 + (exponent x - 52))" by simp
  also have "\<dots> = 2 ^ 52 * ?u" by (simp only: pow2_add pow2_nat)
  finally have lead: "pow2 (exponent x) = 2 ^ 52 * ?u" .
  with exponent_bounds(1) [OF assms] have "2 ^ 52 \<le> x / ?u" using u by (simp add: pos_le_divide_eq)
  then have "of_int (2 ^ 52) \<le> x / ?u" by simp
  then have "2 ^ 52 \<le> \<lfloor>x / ?u\<rfloor>" by (simp only: le_floor_iff)
  then have "2 ^ 52 \<le> round_even (x / ?u)" by (auto simp: round_even_def Let_def)
  then have "of_int (2 ^ 52) \<le> (of_int (round_even (x / ?u)) :: rat)" by (simp only: of_int_le_iff)
  then have "2 ^ 52 * ?u \<le> of_int (round_even (x / ?u)) * ?u" using u by (intro mult_right_mono) simp_all
  with assms show ?thesis by (simp add: fl_def Let_def lead)
qed

lemma fl_overflows:
  assumes "2 ^ 1024 \<le> n"
  shows "pow2 1024 \<le> \<bar>fl (of_int n)\<bar>"
proof -
  have N: "(2::rat) ^ 1024 \<le> of_int n" using assms by (metis of_int_le_iff of_int_numeral of_int_power)
  have "(0::rat) < 2 ^ 1024" by (rule zero_less_power) simp
  with N have pos: "(0::rat) < of_int n" by linarith
  have "pow2 1024 = 2 ^ 1024" using pow2_nat [of 1024] by (simp only: of_nat_numeral)
  with N exponent_bounds(2) [OF pos] have "pow2 1024 < pow2 (exponent (of_int n) + 1)" by linarith
  then have "1024 < exponent (of_int n) + 1" using pow2_le_mono [of "exponent (of_int n) + 1" 1024] by linarith
  then have "pow2 1024 \<le> pow2 (exponent (of_int n))" by (intro pow2_le_mono) simp
  with fl_ge_leading [OF pos] show ?thesis by linarith
qed

text \<open>Small integers are doubles.\<close>

lemma round_even_int: "round_even (of_int i) = i"
  by (simp add: round_even_def)

lemma fl_pos_int:
  assumes "0 < i" "i < 2 ^ 53"
  shows "fl (of_int i) = of_int i"
proof -
  have pos: "(0::rat) < of_int i" using assms by simp
  note b = exponent_bounds [OF pos]
  have "pow2 0 \<le> of_int i" using assms(1) by (simp add: pow2_def)
  with b(2) have "pow2 0 < pow2 (exponent (of_int i) + 1)" by linarith
  then have lo: "0 \<le> exponent (of_int i)" using pow2_le_mono [of "exponent (of_int i) + 1" 0] by linarith
  have "of_int i < (of_int (2 ^ 53) :: rat)" using assms(2) by (simp only: of_int_less_iff)
  then have "of_int i < pow2 (int 53)" unfolding pow2_nat by simp
  with b(1) have "pow2 (exponent (of_int i)) < pow2 53" by simp
  then have hi: "exponent (of_int i) \<le> 52" using pow2_le_mono [of 53 "exponent (of_int i)"] by linarith
  define k where "k = nat (52 - exponent (of_int i))"
  have u: "pow2 (exponent (of_int i) - 52) = 1 / 2 ^ k"
    using hi by (cases "exponent (of_int i) = 52") (simp_all add: pow2_def k_def)
  have "of_int i / (1 / 2 ^ k) = (of_int (i * 2 ^ k) :: rat)" by simp
  then have "round_even (of_int i / (1 / 2 ^ k)) = i * 2 ^ k" by (simp only: round_even_int)
  with pos show ?thesis by (simp add: fl_def u)
qed

lemma fl_minus: "fl (- x) = - fl x"
  by (simp add: fl_def Let_def)

lemma fl_int: "\<bar>i\<bar> < 2 ^ 53 \<Longrightarrow> fl (of_int i) = of_int i"
proof (cases i "0 :: int" rule: linorder_cases)
  case less
  assume "\<bar>i\<bar> < 2 ^ 53"
  with less have "fl (of_int (- i)) = of_int (- i)" by (intro fl_pos_int) simp_all
  then show ?thesis by (simp add: fl_minus)
next
  case equal
  then show ?thesis by (simp add: fl_def)
next
  case greater
  assume "\<bar>i\<bar> < 2 ^ 53"
  with greater show ?thesis by (intro fl_pos_int) simp_all
qed

lemma pow2_1024: "\<bar>i\<bar> < 2 ^ 53 \<Longrightarrow> \<not> pow2 1024 \<le> \<bar>of_int i\<bar>"
proof -
  assume "\<bar>i\<bar> < 2 ^ 53"
  then have "of_int \<bar>i\<bar> < (of_int (2 ^ 53) :: rat)" by (simp only: of_int_less_iff)
  then have "\<bar>of_int i\<bar> < pow2 (int 53)" unfolding pow2_nat by simp
  moreover have "pow2 (int 53) \<le> pow2 1024" by (rule pow2_le_mono) simp
  ultimately show ?thesis by linarith
qed

text \<open>Rounding keeps the order of what it rounds.\<close>

lemma round_even_mono:
  assumes "r \<le> s"
  shows "round_even r \<le> round_even s"
proof (cases "\<lfloor>r\<rfloor> = \<lfloor>s\<rfloor>")
  case True
  have "r - of_int \<lfloor>r\<rfloor> \<le> s - of_int \<lfloor>s\<rfloor>" using assms True by simp
  then show ?thesis unfolding round_even_def Let_def True by (auto split: if_splits)
next
  case False
  with floor_mono [OF assms] have "\<lfloor>r\<rfloor> + 1 \<le> \<lfloor>s\<rfloor>" by linarith
  moreover have "round_even r \<le> \<lfloor>r\<rfloor> + 1" "\<lfloor>s\<rfloor> \<le> round_even s"
    by (auto simp: round_even_def Let_def)
  ultimately show ?thesis by linarith
qed

lemma fl_le_next:
  assumes "0 < x"
  shows "fl x \<le> pow2 (exponent x + 1)"
proof -
  let ?u = "pow2 (exponent x - 52)"
  have u: "0 < ?u" by (rule pow2_pos)
  have "pow2 (exponent x + 1) = pow2 (int 53 + (exponent x - 52))" by (simp add: add.commute)
  also have "\<dots> = 2 ^ 53 * ?u" by (simp only: pow2_add pow2_nat)
  finally have top: "pow2 (exponent x + 1) = of_int (2 ^ 53) * ?u" by simp
  with exponent_bounds(2) [OF assms] have "x / ?u \<le> of_int (2 ^ 53)" using u by (simp add: pos_divide_le_eq)
  then have "round_even (x / ?u) \<le> round_even (of_int (2 ^ 53))" by (rule round_even_mono)
  then have "round_even (x / ?u) \<le> 2 ^ 53" by (simp only: round_even_int)
  then have "of_int (round_even (x / ?u)) \<le> (of_int (2 ^ 53) :: rat)" by (simp only: of_int_le_iff)
  then have "of_int (round_even (x / ?u)) * ?u \<le> of_int (2 ^ 53) * ?u" using u by (intro mult_right_mono) simp_all
  with assms show ?thesis by (simp add: fl_def Let_def top)
qed

lemma fl_mono:
  assumes "0 \<le> x" "x \<le> y"
  shows "fl x \<le> fl y"
proof (cases "x = 0")
  case True
  then show ?thesis using fl_nonneg [of y] assms by (simp add: fl_def)
next
  case False
  then have x: "0 < x" and y: "0 < y" using assms by simp_all
  show ?thesis
  proof (cases "exponent x = exponent y")
    case True
    let ?u = "pow2 (exponent y - 52)"
    have u: "0 < ?u" by (rule pow2_pos)
    have "x / ?u \<le> y / ?u" using u assms(2) by (simp add: divide_right_mono)
    then have "round_even (x / ?u) \<le> round_even (y / ?u)" by (rule round_even_mono)
    then have "of_int (round_even (x / ?u)) * ?u \<le> of_int (round_even (y / ?u)) * ?u"
      using u by (intro mult_right_mono) simp_all
    with x y show ?thesis by (simp add: fl_def Let_def True)
  next
    case False
    have "pow2 (exponent x) < pow2 (exponent y + 1)"
      using exponent_bounds(1) [OF x] exponent_bounds(2) [OF y] assms(2) by linarith
    then have "exponent x < exponent y + 1" using pow2_le_mono [of "exponent y + 1" "exponent x"] by linarith
    with False have "exponent x + 1 \<le> exponent y" by linarith
    then have "pow2 (exponent x + 1) \<le> pow2 (exponent y)" by (rule pow2_le_mono)
    with fl_le_next [OF x] fl_ge_leading [OF y] show ?thesis by linarith
  qed
qed
section \<open>Values\<close>

text \<open>A date (or a date and time) is its year and its \<^verbatim>\<open>isoformat\<close> text.\<close>

datatype fnum = Fin rat | Infinite bool | NaN

datatype pyval =
    PNone
  | PBool bool
  | PInt int
  | PFloat fnum
  | PDecimal fnum
  | PStr string
  | PBytes string
  | PDate int string
  | PList "pyval list"
  | PDict "(string \<times> pyval) list"

datatype py_error = TypeError | KeyError string | IndexError | ValueError | OverflowError

fun truthy :: "pyval \<Rightarrow> bool" where
  "truthy PNone = False"
| "truthy (PBool b) = b"
| "truthy (PInt i) = (i \<noteq> 0)"
| "truthy (PFloat x) = (x \<noteq> Fin 0)"
| "truthy (PDecimal x) = (x \<noteq> Fin 0)"
| "truthy (PStr s) = (s \<noteq> [])"
| "truthy (PBytes s) = (s \<noteq> [])"
| "truthy (PDate y t) = True"
| "truthy (PList xs) = (xs \<noteq> [])"
| "truthy (PDict d) = (d \<noteq> [])"

definition dict_get :: "(string \<times> pyval) list \<Rightarrow> string \<Rightarrow> pyval \<Rightarrow> pyval" where
  "dict_get d k dflt = (case map_of d k of None \<Rightarrow> dflt | Some v \<Rightarrow> v)"

fun hashable :: "pyval \<Rightarrow> bool" where
  "hashable (PList xs) = False"
| "hashable (PDict d) = False"
| "hashable _ = True"

text \<open>Values that a Python set takes for the same element have one canonical form.\<close>

definition canon_num :: "fnum \<Rightarrow> pyval" where
  "canon_num x = (case x of Fin r \<Rightarrow> (if of_int \<lfloor>r\<rfloor> = r then PInt \<lfloor>r\<rfloor> else PFloat (Fin r)) | _ \<Rightarrow> PFloat x)"

fun canon :: "pyval \<Rightarrow> pyval" where
  "canon (PBool b) = PInt (if b then 1 else 0)"
| "canon (PFloat x) = canon_num x"
| "canon (PDecimal x) = canon_num x"
| "canon v = v"

text \<open>Iterating over a value: a list's items, a text's characters, a dictionary's keys.\<close>

fun py_iter :: "pyval \<Rightarrow> py_error + pyval list" where
  "py_iter (PList xs) = Inr xs"
| "py_iter (PStr s) = Inr (map (\<lambda>c. PStr [c]) s)"
| "py_iter (PDict d) = Inr (map (\<lambda>(k, v). PStr k) d)"
| "py_iter _ = Inl TypeError"

section \<open>Numbers\<close>

definition is_measurement :: "pyval \<Rightarrow> bool" where
  "is_measurement v = (case v of
     PInt i \<Rightarrow> True | PFloat x \<Rightarrow> x \<noteq> NaN | PDecimal x \<Rightarrow> x \<noteq> NaN | _ \<Rightarrow> False)"

definition to_number :: "pyval \<Rightarrow> py_error + fnum option" where
  "to_number v =
     (if \<not> is_measurement v then Inr None
      else case v of
        PInt i \<Rightarrow> (if \<bar>fl (of_int i)\<bar> \<ge> pow2 1024 then Inl OverflowError else Inr (Some (Fin (fl (of_int i)))))
      | PFloat x \<Rightarrow> Inr (Some x)
      | PDecimal (Fin r) \<Rightarrow>
          (if \<bar>fl r\<bar> \<ge> pow2 1024 then Inr (Some (Infinite (r > 0))) else Inr (Some (Fin (fl r))))
      | PDecimal x \<Rightarrow> Inr (Some x)
      | _ \<Rightarrow> Inr None)"

lemma to_number_int: "\<bar>i\<bar> < 2 ^ 53 \<Longrightarrow> to_number (PInt i) = Inr (Some (Fin (of_int i)))"
  by (simp add: to_number_def is_measurement_def fl_int pow2_1024 [simplified])

definition is_negative :: "fnum \<Rightarrow> bool" where
  "is_negative x = (case x of Fin r \<Rightarrow> r < 0 | Infinite pos \<Rightarrow> \<not> pos | NaN \<Rightarrow> False)"

end
