(* ===== verification/Kahn.thy ===== *)
theory Kahn
  imports Prelude
begin

text \<open>
  Kahn's topological sort as \<^verbatim>\<open>_validate_plan_structure\<close> of
  \<^verbatim>\<open>backend/app/agents/query_planner.py\<close> runs it (a dictionary of in-degrees, a dictionary of
  successors, a queue and a count of visited nodes), with its termination and its correctness:
  it visits every node exactly when the graph has no cycle.
\<close>

section \<open>The loop\<close>

text \<open>
  One visited node: every successor's degree goes down by one, and a successor that reaches zero
  joins the queue. The code's subscript raises for a successor without a degree; every successor
  has one, because both dictionaries are filled together.
\<close>

fun relax :: "'k list \<Rightarrow> ('k, int) odict \<Rightarrow> 'k list \<Rightarrow> ('k, int) odict \<times> 'k list" where
  "relax [] deg queue = (deg, queue)"
| "relax (n # ns) deg queue =
     (case map_of deg n of
        None \<Rightarrow> relax ns deg queue
      | Some d \<Rightarrow> relax ns (od_set n (d - 1) deg) (if d - 1 = 0 then queue @ [n] else queue))"

definition waiting :: "('k, int) odict \<Rightarrow> nat" where
  "waiting deg = length (filter (\<lambda>e. snd e > 0) deg)"

lemma waiting_set:
  "map_of deg n = Some d \<Longrightarrow>
    waiting (od_set n (d - 1) deg) + (if d - 1 = 0 then 1 else 0) = waiting deg"
proof (induction deg)
  case (Cons e deg)
  then show ?case by (cases e) (auto simp: waiting_def od_set_def split: if_splits)
qed simp

lemma relax_waiting:
  "relax ns deg queue = (deg', queue') \<Longrightarrow> length queue' + waiting deg' = length queue + waiting deg"
proof (induction ns deg queue rule: relax.induct)
  case (2 n ns deg queue)
  show ?case
  proof (cases "map_of deg n")
    case (Some d)
    with 2 waiting_set [OF Some] show ?thesis by (simp split: if_splits)
  qed (use 2 in simp)
qed simp

lemma relax_less: "(deg', queue') = relax ns deg queue \<Longrightarrow> length queue' + waiting deg' < Suc (length queue + waiting deg)"
  using relax_waiting [of ns deg queue deg' queue'] by simp

function visit_loop :: "('k \<Rightarrow> 'k list) \<Rightarrow> ('k, int) odict \<Rightarrow> 'k list \<Rightarrow> nat \<Rightarrow> nat" where
  "visit_loop adj deg [] visited = visited"
| "visit_loop adj deg (n # queue) visited =
     (case relax (adj n) deg queue of (deg', queue') \<Rightarrow> visit_loop adj deg' queue' (Suc visited))"
  by pat_completeness auto
termination
  by (relation "measure (\<lambda>(adj, deg, queue, v). length queue + waiting deg)")
    (simp_all add: relax_less)

text \<open>The same loop that also keeps the order of the visits.\<close>

function visit_order :: "('k \<Rightarrow> 'k list) \<Rightarrow> ('k, int) odict \<Rightarrow> 'k list \<Rightarrow> 'k list \<Rightarrow> 'k list" where
  "visit_order adj deg [] seen = seen"
| "visit_order adj deg (n # queue) seen =
     (case relax (adj n) deg queue of (deg', queue') \<Rightarrow> visit_order adj deg' queue' (seen @ [n]))"
  by pat_completeness auto
termination
  by (relation "measure (\<lambda>(adj, deg, queue, v). length queue + waiting deg)")
    (simp_all add: relax_less)

lemma visit_loop_order: "visit_loop adj deg queue (length seen) = length (visit_order adj deg queue seen)"
  by (induction adj deg queue seen rule: visit_order.induct) (auto split: prod.split)

section \<open>Correctness\<close>

text \<open>The number of edges into a node from the nodes of a set.\<close>

definition indegree :: "('k \<Rightarrow> 'k list) \<Rightarrow> 'k set \<Rightarrow> 'k \<Rightarrow> nat" where
  "indegree adj S n = (\<Sum>s \<in> S. count_list (adj s) n)"

lemma indegree_remove:
  "finite S \<Longrightarrow> m \<in> S \<Longrightarrow> indegree adj S n = count_list (adj m) n + indegree adj (S - {m}) n"
  by (simp add: indegree_def sum.remove)

lemma indegree_zero: "finite S \<Longrightarrow> indegree adj S n = 0 \<longleftrightarrow> (\<forall>s \<in> S. n \<notin> set (adj s))"
  by (simp add: indegree_def count_list_0_iff)

lemma relax_spec:
  assumes "relax ns deg queue = (deg', queue')"
    and "\<And>n. n \<in> set ns \<Longrightarrow> \<exists>d. map_of deg n = Some d \<and> int (count_list ns n) \<le> d"
  shows "map_of deg' k = map_option (\<lambda>d. d - int (count_list ns k)) (map_of deg k) \<and>
    (\<exists>new. queue' = queue @ new \<and> distinct new \<and> set new = {n \<in> set ns. map_of deg n = Some (int (count_list ns n))})"
  using assms
proof (induction ns deg queue arbitrary: k rule: relax.induct)
  case (1 deg queue)
  then show ?case by (cases "map_of deg k") auto
next
  case (2 n ns deg queue)
  from "2.prems"(2) [of n] obtain d where d: "map_of deg n = Some d" "int (count_list ns n) + 1 \<le> d" by auto
  let ?deg = "od_set n (d - 1) deg"
  let ?q = "if d - 1 = 0 then queue @ [n] else queue"
  have run: "relax ns ?deg ?q = (deg', queue')" using "2.prems"(1) d by simp
  have enough: "\<And>m. m \<in> set ns \<Longrightarrow> \<exists>e. map_of ?deg m = Some e \<and> int (count_list ns m) \<le> e"
  proof -
    fix m assume "m \<in> set ns"
    with "2.prems"(2) [of m] d show "\<exists>e. map_of ?deg m = Some e \<and> int (count_list ns m) \<le> e"
      by (cases "m = n") (auto simp: map_of_od_set)
  qed
  from "2.IH"(2) [OF d(1) run enough]
  have deg: "\<And>k. map_of deg' k = map_option (\<lambda>d. d - int (count_list ns k)) (map_of ?deg k)"
    and new: "\<exists>new. queue' = ?q @ new \<and> distinct new \<and>
      set new = {m \<in> set ns. map_of ?deg m = Some (int (count_list ns m))}" by blast+
  from new obtain xs where xs: "queue' = ?q @ xs" "distinct xs"
    "set xs = {m \<in> set ns. map_of ?deg m = Some (int (count_list ns m))}" by blast
  have "map_of deg' k = map_option (\<lambda>d. d - int (count_list (n # ns) k)) (map_of deg k)"
    using deg [of k] d(1) by (auto simp: map_of_od_set)
  moreover have "\<exists>new. queue' = queue @ new \<and> distinct new \<and>
      set new = {m \<in> set (n # ns). map_of deg m = Some (int (count_list (n # ns) m))}"
  proof (cases "d - 1 = 0")
    case True
    then have "count_list ns n = 0" using d(2) by simp
    then have n: "n \<notin> set ns" by (simp add: count_list_0_iff)
    have zero: "count_list ns n = 0" using n by (simp add: count_list_0_iff)
    have "m \<in> set (n # xs) \<longleftrightarrow> m \<in> set (n # ns) \<and> map_of deg m = Some (int (count_list (n # ns) m))" for m
      using xs(3) d(1) n True zero by (cases "m = n") (simp_all add: map_of_od_set)
    then have "set (n # xs) = {m \<in> set (n # ns). map_of deg m = Some (int (count_list (n # ns) m))}" by blast
    moreover have "n \<notin> set xs" using xs(3) n by auto
    ultimately show ?thesis using xs True by (intro exI [of _ "n # xs"]) auto
  next
    case False
    have n: "n \<in> set ns" if "d = int (count_list ns n) + 1"
      using that False count_list_0_iff [of ns n] by auto
    have "m \<in> set xs \<longleftrightarrow> m \<in> set (n # ns) \<and> map_of deg m = Some (int (count_list (n # ns) m))" for m
      using xs(3) d(1) n by (cases "m = n") (simp_all add: map_of_od_set algebra_simps, blast)
    then have "set xs = {m \<in> set (n # ns). map_of deg m = Some (int (count_list (n # ns) m))}" by blast
    then show ?thesis using xs False by auto
  qed
  ultimately show ?case by blast
qed

definition kahn_inv ::
  "('k \<Rightarrow> 'k list) \<Rightarrow> 'k set \<Rightarrow> ('k, int) odict \<Rightarrow> 'k list \<Rightarrow> 'k list \<Rightarrow> bool" where
  "kahn_inv adj N deg queue seen \<longleftrightarrow>
     distinct (seen @ queue) \<and> set (seen @ queue) \<subseteq> N \<and>
     (\<forall>n \<in> N. map_of deg n = Some (int (indegree adj (N - set seen) n))) \<and>
     (\<forall>n \<in> N. n \<in> set (seen @ queue) \<longleftrightarrow> indegree adj (N - set seen) n = 0) \<and>
     (\<forall>i < length (seen @ queue). \<forall>s \<in> N. (seen @ queue) ! i \<in> set (adj s) \<longrightarrow> s \<in> set (take i seen))"

lemma kahn_step:
  assumes fin: "finite N" and edges: "\<And>s. s \<in> N \<Longrightarrow> set (adj s) \<subseteq> N"
    and inv: "kahn_inv adj N deg (m # queue) seen" and rel: "relax (adj m) deg queue = (deg', queue')"
  shows "kahn_inv adj N deg' queue' (seen @ [m])"
proof -
  let ?R = "N - set seen" and ?R' = "N - set (seen @ [m])"
  have dist: "distinct (seen @ m # queue)" and sub: "set (seen @ m # queue) \<subseteq> N"
    and deg: "\<And>n. n \<in> N \<Longrightarrow> map_of deg n = Some (int (indegree adj ?R n))"
    and ready: "\<And>n. n \<in> N \<Longrightarrow> n \<in> set (seen @ m # queue) \<longleftrightarrow> indegree adj ?R n = 0"
    and before: "\<And>i s. i < length (seen @ m # queue) \<Longrightarrow> s \<in> N \<Longrightarrow> (seen @ m # queue) ! i \<in> set (adj s) \<Longrightarrow> s \<in> set (take i seen)"
    using inv unfolding kahn_inv_def by blast+
  have m: "m \<in> ?R" "m \<in> N" using dist sub by auto
  have R': "?R' = ?R - {m}" by auto
  have split: "indegree adj ?R n = count_list (adj m) n + indegree adj ?R' n" for n
    unfolding R' using fin m by (intro indegree_remove) auto
  have enough: "\<exists>d. map_of deg n = Some d \<and> int (count_list (adj m) n) \<le> d" if "n \<in> set (adj m)" for n
    using edges [OF m(2)] that deg [of n] split [of n] by auto
  obtain new where new: "queue' = queue @ new" "distinct new"
    "set new = {n \<in> set (adj m). map_of deg n = Some (int (count_list (adj m) n))}"
    and deg': "\<And>k. map_of deg' k = map_option (\<lambda>d. d - int (count_list (adj m) k)) (map_of deg k)"
    using relax_spec [OF rel enough] by blast
  have new_iff: "n \<in> set new \<longleftrightarrow> n \<in> N \<and> indegree adj ?R n \<noteq> 0 \<and> indegree adj ?R' n = 0" for n
  proof
    assume "n \<in> set new"
    then have n: "n \<in> set (adj m)" "map_of deg n = Some (int (count_list (adj m) n))" using new(3) by auto
    then have "n \<in> N" using edges [OF m(2)] by auto
    with n deg [of n] split [of n] show "n \<in> N \<and> indegree adj ?R n \<noteq> 0 \<and> indegree adj ?R' n = 0"
      by (auto simp: count_list_0_iff)
  next
    assume n: "n \<in> N \<and> indegree adj ?R n \<noteq> 0 \<and> indegree adj ?R' n = 0"
    then have "count_list (adj m) n \<noteq> 0" using split [of n] by linarith
    then have "n \<in> set (adj m)" by (simp add: count_list_0_iff)
    with n new(3) deg [of n] split [of n] show "n \<in> set new" by simp
  qed
  have dist': "distinct ((seen @ [m]) @ queue')"
  proof -
    have "set new \<inter> set (seen @ m # queue) = {}"
    proof (intro equals0I)
      fix x assume "x \<in> set new \<inter> set (seen @ m # queue)"
      then have x: "x \<in> set new" "x \<in> set (seen @ m # queue)" by (rule IntD1, rule IntD2)
      from x(1) have "x \<in> N" and pos: "indegree adj ?R x \<noteq> 0" unfolding new_iff by simp_all
      have "indegree adj ?R x = 0" using ready [OF \<open>x \<in> N\<close>] x(2) by (rule iffD1)
      with pos show False by (rule notE)
    qed
    moreover have "(seen @ [m]) @ queue' = (seen @ m # queue) @ new" by (simp add: new(1))
    ultimately show ?thesis using dist new(2) distinct_append [of "seen @ m # queue" new] by (simp only: Int_commute)
  qed
  have sub': "set ((seen @ [m]) @ queue') \<subseteq> N" using sub new_iff new(1) by auto
  have d': "\<forall>n \<in> N. map_of deg' n = Some (int (indegree adj ?R' n))"
    using deg' deg split by simp
  have ready': "\<forall>n \<in> N. n \<in> set ((seen @ [m]) @ queue') \<longleftrightarrow> indegree adj ?R' n = 0"
  proof
    fix n assume n: "n \<in> N"
    have "n \<in> set ((seen @ [m]) @ queue') \<longleftrightarrow> n \<in> set (seen @ m # queue) \<or> n \<in> set new" using new(1) by auto
    then show "n \<in> set ((seen @ [m]) @ queue') \<longleftrightarrow> indegree adj ?R' n = 0"
      using ready [OF n] new_iff [of n] n split [of n] by auto
  qed
  have before': "s \<in> set (take i (seen @ [m]))"
    if i: "i < length ((seen @ [m]) @ queue')" and s: "s \<in> N" "((seen @ [m]) @ queue') ! i \<in> set (adj s)" for i s
  proof (cases "i < length (seen @ m # queue)")
    case True
    then have "((seen @ [m]) @ queue') ! i = (seen @ m # queue) ! i"
      by (simp add: new(1) nth_append nth_Cons split: nat.split) arith
    then have "s \<in> set (take i seen)" using before [OF True s(1)] s(2) by simp
    then show ?thesis by (simp add: set_take_subset_set_take)
  next
    case False
    let ?n = "((seen @ [m]) @ queue') ! i"
    have n: "?n \<in> set ((seen @ [m]) @ queue')" using i by (rule nth_mem)
    then have "indegree adj ?R' ?n = 0" using ready' sub' by blast
    then have "s \<notin> ?R'" using s(2) fin by (auto simp: indegree_zero)
    with s(1) False show ?thesis by auto
  qed
  show ?thesis unfolding kahn_inv_def using dist' sub' d' ready' before' by blast
qed

lemma kahn_run:
  "finite N \<Longrightarrow> (\<And>s. s \<in> N \<Longrightarrow> set (adj s) \<subseteq> N) \<Longrightarrow> kahn_inv adj N deg queue seen \<Longrightarrow>
    \<exists>deg'. kahn_inv adj N deg' [] (visit_order adj deg queue seen)"
proof (induction adj deg queue seen rule: visit_order.induct)
  case (2 adj deg n queue seen)
  obtain deg' queue' where r: "relax (adj n) deg queue = (deg', queue')" by fastforce
  have "kahn_inv adj N deg' queue' (seen @ [n])" using 2(2-4) r by (rule kahn_step)
  with 2 r show ?case by auto
qed auto

text \<open>A rank: every edge goes up.\<close>

definition ranked :: "('k \<Rightarrow> 'k list) \<Rightarrow> 'k set \<Rightarrow> ('k \<Rightarrow> nat) \<Rightarrow> bool" where
  "ranked adj N rank \<longleftrightarrow> (\<forall>s \<in> N. \<forall>n \<in> set (adj s). rank s < rank n)"

lemma kahn_complete:
  assumes fin: "finite N" and edges: "\<And>s. s \<in> N \<Longrightarrow> set (adj s) \<subseteq> N"
    and start: "kahn_inv adj N deg queue []"
  shows "visit_loop adj deg queue 0 = card N \<longleftrightarrow> (\<exists>rank. ranked adj N rank)"
    and "visit_loop adj deg queue 0 \<le> card N"
proof -
  let ?o = "visit_order adj deg queue []"
  obtain deg' where inv: "kahn_inv adj N deg' [] ?o" using kahn_run [OF fin edges start] by blast
  have v: "visit_loop adj deg queue 0 = length ?o" using visit_loop_order [of adj deg queue "[]"] by simp
  have d: "distinct ?o" and sub: "set ?o \<subseteq> N"
    and ready: "\<And>n. n \<in> N \<Longrightarrow> n \<in> set ?o \<longleftrightarrow> indegree adj (N - set ?o) n = 0"
    and before: "\<And>i s. i < length ?o \<Longrightarrow> s \<in> N \<Longrightarrow> ?o ! i \<in> set (adj s) \<Longrightarrow> s \<in> set (take i ?o)"
    using inv unfolding kahn_inv_def by auto
  have card: "length ?o = card (set ?o)" using d by (simp add: distinct_card)
  then show "visit_loop adj deg queue 0 \<le> card N" using v sub fin by (simp add: card_mono)
  show "visit_loop adj deg queue 0 = card N \<longleftrightarrow> (\<exists>rank. ranked adj N rank)"
  proof
    assume "visit_loop adj deg queue 0 = card N"
    then have all: "set ?o = N" using v card sub fin by (simp add: card_subset_eq)
    define rank where "rank n = (LEAST i. i < length ?o \<and> ?o ! i = n)" for n
    have rank: "rank (?o ! i) = i" if "i < length ?o" for i
      unfolding rank_def using that d by (intro Least_equality) (auto simp: nth_eq_iff_index_eq)
    have "rank s < rank n" if "s \<in> N" "n \<in> set (adj s)" for s n
    proof -
      have "n \<in> set ?o" using all edges that by auto
      then obtain i where i: "i < length ?o" "?o ! i = n" by (auto simp: in_set_conv_nth)
      then have "s \<in> set (take i ?o)" using before that by blast
      then obtain j where "j < i" "j < length ?o" "?o ! j = s" by (auto simp: in_set_conv_nth)
      then show ?thesis using rank i by metis
    qed
    then show "\<exists>rank. ranked adj N rank" by (auto simp: ranked_def)
  next
    assume "\<exists>rank. ranked adj N rank"
    then obtain rank where r: "ranked adj N rank" by blast
    have "n \<in> set ?o" if "n \<in> N" for n
      using that
    proof (induction "rank n" arbitrary: n rule: less_induct)
      case less
      show ?case
      proof (rule ccontr)
        assume "n \<notin> set ?o"
        then obtain s where "s \<in> N - set ?o" "n \<in> set (adj s)"
          using ready [OF less.prems] fin by (auto simp: indegree_zero)
        then show False using less.hyps [of s] r by (auto simp: ranked_def)
      qed
    qed
    with sub have "set ?o = N" by auto
    then show "visit_loop adj deg queue 0 = card N" using v card by simp
  qed
qed

end
