(* ===== verification/Plans.thy ===== *)
theory Plans
  imports PyValue QueryData Kahn
begin

text \<open>
  \<^verbatim>\<open>backend/app/agents/stage_context.py\<close> and the plan validation of
  \<^verbatim>\<open>backend/app/agents/query_planner.py\<close>: the execution plan, its JSON form, the results of its
  stages with their persisted summaries, and the structural check a plan passes before it is
  run. Dictionaries from a language model or from the database are Python values; reading one
  into a data class fails where the code raises (a missing key) and where it would store a value
  of another type than the field declares.
\<close>

section \<open>The plan\<close>

record stage_validation =
  expected_columns :: "string list option"
  min_rows :: "int option"
  max_rows :: "int option"
  business_rules :: "string list option"
  cross_stage_checks :: "string list option"
  auto_injected :: bool

record plan_stage =
  stage_id :: string
  description :: string
  tool :: string
  depends_on :: "string list"
  input_context :: string
  validation :: stage_validation
  checkpoint :: bool
  max_retries :: int
  replan_on_failure :: bool

record execution_plan =
  plan_id :: string
  question :: string
  stages :: "plan_stage list"
  complexity_reason :: string
  plan_type :: string

definition no_validation :: stage_validation where
  "no_validation = \<lparr>expected_columns = None, min_rows = None, max_rows = None, business_rules = None,
     cross_stage_checks = None, auto_injected = False\<rparr>"

fun find_stage :: "plan_stage list \<Rightarrow> string \<Rightarrow> plan_stage option" where
  "find_stage [] sid = None"
| "find_stage (s # ss) sid = (if stage_id s = sid then Some s else find_stage ss sid)"

definition get_stage :: "execution_plan \<Rightarrow> string \<Rightarrow> plan_stage option" where
  "get_stage p sid = find_stage (stages p) sid"

section \<open>JSON forms\<close>

datatype load_error = MissingKey string | IllTyped string

type_synonym dict = "(string \<times> pyval) list"

definition strs_value :: "string list \<Rightarrow> pyval" where
  "strs_value xs = PList (map PStr xs)"

definition opt_value :: "('a \<Rightarrow> pyval) \<Rightarrow> 'a option \<Rightarrow> pyval" where
  "opt_value f x = (case x of None \<Rightarrow> PNone | Some a \<Rightarrow> f a)"

fun as_str :: "string \<Rightarrow> pyval \<Rightarrow> load_error + string" where
  "as_str k (PStr s) = Inr s"
| "as_str k _ = Inl (IllTyped k)"

fun as_bool :: "string \<Rightarrow> pyval \<Rightarrow> load_error + bool" where
  "as_bool k (PBool b) = Inr b"
| "as_bool k _ = Inl (IllTyped k)"

fun as_int :: "string \<Rightarrow> pyval \<Rightarrow> load_error + int" where
  "as_int k (PInt i) = Inr i"
| "as_int k _ = Inl (IllTyped k)"

fun as_strs :: "string \<Rightarrow> pyval \<Rightarrow> load_error + string list" where
  "as_strs k (PList xs) = map_ok (as_str k) xs"
| "as_strs k _ = Inl (IllTyped k)"

fun as_dict :: "string \<Rightarrow> pyval \<Rightarrow> load_error + dict" where
  "as_dict k (PDict d) = Inr d"
| "as_dict k _ = Inl (IllTyped k)"

fun as_list :: "string \<Rightarrow> pyval \<Rightarrow> load_error + pyval list" where
  "as_list k (PList xs) = Inr xs"
| "as_list k _ = Inl (IllTyped k)"

definition as_opt :: "(string \<Rightarrow> pyval \<Rightarrow> load_error + 'a) \<Rightarrow> string \<Rightarrow> pyval \<Rightarrow> load_error + 'a option" where
  "as_opt f k v = (if v = PNone then Inr None else bind_ok (f k v) (\<lambda>a. Inr (Some a)))"

definition required :: "dict \<Rightarrow> string \<Rightarrow> load_error + pyval" where
  "required d k = (case map_of d k of None \<Rightarrow> Inl (MissingKey k) | Some v \<Rightarrow> Inr v)"

definition validation_to_dict :: "stage_validation \<Rightarrow> dict" where
  "validation_to_dict v =
     [(''expected_columns'', opt_value strs_value (expected_columns v)),
      (''min_rows'', opt_value PInt (min_rows v)),
      (''max_rows'', opt_value PInt (max_rows v)),
      (''business_rules'', opt_value strs_value (business_rules v)),
      (''cross_stage_checks'', opt_value strs_value (cross_stage_checks v))]
     @ (if auto_injected v then [(''auto_injected'', PBool True)] else [])"

definition validation_from_dict :: "dict \<Rightarrow> load_error + stage_validation" where
  "validation_from_dict d =
     bind_ok (as_opt as_strs ''expected_columns'' (dict_get d ''expected_columns'' PNone)) (\<lambda>cols.
     bind_ok (as_opt as_int ''min_rows'' (dict_get d ''min_rows'' PNone)) (\<lambda>lo.
     bind_ok (as_opt as_int ''max_rows'' (dict_get d ''max_rows'' PNone)) (\<lambda>hi.
     bind_ok (as_opt as_strs ''business_rules'' (dict_get d ''business_rules'' PNone)) (\<lambda>rules.
     bind_ok (as_opt as_strs ''cross_stage_checks'' (dict_get d ''cross_stage_checks'' PNone)) (\<lambda>checks.
     bind_ok (as_bool ''auto_injected'' (dict_get d ''auto_injected'' (PBool False))) (\<lambda>auto_inj.
     Inr \<lparr>expected_columns = cols, min_rows = lo, max_rows = hi, business_rules = rules,
       cross_stage_checks = checks, auto_injected = auto_inj\<rparr>))))))"

definition stage_to_dict :: "plan_stage \<Rightarrow> dict" where
  "stage_to_dict s =
     [(''stage_id'', PStr (stage_id s)), (''description'', PStr (description s)), (''tool'', PStr (tool s)),
      (''depends_on'', strs_value (depends_on s)), (''input_context'', PStr (input_context s)),
      (''validation'', PDict (validation_to_dict (validation s))), (''checkpoint'', PBool (checkpoint s))]
     @ (if max_retries s \<noteq> 2 then [(''max_retries'', PInt (max_retries s))] else [])
     @ (if \<not> replan_on_failure s then [(''replan_on_failure'', PBool False)] else [])"

definition stage_from_dict :: "dict \<Rightarrow> load_error + plan_stage" where
  "stage_from_dict d =
     bind_ok (bind_ok (required d ''stage_id'') (as_str ''stage_id'')) (\<lambda>sid.
     bind_ok (bind_ok (required d ''description'') (as_str ''description'')) (\<lambda>desc.
     bind_ok (bind_ok (required d ''tool'') (as_str ''tool'')) (\<lambda>t.
     bind_ok (as_strs ''depends_on'' (dict_get d ''depends_on'' (PList []))) (\<lambda>deps.
     bind_ok (as_str ''input_context'' (dict_get d ''input_context'' (PStr []))) (\<lambda>inp.
     bind_ok (bind_ok (as_dict ''validation'' (dict_get d ''validation'' (PDict []))) validation_from_dict) (\<lambda>v.
     bind_ok (as_bool ''checkpoint'' (dict_get d ''checkpoint'' (PBool False))) (\<lambda>cp.
     bind_ok (as_int ''max_retries'' (dict_get d ''max_retries'' (PInt 2))) (\<lambda>mr.
     bind_ok (as_bool ''replan_on_failure'' (dict_get d ''replan_on_failure'' (PBool True))) (\<lambda>rp.
     Inr \<lparr>stage_id = sid, description = desc, tool = t, depends_on = deps, input_context = inp,
       validation = v, checkpoint = cp, max_retries = mr, replan_on_failure = rp\<rparr>)))))))))"

definition plan_to_dict :: "execution_plan \<Rightarrow> dict" where
  "plan_to_dict p =
     [(''plan_id'', PStr (plan_id p)), (''question'', PStr (question p)),
      (''stages'', PList (map (\<lambda>s. PDict (stage_to_dict s)) (stages p))),
      (''complexity_reason'', PStr (complexity_reason p))]
     @ (if plan_type p \<noteq> ''full'' then [(''plan_type'', PStr (plan_type p))] else [])"

definition plan_from_dict :: "dict \<Rightarrow> load_error + execution_plan" where
  "plan_from_dict d =
     bind_ok (bind_ok (required d ''plan_id'') (as_str ''plan_id'')) (\<lambda>pid.
     bind_ok (bind_ok (required d ''question'') (as_str ''question'')) (\<lambda>q.
     bind_ok (bind_ok (as_list ''stages'' (dict_get d ''stages'' (PList [])))
       (map_ok (\<lambda>v. bind_ok (as_dict ''stages'' v) stage_from_dict))) (\<lambda>ss.
     bind_ok (as_str ''complexity_reason'' (dict_get d ''complexity_reason'' (PStr []))) (\<lambda>cr.
     bind_ok (as_str ''plan_type'' (dict_get d ''plan_type'' (PStr ''full''))) (\<lambda>pt.
     Inr \<lparr>plan_id = pid, question = q, stages = ss, complexity_reason = cr, plan_type = pt\<rparr>)))))"

subsection \<open>Round trips\<close>

lemma map_ok_as_str: "map_ok (as_str k) (map PStr xs) = Inr xs"
  by (induction xs) simp_all

lemma as_opt_value:
  "as_opt as_strs k (opt_value strs_value x) = Inr x" "as_opt as_int k (opt_value PInt i) = Inr i"
  by (simp_all add: as_opt_def opt_value_def strs_value_def map_ok_as_str split: option.split)

lemma validation_round_trip: "validation_from_dict (validation_to_dict v) = Inr v"
  by (cases v) (simp add: validation_from_dict_def validation_to_dict_def dict_get_def as_opt_value)

lemma stage_round_trip: "stage_from_dict (stage_to_dict s) = Inr s"
  by (cases s)
    (simp add: stage_from_dict_def stage_to_dict_def dict_get_def required_def strs_value_def
      map_ok_as_str validation_round_trip)

lemma stages_round_trip:
  "map_ok (\<lambda>v. bind_ok (as_dict k v) stage_from_dict) (map (\<lambda>s. PDict (stage_to_dict s)) ss) = Inr ss"
  by (induction ss) (simp_all add: stage_round_trip)

section \<open>Results\<close>

record stage_result =
  res_stage :: string
  status :: string
  query :: "string option"
  query_result :: "pyval query_result option"
  summary :: string
  res_error :: "string option"
  error_category :: string
  degraded_reason :: "string option"
  token_usage :: dict

definition max_sample_rows :: nat where
  "max_sample_rows = 10"

definition context_field_cap :: nat where
  "context_field_cap = 800"

definition no_tokens :: dict where
  "no_tokens = [(''prompt_tokens'', PInt 0), (''completion_tokens'', PInt 0), (''total_tokens'', PInt 0)]"

text \<open>A result with the defaults of the data class.\<close>

definition new_result :: "string \<Rightarrow> string \<Rightarrow> stage_result" where
  "new_result sid st = \<lparr>res_stage = sid, status = st, query = None, query_result = None, summary = [],
     res_error = None, error_category = ''transient'', degraded_reason = None, token_usage = no_tokens\<rparr>"

definition retryable :: "stage_result \<Rightarrow> bool" where
  "retryable r \<longleftrightarrow> status r = ''error'' \<and> error_category r = ''transient''"

definition has_text :: "string option \<Rightarrow> bool" where
  "has_text x \<longleftrightarrow> x \<noteq> None \<and> x \<noteq> Some []"

definition to_summary_dict :: "stage_result \<Rightarrow> dict" where
  "to_summary_dict r =
     [(''stage_id'', PStr (res_stage r)), (''status'', PStr (status r)), (''summary'', PStr (summary r)),
      (''error'', opt_value PStr (res_error r)), (''token_usage'', PDict (token_usage r))]
     @ (if has_text (query r) then [(''query'', PStr (the (query r)))] else [])
     @ (case query_result r of None \<Rightarrow> []
        | Some qr \<Rightarrow> [(''columns'', strs_value (columns qr)), (''row_count'', PInt (row_count qr)),
            (''sample_rows'', PList (map PList (take max_sample_rows (rows qr))))])"

definition restored_result :: "dict \<Rightarrow> load_error + pyval query_result option" where
  "restored_result d =
     (case map_of d ''columns'' of
        None \<Rightarrow> Inr None
      | Some cv \<Rightarrow>
          bind_ok (as_strs ''columns'' cv) (\<lambda>cols.
          bind_ok (bind_ok (as_list ''sample_rows'' (dict_get d ''sample_rows'' (PList [])))
            (map_ok (as_list ''sample_rows''))) (\<lambda>rws.
          bind_ok (as_int ''row_count'' (dict_get d ''row_count'' (PInt 0))) (\<lambda>n.
          Inr (Some (empty_result\<lparr>columns := cols, rows := rws, row_count := n,
            truncated := int (length rws) < n\<rparr>))))))"

definition from_summary_dict :: "dict \<Rightarrow> load_error + stage_result" where
  "from_summary_dict d =
     bind_ok (restored_result d) (\<lambda>qr.
     bind_ok (bind_ok (required d ''stage_id'') (as_str ''stage_id'')) (\<lambda>sid.
     bind_ok (as_str ''status'' (dict_get d ''status'' (PStr ''success''))) (\<lambda>st.
     bind_ok (as_opt as_str ''query'' (dict_get d ''query'' PNone)) (\<lambda>q.
     bind_ok (as_str ''summary'' (dict_get d ''summary'' (PStr []))) (\<lambda>sm.
     bind_ok (as_opt as_str ''error'' (dict_get d ''error'' PNone)) (\<lambda>er.
     bind_ok (as_dict ''token_usage'' (dict_get d ''token_usage'' (PDict []))) (\<lambda>tu.
     Inr ((new_result sid st)\<lparr>query := q, query_result := qr, summary := sm, res_error := er,
       token_usage := tu\<rparr>))))))))"

text \<open>What survives: the sample of the rows, marked truncated when rows were left out.\<close>

definition restored :: "stage_result \<Rightarrow> stage_result" where
  "restored r = r\<lparr>query := (if has_text (query r) then query r else None),
     query_result := map_option (\<lambda>qr. empty_result\<lparr>columns := columns qr,
       rows := take max_sample_rows (rows qr), row_count := row_count qr,
       truncated := int (length (take max_sample_rows (rows qr))) < row_count qr\<rparr>) (query_result r),
     error_category := ''transient'', degraded_reason := None\<rparr>"

lemma map_ok_as_list: "map_ok (as_list k) (map PList xs) = Inr xs"
  by (induction xs) simp_all

lemma summary_round_trip: "from_summary_dict (to_summary_dict r) = Inr (restored r)"
  by (cases r; cases "query_result r"; cases "query r"; cases "res_error r")
    (simp_all add: from_summary_dict_def to_summary_dict_def restored_result_def restored_def dict_get_def
      required_def opt_value_def as_opt_def strs_value_def map_ok_as_str map_ok_as_list has_text_def
      new_result_def)

section \<open>The context of a running pipeline\<close>

record feedback =
  fb_stage :: "string option"
  fb_text :: string

record stage_context =
  plan :: execution_plan
  results :: "(string, stage_result) odict"
  user_feedback :: "feedback list"
  current_stage_idx :: nat
  pipeline_run_id :: string

definition new_context :: "execution_plan \<Rightarrow> string \<Rightarrow> stage_context" where
  "new_context p run_id = \<lparr>plan = p, results = [], user_feedback = [], current_stage_idx = 0,
     pipeline_run_id = run_id\<rparr>"

definition get_result :: "stage_context \<Rightarrow> string \<Rightarrow> stage_result option" where
  "get_result c sid = map_of (results c) sid"

definition set_result :: "string \<Rightarrow> stage_result \<Rightarrow> stage_context \<Rightarrow> stage_context" where
  "set_result sid r c = c\<lparr>results := od_set sid r (results c)\<rparr>"

text \<open>
  The text handed to the model, line by line (the rendering of a line is not modelled): a
  stage's lines, or a piece of user feedback.
\<close>

datatype context_line =
    StageLine bool string string
  | StatusLine string
  | SqlLine string
  | ColumnsLine "string list"
  | PartialRowsLine nat int
  | RowsLine int
  | SampleLine bool nat "pyval list list"
  | SummaryLine string
  | ErrorLine string

datatype context_part = StagePart "context_line list" | FeedbackPart "string option" string

definition result_lines :: "pyval query_result \<Rightarrow> context_line list" where
  "result_lines qr =
     (let held = length (rows qr); sample = take 5 (rows qr) in
      [ColumnsLine (columns qr)]
      @ [if truncated qr \<and> int held < row_count qr then PartialRowsLine held (row_count qr)
         else RowsLine (row_count qr)]
      @ (if rows qr \<noteq> [] then [SampleLine (held > length sample) held sample] else []))"

definition stage_lines :: "string list \<Rightarrow> plan_stage \<Rightarrow> stage_result \<Rightarrow> context_line list" where
  "stage_lines deps prev r =
     [StageLine (stage_id prev \<in> set deps) (stage_id prev) (description prev), StatusLine (status r)]
     @ (if has_text (query r) then [SqlLine (take context_field_cap (the (query r)))] else [])
     @ (case query_result r of None \<Rightarrow> [] | Some qr \<Rightarrow> result_lines qr)
     @ (if summary r \<noteq> [] then [SummaryLine (take context_field_cap (summary r))] else [])
     @ (if has_text (res_error r) then [ErrorLine (take context_field_cap (the (res_error r)))] else [])"

definition build_context_for_stage :: "stage_context \<Rightarrow> string \<Rightarrow> context_part list" where
  "build_context_for_stage c sid =
     (let deps = (case find_stage (stages (plan c)) sid of None \<Rightarrow> [] | Some s \<Rightarrow> depends_on s);
          earlier = takeWhile (\<lambda>s. stage_id s \<noteq> sid) (stages (plan c))
      in concat (map (\<lambda>prev. case get_result c (stage_id prev) of
                    None \<Rightarrow> [] | Some r \<Rightarrow> [StagePart (stage_lines deps prev r)]) earlier)
         @ map (\<lambda>fb. FeedbackPart (fb_stage fb) (fb_text fb))
             (filter (\<lambda>fb. fb_stage fb = Some sid \<or> deps = [] \<or> (\<exists>d \<in> set deps. fb_stage fb = Some d))
               (user_feedback c)))"

definition to_persistence_dict :: "stage_context \<Rightarrow> (string \<times> dict) list" where
  "to_persistence_dict c = map (\<lambda>(sid, r). (sid, to_summary_dict r)) (results c)"

definition from_persistence ::
  "execution_plan \<Rightarrow> (string \<times> dict) list \<Rightarrow> feedback list \<Rightarrow> nat \<Rightarrow> string \<Rightarrow> load_error + stage_context" where
  "from_persistence p raw fbs idx run_id =
     bind_ok (map_ok (\<lambda>(sid, d). bind_ok (from_summary_dict d) (\<lambda>r. Inr (sid, r))) raw) (\<lambda>rs.
     Inr \<lparr>plan = p, results = rs, user_feedback = fbs, current_stage_idx = idx, pipeline_run_id = run_id\<rparr>)"

lemma persistence_round_trip:
  "from_persistence p (to_persistence_dict c) fbs idx run_id =
     Inr \<lparr>plan = p, results = map (\<lambda>(sid, r). (sid, restored r)) (results c), user_feedback = fbs,
       current_stage_idx = idx, pipeline_run_id = run_id\<rparr>"
proof -
  have "map_ok (\<lambda>(sid, d). bind_ok (from_summary_dict d) (\<lambda>r. Inr (sid, r)))
      (map (\<lambda>(sid, r). (sid, to_summary_dict r)) rs) = Inr (map (\<lambda>(sid, r). (sid, restored r)) rs)"
    for rs :: "(string \<times> stage_result) list"
    by (induction rs) (auto simp: summary_round_trip)
  then show ?thesis unfolding from_persistence_def to_persistence_dict_def by (simp only: bind_ok_simps)
qed

section \<open>The structural check of a plan\<close>

definition valid_tools :: "string list" where
  "valid_tools = [''query_database'', ''query_analytics_source'', ''search_codebase'', ''analyze_results'',
     ''process_data'', ''synthesize'', ''query_mcp_source'', ''analyze_git'']"

definition data_retrieval_tools :: "string list" where
  "data_retrieval_tools = [''query_database'', ''query_analytics_source'', ''search_codebase'',
     ''query_mcp_source'', ''analyze_git'']"

datatype plan_error =
    NoStages
  | DuplicateId string
  | MissingId
  | MissingDescription pyval
  | InvalidTool pyval pyval
  | UnknownDependency pyval pyval
  | NoRetrieval
  | Circular

definition hash_key :: "pyval \<Rightarrow> py_error + pyval" where
  "hash_key v = (if hashable v then Inr (canon v) else Inl TypeError)"

fun is_text :: "pyval \<Rightarrow> bool" where
  "is_text (PStr s) = (py_strip s \<noteq> [])"
| "is_text _ = False"

fun duplicate_errors :: "string list \<Rightarrow> dict list \<Rightarrow> plan_error list" where
  "duplicate_errors seen [] = []"
| "duplicate_errors seen (s # ss) =
     (case dict_get s ''stage_id'' PNone of
        PStr sid \<Rightarrow>
          (if py_strip sid = [] then duplicate_errors seen ss
           else (if sid \<in> set seen then [DuplicateId sid] else []) @ duplicate_errors (sid # seen) ss)
      | _ \<Rightarrow> duplicate_errors seen ss)"

definition stage_deps :: "dict \<Rightarrow> py_error + pyval list" where
  "stage_deps s = py_iter (dict_get s ''depends_on'' (PList []))"

definition stage_errors :: "pyval list \<Rightarrow> string list \<Rightarrow> dict \<Rightarrow> py_error + plan_error list" where
  "stage_errors ids external s =
     (let sid = dict_get s ''stage_id'' (PStr ''<missing>'');
          tool_value = dict_get s ''tool'' (PStr [])
      in bind_ok (hash_key tool_value) (\<lambda>tk.
         bind_ok (stage_deps s) (\<lambda>deps.
         bind_ok (map_ok hash_key deps) (\<lambda>keys.
         Inr ((if is_text (dict_get s ''stage_id'' PNone) then [] else [MissingId])
           @ (if is_text (dict_get s ''description'' PNone) then [] else [MissingDescription sid])
           @ (if tk \<in> set (map PStr valid_tools) then [] else [InvalidTool sid tool_value])
           @ map (UnknownDependency sid) (map fst (filter (\<lambda>(dep, k). k \<notin> set ids \<and> k \<notin> set (map PStr external))
               (zip deps keys))))))))"

text \<open>The graph: a node per \<^verbatim>\<open>stage_id\<close> and an edge from each known dependency.\<close>

definition node_of :: "dict \<Rightarrow> pyval" where
  "node_of s = canon (dict_get s ''stage_id'' (PStr []))"

fun add_edges :: "pyval \<Rightarrow> pyval list \<Rightarrow> (pyval, pyval list) odict \<times> (pyval, int) odict \<Rightarrow>
    (pyval, pyval list) odict \<times> (pyval, int) odict" where
  "add_edges n [] g = g"
| "add_edges n (dep # deps) (adj, deg) =
     (case map_of adj dep of
        None \<Rightarrow> add_edges n deps (adj, deg)
      | Some succs \<Rightarrow> add_edges n deps
          (od_set dep (succs @ [n]) adj,
           od_set n ((case map_of deg n of None \<Rightarrow> 0 | Some d \<Rightarrow> d) + 1) deg))"

fun build_graph :: "(pyval \<times> pyval list) list \<Rightarrow> (pyval, pyval list) odict \<times> (pyval, int) odict \<Rightarrow>
    (pyval, pyval list) odict \<times> (pyval, int) odict" where
  "build_graph [] g = g"
| "build_graph ((n, deps) # es) g = build_graph es (add_edges n deps g)"

definition empty_graph :: "pyval list \<Rightarrow> (pyval, pyval list) odict \<times> (pyval, int) odict" where
  "empty_graph ns = (fold (\<lambda>n. od_set n []) ns [], fold (\<lambda>n. od_set n 0) ns [])"

definition count_visited :: "(pyval, pyval list) odict \<times> (pyval, int) odict \<Rightarrow> nat" where
  "count_visited g = (case g of (adj, deg) \<Rightarrow>
     visit_loop (\<lambda>n. case map_of adj n of None \<Rightarrow> [] | Some succs \<Rightarrow> succs) deg
       (map fst (filter (\<lambda>(n, d). d = 0) deg)) 0)"

definition validate_plan_structure :: "dict list \<Rightarrow> string list \<Rightarrow> py_error + plan_error list" where
  "validate_plan_structure ss external =
     (if ss = [] then Inr [NoStages]
      else
        bind_ok (map_ok (\<lambda>s. hash_key (dict_get s ''stage_id'' PNone)) ss) (\<lambda>ids.
        bind_ok (map_ok (stage_errors ids external) ss) (\<lambda>errs.
        bind_ok (map_ok (\<lambda>s. bind_ok (stage_deps s) (map_ok hash_key)) ss) (\<lambda>deps.
          let graph = build_graph (zip (map node_of ss) deps) (empty_graph (map node_of ss));
              retrieval = list_ex (\<lambda>s. canon (dict_get s ''tool'' PNone) \<in> set (map PStr data_retrieval_tools)) ss
          in Inr (duplicate_errors [] ss @ concat errs
               @ (if retrieval then [] else [NoRetrieval])
               @ (if count_visited graph \<noteq> length ss then [Circular] else []))))))"

subsection \<open>The graph that is built\<close>

definition succs_of :: "(pyval, pyval list) odict \<Rightarrow> pyval \<Rightarrow> pyval list" where
  "succs_of adj n = (case map_of adj n of None \<Rightarrow> [] | Some succs \<Rightarrow> succs)"

definition graph_ok :: "pyval set \<Rightarrow> (pyval, pyval list) odict \<times> (pyval, int) odict \<Rightarrow> bool" where
  "graph_ok N g \<longleftrightarrow> (case g of (adj, deg) \<Rightarrow>
     (\<forall>d. map_of adj d \<noteq> None \<longleftrightarrow> d \<in> N) \<and> (\<forall>d \<in> N. set (succs_of adj d) \<subseteq> N) \<and>
     od_ok deg \<and> set (od_keys deg) = N \<and>
     (\<forall>n \<in> N. map_of deg n = Some (int (indegree (succs_of adj) N n))))"

lemma indegree_add:
  assumes "finite N" and "d \<in> N" and "map_of adj d = Some succs"
  shows "indegree (succs_of (od_set d (succs @ [n]) adj)) N m = indegree (succs_of adj) N m + (if m = n then 1 else 0)"
proof -
  have eq: "indegree f N m = count_list (f d) m + indegree f (N - {d}) m" for f
    using assms(1,2) by (rule indegree_remove)
  have "indegree (succs_of (od_set d (succs @ [n]) adj)) (N - {d}) m = indegree (succs_of adj) (N - {d}) m"
    by (auto simp: indegree_def succs_of_def map_of_od_set intro!: sum.cong)
  then show ?thesis using assms(3) eq by (simp add: succs_of_def map_of_od_set)
qed

lemma add_edges_ok:
  "finite N \<Longrightarrow> n \<in> N \<Longrightarrow> graph_ok N g \<Longrightarrow> graph_ok N (add_edges n deps g) \<and>
    (\<forall>d m. m \<in> set (succs_of (fst (add_edges n deps g)) d) \<longleftrightarrow>
      m \<in> set (succs_of (fst g) d) \<or> m = n \<and> d \<in> N \<and> d \<in> set deps)"
proof (induction n deps g rule: add_edges.induct)
  case (2 n dep deps adj deg)
  show ?case
  proof (cases "map_of adj dep")
    case None
    from "2.prems"(3) have "map_of adj dep \<noteq> None \<longleftrightarrow> dep \<in> N" by (simp only: graph_ok_def prod.case)
    with None have "dep \<notin> N" by simp
    with 2 None show ?thesis by auto
  next
    case (Some succs)
    let ?adj = "od_set dep (succs @ [n]) adj"
    let ?deg = "od_set n ((case map_of deg n of None \<Rightarrow> 0 | Some d \<Rightarrow> d) + 1) deg"
    have dep: "dep \<in> N" using "2.prems"(3) Some by (auto simp: graph_ok_def)
    have "succs_of adj dep = succs" using Some by (simp add: succs_of_def)
    then have "set succs \<subseteq> N" using "2.prems"(3) dep by (auto simp: graph_ok_def)
    then have "graph_ok N (?adj, ?deg)"
      using "2.prems" Some indegree_add [OF "2.prems"(1) dep Some, of n] dep
      by (auto simp: graph_ok_def map_of_od_set od_ok_set od_keys_set succs_of_def split: if_splits)
    moreover have "m \<in> set (succs_of ?adj d) \<longleftrightarrow> m \<in> set (succs_of adj d) \<or> m = n \<and> d = dep" for d m
      using Some by (auto simp: succs_of_def map_of_od_set)
    ultimately show ?thesis using "2.IH"(2) [OF Some] "2.prems"(1,2) Some dep by auto
  qed
qed auto

lemma build_graph_ok:
  "finite N \<Longrightarrow> fst ` set es \<subseteq> N \<Longrightarrow> graph_ok N g \<Longrightarrow> graph_ok N (build_graph es g) \<and>
    (\<forall>d m. m \<in> set (succs_of (fst (build_graph es g)) d) \<longleftrightarrow>
      m \<in> set (succs_of (fst g) d) \<or> d \<in> N \<and> (\<exists>deps. (m, deps) \<in> set es \<and> d \<in> set deps))"
proof (induction es g rule: build_graph.induct)
  case (2 n deps es g)
  then have "n \<in> N" by simp
  from add_edges_ok [OF 2(2) this 2(4), of deps] 2 show ?case by auto
qed simp

lemma fold_od_set:
  "od_ok d \<Longrightarrow> od_ok (fold (\<lambda>n. od_set n v) ns d) \<and>
    map_of (fold (\<lambda>n. od_set n v) ns d) k = (if k \<in> set ns then Some v else map_of d k)"
  by (induction ns arbitrary: d) (auto simp: od_ok_set map_of_od_set)

lemma empty_graph_ok:
  "graph_ok (set ns) (empty_graph ns) \<and> succs_of (fst (empty_graph ns)) d = []"
proof -
  have "set (od_keys (fold (\<lambda>n. od_set n (0 :: int)) ns [])) = set ns"
  proof (intro set_eqI)
    fix k
    have "map_of (fold (\<lambda>n. od_set n (0 :: int)) ns []) k = (if k \<in> set ns then Some 0 else None)"
      using fold_od_set [of "[]" "0 :: int" ns k] by simp
    then show "k \<in> set (od_keys (fold (\<lambda>n. od_set n (0 :: int)) ns [])) \<longleftrightarrow> k \<in> set ns"
      using map_of_keys [of "fold (\<lambda>n. od_set n (0 :: int)) ns []" k] by (auto split: if_splits)
  qed
  then show ?thesis
    using fold_od_set [of "[] :: (pyval, pyval list) odict" "[]" ns] fold_od_set [of "[] :: (pyval, int) odict" "0" ns]
    by (auto simp: graph_ok_def empty_graph_def succs_of_def indegree_def split: if_splits)
qed

lemma count_visited_iff:
  assumes fin: "finite N" and g: "graph_ok N g"
  shows "count_visited g = card N \<longleftrightarrow> (\<exists>rank. ranked (succs_of (fst g)) N rank)"
    and "count_visited g \<le> card N"
proof -
  obtain adj deg where ad: "g = (adj, deg)" by fastforce
  let ?q = "map fst (filter (\<lambda>(n, d). d = 0) deg)"
  have ok: "od_ok deg" and keys: "set (od_keys deg) = N"
    and deg: "\<And>n. n \<in> N \<Longrightarrow> map_of deg n = Some (int (indegree (succs_of adj) N n))"
    and edges: "\<And>d. d \<in> N \<Longrightarrow> set (succs_of adj d) \<subseteq> N"
    using g by (auto simp: graph_ok_def ad)
  have q: "n \<in> set ?q \<longleftrightarrow> map_of deg n = Some 0" for n
    using od_ok_map_of [OF ok, of n 0] by force
  have "distinct ?q" using ok by (simp add: od_ok_def od_keys_def distinct_map_filter)
  moreover have "set ?q \<subseteq> N" using q keys map_of_keys [of deg] by force
  moreover have "\<forall>n \<in> N. n \<in> set ?q \<longleftrightarrow> indegree (succs_of adj) N n = 0" using q deg by simp
  moreover have "\<forall>i < length ?q. \<forall>s \<in> N. ?q ! i \<notin> set (succs_of adj s)"
  proof (intro allI impI ballI)
    fix i s assume i: "i < length ?q" and s: "s \<in> N"
    then have n: "?q ! i \<in> set ?q" by (intro nth_mem)
    then have "?q ! i \<in> N" using \<open>set ?q \<subseteq> N\<close> by blast
    then have "indegree (succs_of adj) N (?q ! i) = 0" using deg q n by force
    then show "?q ! i \<notin> set (succs_of adj s)" using s fin by (simp add: indegree_zero)
  qed
  ultimately have inv: "kahn_inv (succs_of adj) N deg ?q []"
    using deg by (simp add: kahn_inv_def)
  have "count_visited g = visit_loop (succs_of adj) deg ?q 0"
    by (simp add: count_visited_def ad succs_of_def [abs_def])
  then show "count_visited g = card N \<longleftrightarrow> (\<exists>rank. ranked (succs_of (fst g)) N rank)"
    and "count_visited g \<le> card N"
    using kahn_complete [OF fin edges inv] ad by simp_all
qed

subsection \<open>What an accepted plan is\<close>

definition stage_ids :: "plan_stage list \<Rightarrow> string list" where
  "stage_ids ss = map stage_id ss"

definition stage_ok :: "string list \<Rightarrow> plan_stage list \<Rightarrow> plan_stage \<Rightarrow> bool" where
  "stage_ok external ss s \<longleftrightarrow> py_strip (stage_id s) \<noteq> [] \<and> py_strip (description s) \<noteq> [] \<and>
     tool s \<in> set valid_tools \<and> set (depends_on s) \<subseteq> set (stage_ids ss) \<union> set external"

text \<open>Every stage comes after the stages of the plan that it depends on.\<close>

definition rank_ok :: "plan_stage list \<Rightarrow> (string \<Rightarrow> nat) \<Rightarrow> bool" where
  "rank_ok ss rank \<longleftrightarrow>
     (\<forall>s \<in> set ss. \<forall>d \<in> set (depends_on s). d \<in> set (stage_ids ss) \<longrightarrow> rank d < rank (stage_id s))"

definition plan_ok :: "string list \<Rightarrow> plan_stage list \<Rightarrow> bool" where
  "plan_ok external ss \<longleftrightarrow> ss \<noteq> [] \<and> distinct (stage_ids ss) \<and> (\<forall>s \<in> set ss. stage_ok external ss s) \<and>
     (\<exists>s \<in> set ss. tool s \<in> set data_retrieval_tools) \<and> (\<exists>rank. rank_ok ss rank)"

text \<open>A dictionary as the check reads it.\<close>

definition reads :: "dict \<Rightarrow> plan_stage \<Rightarrow> bool" where
  "reads d s \<longleftrightarrow> (\<forall>dflt. dict_get d ''stage_id'' dflt = PStr (stage_id s)) \<and>
     (\<forall>dflt. dict_get d ''description'' dflt = PStr (description s)) \<and>
     (\<forall>dflt. dict_get d ''tool'' dflt = PStr (tool s)) \<and>
     dict_get d ''depends_on'' (PList []) = strs_value (depends_on s)"

lemma as_str_Inr: "as_str k v = Inr x \<longleftrightarrow> v = PStr x"
  by (cases v) auto

lemma map_ok_as_str_Inr: "map_ok (as_str k) vs = Inr xs \<Longrightarrow> vs = map PStr xs"
  by (induction vs arbitrary: xs) (auto simp: bind_ok_Inr as_str_Inr)

lemma as_strs_Inr: "as_strs k v = Inr xs \<Longrightarrow> v = strs_value xs"
  by (cases v) (auto simp: strs_value_def dest: map_ok_as_str_Inr)

lemma required_str: "required d k = Inr v \<Longrightarrow> as_str k v = Inr x \<Longrightarrow> dict_get d k dflt = PStr x"
  by (auto simp: required_def dict_get_def as_str_Inr split: option.splits)

lemma from_dict_reads: "stage_from_dict d = Inr s \<Longrightarrow> reads d s"
  unfolding stage_from_dict_def reads_def
  by (elim bind_okE) (auto simp: required_str dest!: as_strs_Inr)

lemma map_ok_all2: "map_ok f xs = Inr ys \<Longrightarrow> list_all2 (\<lambda>x y. f x = Inr y) xs ys"
  by (induction xs arbitrary: ys) (auto simp: bind_ok_Inr)


lemma canon_PStr [simp]: "map_ok hash_key (map PStr xs) = Inr (map PStr xs)"
  by (induction xs) (auto simp: hash_key_def)

lemma reads_ids: "list_all2 reads ds ss \<Longrightarrow> map_ok (\<lambda>s. hash_key (dict_get s ''stage_id'' PNone)) ds = Inr (map PStr (stage_ids ss))"
  by (induction rule: list_all2_induct) (auto simp: hash_key_def reads_def stage_ids_def)

lemma reads_deps: "reads d s \<Longrightarrow> stage_deps d = Inr (map PStr (depends_on s))"
  by (simp add: stage_deps_def reads_def strs_value_def)

lemma reads_all_deps:
  "list_all2 reads ds ss \<Longrightarrow> map_ok (\<lambda>s. bind_ok (stage_deps s) (map_ok hash_key)) ds = Inr (map (\<lambda>s. map PStr (depends_on s)) ss)"
  by (induction rule: list_all2_induct) (auto simp: reads_deps)

lemma reads_nodes: "list_all2 reads ds ss \<Longrightarrow> map node_of ds = map PStr (stage_ids ss)"
  by (induction rule: list_all2_induct) (auto simp: node_of_def reads_def stage_ids_def)

lemma reads_retrieval:
  "list_all2 reads ds ss \<Longrightarrow>
    list_ex (\<lambda>s. canon (dict_get s ''tool'' PNone) \<in> set (map PStr data_retrieval_tools)) ds \<longleftrightarrow>
    (\<exists>s \<in> set ss. tool s \<in> set data_retrieval_tools)"
  by (induction rule: list_all2_induct) (auto simp: reads_def)

lemma reads_errors:
  assumes "reads d s"
  shows "\<exists>e. stage_errors (map PStr (stage_ids all)) external d = Inr e \<and> (e = [] \<longleftrightarrow> stage_ok external all s)"
proof -
  have "zip xs xs = map (\<lambda>x. (x, x)) xs" for xs :: "pyval list" by (induction xs) auto
  then have unknown: "map fst (filter (\<lambda>(dep, k). k \<notin> set (map PStr ids) \<and> k \<notin> set (map PStr ext))
      (zip (map PStr deps) (map PStr deps))) = [] \<longleftrightarrow> set deps \<subseteq> set ids \<union> set ext"
    for deps ids ext :: "string list" by (auto simp: filter_empty_conv)
  have "hash_key (PStr (tool s)) = Inr (PStr (tool s))" by (simp add: hash_key_def)
  with assms unknown show ?thesis
    unfolding stage_errors_def Let_def reads_deps [OF assms]
    by (auto simp: reads_def stage_ok_def)
qed

lemma reads_all_errors:
  "list_all2 reads ds ss \<Longrightarrow>
    \<exists>es. map_ok (stage_errors (map PStr (stage_ids all)) external) ds = Inr es \<and>
      (concat es = [] \<longleftrightarrow> (\<forall>s \<in> set ss. stage_ok external all s))"
proof (induction rule: list_all2_induct)
  case (Cons d ds s ss)
  then show ?case using reads_errors [OF Cons(1), of all external] by auto
qed simp

lemma reads_duplicates:
  "list_all2 reads ds ss \<Longrightarrow> (\<forall>s \<in> set ss. py_strip (stage_id s) \<noteq> []) \<Longrightarrow>
    duplicate_errors seen ds = [] \<longleftrightarrow> distinct (stage_ids ss) \<and> set (stage_ids ss) \<inter> set seen = {}"
proof (induction arbitrary: seen rule: list_all2_induct)
  case (Cons d ds s ss)
  then have "dict_get d ''stage_id'' PNone = PStr (stage_id s)" by (simp add: reads_def)
  with Cons show ?case by (auto simp: stage_ids_def)
qed (simp add: stage_ids_def)

lemma rank_graph:
  assumes es: "es = zip (map PStr (stage_ids ss)) (map (\<lambda>s. map PStr (depends_on s)) ss)"
    and N: "N = set (map PStr (stage_ids ss))"
    and edges: "\<And>d m. m \<in> set (succs d) \<longleftrightarrow> d \<in> N \<and> (\<exists>deps. (m, deps) \<in> set es \<and> d \<in> set deps)"
  shows "(\<exists>rank. ranked succs N rank) \<longleftrightarrow> (\<exists>rank. rank_ok ss rank)"
proof -
  have es': "es = map (\<lambda>s. (PStr (stage_id s), map PStr (depends_on s))) ss"
    unfolding es stage_ids_def by (induction ss) auto
  then have edge: "m \<in> set (succs d) \<longleftrightarrow>
      d \<in> N \<and> (\<exists>s \<in> set ss. m = PStr (stage_id s) \<and> (\<exists>x \<in> set (depends_on s). d = PStr x))" for d m
  proof -
    have "(\<exists>deps. (m, deps) \<in> set es \<and> d \<in> set deps) \<longleftrightarrow>
        (\<exists>s \<in> set ss. m = PStr (stage_id s) \<and> (\<exists>x \<in> set (depends_on s). d = PStr x))"
    proof
      assume "\<exists>deps. (m, deps) \<in> set es \<and> d \<in> set deps"
      then obtain deps s where "s \<in> set ss" "(m, deps) = (PStr (stage_id s), map PStr (depends_on s))" "d \<in> set deps"
        unfolding es' set_map image_iff by blast
      then show "\<exists>s \<in> set ss. m = PStr (stage_id s) \<and> (\<exists>x \<in> set (depends_on s). d = PStr x)"
        by (intro bexI [of _ s]) auto
    next
      assume "\<exists>s \<in> set ss. m = PStr (stage_id s) \<and> (\<exists>x \<in> set (depends_on s). d = PStr x)"
      then obtain s where "s \<in> set ss" "m = PStr (stage_id s)" "d \<in> set (map PStr (depends_on s))" by auto
      then show "\<exists>deps. (m, deps) \<in> set es \<and> d \<in> set deps"
        unfolding es' set_map by (intro exI [of _ "map PStr (depends_on s)"]) simp
    qed
    then show ?thesis unfolding edges by (simp only:)
  qed
  have "\<exists>rank. rank_ok ss rank" if "ranked succs N rank" for rank
  proof (intro exI [of _ "\<lambda>x. rank (PStr x)"])
    show "rank_ok ss (\<lambda>x. rank (PStr x))"
      unfolding rank_ok_def
    proof (intro ballI impI)
      fix s d assume "s \<in> set ss" "d \<in> set (depends_on s)" "d \<in> set (stage_ids ss)"
      then have "PStr (stage_id s) \<in> set (succs (PStr d))" "PStr d \<in> N" unfolding edge N by auto
      with that show "rank (PStr d) < rank (PStr (stage_id s))" unfolding ranked_def by blast
    qed
  qed
  moreover have "\<exists>rank. ranked succs N rank" if r: "rank_ok ss rank" for rank
  proof (intro exI [of _ "\<lambda>v. case v of PStr x \<Rightarrow> rank x | _ \<Rightarrow> 0"])
    show "ranked succs N (\<lambda>v. case v of PStr x \<Rightarrow> rank x | _ \<Rightarrow> 0)"
      unfolding ranked_def
    proof (intro ballI)
      fix d m assume "d \<in> N" "m \<in> set (succs d)"
      then obtain s x where s: "s \<in> set ss" "m = PStr (stage_id s)" "x \<in> set (depends_on s)" "d = PStr x"
        unfolding edge by blast
      have "x \<in> set (stage_ids ss)" using \<open>d \<in> N\<close> s(4) N by auto
      then have "rank x < rank (stage_id s)" using r s unfolding rank_ok_def by blast
      with s show "(case d of PStr x \<Rightarrow> rank x | _ \<Rightarrow> 0) < (case m of PStr x \<Rightarrow> rank x | _ \<Rightarrow> 0)" by simp
    qed
  qed
  ultimately show ?thesis by blast
qed

lemma reads_cycle:
  assumes "distinct (stage_ids ss)"
  shows "count_visited (build_graph (zip (map PStr (stage_ids ss)) (map (\<lambda>s. map PStr (depends_on s)) ss))
      (empty_graph (map PStr (stage_ids ss)))) = length ss \<longleftrightarrow> (\<exists>rank. rank_ok ss rank)"
proof -
  let ?N = "set (map PStr (stage_ids ss))"
  let ?es = "zip (map PStr (stage_ids ss)) (map (\<lambda>s. map PStr (depends_on s)) ss)"
  let ?g = "build_graph ?es (empty_graph (map PStr (stage_ids ss)))"
  have fin: "finite ?N" by simp
  have "fst ` set ?es \<subseteq> ?N" by (auto dest: set_zip_leftD)
  note built = build_graph_ok [OF fin this conjunct1 [OF empty_graph_ok]]
  have g: "graph_ok ?N ?g" using built by (rule conjunct1)
  have edges: "m \<in> set (succs_of (fst ?g) d) \<longleftrightarrow> d \<in> ?N \<and> (\<exists>deps. (m, deps) \<in> set ?es \<and> d \<in> set deps)" for d m
    using conjunct2 [OF built, rule_format, of m d] conjunct2 [OF empty_graph_ok, of "map PStr (stage_ids ss)" d]
    by (simp only: list.set empty_iff simp_thms)
  have "card ?N = length ss"
  proof -
    have "distinct (map PStr (stage_ids ss))" using assms by (simp add: distinct_map inj_on_def)
    then have "card ?N = length (map PStr (stage_ids ss))" by (rule distinct_card)
    then show ?thesis by (simp add: stage_ids_def)
  qed
  with count_visited_iff(1) [OF fin g] rank_graph [OF refl refl edges] show ?thesis by simp
qed

lemma validate_iff:
  assumes r: "list_all2 reads ds ss"
  shows "validate_plan_structure ds external = Inr [] \<longleftrightarrow> plan_ok external ss"
proof (cases "ds = []")
  case True
  with r show ?thesis by (simp add: validate_plan_structure_def plan_ok_def)
next
  case False
  from reads_all_errors [OF r, of ss external] obtain es
    where es: "map_ok (stage_errors (map PStr (stage_ids ss)) external) ds = Inr es"
      "concat es = [] \<longleftrightarrow> (\<forall>s \<in> set ss. stage_ok external ss s)" by blast
  have len: "length ds = length ss" using r by (rule list_all2_lengthD)
  let ?g = "build_graph (zip (map PStr (stage_ids ss)) (map (\<lambda>s. map PStr (depends_on s)) ss))
      (empty_graph (map PStr (stage_ids ss)))"
  have "validate_plan_structure ds external = Inr [] \<longleftrightarrow>
      duplicate_errors [] ds = [] \<and> concat es = [] \<and> (\<exists>s \<in> set ss. tool s \<in> set data_retrieval_tools) \<and>
      count_visited ?g = length ss"
    using False reads_ids [OF r] es(1) reads_all_deps [OF r] reads_nodes [OF r] reads_retrieval [OF r] len
    by (simp add: validate_plan_structure_def Let_def)
  also have "\<dots> \<longleftrightarrow> plan_ok external ss"
  proof (cases "concat es = []")
    case ok: True
    then have "\<forall>s \<in> set ss. py_strip (stage_id s) \<noteq> []" using es(2) by (simp add: stage_ok_def)
    from reads_duplicates [OF r this, of "[]"]
    have d: "duplicate_errors [] ds = [] \<longleftrightarrow> distinct (stage_ids ss)" by simp
    show ?thesis using ok es(2) d reads_cycle [of ss] False len unfolding plan_ok_def by auto
  next
    case False
    with es(2) show ?thesis by (simp only: plan_ok_def) blast
  qed
  finally show ?thesis .
qed

section \<open>Properties\<close>

lemma distinct_mid: "distinct (xs @ y # ys) \<Longrightarrow> y \<notin> set xs"
  by auto

text \<open>
  C22. The structural check of a plan is exact: for the dictionaries of a plan's stages it
  reports no error precisely when the plan has a stage, its ids are distinct and not blank,
  every description is not blank and every tool known, every dependency is a stage of the plan
  or one of the given outside ids, some stage retrieves data, and the stages can be ranked so
  that each one comes after those it depends on (there is no cycle).
\<close>

theorem plan_check_exact:
  assumes "map_ok stage_from_dict ds = Inr ss"
  shows "validate_plan_structure ds external = Inr [] \<longleftrightarrow> plan_ok external ss"
proof (rule validate_iff)
  show "list_all2 reads ds ss" using map_ok_all2 [OF assms] by (rule list_all2_mono) (rule from_dict_reads)
qed

definition sample_stage :: "string \<Rightarrow> string list \<Rightarrow> plan_stage" where
  "sample_stage sid deps = \<lparr>stage_id = sid, description = ''d'', tool = ''query_database'', depends_on = deps,
     input_context = [], validation = no_validation, checkpoint = False, max_retries = 2,
     replan_on_failure = True\<rparr>"

theorem plan_check_exact_witness:
  "validate_plan_structure (map stage_to_dict [sample_stage ''a'' [''b''], sample_stage ''b'' [''a'']]) [] \<noteq> Inr [] \<and>
   \<not> plan_ok [] [sample_stage ''a'' [''b''], sample_stage ''b'' [''a'']]"
proof -
  let ?ss = "[sample_stage ''a'' [''b''], sample_stage ''b'' [''a'']]"
  have "\<not> rank_ok ?ss rank" for rank by (auto simp: rank_ok_def stage_ids_def sample_stage_def)
  then have bad: "\<not> plan_ok [] ?ss" by (simp add: plan_ok_def)
  have "map_ok stage_from_dict (map stage_to_dict ?ss) = Inr ?ss" by (simp add: stage_round_trip)
  from plan_check_exact [OF this, of "[]"] bad show ?thesis by simp
qed


text \<open>
  A sample is not shown as the whole: when a stage whose query returned more rows than are
  persisted is restored, the context built for a later stage carries the line that says how
  many of the rows are held, and never the line that gives the row count alone.
\<close>

theorem resumed_sample_is_marked:
  assumes "stages (plan c) = pre @ prev # mid @ s # post" and "distinct (stage_ids (stages (plan c)))"
    and "get_result c (stage_id prev) = Some (restored r)"
    and "query_result r = Some qr" and "row_count qr = int (length (rows qr))"
    and "length (rows qr) > max_sample_rows"
  shows "\<exists>lines. StagePart lines \<in> set (build_context_for_stage c (stage_id s)) \<and>
    PartialRowsLine max_sample_rows (row_count qr) \<in> set lines \<and> (\<forall>n. RowsLine n \<notin> set lines)"
proof -
  let ?deps = "case find_stage (stages (plan c)) (stage_id s) of None \<Rightarrow> [] | Some s \<Rightarrow> depends_on s"
  let ?lines = "stage_lines ?deps prev (restored r)"
  have "prev \<in> set (takeWhile (\<lambda>x. stage_id x \<noteq> stage_id s) (stages (plan c)))"
  proof -
    have "\<forall>x \<in> set (pre @ prev # mid). stage_id x \<noteq> stage_id s"
    proof -
      have "stage_id s \<notin> set (map stage_id (pre @ prev # mid))"
        using assms(2) unfolding assms(1) stage_ids_def
        by (intro distinct_mid [where ys = "map stage_id post"]) (simp only: map_append list.map append_assoc append_Cons)
      then show ?thesis by (metis image_eqI set_map)
    qed
    then have "takeWhile (\<lambda>x. stage_id x \<noteq> stage_id s) ((pre @ prev # mid) @ s # post) = pre @ prev # mid"
      by (subst takeWhile_append2) auto
    then show ?thesis unfolding assms(1) by simp
  qed
  then have "StagePart ?lines \<in> set (build_context_for_stage c (stage_id s))"
    using assms(3) by (force simp: build_context_for_stage_def Let_def)
  moreover have "PartialRowsLine max_sample_rows (row_count qr) \<in> set ?lines \<and> (\<forall>n. RowsLine n \<notin> set ?lines)"
    using assms(4-6) by (auto simp: stage_lines_def result_lines_def restored_def Let_def max_sample_rows_def empty_result_def)
  ultimately show ?thesis by blast
qed


definition sample_plan :: execution_plan where
  "sample_plan = \<lparr>plan_id = ''p'', question = ''q'', stages = [sample_stage ''a'' [], sample_stage ''b'' [''a'']],
     complexity_reason = [], plan_type = ''full''\<rparr>"

definition long_result :: stage_result where
  "long_result = (new_result ''a'' ''success'')\<lparr>query_result :=
     Some (empty_result\<lparr>columns := [''n''], rows := replicate 11 [PInt 1], row_count := 11\<rparr>)\<rparr>"

theorem resumed_sample_is_marked_witness:
  "\<exists>lines. StagePart lines \<in> set (build_context_for_stage
      ((new_context sample_plan [])\<lparr>results := [(''a'', restored long_result)]\<rparr>) ''b'') \<and>
    PartialRowsLine max_sample_rows 11 \<in> set lines"
proof -
  let ?c = "(new_context sample_plan [])\<lparr>results := [(''a'', restored long_result)]\<rparr>"
  let ?qr = "empty_result\<lparr>columns := [''n''], rows := replicate 11 [PInt 1], row_count := 11\<rparr> :: pyval query_result"
  have "stages (plan ?c) = [] @ sample_stage ''a'' [] # [] @ sample_stage ''b'' [''a''] # []"
    by (simp add: new_context_def sample_plan_def)
  moreover have "distinct (stage_ids (stages (plan ?c)))"
    by (simp add: new_context_def sample_plan_def stage_ids_def sample_stage_def)
  moreover have "get_result ?c (stage_id (sample_stage ''a'' [])) = Some (restored long_result)"
    by (simp add: get_result_def sample_stage_def)
  moreover have "query_result long_result = Some ?qr" by (simp add: long_result_def)
  moreover have "row_count ?qr = int (length (rows ?qr))" "length (rows ?qr) > max_sample_rows"
    by (simp_all add: max_sample_rows_def)
  ultimately have "\<exists>lines. StagePart lines \<in> set (build_context_for_stage ?c (stage_id (sample_stage ''b'' [''a'']))) \<and>
    PartialRowsLine max_sample_rows (row_count ?qr) \<in> set lines \<and> (\<forall>n. RowsLine n \<notin> set lines)"
    by (rule resumed_sample_is_marked)
  then show ?thesis by (auto simp: sample_stage_def)
qed

end
