(* ===== verification/StageValidator.thy ===== *)
theory StageValidator
  imports Plans PyRegex "HOL-Library.List_Lexorder" "HOL-Library.Char_ord"
begin

text \<open>
  \<^verbatim>\<open>backend/app/agents/stage_validator.py\<close>: the check of one stage's result against the criteria
  of its plan. Messages are values (their wording is not modelled). The language model that may
  judge a business rule, and \<^verbatim>\<open>json.loads\<close>, are parameters.
\<close>

definition text_stage_tools :: "string list" where
  "text_stage_tools = [''analyze_results'', ''search_codebase'', ''analyze_git'', ''synthesize'']"

datatype message =
    StageError string
  | EmptySummary
  | MissingColumns "string list"
  | TooFewRows int int
  | TooManyRows int int
  | CrossCheckFailed int string string rat rat
  | NegativeValue string pyval string
  | RuleViolated string pyval
  | Other string

record outcome =
  passed :: bool
  warnings :: "message list"
  errors :: "message list"

definition new_outcome :: outcome where
  "new_outcome = \<lparr>passed = True, warnings = [], errors = []\<rparr>"

definition fail_with :: "message \<Rightarrow> outcome \<Rightarrow> outcome" where
  "fail_with m out = out\<lparr>passed := False, errors := errors out @ [m]\<rparr>"

definition warn_with :: "message \<Rightarrow> outcome \<Rightarrow> outcome" where
  "warn_with m out = out\<lparr>warnings := warnings out @ [m]\<rparr>"

section \<open>Cross-stage checks\<close>

definition opt_rx :: "rx \<Rightarrow> rx" where
  "opt_rx a = Alt a Eps"

definition cross_pattern :: rx where
  "cross_pattern = seqs
     [lit ''row_count'', spaces, Grp 1 (alts [lit ''<='', lit ''>='', lit ''<'', lit ''>'', lit ''=='']), spaces,
      Grp 2 (plus (Cls is_word)), lit ''.row_count'', spaces, opt_rx (chr (CHR ''*'')), spaces,
      opt_rx (Grp 3 (seqs [plus (Cls is_digit), opt_rx (chr (CHR ''.'')), Star (Cls is_digit)]))]"

fun digits_value :: "nat \<Rightarrow> string \<Rightarrow> nat" where
  "digits_value n [] = n"
| "digits_value n (c # s) = digits_value (n * 10 + (code_pt c - 48)) s"

text \<open>\<^verbatim>\<open>float\<close> of a decimal numeral.\<close>

definition float_value :: "string \<Rightarrow> rat" where
  "float_value s =
     (let whole = takeWhile is_digit s; frac = drop 1 (dropWhile is_digit s)
      in fl (of_nat (digits_value 0 (whole @ frac)) / 10 ^ length frac))"

definition compares :: "string \<Rightarrow> rat \<Rightarrow> rat \<Rightarrow> bool" where
  "compares rel a b \<longleftrightarrow>
     (if rel = ''<='' then a \<le> b else if rel = ''>='' then a \<ge> b else if rel = ''<'' then a < b
      else if rel = ''>'' then a > b else if rel = ''=='' then a = b else True)"

definition group_of :: "nat \<Rightarrow> (nat \<times> string) list \<Rightarrow> string" where
  "group_of i g = (case map_of g i of None \<Rightarrow> [] | Some w \<Rightarrow> w)"

definition evaluate_cross_check :: "string \<Rightarrow> stage_result \<Rightarrow> stage_context \<Rightarrow> outcome \<Rightarrow> outcome" where
  "evaluate_cross_check check r ctx out =
     (case match_at_start cross_pattern (py_strip check) of
        None \<Rightarrow> out
      | Some (w, g) \<Rightarrow>
          (let rel = group_of 1 g; ref_stage = group_of 2 g;
               multiplier = (if group_of 3 g = [] then 1 else float_value (group_of 3 g))
           in case get_result ctx ref_stage of
                None \<Rightarrow> out
              | Some ref \<Rightarrow>
                  (case query_result ref of
                     None \<Rightarrow> out
                   | Some rqr \<Rightarrow>
                       (let current = (case query_result r of None \<Rightarrow> 0 | Some qr \<Rightarrow> row_count qr);
                            ref_count = fl (fl (of_int (row_count rqr)) * multiplier)
                        in if compares rel (of_int current) ref_count then out
                           else warn_with (CrossCheckFailed current rel ref_stage multiplier ref_count) out))))"

section \<open>Business rules\<close>

text \<open>
  The first negative value of a column among the first hundred rows: a missing cell or a value
  that cannot be compared ends the column, a number too large for a float ends the check.
\<close>

fun column_negative :: "nat \<Rightarrow> pyval list list \<Rightarrow> py_error + pyval option" where
  "column_negative i [] = Inr None"
| "column_negative i (row # rws) =
     (if i \<ge> length row then Inr None
      else case to_number (row ! i) of
        Inl e \<Rightarrow> (if e = IndexError \<or> e = TypeError then Inr None else Inl e)
      | Inr num \<Rightarrow>
          (case num of None \<Rightarrow> column_negative i rws
           | Some x \<Rightarrow> if is_negative x then Inr (Some (row ! i)) else column_negative i rws))"

fun columns_negative :: "nat \<Rightarrow> string list \<Rightarrow> pyval list list \<Rightarrow> py_error + (pyval \<times> string) option" where
  "columns_negative i [] rws = Inr None"
| "columns_negative i (col # cols) rws =
     bind_ok (column_negative i rws) (\<lambda>found.
       case found of Some v \<Rightarrow> Inr (Some (v, col)) | None \<Rightarrow> columns_negative (Suc i) cols rws)"

definition evaluate_business_rule :: "string \<Rightarrow> stage_result \<Rightarrow> outcome \<Rightarrow> py_error + outcome" where
  "evaluate_business_rule rule r out =
     (case query_result r of
        None \<Rightarrow> Inr out
      | Some qr \<Rightarrow>
          if rows qr = [] \<or> \<not> contains_text ''no negative'' (py_lower rule) then Inr out
          else bind_ok (columns_negative 0 (columns qr) (take 100 (rows qr))) (\<lambda>found.
            case found of None \<Rightarrow> Inr out
            | Some (v, col) \<Rightarrow> Inr (warn_with (NegativeValue rule v col) out)))"

fun fold_ok :: "('a \<Rightarrow> 'b \<Rightarrow> 'e + 'b) \<Rightarrow> 'a list \<Rightarrow> 'b \<Rightarrow> 'e + 'b" where
  "fold_ok f [] b = Inr b"
| "fold_ok f (x # xs) b = bind_ok (f x b) (fold_ok f xs)"

text \<open>The model's reply, stripped of a code fence and decoded.\<close>

definition extract_json :: "(string \<Rightarrow> pyval option) \<Rightarrow> string \<Rightarrow> pyval option" where
  "extract_json loads raw =
     (if raw = [] then None
      else
        (let s = py_strip raw;
             s1 = (if prefix ''```'' s
                   then sub_by (seqs [lit ''```'', spaces, AtEnd]) (\<lambda>w g. [])
                     (sub_by (seqs [AtStart, lit ''```'', opt_rx (lit ''json''), spaces]) (\<lambda>w g. []) s)
                   else s)
         in loads s1))"

text \<open>
  The language model judges a rule: no router, a call that raised (\<open>None\<close>) or the text of the
  reply. Only a verdict that is literally true warns; anything else falls back to the heuristic.
\<close>

definition evaluate_business_rule_async ::
  "(string \<Rightarrow> pyval option) \<Rightarrow> (string \<Rightarrow> pyval query_result \<Rightarrow> string option) option \<Rightarrow>
    string \<Rightarrow> stage_result \<Rightarrow> outcome \<Rightarrow> py_error + outcome" where
  "evaluate_business_rule_async loads llm rule r out =
     (case (query_result r, llm) of
        (Some qr, Some ask) \<Rightarrow>
          if rows qr = [] then evaluate_business_rule rule r out
          else (case ask rule qr of
              None \<Rightarrow> evaluate_business_rule rule r out
            | Some content \<Rightarrow>
                (case extract_json loads content of
                   Some (PDict d) \<Rightarrow>
                     if dict_get d ''violated'' PNone = PBool True
                     then Inr (warn_with (RuleViolated rule (dict_get d ''explanation'' (PStr []))) out)
                     else evaluate_business_rule rule r out
                 | _ \<Rightarrow> evaluate_business_rule rule r out))
      | _ \<Rightarrow> evaluate_business_rule rule r out)"

section \<open>The validator\<close>

definition missing_columns :: "string list \<Rightarrow> pyval query_result \<Rightarrow> string list" where
  "missing_columns wanted qr =
     sort (remdups (filter (\<lambda>c. py_lower c \<notin> set (map py_lower (columns qr))) wanted))"

definition check_columns :: "stage_validation \<Rightarrow> pyval query_result \<Rightarrow> outcome \<Rightarrow> outcome" where
  "check_columns v qr out =
     (case expected_columns v of
        None \<Rightarrow> out
      | Some wanted \<Rightarrow>
          if wanted = [] then out
          else if columns qr = [] \<and> rows qr = [] then out
          else if missing_columns wanted qr = [] then out
          else fail_with (MissingColumns (missing_columns wanted qr)) out)"

definition bound_with :: "bool \<Rightarrow> message \<Rightarrow> outcome \<Rightarrow> outcome" where
  "bound_with strict m out = (if strict then fail_with m out else warn_with m out)"

definition check_rows :: "bool \<Rightarrow> stage_validation \<Rightarrow> pyval query_result \<Rightarrow> outcome \<Rightarrow> outcome" where
  "check_rows strict v qr out =
     (let out1 = (case min_rows v of None \<Rightarrow> out
           | Some n \<Rightarrow> if row_count qr < n then bound_with strict (TooFewRows n (row_count qr)) out else out)
      in case max_rows v of None \<Rightarrow> out1
         | Some n \<Rightarrow> if row_count qr > n then bound_with strict (TooManyRows n (row_count qr)) out1 else out1)"

definition cross_checks :: "stage_validation \<Rightarrow> stage_result \<Rightarrow> stage_context \<Rightarrow> outcome \<Rightarrow> outcome" where
  "cross_checks v r ctx out =
     (case cross_stage_checks v of None \<Rightarrow> out
      | Some checks \<Rightarrow> fold (\<lambda>check. evaluate_cross_check check r ctx) checks out)"

definition validate :: "bool \<Rightarrow> plan_stage \<Rightarrow> stage_result \<Rightarrow> stage_context \<Rightarrow> bool \<Rightarrow> py_error + outcome" where
  "validate strict s r ctx run_rules =
     (let v = validation s in
      if status r = ''error''
      then Inr (fail_with (StageError (case res_error r of None \<Rightarrow> ''unknown'' | Some e \<Rightarrow> if e = [] then ''unknown'' else e)) new_outcome)
      else if tool s \<in> set text_stage_tools
      then Inr (cross_checks v r ctx
        (if py_strip (summary r) = [] then fail_with EmptySummary new_outcome else new_outcome))
      else
        (let out = (case query_result r of None \<Rightarrow> new_outcome
               | Some qr \<Rightarrow> check_rows strict v qr (check_columns v qr new_outcome));
             out1 = cross_checks v r ctx out
         in case (run_rules, business_rules v, query_result r) of
              (True, Some rules, Some qr) \<Rightarrow> fold_ok (\<lambda>rule. evaluate_business_rule rule r) rules out1
            | _ \<Rightarrow> Inr out1))"

definition validate_async ::
  "(string \<Rightarrow> pyval option) \<Rightarrow> (string \<Rightarrow> pyval query_result \<Rightarrow> string option) option \<Rightarrow>
    bool \<Rightarrow> plan_stage \<Rightarrow> stage_result \<Rightarrow> stage_context \<Rightarrow> py_error + outcome" where
  "validate_async loads llm strict s r ctx =
     bind_ok (validate strict s r ctx False) (\<lambda>out.
       case (business_rules (validation s), query_result r) of
         (Some rules, Some qr) \<Rightarrow> fold_ok (\<lambda>rule. evaluate_business_rule_async loads llm rule r) rules out
       | _ \<Rightarrow> Inr out)"

section \<open>What decides\<close>

definition columns_present :: "stage_validation \<Rightarrow> pyval query_result \<Rightarrow> bool" where
  "columns_present v qr \<longleftrightarrow> expected_columns v = None \<or> columns qr = [] \<and> rows qr = [] \<or>
     (\<forall>c \<in> set (the (expected_columns v)). py_lower c \<in> set (map py_lower (columns qr)))"

definition rows_in_bounds :: "stage_validation \<Rightarrow> pyval query_result \<Rightarrow> bool" where
  "rows_in_bounds v qr \<longleftrightarrow> (min_rows v = None \<or> the (min_rows v) \<le> row_count qr) \<and>
     (max_rows v = None \<or> row_count qr \<le> the (max_rows v))"

definition acceptable :: "bool \<Rightarrow> plan_stage \<Rightarrow> stage_result \<Rightarrow> bool" where
  "acceptable strict s r \<longleftrightarrow> status r \<noteq> ''error'' \<and>
     (if tool s \<in> set text_stage_tools then py_strip (summary r) \<noteq> []
      else case query_result r of None \<Rightarrow> True
        | Some qr \<Rightarrow> columns_present (validation s) qr \<and> (\<not> strict \<or> rows_in_bounds (validation s) qr))"

lemma passed_simps [simp]:
  "passed (warn_with m out) = passed out" "\<not> passed (fail_with m out)" "passed new_outcome"
  by (simp_all add: warn_with_def fail_with_def new_outcome_def)

lemma passed_cross: "passed (cross_checks v r ctx out) = passed out"
proof -
  have one: "passed (evaluate_cross_check check r ctx out) = passed out" for check out
    by (simp add: evaluate_cross_check_def Let_def split: option.split prod.split)
  have "passed (fold (\<lambda>check. evaluate_cross_check check r ctx) checks out) = passed out" for checks
    by (induction checks arbitrary: out) (simp_all add: one)
  then show ?thesis by (simp add: cross_checks_def split: option.split)
qed

lemma passed_rule:
  "evaluate_business_rule rule r out = Inr out' \<Longrightarrow> passed out' = passed out"
  by (auto simp: evaluate_business_rule_def bind_ok_Inr split: option.splits if_splits)

lemma passed_rule_async:
  "evaluate_business_rule_async loads llm rule r out = Inr out' \<Longrightarrow> passed out' = passed out"
  unfolding evaluate_business_rule_async_def
  by (auto split: option.splits if_splits pyval.splits dest: passed_rule)

lemma passed_fold_ok:
  "(\<And>x out out'. f x out = Inr out' \<Longrightarrow> passed out' = passed out) \<Longrightarrow>
    fold_ok f xs out = Inr out' \<Longrightarrow> passed out' = passed out"
  by (induction xs arbitrary: out) (auto simp: bind_ok_Inr)

lemma passed_rules_async:
  "fold_ok (\<lambda>rule. evaluate_business_rule_async loads llm rule r) rules out = Inr out' \<Longrightarrow> passed out' = passed out"
  by (erule passed_fold_ok [rotated]) (rule passed_rule_async)

lemma passed_columns: "passed (check_columns v qr out) \<longleftrightarrow> passed out \<and> columns_present v qr"
proof -
  have "missing_columns wanted qr = [] \<longleftrightarrow> (\<forall>c \<in> set wanted. py_lower c \<in> set (map py_lower (columns qr)))" for wanted
    unfolding missing_columns_def by (subst set_empty [symmetric]) auto
  then show ?thesis by (auto simp: check_columns_def columns_present_def split: option.split)
qed

lemma passed_rows: "passed (check_rows strict v qr out) \<longleftrightarrow> passed out \<and> (\<not> strict \<or> rows_in_bounds v qr)"
  by (auto simp: check_rows_def rows_in_bounds_def bound_with_def Let_def split: option.split)

lemma passed_validate:
  "validate strict s r ctx run_rules = Inr out \<Longrightarrow> passed out = acceptable strict s r"
proof -
  assume v: "validate strict s r ctx run_rules = Inr out"
  let ?out = "case query_result r of None \<Rightarrow> new_outcome
      | Some qr \<Rightarrow> check_rows strict (validation s) qr (check_columns (validation s) qr new_outcome)"
  have base: "passed ?out = (case query_result r of None \<Rightarrow> True
        | Some qr \<Rightarrow> columns_present (validation s) qr \<and> (\<not> strict \<or> rows_in_bounds (validation s) qr))"
    by (simp add: passed_rows passed_columns split: option.split)
  have rules: "fold_ok (\<lambda>rule. evaluate_business_rule rule r) rules out1 = Inr out \<Longrightarrow> passed out = passed out1" for rules out1
    by (rule passed_fold_ok [OF passed_rule])
  show ?thesis
  proof (cases "status r = ''error'' \<or> tool s \<in> set text_stage_tools")
    case True
    show ?thesis
    proof (cases "status r = ''error''")
      case True
      with v show ?thesis by (auto simp: validate_def acceptable_def Let_def)
    next
      case False
      with v True have "out = cross_checks (validation s) r ctx
          (if py_strip (summary r) = [] then fail_with EmptySummary new_outcome else new_outcome)"
        by (simp add: validate_def Let_def)
      with False True show ?thesis by (simp add: passed_cross acceptable_def)
    qed
  next
    case False
    with v have "passed out = passed (cross_checks (validation s) r ctx ?out)"
      by (auto simp: validate_def Let_def split: bool.splits option.splits dest: rules)
    with base False show ?thesis by (simp add: passed_cross acceptable_def)
  qed
qed

lemma passed_validate_async:
  assumes "validate_async loads llm strict s r ctx = Inr out"
  shows "passed out \<longleftrightarrow> acceptable strict s r"
proof -
  from assms obtain out1 where v: "validate strict s r ctx False = Inr out1"
    and rest: "(case (business_rules (validation s), query_result r) of
         (Some rules, Some qr) \<Rightarrow> fold_ok (\<lambda>rule. evaluate_business_rule_async loads llm rule r) rules out1
       | _ \<Rightarrow> Inr out1) = Inr out"
    unfolding validate_async_def bind_ok_Inr by blast
  from rest have "passed out = passed out1"
    by (cases "business_rules (validation s)"; cases "query_result r")
      (simp_all add: passed_rules_async)
  with passed_validate [OF v] show ?thesis by simp
qed

section \<open>Properties\<close>

text \<open>
  What fails a stage: the verdict of the validator, with or without a language model, is
  exactly this. A stage that returned an error fails; a stage that produces text fails only
  for an empty summary, whatever columns or row counts its plan demands of it; any other stage
  fails only for an expected column that a result with columns or rows lacks (whatever its
  case) or, in strict mode, for a row count out of bounds. Cross-stage checks and business
  rules only warn.
\<close>

theorem verdict_exact:
  assumes "validate_async loads llm strict s r ctx = Inr out"
  shows "passed out \<longleftrightarrow> acceptable strict s r"
  using assms by (rule passed_validate_async)

theorem verdict_exact_witness:
  "\<exists>out. validate_async (\<lambda>_. None) None True
      ((sample_stage ''a'' [])\<lparr>tool := ''synthesize'', validation := no_validation\<lparr>min_rows := Some 5\<rparr>\<rparr>)
      ((new_result ''a'' ''success'')\<lparr>summary := ''ok''\<rparr>) (new_context sample_plan []) = Inr out \<and> passed out"
proof -
  let ?s = "(sample_stage ''a'' [])\<lparr>tool := ''synthesize'', validation := no_validation\<lparr>min_rows := Some 5\<rparr>\<rparr>"
  let ?r = "(new_result ''a'' ''success'')\<lparr>summary := ''ok''\<rparr>"
  have strip: "py_strip ''ok'' = ''ok''" by code_simp
  have v: "validate_async (\<lambda>_. None) None True ?s ?r (new_context sample_plan []) = Inr new_outcome"
    by (simp add: validate_async_def validate_def sample_stage_def new_result_def text_stage_tools_def
        no_validation_def cross_checks_def strip)
  from verdict_exact [OF this] have "passed new_outcome \<longleftrightarrow> acceptable True ?s ?r" .
  with v show ?thesis by auto
qed

end
