(* ===== verification/LayerChecker.thy ===== *)
theory LayerChecker
  imports StageValidator
begin

text \<open>
  \<^verbatim>\<open>backend/app/agents/layer_checker.py\<close>: the gate between a layer of parallel stages and
  whatever consumes it. Each rejection names its item of the contract and the stage.
\<close>

datatype item = Missing | Empty | Unevidenced | Malformed | Contradictory | OffTopic

definition code_items :: "item list" where
  "code_items = [Missing, Empty, Unevidenced, Malformed]"

definition model_items :: "item list" where
  "model_items = [Contradictory, OffTopic]"

datatype detail =
    Arrived int nat
  | NothingFrom string
  | NoReceipt string string
  | NoColumnNames string
  | RaggedRow string nat nat nat

record layer_verdict =
  v_passed :: bool
  asserted :: "item list"
  not_asserted :: "item list"
  failures :: "(item \<times> detail) list"
  rejected_items :: "item list"

fun first_ragged :: "nat \<Rightarrow> nat \<Rightarrow> pyval list list \<Rightarrow> (nat \<times> nat) option" where
  "first_ragged width i [] = None"
| "first_ragged width i (row # rws) =
     (if length row \<noteq> width then Some (i, length row) else first_ragged width (Suc i) rws)"

definition tool_of :: "plan_stage list \<Rightarrow> string \<Rightarrow> string" where
  "tool_of batch sid = (case map_of (rev (map (\<lambda>s. (stage_id s, tool s)) batch)) sid of None \<Rightarrow> [] | Some t \<Rightarrow> t)"

text \<open>The first of the items 2 to 4 that rejects an arrived result.\<close>

definition check_result :: "plan_stage list \<Rightarrow> stage_result \<Rightarrow> (item \<times> detail) list" where
  "check_result batch r =
     (if status r \<noteq> ''success'' then []
      else
        (let sid = res_stage r; t = tool_of batch sid; qr = query_result r;
             has_rows = (case qr of None \<Rightarrow> False | Some q \<Rightarrow> rows q \<noteq> [])
         in if py_strip (summary r) = [] \<and> \<not> has_rows \<and> qr = None then [(Empty, NothingFrom sid)]
            else if t \<notin> set text_stage_tools \<and> qr = None \<and> \<not> has_text (query r)
            then [(Unevidenced, NoReceipt sid t)]
            else case qr of
              None \<Rightarrow> []
            | Some q \<Rightarrow>
                if rows q = [] then []
                else if columns q = [] then [(Malformed, NoColumnNames sid)]
                else (case first_ragged (length (columns q)) 0 (rows q) of
                    None \<Rightarrow> []
                  | Some (i, n) \<Rightarrow> [(Malformed, RaggedRow sid i n (length (columns q)))])))"

text \<open>The distinct items, by their first occurrence.\<close>

definition in_order :: "'a list \<Rightarrow> 'a list" where
  "in_order xs = rev (remdups (rev xs))"

definition check_layer :: "int \<Rightarrow> plan_stage list \<Rightarrow> stage_result option list \<Rightarrow> py_error + layer_verdict" where
  "check_layer expected batch rs =
     (if expected \<le> 0 then Inl ValueError
      else
        (let arrived = map the (filter (\<lambda>r. r \<noteq> None) rs);
             fs = (if int (length arrived) \<noteq> expected then [(Missing, Arrived expected (length arrived))] else [])
               @ concat (map (check_result batch) arrived)
         in Inr \<lparr>v_passed = (fs = []), asserted = code_items, not_asserted = model_items, failures = fs,
              rejected_items = in_order (map fst fs)\<rparr>))"

section \<open>What a passed layer holds\<close>

text \<open>A success that a consumer can use: evidence for its claim, and rows of one width.\<close>

definition usable :: "plan_stage list \<Rightarrow> stage_result \<Rightarrow> bool" where
  "usable batch r \<longleftrightarrow>
     (case query_result r of
        None \<Rightarrow> (if tool_of batch (res_stage r) \<in> set text_stage_tools
                 then py_strip (summary r) \<noteq> [] else has_text (query r) \<and> py_strip (summary r) \<noteq> [])
      | Some q \<Rightarrow> rows q = [] \<or> columns q \<noteq> [] \<and> (\<forall>row \<in> set (rows q). length row = length (columns q)))"

lemma first_ragged_None: "first_ragged w i rws = None \<longleftrightarrow> (\<forall>row \<in> set rws. length row = w)"
  by (induction rws arbitrary: i) auto

lemma check_result_Nil: "check_result batch r = [] \<longleftrightarrow> status r \<noteq> ''success'' \<or> usable batch r"
proof (cases "query_result r")
  case None
  then show ?thesis by (auto simp: check_result_def usable_def Let_def)
next
  case (Some q)
  have "first_ragged (length (columns q)) 0 (rows q) = None \<longleftrightarrow> (\<forall>row \<in> set (rows q). length row = length (columns q))"
    by (rule first_ragged_None)
  with Some show ?thesis
    by (cases "first_ragged (length (columns q)) 0 (rows q)") (auto simp: check_result_def usable_def Let_def split: if_splits)
qed

section \<open>Properties\<close>

text \<open>
  The layer gate is exact: it passes a layer of at least one expected result precisely
  when that many results arrived and every successful one is usable (prose has text, any other
  claim without a result set has a query and text, rows have column names and one width). A
  rejected layer names an item for every failure, and never an item it does not check.
\<close>

theorem layer_gate_exact:
  assumes "check_layer expected batch rs = Inr v"
  shows "(v_passed v \<longleftrightarrow> int (length (filter (\<lambda>r. r \<noteq> None) rs)) = expected \<and>
      (\<forall>r. Some r \<in> set rs \<longrightarrow> status r = ''success'' \<longrightarrow> usable batch r)) \<and>
    set (rejected_items v) = fst ` set (failures v) \<and> set (rejected_items v) \<subseteq> set (asserted v)"
proof -
  let ?arrived = "map the (filter (\<lambda>r. r \<noteq> None) rs)"
  let ?fs = "(if int (length ?arrived) \<noteq> expected then [(Missing, Arrived expected (length ?arrived))] else [])
        @ concat (map (check_result batch) ?arrived)"
  have "expected > 0" using assms by (auto simp: check_layer_def split: if_splits)
  with assms have "v = \<lparr>v_passed = (?fs = []), asserted = code_items, not_asserted = model_items, failures = ?fs,
      rejected_items = in_order (map fst ?fs)\<rparr>"
    unfolding check_layer_def Let_def by (simp only: not_le [symmetric] if_False sum.inject)
  then have v: "v_passed v = (failures v = [])" "asserted v = code_items" "rejected_items v = in_order (map fst (failures v))"
    and fs: "failures v = ?fs" by (simp_all only: layer_verdict.simps)
  have arrived: "r \<in> set ?arrived \<longleftrightarrow> Some r \<in> set rs" for r by force
  have "concat (map (check_result batch) ?arrived) = [] \<longleftrightarrow> (\<forall>r \<in> set ?arrived. check_result batch r = [])"
    by (simp add: concat_eq_Nil_conv)
  also have "\<dots> \<longleftrightarrow> (\<forall>r. Some r \<in> set rs \<longrightarrow> status r = ''success'' \<longrightarrow> usable batch r)"
    unfolding check_result_Nil using arrived by blast
  finally have "v_passed v \<longleftrightarrow> int (length (filter (\<lambda>r. r \<noteq> None) rs)) = expected \<and>
      (\<forall>r. Some r \<in> set rs \<longrightarrow> status r = ''success'' \<longrightarrow> usable batch r)"
    unfolding v(1) fs by simp
  moreover have "fst ` set (check_result batch r) \<subseteq> set code_items" for r
    by (auto simp: check_result_def Let_def code_items_def split: option.splits if_splits)
  then have "fst ` set (failures v) \<subseteq> set code_items" unfolding fs by (force simp: code_items_def split: if_splits)
  ultimately show ?thesis using v by (simp add: in_order_def)
qed

theorem layer_gate_exact_witness:
  "\<exists>v. check_layer 2 [sample_stage ''a'' [], sample_stage ''b'' []]
      [Some ((new_result ''a'' ''success'')\<lparr>summary := ''x'', query := Some ''SELECT 1''\<rparr>), None] = Inr v \<and> \<not> v_passed v"
proof -
  let ?rs = "[Some ((new_result ''a'' ''success'')\<lparr>summary := ''x'', query := Some ''SELECT 1''\<rparr>), None]"
  obtain v where v: "check_layer 2 [sample_stage ''a'' [], sample_stage ''b'' []] ?rs = Inr v"
    by (simp add: check_layer_def Let_def)
  from layer_gate_exact [OF this] have "\<not> v_passed v" by simp
  with v show ?thesis by blast
qed

end
