(* ===== verification/DataGate.thy ===== *)
theory DataGate
  imports StageValidator
begin

text \<open>
  \<^verbatim>\<open>backend/app/agents/data_gate.py\<close>: the checks on the content of a result. Messages and
  suggestions are values (their wording is not modelled). A cell that is a NaN equals no other
  cell, and two dates are equal when their texts are. \<^verbatim>\<open>datetime.fromisoformat\<close> (its year) is
  a parameter, and so is the column classifier that a caller may inject.
\<close>

datatype gate_message =
    NullRatio string nat nat
  | MixedTypes string
  | DuplicateRows nat nat
  | NonFinite string pyval
  | PercentRange string pyval
  | RateMagnitude string pyval
  | NegativeCount string pyval
  | DateYear string pyval int
  | NotEpoch string pyval
  | ResultTruncated int
  | CommonLimit int
  | CannotCompare string string bool bool
  | Cartesian string int string int

datatype suggestion =
    CheckNulls string
  | CastColumn string
  | AddDistinct
  | GuardDivisor string
  | ToRatio string
  | CheckSign string
  | ConfirmDate
  | ConvertEpoch
  | PushAggregation
  | VerifyLimit
  | NarrowQuery
  | CheckJoin

record gate_outcome =
  g_passed :: bool
  g_warnings :: "gate_message list"
  g_errors :: "gate_message list"
  suggestions :: "suggestion list"

record gate_settings =
  null_threshold :: rat
  dup_threshold :: rat
  max_sample :: nat
  hard_checks :: bool
  value_range_sample :: int
  pct_min :: rat
  pct_max :: rat
  pct_bounded_max :: rat
  year_min :: int
  year_max :: int
  common_limits :: "int list"
  cartesian_multiplier :: int
  classifier :: "(string list \<Rightarrow> pyval list list \<Rightarrow> (string \<times> string) list option) option"
  iso_year :: "string \<Rightarrow> int option"

text \<open>The defaults of the configuration.\<close>

definition gate_defaults :: "(string \<Rightarrow> int option) \<Rightarrow> gate_settings" where
  "gate_defaults years = \<lparr>null_threshold = 1 / 2, dup_threshold = fl (9 / 10), max_sample = 200,
     hard_checks = True, value_range_sample = 0, pct_min = - 1 / 2, pct_max = 200,
     pct_bounded_max = 201 / 2, year_min = 1900, year_max = 2100,
     common_limits = [100, 500, 1000, 5000, 10000, 50000], cartesian_multiplier = 100,
     classifier = None, iso_year = years\<rparr>"

definition open_gate :: gate_outcome where
  "open_gate = \<lparr>g_passed = True, g_warnings = [], g_errors = [], suggestions = []\<rparr>"

definition gate_fail :: "gate_message \<Rightarrow> suggestion option \<Rightarrow> gate_outcome \<Rightarrow> gate_outcome" where
  "gate_fail m h out = out\<lparr>g_passed := False, g_errors := g_errors out @ [m],
     suggestions := suggestions out @ (case h of None \<Rightarrow> [] | Some x \<Rightarrow> [x])\<rparr>"

definition gate_warn :: "gate_message \<Rightarrow> suggestion option \<Rightarrow> gate_outcome \<Rightarrow> gate_outcome" where
  "gate_warn m h out = out\<lparr>g_warnings := g_warnings out @ [m],
     suggestions := suggestions out @ (case h of None \<Rightarrow> [] | Some x \<Rightarrow> [x])\<rparr>"

definition gate_merge :: "gate_outcome \<Rightarrow> gate_outcome \<Rightarrow> gate_outcome" where
  "gate_merge out other = \<lparr>g_passed = (if \<not> g_passed other then False else g_passed out),
     g_warnings = g_warnings out @ g_warnings other, g_errors = g_errors out @ g_errors other,
     suggestions = suggestions out @ suggestions other\<rparr>"

section \<open>Column names\<close>

fun split_camel :: "string \<Rightarrow> string" where
  "split_camel (a # b # s) =
     (if (is_digit a \<or> is_letter a \<and> lower_char a = a) \<and> is_letter b \<and> lower_char b \<noteq> b
      then a # CHR ''_'' # split_camel (b # s) else a # split_camel (b # s))"
| "split_camel s = s"

fun tokens_aux :: "string \<Rightarrow> string \<Rightarrow> string list" where
  "tokens_aux w [] = (if w = [] then [] else [rev w])"
| "tokens_aux w (c # s) =
     (if is_digit c \<or> is_letter c \<and> lower_char c = c then tokens_aux (c # w) s
      else (if w = [] then [] else [rev w]) @ tokens_aux [] s)"

definition column_tokens :: "string \<Rightarrow> string list" where
  "column_tokens name = tokens_aux [] (py_lower (split_camel name))"

definition percent_bounded_keywords :: "string list" where
  "percent_bounded_keywords = [''percent'', ''percentage'', ''pct'', ''conversion'', ''completion'', ''occupancy'', ''ctr'']"

definition rate_keywords :: "string list" where
  "rate_keywords = [''rate'', ''ratio'', ''growth'']"

definition delta_keywords :: "string list" where
  "delta_keywords = [''change'', ''delta'', ''growth'', ''diff'', ''increase'', ''decrease'', ''variance'', ''gain'', ''loss'', ''net'']"

definition count_keywords :: "string list" where
  "count_keywords = [''count'', ''cnt'', ''qty'', ''quantity'', ''num'', ''number'']"

definition date_keywords :: "string list" where
  "date_keywords = [''date'', ''datetime'', ''created'', ''updated'', ''timestamp'']"

definition names_any :: "string list \<Rightarrow> string list \<Rightarrow> bool" where
  "names_any tokens keywords \<longleftrightarrow> list_ex (\<lambda>t. t \<in> set keywords) tokens"

definition column_kind :: "string \<Rightarrow> string" where
  "column_kind col =
     (let ts = column_tokens col;
          is_pct = (CHR ''%'' \<in> set col \<or> names_any ts percent_bounded_keywords);
          is_delta = names_any ts delta_keywords
      in if is_pct \<and> \<not> is_delta then ''percent''
         else if names_any ts rate_keywords \<or> is_pct \<and> is_delta then ''rate''
         else if names_any ts date_keywords then ''date''
         else if names_any ts count_keywords then ''count''
         else ''other'')"

text \<open>A classifier that raises, or answers no dictionary, is \<open>None\<close>: the keywords decide then.\<close>

definition classify_columns :: "gate_settings \<Rightarrow> pyval query_result \<Rightarrow> (string \<times> string) list" where
  "classify_columns cfg qr =
     (case (case classifier cfg of None \<Rightarrow> None | Some f \<Rightarrow> f (columns qr) (take (max_sample cfg) (rows qr))) of
        Some kinds \<Rightarrow> kinds
      | None \<Rightarrow> fold (\<lambda>col d. od_set col (column_kind col) d) (columns qr) [])"

definition kind_of :: "(string \<times> string) list \<Rightarrow> string \<Rightarrow> string" where
  "kind_of kinds col = (case map_of kinds col of None \<Rightarrow> ''other'' | Some k \<Rightarrow> k)"

section \<open>Cells\<close>

text \<open>\<^verbatim>\<open>float\<close> of a text, where it is finite.\<close>

definition digit_part :: rx where
  "digit_part = Seq (Cls is_digit) (Star (Seq (opt_rx (chr (CHR ''_''))) (Cls is_digit)))"

definition sign_part :: rx where
  "sign_part = opt_rx (Alt (chr (CHR ''+'')) (chr (CHR ''-'')))"

definition float_pattern :: rx where
  "float_pattern = seqs
     [Grp 1 sign_part,
      Alt (seqs [Grp 2 digit_part, opt_rx (Seq (chr (CHR ''.'')) (Grp 3 (opt_rx digit_part)))])
        (seqs [chr (CHR ''.''), Grp 3 digit_part]),
      opt_rx (seqs [Alt (chr (CHR ''e'')) (chr (CHR ''E'')), Grp 4 sign_part, Grp 5 digit_part]), AtEnd]"

definition digits_of :: "string \<Rightarrow> nat" where
  "digits_of s = digits_value 0 (filter is_digit s)"

definition parse_numeric_string :: "string \<Rightarrow> rat option" where
  "parse_numeric_string txt =
     (let s = py_strip txt in
      if s = [] then None
      else case match_at_start float_pattern s of
        None \<Rightarrow> None
      | Some (w, g) \<Rightarrow>
          if w \<noteq> s then None
          else
            (let frac = filter is_digit (group_of 3 g);
                 m = of_nat (digits_of (group_of 2 g @ frac)) / 10 ^ length frac;
                 ex = digits_of (group_of 5 g);
                 scaled = (if group_of 4 g = ''-'' then m / 10 ^ ex else m * 10 ^ ex);
                 x = fl (if group_of 1 g = ''-'' then - scaled else scaled)
             in if \<bar>x\<bar> \<ge> pow2 1024 then None else Some x))"

fun type_family :: "pyval \<Rightarrow> string" where
  "type_family (PBool b) = ''bool''"
| "type_family (PInt i) = ''number''"
| "type_family (PFloat x) = ''number''"
| "type_family (PDecimal x) = ''number''"
| "type_family (PStr s) = ''text''"
| "type_family (PBytes s) = ''binary''"
| "type_family (PDate y s) = ''temporal''"
| "type_family (PList xs) = ''container''"
| "type_family (PDict d) = ''container''"
| "type_family PNone = ''NoneType''"

text \<open>Equal cells have equal stand-ins; one that holds a NaN equals none.\<close>

fun stand_in :: "pyval \<Rightarrow> pyval" where
  "stand_in (PList xs) = PList (map stand_in xs)"
| "stand_in (PDict d) = PDict (map (\<lambda>(k, v). (k, stand_in v)) (sort_key fst d))"
| "stand_in v = canon v"

fun holds_nan :: "pyval \<Rightarrow> bool" where
  "holds_nan (PList xs) = list_ex holds_nan xs"
| "holds_nan (PDict d) = list_ex (\<lambda>(k, v). holds_nan v) d"
| "holds_nan (PFloat x) = (x = NaN)"
| "holds_nan (PDecimal x) = (x = NaN)"
| "holds_nan v = False"

fun count_dupes :: "pyval list list \<Rightarrow> pyval list list \<Rightarrow> nat" where
  "count_dupes seen [] = 0"
| "count_dupes seen (row # rws) =
     (let key = map stand_in row in
      if \<not> list_ex holds_nan row \<and> key \<in> set seen then Suc (count_dupes seen rws)
      else count_dupes (if list_ex holds_nan row then seen else key # seen) rws)"

definition cell :: "nat \<Rightarrow> pyval list \<Rightarrow> pyval option" where
  "cell i row = (if i < length row then Some (row ! i) else None)"

definition is_null :: "pyval option \<Rightarrow> bool" where
  "is_null c = (case c of None \<Rightarrow> True | Some v \<Rightarrow> v = PNone \<or> v = PStr [] \<or> v = PFloat NaN)"

definition over_columns ::
  "(nat \<Rightarrow> string \<Rightarrow> gate_outcome \<Rightarrow> gate_outcome) \<Rightarrow> string list \<Rightarrow> gate_outcome \<Rightarrow> gate_outcome" where
  "over_columns f cols out = fold (\<lambda>(i, col). f i col) (enumerate 0 cols) out"

section \<open>Advisory checks\<close>

definition check_nulls :: "gate_settings \<Rightarrow> pyval query_result \<Rightarrow> gate_outcome \<Rightarrow> gate_outcome" where
  "check_nulls cfg qr out =
     (let sample = take (max_sample cfg) (rows qr); n = length sample in
      if sample = [] then out
      else over_columns (\<lambda>i col o'.
        let nulls = length (filter (\<lambda>row. is_null (cell i row)) sample) in
        if fl (of_nat nulls / of_nat n) \<ge> null_threshold cfg
        then gate_warn (NullRatio col nulls n) (Some (CheckNulls col)) o' else o') (columns qr) out)"

definition check_type_consistency :: "gate_settings \<Rightarrow> pyval query_result \<Rightarrow> gate_outcome \<Rightarrow> gate_outcome" where
  "check_type_consistency cfg qr out =
     (let sample = take (max_sample cfg) (rows qr) in
      if sample = [] then out
      else over_columns (\<lambda>i col o'.
        let vals = filter (\<lambda>v. v \<noteq> PNone) (List.map_filter (cell i) sample) in
        if length (remdups (map type_family vals)) > 1
        then gate_warn (MixedTypes col) (Some (CastColumn col)) o' else o') (columns qr) out)"

definition check_duplicates :: "gate_settings \<Rightarrow> pyval query_result \<Rightarrow> gate_outcome \<Rightarrow> gate_outcome" where
  "check_duplicates cfg qr out =
     (let sample = take (max_sample cfg) (rows qr); n = length sample; dupes = count_dupes [] sample in
      if n < 10 then out
      else if fl (of_nat dupes / of_nat n) \<ge> dup_threshold cfg
      then gate_warn (DuplicateRows dupes n) (Some AddDistinct) out else out)"

definition check_truncation :: "gate_settings \<Rightarrow> pyval query_result \<Rightarrow> gate_outcome \<Rightarrow> gate_outcome" where
  "check_truncation cfg qr out =
     (if truncated qr then gate_warn (ResultTruncated (row_count qr)) (Some PushAggregation) out
      else if row_count qr \<in> set (common_limits cfg)
      then gate_warn (CommonLimit (row_count qr)) (Some VerifyLimit) out else out)"

definition check_against :: "gate_settings \<Rightarrow> plan_stage \<Rightarrow> pyval query_result \<Rightarrow> stage_context \<Rightarrow> string \<Rightarrow> gate_outcome \<Rightarrow> gate_outcome" where
  "check_against cfg s qr ctx dep_id out =
     (case get_result ctx dep_id of
        None \<Rightarrow> out
      | Some dep \<Rightarrow>
          (case query_result dep of
             None \<Rightarrow> out
           | Some dq \<Rightarrow>
               if truncated qr \<or> truncated dq
               then gate_warn (CannotCompare (stage_id s) dep_id (truncated qr) (truncated dq)) (Some NarrowQuery) out
               else if row_count dq > 0 \<and> row_count qr > row_count dq * cartesian_multiplier cfg
               then gate_warn (Cartesian (stage_id s) (row_count qr) dep_id (row_count dq)) (Some CheckJoin) out
               else out))"

definition check_cross_stage ::
  "gate_settings \<Rightarrow> plan_stage \<Rightarrow> pyval query_result \<Rightarrow> stage_context \<Rightarrow> gate_outcome \<Rightarrow> gate_outcome" where
  "check_cross_stage cfg s qr ctx out = fold (check_against cfg s qr ctx) (depends_on s) out"

section \<open>Impossible values\<close>

definition non_finite :: "pyval \<Rightarrow> bool" where
  "non_finite v = (case v of
     PFloat x \<Rightarrow> (case x of Fin r \<Rightarrow> False | _ \<Rightarrow> True)
   | PDecimal x \<Rightarrow> (case x of Fin r \<Rightarrow> False | _ \<Rightarrow> True)
   | _ \<Rightarrow> False)"

fun first_non_finite :: "nat \<Rightarrow> pyval list list \<Rightarrow> pyval option" where
  "first_non_finite i [] = None"
| "first_non_finite i (row # rws) =
     (if i < length row \<and> non_finite (row ! i) then Some (row ! i) else first_non_finite i rws)"

text \<open>A finding fails the result, if the hard checks are on, or is a warning.\<close>

datatype gate_finding = Hard gate_message suggestion | Soft gate_message

definition report :: "gate_settings \<Rightarrow> gate_finding \<Rightarrow> gate_outcome \<Rightarrow> gate_outcome" where
  "report cfg f out = (case f of
     Hard m h \<Rightarrow> if hard_checks cfg then gate_fail m (Some h) out else gate_warn m None out
   | Soft m \<Rightarrow> gate_warn m None out)"

definition less_than :: "fnum \<Rightarrow> rat \<Rightarrow> bool" where
  "less_than x r = (case x of Fin q \<Rightarrow> q < r | Infinite pos \<Rightarrow> \<not> pos | NaN \<Rightarrow> False)"

definition more_than :: "fnum \<Rightarrow> rat \<Rightarrow> bool" where
  "more_than x r = (case x of Fin q \<Rightarrow> q > r | Infinite pos \<Rightarrow> pos | NaN \<Rightarrow> False)"

text \<open>
  \<^verbatim>\<open>datetime.fromtimestamp(x, tz=UTC).year\<close>, for the years 1 to 9999: the day count of the
  microseconds, as a civil date.
\<close>

definition year_of_day :: "int \<Rightarrow> int" where
  "year_of_day day =
     (let z = day + 719468; era = z div 146097; doe = z - era * 146097;
          yoe = (doe - doe div 1460 + doe div 36524 - doe div 146096) div 365;
          doy = doe - (365 * yoe + yoe div 4 - yoe div 100)
      in yoe + era * 400 + (if (5 * doy + 2) div 153 \<ge> 10 then 1 else 0))"

definition epoch_year :: "rat \<Rightarrow> int option" where
  "epoch_year x = (let y = year_of_day (round_even (x * 1000000) div 86400000000) in
     if 1 \<le> y \<and> y \<le> 9999 then Some y else None)"

definition plausible_epoch :: "gate_settings \<Rightarrow> rat \<Rightarrow> bool" where
  "plausible_epoch cfg x \<longleftrightarrow> list_ex (\<lambda>d. case epoch_year (fl (x / d)) of None \<Rightarrow> False
     | Some y \<Rightarrow> year_min cfg \<le> y \<and> y \<le> year_max cfg) [1, 1000]"

definition date_finding :: "gate_settings \<Rightarrow> string \<Rightarrow> pyval \<Rightarrow> gate_finding option" where
  "date_finding cfg col v =
     (let outside = (\<lambda>y. if y < year_min cfg \<or> y > year_max cfg
            then Some (Hard (DateYear col v y) ConfirmDate) else None);
          epoch = (\<lambda>x. if plausible_epoch cfg x then None else Some (Hard (NotEpoch col v) ConvertEpoch))
      in case v of
           PStr s \<Rightarrow> (case iso_year cfg (concat (map (\<lambda>c. if c = CHR ''Z'' then ''+00:00'' else [c]) s)) of
               None \<Rightarrow> None | Some y \<Rightarrow> outside y)
         | PDate y txt \<Rightarrow> outside y
         | PInt i \<Rightarrow> epoch (of_int i)
         | PFloat (Fin r) \<Rightarrow> epoch r
         | _ \<Rightarrow> None)"

definition number_finding :: "gate_settings \<Rightarrow> string \<Rightarrow> string \<Rightarrow> pyval \<Rightarrow> fnum \<Rightarrow> gate_finding option" where
  "number_finding cfg kind col v x =
     (if kind = ''percent'' then
        if less_than x (pct_min cfg) \<or> more_than x (pct_bounded_max cfg)
        then Some (Hard (PercentRange col v) (ToRatio col)) else None
      else if kind = ''rate'' then
        if less_than x (- pct_max cfg) \<or> more_than x (pct_max cfg) then Some (Soft (RateMagnitude col v)) else None
      else if kind = ''count'' then
        if less_than x 0 then Some (Hard (NegativeCount col v) (CheckSign col)) else None
      else None)"

text \<open>The number a cell is read as: a measurement, or the numeral a text holds.\<close>

definition cell_number :: "string \<Rightarrow> pyval \<Rightarrow> py_error + fnum option" where
  "cell_number kind v = bind_ok (to_number v) (\<lambda>num. Inr (case num of Some x \<Rightarrow> Some x
     | None \<Rightarrow> (case v of
         PStr s \<Rightarrow> if kind \<noteq> ''date'' then map_option Fin (parse_numeric_string s) else None
       | _ \<Rightarrow> None)))"

definition cell_finding :: "gate_settings \<Rightarrow> string \<Rightarrow> string \<Rightarrow> pyval \<Rightarrow> py_error + gate_finding option" where
  "cell_finding cfg kind col v =
     (if v = PNone then Inr None
      else bind_ok (cell_number kind v) (\<lambda>num. Inr
        (if kind = ''date'' then date_finding cfg col v
         else case num of None \<Rightarrow> None | Some x \<Rightarrow> number_finding cfg kind col v x)))"

fun column_finding :: "gate_settings \<Rightarrow> string \<Rightarrow> nat \<Rightarrow> string \<Rightarrow> pyval list list \<Rightarrow> py_error + gate_finding option" where
  "column_finding cfg kind i col [] = Inr None"
| "column_finding cfg kind i col (row # rws) =
     (if i \<ge> length row then column_finding cfg kind i col rws
      else bind_ok (cell_finding cfg kind col (row ! i)) (\<lambda>f.
        case f of Some x \<Rightarrow> Inr (Some x) | None \<Rightarrow> column_finding cfg kind i col rws))"

definition ranged_kinds :: "string list" where
  "ranged_kinds = [''percent'', ''rate'', ''count'', ''date'']"

definition check_column ::
  "gate_settings \<Rightarrow> string \<Rightarrow> pyval list list \<Rightarrow> nat \<Rightarrow> string \<Rightarrow> gate_outcome \<Rightarrow> py_error + gate_outcome" where
  "check_column cfg kind scan_rows i col out =
     (case first_non_finite i scan_rows of
        Some v \<Rightarrow> Inr (report cfg (Hard (NonFinite col v) (GuardDivisor col)) out)
      | None \<Rightarrow>
          if kind \<notin> set ranged_kinds then Inr out
          else bind_ok (column_finding cfg kind i col scan_rows) (\<lambda>f.
            Inr (case f of None \<Rightarrow> out | Some x \<Rightarrow> report cfg x out)))"

definition scanned :: "gate_settings \<Rightarrow> 'v list list \<Rightarrow> 'v list list" where
  "scanned cfg rws = (if value_range_sample cfg \<le> 0 then rws else take (nat (value_range_sample cfg)) rws)"

definition check_value_ranges :: "gate_settings \<Rightarrow> pyval query_result \<Rightarrow> gate_outcome \<Rightarrow> py_error + gate_outcome" where
  "check_value_ranges cfg qr out =
     (if rows qr = [] then Inr out
      else
        (let kinds = classify_columns cfg qr in
         fold_ok (\<lambda>(i, col). check_column cfg (kind_of kinds col) (scanned cfg (rows qr)) i col)
           (enumerate 0 (columns qr)) out))"

definition check_gate :: "gate_settings \<Rightarrow> plan_stage \<Rightarrow> stage_result \<Rightarrow> stage_context \<Rightarrow> py_error + gate_outcome" where
  "check_gate cfg s r ctx =
     (if status r = ''error'' then Inr open_gate
      else case query_result r of
        None \<Rightarrow> Inr open_gate
      | Some qr \<Rightarrow>
          if rows qr = [] then Inr open_gate
          else bind_ok (check_value_ranges cfg qr
                 (check_duplicates cfg qr (check_type_consistency cfg qr (check_nulls cfg qr open_gate))))
               (\<lambda>out. Inr (check_cross_stage cfg s qr ctx (check_truncation cfg qr out))))"

definition check_query_result :: "gate_settings \<Rightarrow> pyval query_result \<Rightarrow> py_error + gate_outcome" where
  "check_query_result cfg qr = (if rows qr = [] then Inr open_gate else check_value_ranges cfg qr open_gate)"

section \<open>What decides\<close>

text \<open>A cell that no column of its kind can hold, whatever the data.\<close>

definition impossible_cell :: "gate_settings \<Rightarrow> string \<Rightarrow> pyval \<Rightarrow> bool" where
  "impossible_cell cfg kind v \<longleftrightarrow> non_finite v \<or> v \<noteq> PNone \<and>
     (if kind = ''date'' then date_finding cfg [] v \<noteq> None
      else case cell_number kind v of
        Inr (Some x) \<Rightarrow>
          kind = ''percent'' \<and> (less_than x (pct_min cfg) \<or> more_than x (pct_bounded_max cfg)) \<or>
          kind = ''count'' \<and> less_than x 0
      | _ \<Rightarrow> False)"

definition impossible_column :: "gate_settings \<Rightarrow> pyval query_result \<Rightarrow> nat \<Rightarrow> bool" where
  "impossible_column cfg qr i \<longleftrightarrow> (\<exists>row \<in> set (scanned cfg (rows qr)). i < length row \<and>
     impossible_cell cfg (kind_of (classify_columns cfg qr) (columns qr ! i)) (row ! i))"

lemma fold_keeps: "(\<And>x out. x \<in> set xs \<Longrightarrow> p (f x out) = p out) \<Longrightarrow> p (fold f xs out) = p out"
  by (induction xs arbitrary: out) simp_all

lemma gate_warn_passed [simp]: "g_passed (gate_warn m h out) = g_passed out"
  and gate_fail_passed [simp]: "\<not> g_passed (gate_fail m h out)"
  by (simp_all add: gate_warn_def gate_fail_def)

lemma check_against_passed [simp]: "g_passed (check_against cfg s qr ctx d out) = g_passed out"
  by (simp add: check_against_def split: option.split)

lemma advisory_passed:
  "g_passed (check_nulls cfg qr out) = g_passed out"
  "g_passed (check_type_consistency cfg qr out) = g_passed out"
  "g_passed (check_duplicates cfg qr out) = g_passed out"
  "g_passed (check_truncation cfg qr out) = g_passed out"
  "g_passed (check_cross_stage cfg s qr ctx out) = g_passed out"
  by (simp_all add: check_nulls_def check_type_consistency_def check_duplicates_def check_truncation_def
      check_cross_stage_def over_columns_def Let_def fold_keeps split_beta)

lemma first_non_finite_None:
  "first_non_finite i rws = None \<longleftrightarrow> (\<forall>row \<in> set rws. i < length row \<longrightarrow> \<not> non_finite (row ! i))"
  by (induction rws) auto

lemma report_passed: "g_passed (report cfg f out) \<longleftrightarrow> g_passed out \<and> (hard_checks cfg \<longrightarrow> (\<exists>m. f = Soft m))"
  by (cases f) (auto simp: report_def)

lemma date_finding_Hard: "date_finding cfg col v = Some f \<Longrightarrow> \<exists>m h. f = Hard m h"
  by (auto simp: date_finding_def Let_def split: pyval.splits option.splits fnum.splits if_splits)

lemma date_finding_None: "date_finding cfg col v = None \<longleftrightarrow> date_finding cfg [] v = None"
  by (auto simp: date_finding_def Let_def split: pyval.splits option.splits fnum.splits if_splits)

text \<open>A finding on a cell is hard exactly when the cell is impossible.\<close>

lemma cell_finding_hard:
  assumes "cell_finding cfg kind col v = Inr f" "kind \<in> set ranged_kinds" "\<not> non_finite v"
  shows "impossible_cell cfg kind v \<longleftrightarrow> (\<exists>m h. f = Some (Hard m h))"
    and "f \<noteq> None \<Longrightarrow> kind \<noteq> ''rate'' \<Longrightarrow> \<exists>m h. f = Some (Hard m h)"
    and "kind = ''rate'' \<Longrightarrow> \<not> impossible_cell cfg kind v"
proof -
  have date: "f = date_finding cfg col v" if "kind = ''date''" "v \<noteq> PNone"
    using assms(1) that by (auto simp: cell_finding_def bind_ok_Inr)
  have num: "\<exists>x. cell_number kind v = Inr x \<and> f = (case x of None \<Rightarrow> None | Some y \<Rightarrow> number_finding cfg kind col v y)"
    if "kind \<noteq> ''date''" "v \<noteq> PNone"
    using assms(1) that by (auto simp: cell_finding_def bind_ok_Inr)
  have none: "f = None" if "v = PNone" using assms(1) that by (simp add: cell_finding_def)
  show "impossible_cell cfg kind v \<longleftrightarrow> (\<exists>m h. f = Some (Hard m h))"
  proof (cases "v = PNone")
    case True
    then show ?thesis using none assms(3) by (simp add: impossible_cell_def)
  next
    case False
    show ?thesis
    proof (cases "kind = ''date''")
      case True
      have "date_finding cfg [] v \<noteq> None \<longleftrightarrow> (\<exists>m h. f = Some (Hard m h))"
        using date [OF True False] date_finding_None [of cfg col v] date_finding_Hard [of cfg col v] by auto
      then show ?thesis using True False assms(3) by (simp add: impossible_cell_def)
    next
      case date': False
      from num [OF this False] obtain x where x: "cell_number kind v = Inr x"
        "f = (case x of None \<Rightarrow> None | Some y \<Rightarrow> number_finding cfg kind col v y)" by blast
      show ?thesis
        using x date' False assms(2,3) by (cases x) (auto simp: impossible_cell_def number_finding_def ranged_kinds_def)
    qed
  qed
  show "f \<noteq> None \<Longrightarrow> kind \<noteq> ''rate'' \<Longrightarrow> \<exists>m h. f = Some (Hard m h)"
  proof -
    assume f: "f \<noteq> None" "kind \<noteq> ''rate''"
    then have v: "v \<noteq> PNone" using none by blast
    show "\<exists>m h. f = Some (Hard m h)"
    proof (cases "kind = ''date''")
      case True
      with date v f obtain g where "date_finding cfg col v = Some g" "f = Some g" by auto
      then show ?thesis using date_finding_Hard by blast
    next
      case False
      with num v f obtain y where "f = number_finding cfg kind col v y" by (force split: option.splits)
      with f show ?thesis by (simp add: number_finding_def split: if_splits)
    qed
  qed
  show "kind = ''rate'' \<Longrightarrow> \<not> impossible_cell cfg kind v"
    using assms(3) by (auto simp: impossible_cell_def split: sum.split option.split)
qed

lemma column_finding_hard:
  "column_finding cfg kind i col rws = Inr f \<Longrightarrow> kind \<in> set ranged_kinds \<Longrightarrow>
   \<forall>row \<in> set rws. i < length row \<longrightarrow> \<not> non_finite (row ! i) \<Longrightarrow>
   (\<exists>m h. f = Some (Hard m h)) \<longleftrightarrow> (\<exists>row \<in> set rws. i < length row \<and> impossible_cell cfg kind (row ! i))"
proof (induction rws)
  case (Cons row rws)
  show ?case
  proof (cases "i < length row")
    case False
    with Cons show ?thesis by simp
  next
    case True
    with Cons.prems(1) obtain g where g: "cell_finding cfg kind col (row ! i) = Inr g"
      and f: "(case g of Some x \<Rightarrow> Inr (Some x) | None \<Rightarrow> column_finding cfg kind i col rws) = Inr f"
      by (auto simp: bind_ok_Inr)
    have fin: "\<not> non_finite (row ! i)" using Cons.prems(3) True by simp
    note hard = cell_finding_hard [OF g Cons.prems(2) fin]
    show ?thesis
    proof (cases g)
      case None
      with f have "column_finding cfg kind i col rws = Inr f" by simp
      with Cons have "(\<exists>m h. f = Some (Hard m h)) \<longleftrightarrow> (\<exists>row \<in> set rws. i < length row \<and> impossible_cell cfg kind (row ! i))"
        by simp
      moreover have "\<not> impossible_cell cfg kind (row ! i)" using hard(1) None by simp
      ultimately show ?thesis by simp
    next
      case (Some x)
      with f have fx: "f = Some x" by simp
      show ?thesis
      proof (cases "kind = ''rate''")
        case rate: True
        have none: "\<not> impossible_cell cfg kind (q ! i)" if "q \<in> set (row # rws)" "i < length q" for q
          using Cons.prems(3) that rate by (auto simp: impossible_cell_def split: sum.split option.split)
        moreover have "\<not> (\<exists>m h. f = Some (Hard m h))"
          using hard(1) none [of row] True Some fx by simp
        ultimately show ?thesis by blast
      next
        case False
        with hard(2) Some fx have "\<exists>m h. f = Some (Hard m h)" by simp
        moreover from this have "impossible_cell cfg kind (row ! i)" using hard(1) Some fx by simp
        ultimately show ?thesis using True by auto
      qed
    qed
  qed
qed simp

lemma impossible_other: "kind \<notin> set ranged_kinds \<Longrightarrow> impossible_cell cfg kind v \<Longrightarrow> non_finite v"
  by (auto simp: impossible_cell_def ranged_kinds_def split: sum.splits option.splits)

lemma check_column_passed:
  assumes "check_column cfg kind rws i col out = Inr out'"
  shows "g_passed out' \<longleftrightarrow> g_passed out \<and>
    (hard_checks cfg \<longrightarrow> \<not> (\<exists>row \<in> set rws. i < length row \<and> impossible_cell cfg kind (row ! i)))"
proof (cases "first_non_finite i rws")
  case (Some v)
  then have "\<not> (\<forall>row \<in> set rws. i < length row \<longrightarrow> \<not> non_finite (row ! i))"
    using first_non_finite_None [of i rws] by simp
  then have "\<exists>row \<in> set rws. i < length row \<and> impossible_cell cfg kind (row ! i)"
    by (auto simp: impossible_cell_def)
  then show ?thesis using assms Some by (auto simp: check_column_def report_passed)
next
  case None
  then have fin: "\<forall>row \<in> set rws. i < length row \<longrightarrow> \<not> non_finite (row ! i)" by (simp add: first_non_finite_None)
  show ?thesis
  proof (cases "kind \<in> set ranged_kinds")
    case False
    then have "\<not> (\<exists>row \<in> set rws. i < length row \<and> impossible_cell cfg kind (row ! i))"
      using fin impossible_other by blast
    with assms None False show ?thesis by (simp add: check_column_def)
  next
    case True
    with assms None obtain f where f: "column_finding cfg kind i col rws = Inr f"
      and out: "out' = (case f of None \<Rightarrow> out | Some x \<Rightarrow> report cfg x out)"
      by (auto simp: check_column_def bind_ok_Inr)
    from column_finding_hard [OF f True fin] out show ?thesis
      by (cases f) (auto simp: report_passed, metis gate_finding.exhaust)
  qed
qed

lemma fold_columns_passed:
  "fold_ok (\<lambda>(i, col). check_column cfg (kind_of kinds col) rws i col) xs out = Inr out' \<Longrightarrow>
   g_passed out' \<longleftrightarrow> g_passed out \<and> (hard_checks cfg \<longrightarrow> \<not> (\<exists>x \<in> set xs. \<exists>row \<in> set rws. fst x < length row \<and>
     impossible_cell cfg (kind_of kinds (snd x)) (row ! fst x)))"
proof (induction xs arbitrary: out)
  case (Cons x xs)
  obtain i col where x: "x = (i, col)" by fastforce
  from Cons.prems x obtain o1 where o1: "check_column cfg (kind_of kinds col) rws i col out = Inr o1"
    and rest: "fold_ok (\<lambda>(i, col). check_column cfg (kind_of kinds col) rws i col) xs o1 = Inr out'"
    by (auto simp: bind_ok_Inr)
  from check_column_passed [OF o1] Cons.IH [OF rest] show ?case unfolding x by auto
qed simp

lemma ex_enumerate: "(\<exists>x \<in> set (enumerate 0 xs). P (fst x) (snd x)) \<longleftrightarrow> (\<exists>i < length xs. P i (xs ! i))"
proof
  assume "\<exists>x \<in> set (enumerate 0 xs). P (fst x) (snd x)"
  then obtain x where "x \<in> set (enumerate 0 xs)" "P (fst x) (snd x)" by blast
  then show "\<exists>i < length xs. P i (xs ! i)" by (auto simp: in_set_enumerate_eq)
next
  assume "\<exists>i < length xs. P i (xs ! i)"
  then obtain i where "i < length xs" "P i (xs ! i)" by blast
  then show "\<exists>x \<in> set (enumerate 0 xs). P (fst x) (snd x)"
    by (intro bexI [of _ "(i, xs ! i)"]) (simp_all add: in_set_enumerate_eq)
qed

lemma gate_passed:
  assumes "check_gate cfg s r ctx = Inr out" "query_result r = Some qr" "status r \<noteq> ''error''"
  shows "g_passed out \<longleftrightarrow>
    (hard_checks cfg \<longrightarrow> (\<forall>i < length (columns qr). \<not> impossible_column cfg qr i))"
proof (cases "rows qr = []")
  case True
  with assms show ?thesis by (auto simp: check_gate_def open_gate_def impossible_column_def scanned_def)
next
  case False
  let ?kinds = "classify_columns cfg qr" and ?rws = "scanned cfg (rows qr)"
  from assms False obtain o1 o2 where
    o2: "fold_ok (\<lambda>(i, col). check_column cfg (kind_of ?kinds col) ?rws i col) (enumerate 0 (columns qr)) o1 = Inr o2"
    and pass: "g_passed o1" "g_passed out = g_passed o2"
    by (auto simp: check_gate_def check_value_ranges_def Let_def bind_ok_Inr advisory_passed open_gate_def)
  have "(\<exists>x \<in> set (enumerate 0 (columns qr)). \<exists>row \<in> set ?rws. fst x < length row \<and>
        impossible_cell cfg (kind_of ?kinds (snd x)) (row ! fst x)) \<longleftrightarrow> (\<exists>i < length (columns qr). impossible_column cfg qr i)"
    unfolding impossible_column_def by (rule ex_enumerate)
  with fold_columns_passed [OF o2] pass show ?thesis by auto
qed


definition sample_count_result :: "pyval \<Rightarrow> stage_result" where
  "sample_count_result v = (new_result ''a'' ''success'')
     \<lparr>query_result := Some (empty_result\<lparr>columns := [''order_count''], rows := [[v]], row_count := 1\<rparr>)\<rparr>"

definition sample_gate :: "pyval \<Rightarrow> py_error + gate_outcome" where
  "sample_gate v = check_gate (gate_defaults (\<lambda>_. None)) (sample_stage ''a'' []) (sample_count_result v)
     (new_context sample_plan [])"

lemma sample_kind: "column_kind ''order_count'' = ''count''"
  by code_simp

lemma sample_ranges: "kind_of (classify_columns (gate_defaults f) qr) ''order_count'' = ''count''"
  if "columns qr = [''order_count'']"
  using that by (simp add: classify_columns_def gate_defaults_def kind_of_def sample_kind od_set_def)

lemma to_number_minus_one: "to_number (PInt (- 1)) = Inr (Some (Fin (- 1)))"
  using to_number_int [of "- 1"] by simp

lemma scanned_defaults: "scanned (gate_defaults f) rws = rws"
  by (simp add: scanned_def gate_defaults_def)

lemmas sample_defs = sample_gate_def check_gate_def sample_count_result_def new_result_def check_value_ranges_def
  sample_ranges check_column_def non_finite_def ranged_kinds_def cell_finding_def cell_number_def scanned_defaults Let_def


lemma to_number_error: "to_number v = Inl e \<Longrightarrow> e = OverflowError \<and> (\<exists>i. v = PInt i \<and> \<bar>fl (of_int i)\<bar> \<ge> pow2 1024)"
  by (auto simp: to_number_def split: pyval.splits fnum.splits if_splits)

lemma bind_ok_Inl: "bind_ok x f = Inl e \<longleftrightarrow> x = Inl e \<or> (\<exists>a. x = Inr a \<and> f a = Inl e)"
  by (cases x) simp_all

lemma column_finding_error:
  "column_finding cfg kind i col rws = Inl e \<Longrightarrow>
    e = OverflowError \<and> (\<exists>row \<in> set rws. \<exists>n. i < length row \<and> row ! i = PInt n \<and> \<bar>fl (of_int n)\<bar> \<ge> pow2 1024)"
proof (induction rws)
  case (Cons row rws)
  show ?case
  proof (cases "i < length row \<and> cell_finding cfg kind col (row ! i) = Inl e")
    case True
    then have "to_number (row ! i) = Inl e"
      by (auto simp: cell_finding_def cell_number_def bind_ok_Inl split: if_splits)
    from to_number_error [OF this] True show ?thesis by auto
  next
    case False
    with Cons.prems have "column_finding cfg kind i col rws = Inl e"
      by (auto simp: bind_ok_Inl split: if_splits option.splits)
    with Cons.IH show ?thesis by auto
  qed
qed simp

lemma fold_ok_error: "fold_ok f xs b = Inl e \<Longrightarrow> \<exists>x \<in> set xs. \<exists>c. f x c = Inl e"
  by (induction xs arbitrary: b) (auto simp: bind_ok_Inl)

text \<open>
  The gate raises only one error, an overflow, and only for an integer cell whose
  nearest float is beyond the largest double, in a column of a ranged kind (a count of two to
  the power 1024 makes it raise, so such a result is never judged).
\<close>

theorem gate_overflow_only:
  assumes "check_gate cfg s r ctx = Inl e"
  shows "e = OverflowError \<and>
    (\<exists>qr i row n. query_result r = Some qr \<and> i < length (columns qr) \<and> row \<in> set (scanned cfg (rows qr)) \<and>
      i < length row \<and> row ! i = PInt n \<and> \<bar>fl (of_int n)\<bar> \<ge> pow2 1024 \<and>
      kind_of (classify_columns cfg qr) (columns qr ! i) \<in> set ranged_kinds)"
proof -
  from assms obtain qr o1 where qr: "query_result r = Some qr" and "check_value_ranges cfg qr o1 = Inl e"
    by (auto simp: check_gate_def bind_ok_Inl split: if_splits option.splits)
  then obtain x c where x: "x \<in> set (enumerate 0 (columns qr))"
    and "(case x of (i, col) \<Rightarrow> check_column cfg (kind_of (classify_columns cfg qr) col) (scanned cfg (rows qr)) i col) c = Inl e"
    by (auto simp: check_value_ranges_def Let_def split: if_splits dest: fold_ok_error)
  then obtain i where i: "i < length (columns qr)"
    and err: "check_column cfg (kind_of (classify_columns cfg qr) (columns qr ! i)) (scanned cfg (rows qr)) i (columns qr ! i) c = Inl e"
    by (auto simp: in_set_enumerate_eq split: prod.splits)
  then have k: "kind_of (classify_columns cfg qr) (columns qr ! i) \<in> set ranged_kinds"
    and "column_finding cfg (kind_of (classify_columns cfg qr) (columns qr ! i)) i (columns qr ! i) (scanned cfg (rows qr)) = Inl e"
    by (auto simp: check_column_def bind_ok_Inl split: option.splits if_splits)
  from column_finding_error [OF this(2)] qr i k show ?thesis by blast
qed

lemma sample_gate_overflow:
  assumes "2 ^ 1024 \<le> n"
  shows "sample_gate (PInt n) = Inl OverflowError"
proof -
  have "to_number (PInt n) = Inl OverflowError"
    using fl_overflows [OF assms] by (simp add: to_number_def is_measurement_def)
  then show ?thesis by (simp add: sample_defs)
qed

theorem gate_overflow_only_witness:
  "sample_gate (PInt (2 ^ 1024)) = Inl OverflowError \<and> pow2 1024 \<le> \<bar>fl (of_int (2 ^ 1024))\<bar>"
proof -
  define N :: int where "N = 2 ^ 1024"
  have err: "sample_gate (PInt N) = Inl OverflowError" unfolding N_def by (rule sample_gate_overflow) simp
  from gate_overflow_only [OF this [unfolded sample_gate_def]]
  have "pow2 1024 \<le> \<bar>fl (of_int N)\<bar>"
    by (auto simp: sample_count_result_def new_result_def scanned_def gate_defaults_def)
  with err show ?thesis unfolding N_def by blast
qed

end
