(* ===== verification/ResultValidation.thy ===== *)
theory ResultValidation
  imports DataGate
begin

text \<open>
  \<^verbatim>\<open>backend/app/agents/result_validation.py\<close>, \<^verbatim>\<open>backend/app/agents/validation.py\<close> and
  \<^verbatim>\<open>backend/app/viz/chart_rules.py\<close>: the verdict on one query result that both execution paths
  share, the validators of what sub-agents return, and the rules that correct a chart type.
  The wording of the data gate's messages is a parameter (\<open>show_errors\<close>); a dash of the fixed
  texts is written as a hyphen, texts being code points below 256.
\<close>

section \<open>Charts\<close>

definition valid_viz_types :: "string list" where
  "valid_viz_types = [''table'', ''bar_chart'', ''line_chart'', ''pie_chart'', ''scatter'', ''text'', ''number'']"

datatype chart_warning = InvalidVizType string | TooManySlices int | TooFewColumns string

record chart_outcome =
  adjusted_viz_type :: string
  chart_warnings :: "chart_warning list"
  invalid_type :: bool

definition apply_chart_rules :: "int \<Rightarrow> string \<Rightarrow> int \<Rightarrow> int \<Rightarrow> chart_outcome" where
  "apply_chart_rules max_pie viz n_rows n_columns =
     (if viz \<notin> set valid_viz_types
      then \<lparr>adjusted_viz_type = ''table'', chart_warnings = [InvalidVizType viz], invalid_type = True\<rparr>
      else if viz = ''pie_chart'' \<and> n_rows > max_pie
      then \<lparr>adjusted_viz_type = ''bar_chart'', chart_warnings = [TooManySlices n_rows], invalid_type = False\<rparr>
      else if viz \<in> set [''line_chart'', ''bar_chart'', ''scatter''] \<and> n_columns < 2
      then \<lparr>adjusted_viz_type = ''table'', chart_warnings = [TooFewColumns viz], invalid_type = False\<rparr>
      else \<lparr>adjusted_viz_type = viz, chart_warnings = [], invalid_type = False\<rparr>)"

section \<open>What sub-agents return\<close>

datatype agent_message =
    Stated string
  | NoQuery
  | NoResultsObject
  | ExecutionError string
  | ZeroRows
  | SlowQuery rat
  | Chart chart_warning
  | EmptyAnswer
  | NoReportWindow
  | WindowIncomplete "string list"
  | NoCitations

record validation_outcome =
  vo_passed :: bool
  vo_warnings :: "agent_message list"
  vo_errors :: "agent_message list"
  fallback_viz_type :: "string option"

definition sound :: validation_outcome where
  "sound = \<lparr>vo_passed = True, vo_warnings = [], vo_errors = [], fallback_viz_type = None\<rparr>"

definition refuse :: "agent_message \<Rightarrow> validation_outcome" where
  "refuse m = sound\<lparr>vo_passed := False, vo_errors := [m]\<rparr>"

text \<open>The texts of the messages that \<open>evaluate\<close> repeats.\<close>

definition message_text :: "agent_message \<Rightarrow> string" where
  "message_text m = (case m of
     Stated t \<Rightarrow> t
   | NoQuery \<Rightarrow> ''SQL agent did not produce a query''
   | NoResultsObject \<Rightarrow> ''SQL agent returned no query results object''
   | ExecutionError t \<Rightarrow> ''Query execution error: '' @ t
   | _ \<Rightarrow> [])"

definition validate_sql_result ::
  "string \<Rightarrow> string option \<Rightarrow> string option \<Rightarrow> 'v query_result option \<Rightarrow> validation_outcome" where
  "validate_sql_result stat err q qr_opt =
     (if stat = ''error'' then refuse (Stated (if has_text err then the err else ''SQL agent returned an error''))
      else if \<not> has_text q then refuse NoQuery
      else case qr_opt of
        None \<Rightarrow> refuse NoResultsObject
      | Some qr \<Rightarrow>
          if has_text (error qr) then refuse (ExecutionError (the (error qr)))
          else sound\<lparr>vo_warnings := (if row_count qr = 0 then [ZeroRows] else [])
            @ (if execution_time_ms qr > 30000 then [SlowQuery (execution_time_ms qr)] else [])\<rparr>)"

definition validate_viz_result :: "int \<Rightarrow> string \<Rightarrow> int \<Rightarrow> int \<Rightarrow> validation_outcome" where
  "validate_viz_result max_pie viz n_rows n_columns =
     (let c = apply_chart_rules max_pie viz n_rows n_columns; msgs = map Chart (chart_warnings c) in
      if invalid_type c then sound\<lparr>vo_passed := False, vo_errors := msgs\<rparr>
      else sound\<lparr>vo_warnings := msgs,
        fallback_viz_type := (if adjusted_viz_type c \<noteq> viz then Some (adjusted_viz_type c) else None)\<rparr>)"

definition validate_mcp_result :: "string \<Rightarrow> string option \<Rightarrow> string \<Rightarrow> validation_outcome" where
  "validate_mcp_result stat err answer =
     (if stat = ''error'' \<or> stat = ''no_result''
      then refuse (Stated (if has_text err then the err else ''MCP source agent returned no result''))
      else sound\<lparr>vo_warnings := (if answer = [] then [EmptyAnswer] else [])\<rparr>)"

definition mentions_a_number :: "string \<Rightarrow> bool" where
  "mentions_a_number s \<longleftrightarrow> list_ex is_digit s"

definition validate_analytics_result ::
  "string \<Rightarrow> string option \<Rightarrow> string \<Rightarrow> string \<Rightarrow> string list \<Rightarrow> int \<Rightarrow> validation_outcome" where
  "validate_analytics_result stat err answer raw_answer pending windows_opened =
     (if stat = ''error'' \<or> stat = ''no_result''
      then refuse (Stated (if has_text err then the err else ''Analytics agent returned no result''))
      else
        (let judged = (if raw_answer \<noteq> [] then raw_answer else answer) in
         sound\<lparr>vo_warnings := (if answer = [] then [EmptyAnswer] else [])
           @ (if windows_opened = 0 \<and> mentions_a_number judged then [NoReportWindow] else [])
           @ (if pending \<noteq> [] \<and> mentions_a_number judged then [WindowIncomplete (take 8 pending)] else [])\<rparr>))"

definition validate_knowledge_result :: "string \<Rightarrow> string option \<Rightarrow> string \<Rightarrow> string list \<Rightarrow> validation_outcome" where
  "validate_knowledge_result stat err answer sources =
     (if stat = ''error'' then refuse (Stated (if has_text err then the err else ''Knowledge agent returned an error''))
      else sound\<lparr>vo_warnings := (if answer = [] then [EmptyAnswer] else [])
        @ (if sources = [] then [NoCitations] else [])\<rparr>)"

section \<open>The shared verdict\<close>

datatype action = Accept | Warn | Requery | Block

datatype hint = HintText string | GateHint suggestion

record directive =
  action :: action
  reason :: string
  hints :: "hint list"

definition truncation_note :: "int \<Rightarrow> string" where
  "truncation_note n = ''PARTIAL DATA: query capped at '' @ str_int n @ '' rows - totals are incomplete.''"

definition truncation_hint :: hint where
  "truncation_hint = HintText ''Push aggregation into SQL (GROUP BY / aggregate functions).''"

definition text_or :: "string \<Rightarrow> string \<Rightarrow> string" where
  "text_or s dflt = (if s = [] then dflt else s)"

definition evaluate ::
  "(gate_message list \<Rightarrow> string) \<Rightarrow> gate_settings \<Rightarrow> bool \<Rightarrow> pyval query_result \<Rightarrow> string \<Rightarrow> bool \<Rightarrow> bool
    \<Rightarrow> py_error + directive" where
  "evaluate show_errors cfg empty_retry qr sql trunc skip_data_gate =
     (if has_text (error qr)
      then Inr \<lparr>action = Block, reason = the (error qr),
        hints = [HintText ''Check the SQL syntax and the connection's schema.'']\<rparr>
      else
        (let out = validate_sql_result [] None (Some sql) (Some qr) in
         if \<not> vo_passed out
         then Inr \<lparr>action = Requery,
           reason = text_or (join_with ''; '' (map message_text (vo_errors out))) ''the result failed validation'',
           hints = map (\<lambda>m. HintText (message_text m)) (vo_errors out)\<rparr>
         else if empty_retry \<and> row_count qr = 0
         then Inr \<lparr>action = Requery, reason = ''query returned 0 rows'',
           hints = [HintText ''Verify table/column names and filter values against the schema.'']\<rparr>
         else
           (let is_truncated = (truncated qr \<or> trunc); note = truncation_note (row_count qr) in
            bind_ok (if skip_data_gate then Inr open_gate else check_query_result cfg qr) (\<lambda>dg. Inr
              (if \<not> g_passed dg
               then \<lparr>action = Block,
                 reason = text_or (show_errors (g_errors dg)) ''impossible data value detected''
                   @ (if is_truncated then '' - and '' @ note else []),
                 hints = map GateHint (suggestions dg) @ (if is_truncated then [truncation_hint] else [])\<rparr>
               else if is_truncated
               then \<lparr>action = Warn, reason = note, hints = [truncation_hint]\<rparr>
               else \<lparr>action = Accept, reason = ''ok'', hints = []\<rparr>)))))"

text \<open>The verdict of the answer validator (a language model call) as a directive.\<close>

record answer_verdict =
  addresses_question :: bool
  is_partial :: bool
  verdict_reason :: string

definition answer_directive :: "answer_verdict \<Rightarrow> directive" where
  "answer_directive v =
     (if addresses_question v then \<lparr>action = Accept, reason = text_or (verdict_reason v) ''ok'', hints = []\<rparr>
      else \<lparr>action = (if is_partial v then Requery else Warn),
        reason = text_or (verdict_reason v) ''answer does not address the question'', hints = []\<rparr>)"

section \<open>Properties\<close>

lemma evaluate_skip: "\<exists>d. evaluate show_errors cfg er qr sql trunc True = Inr d"
  by (simp add: evaluate_def Let_def)

lemma text_or_not_empty: "dflt \<noteq> [] \<Longrightarrow> text_or s dflt \<noteq> []"
  by (simp add: text_or_def)

lemma query_result_passed:
  assumes "check_query_result cfg qr = Inr dg"
  shows "g_passed dg \<longleftrightarrow> (hard_checks cfg \<longrightarrow> (\<forall>i < length (columns qr). \<not> impossible_column cfg qr i))"
proof (cases "rows qr = []")
  case True
  with assms show ?thesis by (auto simp: check_query_result_def open_gate_def impossible_column_def scanned_def)
next
  case False
  let ?kinds = "classify_columns cfg qr" and ?rws = "scanned cfg (rows qr)"
  from assms False have
    o2: "fold_ok (\<lambda>(i, col). check_column cfg (kind_of ?kinds col) ?rws i col) (enumerate 0 (columns qr)) open_gate = Inr dg"
    by (simp add: check_query_result_def check_value_ranges_def Let_def)
  have "(\<exists>x \<in> set (enumerate 0 (columns qr)). \<exists>row \<in> set ?rws. fst x < length row \<and>
        impossible_cell cfg (kind_of ?kinds (snd x)) (row ! fst x)) \<longleftrightarrow> (\<exists>i < length (columns qr). impossible_column cfg qr i)"
    unfolding impossible_column_def by (rule ex_enumerate)
  with fold_columns_passed [OF o2] show ?thesis by (auto simp: open_gate_def)
qed

text \<open>
  The shared verdict is decided by the result alone, in this order: a database error
  blocks, a missing statement asks for a new query, an empty result asks for one when the
  retry flag is on, an impossible value blocks even when the result is truncated, a truncated
  result is passed on with a warning, and only a complete, possible result is accepted.
\<close>

theorem verdict_decided:
  assumes "evaluate show_errors cfg empty_retry qr sql trunc skip = Inr d"
  shows "action d =
    (if has_text (error qr) then Block
     else if sql = [] \<or> empty_retry \<and> row_count qr = 0 then Requery
     else if \<not> skip \<and> hard_checks cfg \<and> (\<exists>i < length (columns qr). impossible_column cfg qr i) then Block
     else if truncated qr \<or> trunc then Warn else Accept)"
proof (cases "has_text (error qr) \<or> sql = [] \<or> empty_retry \<and> row_count qr = 0")
  case True
  with assms show ?thesis
    by (auto simp: evaluate_def validate_sql_result_def refuse_def sound_def Let_def has_text_def split: if_splits)
next
  case False
  with assms obtain dg where dg: "(if skip then Inr open_gate else check_query_result cfg qr) = Inr dg"
    and d: "action d = (if \<not> g_passed dg then Block else if truncated qr \<or> trunc then Warn else Accept)"
    by (auto simp: evaluate_def validate_sql_result_def sound_def Let_def has_text_def bind_ok_Inr)
  show ?thesis
  proof (cases skip)
    case True
    with dg d False show ?thesis by (auto simp: open_gate_def)
  next
    case skip: False
    with dg have "check_query_result cfg qr = Inr dg" by simp
    from query_result_passed [OF this] d False skip show ?thesis by auto
  qed
qed

definition sample_capped :: "pyval query_result" where
  "sample_capped = empty_result\<lparr>columns := [''order_count''], rows := [[PInt (- 1)]], row_count := 1, truncated := True\<rparr>"

theorem verdict_decided_witness:
  "\<exists>d. evaluate (\<lambda>_. []) (gate_defaults (\<lambda>_. None)) True sample_capped ''SELECT 1'' False False = Inr d \<and> action d = Block"
proof -
  obtain d where d: "evaluate (\<lambda>_. []) (gate_defaults (\<lambda>_. None)) True sample_capped ''SELECT 1'' False False = Inr d"
    by (simp add: evaluate_def validate_sql_result_def sound_def has_text_def check_query_result_def sample_capped_def
        sample_defs empty_result_def to_number_minus_one number_finding_def less_than_def)
  have "impossible_column (gate_defaults (\<lambda>_. None)) sample_capped 0"
    by (simp add: impossible_column_def sample_capped_def sample_defs impossible_cell_def to_number_minus_one less_than_def)
  with verdict_decided [OF d] have "action d = Block"
    by (auto simp: sample_capped_def empty_result_def has_text_def gate_defaults_def)
  with d show ?thesis by blast
qed

text \<open>
  The chart rules always answer a chart the client knows, and with two columns or more
  one that can be drawn, so that applying them again changes nothing. With fewer columns they
  do not settle: a pie chart with too many slices becomes a bar chart, which the same rules
  refuse for a single column.
\<close>

lemma chart_rules_settle:
  "adjusted_viz_type (apply_chart_rules max_pie viz n m) \<in> set valid_viz_types \<and>
   (m \<ge> 2 \<longrightarrow> apply_chart_rules max_pie (adjusted_viz_type (apply_chart_rules max_pie viz n m)) n m =
      \<lparr>adjusted_viz_type = adjusted_viz_type (apply_chart_rules max_pie viz n m), chart_warnings = [], invalid_type = False\<rparr>) \<and>
   (n > max_pie \<and> m < 2 \<longrightarrow> adjusted_viz_type (apply_chart_rules max_pie ''pie_chart'' n m) = ''bar_chart'' \<and>
      adjusted_viz_type (apply_chart_rules max_pie ''bar_chart'' n m) = ''table'')"
  by (auto simp: apply_chart_rules_def valid_viz_types_def)

text \<open>
  A numeric analytics answer never passes unmarked without a measurement behind it: when
  the text judged states a figure and either no report window was read or a period of the
  window is missing, the outcome carries a warning, and a failed or exhausted agent is refused.
\<close>

lemma analytics_figures_marked:
  "(stat = ''error'' \<or> stat = ''no_result'' \<longrightarrow>
      \<not> vo_passed (validate_analytics_result stat err answer raw pending windows)) \<and>
   (stat \<noteq> ''error'' \<and> stat \<noteq> ''no_result'' \<and> mentions_a_number (if raw \<noteq> [] then raw else answer) \<and>
      (windows = 0 \<or> pending \<noteq> []) \<longrightarrow>
      NoReportWindow \<in> set (vo_warnings (validate_analytics_result stat err answer raw pending windows)) \<or>
      WindowIncomplete (take 8 pending) \<in> set (vo_warnings (validate_analytics_result stat err answer raw pending windows)))"
  by (auto simp: validate_analytics_result_def refuse_def sound_def Let_def)

end
