(* ===== verification/Reconciliation.thy ===== *)
theory Reconciliation
  imports DataGate "HOL-Library.Multiset"
begin

text \<open>
  \<^verbatim>\<open>backend/app/agents/sql_result_reconciliation.py\<close>: which results of one turn sum to the same
  grand total, and the removal of a wrong self-correction. Sums are sums of doubles, in the
  order of the rows, none of which overflows; the text of a value that is neither a number nor a text (a date, a list)
  is no numeral. A note is the numbers of its queries, the total and the column.
\<close>

definition numeric_hints :: "string list" where
  "numeric_hints = [''revenue'', ''amount'', ''total'', ''gross'', ''net'', ''usd'', ''sum'', ''value'', ''refund'']"

definition false_correction_markers :: "string list" where
  "false_correction_markers = [''first gross query'', ''first query missed'', ''lower totals'', ''reported lower'',
     ''didn't capture'', ''did not capture'', ''patterns didn't'', ''patterns did not'', ''missed some product'']"

record snapshot =
  query_index :: nat
  snap_rows :: int
  grand_total :: rat
  column_name :: string

section \<open>Numbers\<close>

text \<open>A text that \<^verbatim>\<open>Decimal\<close> reads as a finite number: its exact value.\<close>

definition decimal_pattern :: rx where
  "decimal_pattern = seqs
     [Grp 1 sign_part,
      Alt (seqs [Grp 2 (plus (Cls is_digit)), opt_rx (Seq (chr (CHR ''.'')) (Grp 3 (Star (Cls is_digit))))])
        (seqs [chr (CHR ''.''), Grp 3 (plus (Cls is_digit))]),
      opt_rx (seqs [Alt (chr (CHR ''e'')) (chr (CHR ''E'')), Grp 4 sign_part, Grp 5 (plus (Cls is_digit))]), AtEnd]"

definition decimal_value :: "string \<Rightarrow> rat option" where
  "decimal_value txt =
     (let s = filter (\<lambda>c. c \<noteq> CHR ''_'') (py_strip txt) in
      case match_at_start decimal_pattern s of
        None \<Rightarrow> None
      | Some (w, g) \<Rightarrow>
          if w \<noteq> s then None
          else
            (let m = of_nat (digits_of (group_of 2 g @ group_of 3 g)) / 10 ^ length (group_of 3 g);
                 ex = digits_of (group_of 5 g);
                 scaled = (if group_of 4 g = ''-'' then m / 10 ^ ex else m * 10 ^ ex)
             in Some (if group_of 1 g = ''-'' then - scaled else scaled)))"

definition finite_float :: "rat \<Rightarrow> rat option" where
  "finite_float r = (if \<bar>fl r\<bar> \<ge> pow2 1024 then None else Some (fl r))"

definition parse_number :: "pyval \<Rightarrow> py_error + rat option" where
  "parse_number v = (case v of
     PInt i \<Rightarrow> (case finite_float (of_int i) of None \<Rightarrow> Inl OverflowError | Some x \<Rightarrow> Inr (Some x))
   | PFloat (Fin r) \<Rightarrow> Inr (Some r)
   | PDecimal (Fin r) \<Rightarrow> Inr (finite_float r)
   | PStr s \<Rightarrow>
       (let txt = filter (\<lambda>c. c \<noteq> CHR '','') (py_strip s) in
        Inr (if txt = [] then None else case decimal_value txt of None \<Rightarrow> None | Some r \<Rightarrow> finite_float r))
   | _ \<Rightarrow> Inr None)"

definition column_numbers :: "pyval list list \<Rightarrow> nat \<Rightarrow> py_error + rat option list" where
  "column_numbers rws i = map_ok (\<lambda>row. parse_number (if i < length row then row ! i else PNone)) rws"

section \<open>Totals\<close>

fun numeric_columns :: "pyval list list \<Rightarrow> (nat \<times> string) list \<Rightarrow> py_error + string list" where
  "numeric_columns rws [] = Inr []"
| "numeric_columns rws ((i, col) # cols) =
     bind_ok (column_numbers rws i) (\<lambda>vs.
     bind_ok (numeric_columns rws cols) (\<lambda>rest.
     Inr (if vs \<noteq> [] \<and> None \<notin> set vs then col # rest else rest)))"

definition only_one :: "'a list \<Rightarrow> 'a option" where
  "only_one xs = (case xs of [x] \<Rightarrow> Some x | _ \<Rightarrow> None)"

definition pick_total_column :: "string list \<Rightarrow> pyval list list \<Rightarrow> py_error + string option" where
  "pick_total_column cols rws =
     (if cols = [] \<or> rws = [] then Inr None
      else bind_ok (numeric_columns rws (enumerate 0 cols)) (\<lambda>numeric.
        Inr (case only_one numeric of Some col \<Rightarrow> Some col
        | None \<Rightarrow> only_one (filter (\<lambda>col. list_ex (\<lambda>h. contains_text h (py_lower col)) numeric_hints) numeric))))"

fun index_of :: "'a \<Rightarrow> 'a list \<Rightarrow> nat" where
  "index_of x [] = 0"
| "index_of x (y # ys) = (if x = y then 0 else Suc (index_of x ys))"

text \<open>The running sum; a cell that is no number gives up.\<close>

fun sum_numbers :: "rat \<Rightarrow> rat option list \<Rightarrow> rat option" where
  "sum_numbers t [] = Some t"
| "sum_numbers t (None # vs) = None"
| "sum_numbers t (Some v # vs) = sum_numbers (fl (t + v)) vs"

definition round_cents :: "rat \<Rightarrow> rat" where
  "round_cents x = fl (of_int (round_even (x * 100)) / 100)"

definition snapshot_of :: "nat \<Rightarrow> pyval query_result option \<Rightarrow> py_error + snapshot option" where
  "snapshot_of k r =
     (case r of
        None \<Rightarrow> Inr None
      | Some qr \<Rightarrow>
          if rows qr = [] then Inr None
          else bind_ok (pick_total_column (columns qr) (rows qr)) (\<lambda>c.
            case c of
              None \<Rightarrow> Inr None
            | Some col \<Rightarrow>
                if col = [] then Inr None
                else bind_ok (column_numbers (rows qr) (index_of col (columns qr))) (\<lambda>vs.
                  Inr (map_option (\<lambda>t. \<lparr>query_index = k, snap_rows = row_count qr, grand_total = round_cents t,
                    column_name = col\<rparr>) (sum_numbers 0 vs)))))"

fun collect_snapshots :: "nat \<Rightarrow> pyval query_result option list \<Rightarrow> py_error + snapshot list" where
  "collect_snapshots k [] = Inr []"
| "collect_snapshots k (r # rs) =
     bind_ok (snapshot_of k r) (\<lambda>s.
     bind_ok (collect_snapshots (Suc k) rs) (\<lambda>rest.
     Inr (case s of None \<Rightarrow> rest | Some x \<Rightarrow> x # rest)))"

section \<open>Groups\<close>

definition reconcile_tol :: rat where
  "reconcile_tol = fl (1 / 1000000)"

text \<open>\<^verbatim>\<open>math.isclose\<close>.\<close>

definition totals_match :: "rat \<Rightarrow> rat \<Rightarrow> bool" where
  "totals_match a b \<longleftrightarrow> a = b \<or> \<bar>fl (b - a)\<bar> \<le> \<bar>fl (reconcile_tol * b)\<bar> \<or>
     \<bar>fl (b - a)\<bar> \<le> \<bar>fl (reconcile_tol * a)\<bar> \<or> \<bar>fl (b - a)\<bar> \<le> reconcile_tol"

fun add_to_group :: "snapshot \<Rightarrow> snapshot list list \<Rightarrow> snapshot list list" where
  "add_to_group s [] = [[s]]"
| "add_to_group s (g # gs) =
     (if g \<noteq> [] \<and> totals_match (grand_total (hd g)) (grand_total s) then (g @ [s]) # gs else g # add_to_group s gs)"

definition group_snapshots :: "snapshot list \<Rightarrow> snapshot list list" where
  "group_snapshots ss = fold add_to_group ss []"

definition sql_results_reconcile :: "pyval query_result option list \<Rightarrow> py_error + bool" where
  "sql_results_reconcile rs = bind_ok (collect_snapshots 1 rs) (\<lambda>ss. Inr
     (if length ss < 2 then False else list_ex (\<lambda>g. length g \<ge> 2) (group_snapshots ss)))"

record reconciliation_note =
  note_queries :: "nat list"
  note_total :: rat
  note_column :: string

definition build_reconciliation_note :: "pyval query_result option list \<Rightarrow> py_error + reconciliation_note option" where
  "build_reconciliation_note rs = bind_ok (collect_snapshots 1 rs) (\<lambda>ss. Inr
     (if length ss < 2 then None
      else case filter (\<lambda>g. length g \<ge> 2) (group_snapshots ss) of
        [] \<Rightarrow> None
      | g # _ \<Rightarrow> Some \<lparr>note_queries = map query_index g, note_total = grand_total (hd g),
          note_column = column_name (hd g)\<rparr>))"

section \<open>Scrubbing a false self-correction\<close>

definition marks_correction :: "string \<Rightarrow> bool" where
  "marks_correction s \<longleftrightarrow> list_ex (\<lambda>m. contains_text m s) false_correction_markers"

fun paragraphs_aux :: "string \<Rightarrow> string \<Rightarrow> string list" where
  "paragraphs_aux w (a # b # s) =
     (if a = CHR 0x0A \<and> b = CHR 0x0A then rev w # paragraphs_aux [] s else paragraphs_aux (a # w) (b # s))"
| "paragraphs_aux w s = [rev w @ s]"

fun drop_corrections :: "string list \<Rightarrow> string list" where
  "drop_corrections [] = []"
| "drop_corrections (p # ps) =
     (if marks_correction (py_lower p) \<or> prefix ''let me classify properly'' (py_strip (py_lower p))
      then drop_corrections ps else p # ps)"

definition scrub_false_self_correction :: "string \<Rightarrow> bool \<Rightarrow> string" where
  "scrub_false_self_correction txt reconciled =
     (if \<not> reconciled \<or> py_strip txt = [] then txt
      else if \<not> marks_correction (py_lower txt) then txt
      else
        (let kept = drop_corrections (paragraphs_aux [] txt) in
         if kept = [] then txt else py_strip (join_with [CHR 0x0A, CHR 0x0A] kept)))"

section \<open>Properties\<close>

lemma add_to_group_inv:
  "\<forall>g \<in> set gs. g \<noteq> [] \<and> (\<forall>x \<in> set (tl g). totals_match (grand_total (hd g)) (grand_total x)) \<Longrightarrow>
   \<forall>g \<in> set (add_to_group s gs). g \<noteq> [] \<and> (\<forall>x \<in> set (tl g). totals_match (grand_total (hd g)) (grand_total x))"
  by (induction gs) (auto simp: tl_append split: list.split)

lemma add_to_group_mset: "mset (concat (add_to_group s gs)) = add_mset s (mset (concat gs))"
  by (induction gs) auto

lemma group_snapshots_mset: "mset (concat (group_snapshots ss)) = mset ss"
proof -
  have "mset (concat (fold add_to_group ss gs)) = mset ss + mset (concat gs)" for gs :: "snapshot list list"
    by (induction ss arbitrary: gs) (simp_all add: add_to_group_mset)
  then show ?thesis by (simp add: group_snapshots_def)
qed

lemma group_snapshots_inv:
  "g \<in> set (group_snapshots ss) \<Longrightarrow> g \<noteq> [] \<and> (\<forall>x \<in> set (tl g). totals_match (grand_total (hd g)) (grand_total x))"
proof -
  have "\<forall>g \<in> set gs. g \<noteq> [] \<and> (\<forall>x \<in> set (tl g). totals_match (grand_total (hd g)) (grand_total x)) \<Longrightarrow>
    \<forall>g \<in> set (fold add_to_group ss gs). g \<noteq> [] \<and> (\<forall>x \<in> set (tl g). totals_match (grand_total (hd g)) (grand_total x))" for gs
  proof (induction ss arbitrary: gs)
    case (Cons s ss)
    from Cons.IH [OF add_to_group_inv [OF Cons.prems]] show ?case by simp
  qed simp
  from this [of "[]"] show "g \<in> set (group_snapshots ss) \<Longrightarrow> ?thesis" by (simp add: group_snapshots_def)
qed

lemma reconcile_note: "sql_results_reconcile rs = Inr b \<longleftrightarrow> (\<exists>n. build_reconciliation_note rs = Inr n \<and> b = (n \<noteq> None))"
proof (cases "collect_snapshots 1 rs")
  case (Inr ss)
  have "list_ex (\<lambda>g. length g \<ge> 2) gs \<longleftrightarrow> filter (\<lambda>g. length g \<ge> 2) gs \<noteq> []" for gs :: "snapshot list list"
    by (induction gs) auto
  with Inr show ?thesis by (auto simp: sql_results_reconcile_def build_reconciliation_note_def split: list.splits if_splits)
qed (simp add: sql_results_reconcile_def build_reconciliation_note_def)

text \<open>A snapshot is the rounded total of a numeric column of the result it names.\<close>

definition totals :: "pyval query_result \<Rightarrow> snapshot \<Rightarrow> bool" where
  "totals qr s \<longleftrightarrow> rows qr \<noteq> [] \<and> column_name s \<in> set (columns qr) \<and>
     (\<exists>vs t. column_numbers (rows qr) (index_of (column_name s) (columns qr)) = Inr vs \<and>
       sum_numbers 0 vs = Some t \<and> grand_total s = round_cents t)"

lemma numeric_columns_subset: "numeric_columns rws cols = Inr cs \<Longrightarrow> set cs \<subseteq> snd ` set cols"
  by (induction rws cols arbitrary: cs rule: numeric_columns.induct) (auto simp: bind_ok_Inr split: if_splits)

lemma only_one_mem: "only_one xs = Some x \<Longrightarrow> x \<in> set xs"
  by (cases xs) (auto simp: only_one_def split: list.splits)

lemma pick_total_column_mem:
  assumes "pick_total_column cols rws = Inr (Some c)"
  shows "c \<in> set cols"
proof -
  from assms obtain cs where cs: "numeric_columns rws (enumerate 0 cols) = Inr cs"
    and c: "(case only_one cs of Some col \<Rightarrow> Some col
        | None \<Rightarrow> only_one (filter (\<lambda>col. list_ex (\<lambda>h. contains_text h (py_lower col)) numeric_hints) cs)) = Some c"
    by (auto simp: pick_total_column_def bind_ok_Inr split: if_splits)
  then have "c \<in> set cs" by (cases "only_one cs") (auto dest: only_one_mem)
  moreover have "snd ` set (enumerate 0 cols) = set cols" by (simp flip: set_map)
  ultimately show ?thesis using numeric_columns_subset [OF cs] by auto
qed

lemma snapshot_of_Some:
  assumes "snapshot_of k r = Inr (Some s)"
  shows "query_index s = k \<and> (\<exists>qr. r = Some qr \<and> totals qr s)"
proof -
  from assms obtain qr where qr: "r = Some qr" "rows qr \<noteq> []"
    by (auto simp: snapshot_of_def split: option.splits if_splits)
  with assms obtain c where c: "pick_total_column (columns qr) (rows qr) = Inr c"
    by (auto simp: snapshot_of_def bind_ok_Inr)
  with assms qr obtain col where col: "c = Some col" "col \<noteq> []"
    by (cases c) (auto simp: snapshot_of_def split: if_splits)
  with assms qr c obtain vs where vs: "column_numbers (rows qr) (index_of col (columns qr)) = Inr vs"
    and s: "map_option (\<lambda>t. \<lparr>query_index = k, snap_rows = row_count qr, grand_total = round_cents t,
        column_name = col\<rparr>) (sum_numbers 0 vs) = Some s"
    by (auto simp: snapshot_of_def bind_ok_Inr)
  from s obtain t where "sum_numbers 0 vs = Some t"
    "s = \<lparr>query_index = k, snap_rows = row_count qr, grand_total = round_cents t, column_name = col\<rparr>" by auto
  moreover have "col \<in> set (columns qr)" using c col(1) by (simp add: pick_total_column_mem)
  ultimately show ?thesis using qr vs by (simp add: totals_def)
qed

lemma collected_indices:
  "collect_snapshots k rs = Inr ss \<Longrightarrow> distinct (map query_index ss) \<and>
    (\<forall>s \<in> set ss. k \<le> query_index s \<and> query_index s < k + length rs \<and>
      (\<exists>qr. rs ! (query_index s - k) = Some qr \<and> totals qr s))"
proof (induction k rs arbitrary: ss rule: collect_snapshots.induct)
  case (2 k r rs)
  from "2.prems" obtain x rest where x: "snapshot_of k r = Inr x" and rest: "collect_snapshots (Suc k) rs = Inr rest"
    and ss: "ss = (case x of None \<Rightarrow> rest | Some s \<Rightarrow> s # rest)" by (auto simp: bind_ok_Inr)
  from "2.IH" [OF rest] have ih: "distinct (map query_index rest)"
    "\<And>s. s \<in> set rest \<Longrightarrow> Suc k \<le> query_index s \<and> query_index s < Suc k + length rs \<and>
      (\<exists>qr. rs ! (query_index s - Suc k) = Some qr \<and> totals qr s)" by auto
  have later: "k \<le> query_index s \<and> query_index s < k + length (r # rs) \<and> query_index s \<noteq> k \<and>
      (\<exists>qr. (r # rs) ! (query_index s - k) = Some qr \<and> totals qr s)" if "s \<in> set rest" for s
    using ih(2) [OF that] by (auto simp: nth_Cons' Suc_diff_le)
  show ?case
  proof (cases x)
    case None
    with ss ih(1) later show ?thesis by auto
  next
    case (Some s)
    have "k \<notin> query_index ` set rest" using later by blast
    moreover obtain qr where "query_index s = k" "r = Some qr" "totals qr s"
      using snapshot_of_Some [of k r s] x Some by auto
    ultimately show ?thesis using Some ss ih(1) later by simp
  qed
qed simp

lemma mset_sub_distinct: "mset ys \<subseteq># mset xs \<Longrightarrow> distinct (map f xs) \<Longrightarrow> distinct (map f ys)"
proof -
  assume "mset ys \<subseteq># mset xs" and d: "distinct (map f xs)"
  then obtain zs where "mset xs = mset ys + zs" by (metis mset_subset_eq_exists_conv)
  then have "mset (map f xs) = mset (map f ys) + image_mset f zs" by simp
  moreover obtain ws where "image_mset f zs = mset ws" by (metis ex_mset)
  ultimately have "mset (map f xs) = mset (map f ys @ ws)" by simp
  then have "distinct (map f ys @ ws)" using d by (metis mset_eq_imp_distinct_iff)
  then show ?thesis by simp
qed

lemma mset_member_concat: "g \<in> set gs \<Longrightarrow> mset g \<subseteq># mset (concat gs)"
  by (induction gs) (auto intro: subset_mset.order_trans)

text \<open>
  A reconciliation note is true of the results: it names at least two different queries
  of the turn, each with a numeric column whose rounded total agrees, within the tolerance,
  with the total the note states, and the totals reconcile exactly when there is a note.
\<close>

theorem note_verified:
  assumes "build_reconciliation_note rs = Inr (Some n)"
  shows "sql_results_reconcile rs = Inr True \<and> length (note_queries n) \<ge> 2 \<and> distinct (note_queries n) \<and>
    (\<forall>k \<in> set (note_queries n). 1 \<le> k \<and> k \<le> length rs \<and>
      (\<exists>qr s. rs ! (k - 1) = Some qr \<and> totals qr s \<and> totals_match (note_total n) (grand_total s)))"
proof -
  from assms obtain ss g gs where ss: "collect_snapshots 1 rs = Inr ss"
    and g: "filter (\<lambda>g. length g \<ge> 2) (group_snapshots ss) = g # gs"
    and n: "n = \<lparr>note_queries = map query_index g, note_total = grand_total (hd g), note_column = column_name (hd g)\<rparr>"
    by (auto simp: build_reconciliation_note_def bind_ok_Inr split: if_splits list.splits)
  have "g \<in> set (filter (\<lambda>g. length g \<ge> 2) (group_snapshots ss))" using g by simp
  then have mem: "g \<in> set (group_snapshots ss)" and len: "length g \<ge> 2" by simp_all
  have sub: "mset g \<subseteq># mset ss"
    using mset_member_concat [OF mem] unfolding group_snapshots_mset .
  from collected_indices [OF ss] have idx: "distinct (map query_index ss)"
    and snap: "\<And>s. s \<in> set ss \<Longrightarrow> 1 \<le> query_index s \<and> query_index s < 1 + length rs \<and>
      (\<exists>qr. rs ! (query_index s - 1) = Some qr \<and> totals qr s)" by auto
  have match: "totals_match (grand_total (hd g)) (grand_total s)" if "s \<in> set g" for s
    using group_snapshots_inv [OF mem] that by (cases g) (auto simp: totals_match_def)
  have "set g \<subseteq> set ss" using sub by (metis set_mset_mono set_mset_mset)
  with snap match len mset_sub_distinct [OF sub idx] reconcile_note [of rs True] assms show ?thesis
    unfolding n by fastforce
qed

definition sample_results :: "pyval query_result option list" where
  "sample_results = [Some (empty_result\<lparr>columns := [''total''], rows := [[PInt 10]], row_count := 1\<rparr>), None,
     Some (empty_result\<lparr>columns := [''total''], rows := [[PInt 4], [PInt 6]], row_count := 2\<rparr>)]"

lemma parse_small: "\<bar>i\<bar> < 2 ^ 53 \<Longrightarrow> parse_number (PInt i) = Inr (Some (of_int i))"
  by (simp add: parse_number_def finite_float_def fl_int pow2_1024 [simplified])

lemma small_sums: "fl 4 = 4" "fl 10 = 10"
  using fl_int [of 4] fl_int [of 10] by simp_all

theorem note_verified_witness:
  "\<exists>n. build_reconciliation_note sample_results = Inr (Some n) \<and> sql_results_reconcile sample_results = Inr True"
proof -
  obtain n where n: "build_reconciliation_note sample_results = Inr (Some n)"
    by (simp add: build_reconciliation_note_def sample_results_def snapshot_of_def pick_total_column_def
        column_numbers_def parse_small only_one_def empty_result_def small_sums group_snapshots_def totals_match_def)
  with note_verified [OF n] show ?thesis by blast
qed

lemma drop_corrections_suffix:
  "\<exists>pre. ps = pre @ drop_corrections ps \<and>
    (\<forall>p \<in> set pre. marks_correction (py_lower p) \<or> prefix ''let me classify properly'' (py_strip (py_lower p))) \<and>
    (drop_corrections ps \<noteq> [] \<longrightarrow> \<not> marks_correction (py_lower (hd (drop_corrections ps))))"
proof (induction ps)
  case (Cons p ps)
  then obtain pre where pre: "ps = pre @ drop_corrections ps"
    "\<forall>p \<in> set pre. marks_correction (py_lower p) \<or> prefix ''let me classify properly'' (py_strip (py_lower p))"
    "drop_corrections ps \<noteq> [] \<longrightarrow> \<not> marks_correction (py_lower (hd (drop_corrections ps)))" by blast
  show ?case
  proof (cases "marks_correction (py_lower p) \<or> prefix ''let me classify properly'' (py_strip (py_lower p))")
    case True
    then show ?thesis using pre by (intro exI [of _ "p # pre"]) auto
  next
    case False
    then show ?thesis by (intro exI [of _ "[]"]) simp
  qed
qed simp

lemma paragraphs_ne: "paragraphs_aux w s \<noteq> []"
  by (induction w s rule: paragraphs_aux.induct) auto

lemma paragraphs_join: "join_with [CHR 0x0A, CHR 0x0A] (paragraphs_aux w s) = rev w @ s"
proof (induction w s rule: paragraphs_aux.induct)
  case (1 w a b s)
  show ?case
  proof (cases "a = CHR 0x0A \<and> b = CHR 0x0A")
    case True
    then show ?thesis using 1 paragraphs_ne [of "[]" s] by (cases "paragraphs_aux [] s") auto
  next
    case False
    then show ?thesis using 1 by auto
  qed
qed simp_all

text \<open>
  The scrubbing only removes leading paragraphs that claim a wrong correction: an answer
  that does not reconcile is returned as it is, and otherwise the answer is untouched or is
  what follows those paragraphs, with the space at its ends removed.
\<close>

lemma scrub_drops_leading_only:
  "scrub_false_self_correction txt False = txt \<and>
   (scrub_false_self_correction txt True = txt \<or>
    (\<exists>pre post. txt = join_with [CHR 0x0A, CHR 0x0A] (pre @ post) \<and> post \<noteq> [] \<and>
      (\<forall>p \<in> set pre. marks_correction (py_lower p) \<or> prefix ''let me classify properly'' (py_strip (py_lower p))) \<and>
      \<not> marks_correction (py_lower (hd post)) \<and>
      scrub_false_self_correction txt True = py_strip (join_with [CHR 0x0A, CHR 0x0A] post)))"
proof -
  let ?ps = "paragraphs_aux [] txt"
  obtain pre where pre: "?ps = pre @ drop_corrections ?ps"
    "\<forall>p \<in> set pre. marks_correction (py_lower p) \<or> prefix ''let me classify properly'' (py_strip (py_lower p))"
    "drop_corrections ?ps \<noteq> [] \<longrightarrow> \<not> marks_correction (py_lower (hd (drop_corrections ?ps)))"
    using drop_corrections_suffix by blast
  have whole: "txt = join_with [CHR 0x0A, CHR 0x0A] (pre @ drop_corrections ?ps)"
    using paragraphs_join [of "[]" "txt"] pre(1) by simp
  show ?thesis
  proof (cases "py_strip txt = [] \<or> \<not> marks_correction (py_lower txt) \<or> drop_corrections ?ps = []")
    case True
    then show ?thesis by (auto simp: scrub_false_self_correction_def Let_def)
  next
    case False
    then have "scrub_false_self_correction txt True = py_strip (join_with [CHR 0x0A, CHR 0x0A] (drop_corrections ?ps))"
      by (simp add: scrub_false_self_correction_def Let_def)
    moreover have "scrub_false_self_correction txt False = txt" by (simp add: scrub_false_self_correction_def)
    ultimately show ?thesis using whole pre(2,3) False by blast
  qed
qed

end
