(* ===== verification/StageRunners.thy ===== *)
theory StageRunners
  imports LayerChecker ResultValidation Reconciliation
begin

text \<open>
  How \<^verbatim>\<open>backend/app/agents/stage_executor.py\<close> runs one stage: the dispatch on the tool, one
  runner per tool, the classification of what a sub-agent raises, and the final synthesis. The
  sub-agents, the language model, the analytics resolver and the data processor are one
  parameter of the environment: they answer a call, or raise, and move the outside world.
  Prompts are lists of parts, since their wording is not modelled; the \<^verbatim>\<open>str\<close> of a list is a
  parameter. Tracker events are left out.
\<close>

section \<open>Errors\<close>

text \<open>
  An exception, by the classes the code distinguishes: its text or its user message; an
  \<open>OtherError\<close> carries its class name.
\<close>

datatype exc =
    AgentRetryable string
  | AgentFatal string
  | AgentOther string
  | LlmAllFailed string
  | LlmError bool string
  | OsError string string
  | ConnectionUnavailable string
  | OtherError string string

definition message_or_name :: "string \<Rightarrow> string \<Rightarrow> string" where
  "message_or_name msg name = take 500 (if py_strip msg = [] then name else py_strip msg)"

definition stage_error_message :: "exc \<Rightarrow> string" where
  "stage_error_message e = (case e of
     LlmAllFailed user \<Rightarrow> user
   | LlmError retry user \<Rightarrow> user
   | AgentRetryable msg \<Rightarrow> message_or_name msg ''AgentRetryableError''
   | AgentFatal msg \<Rightarrow> message_or_name msg ''AgentFatalError''
   | AgentOther msg \<Rightarrow> message_or_name msg ''AgentError''
   | OsError name msg \<Rightarrow> message_or_name msg name
   | ConnectionUnavailable msg \<Rightarrow> message_or_name msg ''AnalyticsConnectionUnavailableError''
   | OtherError name msg \<Rightarrow> message_or_name msg name)"

definition classify_stage_error :: "exc \<Rightarrow> string" where
  "classify_stage_error e = (case e of
     AgentRetryable msg \<Rightarrow> ''transient''
   | AgentFatal msg \<Rightarrow> ''fatal''
   | LlmAllFailed user \<Rightarrow> ''configuration''
   | LlmError retry user \<Rightarrow> (if retry then ''transient'' else ''configuration'')
   | OsError name msg \<Rightarrow> ''transient''
   | _ \<Rightarrow> ''configuration'')"

definition error_result :: "string \<Rightarrow> string \<Rightarrow> string \<Rightarrow> stage_result" where
  "error_result sid msg category = (new_result sid ''error'')\<lparr>res_error := Some msg, error_category := category\<rparr>"

definition raised_result :: "string \<Rightarrow> exc \<Rightarrow> stage_result" where
  "raised_result sid e = error_result sid (stage_error_message e) (classify_stage_error e)"

section \<open>Calls\<close>

datatype error_context = ValidationErrors "message list" | GateErrors "gate_message list" "suggestion list"

datatype question_part =
    Freshness string
  | Previous "context_part list"
  | Task string
  | RequiredInput string
  | PreviousFailure error_context

datatype synthesis_part =
    OriginalQuestion string
  | StageSummary string string string "string option" "(string list \<times> int \<times> pyval list list) option" string
  | FeedbackNote "string option" string
  | Reconciled reconciliation_note

datatype agent_call =
    SqlCall "question_part list"
  | KnowledgeCall "question_part list"
  | GitCall "question_part list"
  | AnalysisCall "question_part list"
  | McpCall "question_part list"
  | AnalyticsCall "question_part list"
  | ProcessCall "pyval query_result" pyval dict
  | SynthesisCall "string option" "synthesis_part list"

record reply =
  a_status :: string
  a_answer :: string
  a_error :: "string option"
  a_query :: "string option"
  a_results :: "pyval query_result option"
  a_usage :: dict

text \<open>
  The world outside and the stages executed so far, in order (a history that no code reads).
\<close>

record 'w world =
  outer :: 'w
  executed :: "string list"

record 'w runners =
  call :: "agent_call \<Rightarrow> 'w \<Rightarrow> (exc + reply) \<times> 'w"
  has_git :: bool
  has_mcp :: bool
  gate_config :: gate_settings
  empty_retry :: bool
  show_errors :: "gate_message list \<Rightarrow> string"
  show_value :: "pyval \<Rightarrow> string"
  loads :: "string \<Rightarrow> pyval option"
  staleness :: "string option"

definition summarize_query_result :: "(pyval \<Rightarrow> string) \<Rightarrow> string option \<Rightarrow> pyval query_result option \<Rightarrow> string" where
  "summarize_query_result show_v q qr_opt =
     (case qr_opt of
        None \<Rightarrow> ''No results.''
      | Some qr \<Rightarrow> join_with [CHR 0x0A]
          ((if has_text q then [''Query: '' @ the q] else [])
           @ [''Columns: '' @ show_v (strs_value (columns qr)), ''Rows returned: '' @ str_int (row_count qr)]
           @ (if rows qr \<noteq> [] then [''Sample (first 5): '' @ show_v (PList (map PList (take 5 (rows qr))))] else [])))"

definition build_stage_question ::
  "'w runners \<Rightarrow> plan_stage \<Rightarrow> stage_context \<Rightarrow> error_context option \<Rightarrow> question_part list" where
  "build_stage_question env s ctx err =
     (if has_text (staleness env) then [Freshness (the (staleness env))] else [])
     @ (let prev = build_context_for_stage ctx (stage_id s) in if prev = [] then [] else [Previous prev])
     @ [Task (description s)]
     @ (if input_context s \<noteq> [] then [RequiredInput (input_context s)] else [])
     @ (case err of None \<Rightarrow> [] | Some e \<Rightarrow> if e = ValidationErrors [] then [] else [PreviousFailure e])"

text \<open>A call to a sub-agent.\<close>

definition ask :: "'w runners \<Rightarrow> agent_call \<Rightarrow> 'w world \<Rightarrow> (exc + reply) \<times> 'w world" where
  "ask env c w = (case call env c (outer w) of (r, o') \<Rightarrow> (r, w\<lparr>outer := o'\<rparr>))"

section \<open>The runners\<close>

definition quality_warning :: "directive \<Rightarrow> string" where
  "quality_warning d = [CHR 0x0A, CHR 0x0A] @ ''**DATA QUALITY WARNING (''
     @ (if action d = Warn then ''WARN'' else ''REQUERY'') @ ''):** '' @ reason d"

definition sql_verdict :: "'w runners \<Rightarrow> reply \<Rightarrow> directive option" where
  "sql_verdict env a = (case a_results a of
     None \<Rightarrow> None
   | Some qr \<Rightarrow>
       if \<not> has_text (a_query a) then None
       else (case evaluate (show_errors env) (gate_config env) (empty_retry env) qr (the (a_query a)) (truncated qr) True of
           Inl e \<Rightarrow> None | Inr d \<Rightarrow> Some d))"

definition sql_answer :: "'w runners \<Rightarrow> plan_stage \<Rightarrow> reply \<Rightarrow> stage_result" where
  "sql_answer env s a =
     (if a_status a = ''error''
      then (error_result (stage_id s) (if has_text (a_error a) then the (a_error a) else ''SQL agent error'') ''transient'')
        \<lparr>token_usage := a_usage a\<rparr>
      else
        (let summ = summarize_query_result (show_value env) (a_query a) (a_results a);
             ok = (\<lambda>suffix. (new_result (stage_id s) ''success'')\<lparr>query := a_query a, query_result := a_results a,
               summary := summ @ suffix, token_usage := a_usage a\<rparr>)
         in case sql_verdict env a of
              None \<Rightarrow> ok []
            | Some d \<Rightarrow>
                (case action d of
                   Block \<Rightarrow> (error_result (stage_id s) (reason d) ''configuration'')\<lparr>token_usage := a_usage a\<rparr>
                 | Accept \<Rightarrow> ok []
                 | _ \<Rightarrow> ok (quality_warning d))))"

definition run_sql_stage :: "'w runners \<Rightarrow> question_part list \<Rightarrow> plan_stage \<Rightarrow> 'w world \<Rightarrow> stage_result \<times> 'w world" where
  "run_sql_stage env q s w = (case ask env (SqlCall q) w of
     (Inl e, w') \<Rightarrow> (raised_result (stage_id s) e, w')
   | (Inr a, w') \<Rightarrow> (sql_answer env s a, w'))"

definition text_answer :: "plan_stage \<Rightarrow> string \<Rightarrow> reply \<Rightarrow> stage_result" where
  "text_answer s empty_message a =
     (new_result (stage_id s) (if a_answer a \<noteq> [] then ''success'' else ''error''))
       \<lparr>summary := a_answer a, res_error := (if a_answer a \<noteq> [] then None else Some empty_message),
        token_usage := a_usage a\<rparr>"

definition run_knowledge_stage :: "'w runners \<Rightarrow> question_part list \<Rightarrow> plan_stage \<Rightarrow> 'w world \<Rightarrow> stage_result \<times> 'w world" where
  "run_knowledge_stage env q s w = (case ask env (KnowledgeCall q) w of
     (Inl e, w') \<Rightarrow> (raised_result (stage_id s) e, w')
   | (Inr a, w') \<Rightarrow> (text_answer s ''Knowledge agent returned empty answer'' a, w'))"

definition run_git_stage :: "'w runners \<Rightarrow> question_part list \<Rightarrow> plan_stage \<Rightarrow> 'w world \<Rightarrow> stage_result \<times> 'w world" where
  "run_git_stage env q s w =
     (if \<not> has_git env
      then (error_result (stage_id s) ''Git analysis is not available (no GitAgent wired).'' ''fatal'', w)
      else case ask env (GitCall q) w of
        (Inl e, w') \<Rightarrow> (raised_result (stage_id s) e, w')
      | (Inr a, w') \<Rightarrow> (text_answer s ''Git agent returned empty answer'' a, w'))"

definition run_analysis_stage :: "'w runners \<Rightarrow> question_part list \<Rightarrow> plan_stage \<Rightarrow> 'w world \<Rightarrow> stage_result \<times> 'w world" where
  "run_analysis_stage env q s w = (case ask env (AnalysisCall q) w of
     (Inl e, w') \<Rightarrow> (raised_result (stage_id s) e, w')
   | (Inr a, w') \<Rightarrow> ((new_result (stage_id s) ''success'')\<lparr>summary := a_answer a, token_usage := a_usage a\<rparr>, w'))"

text \<open>An external source that did not succeed: its error, its answer, or a fixed text.\<close>

definition source_failure :: "plan_stage \<Rightarrow> string \<Rightarrow> reply \<Rightarrow> stage_result" where
  "source_failure s none_message a =
     (error_result (stage_id s)
       (if has_text (a_error a) then the (a_error a) else if a_answer a \<noteq> [] then a_answer a else none_message)
       (if a_status a = ''error'' then ''configuration'' else ''data_missing''))\<lparr>token_usage := a_usage a\<rparr>"

definition run_mcp_stage :: "'w runners \<Rightarrow> question_part list \<Rightarrow> plan_stage \<Rightarrow> 'w world \<Rightarrow> stage_result \<times> 'w world" where
  "run_mcp_stage env q s w =
     (if \<not> has_mcp env
      then (error_result (stage_id s) ''MCP source agent not configured for this pipeline'' ''configuration'', w)
      else case ask env (McpCall q) w of
        (Inl e, w') \<Rightarrow> (raised_result (stage_id s) e, w')
      | (Inr a, w') \<Rightarrow>
          (if a_status a = ''success''
           then (new_result (stage_id s) ''success'')\<lparr>summary := a_answer a, token_usage := a_usage a\<rparr>
           else source_failure s ''MCP source returned no result'' a, w'))"

definition analytics_rows :: "pyval query_result \<Rightarrow> pyval query_result option" where
  "analytics_rows qr =
     (if columns qr \<noteq> [] \<or> rows qr \<noteq> []
      then Some (empty_result\<lparr>columns := columns qr, rows := rows qr, row_count := int (length (rows qr)),
        truncated := truncated qr\<rparr>)
      else None)"

definition run_analytics_stage :: "'w runners \<Rightarrow> question_part list \<Rightarrow> plan_stage \<Rightarrow> 'w world \<Rightarrow> stage_result \<times> 'w world" where
  "run_analytics_stage env q s w = (case ask env (AnalyticsCall q) w of
     (Inl (ConnectionUnavailable why), w') \<Rightarrow>
       (error_result (stage_id s) (''No analytics source available for this stage ('' @ why @ '')'') ''configuration'', w')
   | (Inl e, w') \<Rightarrow> (raised_result (stage_id s) e, w')
   | (Inr a, w') \<Rightarrow>
       (if a_status a = ''success''
        then (new_result (stage_id s) ''success'')\<lparr>summary := a_answer a,
          query_result := (case a_results a of None \<Rightarrow> None | Some qr \<Rightarrow> analytics_rows qr), token_usage := a_usage a\<rparr>
        else source_failure s ''Analytics returned no result'' a, w'))"

subsection \<open>Data processing\<close>

definition rows_of :: "stage_context \<Rightarrow> string \<Rightarrow> pyval query_result option" where
  "rows_of ctx sid = (case get_result ctx sid of None \<Rightarrow> None
     | Some r \<Rightarrow> (case query_result r of None \<Rightarrow> None | Some qr \<Rightarrow> if rows qr = [] then None else Some qr))"

fun first_rows :: "stage_context \<Rightarrow> string list \<Rightarrow> pyval query_result option" where
  "first_rows ctx [] = None"
| "first_rows ctx (sid # sids) = (case rows_of ctx sid of Some qr \<Rightarrow> Some qr | None \<Rightarrow> first_rows ctx sids)"

definition select_process_data_source :: "plan_stage \<Rightarrow> stage_context \<Rightarrow> pyval query_result option" where
  "select_process_data_source s ctx =
     (if depends_on s \<noteq> [] then first_rows ctx (rev (depends_on s))
      else first_rows ctx (rev (map stage_id (takeWhile (\<lambda>x. stage_id x \<noteq> stage_id s) (stages (plan ctx))))))"

definition merge_missing :: "dict \<Rightarrow> dict \<Rightarrow> dict" where
  "merge_missing inner params = fold (\<lambda>(k, v) d. if map_of d k = None then od_set k v d else d) inner params"

definition parse_process_data_params :: "(string \<Rightarrow> pyval option) \<Rightarrow> plan_stage \<Rightarrow> dict" where
  "parse_process_data_params decode s =
     (let parsed = (if input_context s = [] then [] else
            case decode (input_context s) of Some (PDict d) \<Rightarrow> d | _ \<Rightarrow> []);
          unwrapped = (case map_of parsed ''params_json'' of
              Some (PDict inner) \<Rightarrow> merge_missing inner (od_del ''params_json'' parsed)
            | _ \<Rightarrow> parsed);
          with_op = (if map_of unwrapped ''operation'' = None
            then od_set ''operation'' (PStr ''passthrough'') unwrapped else unwrapped)
      in case map_of with_op ''aggregations'' of
           Some (PDict d) \<Rightarrow> od_set ''aggregations'' (PList (map (\<lambda>(k, v). PList [PStr k, v]) d)) with_op
         | _ \<Rightarrow> with_op)"

definition run_process_data_stage :: "'w runners \<Rightarrow> plan_stage \<Rightarrow> stage_context \<Rightarrow> 'w world \<Rightarrow> stage_result \<times> 'w world" where
  "run_process_data_stage env s ctx w =
     (case select_process_data_source s ctx of
        None \<Rightarrow> (error_result (stage_id s)
          ''No query result available from the declared source stage(s) to process.'' ''data_missing'', w)
      | Some qr \<Rightarrow>
          (let params = parse_process_data_params (loads env) s in
           case ask env (ProcessCall qr (dict_get params ''operation'' PNone) (od_del ''operation'' params)) w of
             (Inl e, w') \<Rightarrow> (raised_result (stage_id s) e, w')
           | (Inr a, w') \<Rightarrow> ((new_result (stage_id s) ''success'')\<lparr>query_result := a_results a, summary := a_answer a\<rparr>, w')))"

subsection \<open>Synthesis\<close>

definition synthesis_parts :: "'w runners \<Rightarrow> stage_context \<Rightarrow> synthesis_part list" where
  "synthesis_parts env ctx =
     [OriginalQuestion (question (plan ctx))]
     @ concat (map (\<lambda>s. case get_result ctx (stage_id s) of
           None \<Rightarrow> []
         | Some r \<Rightarrow> [StageSummary (stage_id s) (description s) (status r)
             (if has_text (query r) then query r else None)
             (map_option (\<lambda>qr. (columns qr, row_count qr, take 10 (rows qr))) (query_result r)) (summary r)])
         (stages (plan ctx)))
     @ map (\<lambda>fb. FeedbackNote (fb_stage fb) (fb_text fb)) (user_feedback ctx)
     @ (case build_reconciliation_note (concat (map (\<lambda>s. if tool s \<noteq> ''query_database'' then [] else
           case get_result ctx (stage_id s) of None \<Rightarrow> []
           | Some r \<Rightarrow> (case query_result r of None \<Rightarrow> [] | Some qr \<Rightarrow> [Some qr])) (stages (plan ctx)))) of
         Inr (Some note) \<Rightarrow> [Reconciled note] | _ \<Rightarrow> [])"

definition fallback_answer :: "stage_context \<Rightarrow> string" where
  "fallback_answer ctx =
     ''Pipeline completed all stages but the final synthesis step failed. Showing per-stage results:'' @ [CHR 0x0A]
     @ join_with [CHR 0x0A] (map (\<lambda>s. ''Stage '' @ stage_id s @ '': '' @
         (case get_result ctx (stage_id s) of None \<Rightarrow> ''N/A'' | Some r \<Rightarrow> summary r)) (stages (plan ctx)))"

definition synthesize :: "'w runners \<Rightarrow> stage_context \<Rightarrow> 'w world \<Rightarrow> (string \<times> string option) \<times> 'w world" where
  "synthesize env ctx w =
     (case ask env (SynthesisCall (if has_text (staleness env) then staleness env else None) (synthesis_parts env ctx)) w of
        (Inl e, w') \<Rightarrow> ((fallback_answer ctx, Some (stage_error_message e)), w')
      | (Inr a, w') \<Rightarrow> ((a_answer a, None), w'))"

definition synthesize_stage :: "'w runners \<Rightarrow> plan_stage \<Rightarrow> stage_context \<Rightarrow> 'w world \<Rightarrow> stage_result \<times> 'w world" where
  "synthesize_stage env s ctx w = (case synthesize env ctx w of ((answer, degraded), w') \<Rightarrow>
     ((new_result (stage_id s) (if has_text degraded then ''degraded'' else ''success''))
       \<lparr>summary := answer, degraded_reason := degraded\<rparr>, w'))"

section \<open>Dispatch\<close>

definition execute_stage ::
  "'w runners \<Rightarrow> plan_stage \<Rightarrow> stage_context \<Rightarrow> error_context option \<Rightarrow> 'w world \<Rightarrow> stage_result \<times> 'w world" where
  "execute_stage env s ctx err w0 =
     (let q = build_stage_question env s ctx err; w = w0\<lparr>executed := executed w0 @ [stage_id s]\<rparr> in
      if tool s = ''query_database'' then run_sql_stage env q s w
      else if tool s = ''search_codebase'' then run_knowledge_stage env q s w
      else if tool s = ''analyze_results'' then run_analysis_stage env q s w
      else if tool s = ''process_data'' then run_process_data_stage env s ctx w
      else if tool s = ''query_mcp_source'' then run_mcp_stage env q s w
      else if tool s = ''query_analytics_source'' then run_analytics_stage env q s w
      else if tool s = ''analyze_git'' then run_git_stage env q s w
      else if tool s = ''synthesize'' then synthesize_stage env s ctx w
      else (error_result (stage_id s) (''Unknown tool: '' @ tool s) ''fatal'', w))"

lemmas runner_defs = run_sql_stage_def run_knowledge_stage_def run_analysis_stage_def run_process_data_stage_def
  run_mcp_stage_def run_analytics_stage_def run_git_stage_def synthesize_stage_def synthesize_def

lemma ask_executed: "ask env c w = (r, w') \<Longrightarrow> executed w' = executed w"
  by (auto simp: ask_def split: prod.splits)

end
