(* ===== verification/StageExecutor.thy ===== *)
theory StageExecutor
  imports StageRunners
begin

text \<open>
  The scheduling half of \<^verbatim>\<open>backend/app/agents/stage_executor.py\<close>: the retry budget of a stage,
  the three retry loops, the processing of one stage, the batches of a plan and the loop over
  them. The clock, the order in which the stages of a parallel batch finish, and the moment at
  which the hard deadline cuts a batch are read off the world outside. A batch runs its stages
  one after another in that order, where the code interleaves them at its awaits; a stage that
  is cut leaves no result. Tracker events are left out.
\<close>

record 'w executor =
  runners :: "'w runners"
  rule_llm :: "('w \<Rightarrow> string \<Rightarrow> pyval query_result \<Rightarrow> string option) option"
  strict_rows :: bool
  clock :: "'w \<Rightarrow> rat \<times> 'w"
  arrival :: "'w \<Rightarrow> nat \<Rightarrow> nat"
  cut_after :: "'w \<Rightarrow> nat option"
  max_stage_retries :: int
  max_parallel_stages :: int
  pipeline_wall_seconds :: int
  agent_wall_seconds :: int

datatype end_status = Completed | Checkpoint | StageFailed

datatype failure =
    ByOutcome outcome
  | ByError string
  | ByGate "gate_message list"
  | ByRaise py_error
  | ByLayer "(item \<times> detail) list"

record exec_result =
  end_status :: end_status
  final_answer :: string
  checkpoint_stage :: "plan_stage option"
  checkpoint_result :: "stage_result option"
  failed_stage :: "plan_stage option"
  failed_validation :: "failure option"
  data_gate_outcome :: "gate_outcome option"
  replan_eligible :: bool
  exec_degraded :: "string option"
  rejected_stage_ids :: "string list"

definition ended :: "end_status \<Rightarrow> exec_result" where
  "ended st = \<lparr>end_status = st, final_answer = [], checkpoint_stage = None, checkpoint_result = None,
     failed_stage = None, failed_validation = None, data_gate_outcome = None, replan_eligible = True,
     exec_degraded = None, rejected_stage_ids = []\<rparr>"

definition failed_at :: "plan_stage \<Rightarrow> failure option \<Rightarrow> bool \<Rightarrow> exec_result" where
  "failed_at s why eligible = (ended StageFailed)\<lparr>failed_stage := Some s, failed_validation := why,
     replan_eligible := eligible\<rparr>"

section \<open>The retry budget\<close>

record retry_budget =
  remaining :: int
  budget_deadline :: "rat option"

definition new_budget :: "int \<Rightarrow> rat option \<Rightarrow> retry_budget" where
  "new_budget retries dl = \<lparr>remaining = retries + 1, budget_deadline = dl\<rparr>"

text \<open>Reading the clock moves it.\<close>

definition past :: "'w executor \<Rightarrow> rat option \<Rightarrow> 'w world \<Rightarrow> bool \<times> 'w world" where
  "past env dl w = (case dl of None \<Rightarrow> (False, w)
     | Some d \<Rightarrow> (case clock env (outer w) of (t, o') \<Rightarrow> (t > d, w\<lparr>outer := o'\<rparr>)))"

definition consume :: "'w executor \<Rightarrow> retry_budget \<Rightarrow> 'w world \<Rightarrow> bool \<times> retry_budget \<times> 'w world" where
  "consume env b w = (case past env (budget_deadline b) w of (late, w') \<Rightarrow>
     if late then (False, b, w') else if remaining b \<le> 0 then (False, b, w')
     else (True, b\<lparr>remaining := remaining b - 1\<rparr>, w'))"

definition has_retries :: "'w executor \<Rightarrow> retry_budget \<Rightarrow> 'w world \<Rightarrow> bool \<times> 'w world" where
  "has_retries env b w = (case past env (budget_deadline b) w of (late, w') \<Rightarrow>
     (if late then False else remaining b > 0, w'))"

section \<open>The retry loops\<close>

function execute_attempts ::
  "'w executor \<Rightarrow> plan_stage \<Rightarrow> stage_context \<Rightarrow> int \<Rightarrow> int \<Rightarrow> stage_result option \<Rightarrow> retry_budget \<Rightarrow> 'w world
    \<Rightarrow> stage_result option \<times> retry_budget \<times> 'w world" where
  "execute_attempts env s ctx retries attempt res b w =
     (case consume env b w of (ok, b1, w1) \<Rightarrow>
        if \<not> ok then (res, b1, w1)
        else case execute_stage (runners env) s ctx None w1 of (r, w2) \<Rightarrow>
          if status r \<noteq> ''error'' \<or> \<not> retryable r \<or> attempt \<ge> retries then (Some r, b1, w2)
          else case has_retries env b1 w2 of (again, w3) \<Rightarrow>
            if \<not> again then (Some r, b1, w3)
            else execute_attempts env s ctx retries (attempt + 1) (Some r) b1 w3)"
  by pat_completeness auto
termination by (relation "measure (\<lambda>(env, s, ctx, retries, attempt, res, b, w). nat (retries - attempt))") auto

declare execute_attempts.simps [simp del]

definition stage_retries :: "'w executor \<Rightarrow> plan_stage \<Rightarrow> int" where
  "stage_retries env s = (if max_retries s \<ge> 0 then max_retries s else max_stage_retries env)"

definition execute_with_retries ::
  "'w executor \<Rightarrow> plan_stage \<Rightarrow> stage_context \<Rightarrow> retry_budget \<Rightarrow> 'w world \<Rightarrow> stage_result \<times> retry_budget \<times> 'w world" where
  "execute_with_retries env s ctx b w =
     (case execute_attempts env s ctx (stage_retries env s) 0 None b w of (res, b', w') \<Rightarrow>
        (case res of Some r \<Rightarrow> r
         | None \<Rightarrow> error_result (stage_id s) ''Pipeline deadline exceeded before stage could execute'' ''configuration'',
         b', w'))"

text \<open>The validator, its language model read off the world.\<close>

definition judge :: "'w executor \<Rightarrow> plan_stage \<Rightarrow> stage_result \<Rightarrow> stage_context \<Rightarrow> 'w world \<Rightarrow> py_error + outcome" where
  "judge env s r ctx w = validate_async (loads (runners env)) (map_option (\<lambda>f. f (outer w)) (rule_llm env))
     (strict_rows env) s r ctx"

definition gate :: "'w executor \<Rightarrow> plan_stage \<Rightarrow> stage_result \<Rightarrow> stage_context \<Rightarrow> py_error + gate_outcome" where
  "gate env s r ctx = check_gate (gate_config (runners env)) s r ctx"

fun retry_failed_validation ::
  "'w executor \<Rightarrow> plan_stage \<Rightarrow> stage_context \<Rightarrow> nat \<Rightarrow> outcome \<Rightarrow> retry_budget \<Rightarrow> 'w world
    \<Rightarrow> (py_error + stage_result option) \<times> retry_budget \<times> 'w world" where
  "retry_failed_validation env s ctx 0 v b w = (Inr None, b, w)"
| "retry_failed_validation env s ctx (Suc n) v b w =
     (case consume env b w of (ok, b1, w1) \<Rightarrow>
        if \<not> ok then (Inr None, b1, w1)
        else case execute_stage (runners env) s ctx (Some (ValidationErrors (errors v))) w1 of (r, w2) \<Rightarrow>
          if status r = ''error'' then retry_failed_validation env s ctx n v b1 w2
          else case judge env s r ctx w2 of
            Inl e \<Rightarrow> (Inl e, b1, w2)
          | Inr v' \<Rightarrow> if passed v' then (Inr (Some r), b1, w2) else retry_failed_validation env s ctx n v' b1 w2)"

fun retry_failed_data_gate ::
  "'w executor \<Rightarrow> plan_stage \<Rightarrow> stage_context \<Rightarrow> nat \<Rightarrow> gate_outcome \<Rightarrow> retry_budget \<Rightarrow> 'w world
    \<Rightarrow> (py_error + stage_result option) \<times> retry_budget \<times> 'w world" where
  "retry_failed_data_gate env s ctx 0 g b w = (Inr None, b, w)"
| "retry_failed_data_gate env s ctx (Suc n) g b w =
     (case consume env b w of (ok, b1, w1) \<Rightarrow>
        if \<not> ok then (Inr None, b1, w1)
        else case execute_stage (runners env) s ctx (Some (GateErrors (g_errors g) (suggestions g))) w1 of (r, w2) \<Rightarrow>
          if status r = ''error'' then retry_failed_data_gate env s ctx n g b1 w2
          else case judge env s r ctx w2 of
            Inl e \<Rightarrow> (Inl e, b1, w2)
          | Inr v \<Rightarrow>
              if \<not> passed v then retry_failed_data_gate env s ctx n g b1 w2
              else (case gate env s r ctx of
                  Inl e \<Rightarrow> (Inl e, b1, w2)
                | Inr g' \<Rightarrow> if g_passed g' then (Inr (Some r), b1, w2)
                    else retry_failed_data_gate env s ctx n g b1 w2))"

section \<open>One stage\<close>

definition validated ::
  "'w executor \<Rightarrow> plan_stage \<Rightarrow> stage_context \<Rightarrow> stage_result \<Rightarrow> retry_budget \<Rightarrow> 'w world
    \<Rightarrow> (py_error + (exec_result + stage_result)) \<times> retry_budget \<times> 'w world" where
  "validated env s ctx r b w =
     (case judge env s r ctx w of
        Inl e \<Rightarrow> (Inl e, b, w)
      | Inr v \<Rightarrow>
          if passed v then (Inr (Inr r), b, w)
          else case retry_failed_validation env s ctx (nat (stage_retries env s)) v b w of
            (Inl e, b1, w1) \<Rightarrow> (Inl e, b1, w1)
          | (Inr None, b1, w1) \<Rightarrow> (Inr (Inl (failed_at s (Some (ByOutcome v)) (replan_on_failure s))), b1, w1)
          | (Inr (Some r'), b1, w1) \<Rightarrow> (Inr (Inr r'), b1, w1))"

definition gated ::
  "'w executor \<Rightarrow> plan_stage \<Rightarrow> stage_context \<Rightarrow> stage_result \<Rightarrow> retry_budget \<Rightarrow> 'w world
    \<Rightarrow> (py_error + (exec_result + stage_result)) \<times> retry_budget \<times> 'w world" where
  "gated env s ctx r b w =
     (case gate env s r ctx of
        Inl e \<Rightarrow> (Inl e, b, w)
      | Inr g \<Rightarrow>
          if g_passed g then (Inr (Inr r), b, w)
          else case retry_failed_data_gate env s ctx (nat (stage_retries env s)) g b w of
            (Inl e, b1, w1) \<Rightarrow> (Inl e, b1, w1)
          | (Inr None, b1, w1) \<Rightarrow>
              (Inr (Inl ((failed_at s (Some (ByGate (g_errors g))) (replan_on_failure s))\<lparr>data_gate_outcome := Some g\<rparr>)), b1, w1)
          | (Inr (Some r'), b1, w1) \<Rightarrow> (Inr (Inr r'), b1, w1))"

text \<open>\<open>None\<close>: the stage succeeded and the pipeline goes on.\<close>

definition process_one_stage ::
  "'w executor \<Rightarrow> rat option \<Rightarrow> plan_stage \<Rightarrow> stage_context \<times> 'w world
    \<Rightarrow> (py_error + exec_result option) \<times> stage_context \<times> 'w world" where
  "process_one_stage env dl s cw =
     (case cw of (ctx, w) \<Rightarrow>
      case execute_with_retries env s ctx (new_budget (stage_retries env s) dl) w of (r, b1, w1) \<Rightarrow>
        if status r = ''error''
        then (Inr (Some (failed_at s (Some (ByError (if has_text (res_error r) then the (res_error r) else ''unknown'')))
               (replan_on_failure s))), ctx, w1)
        else case validated env s ctx r b1 w1 of
          (Inl e, b2, w2) \<Rightarrow> (Inl e, ctx, w2)
        | (Inr (Inl x), b2, w2) \<Rightarrow> (Inr (Some x), ctx, w2)
        | (Inr (Inr r2), b2, w2) \<Rightarrow>
            (case gated env s ctx r2 b2 w2 of
               (Inl e, b3, w3) \<Rightarrow> (Inl e, ctx, w3)
             | (Inr (Inl x), b3, w3) \<Rightarrow> (Inr (Some x), ctx, w3)
             | (Inr (Inr r3), b3, w3) \<Rightarrow>
                 (Inr (if checkpoint s
                       then Some ((ended Checkpoint)\<lparr>checkpoint_stage := Some s, checkpoint_result := Some r3\<rparr>)
                       else None), set_result (stage_id s) r3 ctx, w3)))"

section \<open>Batches\<close>

definition completed :: "stage_context \<Rightarrow> string \<Rightarrow> bool" where
  "completed ctx sid \<longleftrightarrow> get_result ctx sid \<noteq> None"

definition stage_index :: "execution_plan \<Rightarrow> string \<Rightarrow> nat" where
  "stage_index p sid = (case map_of (rev (zip (stage_ids (stages p)) [0..<length (stages p)])) sid of
     None \<Rightarrow> 0 | Some i \<Rightarrow> i)"

definition ready_stages :: "execution_plan \<Rightarrow> nat \<Rightarrow> stage_context \<Rightarrow> plan_stage list" where
  "ready_stages p resume ctx = filter (\<lambda>s. \<not> completed ctx (stage_id s) \<and> stage_index p (stage_id s) \<ge> resume
     \<and> list_all (completed ctx) (depends_on s)) (stages p)"

fun through_checkpoint :: "plan_stage list \<Rightarrow> plan_stage list" where
  "through_checkpoint [] = []"
| "through_checkpoint (s # ss) = (if checkpoint s then [s] else s # through_checkpoint ss)"

definition select_batch :: "'w executor \<Rightarrow> plan_stage list \<Rightarrow> plan_stage list" where
  "select_batch env ready = through_checkpoint (take (nat (max 1 (max_parallel_stages env))) ready)"

definition raised_outcome :: "plan_stage \<Rightarrow> py_error + exec_result option \<Rightarrow> exec_result option" where
  "raised_outcome s x = (case x of Inr y \<Rightarrow> y | Inl e \<Rightarrow> Some (failed_at s (Some (ByRaise e)) (replan_on_failure s)))"

fun run_all ::
  "'w executor \<Rightarrow> rat option \<Rightarrow> (nat \<times> plan_stage) list \<Rightarrow> stage_context \<times> 'w world
    \<Rightarrow> (nat \<times> (py_error + exec_result option)) list \<times> stage_context \<times> 'w world" where
  "run_all env dl [] cw = ([], cw)"
| "run_all env dl ((i, s) # ss) cw =
     (case process_one_stage env dl s cw of (x, cw1) \<Rightarrow>
        case run_all env dl ss cw1 of (xs, cw2) \<Rightarrow> ((i, x) # xs, cw2))"

datatype batch_end = Raised py_error | Cut | Finished "exec_result option list"

text \<open>A single stage lets an exception through; a parallel batch turns it into a failed stage.\<close>

definition lone_error :: "plan_stage list \<Rightarrow> (nat \<times> (py_error + exec_result option)) list \<Rightarrow> py_error option" where
  "lone_error batch xs = (case xs of [(i, Inl e)] \<Rightarrow> if length batch = 1 then Some e else None | _ \<Rightarrow> None)"

definition run_batch ::
  "'w executor \<Rightarrow> rat option \<Rightarrow> bool \<Rightarrow> plan_stage list \<Rightarrow> stage_context \<times> 'w world
    \<Rightarrow> batch_end \<times> stage_context \<times> 'w world" where
  "run_batch env dl bounded batch cw =
     (let order = sort_key (\<lambda>(i, s). arrival env (outer (snd cw)) i) (enumerate 0 batch);
          cut = (if bounded then cut_after env (outer (snd cw)) else None);
          allowed = (case cut of None \<Rightarrow> length batch | Some k \<Rightarrow> k)
      in case run_all env dl (take allowed order) cw of (xs, cw1) \<Rightarrow>
        (if allowed < length batch then Cut
         else case lone_error batch xs of
           Some e \<Rightarrow> Raised e
         | None \<Rightarrow> Finished (map (\<lambda>(i, s). raised_outcome s (case map_of xs i of None \<Rightarrow> Inr None | Some x \<Rightarrow> x))
             (enumerate 0 batch)), cw1))"

fun first_with :: "end_status \<Rightarrow> exec_result option list \<Rightarrow> exec_result option" where
  "first_with st [] = None"
| "first_with st (x # xs) = (case x of Some r \<Rightarrow> if end_status r = st then Some r else first_with st xs
     | None \<Rightarrow> first_with st xs)"

definition layer_refusal :: "plan_stage list \<Rightarrow> stage_context \<Rightarrow> (py_error + exec_result) option" where
  "layer_refusal batch ctx =
     (if length batch \<le> 1 then None
      else case check_layer (int (length batch)) batch (map (\<lambda>s. get_result ctx (stage_id s)) batch) of
        Inl e \<Rightarrow> Some (Inl e)
      | Inr v \<Rightarrow>
          if v_passed v then None
          else Some (Inr ((failed_at (hd batch) (Some (ByLayer (failures v))) (list_ex replan_on_failure batch))
            \<lparr>rejected_stage_ids := stage_ids batch\<rparr>)))"

text \<open>What ends the loop after a batch, if anything does.\<close>

definition after_batch :: "plan_stage list \<Rightarrow> batch_end \<Rightarrow> stage_context \<Rightarrow> (py_error + exec_result) option" where
  "after_batch batch e ctx = (case e of
     Raised x \<Rightarrow> Some (Inl x)
   | Cut \<Rightarrow> Some (Inr (failed_at (hd batch) None False))
   | Finished outs \<Rightarrow>
       (case first_with StageFailed outs of
          Some r \<Rightarrow> Some (Inr r)
        | None \<Rightarrow> (case layer_refusal batch ctx of
            Some r \<Rightarrow> Some r
          | None \<Rightarrow> map_option Inr (first_with Checkpoint outs))))"

section \<open>The loop over the batches\<close>

definition conclude :: "'w executor \<Rightarrow> execution_plan \<Rightarrow> stage_context \<times> 'w world \<Rightarrow> exec_result \<times> stage_context \<times> 'w world" where
  "conclude env p cw = (case cw of (ctx, w) \<Rightarrow>
     let last_summary = (if stages p \<noteq> [] \<and> tool (last (stages p)) = ''synthesize''
           then case get_result ctx (stage_id (last (stages p))) of None \<Rightarrow> [] | Some r \<Rightarrow> summary r
           else [])
     in if last_summary \<noteq> [] then ((ended Completed)\<lparr>final_answer := last_summary\<rparr>, ctx, w)
        else case synthesize (runners env) ctx w of ((answer, degraded), w') \<Rightarrow>
          ((ended Completed)\<lparr>final_answer := answer, exec_degraded := degraded\<rparr>, ctx, w'))"

definition stop_at :: "'w executor \<Rightarrow> execution_plan \<Rightarrow> bool \<Rightarrow> stage_context \<times> 'w world
    \<Rightarrow> exec_result \<times> stage_context \<times> 'w world" where
  "stop_at env p eligible cw =
     (case filter (\<lambda>s. \<not> completed (fst cw) (stage_id s)) (stages p) of
        s # _ \<Rightarrow> (failed_at s None eligible, cw)
      | [] \<Rightarrow> conclude env p cw)"

definition pipeline_step ::
  "'w executor \<Rightarrow> execution_plan \<Rightarrow> nat \<Rightarrow> rat option \<Rightarrow> bool \<Rightarrow> stage_context \<times> 'w world
    \<Rightarrow> (py_error + exec_result) option \<times> stage_context \<times> 'w world" where
  "pipeline_step env p resume dl bounded cw =
     (case cw of (ctx, w) \<Rightarrow>
      if length (results ctx) \<ge> length (stages p)
      then (case conclude env p cw of (x, cw1) \<Rightarrow> (Some (Inr x), cw1))
      else case past env dl w of (late, w1) \<Rightarrow>
        if late then (case stop_at env p False (ctx, w1) of (x, cw1) \<Rightarrow> (Some (Inr x), cw1))
        else
          (let batch = select_batch env (ready_stages p resume ctx) in
           if batch = [] then (case stop_at env p True (ctx, w1) of (x, cw1) \<Rightarrow> (Some (Inr x), cw1))
           else case run_batch env dl bounded batch
               (ctx\<lparr>current_stage_idx := stage_index p (stage_id (last batch))\<rparr>, w1) of (e, ctx2, w2) \<Rightarrow>
             (after_batch batch e ctx2, ctx2, w2)))"

definition execute ::
  "'w executor \<Rightarrow> execution_plan \<Rightarrow> nat \<Rightarrow> rat option \<Rightarrow> nat \<Rightarrow> stage_context \<times> 'w world
    \<Rightarrow> ((py_error + exec_result) \<times> stage_context \<times> 'w world) option" where
  "execute env p resume deadline fuel cw =
     (let budget = (if pipeline_wall_seconds env \<noteq> 0 then pipeline_wall_seconds env else agent_wall_seconds env) in
      if deadline \<noteq> None \<or> budget \<le> 0
      then run_steps (pipeline_step env p resume deadline (budget > 0)) fuel cw
      else case clock env (outer (snd cw)) of (t, o') \<Rightarrow>
        run_steps (pipeline_step env p resume (Some (t + of_int budget)) True) fuel (fst cw, (snd cw)\<lparr>outer := o'\<rparr>))"

section \<open>What a stage spends\<close>

lemma runner_executed:
  "run_sql_stage env q s w = (r, w') \<Longrightarrow> executed w' = executed w"
  "run_knowledge_stage env q s w = (r, w') \<Longrightarrow> executed w' = executed w"
  "run_analysis_stage env q s w = (r, w') \<Longrightarrow> executed w' = executed w"
  "run_process_data_stage env s ctx w = (r, w') \<Longrightarrow> executed w' = executed w"
  "run_mcp_stage env q s w = (r, w') \<Longrightarrow> executed w' = executed w"
  "run_analytics_stage env q s w = (r, w') \<Longrightarrow> executed w' = executed w"
  "run_git_stage env q s w = (r, w') \<Longrightarrow> executed w' = executed w"
  "synthesize_stage env s ctx w = (r, w') \<Longrightarrow> executed w' = executed w"
  by (auto simp: runner_defs Let_def dest: ask_executed split: prod.splits sum.splits option.splits if_splits exc.splits)

lemma execute_stage_executed:
  "execute_stage env s ctx err w = (r, w') \<Longrightarrow> executed w' = executed w @ [stage_id s]"
  by (auto simp: execute_stage_def Let_def dest!: runner_executed split: if_splits)

lemma past_executed: "past env dl w = (late, w') \<Longrightarrow> executed w' = executed w"
  by (auto simp: past_def split: option.splits prod.splits)

text \<open>Between two points of a stage, the budget pays for every execution.\<close>

definition spent :: "string \<Rightarrow> retry_budget \<Rightarrow> 'w world \<Rightarrow> retry_budget \<Rightarrow> 'w world \<Rightarrow> bool" where
  "spent sid b w b' w' \<longleftrightarrow> (\<exists>k. executed w' = executed w @ replicate k sid \<and>
     remaining b' = remaining b - int k \<and> (0 < k \<longrightarrow> 0 \<le> remaining b'))"

lemma spent_none: "executed w' = executed w \<Longrightarrow> spent sid b w b w'"
  by (auto simp: spent_def intro: exI [of _ 0])

lemma spent_trans:
  assumes "spent sid b w b1 w1" and "spent sid b1 w1 b2 w2"
  shows "spent sid b w b2 w2"
proof -
  from assms obtain j k where "executed w1 = executed w @ replicate j sid" "remaining b1 = remaining b - int j"
    "0 < j \<longrightarrow> 0 \<le> remaining b1" "executed w2 = executed w1 @ replicate k sid" "remaining b2 = remaining b1 - int k"
    "0 < k \<longrightarrow> 0 \<le> remaining b2" by (auto simp: spent_def)
  then show ?thesis unfolding spent_def by (intro exI [of _ "j + k"]) (auto simp: replicate_add)
qed

lemma consume_spends:
  assumes "consume env b w = (ok, b1, w1)"
  shows "executed w1 = executed w" and "\<not> ok \<Longrightarrow> b1 = b"
    and "ok \<Longrightarrow> remaining b1 = remaining b - 1 \<and> 0 \<le> remaining b1"
  using assms by (auto simp: consume_def dest: past_executed split: prod.splits if_splits)

lemma attempt_spends:
  assumes "consume env b w = (True, b1, w1)" "execute_stage renv s ctx err w1 = (r, w2)"
  shows "spent (stage_id s) b w b1 w2"
  using consume_spends [OF assms(1)] execute_stage_executed [OF assms(2)]
  by (auto simp: spent_def intro!: exI [of _ 1])

lemma has_retries_executed: "has_retries env b w = (again, w') \<Longrightarrow> executed w' = executed w"
  by (auto simp: has_retries_def dest: past_executed split: prod.splits)

lemma execute_attempts_spends:
  "execute_attempts env s ctx retries attempt res b w = (res', b', w') \<Longrightarrow> spent (stage_id s) b w b' w'"
proof (induction env s ctx retries attempt res b w rule: execute_attempts.induct)
  case (1 env s ctx retries attempt res b w)
  obtain ok b1 w1 where c: "consume env b w = (ok, b1, w1)" by (metis prod_cases3)
  show ?case
  proof (cases ok)
    case False
    with "1.prems" c have "b' = b1" "w' = w1" by (simp_all add: execute_attempts.simps [of env s])
    then show ?thesis using consume_spends [OF c] False by (auto intro: spent_none)
  next
    case True
    obtain r w2 where e: "execute_stage (runners env) s ctx None w1 = (r, w2)" by fastforce
    have step: "spent (stage_id s) b w b1 w2" using attempt_spends [OF _ e] c True by simp
    show ?thesis
    proof (cases "status r \<noteq> ''error'' \<or> \<not> retryable r \<or> attempt \<ge> retries")
      case True
      with "1.prems" c \<open>ok\<close> e have "b' = b1" "w' = w2" by (auto simp: execute_attempts.simps [of env s])
      with step show ?thesis by simp
    next
      case go: False
      obtain again w3 where h: "has_retries env b1 w2 = (again, w3)" by fastforce
      have mid: "spent (stage_id s) b w b1 w3"
        using spent_trans [OF step] spent_none [OF has_retries_executed [OF h]] .
      show ?thesis
      proof (cases again)
        case False
        with "1.prems" c \<open>ok\<close> e go h have "b' = b1" "w' = w3" by (auto simp: execute_attempts.simps [of env s])
        with mid show ?thesis by simp
      next
        case True
        with "1.prems" c \<open>ok\<close> e go h
        have rec: "execute_attempts env s ctx retries (attempt + 1) (Some r) b1 w3 = (res', b', w')"
          by (auto simp: execute_attempts.simps [of env s ctx retries attempt])
        from "1.IH" [OF c [symmetric] refl _ e [symmetric] go h [symmetric] _ rec] \<open>ok\<close> True
        have "spent (stage_id s) b1 w3 b' w'" by blast
        with mid show ?thesis by (rule spent_trans)
      qed
    qed
  qed
qed

text \<open>What an accepted result is: the validator and the data gate passed it.\<close>

definition sound_result :: "'w executor \<Rightarrow> plan_stage \<Rightarrow> stage_result \<Rightarrow> bool" where
  "sound_result env s r \<longleftrightarrow> acceptable (strict_rows env) s r \<and>
     (\<forall>qr. query_result r = Some qr \<longrightarrow> hard_checks (gate_config (runners env)) \<longrightarrow>
       (\<forall>i < length (columns qr). \<not> impossible_column (gate_config (runners env)) qr i))"

lemma acceptable_status: "acceptable strict s r \<Longrightarrow> status r \<noteq> ''error''"
  by (simp add: acceptable_def)

lemma sound_resultI:
  assumes "acceptable (strict_rows env) s r" "gate env s r ctx = Inr g" "g_passed g"
  shows "sound_result env s r"
  using assms acceptable_status [OF assms(1)] gate_passed [of "gate_config (runners env)" s r ctx g]
  by (auto simp: sound_result_def gate_def)

lemma judge_acceptable: "judge env s r ctx w = Inr v \<Longrightarrow> passed v \<longleftrightarrow> acceptable (strict_rows env) s r"
  unfolding judge_def by (rule passed_validate_async)

lemma retry_validation_spends:
  "retry_failed_validation env s ctx n v b w = (x, b', w') \<Longrightarrow>
    spent (stage_id s) b w b' w' \<and> (\<forall>r. x = Inr (Some r) \<longrightarrow> acceptable (strict_rows env) s r)"
proof (induction n arbitrary: v b w)
  case 0
  then show ?case by (auto intro: spent_none)
next
  case (Suc n)
  obtain ok b1 w1 where c: "consume env b w = (ok, b1, w1)" by (metis prod_cases3)
  show ?case
  proof (cases ok)
    case False
    with Suc.prems c consume_spends [OF c] show ?thesis by (auto intro: spent_none)
  next
    case True
    obtain r w2 where e: "execute_stage (runners env) s ctx (Some (ValidationErrors (errors v))) w1 = (r, w2)" by fastforce
    have step: "spent (stage_id s) b w b1 w2" using attempt_spends [OF _ e] c True by simp
    show ?thesis
    proof (cases "status r = ''error''")
      case error: True
      with Suc.prems c True e have "retry_failed_validation env s ctx n v b1 w2 = (x, b', w')" by simp
      from Suc.IH [OF this] show ?thesis using spent_trans [OF step] by blast
    next
      case fine: False
      show ?thesis
      proof (cases "judge env s r ctx w2")
        case (Inl err)
        with Suc.prems c True e fine step show ?thesis by auto
      next
        case (Inr v')
        show ?thesis
        proof (cases "passed v'")
          case pass: True
          with Suc.prems c True e fine Inr have x: "x = Inr (Some r)" "b' = b1" "w' = w2" by simp_all
          with pass judge_acceptable [OF Inr] step show ?thesis by simp
        next
          case False
          with Suc.prems c True e fine Inr have "retry_failed_validation env s ctx n v' b1 w2 = (x, b', w')" by simp
          from Suc.IH [OF this] show ?thesis using spent_trans [OF step] by blast
        qed
      qed
    qed
  qed
qed

lemma retry_data_gate_spends:
  "retry_failed_data_gate env s ctx n g b w = (x, b', w') \<Longrightarrow>
    spent (stage_id s) b w b' w' \<and> (\<forall>r. x = Inr (Some r) \<longrightarrow> sound_result env s r)"
proof (induction n arbitrary: b w)
  case 0
  then show ?case by (auto intro: spent_none)
next
  case (Suc n)
  obtain ok b1 w1 where c: "consume env b w = (ok, b1, w1)" by (metis prod_cases3)
  show ?case
  proof (cases ok)
    case False
    with Suc.prems c consume_spends [OF c] show ?thesis by (auto intro: spent_none)
  next
    case True
    obtain r w2 where e: "execute_stage (runners env) s ctx (Some (GateErrors (g_errors g) (suggestions g))) w1 = (r, w2)"
      by fastforce
    have step: "spent (stage_id s) b w b1 w2" using attempt_spends [OF _ e] c True by simp
    have again: ?thesis if "retry_failed_data_gate env s ctx n g b1 w2 = (x, b', w')"
      using Suc.IH [OF that] spent_trans [OF step] by blast
    show ?thesis
    proof (cases "status r = ''error''")
      case error: True
      with Suc.prems c True e show ?thesis by (intro again) simp
    next
      case fine: False
      show ?thesis
      proof (cases "judge env s r ctx w2")
        case (Inl err)
        with Suc.prems c True e fine step show ?thesis by auto
      next
        case judged: (Inr v)
        show ?thesis
        proof (cases "passed v")
          case False
          with Suc.prems c True e fine judged show ?thesis by (intro again) simp
        next
          case pass: True
          show ?thesis
          proof (cases "gate env s r ctx")
            case (Inl err)
            with Suc.prems c True e fine judged pass step show ?thesis by auto
          next
            case gate: (Inr g')
            show ?thesis
            proof (cases "g_passed g'")
              case False
              with Suc.prems c True e fine judged pass gate show ?thesis by (intro again) simp
            next
              case gp: True
              with Suc.prems c True e fine judged pass gate have x: "x = Inr (Some r)" "b' = b1" "w' = w2" by simp_all
              have "acceptable (strict_rows env) s r" using judge_acceptable [OF judged] pass by simp
              from sound_resultI [OF this gate gp] x step show ?thesis by simp
            qed
          qed
        qed
      qed
    qed
  qed
qed

lemma validated_spends:
  "validated env s ctx r b w = (x, b', w') \<Longrightarrow> spent (stage_id s) b w b' w' \<and>
    (\<forall>r'. x = Inr (Inr r') \<longrightarrow> acceptable (strict_rows env) s r') \<and> (\<forall>y. x = Inr (Inl y) \<longrightarrow> end_status y = StageFailed \<and> failed_validation y \<noteq> None)"
  by (auto simp: validated_def failed_at_def ended_def judge_acceptable spent_none
      split: sum.splits prod.splits option.splits if_splits dest!: retry_validation_spends)

lemma gated_spends:
  "gated env s ctx r b w = (x, b', w') \<Longrightarrow> acceptable (strict_rows env) s r \<Longrightarrow> spent (stage_id s) b w b' w' \<and>
    (\<forall>r'. x = Inr (Inr r') \<longrightarrow> sound_result env s r') \<and> (\<forall>y. x = Inr (Inl y) \<longrightarrow> end_status y = StageFailed \<and> failed_validation y \<noteq> None)"
  by (auto simp: gated_def failed_at_def ended_def spent_none intro: sound_resultI
      split: sum.splits prod.splits option.splits if_splits dest!: retry_data_gate_spends)

lemma execute_attempts_ran:
  assumes "execute_attempts env s ctx retries attempt None b w = (Some r, b', w')"
  shows "executed w' \<noteq> executed w"
proof -
  obtain ok b1 w1 where c: "consume env b w = (ok, b1, w1)" by (metis prod_cases3)
  with assms have ok: ok by (auto simp: execute_attempts.simps [of env s] split: if_splits)
  obtain r1 w2 where e: "execute_stage (runners env) s ctx None w1 = (r1, w2)" by fastforce
  have one: "executed w2 = executed w @ [stage_id s]"
    using execute_stage_executed [OF e] consume_spends(1) [OF c] by simp
  show ?thesis
  proof (cases "status r1 \<noteq> ''error'' \<or> \<not> retryable r1 \<or> attempt \<ge> retries")
    case True
    with assms c ok e one show ?thesis by (auto simp: execute_attempts.simps [of env s])
  next
    case go: False
    obtain again w3 where h: "has_retries env b1 w2 = (again, w3)" by fastforce
    show ?thesis
    proof (cases again)
      case False
      with assms c ok e go h one has_retries_executed [OF h] show ?thesis
        by (auto simp: execute_attempts.simps [of env s])
    next
      case True
      with assms c ok e go h have "execute_attempts env s ctx retries (attempt + 1) (Some r1) b1 w3 = (Some r, b', w')"
        by (auto simp: execute_attempts.simps [of env s ctx retries attempt])
      from execute_attempts_spends [OF this] one has_retries_executed [OF h] show ?thesis by (auto simp: spent_def)
    qed
  qed
qed

lemma with_retries_ran:
  "execute_with_retries env s ctx b w = (r, b', w') \<Longrightarrow> status r \<noteq> ''error'' \<Longrightarrow> executed w' \<noteq> executed w"
  by (auto simp: execute_with_retries_def error_result_def new_result_def dest: execute_attempts_ran
      split: prod.splits option.splits)

lemma spent_more: "spent sid b w b' w' \<Longrightarrow> executed w \<noteq> u \<Longrightarrow> length u \<le> length (executed w) \<Longrightarrow> executed w' \<noteq> u"
  by (auto simp: spent_def)

lemma with_retries_spends:
  "execute_with_retries env s ctx b w = (r, b', w') \<Longrightarrow> spent (stage_id s) b w b' w'"
  by (auto simp: execute_with_retries_def dest: execute_attempts_spends split: prod.splits)

text \<open>
  A stage is executed at most one time more than its retries, whichever loops use them; it
  leaves the context as it was, or adds one sound result to it.
\<close>

definition stage_effect ::
  "'w executor \<Rightarrow> plan_stage \<Rightarrow> stage_context \<Rightarrow> 'w world \<Rightarrow> py_error + exec_result option \<Rightarrow> stage_context \<Rightarrow> 'w world \<Rightarrow> bool" where
  "stage_effect env s ctx w x ctx' w' \<longleftrightarrow>
     (\<exists>k. executed w' = executed w @ replicate k (stage_id s) \<and> int k \<le> max 0 (stage_retries env s + 1)) \<and>
     (ctx' = ctx \<and> (\<forall>y. x = Inr y \<longrightarrow> (\<exists>z. y = Some z \<and> end_status z = StageFailed \<and> failed_validation z \<noteq> None)) \<or>
      (\<exists>r. sound_result env s r \<and> ctx' = set_result (stage_id s) r ctx \<and> executed w' \<noteq> executed w \<and>
        (\<exists>y. x = Inr y \<and> (\<forall>z. y = Some z \<longrightarrow> end_status z = Checkpoint))))"

lemma process_one_stage_effect:
  assumes "process_one_stage env dl s (ctx, w) = (x, ctx', w')"
  shows "stage_effect env s ctx w x ctx' w'"
proof -
  let ?b = "new_budget (stage_retries env s) dl"
  obtain r b1 w1 where r: "execute_with_retries env s ctx ?b w = (r, b1, w1)" by (metis prod_cases3)
  note s1 = with_retries_spends [OF r]
  have bound: "\<exists>k. executed u = executed w @ replicate k (stage_id s) \<and> int k \<le> max 0 (stage_retries env s + 1)"
    if "spent (stage_id s) ?b w b u" for b u
    using that by (auto simp: spent_def new_budget_def)
  show ?thesis
  proof (cases "status r = ''error''")
    case True
    with assms r bound [OF s1] show ?thesis
      by (auto simp: process_one_stage_def stage_effect_def failed_at_def ended_def)
  next
    case fine: False
    obtain v b2 w2 where v: "validated env s ctx r b1 w1 = (v, b2, w2)" by (metis prod_cases3)
    note vs = validated_spends [OF v]
    note s2 = spent_trans [OF s1 conjunct1 [OF vs]]
    consider (raise) e where "v = Inl e" | (fail) y where "v = Inr (Inl y)" | (pass) r2 where "v = Inr (Inr r2)"
      by (metis sum.exhaust)
    then show ?thesis
    proof cases
      case raise
      with assms r fine v bound [OF s2] show ?thesis
        by (auto simp: process_one_stage_def stage_effect_def)
    next
      case fail
      with assms r fine v bound [OF s2] vs show ?thesis
        by (auto simp: process_one_stage_def stage_effect_def)
    next
      case pass
      with vs have acc: "acceptable (strict_rows env) s r2" by simp
      obtain g b3 w3 where g: "gated env s ctx r2 b2 w2 = (g, b3, w3)" by (metis prod_cases3)
      note gs = gated_spends [OF g acc]
      note s3 = spent_trans [OF s2 conjunct1 [OF gs]]
      consider (raise) e where "g = Inl e" | (fail) y where "g = Inr (Inl y)" | (pass) r3 where "g = Inr (Inr r3)"
        by (metis sum.exhaust)
      then show ?thesis
      proof cases
        case raise
        with assms r fine v pass g bound [OF s3] show ?thesis
          by (auto simp: process_one_stage_def stage_effect_def)
      next
        case fail
        with assms r fine v pass g bound [OF s3] gs show ?thesis
          by (auto simp: process_one_stage_def stage_effect_def)
      next
        case last: (pass r3)
        with assms r fine v pass g have "ctx' = set_result (stage_id s) r3 ctx" "w' = w3"
          "x = Inr (if checkpoint s then Some ((ended Checkpoint)\<lparr>checkpoint_stage := Some s, checkpoint_result := Some r3\<rparr>) else None)"
          by (simp_all add: process_one_stage_def)
        moreover have "sound_result env s r3" using gs last by simp
        moreover have "executed w3 \<noteq> executed w"
        proof -
          have "executed w1 \<noteq> executed w" by (rule with_retries_ran [OF r fine])
          moreover have "length (executed w) \<le> length (executed w1)" using s1 by (auto simp: spent_def)
          moreover note spent_trans [OF conjunct1 [OF vs] conjunct1 [OF gs]]
          ultimately show ?thesis using spent_more by blast
        qed
        ultimately show ?thesis using bound [OF s3]
          unfolding stage_effect_def by (auto simp: ended_def split: if_splits)
      qed
    qed
  qed
qed

section \<open>What a batch does\<close>

lemma get_set_result: "get_result (set_result sid r ctx) x = (if x = sid then Some r else get_result ctx x)"
  by (simp add: get_result_def set_result_def odict_simps)

lemma completed_set_result: "completed (set_result sid r ctx) x \<longleftrightarrow> x = sid \<or> completed ctx x"
  by (simp add: completed_def get_set_result)

definition allowance :: "'w executor \<Rightarrow> plan_stage \<Rightarrow> int" where
  "allowance env s = max 0 (stage_retries env s + 1)"

text \<open>The stages run, one after another, in the history \<open>h\<close>.\<close>

definition batch_effect ::
  "'w executor \<Rightarrow> (nat \<times> plan_stage) list \<Rightarrow> stage_context \<Rightarrow> (nat \<times> (py_error + exec_result option)) list
    \<Rightarrow> stage_context \<Rightarrow> string list \<Rightarrow> bool" where
  "batch_effect env ss ctx xs ctx' h \<longleftrightarrow>
     map fst xs = map fst ss \<and>
     (\<forall>x. completed ctx x \<longrightarrow> completed ctx' x) \<and>
     (\<forall>x r. get_result ctx' x = Some r \<longrightarrow> get_result ctx x = Some r \<or>
        (\<exists>s \<in> snd ` set ss. stage_id s = x \<and> sound_result env s r)) \<and>
     set h \<subseteq> stage_id ` snd ` set ss \<and>
     (\<forall>x. completed ctx' x \<longrightarrow> completed ctx x \<or> x \<in> set h) \<and>
     (distinct (map (\<lambda>y. stage_id (snd y)) ss) \<longrightarrow>
        (\<forall>s \<in> snd ` set ss. int (count_list h (stage_id s)) \<le> allowance env s)) \<and>
     (\<forall>(i, x) \<in> set xs. (\<exists>y. x = Inr y \<and> (\<forall>z. y = Some z \<longrightarrow> end_status z \<noteq> StageFailed)) \<longrightarrow>
        (\<exists>s. (i, s) \<in> set ss \<and> completed ctx' (stage_id s)))"

lemma batch_effectD:
  assumes "batch_effect env ss ctx xs ctx' h"
  shows "map fst xs = map fst ss"
    and "\<And>x. completed ctx x \<Longrightarrow> completed ctx' x"
    and "\<And>x r. get_result ctx' x = Some r \<Longrightarrow> get_result ctx x = Some r \<or>
        (\<exists>s \<in> snd ` set ss. stage_id s = x \<and> sound_result env s r)"
    and "set h \<subseteq> stage_id ` snd ` set ss"
    and "\<And>x. completed ctx' x \<Longrightarrow> completed ctx x \<or> x \<in> set h"
    and "distinct (map (\<lambda>y. stage_id (snd y)) ss) \<Longrightarrow>
        \<forall>s \<in> snd ` set ss. int (count_list h (stage_id s)) \<le> allowance env s"
    and "\<And>i y. (i, Inr y) \<in> set xs \<Longrightarrow> \<forall>z. y = Some z \<longrightarrow> end_status z \<noteq> StageFailed \<Longrightarrow>
        \<exists>s. (i, s) \<in> set ss \<and> completed ctx' (stage_id s)"
proof -
  note b = assms [unfolded batch_effect_def]
  show "map fst xs = map fst ss" using b by (elim conjE)
  show "completed ctx' x" if "completed ctx x" for x using b that by (elim conjE) simp
  show "get_result ctx x = Some r \<or> (\<exists>s \<in> snd ` set ss. stage_id s = x \<and> sound_result env s r)"
    if "get_result ctx' x = Some r" for x r using b that by (elim conjE) simp
  show "set h \<subseteq> stage_id ` snd ` set ss" using b by (elim conjE)
  show "completed ctx x \<or> x \<in> set h" if "completed ctx' x" for x using b that by (elim conjE) simp
  show "\<forall>s \<in> snd ` set ss. int (count_list h (stage_id s)) \<le> allowance env s"
    if "distinct (map (\<lambda>y. stage_id (snd y)) ss)" using b that by (elim conjE) simp
  show "\<exists>s. (i, s) \<in> set ss \<and> completed ctx' (stage_id s)"
    if "(i, Inr y) \<in> set xs" "\<forall>z. y = Some z \<longrightarrow> end_status z \<noteq> StageFailed" for i y
  proof -
    from b have "\<forall>(i, x) \<in> set xs. (\<exists>y. x = Inr y \<and> (\<forall>z. y = Some z \<longrightarrow> end_status z \<noteq> StageFailed)) \<longrightarrow>
        (\<exists>s. (i, s) \<in> set ss \<and> completed ctx' (stage_id s))" by (elim conjE)
    from bspec [OF this that(1)] that(2) show ?thesis by simp
  qed
qed

lemma count_list_absent: "x \<notin> set xs \<Longrightarrow> count_list xs x = 0"
  by (rule count_notin)

lemma count_list_replicate: "count_list (replicate k x) y = (if x = y then k else 0)"
  by (induction k) auto

lemma run_all_effect:
  "run_all env dl ss (ctx, w) = (xs, ctx', w') \<Longrightarrow>
    \<exists>h. executed w' = executed w @ h \<and> batch_effect env ss ctx xs ctx' h"
proof (induction ss arbitrary: ctx w xs)
  case Nil
  then show ?case by (auto simp: batch_effect_def intro!: exI [of _ "[]"])
next
  case (Cons a ss)
  obtain i s where a: "a = (i, s)" by fastforce
  obtain x c1 w1 where p: "process_one_stage env dl s (ctx, w) = (x, c1, w1)" by (metis prod_cases3)
  obtain ys where r: "run_all env dl ss (c1, w1) = (ys, ctx', w')" and xs: "xs = (i, x) # ys"
    using Cons.prems a p by (auto split: prod.splits)
  from Cons.IH [OF r] obtain h2 where h2: "executed w' = executed w1 @ h2" and tl: "batch_effect env ss c1 ys ctx' h2"
    by blast
  note eff = process_one_stage_effect [OF p, unfolded stage_effect_def]
  then obtain k where k: "executed w1 = executed w @ replicate k (stage_id s)" "int k \<le> allowance env s"
    by (auto simp: allowance_def)
  let ?h = "replicate k (stage_id s) @ h2"
  have h: "executed w' = executed w @ ?h" using h2 k(1) by simp
  note t1 = batch_effectD(1) [OF tl] and t2 = batch_effectD(2) [OF tl] and t3 = batch_effectD(3) [OF tl]
    and t4 = batch_effectD(4) [OF tl] and t5 = batch_effectD(5) [OF tl] and t6 = batch_effectD(6) [OF tl]
    and t7 = batch_effectD(7) [OF tl]
  have c1: "c1 = ctx \<and> (\<forall>y. x = Inr y \<longrightarrow> (\<exists>z. y = Some z \<and> end_status z = StageFailed)) \<or>
      (\<exists>r. sound_result env s r \<and> c1 = set_result (stage_id s) r ctx \<and> 0 < k)"
    using eff k(1) by auto
  have "batch_effect env (a # ss) ctx xs ctx' ?h"
    unfolding batch_effect_def
  proof (intro conjI)
    show "map fst xs = map fst (a # ss)" using t1 xs a by simp
    show "\<forall>x. completed ctx x \<longrightarrow> completed ctx' x" using c1 t2 by (auto simp: completed_set_result)
    show "\<forall>x r. get_result ctx' x = Some r \<longrightarrow> get_result ctx x = Some r \<or>
        (\<exists>s \<in> snd ` set (a # ss). stage_id s = x \<and> sound_result env s r)"
    proof (intro allI impI)
      fix y q assume "get_result ctx' y = Some q"
      from t3 [OF this] show "get_result ctx y = Some q \<or> (\<exists>s \<in> snd ` set (a # ss). stage_id s = y \<and> sound_result env s q)"
        using c1 a by (auto simp: get_set_result split: if_splits)
    qed
    show "set ?h \<subseteq> stage_id ` snd ` set (a # ss)" using t4 a by auto
    show "\<forall>x. completed ctx' x \<longrightarrow> completed ctx x \<or> x \<in> set ?h"
    proof (intro allI impI)
      fix y assume "completed ctx' y"
      from t5 [OF this] show "completed ctx y \<or> y \<in> set ?h" using c1 by (auto simp: completed_set_result)
    qed
    show "distinct (map (\<lambda>y. stage_id (snd y)) (a # ss)) \<longrightarrow>
        (\<forall>s \<in> snd ` set (a # ss). int (count_list ?h (stage_id s)) \<le> allowance env s)"
    proof
      assume d: "distinct (map (\<lambda>y. stage_id (snd y)) (a # ss))"
      then have fresh: "stage_id s \<notin> stage_id ` snd ` set ss" and ds: "distinct (map (\<lambda>y. stage_id (snd y)) ss)"
        using a by (auto simp: image_image)
      have "int (count_list ?h (stage_id s)) \<le> allowance env s"
      proof -
        have "stage_id s \<notin> set h2" using fresh t4 by blast
        then show ?thesis using k(2) by (simp add: count_list_append count_list_replicate count_list_absent)
      qed
      moreover have "int (count_list ?h (stage_id t)) \<le> allowance env t" if "t \<in> snd ` set ss" for t
        using that fresh t6 [OF ds] by (auto simp: count_list_append count_list_replicate)
      ultimately show "\<forall>s \<in> snd ` set (a # ss). int (count_list ?h (stage_id s)) \<le> allowance env s"
        using a by auto
    qed
    have here: "completed ctx' (stage_id s)" if "\<exists>y. x = Inr y \<and> (\<forall>z. y = Some z \<longrightarrow> end_status z \<noteq> StageFailed)"
      using c1 that by (auto intro: t2 simp: completed_set_result)
    show "\<forall>(i, x) \<in> set xs. (\<exists>y. x = Inr y \<and> (\<forall>z. y = Some z \<longrightarrow> end_status z \<noteq> StageFailed)) \<longrightarrow>
        (\<exists>s. (i, s) \<in> set (a # ss) \<and> completed ctx' (stage_id s))"
    proof (intro ballI, clarify)
      fix j z y assume m: "(j, Inr y) \<in> set xs" and ok: "\<forall>z. y = Some z \<longrightarrow> end_status z \<noteq> StageFailed"
      show "\<exists>s. (j, s) \<in> set (a # ss) \<and> completed ctx' (stage_id s)"
      proof (cases "(j, Inr y) = (i, x)")
        case True
        then show ?thesis using here ok a by auto
      next
        case False
        with m xs have "(j, Inr y) \<in> set ys" by auto
        from t7 [OF this] ok show ?thesis by auto
      qed
    qed
  qed
  with h show ?case by blast
qed

text \<open>The order of a batch's stages is a permutation of them.\<close>

lemma batch_order:
  fixes f :: "nat \<times> plan_stage \<Rightarrow> nat"
  shows "snd ` set (take n (sort_key f (enumerate 0 batch))) \<subseteq> set batch"
    and "distinct (stage_ids batch) \<Longrightarrow> distinct (map (\<lambda>y. stage_id (snd y)) (take n (sort_key f (enumerate 0 batch))))"
    and "length batch \<le> n \<Longrightarrow> set (take n (sort_key f (enumerate 0 batch))) = set (enumerate 0 batch)"
    and "distinct (map fst (sort_key f (enumerate 0 batch)))"
proof -
  have "snd ` set (enumerate 0 batch) = set batch" by (simp flip: set_map)
  then show "snd ` set (take n (sort_key f (enumerate 0 batch))) \<subseteq> set batch"
    using set_take_subset [of n "sort_key f (enumerate 0 batch)"] by auto
  show "set (take n (sort_key f (enumerate 0 batch))) = set (enumerate 0 batch)" if "length batch \<le> n"
    using that by simp
  have perm: "mset (map g (sort_key f (enumerate 0 batch))) = mset (map g (enumerate 0 batch))" for g :: "nat \<times> plan_stage \<Rightarrow> 'b"
    by simp
  have "distinct (map fst (enumerate 0 batch))" by (simp add: distinct_enumerate)
  then show "distinct (map fst (sort_key f (enumerate 0 batch)))"
    using perm [of fst] by (metis mset_eq_imp_distinct_iff)
  show "distinct (map (\<lambda>y. stage_id (snd y)) (take n (sort_key f (enumerate 0 batch))))" if "distinct (stage_ids batch)"
  proof -
    have "map (\<lambda>y. stage_id (snd y)) (enumerate 0 batch) = stage_ids batch"
      unfolding stage_ids_def by (simp flip: map_map [of stage_id snd, unfolded comp_def])
    with that perm [of "\<lambda>y. stage_id (snd y)"]
    have "distinct (map (\<lambda>y. stage_id (snd y)) (sort_key f (enumerate 0 batch)))"
      by (metis mset_eq_imp_distinct_iff)
    then show ?thesis by (simp add: take_map [symmetric])
  qed
qed

lemma run_all_failures:
  "run_all env dl ss cw = (xs, cw') \<Longrightarrow> (i, Inr (Some z)) \<in> set xs \<Longrightarrow> end_status z = StageFailed \<Longrightarrow>
    failed_validation z \<noteq> None"
proof (induction ss arbitrary: cw xs)
  case (Cons a ss)
  obtain j s where a: "a = (j, s)" by fastforce
  obtain ctx w where cw: "cw = (ctx, w)" by fastforce
  obtain x c1 w1 where p: "process_one_stage env dl s (ctx, w) = (x, c1, w1)" by (metis prod_cases3)
  obtain ys where r: "run_all env dl ss (c1, w1) = (ys, cw')" and xs: "xs = (j, x) # ys"
    using Cons.prems(1) a cw p by (auto split: prod.splits)
  show ?case
  proof (cases "(i, Inr (Some z)) \<in> set ys")
    case True
    with Cons.IH [OF r] Cons.prems(3) show ?thesis by blast
  next
    case False
    with Cons.prems(2) xs have "x = Inr (Some z)" by simp
    with process_one_stage_effect [OF p] Cons.prems(3) show ?thesis by (auto simp: stage_effect_def)
  qed
qed simp

lemma run_all_keeps:
  "run_all env dl ss (ctx, w) = (xs, ctx', w') \<Longrightarrow> od_ok (results ctx) \<Longrightarrow> od_ok (results ctx')"
proof (induction ss arbitrary: ctx w xs)
  case (Cons a ss)
  obtain j s where a: "a = (j, s)" by fastforce
  obtain x c1 w1 where p: "process_one_stage env dl s (ctx, w) = (x, c1, w1)" by (metis prod_cases3)
  obtain ys where r: "run_all env dl ss (c1, w1) = (ys, ctx', w')"
    using Cons.prems(1) a p by (auto split: prod.splits)
  have "od_ok (results c1)"
    using process_one_stage_effect [OF p] Cons.prems(2) by (auto simp: stage_effect_def set_result_def)
  with Cons.IH [OF r] show ?case by blast
qed simp

lemma first_with_None: "first_with st xs = None \<longleftrightarrow> (\<forall>r. Some r \<in> set xs \<longrightarrow> end_status r \<noteq> st)"
  by (induction xs) (auto split: option.splits)

lemma first_with_Some: "first_with st xs = Some r \<Longrightarrow> Some r \<in> set xs \<and> end_status r = st"
  by (induction xs) (auto split: option.splits if_splits)

lemma run_batch_effect:
  assumes "run_batch env dl bounded batch (ctx, w) = (e, ctx', w')"
  obtains h where "executed w' = executed w @ h" "set h \<subseteq> set (stage_ids batch)"
    "\<And>x. completed ctx x \<Longrightarrow> completed ctx' x"
    "\<And>x. completed ctx' x \<Longrightarrow> completed ctx x \<or> x \<in> set h"
    "\<And>x r. get_result ctx' x = Some r \<Longrightarrow> get_result ctx x = Some r \<or> (\<exists>s \<in> set batch. stage_id s = x \<and> sound_result env s r)"
    "distinct (stage_ids batch) \<Longrightarrow> \<forall>s \<in> set batch. int (count_list h (stage_id s)) \<le> allowance env s"
    "\<And>outs. e = Finished outs \<Longrightarrow> first_with StageFailed outs = None \<Longrightarrow> \<forall>s \<in> set batch. completed ctx' (stage_id s)"
    "od_ok (results ctx) \<Longrightarrow> od_ok (results ctx')"
    "\<And>outs z. e = Finished outs \<Longrightarrow> Some z \<in> set outs \<Longrightarrow> end_status z = StageFailed \<Longrightarrow> failed_validation z \<noteq> None"
proof -
  define order where "order = sort_key (\<lambda>(i, s). arrival env (outer w) i) (enumerate 0 batch)"
  define allowed where "allowed = (case (if bounded then cut_after env (outer w) else None) of None \<Rightarrow> length batch | Some k \<Rightarrow> k)"
  obtain xs c1 w1 where r: "run_all env dl (take allowed order) (ctx, w) = (xs, c1, w1)" by (metis prod_cases3)
  have st: "ctx' = c1" "w' = w1"
    and e: "e = (if allowed < length batch then Cut
         else case lone_error batch xs of
           Some e \<Rightarrow> Raised e
         | None \<Rightarrow> Finished (map (\<lambda>(i, s). raised_outcome s (case map_of xs i of None \<Rightarrow> Inr None | Some x \<Rightarrow> x))
             (enumerate 0 batch)))"
    using assms unfolding run_batch_def Let_def snd_conv order_def [symmetric] allowed_def [symmetric] r by simp_all
  from run_all_effect [OF r] obtain h where h: "executed w1 = executed w @ h"
    and eff: "batch_effect env (take allowed order) ctx xs c1 h" by blast
  have sub: "snd ` set (take allowed order) \<subseteq> set batch" unfolding order_def by (rule batch_order(1))
  show thesis
  proof
    show "executed w' = executed w @ h" using h st by simp
    show "set h \<subseteq> set (stage_ids batch)" using batch_effectD(4) [OF eff] sub unfolding stage_ids_def by force
    show "completed ctx x \<Longrightarrow> completed ctx' x" for x using batch_effectD(2) [OF eff] st by simp
    show "completed ctx' x \<Longrightarrow> completed ctx x \<or> x \<in> set h" for x using batch_effectD(5) [OF eff] st by simp
    show "get_result ctx' x = Some r \<Longrightarrow> get_result ctx x = Some r \<or> (\<exists>s \<in> set batch. stage_id s = x \<and> sound_result env s r)" for x r
      using batch_effectD(3) [OF eff] st sub by blast
    show "\<forall>s \<in> set batch. int (count_list h (stage_id s)) \<le> allowance env s" if d: "distinct (stage_ids batch)"
    proof
      fix s assume s: "s \<in> set batch"
      show "int (count_list h (stage_id s)) \<le> allowance env s"
      proof (cases "stage_id s \<in> set h")
        case False
        then show ?thesis by (simp add: count_list_absent allowance_def)
      next
        case True
        then obtain t where t: "t \<in> snd ` set (take allowed order)" "stage_id t = stage_id s"
          using batch_effectD(4) [OF eff] by force
        then have "t = s" using sub s d unfolding stage_ids_def by (metis distinct_map inj_on_def subsetD)
        moreover have "distinct (map (\<lambda>y. stage_id (snd y)) (take allowed order))"
          unfolding order_def by (rule batch_order(2) [OF d])
        ultimately show ?thesis using batch_effectD(6) [OF eff] t by blast
      qed
    qed
    show "od_ok (results ctx')" if "od_ok (results ctx)" using run_all_keeps [OF r that] st by simp
    show "failed_validation z \<noteq> None" if f: "e = Finished outs" and z: "Some z \<in> set outs" "end_status z = StageFailed" for outs z
    proof -
      have "outs = map (\<lambda>(i, s). raised_outcome s (case map_of xs i of None \<Rightarrow> Inr None | Some x \<Rightarrow> x)) (enumerate 0 batch)"
        using e f by (auto split: option.splits if_splits)
      with z(1) obtain i s where "raised_outcome s (case map_of xs i of None \<Rightarrow> Inr None | Some x \<Rightarrow> x) = Some z" by force
      then show ?thesis
        using run_all_failures [OF r _ z(2)] map_of_SomeD [of xs i]
        by (auto simp: raised_outcome_def failed_at_def ended_def split: option.splits sum.splits)
    qed
    show "\<forall>s \<in> set batch. completed ctx' (stage_id s)" if f: "e = Finished outs" and ok: "first_with StageFailed outs = None" for outs
    proof
      fix s assume "s \<in> set batch"
      then obtain i where "i < length batch" "s = batch ! i" by (metis in_set_conv_nth)
      then have i: "(i, s) \<in> set (enumerate 0 batch)" by (simp add: in_set_enumerate_eq)
      have le: "length batch \<le> allowed" using e f by (auto split: if_splits)
      have outs: "outs = map (\<lambda>(i, s). raised_outcome s (case map_of xs i of None \<Rightarrow> Inr None | Some x \<Rightarrow> x)) (enumerate 0 batch)"
        using e f le by (auto split: option.splits)
      have all: "set (take allowed order) = set (enumerate 0 batch)" unfolding order_def by (rule batch_order(3) [OF le])
      have keys: "map fst xs = map fst (take allowed order)" by (rule batch_effectD(1) [OF eff])
      have dist: "distinct (map fst xs)"
        unfolding keys take_map [symmetric] order_def by (intro distinct_take batch_order(4))
      have "i \<in> set (map fst xs)" unfolding keys using i all by force
      then obtain x where x: "map_of xs i = Some x" by (metis image_set map_of_eq_None_iff option.exhaust)
      have "raised_outcome s x \<in> set outs" unfolding outs using i x by force
      then obtain y where y: "x = Inr y" "\<forall>z. y = Some z \<longrightarrow> end_status z \<noteq> StageFailed"
        using ok unfolding first_with_None raised_outcome_def by (cases x) (auto simp: failed_at_def ended_def)
      have "(i, Inr y) \<in> set xs" using x y(1) by (auto dest: map_of_SomeD)
      from batch_effectD(7) [OF eff this y(2)] obtain t where t: "(i, t) \<in> set (enumerate 0 batch)" "completed c1 (stage_id t)"
        using all by auto
      then have "t = s" using i by (simp add: in_set_enumerate_eq)
      with t st show "completed ctx' (stage_id s)" by simp
    qed
  qed
qed

end
