(* ===== verification/PipelineRuns.thy ===== *)
theory PipelineRuns
  imports StageExecutor
begin

text \<open>
  What a run of the stage executor does, from its first batch to its result: the invariant of
  the loop, its termination, and the properties of the result. A run starts in a context that
  may already hold results (a resumed or replanned pipeline).
\<close>

section \<open>The invariant\<close>

text \<open>Every execution comes after the dependencies of its stage.\<close>

definition ordered :: "execution_plan \<Rightarrow> (string \<Rightarrow> bool) \<Rightarrow> string list \<Rightarrow> bool" where
  "ordered p before h \<longleftrightarrow> (\<forall>h1 x h2. h = h1 @ x # h2 \<longrightarrow>
     (\<exists>s \<in> set (stages p). stage_id s = x \<and> (\<forall>d \<in> set (depends_on s). before d \<or> d \<in> set h1)))"

lemma ordered_append:
  assumes "ordered p before h"
    and "\<And>x. x \<in> set g \<Longrightarrow> \<exists>s \<in> set (stages p). stage_id s = x \<and> (\<forall>d \<in> set (depends_on s). before d \<or> d \<in> set h)"
  shows "ordered p before (h @ g)"
  unfolding ordered_def
proof (intro allI impI)
  fix h1 x h2 assume eq: "h @ g = h1 @ x # h2"
  show "\<exists>s \<in> set (stages p). stage_id s = x \<and> (\<forall>d \<in> set (depends_on s). before d \<or> d \<in> set h1)"
  proof (cases "length h1 < length h")
    case True
    with eq have "h = h1 @ x # take (length h - length h1 - 1) h2"
      by (metis append_eq_append_conv_if butlast_take not_less_iff_gr_or_eq append_take_drop_id
          Cons_nth_drop_Suc take_all_iff less_imp_le_nat append_eq_conv_conj take_Cons' take_append diff_is_0_eq
          zero_less_diff less_numeral_extra(3))
    with assms(1) show ?thesis unfolding ordered_def by blast
  next
    case False
    with eq obtain g1 where "h1 = h @ g1" "g = g1 @ x # h2"
      by (metis append_eq_append_conv_if append_eq_append_conv2 append.assoc append_take_drop_id leI)
    with assms(2) [of x] show ?thesis by auto
  qed
qed

text \<open>A history, and the context it leaves.\<close>

definition run_ok :: "'w executor \<Rightarrow> execution_plan \<Rightarrow> stage_context \<Rightarrow> string list \<Rightarrow> stage_context \<Rightarrow> bool" where
  "run_ok env p ctx0 h ctx \<longleftrightarrow>
     ordered p (completed ctx0) h \<and>
     (\<forall>x. completed ctx0 x \<longrightarrow> completed ctx x) \<and>
     (\<forall>x. completed ctx x \<longrightarrow> completed ctx0 x \<or> x \<in> set h) \<and>
     (\<forall>x r. get_result ctx x = Some r \<longrightarrow> get_result ctx0 x = Some r \<or>
        (\<exists>s \<in> set (stages p). stage_id s = x \<and> sound_result env s r)) \<and>
     (\<forall>s \<in> set (stages p). int (count_list h (stage_id s)) \<le> allowance env s) \<and>
     (od_ok (results ctx0) \<longrightarrow> od_ok (results ctx))"

definition going :: "'w executor \<Rightarrow> execution_plan \<Rightarrow> stage_context \<times> 'w world \<Rightarrow> stage_context \<times> 'w world \<Rightarrow> bool" where
  "going env p start cw \<longleftrightarrow> (\<exists>h. executed (snd cw) = executed (snd start) @ h \<and> run_ok env p (fst start) h (fst cw) \<and>
     (\<forall>x \<in> set h. completed (fst cw) x))"

definition unfinished :: "execution_plan \<Rightarrow> stage_context \<times> 'w world \<Rightarrow> nat" where
  "unfinished p cw = length (filter (\<lambda>s. \<not> completed (fst cw) (stage_id s)) (stages p))"

lemma going_start: "going env p start start"
  unfolding going_def by (intro exI [of _ "[]"]) (simp add: run_ok_def ordered_def allowance_def)

lemma conclude_keeps:
  assumes "conclude env p (ctx, w) = (x, ctx', w')"
  shows "ctx' = ctx" "executed w' = executed w" "end_status x = Completed"
proof -
  obtain ans deg w1 where y: "synthesize (runners env) ctx w = ((ans, deg), w1)" by (metis surj_pair)
  then have w1: "executed w1 = executed w"
    by (auto simp: synthesize_def dest: ask_executed split: prod.splits sum.splits)
  define ls where "ls = (if stages p \<noteq> [] \<and> tool (last (stages p)) = ''synthesize''
           then case get_result ctx (stage_id (last (stages p))) of None \<Rightarrow> [] | Some r \<Rightarrow> summary r
           else [])"
  have "conclude env p (ctx, w) = (if ls \<noteq> [] then ((ended Completed)\<lparr>final_answer := ls\<rparr>, ctx, w)
      else ((ended Completed)\<lparr>final_answer := ans, exec_degraded := deg\<rparr>, ctx, w1))"
    unfolding conclude_def Let_def ls_def [symmetric] prod.case y by simp
  with assms w1 show "ctx' = ctx" "executed w' = executed w" "end_status x = Completed"
    by (auto simp: ended_def split: if_splits)
qed

lemma stop_at_keeps:
  assumes "stop_at env p b (ctx, w) = (x, ctx', w')"
  shows "ctx' = ctx" "executed w' = executed w"
    and "end_status x = Completed \<Longrightarrow> \<forall>s \<in> set (stages p). completed ctx (stage_id s)"
    and "end_status x \<noteq> Completed \<Longrightarrow> end_status x = StageFailed \<and> failed_validation x = None \<and> replan_eligible x = b
      \<and> (\<exists>s \<in> set (stages p). \<not> completed ctx (stage_id s))"
proof -
  show "ctx' = ctx" "executed w' = executed w"
    using assms by (auto simp: stop_at_def split: list.splits dest: conclude_keeps)
  show "\<forall>s \<in> set (stages p). completed ctx (stage_id s)" if "end_status x = Completed"
    using assms that by (auto simp: stop_at_def failed_at_def ended_def filter_empty_conv split: list.splits)
  assume n: "end_status x \<noteq> Completed"
  then obtain s ss where f: "filter (\<lambda>s. \<not> completed ctx (stage_id s)) (stages p) = s # ss"
    using assms by (auto simp: stop_at_def split: list.splits dest: conclude_keeps)
  then have "s \<in> set (filter (\<lambda>s. \<not> completed ctx (stage_id s)) (stages p))" by simp
  then have "s \<in> set (stages p) \<and> \<not> completed ctx (stage_id s)" by simp
  with f assms show "end_status x = StageFailed \<and> failed_validation x = None \<and> replan_eligible x = b
      \<and> (\<exists>s \<in> set (stages p). \<not> completed ctx (stage_id s))"
    by (auto simp: stop_at_def failed_at_def ended_def)
qed

lemma through_checkpoint_prefix: "\<exists>r. ss = through_checkpoint ss @ r"
  by (induction ss) auto

lemma select_batch_prefix: "\<exists>r. ready = select_batch env ready @ r"
  unfolding select_batch_def
  using through_checkpoint_prefix [of "take (nat (max 1 (max_parallel_stages env))) ready"]
  by (metis append.assoc append_take_drop_id)

lemma select_batch_Nil: "select_batch env ready = [] \<longleftrightarrow> ready = []"
proof (cases ready)
  case (Cons s ss)
  obtain n where "nat (max 1 (max_parallel_stages env)) = Suc n"
    by (cases "nat (max 1 (max_parallel_stages env))") auto
  with Cons show ?thesis by (simp add: select_batch_def)
qed (simp add: select_batch_def)

lemma select_ready:
  assumes "batch = select_batch env (ready_stages p resume ctx)"
  shows "set batch \<subseteq> set (stages p)"
    and "\<And>s. s \<in> set batch \<Longrightarrow> \<not> completed ctx (stage_id s) \<and> (\<forall>d \<in> set (depends_on s). completed ctx d)"
    and "distinct (stage_ids (stages p)) \<Longrightarrow> distinct (stage_ids batch)"
proof -
  obtain r where r: "ready_stages p resume ctx = batch @ r" using select_batch_prefix assms by metis
  then have sub: "set batch \<subseteq> set (ready_stages p resume ctx)" by simp
  then show "set batch \<subseteq> set (stages p)" by (auto simp: ready_stages_def)
  show "\<not> completed ctx (stage_id s) \<and> (\<forall>d \<in> set (depends_on s). completed ctx d)" if "s \<in> set batch" for s
    using sub that by (auto simp: ready_stages_def list_all_iff)
  assume "distinct (stage_ids (stages p))"
  then have "distinct (stage_ids (ready_stages p resume ctx))"
    by (simp add: stage_ids_def ready_stages_def distinct_map_filter)
  then show "distinct (stage_ids batch)" unfolding r by (simp add: stage_ids_def)
qed

lemma after_batch_ends:
  assumes "after_batch batch e ctx = Some (Inr x)"
  shows "end_status x \<noteq> Completed"
    and "batch \<noteq> [] \<Longrightarrow> (\<And>outs z. e = Finished outs \<Longrightarrow> Some z \<in> set outs \<Longrightarrow> end_status z = StageFailed \<Longrightarrow> failed_validation z \<noteq> None) \<Longrightarrow>
      end_status x = StageFailed \<Longrightarrow> failed_validation x \<noteq> None \<or> \<not> replan_eligible x"
  using assms
  by (auto simp: after_batch_def layer_refusal_def failed_at_def ended_def
      split: batch_end.splits option.splits sum.splits if_splits dest!: first_with_Some)

lemma after_batch_continues:
  "after_batch batch e ctx = None \<Longrightarrow> \<exists>outs. e = Finished outs \<and> first_with StageFailed outs = None"
  by (auto simp: after_batch_def split: batch_end.splits option.splits)

lemma completed_idx [simp]: "completed (ctx\<lparr>current_stage_idx := i\<rparr>) x = completed ctx x"
  "get_result (ctx\<lparr>current_stage_idx := i\<rparr>) x = get_result ctx x"
  by (simp_all add: completed_def get_result_def)

text \<open>One round of the loop.\<close>

lemma batch_round:
  assumes ids: "distinct (stage_ids (stages p))"
    and h: "run_ok env p ctx0 h ctx" "\<forall>x \<in> set h. completed ctx x"
    and batch: "batch = select_batch env (ready_stages p resume ctx)"
    and run: "run_batch env dl bounded batch (ctx\<lparr>current_stage_idx := i\<rparr>, w) = (e, ctx', w')"
  obtains g where "executed w' = executed w @ g" "run_ok env p ctx0 (h @ g) ctx'"
    "after_batch batch e ctx' = None \<Longrightarrow> \<forall>x \<in> set (h @ g). completed ctx' x"
    "after_batch batch e ctx' = None \<Longrightarrow> batch \<noteq> [] \<Longrightarrow> unfinished p (ctx', w') < unfinished p (ctx, w)"
proof -
  let ?c = "ctx\<lparr>current_stage_idx := i\<rparr>"
  show thesis
  proof (rule run_batch_effect [OF run])
    fix g
    assume g: "executed w' = executed w @ g" "set g \<subseteq> set (stage_ids batch)"
      and up0: "\<And>x. completed ?c x \<Longrightarrow> completed ctx' x"
      and down0: "\<And>x. completed ctx' x \<Longrightarrow> completed ?c x \<or> x \<in> set g"
      and sound0: "\<And>x r. get_result ctx' x = Some r \<Longrightarrow> get_result ?c x = Some r \<or>
        (\<exists>s \<in> set batch. stage_id s = x \<and> sound_result env s r)"
      and count: "distinct (stage_ids batch) \<Longrightarrow> \<forall>s \<in> set batch. int (count_list g (stage_id s)) \<le> allowance env s"
      and all: "\<And>outs. e = Finished outs \<Longrightarrow> first_with StageFailed outs = None \<Longrightarrow> \<forall>s \<in> set batch. completed ctx' (stage_id s)"
      and ok0: "od_ok (results ?c) \<Longrightarrow> od_ok (results ctx')"
    note up = up0 [unfolded completed_idx] and down = down0 [unfolded completed_idx]
      and sound = sound0 [unfolded completed_idx] and ok = ok0 [simplified]
    note sel = select_ready [OF batch]
    have ordered: "ordered p (completed ctx0) (h @ g)"
    proof (rule ordered_append)
      show "ordered p (completed ctx0) h" using h(1) by (simp add: run_ok_def)
      fix x assume "x \<in> set g"
      then obtain s where s: "s \<in> set batch" "stage_id s = x" using g(2) unfolding stage_ids_def by auto
      then have "\<forall>d \<in> set (depends_on s). completed ctx d" using sel(2) by blast
      then have "\<forall>d \<in> set (depends_on s). completed ctx0 d \<or> d \<in> set h" using h(1) by (auto simp: run_ok_def)
      with s sel(1) show "\<exists>s \<in> set (stages p). stage_id s = x \<and> (\<forall>d \<in> set (depends_on s). completed ctx0 d \<or> d \<in> set h)"
        by blast
    qed
    have counts: "int (count_list (h @ g) (stage_id s)) \<le> allowance env s" if s: "s \<in> set (stages p)" for s
    proof (cases "stage_id s \<in> set g")
      case False
      then show ?thesis using h(1) s by (simp add: run_ok_def count_list_append count_list_absent)
    next
      case True
      then obtain t where t: "t \<in> set batch" "stage_id t = stage_id s" using g(2) unfolding stage_ids_def by auto
      then have "t = s" using ids s sel(1) unfolding stage_ids_def by (metis distinct_map inj_on_def subsetD)
      then have "\<not> completed ctx (stage_id s)" using sel(2) t by blast
      then have "stage_id s \<notin> set h" using h(2) by blast
      then show ?thesis using count [OF sel(3) [OF ids]] t \<open>t = s\<close> by (simp add: count_list_append count_list_absent)
    qed
    have post: "run_ok env p ctx0 (h @ g) ctx'"
      unfolding run_ok_def
    proof (intro conjI ballI allI impI)
      fix x r assume "get_result ctx' x = Some r"
      from sound [OF this] h(1) sel(1)
      show "get_result ctx0 x = Some r \<or> (\<exists>s \<in> set (stages p). stage_id s = x \<and> sound_result env s r)"
        unfolding run_ok_def by blast
    next
      fix x assume "completed ctx' x"
      from down [OF this] h(1) show "completed ctx0 x \<or> x \<in> set (h @ g)" by (auto simp: run_ok_def)
    next
      show "od_ok (results ctx')" if "od_ok (results ctx0)" using h(1) that ok by (simp add: run_ok_def)
    qed (use ordered counts h(1) up in \<open>auto simp: run_ok_def\<close>)
    have cont: "\<forall>s \<in> set batch. completed ctx' (stage_id s)" if "after_batch batch e ctx' = None"
      using after_batch_continues [OF that] all by blast
    show thesis
    proof
      show "executed w' = executed w @ g" "run_ok env p ctx0 (h @ g) ctx'" by fact+
      show "\<forall>x \<in> set (h @ g). completed ctx' x" if "after_batch batch e ctx' = None"
      proof
        fix x assume "x \<in> set (h @ g)"
        then consider "x \<in> set h" | s where "s \<in> set batch" "x = stage_id s" using g(2) unfolding stage_ids_def by auto
        then show "completed ctx' x" using h(2) up cont [OF that] by cases auto
      qed
      show "unfinished p (ctx', w') < unfinished p (ctx, w)" if a: "after_batch batch e ctx' = None" and ne: "batch \<noteq> []"
      proof -
        obtain s where s: "s \<in> set batch" using ne by (cases batch) auto
        have "filter (\<lambda>s. \<not> completed ctx' (stage_id s)) (stages p)
            = filter (\<lambda>s. \<not> completed ctx' (stage_id s)) (filter (\<lambda>s. \<not> completed ctx (stage_id s)) (stages p))"
          using up by (auto intro: filter_cong)
        moreover have "s \<in> set (filter (\<lambda>s. \<not> completed ctx (stage_id s)) (stages p))" using s sel by auto
        moreover have "completed ctx' (stage_id s)" using cont [OF a] s by blast
        ultimately show ?thesis
          unfolding unfinished_def fst_conv by (metis (no_types, lifting) length_filter_less)
      qed
    qed
  qed
qed

text \<open>What the loop does with a state: it ends, or it runs a batch.\<close>

lemma pipeline_step_cases:
  assumes "pipeline_step env p resume dl bounded (ctx, w) = (r, ctx', w')"
  obtains (full) x where "length (stages p) \<le> length (results ctx)" "conclude env p (ctx, w) = (x, ctx', w')" "r = Some (Inr x)"
  | (late) w1 x where "executed w1 = executed w" "stop_at env p False (ctx, w1) = (x, ctx', w')" "r = Some (Inr x)"
  | (stuck) w1 x where "executed w1 = executed w" "ready_stages p resume ctx = []"
      "stop_at env p True (ctx, w1) = (x, ctx', w')" "r = Some (Inr x)"
  | (batch) w1 batch i e where "executed w1 = executed w" "batch = select_batch env (ready_stages p resume ctx)" "batch \<noteq> []"
      "run_batch env dl bounded batch (ctx\<lparr>current_stage_idx := i\<rparr>, w1) = (e, ctx', w')" "r = after_batch batch e ctx'"
proof -
  obtain lt w1 where lt: "past env dl w = (lt, w1)" by fastforce
  note w1 = past_executed [OF lt]
  let ?b = "select_batch env (ready_stages p resume ctx)"
  consider "length (stages p) \<le> length (results ctx)" | "\<not> length (stages p) \<le> length (results ctx)" lt
    | "\<not> length (stages p) \<le> length (results ctx)" "\<not> lt" "?b = []"
    | "\<not> length (stages p) \<le> length (results ctx)" "\<not> lt" "?b \<noteq> []" by blast
  then show thesis
  proof cases
    case 1
    obtain x cw1 where x: "conclude env p (ctx, w) = (x, cw1)" by (cases "conclude env p (ctx, w)") blast
    with assms 1 have "r = Some (Inr x)" "cw1 = (ctx', w')" by (simp_all add: pipeline_step_def)
    with x 1 full show ?thesis by blast
  next
    case 2
    obtain x cw1 where x: "stop_at env p False (ctx, w1) = (x, cw1)" by (cases "stop_at env p False (ctx, w1)") blast
    with assms 2 lt have "r = Some (Inr x)" "cw1 = (ctx', w')" by (simp_all add: pipeline_step_def)
    with x w1 late show ?thesis by blast
  next
    case 3
    obtain x cw1 where x: "stop_at env p True (ctx, w1) = (x, cw1)" by (cases "stop_at env p True (ctx, w1)") blast
    with assms 3 lt have "r = Some (Inr x)" "cw1 = (ctx', w')" by (simp_all add: pipeline_step_def)
    with x w1 3(3) stuck show ?thesis by (simp add: select_batch_Nil)
  next
    case 4
    let ?c = "ctx\<lparr>current_stage_idx := stage_index p (stage_id (last ?b))\<rparr>"
    obtain e c2 w2 where e: "run_batch env dl bounded ?b (?c, w1) = (e, c2, w2)" by (metis prod_cases3)
    with assms 4 lt have "r = after_batch ?b e c2" "c2 = ctx'" "w2 = w'"
      by (auto simp: pipeline_step_def Let_def)
    with e w1 4(3) batch show ?thesis by blast
  qed
qed

definition well_going :: "'w executor \<Rightarrow> execution_plan \<Rightarrow> stage_context \<times> 'w world \<Rightarrow> stage_context \<times> 'w world \<Rightarrow> bool" where
  "well_going env p start cw \<longleftrightarrow> distinct (stage_ids (stages p)) \<and> going env p start cw"

lemma step_history:
  assumes good: "well_going env p start (ctx, w)"
    and step: "pipeline_step env p resume dl bounded (ctx, w) = (r, ctx', w')"
  shows "\<exists>h. executed w' = executed (snd start) @ h \<and> run_ok env p (fst start) h ctx' \<and>
    (r = None \<longrightarrow> (\<forall>x \<in> set h. completed ctx' x) \<and> unfinished p (ctx', w') < unfinished p (ctx, w))"
proof -
  from good obtain h where ids: "distinct (stage_ids (stages p))" and h: "executed w = executed (snd start) @ h"
    "run_ok env p (fst start) h ctx" "\<forall>x \<in> set h. completed ctx x"
    by (auto simp: well_going_def going_def)
  from step show ?thesis
  proof (cases rule: pipeline_step_cases)
    case (full x)
    with h conclude_keeps [OF full(2)] show ?thesis by auto
  next
    case (late w1 x)
    with h stop_at_keeps(1,2) [OF late(2)] show ?thesis by auto
  next
    case (stuck w1 x)
    with h stop_at_keeps(1,2) [OF stuck(3)] show ?thesis by auto
  next
    case (batch w1 batch i e)
    from batch_round [OF ids h(2,3) batch(2) batch(4)] obtain g where "executed w' = executed w1 @ g"
      "run_ok env p (fst start) (h @ g) ctx'"
      "after_batch batch e ctx' = None \<longrightarrow> (\<forall>x \<in> set (h @ g). completed ctx' x)"
      "after_batch batch e ctx' = None \<longrightarrow> batch \<noteq> [] \<longrightarrow> unfinished p (ctx', w') < unfinished p (ctx, w1)"
      by blast
    with h batch show ?thesis by (intro exI [of _ "h @ g"]) (simp add: unfinished_def)
  qed
qed

interpretation pipeline: stepping "pipeline_step env p resume dl bounded" "well_going env p start" "unfinished p"
  for env p resume dl bounded start
proof unfold_locales
  fix cw cw' :: "stage_context \<times> 'a world"
  obtain ctx w ctx' w' where cw: "cw = (ctx, w)" "cw' = (ctx', w')" by (metis surj_pair)
  assume good: "well_going env p start cw" and step: "pipeline_step env p resume dl bounded cw = (None, cw')"
  from step_history [OF good [unfolded cw] step [unfolded cw]] show "unfinished p cw' < unfinished p cw"
    unfolding cw by blast
  from step_history [OF good [unfolded cw] step [unfolded cw]] good show "well_going env p start cw'"
    unfolding cw well_going_def going_def by auto
qed

section \<open>The whole run\<close>

lemma execute_run:
  obtains dl b w1 where "execute env p resume deadline fuel (ctx, w) = run_steps (pipeline_step env p resume dl b) fuel (ctx, w1)"
    "executed w1 = executed w" "deadline = None \<Longrightarrow> pipeline_wall_seconds env \<le> 0 \<Longrightarrow> agent_wall_seconds env \<le> 0 \<Longrightarrow> dl = None \<and> \<not> b"
proof -
  let ?budget = "if pipeline_wall_seconds env \<noteq> 0 then pipeline_wall_seconds env else agent_wall_seconds env"
  show thesis
  proof (cases "deadline \<noteq> None \<or> ?budget \<le> 0")
    case True
    show ?thesis
    proof (rule that)
      show "execute env p resume deadline fuel (ctx, w) = run_steps (pipeline_step env p resume deadline (?budget > 0)) fuel (ctx, w)"
        using True by (simp add: execute_def Let_def)
    qed auto
  next
    case False
    obtain t o' where t: "clock env (outer w) = (t, o')" by fastforce
    show ?thesis
    proof (rule that)
      show "execute env p resume deadline fuel (ctx, w)
          = run_steps (pipeline_step env p resume (Some (t + of_int ?budget)) True) fuel (ctx, w\<lparr>outer := o'\<rparr>)"
        using False t by (simp add: execute_def Let_def)
    qed (use False in \<open>auto split: if_splits\<close>)
  qed
qed

lemma execute_ended:
  assumes "distinct (stage_ids (stages p))" "execute env p resume deadline fuel (ctx, w) = Some (r, ctx', w')"
  obtains h where "executed w' = executed w @ h" "run_ok env p ctx h ctx'"
proof -
  obtain dl b w1 where e: "execute env p resume deadline fuel (ctx, w) = run_steps (pipeline_step env p resume dl b) fuel (ctx, w1)"
    and w1: "executed w1 = executed w" by (rule execute_run)
  have "well_going env p (ctx, w1) (ctx, w1)" using assms(1) going_start by (simp add: well_going_def)
  from pipeline.run_good [OF this assms(2) [unfolded e]] obtain u where
    u: "well_going env p (ctx, w1) u" "pipeline_step env p resume dl b u = (Some r, ctx', w')" by blast
  obtain c v where "u = (c, v)" by fastforce
  with step_history u have "\<exists>h. executed w' = executed (snd (ctx, w1)) @ h \<and> run_ok env p (fst (ctx, w1)) h ctx'" by blast
  with w1 that show thesis by auto
qed

lemma execute_last_step:
  assumes "distinct (stage_ids (stages p))" "execute env p resume deadline fuel (ctx, w) = Some (r, ctx', w')"
  obtains c v dl b where "well_going env p (ctx, w) (c, v)" "pipeline_step env p resume dl b (c, v) = (Some r, ctx', w')"
proof -
  obtain dl b w1 where e: "execute env p resume deadline fuel (ctx, w) = run_steps (pipeline_step env p resume dl b) fuel (ctx, w1)"
    and w1: "executed w1 = executed w" by (rule execute_run)
  have "well_going env p (ctx, w1) (ctx, w1)" using assms(1) going_start by (simp add: well_going_def)
  from pipeline.run_good [OF this assms(2) [unfolded e]] obtain u where
    u: "well_going env p (ctx, w1) u" "pipeline_step env p resume dl b u = (Some r, ctx', w')" by blast
  obtain c v where cv: "u = (c, v)" by fastforce
  have "well_going env p (ctx, w) (c, v)" using u(1) w1 cv by (simp add: well_going_def going_def)
  with u(2) cv that show thesis by blast
qed

lemma execute_ends:
  assumes "distinct (stage_ids (stages p))" "length (stages p) < fuel"
  shows "\<exists>r. execute env p resume deadline fuel (ctx, w) = Some r"
proof -
  obtain dl b w1 where e: "execute env p resume deadline fuel (ctx, w) = run_steps (pipeline_step env p resume dl b) fuel (ctx, w1)"
    by (rule execute_run)
  have "well_going env p (ctx, w1) (ctx, w1)" using assms(1) going_start by (simp add: well_going_def)
  moreover have "unfinished p (ctx, w1) < fuel"
    unfolding unfinished_def using assms(2) by (rule le_less_trans [OF length_filter_le])
  ultimately show ?thesis unfolding e using pipeline.run_ends by fast
qed

section \<open>A sample environment\<close>

text \<open>Every agent answers without data, no clock runs, nothing is cut.\<close>

definition sample_runners :: "nat runners" where
  "sample_runners = \<lparr>call = (\<lambda>c o'. (Inr \<lparr>a_status = ''success'', a_answer = ''done'', a_error = None, a_query = None,
       a_results = None, a_usage = []\<rparr>, Suc o')),
     has_git = False, has_mcp = False, gate_config = gate_defaults (\<lambda>_. None), empty_retry = True,
     show_errors = (\<lambda>_. []), show_value = (\<lambda>_. []), loads = (\<lambda>_. None), staleness = None\<rparr>"

definition sample_executor :: "nat executor" where
  "sample_executor = \<lparr>runners = sample_runners, rule_llm = None, strict_rows = True, clock = (\<lambda>o'. (0, o')),
     arrival = (\<lambda>_ i. i), cut_after = (\<lambda>_. None), max_stage_retries = 2, max_parallel_stages = 3,
     pipeline_wall_seconds = 0, agent_wall_seconds = 0\<rparr>"

definition sample_world :: "nat world" where
  "sample_world = \<lparr>outer = 0, executed = []\<rparr>"

definition sample_run :: "nat \<Rightarrow> ((py_error + exec_result) \<times> stage_context \<times> nat world) option" where
  "sample_run n = execute sample_executor sample_plan 0 None n (new_context sample_plan [], sample_world)"

lemma sample_ids: "distinct (stage_ids (stages sample_plan))" "length (stages sample_plan) < 3"
  by (simp_all add: sample_plan_def stage_ids_def sample_stage_def)

lemma sample_completes:
  "case sample_run 3 of Some (Inr x, ctx, w) \<Rightarrow> end_status x = Completed \<and> executed w = [''a'', ''b''] | _ \<Rightarrow> False"
  by code_simp

lemma sample_run_ends: "\<exists>x ctx w. sample_run 3 = Some (Inr x, ctx, w) \<and> end_status x = Completed \<and> executed w = [''a'', ''b'']"
proof -
  from sample_completes obtain y ctx w where "sample_run 3 = Some (y, ctx, w)"
    and "case y of Inr x \<Rightarrow> end_status x = Completed \<and> executed w = [''a'', ''b''] | Inl e \<Rightarrow> False"
    by (cases "sample_run 3") auto
  then show ?thesis by (cases y) auto
qed

section \<open>Properties\<close>

text \<open>
  C28. The retries of a pipeline do not compound: in one run of a plan with distinct stages,
  however the executor, the validator and the data gate retry, every stage is executed at most
  its retry limit and one time more, and nothing outside the plan is executed.
\<close>

theorem executions_bounded:
  assumes "distinct (stage_ids (stages p))" "execute env p resume deadline fuel (ctx, w) = Some (r, ctx', w')"
  shows "\<exists>h. executed w' = executed w @ h \<and> set h \<subseteq> set (stage_ids (stages p)) \<and>
    (\<forall>s \<in> set (stages p). int (count_list h (stage_id s)) \<le> max 0 (stage_retries env s + 1))"
proof -
  from execute_ended [OF assms] obtain h where h: "executed w' = executed w @ h" "run_ok env p ctx h ctx'" .
  have "x \<in> set (stage_ids (stages p))" if "x \<in> set h" for x
  proof -
    from that obtain h1 h2 where "h = h1 @ x # h2" by (metis split_list)
    with h(2) show ?thesis unfolding run_ok_def ordered_def stage_ids_def by force
  qed
  with h show ?thesis unfolding run_ok_def allowance_def by blast
qed

theorem executions_bounded_witness:
  "\<exists>h. executed (snd (snd (the (sample_run 3)))) = h \<and> h = [''a'', ''b''] \<and>
    (\<forall>s \<in> set (stages sample_plan). int (count_list h (stage_id s)) \<le> max 0 (stage_retries sample_executor s + 1))"
proof -
  obtain x ctx w where r: "sample_run 3 = Some (Inr x, ctx, w)" "executed w = [''a'', ''b'']" using sample_run_ends by blast
  from executions_bounded [OF sample_ids(1) r(1) [unfolded sample_run_def]] r show ?thesis
    by (auto simp: sample_world_def)
qed

text \<open>
  C29. Dependencies come first: every execution of a stage comes after an execution of each
  stage it depends on, unless that dependency had its result before the run.
\<close>

theorem dependencies_first:
  assumes "distinct (stage_ids (stages p))" "execute env p resume deadline fuel (ctx, w) = Some (r, ctx', w')"
    and "executed w' = executed w @ h1 @ x # h2"
  shows "\<exists>s \<in> set (stages p). stage_id s = x \<and> (\<forall>d \<in> set (depends_on s). get_result ctx d \<noteq> None \<or> d \<in> set h1)"
proof -
  from execute_ended [OF assms(1,2)] obtain h where "executed w' = executed w @ h" "run_ok env p ctx h ctx'" .
  with assms(3) show ?thesis unfolding run_ok_def ordered_def completed_def by simp
qed

theorem dependencies_first_witness:
  "executed (snd (snd (the (sample_run 3)))) = [''a''] @ ''b'' # [] \<and>
   (\<exists>s \<in> set (stages sample_plan). stage_id s = ''b'' \<and> (\<forall>d \<in> set (depends_on s). d \<in> set [''a'']))"
proof -
  obtain x ctx w where r: "sample_run 3 = Some (Inr x, ctx, w)" "executed w = [''a'', ''b'']" using sample_run_ends by blast
  have "executed w = executed sample_world @ [''a''] @ ''b'' # []" using r by (simp add: sample_world_def)
  from dependencies_first [OF sample_ids(1) r(1) [unfolded sample_run_def] this] r show ?thesis
    by (auto simp: new_context_def get_result_def)
qed

text \<open>
  C30. Only checked results are kept: a result that a run adds to its context is acceptable to
  the validator of its stage, and with the hard checks on it holds no impossible value.
\<close>

theorem results_checked:
  assumes "distinct (stage_ids (stages p))" "execute env p resume deadline fuel (ctx, w) = Some (r, ctx', w')"
    and "get_result ctx' x = Some q" "get_result ctx x \<noteq> Some q"
  shows "\<exists>s \<in> set (stages p). stage_id s = x \<and> acceptable (strict_rows env) s q \<and>
    (\<forall>qr. query_result q = Some qr \<longrightarrow> hard_checks (gate_config (runners env)) \<longrightarrow>
      (\<forall>i < length (columns qr). \<not> impossible_column (gate_config (runners env)) qr i))"
proof -
  from execute_ended [OF assms(1,2)] obtain h where "run_ok env p ctx h ctx'" .
  with assms(3,4) show ?thesis unfolding run_ok_def sound_result_def by blast
qed

theorem results_checked_witness:
  "\<exists>q. get_result (fst (snd (the (sample_run 3)))) ''a'' = Some q \<and> acceptable True (sample_stage ''a'' []) q"
proof -
  obtain x ctx w where r: "sample_run 3 = Some (Inr x, ctx, w)" using sample_run_ends by blast
  have "get_result (fst (snd (the (sample_run 3)))) ''a'' \<noteq> None" by code_simp
  with r obtain q where q: "get_result ctx ''a'' = Some q" by auto
  have "get_result (new_context sample_plan []) ''a'' \<noteq> Some q" by (simp add: new_context_def get_result_def)
  from results_checked [OF sample_ids(1) r(1) [unfolded sample_run_def] q this] r q show ?thesis
    by (auto simp: sample_plan_def sample_stage_def sample_executor_def)
qed

text \<open>
  A run ends: the loop over the batches needs at most one round more than the plan has
  stages, whatever the agents answer, raise or delay.
\<close>

theorem pipeline_ends:
  assumes "distinct (stage_ids (stages p))" "length (stages p) < fuel"
  shows "\<exists>r ctx' w'. execute env p resume deadline fuel (ctx, w) = Some (r, ctx', w')"
  using execute_ends [OF assms] by (metis surj_pair)

theorem pipeline_ends_witness:
  "\<exists>r ctx' w'. execute sample_executor sample_plan 0 None 3 (new_context sample_plan [], sample_world) = Some (r, ctx', w')"
  using sample_ids by (rule pipeline_ends)

lemma not_stuck:
  assumes "plan_ok external (stages p)" "\<forall>d \<in> set external. get_result ctx d \<noteq> None"
    and "execute env p 0 deadline fuel (ctx, w) = Some (Inr x, ctx', w')"
    and "end_status x = StageFailed" "replan_eligible x"
  shows "failed_validation x \<noteq> None"
proof -
  have ids: "distinct (stage_ids (stages p))" using assms(1) by (simp add: plan_ok_def)
  from execute_last_step [OF ids assms(3)] obtain c v dl b where
    good: "well_going env p (ctx, w) (c, v)" and step: "pipeline_step env p 0 dl b (c, v) = (Some (Inr x), ctx', w')" .
  from step show ?thesis
  proof (cases rule: pipeline_step_cases)
    case (full y)
    with conclude_keeps(3) [OF full(2)] assms(4) show ?thesis by simp
  next
    case (late w1 y)
    with stop_at_keeps(4) [OF late(2)] assms(4,5) show ?thesis by simp
  next
    case (stuck w1 y)
    with stop_at_keeps(4) [OF stuck(3)] assms(4) obtain s where s: "s \<in> set (stages p)" "\<not> completed c (stage_id s)" by auto
    obtain rank where rank: "rank_ok (stages p) rank" using assms(1) by (auto simp: plan_ok_def)
    obtain t where t: "t \<in> set (stages p)" "\<not> completed c (stage_id t)"
      and least: "\<And>u. u \<in> set (stages p) \<Longrightarrow> \<not> completed c (stage_id u) \<Longrightarrow> rank (stage_id t) \<le> rank (stage_id u)"
      using s ex_has_least_nat [of "\<lambda>u. u \<in> set (stages p) \<and> \<not> completed c (stage_id u)" s "\<lambda>u. rank (stage_id u)"] by blast
    have "completed c d" if d: "d \<in> set (depends_on t)" for d
    proof (cases "d \<in> set (stage_ids (stages p))")
      case True
      then obtain u where u: "u \<in> set (stages p)" "stage_id u = d" unfolding stage_ids_def by auto
      have "rank d < rank (stage_id t)" using rank t(1) d True by (simp add: rank_ok_def)
      with least [OF u(1)] u(2) show ?thesis by fastforce
    next
      case False
      with assms(1) t(1) d have "d \<in> set external" by (auto simp: plan_ok_def stage_ok_def)
      with assms(2) have "completed ctx d" by (simp add: completed_def)
      with good show ?thesis by (auto simp: well_going_def going_def run_ok_def)
    qed
    with t have "t \<in> set (ready_stages p 0 c)" by (simp add: ready_stages_def list_all_iff)
    with stuck(2) show ?thesis by simp
  next
    case (batch w1 bt i e)
    from run_batch_effect [OF batch(4)] have "\<And>outs z. e = Finished outs \<Longrightarrow> Some z \<in> set outs \<Longrightarrow>
        end_status z = StageFailed \<Longrightarrow> failed_validation z \<noteq> None" by metis
    with after_batch_ends(2) [OF batch(5) [symmetric] batch(3)] assms(4,5) show ?thesis by blast
  qed
qed


definition failing_executor :: "nat executor" where
  "failing_executor = sample_executor\<lparr>runners := sample_runners\<lparr>call := (\<lambda>c o'. (Inl (AgentFatal ''no''), Suc o'))\<rparr>\<rparr>"

lemma sample_plan_ok: "plan_ok [] (stages sample_plan)"
proof -
  have "rank_ok (stages sample_plan) (\<lambda>x. if x = ''a'' then 0 else 1)"
    by (simp add: rank_ok_def sample_plan_def sample_stage_def)
  moreover have "\<forall>s \<in> set (stages sample_plan). stage_ok [] (stages sample_plan) s"
  proof -
    have "list_all (stage_ok [] (stages sample_plan)) (stages sample_plan)" by code_simp
    then show ?thesis by (simp add: list_all_iff)
  qed
  ultimately show ?thesis
    using sample_ids(1) by (auto simp: plan_ok_def sample_plan_def sample_stage_def data_retrieval_tools_def)
qed


lemma completed_keys: "completed ctx x \<longleftrightarrow> x \<in> set (od_keys (results ctx))"
  by (simp add: completed_def get_result_def od_keys_def map_of_eq_None_iff)

text \<open>
  A completed pipeline is complete, provided every result it started from belongs to its
  plan: when the run reports that it completed, each stage of the plan has a result.
\<close>

theorem completed_means_all:
  assumes "distinct (stage_ids (stages p))" "od_ok (results ctx)" "set (od_keys (results ctx)) \<subseteq> set (stage_ids (stages p))"
    and "execute env p resume deadline fuel (ctx, w) = Some (Inr x, ctx', w')" "end_status x = Completed"
    and "s \<in> set (stages p)"
  shows "get_result ctx' (stage_id s) \<noteq> None"
proof -
  from execute_last_step [OF assms(1,4)] obtain c v dl b where
    good: "well_going env p (ctx, w) (c, v)" and step: "pipeline_step env p resume dl b (c, v) = (Some (Inr x), ctx', w')" .
  from good obtain h where h: "run_ok env p ctx h c" by (auto simp: well_going_def going_def)
  from step have "completed ctx' (stage_id s)"
  proof (cases rule: pipeline_step_cases)
    case (full y)
    have sub: "set (od_keys (results c)) \<subseteq> set (stage_ids (stages p))"
    proof
      fix z assume "z \<in> set (od_keys (results c))"
      then have "completed ctx z \<or> z \<in> set h" using h unfolding completed_keys [symmetric] run_ok_def by blast
      then show "z \<in> set (stage_ids (stages p))"
      proof
        assume "completed ctx z"
        with assms(3) show ?thesis by (auto simp: completed_keys)
      next
        assume "z \<in> set h"
        then obtain h1 h2 where "h = h1 @ z # h2" by (metis split_list)
        with h show ?thesis unfolding run_ok_def ordered_def stage_ids_def by force
      qed
    qed
    have "distinct (od_keys (results c))" using h assms(2) by (simp add: run_ok_def od_ok_def)
    then have "card (set (od_keys (results c))) = length (results c)"
      using distinct_card [of "od_keys (results c)"] by (simp add: od_keys_def)
    moreover have "card (set (stage_ids (stages p))) = length (stages p)"
      using distinct_card [OF assms(1)] by (simp add: stage_ids_def)
    ultimately have "set (od_keys (results c)) = set (stage_ids (stages p))"
      using sub full(1) by (intro card_seteq) simp_all
    then show ?thesis using assms(6) conclude_keeps(1) [OF full(2)] by (simp add: completed_keys stage_ids_def)
  next
    case (late w1 y)
    with stop_at_keeps(1,3) [OF late(2)] assms(5,6) show ?thesis by simp
  next
    case (stuck w1 y)
    with stop_at_keeps(1,3) [OF stuck(3)] assms(5,6) show ?thesis by simp
  next
    case (batch w1 bt i e)
    with after_batch_ends(1) [of bt e ctx' x] assms(5) show ?thesis by simp
  qed
  then show ?thesis by (simp add: completed_def)
qed

theorem completed_means_all_witness:
  "get_result (fst (snd (the (sample_run 3)))) ''b'' \<noteq> None"
proof -
  obtain x ctx w where r: "sample_run 3 = Some (Inr x, ctx, w)" "end_status x = Completed" using sample_run_ends by blast
  have "od_ok (results (new_context sample_plan []))" "results (new_context sample_plan []) = []"
    by (simp_all add: new_context_def od_ok_def od_keys_def)
  with completed_means_all [OF sample_ids(1) _ _ r(1) [unfolded sample_run_def] r(2), of "sample_stage ''b'' [''a'']"] r(1)
  show ?thesis by (simp add: od_keys_def sample_plan_def sample_stage_def)
qed

text \<open>
  Results from outside the plan count as its own: a run that starts with at least as many
  results as its plan has stages executes nothing and reports that it completed, whatever
  stages those results belong to (so a replanned pipeline that carries over enough results
  skips its whole plan).
\<close>

lemma carried_results_complete:
  assumes "length (stages p) \<le> length (results ctx)" "0 < fuel"
  shows "\<exists>x w'. execute env p resume deadline fuel (ctx, w) = Some (Inr x, ctx, w') \<and> end_status x = Completed \<and>
    executed w' = executed w"
proof -
  obtain dl b w1 where e: "execute env p resume deadline fuel (ctx, w) = run_steps (pipeline_step env p resume dl b) fuel (ctx, w1)"
    and w1: "executed w1 = executed w" by (rule execute_run)
  obtain x c v where x: "conclude env p (ctx, w1) = (x, c, v)" by (metis prod_cases3)
  from assms(2) obtain n where n: "fuel = Suc n" by (cases fuel) auto
  have "execute env p resume deadline fuel (ctx, w) = Some (Inr x, c, v)"
    using e n assms(1) x by (simp add: pipeline_step_def)
  with conclude_keeps [OF x] w1 show ?thesis by auto
qed

end
