(* ===== verification/AdaptivePlanner.thy ===== *)
theory AdaptivePlanner
  imports Plans
begin

text \<open>
  \<^verbatim>\<open>backend/app/agents/adaptive_planner.py\<close>: plans made by the language model, checked before
  they are used, with one repetition, and the plan of one stage that replaces a plan that could
  not be made. The model and \<^verbatim>\<open>json.loads\<close> are parameters; a request holds what its prompt is
  built from (the wording is not modelled).
\<close>

datatype plan_exc = PlanRaised py_error | PlanLoad load_error | BadArguments

record replan_record =
  rr_attempt :: nat
  rr_stage :: string
  rr_tool :: string

text \<open>What the prompt says of a completed stage.\<close>

record stage_digest =
  dg_stage :: string
  dg_status :: string
  dg_query :: "string option"
  dg_rows :: "(int \<times> string list) option"
  dg_summary :: string

datatype 'e plan_request =
    PlanRequest string
  | ReplanRequest string "stage_digest list" plan_stage 'e "replan_record list" "string list" "plan_error list"

text \<open>The calls of a reply, by name and arguments; \<open>None\<close> is a call that raised.\<close>

record ('e, 'w) planner =
  ask_planner :: "'e plan_request \<Rightarrow> 'w \<Rightarrow> (string \<times> pyval) list option \<times> 'w"
  decode_json :: "string \<Rightarrow> pyval option"
  new_plan_id :: "'w \<Rightarrow> string"

section \<open>Reading a plan\<close>

definition stage_dicts :: "pyval \<Rightarrow> plan_exc + dict list" where
  "stage_dicts v =
     (if \<not> truthy v then Inr []
      else case v of
        PList xs \<Rightarrow> map_ok (\<lambda>x. case x of PDict d \<Rightarrow> Inr d | _ \<Rightarrow> Inl BadArguments) xs
      | _ \<Rightarrow> Inl BadArguments)"

text \<open>
  The arguments of the first call, if it makes a plan; a text is decoded first. When planning
  (but not when replanning) a decoded null is no answer.
\<close>

definition call_arguments :: "bool \<Rightarrow> (string \<Rightarrow> pyval option) \<Rightarrow> (string \<times> pyval) list option \<Rightarrow> pyval option" where
  "call_arguments null_is_none decode reply = (case reply of
     Some ((name, args) # _) \<Rightarrow>
       (if name \<noteq> ''create_execution_plan'' then None
        else case (case args of PStr s \<Rightarrow> decode s | _ \<Rightarrow> Some args) of
          None \<Rightarrow> None
        | Some v \<Rightarrow> if null_is_none \<and> v = PNone then None else Some v)
   | _ \<Rightarrow> None)"

text \<open>The plan that the arguments hold, or the errors of the structural check.\<close>

definition read_plan ::
  "string \<Rightarrow> string \<Rightarrow> string \<Rightarrow> string list \<Rightarrow> pyval \<Rightarrow> plan_exc + (plan_error list + execution_plan)" where
  "read_plan pid q dflt_reason external args =
     (case args of
        PDict d \<Rightarrow>
          bind_ok (stage_dicts (dict_get d ''stages'' (PList []))) (\<lambda>ds.
            case validate_plan_structure ds external of
              Inl e \<Rightarrow> Inl (PlanRaised e)
            | Inr errs \<Rightarrow>
                if errs \<noteq> [] then Inr (Inl errs)
                else case map_ok stage_from_dict ds of
                  Inl e \<Rightarrow> Inl (PlanLoad e)
                | Inr ss \<Rightarrow>
                    (case as_str ''complexity_reason'' (dict_get d ''complexity_reason'' (PStr dflt_reason)) of
                       Inl e \<Rightarrow> Inl (PlanLoad e)
                     | Inr why \<Rightarrow> Inr (Inr \<lparr>plan_id = pid, question = q, stages = ss, complexity_reason = why,
                         plan_type = ''full''\<rparr>)))
      | _ \<Rightarrow> Inl BadArguments)"

text \<open>Up to \<open>n\<close> attempts; the errors of a refused plan go into the next request.\<close>

fun plan_attempts ::
  "('e, 'w) planner \<Rightarrow> bool \<Rightarrow> string \<Rightarrow> string \<Rightarrow> string list \<Rightarrow> (plan_error list \<Rightarrow> 'e plan_request) \<Rightarrow> nat \<Rightarrow> plan_error list \<Rightarrow> 'w
    \<Rightarrow> (plan_exc + execution_plan option) \<times> 'w" where
  "plan_attempts pl nul q dflt_reason external request 0 feedback w = (Inr None, w)"
| "plan_attempts pl nul q dflt_reason external request (Suc n) feedback w =
     (case ask_planner pl (request feedback) w of (reply, w1) \<Rightarrow>
        case call_arguments nul (decode_json pl) reply of
          None \<Rightarrow> plan_attempts pl nul q dflt_reason external request n feedback w1
        | Some args \<Rightarrow>
            (case read_plan (new_plan_id pl w1) q dflt_reason external args of
               Inl e \<Rightarrow> (Inl e, w1)
             | Inr (Inl errs) \<Rightarrow> plan_attempts pl nul q dflt_reason external request n errs w1
             | Inr (Inr p) \<Rightarrow> (Inr (Some p), w1)))"

section \<open>Validation criteria\<close>

definition inject_min_rows :: "stage_validation \<Rightarrow> stage_validation" where
  "inject_min_rows v = v\<lparr>min_rows := Some 0, auto_injected := True\<rparr>"

definition ensure_stage :: "plan_stage \<Rightarrow> plan_stage" where
  "ensure_stage s =
     (let v = validation s;
          v1 = (if tool s = ''query_database'' \<and> min_rows v = None \<and> expected_columns v = None
                then inject_min_rows v else v);
          v2 = (if tool s = ''process_data'' \<and> min_rows v1 = None then inject_min_rows v1 else v1)
      in s\<lparr>validation := v2\<rparr>)"

definition ensure_validation_criteria :: "execution_plan \<Rightarrow> execution_plan" where
  "ensure_validation_criteria p = p\<lparr>stages := map ensure_stage (stages p)\<rparr>"

section \<open>Planning and replanning\<close>

definition quick_data_plan :: "string \<Rightarrow> string \<Rightarrow> string \<Rightarrow> execution_plan" where
  "quick_data_plan pid q fallback = \<lparr>plan_id = pid, question = q,
     stages = [\<lparr>stage_id = ''fetch'', description = q, tool = fallback, depends_on = [], input_context = [],
       validation = no_validation\<lparr>min_rows := Some 0\<rparr>, checkpoint = False, max_retries = 2, replan_on_failure = True\<rparr>],
     complexity_reason = [], plan_type = ''quick''\<rparr>"

definition make_plan ::
  "('e, 'w) planner \<Rightarrow> string \<Rightarrow> string \<Rightarrow> 'w \<Rightarrow> (plan_exc + execution_plan) \<times> 'w" where
  "make_plan pl q fallback w =
     (case plan_attempts pl True q [] [] (\<lambda>_. PlanRequest q) 2 [] w of
        (Inl e, w1) \<Rightarrow> (Inl e, w1)
      | (Inr None, w1) \<Rightarrow> (Inr (quick_data_plan (new_plan_id pl w1) q fallback), w1)
      | (Inr (Some p), w1) \<Rightarrow> (Inr (ensure_validation_criteria p), w1))"

definition digest_result :: "string \<times> stage_result \<Rightarrow> stage_digest" where
  "digest_result sr = (case sr of (sid, r) \<Rightarrow> \<lparr>dg_stage = sid, dg_status = status r,
     dg_query = (if has_text (query r) then Some (take 200 (the (query r))) else None),
     dg_rows = map_option (\<lambda>qr. (row_count qr, take 10 (columns qr))) (query_result r),
     dg_summary = take 200 (summary r)\<rparr>)"

definition usable_status :: "stage_result \<Rightarrow> bool" where
  "usable_status r \<longleftrightarrow> status r = ''success'' \<or> status r = ''degraded''"

definition allowed_dep_ids :: "(string, stage_result) odict \<Rightarrow> string list" where
  "allowed_dep_ids done_results = map fst (filter (\<lambda>(sid, r). usable_status r) done_results)"

definition replan ::
  "('e, 'w) planner \<Rightarrow> string \<Rightarrow> (string, stage_result) odict \<Rightarrow> plan_stage \<Rightarrow> 'e \<Rightarrow> replan_record list \<Rightarrow> 'w
    \<Rightarrow> (plan_exc + execution_plan option) \<times> 'w" where
  "replan pl q done_results failed why history w =
     (case plan_attempts pl False q ''replan'' (allowed_dep_ids done_results)
         (\<lambda>feedback. ReplanRequest q (map digest_result done_results) failed why history (allowed_dep_ids done_results) feedback)
         2 [] w of
        (Inr (Some p), w1) \<Rightarrow> (Inr (Some (ensure_validation_criteria p)), w1)
      | other \<Rightarrow> other)"

section \<open>Properties\<close>

lemma ensure_stage_keeps [simp]:
  "stage_id (ensure_stage s) = stage_id s" "description (ensure_stage s) = description s"
  "tool (ensure_stage s) = tool s" "depends_on (ensure_stage s) = depends_on s"
  by (simp_all add: ensure_stage_def Let_def)

lemma plan_ok_ensure: "plan_ok external (map ensure_stage ss) = plan_ok external ss"
proof -
  have ids: "stage_ids (map ensure_stage ss) = stage_ids ss" by (simp add: stage_ids_def)
  have ok: "stage_ok external (map ensure_stage ss) (ensure_stage s) = stage_ok external ss s" for s
    by (simp add: stage_ok_def ids)
  have rank: "rank_ok (map ensure_stage ss) rank = rank_ok ss rank" for rank
    by (simp add: rank_ok_def ids)
  show ?thesis by (simp add: plan_ok_def ids ok rank)
qed

lemma read_plan_ok:
  assumes "read_plan pid q dflt external args = Inr (Inr p)"
  shows "plan_ok external (stages p) \<and> question p = q \<and> plan_type p = ''full''"
proof -
  from assms obtain d where args: "args = PDict d" by (cases args) (simp_all add: read_plan_def)
  with assms obtain ds where ds: "stage_dicts (dict_get d ''stages'' (PList [])) = Inr ds"
    by (auto simp: read_plan_def bind_ok_Inr)
  with assms args obtain errs where errs: "validate_plan_structure ds external = Inr errs"
    by (cases "validate_plan_structure ds external") (auto simp: read_plan_def)
  with assms args ds have "errs = []" by (auto simp: read_plan_def split: if_splits)
  with assms args ds errs obtain ss where ss: "map_ok stage_from_dict ds = Inr ss"
    by (cases "map_ok stage_from_dict ds") (auto simp: read_plan_def)
  with assms args ds errs \<open>errs = []\<close> have p: "stages p = ss" "question p = q" "plan_type p = ''full''"
    by (auto simp: read_plan_def split: sum.splits)
  have "list_all2 reads ds ss" using map_ok_all2 [OF ss] by (rule list_all2_mono) (rule from_dict_reads)
  from validate_iff [OF this, of external] errs \<open>errs = []\<close> p show ?thesis by simp
qed

lemma plan_attempts_ok:
  "plan_attempts pl nul q dflt external request n feedback w = (Inr (Some p), w') \<Longrightarrow>
    plan_ok external (stages p) \<and> question p = q \<and> plan_type p = ''full''"
proof (induction n arbitrary: feedback w)
  case (Suc n)
  obtain reply w1 where r: "ask_planner pl (request feedback) w = (reply, w1)" by fastforce
  show ?case
  proof (cases "call_arguments nul (decode_json pl) reply")
    case None
    with Suc r show ?thesis by auto
  next
    case (Some args)
    show ?thesis
    proof (cases "read_plan (new_plan_id pl w1) q dflt external args")
      case (Inl e)
      with Suc.prems r Some show ?thesis by simp
    next
      case (Inr x)
      with Suc r Some show ?thesis by (cases x) (auto dest: read_plan_ok)
    qed
  qed
qed simp

text \<open>What the criteria of a stage are once they have been completed.\<close>

definition criteria_ensured :: "plan_stage \<Rightarrow> bool" where
  "criteria_ensured s \<longleftrightarrow>
     (tool s = ''query_database'' \<longrightarrow> min_rows (validation s) \<noteq> None \<or> expected_columns (validation s) \<noteq> None) \<and>
     (tool s = ''process_data'' \<longrightarrow> min_rows (validation s) \<noteq> None)"

lemma ensure_criteria: "criteria_ensured (ensure_stage s)"
  by (auto simp: criteria_ensured_def ensure_stage_def inject_min_rows_def Let_def)

lemma replan_ok:
  assumes "replan pl q done_results failed why history w = (Inr (Some p), w')"
  shows "plan_ok (allowed_dep_ids done_results) (stages p) \<and> question p = q \<and> (\<forall>s \<in> set (stages p). criteria_ensured s)"
proof -
  from assms obtain p0 where p0: "plan_attempts pl False q ''replan'' (allowed_dep_ids done_results)
      (\<lambda>feedback. ReplanRequest q (map digest_result done_results) failed why history (allowed_dep_ids done_results) feedback)
      2 [] w = (Inr (Some p0), w')" and p: "p = ensure_validation_criteria p0"
    unfolding replan_def by (auto split: prod.splits sum.splits option.splits)
  from plan_attempts_ok [OF p0] p show ?thesis
    by (auto simp: ensure_validation_criteria_def plan_ok_ensure ensure_criteria)
qed

text \<open>
  Every plan that is made can be run: with a question that is not blank and a fallback
  tool that retrieves data, the plan answered (the model's or the one-stage fallback) passes
  the structural check on its own, and its database and processing stages have row or column
  criteria.
\<close>

theorem planned_ok:
  assumes "make_plan pl q fallback w = (Inr p, w')"
    and "fallback \<in> set data_retrieval_tools" "py_strip q \<noteq> []"
  shows "plan_ok [] (stages p) \<and> question p = q \<and> (\<forall>s \<in> set (stages p). criteria_ensured s)"
proof -
  obtain x w1 where x: "plan_attempts pl True q [] [] (\<lambda>_. PlanRequest q) 2 [] w = (x, w1)" by fastforce
  with assms(1) obtain y where y: "x = Inr y" by (cases x) (simp_all add: make_plan_def)
  show ?thesis
  proof (cases y)
    case None
    have fetch: "py_strip ''fetch'' \<noteq> []" by code_simp
    have "fallback \<in> set valid_tools" using assms(2) by (auto simp: data_retrieval_tools_def valid_tools_def)
    moreover from None assms(1) x y have "p = quick_data_plan (new_plan_id pl w1) q fallback"
      by (auto simp: make_plan_def)
    ultimately show ?thesis using assms(2,3) fetch
      by (auto simp: plan_ok_def quick_data_plan_def stage_ids_def stage_ok_def rank_ok_def criteria_ensured_def)
  next
    case (Some p0)
    with assms(1) x y have p: "p = ensure_validation_criteria p0" by (auto simp: make_plan_def)
    from x y Some have "plan_attempts pl True q [] [] (\<lambda>_. PlanRequest q) 2 [] w = (Inr (Some p0), w1)" by simp
    from plan_attempts_ok [OF this] p show ?thesis
      by (auto simp: ensure_validation_criteria_def plan_ok_ensure ensure_criteria)
  qed
qed

definition silent_planner :: "(nat, nat) planner" where
  "silent_planner = \<lparr>ask_planner = (\<lambda>req w. (None, w)), decode_json = (\<lambda>_. None), new_plan_id = (\<lambda>_. ''id'')\<rparr>"

theorem planned_ok_witness:
  "\<exists>p. make_plan silent_planner ''q'' ''query_database'' 0 = (Inr p, 0) \<and> plan_ok [] (stages p)"
proof -
  have made: "make_plan silent_planner ''q'' ''query_database'' 0 = (Inr (quick_data_plan ''id'' ''q'' ''query_database''), 0)"
    by (simp add: make_plan_def silent_planner_def numeral_2_eq_2 call_arguments_def)
  have "py_strip ''q'' \<noteq> []" by code_simp
  from planned_ok [OF made _ this] made show ?thesis by (simp add: data_retrieval_tools_def)
qed

end
