(* ===== verification/PipelineReplans.thy ===== *)
theory PipelineReplans
  imports PipelineRuns AdaptivePlanner
begin

text \<open>
  The replan loop of \<^verbatim>\<open>backend/app/agents/orchestrator.py\<close> (\<^verbatim>\<open>_run_pipeline_replans\<close>, with
  \<^verbatim>\<open>_plan_fingerprint\<close>): a failed pipeline is planned again, its usable results are carried
  over, and the new plan is run, as long as the budgets last. The digest of a fingerprint is a
  parameter; logging and tracker events are left out.
\<close>

section \<open>Fingerprints\<close>

definition fingerprint_parts :: "execution_plan \<Rightarrow> (string \<times> string \<times> string) list" where
  "fingerprint_parts p = map (\<lambda>s. (tool s, py_lower (join_with '' '' (py_split (description s))), py_strip (input_context s)))
     (stages p)"

type_synonym failure_report = "failure option \<times> gate_outcome option"

record 'w orchestrator =
  executor :: "'w executor"
  planner :: "(failure_report, 'w) planner"
  digest :: "(string \<times> string \<times> string) list \<Rightarrow> string"
  max_pipeline_replans :: nat
  user_question :: string

definition plan_fingerprint :: "'w orchestrator \<Rightarrow> execution_plan \<Rightarrow> string" where
  "plan_fingerprint orc p = digest orc (fingerprint_parts p)"

section \<open>What is carried over\<close>

definition seedable_ids :: "execution_plan \<Rightarrow> string list \<Rightarrow> (string, stage_result) odict \<Rightarrow> string list" where
  "seedable_ids p rejected done_results = stage_ids (stages p)
     @ map fst (filter (\<lambda>(sid, r). usable_status r \<and> sid \<notin> set rejected) done_results)"

definition dangling :: "execution_plan \<Rightarrow> string list \<Rightarrow> string list" where
  "dangling p ids = filter (\<lambda>d. d \<notin> set ids) (concat (map depends_on (stages p)))"

definition seeded_context :: "execution_plan \<Rightarrow> string \<Rightarrow> string list \<Rightarrow> (string, stage_result) odict \<Rightarrow> stage_context" where
  "seeded_context p run_id rejected done_results =
     fold (\<lambda>(sid, r) ctx. if sid \<in> set rejected then ctx else if usable_status r then set_result sid r ctx else ctx)
       done_results (new_context p run_id)"

section \<open>The loop\<close>

datatype replan_exc = ReplanExc plan_exc | RunExc py_error | OutOfRounds

record replanning =
  r_exec :: exec_result
  r_ctx :: stage_context
  r_count :: nat
  r_history :: "replan_record list"
  r_seen :: "string list"

text \<open>The run of a new plan; it ends within its rounds, so \<open>OutOfRounds\<close> never happens.\<close>

definition run_new_plan ::
  "'w orchestrator \<Rightarrow> rat option \<Rightarrow> string \<Rightarrow> execution_plan \<Rightarrow> replanning \<times> 'w world
    \<Rightarrow> (replan_exc + unit) option \<times> replanning \<times> 'w world" where
  "run_new_plan orc dl run_id p sw = (case sw of (st, w) \<Rightarrow>
     let ctx = seeded_context p run_id (rejected_stage_ids (r_exec st)) (results (r_ctx st)) in
     case execute (executor orc) p 0 dl (Suc (length (stages p))) (ctx, w) of
       None \<Rightarrow> (Some (Inl OutOfRounds), st, w)
     | Some (Inl e, ctx1, w1) \<Rightarrow> (Some (Inl (RunExc e)), st, w1)
     | Some (Inr x, ctx1, w1) \<Rightarrow>
         (None, st\<lparr>r_exec := x, r_ctx := ctx1, r_seen := plan_fingerprint orc p # r_seen st\<rparr>, w1))"

text \<open>What is done with the planner's answer.\<close>

definition use_new_plan ::
  "'w orchestrator \<Rightarrow> rat option \<Rightarrow> string \<Rightarrow> execution_plan option \<Rightarrow> replanning \<times> 'w world
    \<Rightarrow> (replan_exc + unit) option \<times> replanning \<times> 'w world" where
  "use_new_plan orc dl run_id answer sw = (case answer of
     None \<Rightarrow> (Some (Inr ()), sw)
   | Some p \<Rightarrow>
       if dangling p (seedable_ids p (rejected_stage_ids (r_exec (fst sw))) (results (r_ctx (fst sw)))) \<noteq> []
       then (Some (Inr ()), sw)
       else if plan_fingerprint orc p \<in> set (r_seen (fst sw)) then (Some (Inr ()), sw)
       else run_new_plan orc dl run_id p sw)"

definition replan_step ::
  "'w orchestrator \<Rightarrow> rat option \<Rightarrow> string \<Rightarrow> replanning \<times> 'w world \<Rightarrow> (replan_exc + unit) option \<times> replanning \<times> 'w world" where
  "replan_step orc dl run_id sw = (case sw of (st, w) \<Rightarrow>
     let x = r_exec st in
     if \<not> (end_status x = StageFailed \<and> replan_eligible x \<and> r_count st < max_pipeline_replans orc)
     then (Some (Inr ()), st, w)
     else case past (executor orc) dl w of (late, w1) \<Rightarrow>
       if late then (Some (Inr ()), st, w1)
       else case failed_stage x of
         None \<Rightarrow> (Some (Inr ()), st, w1)
       | Some failed \<Rightarrow>
           (let st1 = st\<lparr>r_count := Suc (r_count st), r_history := r_history st @
                  [\<lparr>rr_attempt = Suc (r_count st), rr_stage = stage_id failed, rr_tool = tool failed\<rparr>]\<rparr> in
            case replan (planner orc) (user_question orc) (results (r_ctx st)) failed
                (failed_validation x, data_gate_outcome x) (r_history st1) (outer w1) of
              (Inl e, o') \<Rightarrow> (Some (Inl (ReplanExc e)), st1, w1\<lparr>outer := o'\<rparr>)
            | (Inr answer, o') \<Rightarrow> use_new_plan orc dl run_id answer (st1, w1\<lparr>outer := o'\<rparr>)))"

definition start_replanning :: "'w orchestrator \<Rightarrow> exec_result \<Rightarrow> stage_context \<Rightarrow> replanning" where
  "start_replanning orc x ctx = \<lparr>r_exec = x, r_ctx = ctx, r_count = 0, r_history = [],
     r_seen = [plan_fingerprint orc (plan ctx)]\<rparr>"

definition run_pipeline_replans ::
  "'w orchestrator \<Rightarrow> rat option \<Rightarrow> string \<Rightarrow> nat \<Rightarrow> exec_result \<Rightarrow> stage_context \<times> 'w world
    \<Rightarrow> ((replan_exc + unit) \<times> replanning \<times> 'w world) option" where
  "run_pipeline_replans orc dl run_id fuel x cw =
     run_steps (replan_step orc dl run_id) fuel (start_replanning orc x (fst cw), snd cw)"

text \<open>The deadline that all the runs of one request share.\<close>

definition new_pipeline_deadline :: "'w executor \<Rightarrow> rat \<Rightarrow> rat option" where
  "new_pipeline_deadline env started =
     (let budget = (if pipeline_wall_seconds env \<noteq> 0 then pipeline_wall_seconds env else agent_wall_seconds env)
      in if budget \<le> 0 then None else Some (started + of_int budget))"

section \<open>The carried results\<close>

abbreviation carries :: "string list \<Rightarrow> string \<Rightarrow> stage_result \<Rightarrow> bool" where
  "carries rejected x q \<equiv> usable_status q \<and> x \<notin> set rejected"

lemma seeded_fold:
  "distinct (map fst rs) \<Longrightarrow> get_result (fold (\<lambda>(sid, r) ctx. if sid \<in> set rejected then ctx
      else if usable_status r then set_result sid r ctx else ctx) rs ctx) x =
    (case map_of rs x of Some q \<Rightarrow> if carries rejected x q then Some q else get_result ctx x | None \<Rightarrow> get_result ctx x)"
proof (induction rs arbitrary: ctx)
  case (Cons a rs)
  obtain sid r where a: "a = (sid, r)" by fastforce
  let ?ctx = "if sid \<in> set rejected then ctx else if usable_status r then set_result sid r ctx else ctx"
  have "map_of rs sid = None" using Cons.prems a by (simp add: map_of_eq_None_iff)
  then show ?case using Cons.IH [of ?ctx] Cons.prems a by (auto simp: get_set_result split: option.splits)
qed simp

lemma seeded_result:
  "od_ok rs \<Longrightarrow> get_result (seeded_context p run_id rejected rs) x =
    (case map_of rs x of Some q \<Rightarrow> if carries rejected x q then Some q else None | None \<Rightarrow> None)"
proof -
  assume "od_ok rs"
  then have "distinct (map fst rs)" by (simp add: od_ok_def od_keys_def)
  from seeded_fold [OF this, of rejected "new_context p run_id" x]
  have "get_result (seeded_context p run_id rejected rs) x = (case map_of rs x of
      Some q \<Rightarrow> if carries rejected x q then Some q else get_result (new_context p run_id) x
    | None \<Rightarrow> get_result (new_context p run_id) x)" by (simp only: seeded_context_def)
  moreover have "get_result (new_context p run_id) x = None" by (simp add: new_context_def get_result_def)
  ultimately show ?thesis by (simp split: option.split)
qed

lemma seeded_od_ok: "od_ok (results (seeded_context p run_id rejected rs))"
proof -
  have "od_ok (results ctx) \<Longrightarrow> od_ok (results (fold (\<lambda>(sid, r) ctx. if sid \<in> set rejected then ctx
      else if usable_status r then set_result sid r ctx else ctx) rs ctx))" for ctx
  proof (induction rs arbitrary: ctx)
    case (Cons a rs)
    obtain sid r where a: "a = (sid, r)" by fastforce
    let ?ctx = "if sid \<in> set rejected then ctx else if usable_status r then set_result sid r ctx else ctx"
    have "od_ok (results ?ctx)" using Cons.prems by (auto simp: set_result_def)
    from Cons.IH [OF this] a show ?case by simp
  qed simp
  then show ?thesis unfolding seeded_context_def by (simp add: new_context_def od_ok_def od_keys_def)
qed

section \<open>The invariant of the loop\<close>

text \<open>
  The replans are within their budget and on record, no plan that was run is like another, and
  a plan that was replanned has not failed for unmet dependencies.
\<close>

definition replans_ok :: "'w orchestrator \<Rightarrow> replanning \<times> 'w world \<Rightarrow> bool" where
  "replans_ok orc sw \<longleftrightarrow> (case sw of (st, w) \<Rightarrow>
     r_count st \<le> max_pipeline_replans orc \<and> length (r_history st) = r_count st \<and> od_ok (results (r_ctx st)) \<and>
     distinct (r_seen st) \<and> length (r_seen st) \<le> Suc (r_count st) \<and>
     (length (r_seen st) > 1 \<and> end_status (r_exec st) = StageFailed \<and> replan_eligible (r_exec st) \<longrightarrow>
       failed_validation (r_exec st) \<noteq> None))"

lemma not_dangling:
  assumes "plan_ok external (stages p)" "dangling p (seedable_ids p rejected rs) = []"
  shows "plan_ok (map fst (filter (\<lambda>(sid, r). usable_status r \<and> sid \<notin> set rejected) rs)) (stages p)"
proof -
  have "set (depends_on s) \<subseteq> set (seedable_ids p rejected rs)" if "s \<in> set (stages p)" for s
    using assms(2) that by (auto simp: dangling_def filter_empty_conv)
  with assms(1) show ?thesis
    by (auto simp: plan_ok_def stage_ok_def seedable_ids_def)
qed

lemma carried_completed:
  assumes "od_ok rs" "x \<in> set (map fst (filter (\<lambda>(sid, r). usable_status r \<and> sid \<notin> set rejected) rs))"
  shows "get_result (seeded_context p run_id rejected rs) x \<noteq> None"
proof -
  from assms(2) obtain q where q: "(x, q) \<in> set rs" "carries rejected x q" by auto
  then have "map_of rs x = Some q" using assms(1) by (simp add: od_ok_def od_keys_def)
  with q assms(1) show ?thesis by (simp add: seeded_result)
qed

lemma run_new_plan_ok:
  assumes ok: "replans_ok orc (st, w)" and run: "run_new_plan orc dl run_id p (st, w) = (r, st', w')"
    and plan: "plan_ok external (stages p)"
    and dang: "dangling p (seedable_ids p (rejected_stage_ids (r_exec st)) (results (r_ctx st))) = []"
    and new: "plan_fingerprint orc p \<notin> set (r_seen st)" and room: "length (r_seen st) \<le> r_count st"
  shows "replans_ok orc (st', w') \<and> r_count st' = r_count st \<and> r \<noteq> Some (Inl OutOfRounds)"
proof -
  let ?rs = "results (r_ctx st)" and ?rej = "rejected_stage_ids (r_exec st)"
  let ?ctx = "seeded_context p run_id ?rej ?rs"
  let ?ext = "map fst (filter (\<lambda>(sid, r). usable_status r \<and> sid \<notin> set ?rej) ?rs)"
  have ids: "distinct (stage_ids (stages p))" using plan by (simp add: plan_ok_def)
  from execute_ends [OF ids, of "Suc (length (stages p))" "executor orc" 0 dl ?ctx w]
  obtain y where y: "execute (executor orc) p 0 dl (Suc (length (stages p))) (?ctx, w) = Some y" by auto
  obtain e c1 w1 where e: "y = (e, c1, w1)" by (metis prod_cases3)
  show ?thesis
  proof (cases e)
    case (Inl err)
    with run y e have "r = Some (Inl (RunExc err))" "st' = st" by (simp_all add: run_new_plan_def Let_def)
    with ok show ?thesis by (simp add: replans_ok_def)
  next
    case (Inr x)
    with run y e have r: "r = None"
      and st: "st' = st\<lparr>r_exec := x, r_ctx := c1, r_seen := plan_fingerprint orc p # r_seen st\<rparr>"
      by (simp_all add: run_new_plan_def Let_def)
    have done_ex: "execute (executor orc) p 0 dl (Suc (length (stages p))) (?ctx, w) = Some (Inr x, c1, w1)"
      using y e Inr by simp
    have odok: "od_ok ?rs" using ok by (simp add: replans_ok_def)
    have "plan_ok ?ext (stages p)" by (rule not_dangling [OF plan dang])
    moreover have "\<forall>d \<in> set ?ext. get_result ?ctx d \<noteq> None" using carried_completed [OF odok] by blast
    ultimately have stuck: "end_status x = StageFailed \<Longrightarrow> replan_eligible x \<Longrightarrow> failed_validation x \<noteq> None"
      by (rule not_stuck [OF _ _ done_ex])
    obtain h where "run_ok (executor orc) p ?ctx h c1" by (rule execute_ended [OF ids done_ex])
    then have "od_ok (results c1)" using seeded_od_ok by (simp add: run_ok_def)
    with ok stuck new room r st show ?thesis by (simp add: replans_ok_def)
  qed
qed

lemma replan_step_ok:
  assumes ok: "replans_ok orc (st, w)" and step: "replan_step orc dl run_id (st, w) = (r, st', w')"
  shows "replans_ok orc (st', w') \<and> r \<noteq> Some (Inl OutOfRounds) \<and> (r = None \<longrightarrow> r_count st < r_count st')"
proof (cases "end_status (r_exec st) = StageFailed \<and> replan_eligible (r_exec st) \<and> r_count st < max_pipeline_replans orc")
  case False
  with step have "r = Some (Inr ())" "st' = st" by (auto simp: replan_step_def Let_def)
  with ok show ?thesis by (simp add: replans_ok_def)
next
  case go: True
  obtain late w1 where l: "past (executor orc) dl w = (late, w1)" by fastforce
  show ?thesis
  proof (cases "late \<or> failed_stage (r_exec st) = None")
    case True
    with step go l have "r = Some (Inr ())" "st' = st" by (auto simp: replan_step_def Let_def split: option.splits)
    with ok show ?thesis by (simp add: replans_ok_def)
  next
    case False
    then obtain failed where f: "failed_stage (r_exec st) = Some failed" and nl: "\<not> late" by auto
    let ?st = "st\<lparr>r_count := Suc (r_count st), r_history := r_history st @
        [\<lparr>rr_attempt = Suc (r_count st), rr_stage = stage_id failed, rr_tool = tool failed\<rparr>]\<rparr>"
    obtain ans o' where a: "replan (planner orc) (user_question orc) (results (r_ctx st)) failed
        (failed_validation (r_exec st), data_gate_outcome (r_exec st)) (r_history ?st) (outer w1) = (ans, o')" by fastforce
    have ok1: "replans_ok orc (?st, v)" for v :: "'a world" using ok go by (simp add: replans_ok_def)
    show ?thesis
    proof (cases ans)
      case (Inl e)
      with step go l nl f a have "r = Some (Inl (ReplanExc e))" "st' = ?st" by (simp_all add: replan_step_def Let_def)
      with ok1 show ?thesis by simp
    next
      case (Inr answer)
      let ?w = "w1\<lparr>outer := o'\<rparr>"
      from step go l nl f a Inr have use: "use_new_plan orc dl run_id answer (?st, ?w) = (r, st', w')"
        by (simp add: replan_step_def Let_def)
      show ?thesis
      proof (cases answer)
        case None
        with use have "r = Some (Inr ())" "st' = ?st" by (auto simp: use_new_plan_def)
        with ok1 show ?thesis by simp
      next
        case (Some p)
        show ?thesis
        proof (cases "dangling p (seedable_ids p (rejected_stage_ids (r_exec st)) (results (r_ctx st))) \<noteq> []
            \<or> plan_fingerprint orc p \<in> set (r_seen st)")
          case True
          with use Some have "r = Some (Inr ())" "st' = ?st" by (auto simp: use_new_plan_def split: if_splits)
          with ok1 show ?thesis by simp
        next
          case False
          with use Some have run: "run_new_plan orc dl run_id p (?st, ?w) = (r, st', w')"
            by (simp add: use_new_plan_def)
          have "plan_ok (allowed_dep_ids (results (r_ctx st))) (stages p)"
            by (rule conjunct1 [OF replan_ok [OF a [unfolded Inr Some]]])
          from run_new_plan_ok [OF ok1 run this] False ok show ?thesis
            by (simp add: replans_ok_def)
        qed
      qed
    qed
  qed
qed

interpretation replans: stepping "replan_step orc dl run_id" "replans_ok orc"
    "\<lambda>sw. max_pipeline_replans orc - r_count (fst sw)" for orc dl run_id
proof unfold_locales
  fix sw sw' :: "replanning \<times> 'a world"
  obtain st w st' w' where sw: "sw = (st, w)" "sw' = (st', w')" by (metis surj_pair)
  assume ok: "replans_ok orc sw" and step: "replan_step orc dl run_id sw = (None, sw')"
  note step_ok = replan_step_ok [OF ok [unfolded sw] step [unfolded sw]]
  then show "replans_ok orc sw'" unfolding sw by blast
  from step_ok have "r_count st < r_count st'" "r_count st' \<le> max_pipeline_replans orc" by (auto simp: replans_ok_def)
  then show "max_pipeline_replans orc - r_count (fst sw') < max_pipeline_replans orc - r_count (fst sw)"
    unfolding sw by simp
qed

lemma replans_start:
  "od_ok (results (fst cw)) \<Longrightarrow> replans_ok orc (start_replanning orc x (fst cw), snd cw)"
  by (simp add: replans_ok_def start_replanning_def)

lemma replans_end:
  assumes "od_ok (results (fst cw))" "run_pipeline_replans orc dl run_id fuel x cw = Some (r, st, w)"
  shows "replans_ok orc (st, w) \<and> r \<noteq> Inl OutOfRounds"
proof -
  obtain u where u: "replans_ok orc u" "replan_step orc dl run_id u = (Some r, st, w)"
    using replans.run_good [OF replans_start [OF assms(1)] assms(2) [unfolded run_pipeline_replans_def]] by blast
  obtain s v where "u = (s, v)" by fastforce
  with u replan_step_ok show ?thesis by blast
qed

section \<open>A sample request\<close>

text \<open>
  A plan of two stages whose second one fails, and a planner that answers one stage depending
  on the first.
\<close>

definition second_fails :: "nat executor" where
  "second_fails = sample_executor\<lparr>runners := sample_runners\<lparr>call := (\<lambda>c n.
     (if n = 1 then Inl (AgentFatal ''no'') else fst (call sample_runners c n), Suc n))\<rparr>\<rparr>"

definition one_stage_planner :: "(failure_report, nat) planner" where
  "one_stage_planner = \<lparr>ask_planner = (\<lambda>req n. (Some [(''create_execution_plan'',
       PDict [(''stages'', PList [PDict (stage_to_dict (sample_stage ''c'' [''a'']))])])], n)),
     decode_json = (\<lambda>_. None), new_plan_id = (\<lambda>_. ''p2'')\<rparr>"

definition sample_orchestrator :: "nat orchestrator" where
  "sample_orchestrator = \<lparr>executor = second_fails, planner = one_stage_planner,
     digest = (\<lambda>parts. concat (map (\<lambda>(a, b, c). a @ b @ c @ [CHR 0x0A]) parts)), max_pipeline_replans = 2, user_question = ''q''\<rparr>"

definition sample_request :: "nat \<Rightarrow> ((replan_exc + unit) \<times> replanning \<times> nat world) option" where
  "sample_request n = (case execute second_fails sample_plan 0 None 3 (new_context sample_plan [], sample_world) of
     Some (Inr x, ctx, w) \<Rightarrow> run_pipeline_replans sample_orchestrator None ''r'' n x (ctx, w)
   | _ \<Rightarrow> None)"

section \<open>Properties\<close>

text \<open>
  C32. Replanning is bounded: the loop ends after at most one round more than the configured
  replans, never starts more replans than configured and records every one, the run of a new
  plan never runs out of rounds, and no two plans that were run have the same fingerprint.
\<close>

theorem replans_bounded:
  assumes "od_ok (results (fst cw))" "max_pipeline_replans orc < fuel"
  shows "\<exists>r st w. run_pipeline_replans orc dl run_id fuel x cw = Some (r, st, w) \<and> r \<noteq> Inl OutOfRounds \<and>
    r_count st \<le> max_pipeline_replans orc \<and> length (r_history st) = r_count st \<and>
    distinct (r_seen st) \<and> length (r_seen st) \<le> Suc (r_count st)"
proof -
  let ?s = "(start_replanning orc x (fst cw), snd cw)"
  have "max_pipeline_replans orc - r_count (fst ?s) < fuel" using assms(2) by simp
  from replans.run_ends [OF replans_start [OF assms(1)] this] obtain r t
    where run: "run_pipeline_replans orc dl run_id fuel x cw = Some (r, t)"
    unfolding run_pipeline_replans_def by blast
  obtain st w where t: "t = (st, w)" by fastforce
  from replans_end [OF assms(1) run [unfolded t]] run t show ?thesis by (auto simp: replans_ok_def)
qed

theorem replans_bounded_witness:
  "\<exists>r st w. run_pipeline_replans sample_orchestrator None ''r'' 3 (failed_at (sample_stage ''b'' [''a'']) None True)
      (new_context sample_plan [], sample_world) = Some (r, st, w) \<and> r_count st \<le> 2"
proof -
  have "od_ok (results (fst (new_context sample_plan [], sample_world)))" "max_pipeline_replans sample_orchestrator < 3"
    by (simp_all add: new_context_def od_ok_def od_keys_def sample_orchestrator_def)
  from replans_bounded [OF this] show ?thesis by (force simp: sample_orchestrator_def)
qed

text \<open>
  What a replan carries over is exactly the usable results that were not refused: a stage
  of the new context has a result if and only if it had that result before, with status success
  or degraded, and no layer gate rejected it.
\<close>

theorem carried_exactly:
  assumes "od_ok rs"
  shows "get_result (seeded_context p run_id rejected rs) x = Some q \<longleftrightarrow>
    map_of rs x = Some q \<and> (status q = ''success'' \<or> status q = ''degraded'') \<and> x \<notin> set rejected"
  using seeded_result [OF assms, of p run_id rejected x] by (auto simp: usable_status_def split: option.splits)

theorem carried_exactly_witness:
  "get_result (seeded_context sample_plan [] [''a''] [(''a'', new_result ''a'' ''success''), (''b'', new_result ''b'' ''degraded'')]) ''b''
     = Some (new_result ''b'' ''degraded'') \<and>
   get_result (seeded_context sample_plan [] [''a''] [(''a'', new_result ''a'' ''success''), (''b'', new_result ''b'' ''degraded'')]) ''a''
     \<noteq> Some (new_result ''a'' ''success'')"
proof -
  let ?rs = "[(''a'', new_result ''a'' ''success''), (''b'', new_result ''b'' ''degraded'')]"
  have "od_ok ?rs" by (simp add: od_ok_def od_keys_def)
  note carried_exactly [OF this, of sample_plan "[]" "[''a'']"]
  then show ?thesis by (simp add: new_result_def)
qed

text \<open>
  A replanned pipeline is never stuck: once a new plan has been run, a failure that may be
  replanned again always names what failed, whatever stages the new plan depends on (a
  dependency on a result that is not carried over is refused before the run).
\<close>

theorem replanned_not_stuck:
  assumes "od_ok (results (fst cw))" "run_pipeline_replans orc dl run_id fuel x cw = Some (r, st, w)"
    and "length (r_seen st) > 1" "end_status (r_exec st) = StageFailed" "replan_eligible (r_exec st)"
  shows "failed_validation (r_exec st) \<noteq> None"
  using replans_end [OF assms(1,2)] assms(3-5) by (simp add: replans_ok_def)

definition always_fails :: "nat orchestrator" where
  "always_fails = sample_orchestrator\<lparr>executor := failing_executor, max_pipeline_replans := 1,
     planner := one_stage_planner\<lparr>ask_planner := (\<lambda>req n. (Some [(''create_execution_plan'',
       PDict [(''stages'', PList [PDict (stage_to_dict ((sample_stage ''c'' [])\<lparr>description := ''e''\<rparr>))])])], n))\<rparr>\<rparr>"

theorem replanned_not_stuck_witness:
  "\<exists>r st w. run_pipeline_replans always_fails None ''r'' 2 (failed_at (sample_stage ''b'' [''a'']) None True)
      (new_context sample_plan [], sample_world) = Some (r, st, w) \<and> failed_validation (r_exec st) \<noteq> None"
proof -
  let ?cw = "(new_context sample_plan [], sample_world)"
  let ?run = "run_pipeline_replans always_fails None ''r'' 2 (failed_at (sample_stage ''b'' [''a'']) None True) ?cw"
  have "case ?run of Some (r, st, w) \<Rightarrow> length (r_seen st) > 1 \<and> end_status (r_exec st) = StageFailed \<and>
      replan_eligible (r_exec st) | None \<Rightarrow> False" by code_simp
  then obtain r st w where run: "?run = Some (r, st, w)" "length (r_seen st) > 1" "end_status (r_exec st) = StageFailed"
    "replan_eligible (r_exec st)" by (cases ?run) auto
  have "od_ok (results (fst ?cw))" by (simp add: new_context_def od_ok_def od_keys_def)
  from replanned_not_stuck [OF this run] run(1) show ?thesis by blast
qed

text \<open>
  A replanned pipeline can report completion without running its plan: in the sample
  request the first stage of a plan succeeds and the second fails, the planner answers a plan
  of one stage that depends on the first, and the request ends as completed although that
  stage was never executed and has no result.
\<close>

theorem replan_skips_plan:
  "case sample_request 3 of
     Some (Inr (), st, w) \<Rightarrow> end_status (r_exec st) = Completed \<and> r_count st = 1 \<and>
       stage_ids (stages (plan (r_ctx st))) = [''c''] \<and> get_result (r_ctx st) ''c'' = None \<and> executed w = [''a'', ''b'']
   | _ \<Rightarrow> False"
  by code_simp

end
