(* ===== verification/QueryErrors.thy ===== *)
theory QueryErrors
  imports SqlText QueryData
begin

text \<open>
  \<^verbatim>\<open>backend/app/core/error_types.py\<close>, \<^verbatim>\<open>query_validation.py\<close>, \<^verbatim>\<open>error_classifier.py\<close> and
  \<^verbatim>\<open>retry_strategy.py\<close>: the vocabulary of query errors, the records the validation loop passes
  around, the classification of a driver's message by the patterns of its dialect (then of the
  other dialects), and the decision whether an error is worth another attempt.
\<close>

section \<open>The vocabulary\<close>

datatype query_error_type =
    ColumnNotFound
  | TableNotFound
  | SyntaxError
  | TypeMismatch
  | AmbiguousColumn
  | PermissionDenied
  | ConnectionError
  | Timeout
  | CollationMismatch
  | GroupByViolation
  | EmptyResult
  | ExplainWarning
  | UnknownError

fun type_value :: "query_error_type \<Rightarrow> string" where
  "type_value ColumnNotFound = ''column_not_found''"
| "type_value TableNotFound = ''table_not_found''"
| "type_value SyntaxError = ''syntax_error''"
| "type_value TypeMismatch = ''type_mismatch''"
| "type_value AmbiguousColumn = ''ambiguous_column''"
| "type_value PermissionDenied = ''permission_denied''"
| "type_value ConnectionError = ''connection_error''"
| "type_value Timeout = ''timeout''"
| "type_value CollationMismatch = ''collation_mismatch''"
| "type_value GroupByViolation = ''group_by_violation''"
| "type_value EmptyResult = ''empty_result''"
| "type_value ExplainWarning = ''explain_warning''"
| "type_value UnknownError = ''unknown''"

definition error_types :: "query_error_type list" where
  "error_types = [ColumnNotFound, TableNotFound, SyntaxError, TypeMismatch, AmbiguousColumn,
     PermissionDenied, ConnectionError, Timeout, CollationMismatch, GroupByViolation, EmptyResult,
     ExplainWarning, UnknownError]"

text \<open>A result carries its error type by value (the enumeration's members are strings).\<close>

definition type_of_value :: "string \<Rightarrow> query_error_type option" where
  "type_of_value v = find (\<lambda>t. type_value t = v) error_types"

lemma type_of_value_back [simp]: "type_of_value (type_value t) = Some t"
  by (cases t) (simp_all add: type_of_value_def error_types_def)

definition non_retryable_errors :: "query_error_type list" where
  "non_retryable_errors = [PermissionDenied]"

record query_error =
  e_type :: query_error_type
  e_message :: string
  e_raw :: string
  e_retryable :: bool
  e_tables :: "string list"
  e_columns :: "string list"
  e_hint :: string

record validation_result =
  v_valid :: bool
  v_error :: "query_error option"
  v_warnings :: "string list"
  v_warning :: "string option"

definition valid_result :: validation_result where
  "valid_result = \<lparr>v_valid = True, v_error = None, v_warnings = [], v_warning = None\<rparr>"

definition invalid_result :: "query_error \<Rightarrow> validation_result" where
  "invalid_result e = \<lparr>v_valid = False, v_error = Some e, v_warnings = [], v_warning = None\<rparr>"

text \<open>A check refuses when it is invalid and says why (\<^verbatim>\<open>not r.is_valid and r.error\<close>).\<close>

definition refusal :: "validation_result \<Rightarrow> query_error option" where
  "refusal r = (if v_valid r then None else v_error r)"

lemma refusal_simps [simp]:
  "refusal valid_result = None" "refusal (invalid_result e) = Some e"
  "refusal (valid_result\<lparr>v_warnings := ws\<rparr>) = None" "refusal (valid_result\<lparr>v_warning := w\<rparr>) = None"
  by (simp_all add: refusal_def valid_result_def invalid_result_def)

section \<open>Patterns\<close>

text \<open>An expression, the error it stands for and the group that names the culprit.\<close>

type_synonym error_pattern = "rx \<times> query_error_type \<times> nat option"

definition in_quotes :: "char \<Rightarrow> rx \<Rightarrow> rx" where
  "in_quotes q a = seqs [chr q, a, chr q]"

definition postgres_patterns :: "error_pattern list" where
  "postgres_patterns =
    [(seqs [lit_ci ''column '', in_quotes (CHR 0x22) (Grp 1 word1), lit_ci '' does not exist''],
       ColumnNotFound, Some 1),
     (seqs [lit_ci ''relation '', in_quotes (CHR 0x22) (Grp 1 word1), lit_ci '' does not exist''],
       TableNotFound, Some 1),
     (lit_ci ''must appear in the GROUP BY clause'', GroupByViolation, None),
     (lit_ci ''syntax error at or near'', SyntaxError, None),
     (seqs [lit_ci ''column '', in_quotes (CHR 0x22) (Grp 1 word1), lit_ci '' is ambiguous''],
       AmbiguousColumn, Some 1),
     (seqs [lit_ci ''invalid input syntax for type '', Grp 1 word1], TypeMismatch, Some 1),
     (lit_ci ''permission denied'', PermissionDenied, None),
     (lit_ci ''canceling statement due to statement timeout'', Timeout, None),
     (alts (map lit_ci [''collation mismatch'', ''could not determine which collation'']),
       CollationMismatch, None),
     (alts (map lit_ci [''could not connect'', ''connection refused'', ''connection reset'']),
       ConnectionError, None)]"

definition mysql_patterns :: "error_pattern list" where
  "mysql_patterns =
    [(seqs [lit_ci ''Unknown column '', in_quotes (CHR 0x27) (Grp 1 (plus (Cls (\<lambda>c. c \<noteq> CHR 0x27))))],
       ColumnNotFound, Some 1),
     (seqs [lit_ci ''Table '', in_quotes (CHR 0x27)
         (Seq (opt (Seq (Star (Cls (\<lambda>c. is_word c \<or> c = CHR ''.''))) (chr (CHR ''.'')))) (Grp 1 word1)),
         lit_ci '' doesn'', chr (CHR 0x27), lit_ci ''t exist''],
       TableNotFound, Some 1),
     (alts (map lit_ci [''not in GROUP BY clause'', ''only_full_group_by'']), GroupByViolation, None),
     (lit_ci ''You have an error in your SQL syntax'', SyntaxError, None),
     (seqs [lit_ci ''Column '', in_quotes (CHR 0x27) (Grp 1 word1), lit_ci '' in '', plus dot,
         lit_ci '' is ambiguous''],
       AmbiguousColumn, Some 1),
     (seqs [lit_ci ''Incorrect '', word1, lit_ci '' value:''], TypeMismatch, None),
     (alts (map lit_ci [''Access denied'', ''command denied'']), PermissionDenied, None),
     (lit_ci ''Illegal mix of collations'', CollationMismatch, None),
     (alts (map lit_ci [''Lock wait timeout'', ''Query execution was interrupted'']), Timeout, None),
     (alts [seqs [lit_ci ''Can'', chr (CHR 0x27), lit_ci ''t connect''], lit_ci ''Lost connection''],
       ConnectionError, None)]"

definition clickhouse_patterns :: "error_pattern list" where
  "clickhouse_patterns =
    [(seqs [lit_ci ''Missing column'', opt (lit_ci ''s''), lit_ci '': '', in_quotes (CHR 0x27) (Grp 1 word1)],
       ColumnNotFound, Some 1),
     (seqs [lit_ci ''Unknown table expression identifier '', in_quotes (CHR 0x27) (Grp 1 word1)],
       TableNotFound, Some 1),
     (seqs [lit_ci ''Table '', Grp 1 word1, lit_ci '' does not exist''], TableNotFound, Some 1),
     (alts (map lit_ci [''not under aggregate function and not in GROUP BY'', ''NOT_AN_AGGREGATE'']),
       GroupByViolation, None),
     (lit_ci ''Syntax error'', SyntaxError, None),
     (lit_ci ''Illegal type'', TypeMismatch, None),
     (alts (map lit_ci [''ACCESS_DENIED'', ''Not enough privileges'']), PermissionDenied, None),
     (alts (map lit_ci [''TIMEOUT_EXCEEDED'', ''Timeout exceeded'']), Timeout, None),
     (alts (map lit_ci [''Connection refused'', ''Network is unreachable'']), ConnectionError, None)]"

definition mongo_patterns :: "error_pattern list" where
  "mongo_patterns =
    [(alts [lit_ci ''ns not found'', seqs [lit_ci ''Collection '', Grp 1 word1, lit_ci '' not found'']],
       TableNotFound, Some 1),
     (lit_ci ''unknown top level operator'', SyntaxError, None),
     (alts (map lit_ci [''not authorized'', ''Unauthorized'']), PermissionDenied, None),
     (lit_ci ''operation exceeded time limit'', Timeout, None),
     (alts [lit_ci ''connection refused'', seqs [lit_ci ''couldn'', chr (CHR 0x27), lit_ci ''t connect'']],
       ConnectionError, None)]"

text \<open>
  \<^verbatim>\<open>DIALECT_MAP\<close>: two names may share a list, and the fallback skips entries whose list is the
  same object, so the entries name their list.
\<close>

datatype pattern_list = PostgresList | MysqlList | ClickhouseList | MongoList

fun patterns_of :: "pattern_list \<Rightarrow> error_pattern list" where
  "patterns_of PostgresList = postgres_patterns"
| "patterns_of MysqlList = mysql_patterns"
| "patterns_of ClickhouseList = clickhouse_patterns"
| "patterns_of MongoList = mongo_patterns"

definition dialect_map :: "(string, pattern_list) odict" where
  "dialect_map = [(''postgresql'', PostgresList), (''postgres'', PostgresList), (''mysql'', MysqlList),
     (''clickhouse'', ClickhouseList), (''mongodb'', MongoList), (''mongo'', MongoList)]"

section \<open>Classification\<close>

text \<open>\<^verbatim>\<open>str.title()\<close> on ASCII text.\<close>

fun title_from :: "bool \<Rightarrow> string \<Rightarrow> string" where
  "title_from inside [] = []"
| "title_from inside (c # s) =
     (if is_letter c then (if inside then lower_char c else upper_ascii c) else c) # title_from (is_letter c) s"

definition build_message :: "query_error_type \<Rightarrow> string option \<Rightarrow> string" where
  "build_message t entity =
    (let pre = title_from False (map (\<lambda>c. if c = CHR ''_'' then CHR '' '' else c) (type_value t))
     in case entity of
          Some (c # e) \<Rightarrow> pre @ '': '' @ [CHR 0x27] @ (c # e) @ [CHR 0x27]
        | _ \<Rightarrow> pre)"

text \<open>The first pattern of a list that matches, with the culprit it names.\<close>

fun match_patterns :: "error_pattern list \<Rightarrow> string \<Rightarrow> (query_error_type \<times> string option) option" where
  "match_patterns [] raw = None"
| "match_patterns ((a, t, grp) # ps) raw =
     (case search a raw of
        None \<Rightarrow> match_patterns ps raw
      | Some (w, g) \<Rightarrow> Some (t, case grp of None \<Rightarrow> None | Some i \<Rightarrow> map_of g i))"

definition named :: "string option \<Rightarrow> bool \<Rightarrow> string list" where
  "named entity b = (case entity of Some (c # e) \<Rightarrow> if b then [c # e] else [] | _ \<Rightarrow> [])"

definition retryable_type :: "query_error_type \<Rightarrow> bool" where
  "retryable_type t \<longleftrightarrow> t \<notin> set non_retryable_errors"

definition matched_error :: "query_error_type list \<Rightarrow> string \<Rightarrow> query_error_type \<Rightarrow> string option \<Rightarrow> query_error" where
  "matched_error column_types raw t entity =
     \<lparr>e_type = t, e_message = build_message t entity, e_raw = raw, e_retryable = retryable_type t,
      e_tables = named entity (t = TableNotFound), e_columns = named entity (t \<in> set column_types),
      e_hint = []\<rparr>"

fun fallback_match :: "pattern_list \<Rightarrow> (string, pattern_list) odict \<Rightarrow> string \<Rightarrow>
  (query_error_type \<times> string option) option" where
  "fallback_match own [] raw = None"
| "fallback_match own ((d, l) # ds) raw =
     (if l = own then fallback_match own ds raw
      else case match_patterns (patterns_of l) raw of
        Some m \<Rightarrow> Some m
      | None \<Rightarrow> fallback_match own ds raw)"

definition unclassified :: "string \<Rightarrow> query_error" where
  "unclassified raw =
     \<lparr>e_type = UnknownError, e_message = ''Unclassified error: '' @ take 200 raw, e_raw = raw,
      e_retryable = True, e_tables = [], e_columns = [], e_hint = []\<rparr>"

definition classify :: "string \<Rightarrow> string \<Rightarrow> query_error_type option \<Rightarrow> query_error" where
  "classify raw db_type known =
    (case known of
       Some t \<Rightarrow>
         \<lparr>e_type = t, e_message = build_message t None, e_raw = raw, e_retryable = retryable_type t,
          e_tables = [], e_columns = [], e_hint = []\<rparr>
     | None \<Rightarrow>
       (case map_of dialect_map (py_lower db_type) of
          None \<Rightarrow> unclassified raw
        | Some own \<Rightarrow>
          (case match_patterns (patterns_of own) raw of
             Some (t, entity) \<Rightarrow> matched_error [ColumnNotFound] raw t entity
           | None \<Rightarrow>
             (case fallback_match own dialect_map raw of
                Some (t, entity) \<Rightarrow> matched_error [ColumnNotFound, AmbiguousColumn] raw t entity
              | None \<Rightarrow> unclassified raw))))"

lemma match_patterns_entity:
  "match_patterns ps raw = Some (t, Some w) \<Longrightarrow> sublist w raw"
proof (induction ps)
  case (Cons p ps)
  obtain a u grp where p: "p = (a, u, grp)" by (metis prod_cases3)
  with Cons show ?case
    by (auto split: option.splits dest: search_groups)
qed simp

lemma fallback_match_entity:
  "fallback_match own ds raw = Some (t, Some w) \<Longrightarrow> sublist w raw"
  by (induction own ds raw rule: fallback_match.induct)
    (auto split: if_splits option.splits dest: match_patterns_entity)

lemma named_in: "x \<in> set (named entity b) \<Longrightarrow> entity = Some x \<and> b"
  by (auto simp: named_def split: option.splits list.splits if_splits)

lemma match_patterns_None:
  "match_patterns ps raw = None \<longleftrightarrow> (\<forall>(a, t, g) \<in> set ps. search a raw = None)"
  by (induction ps raw rule: match_patterns.induct) (auto split: option.split)

lemma fallback_match_None:
  "fallback_match own ds raw = None \<longleftrightarrow>
    (\<forall>(d, l) \<in> set ds. l \<noteq> own \<longrightarrow> match_patterns (patterns_of l) raw = None)"
  by (induction own ds raw rule: fallback_match.induct) (auto split: option.split)

lemma match_patterns_type: "match_patterns ps raw = Some (t, e) \<Longrightarrow> t \<in> (fst \<circ> snd) ` set ps"
  by (induction ps raw rule: match_patterns.induct) (auto split: option.splits)

lemma dialect_types:
  "t \<in> (fst \<circ> snd) ` set (patterns_of l) \<Longrightarrow> t \<notin> {EmptyResult, ExplainWarning, UnknownError}"
  by (cases l) (auto simp: postgres_patterns_def mysql_patterns_def clickhouse_patterns_def mongo_patterns_def)

lemma fallback_type:
  "fallback_match own ds raw = Some (t, e) \<Longrightarrow> t \<notin> {EmptyResult, ExplainWarning, UnknownError}"
proof (induction own ds raw rule: fallback_match.induct)
  case (2 own d l ds raw)
  then show ?case
    using match_patterns_type [of "patterns_of l" raw t e] dialect_types [of t l]
    by (cases "l = own"; cases "match_patterns (patterns_of l) raw") simp_all
qed simp

lemma classify_cases:
  assumes "map_of dialect_map (py_lower db_type) = Some own"
  shows "(match_patterns (patterns_of own) raw = None \<and> fallback_match own dialect_map raw = None \<and>
      classify raw db_type None = unclassified raw) \<or>
    ((match_patterns (patterns_of own) raw \<noteq> None \<or> fallback_match own dialect_map raw \<noteq> None) \<and>
     (\<exists>cols t e. classify raw db_type None = matched_error cols raw t e \<and> t \<notin> {EmptyResult, ExplainWarning, UnknownError}))"
proof (cases "match_patterns (patterns_of own) raw")
  case (Some m)
  obtain t e where m: "m = (t, e)" by fastforce
  have "t \<notin> {EmptyResult, ExplainWarning, UnknownError}"
    by (rule dialect_types) (rule match_patterns_type [OF Some [unfolded m]])
  moreover have "classify raw db_type None = matched_error [ColumnNotFound] raw t e"
    using Some assms by (simp add: classify_def m)
  ultimately show ?thesis using Some by blast
next
  case None
  show ?thesis
  proof (cases "fallback_match own dialect_map raw")
    case (Some m)
    obtain t e where m: "m = (t, e)" by fastforce
    have "t \<notin> {EmptyResult, ExplainWarning, UnknownError}"
      by (rule fallback_type [OF Some [unfolded m]])
    moreover have "classify raw db_type None = matched_error [ColumnNotFound, AmbiguousColumn] raw t e"
      using Some None assms by (simp add: classify_def m)
    ultimately show ?thesis using Some by blast
  qed (use None assms in \<open>simp add: classify_def\<close>)
qed

lemma classify_not_empty: "e_type (classify raw db_type None) \<notin> {EmptyResult, ExplainWarning}"
proof (cases "map_of dialect_map (py_lower db_type)")
  case (Some own)
  then show ?thesis using classify_cases [OF Some, of raw] by (auto simp: matched_error_def unclassified_def)
qed (simp add: classify_def unclassified_def)

text \<open>What classification keeps of the raw message, and what it may add.\<close>

lemma classify_raw [simp]: "e_raw (classify raw db_type known) = raw"
  by (simp add: classify_def matched_error_def unclassified_def split: option.split)

lemma classify_known: "e_type (classify raw db_type (Some t)) = t"
  by (simp add: classify_def)

lemma classify_retryable:
  "e_retryable (classify raw db_type known) \<longleftrightarrow> e_type (classify raw db_type known) \<noteq> PermissionDenied"
  by (simp add: classify_def matched_error_def unclassified_def retryable_type_def non_retryable_errors_def
      split: option.split)

lemma classify_named:
  "x \<in> set (e_tables (classify raw db_type known) @ e_columns (classify raw db_type known)) \<Longrightarrow> sublist x raw"
  by (auto simp: classify_def matched_error_def unclassified_def split: option.splits
      dest!: named_in match_patterns_entity fallback_match_entity)

lemma every_list_mapped: "\<exists>d. (d, l) \<in> set dialect_map"
  by (cases l) (auto simp: dialect_map_def)

lemma classify_unknown:
  assumes "map_of dialect_map (py_lower db_type) = Some own"
  shows "e_type (classify raw db_type None) = UnknownError \<longleftrightarrow>
    (\<forall>l. \<forall>(a, t, g) \<in> set (patterns_of l). search a raw = None)"
proof -
  have all: "(\<forall>l. match_patterns (patterns_of l) raw = None) \<longleftrightarrow>
      match_patterns (patterns_of own) raw = None \<and> fallback_match own dialect_map raw = None"
  proof (intro iffI conjI allI)
    fix l
    assume none: "match_patterns (patterns_of own) raw = None \<and> fallback_match own dialect_map raw = None"
    obtain d where "(d, l) \<in> set dialect_map" using every_list_mapped by blast
    with none show "match_patterns (patterns_of l) raw = None"
      unfolding fallback_match_None by (cases "l = own") auto
  qed (auto simp: fallback_match_None)
  have "e_type (classify raw db_type None) = UnknownError \<longleftrightarrow>
      match_patterns (patterns_of own) raw = None \<and> fallback_match own dialect_map raw = None"
    using classify_cases [OF assms, of raw] by (auto simp: matched_error_def unclassified_def)
  then show ?thesis using all by (simp add: match_patterns_None)
qed

section \<open>Another attempt?\<close>

definition should_retry :: "query_error \<Rightarrow> nat \<Rightarrow> nat \<Rightarrow> bool" where
  "should_retry e attempt max_attempts =
    (if e_type e \<in> set non_retryable_errors then False
     else if attempt \<ge> max_attempts then False
     else if \<not> e_retryable e then False
     else True)"

lemma should_retry_iff:
  "should_retry e n m \<longleftrightarrow> e_type e \<noteq> PermissionDenied \<and> n < m \<and> e_retryable e"
  by (auto simp: should_retry_def non_retryable_errors_def)

section \<open>Properties\<close>

text \<open>
  Classification reads a driver's message and adds nothing to it: the raw message is kept,
  an error is retryable exactly when it is not about permissions, what it names as a table or
  column occurs in the message, and for a known dialect the error is unknown only when no
  pattern of any dialect matches.
\<close>

theorem classification_reads:
  assumes "map_of dialect_map (py_lower db_type) = Some own"
  shows "e_raw (classify raw db_type None) = raw \<and>
    (e_retryable (classify raw db_type None) \<longleftrightarrow> e_type (classify raw db_type None) \<noteq> PermissionDenied) \<and>
    (\<forall>x \<in> set (e_tables (classify raw db_type None) @ e_columns (classify raw db_type None)). sublist x raw) \<and>
    (e_type (classify raw db_type None) = UnknownError \<longleftrightarrow>
      (\<forall>l. \<forall>(a, t, g) \<in> set (patterns_of l). search a raw = None))"
  using classify_retryable classify_named classify_unknown [OF assms] by (intro conjI ballI) simp_all

theorem classification_reads_witness:
  "sublist ''users'' ''Unknown table expression identifier users'' \<and>
    e_raw (classify ''no such thing'' ''mysql'' None) = ''no such thing''"
proof -
  have "map_of dialect_map (py_lower ''mysql'') = Some MysqlList" by code_simp
  from classification_reads [OF this, of "''no such thing''"] show ?thesis
    by (simp add: contains_text_sublist [symmetric])
qed

end
