(* ===== verification/SqlParser.thy ===== *)
theory SqlParser
  imports SqlText
begin

text \<open>
  \<^verbatim>\<open>backend/app/core/sql_parser.py\<close>: the regular expressions that read table names, aliases and
  qualified columns out of a query whose comments and literals have been blanked. The module's
  \<^verbatim>\<open>_ALIAS_PATTERN\<close> is compiled and never used.
\<close>

section \<open>Text\<close>

text \<open>\<^verbatim>\<open>s.strip(c)\<close> for one character, \<^verbatim>\<open>s.split(".")[-1]\<close>, and \<^verbatim>\<open>s.upper()\<close>.\<close>

definition strip_char :: "char \<Rightarrow> string \<Rightarrow> string" where
  "strip_char c s = rstrip_by (\<lambda>x. x = c) (lstrip_by (\<lambda>x. x = c) s)"

definition last_part :: "string \<Rightarrow> string" where
  "last_part s = rev (takeWhile (\<lambda>c. c \<noteq> CHR ''.'') (rev s))"

text \<open>
  The two letters whose upper case is above 255 stay as they are: no upper-cased text here is
  compared with anything but ASCII words.
\<close>

definition upper_text :: "char \<Rightarrow> string" where
  "upper_text c = (let n = code_pt c in
     if 97 \<le> n \<and> n \<le> 122 \<or> 224 \<le> n \<and> n \<le> 254 \<and> n \<noteq> 247 then [char_of (n - 32)]
     else if n = 223 then ''SS'' else [c])"

definition py_upper :: "string \<Rightarrow> string" where
  "py_upper s = concat (map upper_text s)"

definition unquote :: "string \<Rightarrow> string" where
  "unquote name = strip_char (CHR 0x27) (strip_char (CHR 0x22) (strip_char (CHR 0x60) name))"

definition clean :: "string \<Rightarrow> string \<Rightarrow> string" where
  "clean sql db_type = strip_sql_comments_and_literals sql db_type"

text \<open>The groups of the matches \<^verbatim>\<open>finditer\<close> yields.\<close>

definition found_groups :: "rx \<Rightarrow> string \<Rightarrow> (nat \<times> string) list list" where
  "found_groups a s = concat (map (\<lambda>x. case x of Inl c \<Rightarrow> [] | Inr (w, g) \<Rightarrow> [g]) (scan a s))"

definition grp :: "nat \<Rightarrow> (nat \<times> string) list \<Rightarrow> string" where
  "grp i g = (case map_of g i of None \<Rightarrow> [] | Some w \<Rightarrow> w)"

section \<open>Patterns\<close>

definition back_quote :: rx where
  "back_quote = chr (CHR 0x60)"

definition quoted_word :: rx where
  "quoted_word = seqs [opt back_quote, word1, opt back_quote]"

definition words_ci :: "string list \<Rightarrow> rx" where
  "words_ci ws = (case map lit_ci ws of [] \<Rightarrow> Eps | a # as \<Rightarrow> seqs (a # concat (map (\<lambda>b. [spaces1, b]) as)))"

definition from_join :: rx where
  "from_join = seqs [WordB,
     alts (map words_ci [[''FROM''], [''JOIN''], [''INNER'', ''JOIN''], [''LEFT'', ''JOIN''], [''RIGHT'', ''JOIN''],
       [''CROSS'', ''JOIN''], [''LEFT'', ''OUTER'', ''JOIN''], [''RIGHT'', ''OUTER'', ''JOIN''],
       [''FULL'', ''JOIN''], [''FULL'', ''OUTER'', ''JOIN'']]),
     spaces1, Grp 1 (Seq quoted_word (opt (Seq (chr (CHR ''.'')) word1)))]"

definition into_table :: rx where
  "into_table = seqs [WordB, lit_ci ''INTO'', spaces1, Grp 1 quoted_word]"

definition qualified_col :: rx where
  "qualified_col = seqs [WordB, Grp 1 quoted_word, chr (CHR ''.''), Grp 2 quoted_word, WordB]"

definition subquery :: rx where
  "subquery = seqs [chr (CHR ''(''), spaces, lit_ci ''SELECT'', WordB]"

definition cte :: rx where
  "cte = seqs [WordB, lit_ci ''WITH'', spaces1, Grp 1 word1, spaces1, lit_ci ''AS'', spaces, chr (CHR ''('')]"

definition aggregations :: rx where
  "aggregations = seqs [WordB,
     Grp 1 (alts (map lit_ci [''COUNT'', ''SUM'', ''AVG'', ''MIN'', ''MAX'', ''GROUP_CONCAT'', ''STRING_AGG'', ''ARRAY_AGG''])),
     spaces, chr (CHR ''('')]"

definition not_an_alias :: rx where
  "not_an_alias = NotAhead (alts (map (\<lambda>w. Seq (lit_ci w) WordB)
     [''ON'', ''WHERE'', ''GROUP'', ''ORDER'', ''LEFT'', ''RIGHT'', ''INNER'', ''OUTER'', ''CROSS'', ''FULL'', ''JOIN'',
      ''USING'', ''LIMIT'', ''HAVING'', ''UNION'']))"

definition alias_after_table :: rx where
  "alias_after_table = seqs [WordB, alts (map lit_ci [''FROM'', ''JOIN'']), spaces1,
     Grp 1 (plus (Cls (\<lambda>c. is_word c \<or> c \<in> {CHR ''.'', CHR 0x22, CHR 0x60, CHR ''['', CHR '']''}))),
     spaces, opt (Seq (lit_ci ''AS'') spaces1),
     opt (Grp 2 (seqs [not_an_alias, Cls (\<lambda>c. is_letter c \<or> c = CHR ''_''), Star (Cls is_word)]))]"

section \<open>Extraction\<close>

text \<open>Keep the first of the names that agree up to case.\<close>

fun dedup_names :: "string list \<Rightarrow> string list \<Rightarrow> string list" where
  "dedup_names seen [] = []"
| "dedup_names seen (t # ts) =
     (if py_lower t \<in> set seen then dedup_names seen ts
      else t # dedup_names (py_lower t # seen) ts)"

definition cte_names :: "string \<Rightarrow> string list" where
  "cte_names cleaned = map (\<lambda>g. py_lower (grp 1 g)) (found_groups cte cleaned)"

definition extract_tables :: "string \<Rightarrow> string list" where
  "extract_tables query =
    (let cleaned = clean query [];
         tables = map (\<lambda>g. unquote (last_part (grp 1 g))) (found_groups from_join cleaned)
           @ map (\<lambda>g. unquote (grp 1 g)) (found_groups into_table cleaned)
     in dedup_names [] (filter (\<lambda>t. py_lower t \<notin> set (cte_names cleaned)) tables))"

text \<open>A dictionary from every name a table may be addressed by to the table.\<close>

definition extract_table_aliases :: "string \<Rightarrow> string \<Rightarrow> (string, string) odict" where
  "extract_table_aliases query db_type =
     foldl (\<lambda>out g.
       let table = unquote (last_part (grp 1 g))
       in if table = [] then out
          else let out = od_set (py_lower table) (py_lower table) out
               in case map_of g 2 of
                    Some (c # a) \<Rightarrow> od_set (py_lower (c # a)) (py_lower table) out
                  | _ \<Rightarrow> out)
       [] (found_groups alias_after_table (clean query db_type))"

definition not_qualifiers :: "string list" where
  "not_qualifiers = [''FROM'', ''JOIN'', ''WHERE'', ''SELECT'', ''ON'', ''AND'', ''OR'', ''SET'', ''INTO'', ''ORDER'',
     ''GROUP'', ''HAVING'', ''LIMIT'', ''AS'', ''INNER'', ''LEFT'', ''RIGHT'', ''CROSS'', ''FULL'', ''OUTER'', ''NOT'', ''IN'',
     ''IS'', ''NULL'', ''BETWEEN'', ''LIKE'', ''EXISTS'', ''CASE'', ''WHEN'', ''THEN'', ''ELSE'', ''END'']"

text \<open>The qualifier's type is optional in the code; every pair it yields has one.\<close>

definition extract_column_table_pairs :: "string \<Rightarrow> (string \<times> string option) list" where
  "extract_column_table_pairs query =
     concat (map (\<lambda>g.
       let table_or_alias = unquote (grp 1 g); col = unquote (grp 2 g)
       in if py_upper table_or_alias \<in> set not_qualifiers then [] else [(col, Some table_or_alias)])
       (found_groups qualified_col (clean query [])))"

fun dedup_columns :: "string list \<Rightarrow> string list \<Rightarrow> string list" where
  "dedup_columns seen [] = []"
| "dedup_columns seen (c # cs) =
     (if py_lower c \<notin> set seen \<and> py_lower c \<noteq> ''*'' then c # dedup_columns (py_lower c # seen) cs
      else dedup_columns seen cs)"

definition extract_columns :: "string \<Rightarrow> string list" where
  "extract_columns query = dedup_columns [] (map fst (extract_column_table_pairs query))"

definition detect_subqueries :: "string \<Rightarrow> bool" where
  "detect_subqueries query \<longleftrightarrow> search subquery (clean query []) \<noteq> None"

definition detect_aggregations :: "string \<Rightarrow> string list" where
  "detect_aggregations query = map (\<lambda>g. py_upper (grp 1 g)) (found_groups aggregations (clean query []))"

section \<open>Facts\<close>

lemma dedup_names_distinct:
  "distinct (map py_lower (dedup_names seen ts)) \<and> py_lower ` set (dedup_names seen ts) \<inter> set seen = {}"
  by (induction seen ts rule: dedup_names.induct) auto

lemma dedup_names_covers: "py_lower ` set (dedup_names seen ts) \<union> set seen = py_lower ` set ts \<union> set seen"
  by (induction seen ts rule: dedup_names.induct) auto

lemma set_dedup_names: "set (dedup_names seen ts) \<subseteq> set ts"
  by (induction seen ts rule: dedup_names.induct) auto

lemma extract_tables_distinct: "distinct (map py_lower (extract_tables query))"
  by (simp add: extract_tables_def Let_def dedup_names_distinct)

lemma extract_tables_no_cte: "t \<in> set (extract_tables query) \<Longrightarrow> py_lower t \<notin> set (cte_names (clean query []))"
  using set_dedup_names by (fastforce simp: extract_tables_def Let_def)

lemma qualified_pairs: "(c, q) \<in> set (extract_column_table_pairs query) \<Longrightarrow> \<exists>t. q = Some t"
  by (auto simp: extract_column_table_pairs_def Let_def split: if_splits)

end
