(* ===== verification/SchemaHints.thy ===== *)
theory SchemaHints
  imports PyValue "HOL-Library.List_Lexorder" "HOL-Library.Char_ord" "HOL-Library.Product_Lexorder"
begin

text \<open>
  The introspected schema of \<^verbatim>\<open>backend/app/connectors/base.py\<close> (the fields the query loop
  reads) and \<^verbatim>\<open>backend/app/core/schema_hints.py\<close>: similar names by the standard library's
  \<^verbatim>\<open>difflib\<close> (longest common blocks, found recursively) and the texts that describe tables.
\<close>

section \<open>Schemas\<close>

record column_info =
  col_name :: string
  data_type :: string
  is_nullable :: "bool option"
  is_primary_key :: bool
  col_comment :: "string option"

record foreign_key =
  fk_column :: string
  references_table :: string
  references_column :: string

record index_info =
  index_name :: string
  index_columns :: "string list"
  is_unique :: bool

record table_info =
  table_name :: string
  table_columns :: "column_info list"
  foreign_keys :: "foreign_key list"
  indexes :: "index_info list"
  table_rows :: "int option"
  table_comment :: "string option"

record schema_info =
  tables :: "table_info list"
  schema_db_type :: string

section \<open>Similar texts\<close>

text \<open>
  \<^verbatim>\<open>SequenceMatcher(None, a, b)\<close>: of texts of 200 characters or more, the characters of \<open>b\<close>
  that make up more than one per cent of it are popular, and no block starts from them.
\<close>

definition popular :: "string \<Rightarrow> char \<Rightarrow> bool" where
  "popular b c \<longleftrightarrow> 200 \<le> length b \<and> count_list b c > length b div 100 + 1"

text \<open>
  One row of the table of common runs: entry \<open>j\<close> is the length of the longest run that ends at
  this character of \<open>a\<close> and at \<open>b ! j\<close>; \<open>prev\<close> is the row before, shifted by one.
\<close>

fun run_row :: "(char \<Rightarrow> bool) \<Rightarrow> char \<Rightarrow> nat list \<Rightarrow> string \<Rightarrow> nat list" where
  "run_row skip x (p # prev) (y # ys) =
     (if x = y \<and> \<not> skip y then Suc p else 0) # run_row skip x prev ys"
| "run_row skip x _ _ = []"

text \<open>The best block so far: where it ends in \<open>a\<close> and in \<open>b\<close>, and its length; a later one must be longer.\<close>

type_synonym block = "nat \<times> nat \<times> nat"

fun best_of_row :: "nat \<Rightarrow> nat \<Rightarrow> nat list \<Rightarrow> block \<Rightarrow> block" where
  "best_of_row i j [] best = best"
| "best_of_row i j (k # row) (ei, ej, n) =
     best_of_row i (Suc j) row (if k > n then (Suc i, Suc j, k) else (ei, ej, n))"

fun best_block :: "(char \<Rightarrow> bool) \<Rightarrow> nat \<Rightarrow> string \<Rightarrow> nat list \<Rightarrow> string \<Rightarrow> block \<Rightarrow> block" where
  "best_block skip i [] row b best = best"
| "best_block skip i (x # a) row b best =
     (let row' = run_row skip x (0 # row) b
      in best_block skip (Suc i) a row' b (best_of_row i 0 row' best))"

text \<open>\<^verbatim>\<open>find_longest_match\<close>: the block, extended on both sides over equal (popular) characters.\<close>

fun common_prefix :: "string \<Rightarrow> string \<Rightarrow> nat" where
  "common_prefix (x # xs) (y # ys) = (if x = y then Suc (common_prefix xs ys) else 0)"
| "common_prefix _ _ = 0"

definition longest_match :: "(char \<Rightarrow> bool) \<Rightarrow> string \<Rightarrow> string \<Rightarrow> nat \<times> nat \<times> nat" where
  "longest_match skip a b =
    (let (ei, ej, k) = best_block skip 0 a (replicate (length b) 0) b (0, 0, 0);
         i = ei - k; j = ej - k;
         l = common_prefix (rev (take i a)) (rev (take j b));
         r = common_prefix (drop ei a) (drop ej b)
     in (i - l, j - l, k + l + r))"

lemma common_prefix_le: "common_prefix xs ys \<le> length xs" "common_prefix xs ys \<le> length ys"
  by (induction xs ys rule: common_prefix.induct) auto

lemma best_of_row_ends:
  "best_of_row i j row (ei, ej, n) = (ei', ej', n') \<Longrightarrow> (\<And>k. k \<in> set row \<Longrightarrow> k \<le> Suc i) \<Longrightarrow>
    (\<And>m. m < length row \<Longrightarrow> row ! m \<le> Suc (j + m)) \<Longrightarrow> n \<le> ei \<Longrightarrow> n \<le> ej \<Longrightarrow> ei \<le> Suc i \<Longrightarrow> ej \<le> j + length row \<Longrightarrow>
    n' \<le> ei' \<and> n' \<le> ej' \<and> ei' \<le> Suc i \<and> ej' \<le> j + length row"
proof (induction i j row "(ei, ej, n)" arbitrary: ei ej n rule: best_of_row.induct)
  case (2 i j k row ei ej n)
  have k: "k \<le> Suc i" "k \<le> Suc j" using "2.prems"(2) [of k] "2.prems"(3) [of 0] by simp_all
  have row: "row ! m \<le> Suc (Suc j + m)" if "m < length row" for m
    using "2.prems"(3) [of "Suc m"] that by simp
  obtain e f c where next_best: "(if k > n then (Suc i, Suc j, k) else (ei, ej, n)) = (e, f, c)" by (metis prod_cases3)
  then have e: "c \<le> e" "c \<le> f" "e \<le> Suc i" "f \<le> Suc j + length row"
    using k "2.prems"(4-7) by (auto split: if_splits)
  have run: "best_of_row i (Suc j) row (e, f, c) = (ei', ej', n')"
    using "2.prems"(1) by (simp add: next_best)
  show ?case
    using "2.hyps" [OF next_best run] "2.prems"(2) row e by simp
qed auto

lemma run_row_length: "length (run_row skip x prev b) = min (length prev) (length b)"
  by (induction skip x prev b rule: run_row.induct) auto

lemma run_row_nth:
  "m < length b \<Longrightarrow> m < length prev \<Longrightarrow> run_row skip x prev b ! m \<le> Suc (prev ! m)"
  by (induction skip x prev b arbitrary: m rule: run_row.induct) (auto simp: nth_Cons split: nat.split)

lemma best_block_ends:
  "best_block skip i a row b (ei, ej, n) = (ei', ej', n') \<Longrightarrow> length row = length b \<Longrightarrow>
    (\<And>m. m < length b \<Longrightarrow> row ! m \<le> i \<and> row ! m \<le> Suc m) \<Longrightarrow>
    n \<le> ei \<Longrightarrow> n \<le> ej \<Longrightarrow> ei \<le> i \<Longrightarrow> ej \<le> length b \<Longrightarrow>
    n' \<le> ei' \<and> n' \<le> ej' \<and> ei' \<le> i + length a \<and> ej' \<le> length b"
proof (induction skip i a row b "(ei, ej, n)" arbitrary: ei ej n rule: best_block.induct)
  case (2 skip i x a row b ei ej n)
  define row' where "row' = run_row skip x (0 # row) b"
  obtain e f c where new_best: "best_of_row i 0 row' (ei, ej, n) = (e, f, c)" by (metis prod_cases3)
  have len: "length row' = length b" using "2.prems"(2) by (simp add: row'_def run_row_length)
  have nth: "row' ! m \<le> Suc i \<and> row' ! m \<le> Suc m" if m: "m < length b" for m
  proof -
    have "row' ! m \<le> Suc ((0 # row) ! m)"
      unfolding row'_def using m "2.prems"(2) by (intro run_row_nth) simp_all
    moreover have "(0 # row) ! m \<le> i \<and> (0 # row) ! m \<le> m"
      using "2.prems"(3) [of "m - 1"] m by (cases m) simp_all
    ultimately show ?thesis by linarith
  qed
  have bounds: "c \<le> e \<and> c \<le> f \<and> e \<le> Suc i \<and> f \<le> 0 + length row'"
  proof (rule best_of_row_ends [OF new_best])
    show "k \<le> Suc i" if "k \<in> set row'" for k
      using that nth len by (metis in_set_conv_nth)
    show "row' ! m \<le> Suc (0 + m)" if "m < length row'" for m
      using that nth len by simp
  qed (use "2.prems" len in simp_all)
  have run: "best_block skip (Suc i) a row' b (e, f, c) = (ei', ej', n')"
    using "2.prems"(1) by (simp add: row'_def [symmetric] new_best)
  show ?case
    using "2.hyps" [OF row'_def new_best run len] nth bounds len by simp
qed auto

lemma longest_match_inside:
  assumes "longest_match skip a b = (i, j, k)"
  shows "i + k \<le> length a \<and> j + k \<le> length b"
proof -
  obtain ei ej n where best: "best_block skip 0 a (replicate (length b) 0) b (0, 0, 0) = (ei, ej, n)"
    by (metis prod_cases3)
  then have ends: "n \<le> ei" "n \<le> ej" "ei \<le> length a" "ej \<le> length b"
    using best_block_ends [OF best] by auto
  define l r where "l = common_prefix (rev (take (ei - n) a)) (rev (take (ej - n) b))"
    and "r = common_prefix (drop ei a) (drop ej b)"
  have "l \<le> ei - n" "l \<le> ej - n"
    using common_prefix_le [of "rev (take (ei - n) a)" "rev (take (ej - n) b)"] ends by (simp_all add: l_def)
  moreover have "r \<le> length a - ei" "r \<le> length b - ej"
    using common_prefix_le [of "drop ei a" "drop ej b"] by (simp_all add: r_def)
  moreover have "i = ei - n - l" "j = ej - n - l" "k = n + l + r"
    using assms by (simp_all add: longest_match_def best Let_def l_def r_def)
  ultimately show ?thesis using ends by linarith
qed

text \<open>\<^verbatim>\<open>get_matching_blocks\<close>: how many characters the blocks cover.\<close>

function matched_chars :: "(char \<Rightarrow> bool) \<Rightarrow> string \<Rightarrow> string \<Rightarrow> nat" where
  "matched_chars skip a b =
    (case longest_match skip a b of (i, j, k) \<Rightarrow>
       if k = 0 then 0
       else k + (if 0 < i \<and> 0 < j then matched_chars skip (take i a) (take j b) else 0)
         + (if i + k < length a \<and> j + k < length b
            then matched_chars skip (drop (i + k) a) (drop (j + k) b) else 0))"
  by pat_completeness auto
termination
proof (relation "measure (\<lambda>(skip, a, b). length a)", goal_cases)
  case (2 skip a b i x j k)
  then have "i + k \<le> length a" using longest_match_inside [of skip a b i j k] by simp
  with 2 show ?case by simp
next
  case (3 skip a b i x j k)
  then have "0 < i + k" "i + k < length a" by simp_all
  then have "length a - (i + k) < length a" by linarith
  then show ?case by simp
qed simp

declare matched_chars.simps [simp del]

text \<open>\<^verbatim>\<open>SequenceMatcher(None, a, b).ratio()\<close> and \<^verbatim>\<open>round(score, 3)\<close>, as doubles.\<close>

definition ratio :: "string \<Rightarrow> string \<Rightarrow> rat" where
  "ratio a b = (let n = length a + length b in
     if n = 0 then 1 else fl (of_nat (2 * matched_chars (popular b) a b) / of_nat n))"

definition round3 :: "rat \<Rightarrow> rat" where
  "round3 x = fl (of_int (round_even (x * 1000)) / 1000)"

text \<open>
  \<^verbatim>\<open>get_close_matches(word, possibilities, n, cutoff)\<close>: the best scores first, equal scores by
  name downwards. The cheap upper bounds it checks before the score are left out.
\<close>

definition get_close_matches :: "string \<Rightarrow> string list \<Rightarrow> nat \<Rightarrow> rat \<Rightarrow> string list" where
  "get_close_matches word possibilities n cutoff =
     map snd (take n (rev (sort (concat (map (\<lambda>x.
       if ratio x word \<ge> cutoff then [(ratio x word, x)] else []) possibilities)))))"

text \<open>\<^verbatim>\<open>list.sort(key=score, reverse=True)\<close>: downwards, and stable.\<close>

definition by_score :: "('a \<Rightarrow> rat) \<Rightarrow> 'a list \<Rightarrow> 'a list" where
  "by_score score xs = sort_key (\<lambda>x. - score x) xs"

definition first_named :: "string list \<Rightarrow> string \<Rightarrow> string" where
  "first_named names m = (case find (\<lambda>c. py_lower c = m) names of Some c \<Rightarrow> c | None \<Rightarrow> [])"

definition similar_threshold :: rat where
  "similar_threshold = fl (6 / 10)"

definition find_similar_columns :: "string \<Rightarrow> schema_info \<Rightarrow> (string \<times> string \<times> rat) list" where
  "find_similar_columns target schema =
     take 5 (by_score (snd \<circ> snd) (concat (map (\<lambda>t.
       let names = map col_name (table_columns t)
       in map (\<lambda>m. (table_name t, first_named names m, round3 (ratio (py_lower target) m)))
            (get_close_matches (py_lower target) (map py_lower names) 3 similar_threshold))
       (tables schema))))"

definition find_similar_tables :: "string \<Rightarrow> schema_info \<Rightarrow> (string \<times> rat) list" where
  "find_similar_tables target schema =
    (let names = map table_name (tables schema)
     in by_score snd (map (\<lambda>m. (first_named names m, round3 (ratio (py_lower target) m)))
          (get_close_matches (py_lower target) (map py_lower names) 5 similar_threshold)))"

section \<open>Texts about tables\<close>

definition nullability_label :: "bool option \<Rightarrow> string" where
  "nullability_label b = (case b of Some True \<Rightarrow> ''YES'' | Some False \<Rightarrow> ''NO'' | None \<Rightarrow> ''UNKNOWN'')"

text \<open>\<^verbatim>\<open>f"{n:,}"\<close>.\<close>

fun commas :: "string \<Rightarrow> string" where
  "commas (a # b # c # d # s) = a # b # c # CHR '','' # commas (d # s)"
| "commas s = s"

definition group_thousands :: "int \<Rightarrow> string" where
  "group_thousands i = (if i < 0 then ''-'' else []) @ rev (commas (rev (nat_digits (nat \<bar>i\<bar>))))"

definition lines_of :: "string list \<Rightarrow> string" where
  "lines_of ls = join_with [CHR 0x0A] ls"

definition column_line :: "column_info \<Rightarrow> string" where
  "column_line c = ''| '' @ col_name c @ '' | '' @ data_type c @ '' | ''
     @ (if is_primary_key c then ''PK'' else []) @ '' | '' @ nullability_label (is_nullable c) @ '' | ''
     @ (case col_comment c of None \<Rightarrow> [] | Some s \<Rightarrow> s) @ '' |''"

definition get_table_detail :: "string \<Rightarrow> schema_info \<Rightarrow> string" where
  "get_table_detail name schema =
    (case find (\<lambda>t. py_lower (table_name t) = py_lower name) (tables schema) of
       None \<Rightarrow> ''Table '' @ [CHR 0x27] @ name @ [CHR 0x27] @ '' not found in schema.''
     | Some t \<Rightarrow> lines_of (
         [''## '' @ table_name t]
         @ (case table_comment t of Some (c # s) \<Rightarrow> [''  '' @ c # s] | _ \<Rightarrow> [])
         @ (case table_rows t of Some n \<Rightarrow> [''  Rows: ~'' @ group_thousands n] | None \<Rightarrow> [])
         @ [''| Column | Type | PK | Nullable | Comment |'', ''|--------|------|----|----------|---------|'']
         @ map column_line (table_columns t)
         @ (if foreign_keys t = [] then []
            else [''  FK: '' @ join_with ''; '' (map (\<lambda>k. fk_column k @ '' -> '' @ references_table k
              @ ''.'' @ references_column k) (foreign_keys t))])
         @ (if indexes t = [] then []
            else [''  Indexes: '' @ join_with ''; '' (map (\<lambda>x. (if is_unique x then ''UNIQUE '' else [])
              @ index_name x @ ''('' @ join_with '', '' (index_columns x) @ '')'') (indexes t))])))"

definition get_related_tables :: "string \<Rightarrow> schema_info \<Rightarrow> string list" where
  "get_related_tables name schema =
     sort (remdups (concat (map (\<lambda>t.
       if py_lower (table_name t) = py_lower name then map references_table (foreign_keys t)
       else if \<exists>k \<in> set (foreign_keys t). py_lower (references_table k) = py_lower name
         then [table_name t] else [])
       (tables schema))))"

definition list_all_tables_summary :: "schema_info \<Rightarrow> string" where
  "list_all_tables_summary schema = lines_of (''Available tables:'' # map (\<lambda>t.
     ''  - '' @ table_name t @ '' ('' @ nat_digits (length (table_columns t)) @ '' columns''
     @ (case table_rows t of Some n \<Rightarrow> '', ~'' @ group_thousands n @ '' rows'' | None \<Rightarrow> []) @ '')'')
     (tables schema))"

section \<open>Suggestions name what is there\<close>

lemma get_close_matches_in: "m \<in> set (get_close_matches w ps n c) \<Longrightarrow> m \<in> set ps \<and> c \<le> ratio m w"
  by (auto simp: get_close_matches_def dest!: in_set_takeD split: if_splits)

lemma find_named: "m \<in> py_lower ` set names \<Longrightarrow> first_named names m \<in> set names"
  by (auto simp: first_named_def find_None_iff find_Some_iff split: option.split)

lemma similar_tables_exist:
  assumes "(t, s) \<in> set (find_similar_tables target schema)"
  shows "t \<in> table_name ` set (tables schema)"
  using assms find_named [of _ "map table_name (tables schema)"]
  by (force simp: find_similar_tables_def by_score_def Let_def dest!: get_close_matches_in)

lemma similar_columns_exist:
  assumes "(t, c, s) \<in> set (find_similar_columns target schema)"
  shows "\<exists>x \<in> set (tables schema). table_name x = t \<and> c \<in> col_name ` set (table_columns x)"
proof -
  from assms obtain x m where x: "x \<in> set (tables schema)" and t: "t = table_name x"
    and m: "m \<in> set (get_close_matches (py_lower target) (map py_lower (map col_name (table_columns x))) 3 similar_threshold)"
    and c: "c = first_named (map col_name (table_columns x)) m"
    by (auto simp: find_similar_columns_def by_score_def Let_def dest!: in_set_takeD)
  have "m \<in> py_lower ` set (map col_name (table_columns x))"
    using get_close_matches_in [OF m] by auto
  then have "c \<in> set (map col_name (table_columns x))" unfolding c by (rule find_named)
  with x t show ?thesis by auto
qed

end
