(* ===== verification/QueryValidators.thy ===== *)
theory QueryValidators
  imports QueryErrors SqlParser SchemaHints
begin

text \<open>
  The checks around one execution of a query: \<^verbatim>\<open>backend/app/core/pre_validator.py\<close> (names
  against the schema), \<^verbatim>\<open>explain_validator.py\<close> (a dry run) and \<^verbatim>\<open>post_validator.py\<close> (the result).
  The database's answers are arguments. Rendering a value that is no text (\<^verbatim>\<open>str\<close> and the
  thousands format of a float) and parsing JSON are parameters.
\<close>

section \<open>Configuration\<close>

record validation_config =
  max_retries :: nat
  enable_explain :: bool
  enable_schema_validation :: bool
  empty_result_retry :: bool
  explain_row_warning_threshold :: int
  query_timeout_seconds :: int

definition default_config :: "unit \<Rightarrow> validation_config" where
  "default_config u = \<lparr>max_retries = 3, enable_explain = True, enable_schema_validation = True,
     empty_result_retry = False, explain_row_warning_threshold = 100000, query_timeout_seconds = 30\<rparr>"

text \<open>\<^verbatim>\<open>db_type.lower() in {"mongodb", "mongo"}\<close>.\<close>

definition mongo_type :: "string \<Rightarrow> bool" where
  "mongo_type db_type \<longleftrightarrow> py_lower db_type \<in> {''mongodb'', ''mongo''}"

definition quote_name :: "string \<Rightarrow> string" where
  "quote_name s = [CHR 0x27] @ s @ [CHR 0x27]"

fun first_error :: "('a \<Rightarrow> 'b option) \<Rightarrow> 'a list \<Rightarrow> 'b option" where
  "first_error f [] = None"
| "first_error f (x # xs) = (case f x of Some y \<Rightarrow> Some y | None \<Rightarrow> first_error f xs)"

lemma first_error_None: "first_error f xs = None \<longleftrightarrow> (\<forall>x \<in> set xs. f x = None)"
  by (induction xs) (auto split: option.split)

lemma first_error_Some: "first_error f xs = Some y \<Longrightarrow> \<exists>x \<in> set xs. f x = Some y"
  by (induction xs) (auto split: option.splits)

section \<open>Before: names against the schema\<close>

definition known_tables :: "schema_info \<Rightarrow> string list" where
  "known_tables schema = map (\<lambda>t. py_lower (table_name t)) (tables schema)"

text \<open>A dictionary comprehension: of two tables with the same name the last one counts.\<close>

definition column_map :: "schema_info \<Rightarrow> (string, string list) odict" where
  "column_map schema = foldl (\<lambda>m t. od_set (py_lower (table_name t))
     (map (\<lambda>c. py_lower (col_name c)) (table_columns t)) m) [] (tables schema)"

definition build_table_list_hint :: "schema_info \<Rightarrow> string" where
  "build_table_list_hint schema = ''Available tables: '' @ join_with '', '' (sort (remdups (known_tables schema)))"

definition build_column_hint :: "schema_info \<Rightarrow> string \<Rightarrow> string" where
  "build_column_hint schema t = ''Columns in '' @ quote_name t @ '': '' @ join_with '', ''
     (sort (remdups (case map_of (column_map schema) t of None \<Rightarrow> [] | Some cs \<Rightarrow> cs)))"

text \<open>A name (any text) under \<^verbatim>\<open>re.escape\<close> and \<^verbatim>\<open>re.IGNORECASE\<close>.\<close>

fun lit_name :: "string \<Rightarrow> rx" where
  "lit_name [] = Eps"
| "lit_name (c # w) = Seq (Cls (\<lambda>x. lower_char x = lower_char c)) (lit_name w)"

definition alias_of :: "string \<Rightarrow> rx" where
  "alias_of table = seqs [WordB, lit_name table, spaces1, opt (Seq (lit_ci ''AS'') spaces1), Grp 1 word1, WordB]"

definition not_aliases :: "string list" where
  "not_aliases = [''ON'', ''WHERE'', ''SET'', ''JOIN'', ''INNER'', ''LEFT'', ''RIGHT'', ''CROSS'', ''GROUP'', ''ORDER'',
     ''LIMIT'', ''HAVING'', ''UNION'', ''SELECT'', ''FROM'']"

definition resolve_aliases :: "string \<Rightarrow> string list \<Rightarrow> (string, string) odict" where
  "resolve_aliases query ts =
     foldl (\<lambda>m table.
       od_set (py_lower table) (py_lower table)
         (foldl (\<lambda>m g. let alias = py_lower (grp 1 g)
            in if py_upper alias \<notin> set not_aliases then od_set alias (py_lower table) m else m)
           m (found_groups (alias_of table) query)))
       [] ts"

definition unknown_table :: "schema_info \<Rightarrow> string \<Rightarrow> query_error" where
  "unknown_table schema t =
     \<lparr>e_type = TableNotFound, e_message = ''Table '' @ quote_name t @ '' does not exist in schema'',
      e_raw = ''pre_validation: table '' @ quote_name t @ '' not found'', e_retryable = True,
      e_tables = map fst (find_similar_tables t schema), e_columns = [], e_hint = build_table_list_hint schema\<rparr>"

definition unknown_column :: "schema_info \<Rightarrow> string \<Rightarrow> string \<Rightarrow> query_error" where
  "unknown_column schema col t =
    (let similar = find_similar_columns col schema;
         table_cols = map (fst \<circ> snd) (filter (\<lambda>s. py_lower (fst s) = t) similar)
     in \<lparr>e_type = ColumnNotFound, e_message = ''Column '' @ quote_name col @ '' does not exist in table '' @ quote_name t,
         e_raw = ''pre_validation: column '' @ quote_name col @ '' not in '' @ quote_name t, e_retryable = True,
         e_tables = [], e_columns = (if table_cols = [] then map (fst \<circ> snd) (take 3 similar) else table_cols),
         e_hint = build_column_hint schema t\<rparr>)"

definition column_fault :: "schema_info \<Rightarrow> (string, string) odict \<Rightarrow> string \<times> string option \<Rightarrow> query_error option" where
  "column_fault schema aliases p =
    (case p of (col, qualifier) \<Rightarrow>
      (case qualifier of
         Some (c # q) \<Rightarrow>
           (let key = py_lower (c # q);
                t = (case map_of aliases key of Some t \<Rightarrow> t | None \<Rightarrow> key)
            in case map_of (column_map schema) t of
                 Some cols \<Rightarrow> if py_lower col \<notin> set cols then Some (unknown_column schema col t) else None
               | None \<Rightarrow> None)
       | _ \<Rightarrow> None))"

definition ambiguous_column :: "string \<Rightarrow> string list \<Rightarrow> query_error" where
  "ambiguous_column col found_in =
     \<lparr>e_type = AmbiguousColumn,
      e_message = ''Column '' @ quote_name col @ '' is ambiguous - found in tables: '' @ join_with '', '' found_in,
      e_raw = ''pre_validation: ambiguous column '' @ quote_name col, e_retryable = True, e_tables = [], e_columns = [],
      e_hint = ''Qualify the column as table.'' @ col @ '' to resolve.''\<rparr>"

definition check_ambiguous_columns :: "schema_info \<Rightarrow> (string \<times> string option) list \<Rightarrow> string list \<Rightarrow>
  (string, string) odict \<Rightarrow> query_error option" where
  "check_ambiguous_columns schema pairs ts aliases =
     first_error (\<lambda>col.
       let found_in = concat (map (\<lambda>table.
             let real = (case map_of aliases (py_lower table) of Some t \<Rightarrow> t | None \<Rightarrow> py_lower table);
                 cols = (case map_of (column_map schema) real of Some cs \<Rightarrow> cs | None \<Rightarrow> [])
             in if py_lower col \<in> set cols then [real] else []) ts)
       in if length found_in > 1 then Some (ambiguous_column col found_in) else None)
     (map fst (filter (\<lambda>p. snd p = None) pairs))"

definition pre_validate :: "schema_info \<Rightarrow> string \<Rightarrow> string \<Rightarrow> validation_result" where
  "pre_validate schema query db_type =
    (if mongo_type db_type then valid_result
     else let ts = extract_tables query in
       case find (\<lambda>t. py_lower t \<notin> set (known_tables schema)) ts of
         Some t \<Rightarrow> invalid_result (unknown_table schema t)
       | None \<Rightarrow>
         (let pairs = extract_column_table_pairs query;
              aliases = resolve_aliases query ts
          in case first_error (column_fault schema aliases) pairs of
               Some e \<Rightarrow> invalid_result e
             | None \<Rightarrow>
               if length ts > 1
               then (case check_ambiguous_columns schema pairs ts aliases of
                       Some e \<Rightarrow> invalid_result e
                     | None \<Rightarrow> valid_result)
               else valid_result))"

lemma no_ambiguity_found: "check_ambiguous_columns schema (extract_column_table_pairs query) ts aliases = None"
proof -
  have "filter (\<lambda>p. snd p = None) (extract_column_table_pairs query) = []"
    by (auto simp: filter_empty_conv dest: qualified_pairs)
  then show ?thesis by (simp add: check_ambiguous_columns_def)
qed

lemma column_fault_error:
  "column_fault schema aliases (col, q) = Some e \<Longrightarrow>
    \<exists>t cols. map_of (column_map schema) t = Some cols \<and> py_lower col \<notin> set cols \<and> e = unknown_column schema col t"
  by (auto simp: column_fault_def Let_def split: option.splits list.splits if_splits)

text \<open>What the check before execution refuses, and as what.\<close>

lemma pre_validate_refuses:
  assumes "refusal (pre_validate schema query db_type) = Some e"
  shows "\<not> mongo_type db_type \<and>
    ((\<exists>t \<in> set (extract_tables query). py_lower t \<notin> set (known_tables schema) \<and> e = unknown_table schema t) \<or>
     (\<exists>t cols col. map_of (column_map schema) t = Some cols \<and> py_lower col \<notin> set cols \<and> e = unknown_column schema col t))"
proof -
  have mongo: "\<not> mongo_type db_type" using assms by (auto simp: pre_validate_def)
  show ?thesis
  proof (cases "find (\<lambda>t. py_lower t \<notin> set (known_tables schema)) (extract_tables query)")
    case (Some t)
    with assms mongo show ?thesis by (auto simp: pre_validate_def find_Some_iff)
  next
    case None
    with assms mongo have "first_error (column_fault schema (resolve_aliases query (extract_tables query)))
        (extract_column_table_pairs query) = Some e"
      by (auto simp: pre_validate_def Let_def no_ambiguity_found split: option.splits if_splits)
    then obtain p where "column_fault schema (resolve_aliases query (extract_tables query)) p = Some e"
      by (blast dest: first_error_Some)
    then show ?thesis using mongo column_fault_error by (cases p) blast
  qed
qed

section \<open>A dry run\<close>

datatype db_reply = Raised string | Replied "pyval query_result"

record py_display =
  show_value :: "pyval \<Rightarrow> string"
  show_grouped :: "pyval \<Rightarrow> string"
  json_loads :: "string \<Rightarrow> pyval option"

definition build_explain_query :: "string \<Rightarrow> string \<Rightarrow> string option" where
  "build_explain_query query db_type =
    (let dt = py_lower db_type; stripped = rstrip_by (\<lambda>c. c = CHR '';'') (py_strip query)
     in if dt \<in> {''postgresql'', ''postgres''} then Some (''EXPLAIN (FORMAT JSON) '' @ stripped)
        else if dt = ''mysql'' then Some (''EXPLAIN '' @ stripped)
        else if dt = ''clickhouse'' then Some (''EXPLAIN indexes = 1 '' @ stripped)
        else None)"

text \<open>
  The walk over a PostgreSQL plan appends to one list until an exception stops it: \<open>Caught\<close>
  the ones \<^verbatim>\<open>_analyze_pg\<close> catches (what was appended stays), \<open>Escaped\<close> any other (nothing is
  reported). Comparing a number with the threshold fails on a value that is none.
\<close>

datatype stop = Caught | Escaped

definition above :: "pyval \<Rightarrow> int \<Rightarrow> stop + bool" where
  "above v n = (case v of
     PInt i \<Rightarrow> Inr (i > n)
   | PBool b \<Rightarrow> Inr ((if b then 1 else 0) > n)
   | PFloat (Fin r) \<Rightarrow> Inr (r > of_int n)
   | PFloat (Infinite pos) \<Rightarrow> Inr pos
   | PFloat NaN \<Rightarrow> Inr False
   | PDecimal (Fin r) \<Rightarrow> Inr (r > of_int n)
   | PDecimal (Infinite pos) \<Rightarrow> Inr pos
   | PDecimal NaN \<Rightarrow> Inl Escaped
   | _ \<Rightarrow> Inl Caught)"

definition grouped :: "py_display \<Rightarrow> pyval \<Rightarrow> string" where
  "grouped d v = (case v of PInt i \<Rightarrow> group_thousands i | _ \<Rightarrow> show_grouped d v)"

definition shown :: "py_display \<Rightarrow> pyval \<Rightarrow> string" where
  "shown d v = (case v of PStr s \<Rightarrow> s | _ \<Rightarrow> show_value d v)"

definition seq_scan_warning :: "py_display \<Rightarrow> pyval \<Rightarrow> pyval \<Rightarrow> string" where
  "seq_scan_warning d table n =
     ''Sequential scan on '' @ quote_name (shown d table) @ '' (~'' @ grouped d n @ '' rows). Consider adding an index.''"

text \<open>The children of a node, when \<^verbatim>\<open>for child in node.get("Plans", [])\<close> can go through them.\<close>

definition plan_children :: "(string \<times> pyval) list \<Rightarrow> stop + pyval list" where
  "plan_children node = (case dict_get node ''Plans'' (PList []) of
     PList vs \<Rightarrow> Inr vs
   | PStr [] \<Rightarrow> Inr []
   | PDict [] \<Rightarrow> Inr []
   | PBytes [] \<Rightarrow> Inr []
   | _ \<Rightarrow> Inl Caught)"

lemma dict_value_smaller: "map_of d k = Some v \<Longrightarrow> size v < size (PDict d)"
proof (induction d)
  case (Cons e d)
  then show ?case by (cases e) (auto split: if_splits)
qed simp

lemma list_value_smaller: "v \<in> set vs \<Longrightarrow> size v < size (PList vs)"
  by (induction vs) auto

lemma plan_child_smaller:
  assumes "plan_children node = Inr vs" and "v \<in> set vs"
  shows "size v < size (PDict node)"
proof (cases "map_of node ''Plans''")
  case None
  with assms show ?thesis by (simp add: plan_children_def dict_get_def)
next
  case (Some w)
  with assms have "w = PList vs"
    by (auto simp: plan_children_def dict_get_def split: pyval.splits list.splits)
  with Some show ?thesis using dict_value_smaller [of node "''Plans''" w] list_value_smaller [OF assms(2)] by simp
qed

function walk_pg_plan :: "py_display \<Rightarrow> int \<Rightarrow> pyval \<Rightarrow> string list \<Rightarrow> stop option \<times> string list" where
  "walk_pg_plan d threshold v ws =
    (case v of
       PDict node \<Rightarrow>
        (case (if dict_get node ''Node Type'' (PStr []) = PStr ''Seq Scan''
               then above (dict_get node ''Plan Rows'' (PInt 0)) threshold else Inr False) of
           Inl e \<Rightarrow> (Some e, ws)
         | Inr large \<Rightarrow>
           (let ws' = (if large then ws @ [seq_scan_warning d (dict_get node ''Relation Name'' (PStr ''?''))
                         (dict_get node ''Plan Rows'' (PInt 0))] else ws)
            in case plan_children node of
                 Inl e \<Rightarrow> (Some e, ws')
               | Inr vs \<Rightarrow>
                 fold (\<lambda>child (e, ws). if e \<noteq> None then (e, ws)
                   else walk_pg_plan d threshold child ws) vs (None, ws')))
     | _ \<Rightarrow> (Some Caught, ws))"
  by pat_completeness auto
termination
  using plan_child_smaller by (relation "measure (\<lambda>(d, n, v, ws). size v)") (simp, fastforce)

declare walk_pg_plan.simps [simp del]

definition analyze_pg :: "py_display \<Rightarrow> int \<Rightarrow> pyval query_result \<Rightarrow> string list" where
  "analyze_pg d threshold r =
    (case rows r of
       (raw # _) # _ \<Rightarrow>
        (case (case raw of PStr s \<Rightarrow> json_loads d s | _ \<Rightarrow> Some raw) of
           None \<Rightarrow> []
         | Some data \<Rightarrow>
           (case (case data of PList (p # _) \<Rightarrow> p | _ \<Rightarrow> data) of
              PDict node \<Rightarrow>
                (case walk_pg_plan d threshold (dict_get node ''Plan'' (PDict node)) [] of
                   (Some Escaped, ws) \<Rightarrow> [] | (_, ws) \<Rightarrow> ws)
            | _ \<Rightarrow> []))
     | _ \<Rightarrow> [])"

text \<open>\<^verbatim>\<open>int(v)\<close>: \<open>None\<close> when it raises.\<close>

fun digit_run :: "nat \<Rightarrow> string \<Rightarrow> nat option" where
  "digit_run n [] = Some n"
| "digit_run n (c # s) =
     (if is_digit c then digit_run (10 * n + (code_pt c - 48)) s
      else case s of
        d # _ \<Rightarrow> if c = CHR ''_'' \<and> is_digit d then digit_run n s else None
      | [] \<Rightarrow> None)"

definition parse_int :: "string \<Rightarrow> int option" where
  "parse_int text = (case py_strip text of
     [] \<Rightarrow> None
   | c # s \<Rightarrow>
     (let (neg, body) = (if c = CHR ''-'' then (True, s) else if c = CHR ''+'' then (False, s) else (False, c # s))
      in if head_is is_digit body
         then map_option (\<lambda>n. if neg then - int n else int n) (digit_run 0 body) else None))"

definition int_of_value :: "pyval \<Rightarrow> int option" where
  "int_of_value v = (case v of
     PInt i \<Rightarrow> Some i
   | PBool b \<Rightarrow> Some (if b then 1 else 0)
   | PFloat (Fin r) \<Rightarrow> Some (if r < 0 then \<lceil>r\<rceil> else \<lfloor>r\<rfloor>)
   | PDecimal (Fin r) \<Rightarrow> Some (if r < 0 then \<lceil>r\<rceil> else \<lfloor>r\<rfloor>)
   | PStr s \<Rightarrow> parse_int s
   | PBytes s \<Rightarrow> parse_int s
   | _ \<Rightarrow> None)"

fun index_of :: "'a \<Rightarrow> 'a list \<Rightarrow> nat option" where
  "index_of x [] = None"
| "index_of x (y # ys) = (if x = y then Some 0 else map_option Suc (index_of x ys))"

definition cell :: "'a list \<Rightarrow> nat \<Rightarrow> 'a option" where
  "cell row i = (if i < length row then Some (row ! i) else None)"

text \<open>One row of a MySQL plan: \<open>None\<close> when reading it raises, which loses the whole report.\<close>

definition mysql_row :: "py_display \<Rightarrow> int \<Rightarrow> nat \<Rightarrow> nat \<Rightarrow> nat option \<Rightarrow> pyval list \<Rightarrow> string list option" where
  "mysql_row d threshold type_idx rows_idx table_idx row =
    (case cell row type_idx of None \<Rightarrow> None | Some t \<Rightarrow>
     (case cell row rows_idx of None \<Rightarrow> None | Some n \<Rightarrow>
      (case (if truthy n then int_of_value n else Some 0) of None \<Rightarrow> None | Some est_rows \<Rightarrow>
       (case (case table_idx of None \<Rightarrow> Some (PStr ''?'') | Some i \<Rightarrow> cell row i) of None \<Rightarrow> None | Some table \<Rightarrow>
          Some (if truthy t \<and> py_upper (shown d t) = ''ALL'' \<and> est_rows > threshold
            then [''Full table scan on '' @ quote_name (shown d table) @ '' (~'' @ group_thousands est_rows
              @ '' rows). Consider adding an index.'']
            else [])))))"

fun all_rows :: "('a \<Rightarrow> 'b list option) \<Rightarrow> 'a list \<Rightarrow> 'b list option" where
  "all_rows f [] = Some []"
| "all_rows f (x # xs) = (case f x of None \<Rightarrow> None | Some ys \<Rightarrow> map_option ((@) ys) (all_rows f xs))"

definition analyze_mysql :: "py_display \<Rightarrow> int \<Rightarrow> pyval query_result \<Rightarrow> string list" where
  "analyze_mysql d threshold r =
    (let names = map py_lower (columns r)
     in case (index_of ''type'' names, index_of ''rows'' names) of
          (Some t, Some n) \<Rightarrow>
            (case all_rows (mysql_row d threshold t n (index_of ''table'' names)) (rows r) of
               None \<Rightarrow> [] | Some ws \<Rightarrow> ws)
        | _ \<Rightarrow> [])"

definition condition_line :: rx where
  "condition_line = seqs [AtLineStart, spaces, lit_ci ''condition:'', spaces, Grp 1 (Seq dot (Lazy dot)), spaces, line_end]"

definition granules_line :: rx where
  "granules_line = seqs [AtLineStart, spaces, lit_ci ''granules:'', spaces, Grp 1 (plus (Cls is_digit)), spaces,
     chr (CHR ''/''), spaces, Grp 2 (plus (Cls is_digit))]"

definition nat_of_text :: "string \<Rightarrow> nat" where
  "nat_of_text s = foldl (\<lambda>n c. 10 * n + (code_pt c - 48)) 0 s"

definition ch_plan_read_is_bounded :: "string \<Rightarrow> bool" where
  "ch_plan_read_is_bounded plan_text \<longleftrightarrow>
     list_ex (\<lambda>g. py_lower (grp 1 g) \<noteq> ''true'') (found_groups condition_line plan_text) \<or>
     list_ex (\<lambda>g. nat_of_text (grp 1 g) < nat_of_text (grp 2 g)) (found_groups granules_line plan_text)"

definition plan_cells :: "py_display \<Rightarrow> pyval \<Rightarrow> string list" where
  "plan_cells d v = (case v of
     PNone \<Rightarrow> []
   | PList vs \<Rightarrow> map (shown d) (filter (\<lambda>c. c \<noteq> PNone) vs)
   | _ \<Rightarrow> [shown d v])"

definition analyze_clickhouse :: "py_display \<Rightarrow> pyval query_result \<Rightarrow> string list" where
  "analyze_clickhouse d r =
    (let plan_text = lines_of (concat (map (\<lambda>row. concat (map (plan_cells d) row)) (rows r)))
     in if plan_text = [] then []
        else let plan_lower = py_lower plan_text;
                 has_merge_read = contains_text ''readfrommergetree'' plan_lower;
                 bounded_read = has_merge_read \<and> ch_plan_read_is_bounded plan_text
             in (if has_merge_read \<and> \<not> bounded_read
                 then [''ClickHouse plan does a full MergeTree scan with no index pruning; '' @
                   ''consider filtering on the primary-key prefix to reduce data read.''] else [])
              @ (if \<not> bounded_read \<and> \<not> contains_text ''limit'' plan_lower \<and> \<not> contains_text ''aggregating'' plan_lower
                 then [''ClickHouse plan has no LIMIT and no aggregation; large result set may be returned.''] else []))"

definition analyze_plan :: "py_display \<Rightarrow> int \<Rightarrow> pyval query_result \<Rightarrow> string \<Rightarrow> string list" where
  "analyze_plan d threshold r db_type =
    (let dt = py_lower db_type
     in if dt \<in> {''postgresql'', ''postgres''} then analyze_pg d threshold r
        else if dt = ''mysql'' then analyze_mysql d threshold r
        else if dt = ''clickhouse'' then analyze_clickhouse d r
        else [])"

text \<open>A result's error, classified (\<^verbatim>\<open>if result.error\<close>: the empty text is none).\<close>

definition result_fault :: "'v query_result \<Rightarrow> string \<Rightarrow> query_error option" where
  "result_fault r db_type = (case error r of
     Some (c # e) \<Rightarrow> Some (classify (c # e) db_type (case error_type r of None \<Rightarrow> None | Some t \<Rightarrow> type_of_value t))
   | _ \<Rightarrow> None)"

text \<open>
  \<open>ask\<close> is the connector's answer to a statement: the validator sends the explain statement,
  when the dialect has one.
\<close>

definition explain_validate :: "py_display \<Rightarrow> int \<Rightarrow> (string \<Rightarrow> db_reply) \<Rightarrow> string \<Rightarrow> string \<Rightarrow> validation_result" where
  "explain_validate d threshold ask query db_type =
    (if mongo_type db_type then valid_result
     else case build_explain_query query db_type of
       None \<Rightarrow> valid_result
     | Some q \<Rightarrow>
       (case ask q of
          Raised text \<Rightarrow> invalid_result (classify text db_type None)
        | Replied r \<Rightarrow>
          (case result_fault r db_type of
             Some e \<Rightarrow> invalid_result e
           | None \<Rightarrow> valid_result\<lparr>v_warnings := analyze_plan d threshold r db_type\<rparr>)))"

section \<open>After: the result\<close>

definition empty_result_error :: "unit \<Rightarrow> query_error" where
  "empty_result_error u =
     \<lparr>e_type = EmptyResult, e_message = ''Query returned 0 rows'', e_raw = ''post_validation: empty result set'',
      e_retryable = True, e_tables = [], e_columns = [],
      e_hint = ''Consider broadening WHERE conditions, checking date ranges, or verifying data exists.''\<rparr>"

definition post_validate :: "pyval query_result \<Rightarrow> schema_info \<Rightarrow> validation_config \<Rightarrow> validation_result" where
  "post_validate r schema cfg =
    (case result_fault r (schema_db_type schema) of
       Some e \<Rightarrow> invalid_result e
     | None \<Rightarrow>
       (if row_count r = 0 \<and> empty_result_retry cfg then invalid_result (empty_result_error ())
        else let timeout_ms = query_timeout_seconds cfg * 1000
             in valid_result\<lparr>v_warnings :=
               (if row_count r = 0 then [''Query returned 0 rows.''] else []) @
               (if execution_time_ms r > of_int timeout_ms
                then [''Slow query: '' @ str_int (round_even (execution_time_ms r)) @ ''ms (threshold: ''
                  @ str_int timeout_ms @ ''ms).''] else [])\<rparr>))"

lemma post_validate_accepts:
  "refusal (post_validate r schema cfg) = None \<longleftrightarrow>
    result_fault r (schema_db_type schema) = None \<and> \<not> (row_count r = 0 \<and> empty_result_retry cfg)"
  by (auto simp: post_validate_def Let_def split: option.split)

lemma post_validate_empty:
  "refusal (post_validate r schema cfg) = Some e \<Longrightarrow> e_type e = EmptyResult \<Longrightarrow> error_type r = None \<Longrightarrow>
    row_count r = 0 \<and> empty_result_retry cfg \<and> result_fault r (schema_db_type schema) = None"
  using classify_not_empty
  by (auto simp: post_validate_def Let_def result_fault_def split: option.splits list.splits if_splits)

section \<open>Properties\<close>

text \<open>
  The check before execution refuses only for a table that the schema does not have or a
  column that a table of the schema does not have; it never reports an ambiguous column, and
  what it suggests instead exists in the schema.
\<close>

theorem refusals_name_what_is_missing:
  assumes "refusal (pre_validate schema query db_type) = Some e"
  shows "(e_type e = TableNotFound \<and> (\<exists>t \<in> set (extract_tables query). py_lower t \<notin> set (known_tables schema)) \<and>
      set (e_tables e) \<subseteq> table_name ` set (tables schema)) \<or>
    (e_type e = ColumnNotFound \<and>
      (\<exists>t cols col. map_of (column_map schema) t = Some cols \<and> py_lower col \<notin> set cols) \<and>
      set (e_columns e) \<subseteq> (\<Union>t \<in> set (tables schema). col_name ` set (table_columns t)))"
proof -
  have ts: "set (e_tables (unknown_table schema t)) \<subseteq> table_name ` set (tables schema)" for t
    using similar_tables_exist by (fastforce simp: unknown_table_def)
  have cs: "set (e_columns (unknown_column schema c t)) \<subseteq> (\<Union>t \<in> set (tables schema). col_name ` set (table_columns t))" for c t
  proof
    fix x
    assume "x \<in> set (e_columns (unknown_column schema c t))"
    then have "x \<in> (fst \<circ> snd) ` set (find_similar_columns c schema)"
      by (auto simp: unknown_column_def Let_def split: if_splits dest!: in_set_takeD)
    then obtain u v where "(u, x, v) \<in> set (find_similar_columns c schema)" by auto
    from similar_columns_exist [OF this] show "x \<in> (\<Union>t \<in> set (tables schema). col_name ` set (table_columns t))" by blast
  qed
  have ty: "e_type (unknown_table schema t) = TableNotFound" "e_type (unknown_column schema c t) = ColumnNotFound" for c t
    by (simp_all add: unknown_table_def unknown_column_def Let_def)
  show ?thesis
    using pre_validate_refuses [OF assms]
  proof (elim conjE disjE bexE exE)
    fix t
    assume "t \<in> set (extract_tables query)" "py_lower t \<notin> set (known_tables schema)" "e = unknown_table schema t"
    then show ?thesis using ts [of t] ty(1) [of t] by blast
  next
    fix t cols col
    assume "map_of (column_map schema) t = Some cols" "py_lower col \<notin> set cols" "e = unknown_column schema col t"
    then show ?thesis using cs [of col t] ty(2) [of col t] by blast
  qed
qed

definition orders_schema :: "unit \<Rightarrow> schema_info" where
  "orders_schema u = \<lparr>tables = [\<lparr>table_name = ''t'', table_columns = [\<lparr>col_name = ''day'', data_type = ''date'',
      is_nullable = None, is_primary_key = False, col_comment = None\<rparr>], foreign_keys = [], indexes = [],
      table_rows = None, table_comment = None\<rparr>], schema_db_type = ''postgres''\<rparr>"

definition two_ctes :: "unit \<Rightarrow> string" where
  "two_ctes u = ''WITH a AS (SELECT day FROM t), b AS (SELECT day FROM a) SELECT day FROM b''"

definition extract_part :: "unit \<Rightarrow> string" where
  "extract_part u = ''SELECT EXTRACT(YEAR FROM day) FROM t''"

lemma unknown_refused:
  "\<not> mongo_type db_type \<Longrightarrow> find (\<lambda>t. py_lower t \<notin> set (known_tables schema)) (extract_tables query) = Some t \<Longrightarrow>
    refusal (pre_validate schema query db_type) = Some (unknown_table schema t)"
  by (simp add: pre_validate_def)

lemma second_cte_unknown:
  "\<not> mongo_type ''postgres''"
  "find (\<lambda>t. py_lower t \<notin> set (known_tables (orders_schema ()))) (extract_tables (two_ctes ())) = Some ''b''"
  by code_simp+

lemma extract_field_unknown:
  "find (\<lambda>t. py_lower t \<notin> set (known_tables (orders_schema ()))) (extract_tables (extract_part ())) = Some ''day''"
  by code_simp

theorem refusals_name_what_is_missing_witness:
  "\<exists>e. e_type e = TableNotFound \<and> refusal (pre_validate (orders_schema ()) (two_ctes ()) ''postgres'') = Some e"
proof -
  have "refusal (pre_validate (orders_schema ()) (two_ctes ()) ''postgres'')
      = Some (unknown_table (orders_schema ()) ''b'')"
    using unknown_refused second_cte_unknown by blast
  with refusals_name_what_is_missing [OF this] show ?thesis
    by (intro exI [of _ "unknown_table (orders_schema ()) ''b''"]) (simp add: unknown_table_def)
qed

text \<open>
  C38. The check before execution refuses correct queries: of two common table expressions only
  the first is recognised, so the second is taken for a missing table, and the field of
  \<^verbatim>\<open>EXTRACT(YEAR FROM day)\<close> is taken for one too.
\<close>

theorem correct_queries_refused:
  "refusal (pre_validate (orders_schema ()) (two_ctes ()) ''postgres'') = Some (unknown_table (orders_schema ()) ''b'') \<and>
   refusal (pre_validate (orders_schema ()) (extract_part ()) ''postgres'') = Some (unknown_table (orders_schema ()) ''day'')"
  using unknown_refused second_cte_unknown extract_field_unknown by blast

end
