(* ===== verification/RequiredFilters.thy ===== *)
theory RequiredFilters
  imports QueryValidators
begin

text \<open>
  \<^verbatim>\<open>backend/app/core/required_filter_guard.py\<close>: predicates that the knowledge of a project
  requires on its tables, compiled to patterns and looked for in a query. The metrics the guard
  counts are left out. The order in which Python goes through a set of table names, which only
  orders the list of missing filters, is the parameter \<open>set_order\<close>.
\<close>

section \<open>Compiling a predicate\<close>

definition q_open :: rx where
  "q_open = opt (Cls (\<lambda>c. c \<in> {CHR 0x60, CHR 0x22, CHR ''[''}))"

definition q_close :: rx where
  "q_close = opt (Cls (\<lambda>c. c \<in> {CHR 0x60, CHR 0x22, CHR '']''}))"

definition quoted_text :: "char \<Rightarrow> rx" where
  "quoted_text q = seqs [chr q, Star (Cls (\<lambda>c. c \<noteq> q)), chr q]"

definition operand :: rx where
  "operand = alts [quoted_text (CHR 0x27), quoted_text (CHR 0x22),
     plus (Cls (\<lambda>c. is_word c \<or> c \<in> {CHR ''.'', CHR '':'', CHR ''+'', CHR ''-''}))]"

definition any_comparison :: rx where
  "any_comparison = Seq spaces (alts (map lit [''!='', ''<>'', ''>='', ''<='', ''='', ''>'', ''<'']
     @ [seqs [opt (Seq (lit_ci ''NOT'') spaces1), lit_ci ''IN'', WordB], Seq (lit_ci ''BETWEEN'') WordB]))"

definition not_word_before :: rx where
  "not_word_before = NotAfter is_word"

definition not_word_after :: rx where
  "not_word_after = NotAhead (Cls is_word)"

definition col_atom :: "string \<Rightarrow> string list \<Rightarrow> rx" where
  "col_atom col qualifiers =
    (let bare = seqs [q_open, lit_name col, q_close]
     in if qualifiers = [] then Seq not_word_before bare
        else seqs [not_word_before, q_open, alts (map lit_name (sort qualifiers)), q_close, spaces, chr (CHR ''.''),
          spaces, bare])"

definition rest_of_text :: "nat \<Rightarrow> rx" where
  "rest_of_text i = Seq (Grp i (Star any)) AtEnd"

definition tail_is_commentary :: "string \<Rightarrow> bool" where
  "tail_is_commentary tail = (let t = py_strip tail in
     t = [] \<or> match_at_start (seqs [chr (CHR ''(''), Star any, chr (CHR '')''), AtEnd]) t \<noteq> None)"

definition quoted_operand :: rx where
  "quoted_operand = seqs [Grp 1 (Cls (\<lambda>c. c \<in> {CHR 0x27, CHR 0x22})), Grp 2 (Star any), Back 1, AtEnd]"

definition between_quotes :: "char \<Rightarrow> string \<Rightarrow> rx" where
  "between_quotes q w = seqs [chr q, lit_name w, chr q]"

definition value_alternatives :: "string \<Rightarrow> rx" where
  "value_alternatives raw =
    (let v = py_strip raw
     in case match_at_start quoted_operand v of
          Some (w, g) \<Rightarrow> alts [between_quotes (CHR 0x27) (grp 2 g), between_quotes (CHR 0x22) (grp 2 g)]
        | None \<Rightarrow> alts ([lit_name v, between_quotes (CHR 0x27) v, between_quotes (CHR 0x22) v]
            @ (if v = ''1'' then [lit_ci ''TRUE''] else if v = ''0'' then [lit_ci ''FALSE''] else [])))"

definition repeated_column :: "string \<Rightarrow> rx" where
  "repeated_column col = seqs [AtStart, q_open, lit_name col, q_close, spaces1]"

definition is_not_null :: rx where
  "is_not_null = seqs [AtStart, lit_ci ''IS'', spaces1, lit_ci ''NOT'', spaces1, lit_ci ''NULL'', rest_of_text 1]"

definition is_null :: rx where
  "is_null = seqs [AtStart, alts [seqs [lit_ci ''IS'', spaces1, lit_ci ''NULL''],
     seqs [chr (CHR ''=''), spaces, lit_ci ''NULL'']], rest_of_text 1]"

definition in_list :: rx where
  "in_list = seqs [AtStart, opt (Seq (lit_ci ''NOT'') spaces1), lit_ci ''IN'', spaces, chr (CHR ''(''),
     Star (Cls (\<lambda>c. c \<noteq> CHR '')'')), chr (CHR '')''), rest_of_text 1]"

definition comparison :: rx where
  "comparison = seqs [AtStart, Grp 2 (alts (map lit [''>='', ''<='', ''<>'', ''!='', ''=='', ''='', ''>'', ''<''])), spaces,
     Grp 3 operand, rest_of_text 1]"

definition commentary_after :: "rx \<Rightarrow> string \<Rightarrow> (nat \<times> string) list option" where
  "commentary_after a p = (case match_at_start a p of
     Some (w, g) \<Rightarrow> (if tail_is_commentary (grp 1 g) then Some g else None)
   | None \<Rightarrow> None)"

definition without_column :: "string \<Rightarrow> string \<Rightarrow> string" where
  "without_column col p = (case match_at_start (repeated_column col) p of
     Some (w, g) \<Rightarrow> py_strip (drop (length w) p)
   | None \<Rightarrow> p)"

definition range_operators :: "string list" where
  "range_operators = [''>'', ''>='', ''<'', ''<='']"

definition parse_predicate :: "string \<Rightarrow> string \<Rightarrow> string list \<Rightarrow> rx option" where
  "parse_predicate col predicate qualifiers =
    (let p0 = py_strip predicate
     in if p0 = [] then None
        else let p = without_column col p0; c = col_atom col qualifiers
        in if commentary_after is_not_null p \<noteq> None
           then Some (seqs [c, spaces1, lit_ci ''IS'', spaces1, lit_ci ''NOT'', spaces1, lit_ci ''NULL'', not_word_after])
           else if commentary_after is_null p \<noteq> None
           then Some (seqs [c, spaces1, lit_ci ''IS'', spaces1, lit_ci ''NULL'', not_word_after])
           else if commentary_after in_list p \<noteq> None
           then Some (seqs [c, spaces1, opt (Seq (lit_ci ''NOT'') spaces1), lit_ci ''IN'', spaces, chr (CHR ''('')])
           else if match_at_start (seqs [AtStart, lit_ci ''BETWEEN'', WordB]) p \<noteq> None
           then Some (Seq c any_comparison)
           else case commentary_after comparison p of
             None \<Rightarrow> None
           | Some g \<Rightarrow>
             (if grp 2 g \<in> set range_operators then Some (Seq c any_comparison)
              else Some (seqs [c, spaces,
                (if grp 2 g \<in> {''='', ''==''} then lit ''='' else alts [lit ''!='', lit ''<>'']), spaces,
                value_alternatives (grp 3 g), not_word_after])))"

definition compile_filter_check :: "string \<Rightarrow> string \<Rightarrow> string list \<Rightarrow> rx option" where
  "compile_filter_check col predicate qualifiers = parse_predicate col predicate qualifiers"

section \<open>Which filters are required\<close>

datatype required_columns = LegacySet "string list" | Predicates "(string, string) odict"

type_synonym required_filters = "(string, required_columns) odict"

definition legacy_predicate :: "string \<Rightarrow> string" where
  "legacy_predicate c = (if c = ''was_handled'' then ''= 1'' else if c = ''deleted_at'' then ''IS NULL'' else [])"

definition normalize_required :: "required_filters \<Rightarrow> (string, (string, string) odict) odict" where
  "normalize_required required =
     foldl (\<lambda>out (table, cols). od_set (py_lower table)
       (case cols of Predicates d \<Rightarrow> d | LegacySet cs \<Rightarrow> map (\<lambda>c. (c, legacy_predicate c)) cs) out) [] required"

definition parse_required_columns_from_hint :: "string \<Rightarrow> string list" where
  "parse_required_columns_from_hint hint =
    (let lower = py_lower hint
     in (if contains_text ''was_handled'' lower then [''was_handled''] else [])
      @ (if contains_text ''deleted_at'' lower \<and> contains_text ''null'' lower then [''deleted_at''] else []))"

definition add_legacy :: "string list \<Rightarrow> (string, string) odict \<Rightarrow> (string, string) odict" where
  "add_legacy cs d = foldl (\<lambda>d c. if map_of d c = None then od_set c (legacy_predicate c) d else d) d cs"

definition merge_required_filters :: "(string, (string, string) odict) odict \<Rightarrow> (string, string) odict \<Rightarrow>
  (string, (string, string) odict) odict" where
  "merge_required_filters sync_filters index_hints =
    (let merged = foldl (\<lambda>m (table, filters).
           let col_preds = add_legacy (parse_required_columns_from_hint
                 (case map_of index_hints table of Some h \<Rightarrow> h | None \<Rightarrow> [])) filters
           in if col_preds \<noteq> [] then od_set (py_lower table) col_preds m else m) [] sync_filters
     in foldl (\<lambda>m (table, hint).
           let hint_cols = parse_required_columns_from_hint hint
           in if hint_cols = [] then m
              else od_set (py_lower table)
                (add_legacy hint_cols (case map_of m (py_lower table) of Some d \<Rightarrow> d | None \<Rightarrow> [])) m)
         merged index_hints)"

section \<open>The guard\<close>

text \<open>The pattern is found outside what is masked.\<close>

definition found_outside :: "rx \<Rightarrow> string \<Rightarrow> (nat \<times> nat) list \<Rightarrow> bool" where
  "found_outside a query masked \<longleftrightarrow>
     list_ex (\<lambda>(start, finish, g). \<not> starts_inside_masked start masked) (spans_from 0 (scan a query))"

definition referenced_tables :: "string \<Rightarrow> string list" where
  "referenced_tables query = map py_lower (extract_tables query)"

definition names_of_table :: "string \<Rightarrow> string \<Rightarrow> string \<Rightarrow> string list" where
  "names_of_table query db_type table =
     (if length (referenced_tables query) > 1
      then map fst (filter (\<lambda>(a, t). t = table) (extract_table_aliases query db_type)) else [])"

definition missing_filter :: "string \<Rightarrow> string \<Rightarrow> string \<Rightarrow> string \<times> string \<Rightarrow> bool" where
  "missing_filter query db_type table cp =
    (case compile_filter_check (fst cp) (snd cp) (names_of_table query db_type table) of
       None \<Rightarrow> False
     | Some a \<Rightarrow> \<not> found_outside a query (masked_spans query db_type))"

definition missing_filters :: "(string list \<Rightarrow> string list) \<Rightarrow> string \<Rightarrow> string \<Rightarrow> required_filters \<Rightarrow> string list" where
  "missing_filters set_order query db_type required =
     concat (map (\<lambda>table.
       case map_of (normalize_required required) table of
         None \<Rightarrow> []
       | Some preds \<Rightarrow> map (\<lambda>cp. table @ ''.'' @ fst cp)
           (filter (missing_filter query db_type table) (sort preds)))
       (set_order (referenced_tables query)))"

definition missing_error :: "string list \<Rightarrow> query_error" where
  "missing_error missing =
     \<lparr>e_type = UnknownError,
      e_message = ''Query is missing required filter(s): '' @ join_with '', '' missing @ ''. Add them to WHERE and retry.'',
      e_raw = ''required_filter_guard: missing '' @ join_with '', '' missing, e_retryable = True, e_tables = [],
      e_columns = [],
      e_hint = ''Required filters (from code-DB sync / schema index). Add every '' @
        ''missing predicate to the WHERE clause before aggregating.''\<rparr>"

definition missing_warning :: "nat \<Rightarrow> string list \<Rightarrow> string" where
  "missing_warning max_attempts missing =
     ''Could not apply required filter(s) after '' @ nat_digits max_attempts @ '' attempts: '' @ join_with '', '' missing
     @ ''. The answer is returned WITHOUT them - treat totals as potentially including ''
     @ ''invalid/soft-deleted rows and verify against the business definition.''"

definition check_required_filters :: "(string list \<Rightarrow> string list) \<Rightarrow> string \<Rightarrow> string \<Rightarrow> required_filters \<Rightarrow>
  nat \<Rightarrow> nat \<Rightarrow> validation_result" where
  "check_required_filters set_order query db_type required attempt max_attempts =
    (if mongo_type db_type \<or> required = [] then valid_result
     else if extract_tables query = [] then valid_result
     else let missing = missing_filters set_order query db_type required
       in if missing = [] then valid_result
          else if attempt \<ge> max_attempts
          then valid_result\<lparr>v_warning := Some (missing_warning max_attempts missing)\<rparr>
          else invalid_result (missing_error missing))"

section \<open>What the guard demands\<close>

definition unmet :: "string \<Rightarrow> string \<Rightarrow> required_filters \<Rightarrow> string \<Rightarrow> string \<Rightarrow> bool" where
  "unmet query db_type required table col \<longleftrightarrow>
     table \<in> set (referenced_tables query) \<and>
     (\<exists>preds predicate a. map_of (normalize_required required) table = Some preds \<and> (col, predicate) \<in> set preds \<and>
        compile_filter_check col predicate (names_of_table query db_type table) = Some a \<and>
        \<not> found_outside a query (masked_spans query db_type))"

lemma missing_filters_unmet:
  assumes "set (set_order (referenced_tables query)) = set (referenced_tables query)"
  shows "missing_filters set_order query db_type required \<noteq> [] \<longleftrightarrow> (\<exists>t c. unmet query db_type required t c)"
proof -
  have one: "(\<exists>cp \<in> set preds. missing_filter query db_type t cp) \<longleftrightarrow>
      (\<exists>c predicate a. (c, predicate) \<in> set preds \<and>
        compile_filter_check c predicate (names_of_table query db_type t) = Some a \<and>
        \<not> found_outside a query (masked_spans query db_type))" for t preds
    by (force simp: missing_filter_def split: option.splits)
  have "missing_filters set_order query db_type required \<noteq> [] \<longleftrightarrow>
      (\<exists>t \<in> set (referenced_tables query). \<exists>preds. map_of (normalize_required required) t = Some preds \<and>
        (\<exists>cp \<in> set preds. missing_filter query db_type t cp))"
  proof -
    let ?row = "\<lambda>t. case map_of (normalize_required required) t of None \<Rightarrow> []
      | Some preds \<Rightarrow> map (\<lambda>cp. t @ ''.'' @ fst cp) (filter (missing_filter query db_type t) (sort preds))"
    have row: "?row t \<noteq> [] \<longleftrightarrow> (\<exists>preds. map_of (normalize_required required) t = Some preds \<and>
        (\<exists>cp \<in> set preds. missing_filter query db_type t cp))" for t
      by (cases "map_of (normalize_required required) t") (auto simp: filter_empty_conv)
    have "missing_filters set_order query db_type required \<noteq> [] \<longleftrightarrow>
        (\<exists>t \<in> set (set_order (referenced_tables query)). ?row t \<noteq> [])"
      unfolding missing_filters_def by simp
    then show ?thesis unfolding row assms .
  qed
  then show ?thesis unfolding one unmet_def by blast
qed

lemma guard_verdict:
  assumes "set (set_order (referenced_tables query)) = set (referenced_tables query)"
  shows "(refusal (check_required_filters set_order query db_type required n m) \<noteq> None \<longleftrightarrow>
      \<not> mongo_type db_type \<and> n < m \<and> (\<exists>t c. unmet query db_type required t c)) \<and>
    (v_warning (check_required_filters set_order query db_type required n m) \<noteq> None \<longleftrightarrow>
      \<not> mongo_type db_type \<and> m \<le> n \<and> (\<exists>t c. unmet query db_type required t c))"
proof -
  have none: "required = [] \<or> extract_tables query = [] \<Longrightarrow> \<not> unmet query db_type required t c" for t c
    by (auto simp: unmet_def normalize_required_def referenced_tables_def)
  show ?thesis
    using missing_filters_unmet [of set_order query db_type required, OF assms] none
    unfolding check_required_filters_def Let_def
    by (auto simp: valid_result_def invalid_result_def refusal_def)
qed

section \<open>Every requirement can be met\<close>

text \<open>A pattern that some text satisfies.\<close>

definition satisfiable :: "rx \<Rightarrow> bool" where
  "satisfiable a \<longleftrightarrow> (\<exists>q. search a q \<noteq> None)"

lemma satisfiableI:
  assumes "(p', r', g') \<in> set (rx_match a ([], w, []))"
  shows "satisfiable a"
  using search_found [of a "[]" w] assms unfolding satisfiable_def by fastforce

lemma reads_lit_name: "(rev w @ p, r, g) \<in> set (rx_match (lit_name w) (p, w @ r, g))"
  by (induction w arbitrary: p) auto

lemma reads_opt_skip: "(p, r, g) \<in> set (rx_match (opt a) (p, r, g))"
  by (simp add: opt_def)

lemma skip_q: "(p, r, g) \<in> set (rx_match q_open (p, r, g))" "(p, r, g) \<in> set (rx_match q_close (p, r, g))"
  by (simp_all add: q_open_def q_close_def reads_opt_skip)

lemma skip_spaces: "(p, r, g) \<in> set (rx_match spaces (p, r, g))"
  using reads_Star_class [of py_isspace "[]" p r g] by (simp add: spaces_def)

lemma reads_chr: "(c # p, r, g) \<in> set (rx_match (chr c) (p, c # r, g))"
  by (simp add: chr_def)

lemma reads_bare_column:
  "(rev col @ p, r, g) \<in> set (rx_match (seqs [q_open, lit_name col, q_close]) (p, col @ r, g))"
  unfolding seqs.simps by (intro reads_Seq [OF skip_q(1)] reads_Seq [OF reads_lit_name] skip_q(2))

lemma reads_col_atom:
  "\<exists>w. \<forall>r. (rev w, r, []) \<in> set (rx_match (col_atom col qualifiers) ([], w @ r, []))"
proof (cases "qualifiers = []")
  case True
  have "(rev col, r, []) \<in> set (rx_match (col_atom col qualifiers) ([], col @ r, []))" for r
  proof -
    have "([], col @ r, []) \<in> set (rx_match not_word_before ([], col @ r, []))"
      by (simp add: not_word_before_def head_is_def)
    from reads_Seq [OF this reads_bare_column [of col "[]" r "[]"]] show ?thesis
      by (simp only: col_atom_def True Let_def append_Nil2 if_True simp_thms)
  qed
  then show ?thesis by blast
next
  case False
  then obtain q where "q \<in> set qualifiers" by (cases qualifiers) auto
  then have q: "lit_name q \<in> set (map lit_name (sort qualifiers))" by simp
  let ?w = "q @ CHR ''.'' # col"
  have "(rev col @ CHR ''.'' # rev q, r, []) \<in> set (rx_match (col_atom col qualifiers) ([], ?w @ r, []))" for r
  proof -
    have start: "([], ?w @ r, []) \<in> set (rx_match not_word_before ([], ?w @ r, []))"
      by (simp add: not_word_before_def head_is_def)
    have name: "(rev q, CHR ''.'' # col @ r, []) \<in> set (rx_match (alts (map lit_name (sort qualifiers))) ([], ?w @ r, []))"
      using reads_alts [OF q] reads_lit_name [of q "[]" "CHR ''.'' # col @ r" "[]"] by simp
    show ?thesis
      unfolding col_atom_def Let_def if_not_P [OF False] seqs.simps
      by (rule reads_Seq [OF start], rule reads_Seq [OF skip_q(1)], rule reads_Seq [OF name],
          rule reads_Seq [OF skip_q(2)], rule reads_Seq [OF skip_spaces], rule reads_Seq [OF reads_chr],
          rule reads_Seq [OF skip_spaces], rule reads_bare_column [unfolded seqs.simps])
  qed
  then show ?thesis by (intro exI [of _ ?w]) simp
qed

text \<open>What follows the column, read to the end of the text.\<close>

definition completes :: "rx \<Rightarrow> bool" where
  "completes a \<longleftrightarrow> (\<exists>w. \<forall>p. \<exists>t. t \<in> set (rx_match a (p, w, [])))"

lemma satisfiable_column:
  assumes "completes a"
  shows "satisfiable (Seq (col_atom col qualifiers) a)"
proof -
  obtain u where u: "(rev u, r, []) \<in> set (rx_match (col_atom col qualifiers) ([], u @ r, []))" for r
    using reads_col_atom by blast
  obtain v where v: "\<exists>t. t \<in> set (rx_match a (p, v, []))" for p
    using assms unfolding completes_def by blast
  then obtain t where "t \<in> set (rx_match a (rev u, v, []))" by blast
  moreover obtain p' r' g' where "t = (p', r', g')" by (metis prod_cases3)
  ultimately have "(p', r', g') \<in> set (rx_match a (rev u, v, []))" by simp
  from reads_Seq [OF u this] show ?thesis by (rule satisfiableI)
qed

text \<open>Expressions that read one text from wherever it stands.\<close>

definition reads_each :: "rx \<Rightarrow> string \<Rightarrow> bool" where
  "reads_each a w \<longleftrightarrow> (\<forall>p r. (rev w @ p, r, []) \<in> set (rx_match a (p, w @ r, [])))"

named_theorems reads_rules "expressions that read a known text"

lemma reads_each_Seq [reads_rules]: "reads_each a u \<Longrightarrow> reads_each b v \<Longrightarrow> reads_each (Seq a b) (u @ v)"
proof -
  assume a: "reads_each a u" and b: "reads_each b v"
  have "(rev v @ rev u @ p, r, []) \<in> set (rx_match (Seq a b) (p, u @ v @ r, []))" for p r
    by (rule reads_Seq [where u = "(rev u @ p, v @ r, [])"]) (use a b in \<open>simp_all only: reads_each_def\<close>)
  then show ?thesis by (simp add: reads_each_def del: rx_match.simps)
qed

lemma reads_each_chr [reads_rules]: "reads_each (chr c) [c]"
  by (simp add: reads_each_def chr_def)

lemma reads_each_spaces [reads_rules]: "reads_each spaces []"
  by (simp add: reads_each_def skip_spaces)

lemma reads_each_spaces1 [reads_rules]: "reads_each spaces1 '' ''"
  unfolding reads_each_def using reads_spaces1 [of "'' ''"] by (simp add: py_isspace_def code_pt_def)

lemma reads_each_lit_ci [reads_rules]: "reads_each (lit_ci w) w"
  unfolding reads_each_def by (simp add: reads_lit_ci)

lemma reads_each_lit [reads_rules]: "reads_each (lit w) w"
  unfolding reads_each_def by (simp add: reads_lit)

lemma reads_each_lit_name [reads_rules]: "reads_each (lit_name w) w"
  unfolding reads_each_def by (simp add: reads_lit_name)

lemma reads_each_opt [reads_rules]: "reads_each (opt a) []"
  unfolding reads_each_def by (simp add: reads_opt_skip)

lemma reads_each_alts: "a \<in> set as \<Longrightarrow> reads_each a w \<Longrightarrow> reads_each (alts as) w"
  unfolding reads_each_def by (blast intro: reads_alts)

lemma reads_each_quotes [reads_rules]: "reads_each (between_quotes q w) ([q] @ w @ [q])"
  unfolding between_quotes_def seqs.simps by (intro reads_rules)

lemma completes_reads: "reads_each a w \<Longrightarrow> completes a"
  unfolding reads_each_def completes_def by (metis append_Nil2)

lemma completes_Seq: "reads_each a w \<Longrightarrow> completes b \<Longrightarrow> completes (Seq a b)"
proof -
  assume a: "reads_each a w" and "completes b"
  then obtain v where v: "\<exists>t. t \<in> set (rx_match b (p, v, []))" for p
    unfolding completes_def by blast
  have "\<exists>t. t \<in> set (rx_match (Seq a b) (p, w @ v, []))" for p
  proof -
    obtain t where t: "t \<in> set (rx_match b (rev w @ p, v, []))" using v by blast
    have "(rev w @ p, v, []) \<in> set (rx_match a (p, w @ v, []))" using a by (simp add: reads_each_def)
    from reads_Seq [OF this t] show ?thesis by blast
  qed
  then show ?thesis unfolding completes_def by blast
qed

lemma completes_word_end: "completes not_word_after"
  unfolding completes_def not_word_after_def by (intro exI [of _ "[]"]) simp

lemma completes_comparison: "completes any_comparison"
proof -
  have "lit ''='' \<in> set (map lit [''!='', ''<>'', ''>='', ''<='', ''='', ''>'', ''<''] @ xs)" for xs by simp
  from reads_each_alts [OF this reads_each_lit] show ?thesis
    unfolding any_comparison_def by (rule completes_Seq [OF reads_each_spaces completes_reads])
qed

lemma reads_value: "\<exists>w. reads_each (value_alternatives v) w"
proof (cases "match_at_start quoted_operand (py_strip v)")
  case None
  have "lit_name (py_strip v) \<in> set ([lit_name (py_strip v), a, b] @ xs)" for a b xs by simp
  from reads_each_alts [OF this reads_each_lit_name] None show ?thesis
    unfolding value_alternatives_def Let_def by (simp only: option.case) blast
next
  case (Some m)
  obtain w g where m: "m = (w, g)" by fastforce
  have "between_quotes (CHR 0x27) (grp 2 g) \<in> set [between_quotes (CHR 0x27) (grp 2 g), b]" for b by simp
  from reads_each_alts [OF this reads_each_quotes] Some show ?thesis
    unfolding value_alternatives_def Let_def m by (simp only: option.case prod.case) blast
qed

lemma every_requirement_can_be_met:
  assumes "parse_predicate col predicate qualifiers = Some a"
  shows "satisfiable a"
proof -
  let ?c = "col_atom col qualifiers"
  have eqs: "\<exists>w. reads_each (if b then lit ''='' else alts [lit ''!='', lit ''<>'']) w" for b
  proof (cases b)
    case False
    have "lit ''<>'' \<in> set [lit ''!='', lit ''<>'']" by simp
    from reads_each_alts [OF this reads_each_lit] False show ?thesis by (simp only: if_False) blast
  qed (simp only: if_True, rule exI, rule reads_each_lit)
  have not_null: "completes (seqs [spaces1, lit_ci ''IS'', spaces1, lit_ci ''NOT'', spaces1, lit_ci ''NULL'', not_word_after])"
    and null: "completes (seqs [spaces1, lit_ci ''IS'', spaces1, lit_ci ''NULL'', not_word_after])"
    and in_: "completes (seqs [spaces1, opt (Seq (lit_ci ''NOT'') spaces1), lit_ci ''IN'', spaces, chr (CHR ''('')])"
    unfolding seqs.simps
    by (intro completes_Seq [OF reads_each_spaces1] completes_Seq [OF reads_each_lit_ci]
        completes_Seq [OF reads_each_opt] completes_Seq [OF reads_each_spaces] completes_word_end
        completes_reads [OF reads_each_chr])+
  have eq: "completes (seqs [spaces, if b then lit ''='' else alts [lit ''!='', lit ''<>''], spaces, value_alternatives v,
      not_word_after])" for b v
  proof -
    obtain u w where "reads_each (if b then lit ''='' else alts [lit ''!='', lit ''<>'']) u"
      and "reads_each (value_alternatives v) w" using eqs reads_value by metis
    then show ?thesis unfolding seqs.simps
      by (intro completes_Seq [OF reads_each_spaces] completes_Seq completes_word_end)
  qed
  have "a \<in> {Seq ?c (seqs [spaces1, lit_ci ''IS'', spaces1, lit_ci ''NOT'', spaces1, lit_ci ''NULL'', not_word_after]),
      Seq ?c (seqs [spaces1, lit_ci ''IS'', spaces1, lit_ci ''NULL'', not_word_after]),
      Seq ?c (seqs [spaces1, opt (Seq (lit_ci ''NOT'') spaces1), lit_ci ''IN'', spaces, chr (CHR ''('')]),
      Seq ?c any_comparison} \<or>
    (\<exists>b v. a = Seq ?c (seqs [spaces, if b then lit ''='' else alts [lit ''!='', lit ''<>''], spaces,
      value_alternatives v, not_word_after]))"
    using assms unfolding parse_predicate_def Let_def seqs.simps by (auto split: if_splits option.splits)
  then show ?thesis
    using satisfiable_column [OF not_null] satisfiable_column [OF null] satisfiable_column [OF in_]
      satisfiable_column [OF completes_comparison] satisfiable_column [OF eq] by blast
qed

section \<open>Properties\<close>


definition soft_delete :: "unit \<Rightarrow> required_filters" where
  "soft_delete u = [(''T'', Predicates [(''x'', ''IS NULL (no deleted rows)'')])]"


text \<open>
  Every predicate the guard enforces can be met: whatever pattern it compiles, for whatever
  column, stored text and table names, some text contains it.
\<close>

theorem requirement_satisfiable:
  assumes "compile_filter_check col predicate qualifiers = Some a"
  shows "\<exists>q. search a q \<noteq> None"
  using every_requirement_can_be_met [of col predicate qualifiers a] assms
  by (simp add: compile_filter_check_def satisfiable_def)

theorem requirement_satisfiable_witness:
  "\<exists>a q. compile_filter_check ''x'' ''= 1 (processed only)'' [''o''] = Some a \<and> search a q \<noteq> None"
proof -
  have "compile_filter_check ''x'' ''= 1 (processed only)'' [''o''] \<noteq> None" by code_simp
  then obtain a where "compile_filter_check ''x'' ''= 1 (processed only)'' [''o''] = Some a" by blast
  with requirement_satisfiable [OF this] show ?thesis by blast
qed

end
