(* ===== verification/QueryRepair.thy ===== *)
theory QueryRepair
  imports RequiredFilters
begin

text \<open>
  What the query loop asks a language model for: \<^verbatim>\<open>backend/app/core/context_enricher.py\<close> and
  the hints of \<^verbatim>\<open>retry_strategy.py\<close> (the text the request carries) and \<^verbatim>\<open>query_repair.py\<close> (the
  request and the reading of its reply). The model's reply and the vector store's answers are
  parameters. An arrow or a dash of the fixed texts is written in ASCII.
\<close>

section \<open>Attempts\<close>

text \<open>The elapsed time of an attempt, which is only reported, is left out.\<close>

record query_attempt =
  attempt_number :: nat
  a_query :: string
  a_explanation :: pyval
  a_error :: "query_error option"
  a_results :: "pyval query_result option"

section \<open>Hints\<close>

definition digit_char :: "nat \<Rightarrow> char" where
  "digit_char n = char_of (48 + n mod 10)"

text \<open>\<^verbatim>\<open>str\<close> of a score that was rounded to three decimals.\<close>

definition show_score :: "rat \<Rightarrow> string" where
  "show_score x =
    (let n = nat (round_even (x * 1000));
         frac = rstrip_by (\<lambda>c. c = CHR ''0'') [digit_char (n div 100), digit_char (n div 10), digit_char n]
     in nat_digits (n div 1000) @ ''.'' @ (if frac = [] then ''0'' else frac))"

definition first_or_empty :: "string list \<Rightarrow> string" where
  "first_or_empty xs = (case xs of x # _ \<Rightarrow> x | [] \<Rightarrow> [])"

definition group_by_hint :: "unit \<Rightarrow> string" where
  "group_by_hint u =
     ''GROUP BY fix required. Every column in the SELECT list must EITHER appear in '' @
     ''the GROUP BY clause OR be wrapped in an aggregate '' @
     ''(SUM/COUNT/MIN/MAX/AVG/COUNT(DISTINCT ...)). Rewrite by one of: (a) add the '' @
     ''offending non-aggregated column(s) to GROUP BY; (b) wrap them in an aggregate. '' @
     ''For cohort / time-bucket analysis, GROUP BY the bucket expression '' @
     ''(e.g. DATE_FORMAT(created_at, '' @ quote_name ''%Y-%m'' @ '') in MySQL, date_trunc('' @ quote_name ''month'' @ '', created_at) '' @
     ''in Postgres) and aggregate the per-row measures - do NOT select raw per-row '' @
     ''timestamps alongside aggregates. Do not change the question'' @ [CHR 0x27] @ ''s intent.''"

definition timeout_hint :: "unit \<Rightarrow> string" where
  "timeout_hint u =
     ''The query is syntactically valid; it did not finish in time. Do NOT rewrite '' @
     ''its logic. Reduce the work it asks the database to do, in this order of '' @
     ''preference: (a) narrow the time range or add the most selective filter '' @
     ''available; (b) aggregate in SQL instead of returning rows; (c) drop joins '' @
     ''that no selected column needs; (d) add a LIMIT when the question tolerates '' @
     ''a sample. Prefer indexed columns for any filter you add. Keep the question'' @ [CHR 0x27] @ ''s '' @
     ''intent - a narrower answer that arrives beats a complete one that never does, '' @
     ''but a different answer is worse than none. If nothing can be narrowed without '' @
     ''changing what was asked, return the query unchanged.''"

definition get_repair_hints :: "query_error \<Rightarrow> schema_info \<Rightarrow> string" where
  "get_repair_hints e schema = lines_of (
     [''Error type: '' @ type_value (e_type e), ''Error message: '' @ e_message e,
      ''Database dialect: '' @ schema_db_type schema]
     @ (if e_type e = ColumnNotFound then
          (let target = first_or_empty (e_columns e)
           in if target = [] then []
              else let similar = find_similar_columns target schema
                in if similar = [] then []
                   else ''Similar columns in schema:''
                     # map (\<lambda>(t, c, s). ''  - '' @ t @ ''.'' @ c @ '' (similarity: '' @ show_score s @ '')'') (take 5 similar)
                     @ map (\<lambda>(t, c, s). get_table_detail t schema) (take 2 similar))
        else if e_type e = TableNotFound then
          (let target = first_or_empty (e_tables e);
               similar = (if target = [] then [] else find_similar_tables target schema)
           in (if similar = [] then []
               else ''Similar tables in schema:''
                 # map (\<lambda>(t, s). ''  - '' @ t @ '' (similarity: '' @ show_score s @ '')'') similar)
              @ [list_all_tables_summary schema])
        else if e_type e = GroupByViolation then [group_by_hint ()]
        else if e_type e = Timeout then [timeout_hint ()]
        else []))"

section \<open>The context of a repair\<close>

text \<open>A document of the vector store: its distance, when it has one, and its text.\<close>

record enricher =
  en_schema :: schema_info
  vector_store :: "(string \<Rightarrow> (rat option \<times> string) list option) option"
  db_index_context :: string
  sync_context :: string
  rules_context :: string
  distinct_values :: "(string, (string, string list) odict) odict"
  learnings_context :: string
  sync_query_tips :: string
  required_filters_by_table :: required_filters

definition validate_required_filters ::
  "(string list \<Rightarrow> string list) \<Rightarrow> enricher \<Rightarrow> string \<Rightarrow> string \<Rightarrow> nat \<Rightarrow> nat \<Rightarrow> validation_result" where
  "validate_required_filters set_order en query db_type attempt max_attempts =
     check_required_filters set_order query db_type (required_filters_by_table en) attempt max_attempts"

definition name_quote :: rx where
  "name_quote = opt (Cls (\<lambda>c. c = CHR 0x22 \<or> c = CHR 0x60))"

definition named_table :: "string \<Rightarrow> rx" where
  "named_table keyword = seqs [WordB, lit_ci keyword, spaces1, name_quote,
     opt (seqs [word1, name_quote, spaces, chr (CHR ''.''), spaces]), name_quote, Grp 1 word1, name_quote]"

definition mentioned_names :: "string list \<Rightarrow> string \<Rightarrow> string list" where
  "mentioned_names keywords query =
     concat (map (\<lambda>k. map (\<lambda>g. py_lower (grp 1 g)) (found_groups (named_table k) query)) keywords)"

text \<open>\<^verbatim>\<open>{t.name.lower(): t.name}\<close>: the last table of a name counts.\<close>

definition spelled :: "schema_info \<Rightarrow> string \<Rightarrow> string option" where
  "spelled schema t = map_of (rev (map (\<lambda>x. (py_lower (table_name x), table_name x)) (tables schema))) t"

fun keep_first :: "'a list \<Rightarrow> 'a list \<Rightarrow> 'a list" where
  "keep_first seen [] = []"
| "keep_first seen (x # xs) = (if x \<in> set seen then keep_first seen xs else x # keep_first (x # seen) xs)"

definition blank_line :: string where
  "blank_line = [CHR 0x0A, CHR 0x0A]"

definition get_query_tables_schema :: "schema_info \<Rightarrow> string \<Rightarrow> string option" where
  "get_query_tables_schema schema query =
    (let mentioned = keep_first [] (filter (\<lambda>t. spelled schema t \<noteq> None)
           (mentioned_names [''FROM'', ''JOIN'', ''INTO'', ''UPDATE''] query))
     in if mentioned = [] then None
        else Some (join_with blank_line (map (\<lambda>t. get_table_detail
          (case spelled schema t of Some s \<Rightarrow> s | None \<Rightarrow> t) schema) (take 5 mentioned))))"

definition get_distinct_values_for_query :: "enricher \<Rightarrow> string \<Rightarrow> string option" where
  "get_distinct_values_for_query en query =
    (let refs = mentioned_names [''FROM'', ''JOIN''] query;
         ls = concat (map (\<lambda>(t, cols).
           if py_lower t \<notin> set refs then []
           else concat (map (\<lambda>(c, vals).
             if search (seqs [WordB, lit (py_lower c), WordB]) (py_lower query) \<noteq> None
             then [''- '' @ t @ ''.'' @ c @ '': ['' @ join_with '' | '' (take 20 vals) @ '']''] else []) cols))
           (distinct_values en))
     in if ls = [] then None else Some (lines_of ls))"

definition get_error_schema_detail :: "schema_info \<Rightarrow> query_error \<Rightarrow> string option" where
  "get_error_schema_detail schema e =
    (if e_type e = TableNotFound then Some (list_all_tables_summary schema)
     else if e_type e \<in> {ColumnNotFound, AmbiguousColumn, TypeMismatch} then
       (let hints = map (\<lambda>t. get_table_detail t schema) (take 3 (e_tables e));
            hints = (if hints = [] then map (\<lambda>t. get_table_detail (table_name t) schema) (take 5 (tables schema))
              else hints)
        in if hints = [] then None else Some (join_with blank_line hints))
     else None)"

definition lookup_docs :: "(string \<Rightarrow> (rat option \<times> string) list option) \<Rightarrow> query_error \<Rightarrow> string option" where
  "lookup_docs store e =
    (let terms = map (\<lambda>c. ''column '' @ c) (take 2 (e_columns e)) @ map (\<lambda>t. ''table '' @ t) (take 2 (e_tables e));
         terms = (if terms = [] then [take 100 (e_message e)] else terms);
         found = concat (map (\<lambda>t. case store t of None \<Rightarrow> [] | Some ds \<Rightarrow> ds) (take 3 terms));
         docs = keep_first [] (map snd (filter (\<lambda>(dist, doc).
           (case dist of Some x \<Rightarrow> \<not> x > fl (7 / 10) | None \<Rightarrow> True) \<and> doc \<noteq> []) found))
     in if docs = [] then None else Some (join_with ([CHR 0x0A] @ ''---'' @ [CHR 0x0A]) (take 4 docs)))"

definition titled :: "string \<Rightarrow> string \<Rightarrow> string" where
  "titled title body = ''## '' @ title @ [CHR 0x0A] @ body"

definition optional_section :: "string \<Rightarrow> string option \<Rightarrow> string list" where
  "optional_section title body = (case body of Some (c # s) \<Rightarrow> [titled title (c # s)] | _ \<Rightarrow> [])"

definition attempt_line :: "query_attempt \<Rightarrow> string" where
  "attempt_line a =
    (let (t, m) = (case a_error a of Some e \<Rightarrow> (type_value (e_type e), e_message e) | None \<Rightarrow> (''ok'', ''OK''))
     in ''Attempt '' @ nat_digits (attempt_number a) @ '' ['' @ t @ '']: '' @ [CHR 0x60] @ take 500 (a_query a)
        @ [CHR 0x60] @ '' -> '' @ take 400 m)"

definition build_repair_context :: "enricher \<Rightarrow> query_error \<Rightarrow> string \<Rightarrow> string \<Rightarrow> query_attempt list \<Rightarrow> bool \<Rightarrow> string" where
  "build_repair_context en e question failed_query history has_project =
    (let schema = en_schema en;
         fence = [CHR 0x60, CHR 0x60, CHR 0x60];
         detail = (case get_error_schema_detail schema e of
           Some (c # s) \<Rightarrow> Some (c # s) | _ \<Rightarrow> get_query_tables_schema schema failed_query)
     in join_with blank_line (
       [titled ''Original Question'' question,
        titled ''Failed Query'' (fence @ ''sql'' @ [CHR 0x0A] @ failed_query @ [CHR 0x0A] @ fence),
        titled ''Error'' (lines_of [''Type: '' @ type_value (e_type e), ''Message: '' @ e_message e, ''Raw: '' @ e_raw e]),
        titled ''Repair Hints'' (get_repair_hints e schema)]
       @ optional_section ''Schema Excerpt'' (Some (e_hint e))
       @ optional_section ''Relevant Schema'' detail
       @ optional_section ''Data Format Warnings'' (Some (take 2000 (sync_context en)))
       @ optional_section ''Query Recommendations (from sync)'' (Some (take 1500 (sync_query_tips en)))
       @ optional_section ''Column Distinct Values'' (get_distinct_values_for_query en failed_query)
       @ optional_section ''Business Rules'' (Some (take 1000 (rules_context en)))
       @ optional_section ''Agent Learnings (past experience)'' (Some (learnings_context en))
       @ optional_section ''Database Index Hints'' (Some (db_index_context en))
       @ (case vector_store en of
            Some store \<Rightarrow> if has_project then optional_section ''Relevant Documentation'' (lookup_docs store e) else []
          | None \<Rightarrow> [])
       @ (if length history > 1
          then [lines_of (''## Previous Attempts (do NOT repeat these patterns)'' # map attempt_line (butlast history))]
          else [])))"

section \<open>The repair\<close>

datatype llm_reply = LlmRaised string | LlmReply "(string \<times> (string, pyval) odict) list" string

record repair_result =
  r_query :: pyval
  r_explanation :: pyval
  r_error :: "string option"

definition read_reply :: "llm_reply \<Rightarrow> repair_result" where
  "read_reply reply =
    (case reply of
       LlmRaised text \<Rightarrow> \<lparr>r_query = PStr [], r_explanation = PStr [], r_error = Some (''LLM repair failed: '' @ text)\<rparr>
     | LlmReply calls content \<Rightarrow>
       (case find (\<lambda>(name, args). name = ''execute_query'') calls of
          Some (name, args) \<Rightarrow>
            \<lparr>r_query = dict_get args ''query'' (PStr []), r_explanation = dict_get args ''explanation'' (PStr []),
             r_error = None\<rparr>
        | None \<Rightarrow> \<lparr>r_query = PStr [], r_explanation = PStr content,
            r_error = Some ''LLM repair did not produce a query tool call.''\<rparr>))"

definition repair_prompt :: "string \<Rightarrow> string" where
  "repair_prompt context = lines_of
     [''You are a SQL debugging expert. A query was generated to answer a user'' @ [CHR 0x27] @ ''s question but it failed.'',
      [], ''Your job:'', ''1. Analyze what went wrong'',
      ''2. Identify the root cause from the error and schema information'',
      ''3. Generate a CORRECTED query using the EXACT column and table names from the schema'',
      ''4. Call the '' @ [CHR 0x60] @ ''execute_query'' @ [CHR 0x60] @ '' tool with the fixed query'', [],
      ''CRITICAL: Use ONLY the exact column and table names shown in the schema. Do NOT guess names.'', [],
      context, []]"

text \<open>
  \<open>ask_model\<close> answers the n-th request of the loop, which consists of the system prompt and the
  database type (the chat history it also carries does not change during the loop).
\<close>

definition repair :: "(nat \<Rightarrow> string \<Rightarrow> string \<Rightarrow> llm_reply) \<Rightarrow> nat \<Rightarrow> string \<Rightarrow> string \<Rightarrow> repair_result" where
  "repair ask_model n context db_type = read_reply (ask_model n (repair_prompt context) db_type)"

end
