(* ===== verification/ValidationLoop.thy ===== *)
theory ValidationLoop
  imports QueryRepair Safety
begin

text \<open>
  \<^verbatim>\<open>backend/app/core/validation_loop.py\<close>: a query is checked against the schema, the required
  filters and the safety guard, dry-run, executed and checked again; a failure that is worth it
  leads to another attempt, with the same query after a lost connection and with a repaired one
  otherwise. The database, the language model and the vector store answer through parameters;
  what was sent to them is recorded in the loop's state. Progress events, timing and logging are
  left out. Exceptions the loop does not catch end it as an error value.
\<close>

section \<open>State and surroundings\<close>

text \<open>A call of the connector: its text and, for an execution, the time limit.\<close>

record db_call =
  call_text :: string
  call_timeout :: "int option"

record loop_env =
  cfg :: validation_config
  conn_read_only :: bool
  conn_db_type :: string
  loop_schema :: schema_info
  loop_enricher :: enricher
  question :: string
  has_project :: bool
  connector :: "db_call list \<Rightarrow> db_call \<Rightarrow> db_reply"
  ask_model :: "nat \<Rightarrow> string \<Rightarrow> string \<Rightarrow> llm_reply"
  json_of :: "string \<Rightarrow> json option"
  show_reason :: "reason \<Rightarrow> string"
  display :: py_display
  set_order :: "string list \<Rightarrow> string list"

record loop_state =
  cur_query :: string
  cur_explanation :: pyval
  attempts :: "query_attempt list"
  all_warnings :: "string list"
  calls :: "db_call list"
  model_calls :: nat
  pauses :: "rat list"

record loop_result =
  success :: bool
  res_query :: string
  res_explanation :: pyval
  results :: "pyval query_result option"
  res_attempts :: "query_attempt list"
  total_attempts :: nat
  final_error :: "query_error option"
  res_warnings :: "string list"

datatype loop_error = GuardError Safety.py_error | NotAText

type_synonym outcome = "loop_error + loop_result"

section \<open>Repairing\<close>

definition transient_retry_errors :: "query_error_type list" where
  "transient_retry_errors = [ConnectionError]"

definition max_timeout_repairs :: nat where
  "max_timeout_repairs = 1"

definition backoff :: "nat \<Rightarrow> rat" where
  "backoff n = min (1 / 2 * 2 ^ (n - 1)) 4"

definition is_repeatable_after_connection_loss :: "loop_env \<Rightarrow> string \<Rightarrow> Safety.py_error + bool" where
  "is_repeatable_after_connection_loss E query =
     (if conn_read_only E then Inr True
      else is_read_only_statement (json_of E) query (if conn_db_type E = [] then ''postgres'' else conn_db_type E))"

definition normalize_sql :: "string \<Rightarrow> string" where
  "normalize_sql query =
     py_lower (rstrip_by (\<lambda>c. c = CHR '' '' \<or> c = CHR '';'') (sub_by spaces1 (\<lambda>w g. '' '') (py_strip query)))"

definition is_timeout :: "query_attempt \<Rightarrow> bool" where
  "is_timeout a \<longleftrightarrow> (case a_error a of Some e \<Rightarrow> e_type e = Timeout | None \<Rightarrow> False)"

definition timeouts_seen :: "query_attempt list \<Rightarrow> nat" where
  "timeouts_seen as = length (filter is_timeout as)"

text \<open>The new query and its explanation, or nothing; and the state with what was asked and waited for.\<close>

definition try_repair :: "loop_env \<Rightarrow> query_error \<Rightarrow> nat \<Rightarrow> loop_state \<Rightarrow>
  (loop_error + (string \<times> pyval) option) \<times> loop_state" where
  "try_repair E e n s =
    (if \<not> should_retry e n (max_retries (cfg E)) then (Inr None, s)
     else if e_type e = Timeout \<and> timeouts_seen (attempts s) > max_timeout_repairs then (Inr None, s)
     else if e_type e \<in> set transient_retry_errors then
       (case is_repeatable_after_connection_loss E (cur_query s) of
          Inl x \<Rightarrow> (Inl (GuardError x), s)
        | Inr False \<Rightarrow> (Inr None, s)
        | Inr True \<Rightarrow> (Inr (Some (cur_query s, cur_explanation s)), s\<lparr>pauses := pauses s @ [backoff n]\<rparr>))
     else
       (let context = build_repair_context (loop_enricher E) e (question E) (cur_query s) (attempts s) (has_project E);
            r = repair (ask_model E) (model_calls s) context (conn_db_type E);
            s' = s\<lparr>model_calls := Suc (model_calls s)\<rparr>
        in if (r_error r \<noteq> None \<and> r_error r \<noteq> Some []) \<or> \<not> truthy (r_query r) then (Inr None, s')
           else case r_query r of
             PStr q \<Rightarrow>
               (if normalize_sql q \<in> set (map (\<lambda>a. normalize_sql (a_query a)) (attempts s) @ [normalize_sql (cur_query s)])
                then (Inr None, s')
                else (Inr (Some (q, r_explanation r)), s'))
           | _ \<Rightarrow> (Inl NotAText, s')))"

section \<open>One attempt\<close>

definition fail :: "loop_state \<Rightarrow> query_error option \<Rightarrow> loop_result" where
  "fail s e = \<lparr>success = False, res_query = cur_query s, res_explanation = cur_explanation s, results = None,
     res_attempts = attempts s, total_attempts = length (attempts s), final_error = e, res_warnings = all_warnings s\<rparr>"

definition succeed :: "loop_state \<Rightarrow> pyval query_result \<Rightarrow> nat \<Rightarrow> string list \<Rightarrow> loop_result" where
  "succeed s r n extra = \<lparr>success = True, res_query = cur_query s, res_explanation = cur_explanation s, results = Some r,
     res_attempts = attempts s, total_attempts = n, final_error = None, res_warnings = all_warnings s @ extra\<rparr>"

definition empty_success :: "loop_state \<Rightarrow> pyval query_result \<Rightarrow> nat \<Rightarrow> loop_result" where
  "empty_success s r n = succeed s r n
     [''Query returned 0 rows after exhausting empty-result retries; treating zero as the answer.'']"

definition new_attempt :: "nat \<Rightarrow> loop_state \<Rightarrow> query_attempt" where
  "new_attempt n s = \<lparr>attempt_number = n, a_query = cur_query s, a_explanation = cur_explanation s,
     a_error = None, a_results = None\<rparr>"

text \<open>
  A failed attempt is logged; then the query is repaired, or the loop ends (\<open>ending\<close> is what it
  ends with).
\<close>

definition log_attempt :: "query_attempt \<Rightarrow> loop_state \<Rightarrow> loop_state" where
  "log_attempt a s = s\<lparr>attempts := attempts s @ [a]\<rparr>"

definition repair_or_end :: "loop_env \<Rightarrow> nat \<Rightarrow> query_attempt \<Rightarrow> query_error \<Rightarrow> (loop_state \<Rightarrow> loop_result) \<Rightarrow>
  loop_state \<Rightarrow> outcome option \<times> loop_state" where
  "repair_or_end E n a e ending s =
    (case try_repair E e n (log_attempt (a\<lparr>a_error := Some e\<rparr>) s) of
       (Inl x, t) \<Rightarrow> (Some (Inl x), t)
     | (Inr None, t) \<Rightarrow> (Some (Inr (ending t)), t)
     | (Inr (Some (q, x)), t) \<Rightarrow> (None, t\<lparr>cur_query := q, cur_explanation := x\<rparr>))"

definition add_warnings :: "string list \<Rightarrow> loop_state \<Rightarrow> loop_state" where
  "add_warnings ws s = s\<lparr>all_warnings := all_warnings s @ ws\<rparr>"

definition optional_warning :: "string option \<Rightarrow> string list" where
  "optional_warning w = (case w of Some (c # s) \<Rightarrow> [c # s] | _ \<Rightarrow> [])"

definition send :: "loop_env \<Rightarrow> db_call \<Rightarrow> loop_state \<Rightarrow> db_reply \<times> loop_state" where
  "send E c s = (connector E (calls s) c, s\<lparr>calls := calls s @ [c]\<rparr>)"

definition safety_level_of :: "loop_env \<Rightarrow> safety_level" where
  "safety_level_of E = (if conn_read_only E then ReadOnly else AllowDml)"

definition guard :: "loop_env \<Rightarrow> string \<Rightarrow> Safety.py_error + safety_result" where
  "guard E q = validate (json_of E) (safety_level_of E) q (conn_db_type E)"

definition blocked :: "loop_env \<Rightarrow> reason \<Rightarrow> query_error" where
  "blocked E r = \<lparr>e_type = PermissionDenied, e_message = ''Blocked: '' @ show_reason E r, e_raw = show_reason E r,
     e_retryable = False, e_tables = [], e_columns = [], e_hint = []\<rparr>"

definition give_up :: "query_error \<Rightarrow> loop_state \<Rightarrow> loop_result" where
  "give_up e s = fail s (Some e)"

definition execute_and_check :: "loop_env \<Rightarrow> nat \<Rightarrow> query_attempt \<Rightarrow> loop_state \<Rightarrow> outcome option \<times> loop_state" where
  "execute_and_check E n a s =
    (case send E \<lparr>call_text = cur_query s, call_timeout = Some (query_timeout_seconds (cfg E))\<rparr> s of
       (Raised text, t) \<Rightarrow>
         (let e = classify text (conn_db_type E) None in repair_or_end E n a e (give_up e) t)
     | (Replied r, t) \<Rightarrow>
         (let a = a\<lparr>a_results := Some r\<rparr>; post = post_validate r (loop_schema E) (cfg E)
          in case refusal post of
               Some e \<Rightarrow> repair_or_end E n a e
                 (\<lambda>u. if e_type e = EmptyResult then empty_success u r n else give_up e u) t
             | None \<Rightarrow>
               (let u = log_attempt a (add_warnings (v_warnings post) t)
                in (Some (Inr (succeed u r n [])), u))))"

definition dry_run :: "loop_env \<Rightarrow> nat \<Rightarrow> query_attempt \<Rightarrow> loop_state \<Rightarrow> outcome option \<times> loop_state" where
  "dry_run E n a s =
    (if \<not> enable_explain (cfg E) then execute_and_check E n a s
     else let db = schema_db_type (loop_schema E);
          v = explain_validate (display E) (explain_row_warning_threshold (cfg E))
                (\<lambda>q. fst (send E \<lparr>call_text = q, call_timeout = None\<rparr> s)) (cur_query s) db;
          t = (if mongo_type db then s else case build_explain_query (cur_query s) db of
                 None \<Rightarrow> s | Some q \<Rightarrow> snd (send E \<lparr>call_text = q, call_timeout = None\<rparr> s))
      in case refusal v of
           Some e \<Rightarrow> repair_or_end E n a e (give_up e) t
         | None \<Rightarrow> execute_and_check E n a (add_warnings (v_warnings v) t))"

definition check_safety :: "loop_env \<Rightarrow> nat \<Rightarrow> query_attempt \<Rightarrow> loop_state \<Rightarrow> outcome option \<times> loop_state" where
  "check_safety E n a s =
    (case guard E (cur_query s) of
       Inl x \<Rightarrow> (Some (Inl (GuardError x)), s)
     | Inr r \<Rightarrow>
       (if is_safe r then dry_run E n a s
        else let t = log_attempt (a\<lparr>a_error := Some (blocked E (why r))\<rparr>) s
          in (Some (Inr (give_up (blocked E (why r)) t)), t)))"

definition check_filters :: "loop_env \<Rightarrow> nat \<Rightarrow> query_attempt \<Rightarrow> loop_state \<Rightarrow> outcome option \<times> loop_state" where
  "check_filters E n a s =
    (let v = validate_required_filters (set_order E) (loop_enricher E) (cur_query s)
           (schema_db_type (loop_schema E)) n (max_retries (cfg E))
     in case refusal v of
          Some e \<Rightarrow> repair_or_end E n a e (give_up e) s
        | None \<Rightarrow> check_safety E n a (add_warnings (optional_warning (v_warning v) @ v_warnings v) s))"

definition attempt :: "loop_env \<Rightarrow> nat \<Rightarrow> loop_state \<Rightarrow> outcome option \<times> loop_state" where
  "attempt E n s =
    (let a = new_attempt n s
     in if \<not> enable_schema_validation (cfg E) then check_filters E n a s
        else let v = pre_validate (loop_schema E) (cur_query s) (schema_db_type (loop_schema E))
          in case refusal v of
               Some e \<Rightarrow> repair_or_end E n a e (give_up e) s
             | None \<Rightarrow> check_filters E n a (add_warnings (v_warnings v) s))"

definition start :: "string \<Rightarrow> pyval \<Rightarrow> loop_state" where
  "start query explanation = \<lparr>cur_query = query, cur_explanation = explanation, attempts = [], all_warnings = [],
     calls = [], model_calls = 0, pauses = []\<rparr>"

definition last_error :: "query_attempt list \<Rightarrow> query_error option" where
  "last_error as = (if as = [] then None else a_error (last as))"

definition run_loop :: "loop_env \<Rightarrow> string \<Rightarrow> pyval \<Rightarrow> outcome \<times> loop_state" where
  "run_loop E query explanation =
    (case for_rounds (attempt E) 1 (max_retries (cfg E)) (start query explanation) of
       (Some r, s) \<Rightarrow> (r, s)
     | (None, s) \<Rightarrow> (Inr (fail s (last_error (attempts s))), s))"

end
