(* ===== verification/ValidationRuns.thy ===== *)
theory ValidationRuns
  imports ValidationLoop
begin

text \<open>
  Runs of the query loop of \<open>ValidationLoop\<close>: what one attempt can do, the invariant the rounds
  keep, and what holds when the loop ends.
\<close>

section \<open>One attempt\<close>

definition admitted :: "loop_env \<Rightarrow> string \<Rightarrow> bool" where
  "admitted E q \<longleftrightarrow> (\<exists>r. guard E q = Inr r \<and> is_safe r)"

definition run_call :: "loop_env \<Rightarrow> string \<Rightarrow> db_call" where
  "run_call E q = \<lparr>call_text = q, call_timeout = Some (query_timeout_seconds (cfg E))\<rparr>"

definition dry_call :: "string \<Rightarrow> db_call" where
  "dry_call q = \<lparr>call_text = q, call_timeout = None\<rparr>"

definition dry_calls :: "loop_env \<Rightarrow> string \<Rightarrow> db_call list \<Rightarrow> bool" where
  "dry_calls E q d \<longleftrightarrow> d = [] \<or>
     (\<exists>x. build_explain_query q (schema_db_type (loop_schema E)) = Some x \<and> d = [dry_call x])"

text \<open>The calls of one attempt: a dry run, perhaps, then an execution, perhaps, of an admitted query.\<close>

definition sends :: "loop_env \<Rightarrow> string \<Rightarrow> db_call list \<Rightarrow> bool" where
  "sends E q w \<longleftrightarrow> w = [] \<or> admitted E q \<and> (\<exists>d. dry_calls E q d \<and> (w = d \<or> w = d @ [run_call E q]))"

definition filters_of :: "loop_env \<Rightarrow> nat \<Rightarrow> string \<Rightarrow> validation_result" where
  "filters_of E n q = validate_required_filters (set_order E) (loop_enricher E) q
     (schema_db_type (loop_schema E)) n (max_retries (cfg E))"

text \<open>The required filters are met, or the warnings say which are not.\<close>

definition filters_passed :: "loop_env \<Rightarrow> nat \<Rightarrow> string \<Rightarrow> string list \<Rightarrow> bool" where
  "filters_passed E n q ws \<longleftrightarrow> refusal (filters_of E n q) = None \<and>
     set (optional_warning (v_warning (filters_of E n q))) \<subseteq> set ws"

definition checked :: "loop_env \<Rightarrow> nat \<Rightarrow> string \<Rightarrow> string list \<Rightarrow> bool" where
  "checked E n q ws \<longleftrightarrow> admitted E q \<and> filters_passed E n q ws"

definition grown :: "string list \<Rightarrow> db_call list \<Rightarrow> loop_state \<Rightarrow> loop_state" where
  "grown ws w s = s\<lparr>all_warnings := all_warnings s @ ws, calls := calls s @ w\<rparr>"

definition post_of :: "loop_env \<Rightarrow> pyval query_result \<Rightarrow> query_error option" where
  "post_of E r = refusal (post_validate r (loop_schema E) (cfg E))"

text \<open>What a failed attempt may end the loop with.\<close>

definition ends_with :: "loop_env \<Rightarrow> nat \<Rightarrow> string \<Rightarrow> string list \<Rightarrow> db_call list \<Rightarrow> query_error \<Rightarrow>
  (loop_state \<Rightarrow> loop_result) \<Rightarrow> bool" where
  "ends_with E n q ws w e ending \<longleftrightarrow> (\<forall>u. ending u = give_up e u) \<or>
     (\<exists>r. e_type e = EmptyResult \<and> post_of E r = Some e \<and> checked E n q ws \<and> run_call E q \<in> set w \<and>
       (\<forall>u. ending u = empty_success u r n))"

inductive ended :: "loop_env \<Rightarrow> nat \<Rightarrow> loop_state \<Rightarrow> outcome option \<times> loop_state \<Rightarrow> bool"
  for E n s where
  failed: "sends E (cur_query s) w \<Longrightarrow> a_query a = cur_query s \<Longrightarrow> attempt_number a = n \<Longrightarrow>
    ends_with E n (cur_query s) ws w e ending \<Longrightarrow>
    ended E n s (repair_or_end E n a e ending (grown ws w s))"
| refused: "guard E (cur_query s) = Inr r \<Longrightarrow> \<not> is_safe r \<Longrightarrow>
    t = log_attempt ((new_attempt n s)\<lparr>a_error := Some (blocked E (why r))\<rparr>) (grown ws [] s) \<Longrightarrow>
    ended E n s (Some (Inr (give_up (blocked E (why r)) t)), t)"
| raised: "guard E (cur_query s) = Inl x \<Longrightarrow> ended E n s (Some (Inl (GuardError x)), grown ws [] s)"
| answered: "sends E (cur_query s) w \<Longrightarrow> run_call E (cur_query s) \<in> set w \<Longrightarrow> checked E n (cur_query s) ws \<Longrightarrow>
    post_of E r = None \<Longrightarrow>
    t = log_attempt ((new_attempt n s)\<lparr>a_results := Some r\<rparr>) (grown ws w s) \<Longrightarrow>
    ended E n s (Some (Inr (succeed t r n [])), t)"

lemma grown_simps [simp]:
  "cur_query (grown ws w s) = cur_query s" "cur_explanation (grown ws w s) = cur_explanation s"
  "attempts (grown ws w s) = attempts s" "calls (grown ws w s) = calls s @ w"
  "all_warnings (grown ws w s) = all_warnings s @ ws" "model_calls (grown ws w s) = model_calls s"
  "pauses (grown ws w s) = pauses s"
  "add_warnings vs (grown ws w s) = grown (ws @ vs) w s"
  "(grown ws w s)\<lparr>calls := calls s @ w @ v\<rparr> = grown ws (w @ v) s"
  by (simp_all add: grown_def add_warnings_def)

lemma grown_start: "add_warnings ws s = grown ws [] s"
  by (simp_all add: grown_def add_warnings_def)

lemma grown_nothing: "grown [] [] s = s"
  by (simp add: grown_def)

lemma send_grown [simp]:
  "send E c (grown ws w s) = (connector E (calls s @ w) c, grown ws (w @ [c]) s)"
  by (simp add: send_def)

lemma new_attempt_simps [simp]:
  "a_query (new_attempt n s) = cur_query s" "attempt_number (new_attempt n s) = n"
  by (simp_all add: new_attempt_def)

lemma checked_more: "checked E n q ws \<Longrightarrow> checked E n q (ws @ vs)"
  by (auto simp: checked_def filters_passed_def)

lemma execution_ended:
  assumes "dry_calls E (cur_query s) d" and "checked E n (cur_query s) ws"
  shows "ended E n s (execute_and_check E n (new_attempt n s) (grown ws d s))"
proof -
  let ?q = "cur_query s"
  let ?w = "d @ [run_call E ?q]"
  have sent: "sends E ?q ?w" using assms by (auto simp: sends_def checked_def)
  have call: "\<lparr>call_text = ?q, call_timeout = Some (query_timeout_seconds (cfg E))\<rparr> = run_call E ?q"
    by (simp add: run_call_def)
  show ?thesis
  proof (cases "connector E (calls s @ d) (run_call E ?q)")
    case (Raised msg)
    then show ?thesis
      unfolding execute_and_check_def
      by (simp add: call Let_def) (rule failed [OF sent], simp_all add: ends_with_def)
  next
    case (Replied r)
    show ?thesis
    proof (cases "post_of E r")
      case None
      let ?ws = "ws @ v_warnings (post_validate r (loop_schema E) (cfg E))"
      have "ended E n s (Some (Inr (succeed t r n [])), t)"
        if "t = log_attempt ((new_attempt n s)\<lparr>a_results := Some r\<rparr>) (grown ?ws ?w s)" for t
        by (rule answered [OF sent _ checked_more [OF assms(2)] None that]) simp
      then show ?thesis using Replied None
        unfolding execute_and_check_def by (simp add: call Let_def post_of_def)
    next
      case (Some e)
      have "ends_with E n ?q ws ?w e (\<lambda>u. if e_type e = EmptyResult then empty_success u r n else give_up e u)"
        using Some assms(2) by (auto simp: ends_with_def)
      then show ?thesis using Replied Some
        unfolding execute_and_check_def
        by (simp add: call Let_def post_of_def) (rule failed [OF sent], simp_all)
    qed
  qed
qed

lemma dry_run_ended:
  assumes "checked E n (cur_query s) ws"
  shows "ended E n s (dry_run E n (new_attempt n s) (grown ws [] s))"
proof -
  let ?q = "cur_query s" and ?db = "schema_db_type (loop_schema E)"
  have plain: "ended E n s (execute_and_check E n (new_attempt n s) (grown ws' d s))"
    if "dry_calls E ?q d" "set ws \<subseteq> set ws'" for d ws'
    using that assms by (intro execution_ended) (auto simp: checked_def filters_passed_def)
  have fault: "ended E n s (repair_or_end E n (new_attempt n s) e (give_up e) (grown ws d s))"
    if "dry_calls E ?q d" for d e
    using that assms by (intro failed) (auto simp: sends_def checked_def ends_with_def)
  define v where "v = explain_validate (display E) (explain_row_warning_threshold (cfg E))
    (\<lambda>q. fst (send E \<lparr>call_text = q, call_timeout = None\<rparr> (grown ws [] s))) ?q ?db"
  define t where "t = (if mongo_type ?db then grown ws [] s else case build_explain_query ?q ?db of
    None \<Rightarrow> grown ws [] s | Some q \<Rightarrow> snd (send E \<lparr>call_text = q, call_timeout = None\<rparr> (grown ws [] s)))"
  obtain d where d: "dry_calls E ?q d" "t = grown ws d s"
  proof (cases "mongo_type ?db \<or> build_explain_query ?q ?db = None")
    case True
    then have "t = grown ws [] s" by (auto simp: t_def)
    then show thesis by (rule that [rotated]) (simp add: dry_calls_def)
  next
    case False
    then obtain x where "build_explain_query ?q ?db = Some x" by auto
    moreover from this False have "t = grown ws [dry_call x] s" by (simp add: t_def dry_call_def)
    ultimately show thesis by (intro that [of "[dry_call x]"]) (simp_all add: dry_calls_def)
  qed
  have "dry_run E n (new_attempt n s) (grown ws [] s) =
    (if \<not> enable_explain (cfg E) then execute_and_check E n (new_attempt n s) (grown ws [] s)
     else case refusal v of
       Some e \<Rightarrow> repair_or_end E n (new_attempt n s) e (give_up e) t
     | None \<Rightarrow> execute_and_check E n (new_attempt n s) (add_warnings (v_warnings v) t))"
    unfolding dry_run_def v_def t_def Let_def grown_simps(1) by (rule refl)
  then show ?thesis
    using plain [of "[]" ws] plain [OF d(1), of "ws @ v_warnings v"] fault [OF d(1)]
    by (auto simp: d(2) dry_calls_def split: option.split)
qed

lemma safety_ended:
  assumes "filters_passed E n (cur_query s) ws"
  shows "ended E n s (check_safety E n (new_attempt n s) (grown ws [] s))"
proof (cases "guard E (cur_query s)")
  case (Inl x)
  then show ?thesis by (simp add: check_safety_def) (rule raised)
next
  case (Inr r)
  show ?thesis
  proof (cases "is_safe r")
    case True
    with Inr assms show ?thesis
      by (simp add: check_safety_def) (rule dry_run_ended, simp add: checked_def admitted_def)
  next
    case False
    with Inr show ?thesis by (simp add: check_safety_def Let_def) (rule refused, simp_all)
  qed
qed

lemma filters_ended: "ended E n s (check_filters E n (new_attempt n s) (grown ws [] s))"
proof (cases "refusal (filters_of E n (cur_query s))")
  case None
  let ?v = "filters_of E n (cur_query s)"
  have "filters_passed E n (cur_query s) (ws @ optional_warning (v_warning ?v) @ v_warnings ?v)"
    using None by (auto simp: filters_passed_def)
  then have "ended E n s (check_safety E n (new_attempt n s)
      (grown (ws @ optional_warning (v_warning ?v) @ v_warnings ?v) [] s))"
    by (rule safety_ended)
  then show ?thesis using None by (simp add: check_filters_def Let_def filters_of_def)
next
  case (Some e)
  have "ended E n s (repair_or_end E n (new_attempt n s) e (give_up e) (grown ws [] s))"
    by (rule failed) (simp_all add: sends_def ends_with_def)
  with Some show ?thesis by (simp add: check_filters_def Let_def filters_of_def)
qed

lemma attempt_ended: "ended E n s (attempt E n s)"
proof -
  let ?v = "pre_validate (loop_schema E) (cur_query s) (schema_db_type (loop_schema E))"
  have start: "check_filters E n (new_attempt n s) s = check_filters E n (new_attempt n s) (grown [] [] s)"
    "\<And>e. repair_or_end E n (new_attempt n s) e (give_up e) s
      = repair_or_end E n (new_attempt n s) e (give_up e) (grown [] [] s)"
    unfolding grown_nothing by (rule refl)+
  have fault: "ended E n s (repair_or_end E n (new_attempt n s) e (give_up e) (grown [] [] s))" for e
    by (rule failed) (simp_all add: sends_def ends_with_def)
  show ?thesis
    unfolding attempt_def Let_def
    by (auto simp: start grown_start filters_ended fault split: option.split)
qed

section \<open>Repairs\<close>

definition repeatable :: "loop_env \<Rightarrow> string \<Rightarrow> bool" where
  "repeatable E q \<longleftrightarrow> is_repeatable_after_connection_loss E q = Inr True"

definition failed_as :: "query_error_type \<Rightarrow> query_attempt \<Rightarrow> bool" where
  "failed_as t a \<longleftrightarrow> (\<exists>e. a_error a = Some e \<and> e_type e = t)"

text \<open>What may be tried after some attempts: the last query again, or one that is new.\<close>

definition follows :: "loop_env \<Rightarrow> query_attempt list \<Rightarrow> string \<Rightarrow> bool" where
  "follows E as q \<longleftrightarrow>
     a_query (last as) = q \<and> failed_as ConnectionError (last as) \<and> repeatable E q \<or>
     (\<forall>a \<in> set as. normalize_sql (a_query a) \<noteq> normalize_sql q)"

inductive history :: "loop_env \<Rightarrow> query_attempt list \<Rightarrow> bool" for E where
  nothing: "history E []"
| first: "history E [a]"
| another: "history E as \<Longrightarrow> follows E as (a_query a) \<Longrightarrow> history E (as @ [a])"

lemma try_repair_effect:
  assumes "try_repair E e n s = (r, t)"
  shows "attempts t = attempts s \<and> calls t = calls s \<and> cur_query t = cur_query s \<and> all_warnings t = all_warnings s \<and>
    model_calls t \<le> model_calls s + (if n < max_retries (cfg E) then 1 else 0) \<and>
    (pauses t = pauses s \<or> n < max_retries (cfg E) \<and> pauses t = pauses s @ [backoff n])"
  using assms unfolding try_repair_def Let_def
  by (auto simp: should_retry_iff split: if_splits sum.splits bool.splits pyval.splits)

lemma try_repair_again:
  assumes "try_repair E e n s = (Inr (Some (q, x)), t)"
  shows "n < max_retries (cfg E) \<and> (e_type e = Timeout \<longrightarrow> timeouts_seen (attempts s) \<le> 1) \<and>
    (q = cur_query s \<and> e_type e = ConnectionError \<and> repeatable E q \<or>
     normalize_sql q \<notin> (\<lambda>a. normalize_sql (a_query a)) ` set (attempts s))"
  using assms unfolding try_repair_def Let_def repeatable_def
  by (auto simp: should_retry_iff transient_retry_errors_def max_timeout_repairs_def
      split: if_splits sum.splits bool.splits pyval.splits)

lemma log_attempt_simps [simp]:
  "attempts (log_attempt a s) = attempts s @ [a]" "cur_query (log_attempt a s) = cur_query s"
  "calls (log_attempt a s) = calls s" "model_calls (log_attempt a s) = model_calls s"
  "pauses (log_attempt a s) = pauses s" "all_warnings (log_attempt a s) = all_warnings s"
  by (simp_all add: log_attempt_def)

lemma repair_or_end_effect:
  assumes "repair_or_end E n a e ending s = (r, t)"
  shows "attempts t = attempts s @ [a\<lparr>a_error := Some e\<rparr>] \<and> calls t = calls s \<and> all_warnings t = all_warnings s \<and>
    model_calls t \<le> model_calls s + (if n < max_retries (cfg E) then 1 else 0) \<and>
    (pauses t = pauses s \<or> n < max_retries (cfg E) \<and> pauses t = pauses s @ [backoff n])"
proof -
  obtain x u where u: "try_repair E e n (log_attempt (a\<lparr>a_error := Some e\<rparr>) s) = (x, u)" by fastforce
  from try_repair_effect [OF u] assms u show ?thesis
    by (auto simp: repair_or_end_def split: sum.splits option.splits)
qed

lemma repair_or_end_result:
  assumes "repair_or_end E n a e ending s = (Some r, t)"
  shows "(\<exists>x. r = Inl x) \<or> r = Inr (ending t) \<and> cur_query t = cur_query s"
proof -
  obtain x u where u: "try_repair E e n (log_attempt (a\<lparr>a_error := Some e\<rparr>) s) = (x, u)" by fastforce
  from try_repair_effect [OF u] assms u show ?thesis
    by (auto simp: repair_or_end_def split: sum.splits option.splits)
qed

lemma repair_or_end_again:
  assumes "repair_or_end E n a e ending s = (None, t)" and "a_query a = cur_query s"
  shows "n < max_retries (cfg E) \<and> follows E (attempts t) (cur_query t) \<and>
    (e_type e = Timeout \<longrightarrow> timeouts_seen (attempts t) \<le> 1)"
proof -
  let ?s = "log_attempt (a\<lparr>a_error := Some e\<rparr>) s"
  obtain x u where u: "try_repair E e n ?s = (x, u)" by fastforce
  with assms(1) obtain q y where x: "x = Inr (Some (q, y))" and t: "t = u\<lparr>cur_query := q, cur_explanation := y\<rparr>"
    by (auto simp: repair_or_end_def split: sum.splits option.splits)
  have "attempts t = attempts s @ [a\<lparr>a_error := Some e\<rparr>]" "cur_query t = q"
    using try_repair_effect [OF u] by (simp_all add: t)
  with try_repair_again [OF u [unfolded x]] assms(2) show ?thesis
    by (auto simp: follows_def failed_as_def image_iff)
qed

section \<open>The invariant\<close>

definition allowed :: "loop_env \<Rightarrow> db_call \<Rightarrow> bool" where
  "allowed E c \<longleftrightarrow> (\<exists>q. admitted E q \<and>
     (c = run_call E q \<or> (\<exists>x. build_explain_query q (schema_db_type (loop_schema E)) = Some x \<and> c = dry_call x)))"

definition executed_texts :: "db_call list \<Rightarrow> string list" where
  "executed_texts cs = map call_text (filter (\<lambda>c. call_timeout c \<noteq> None) cs)"

definition in_bounds :: "loop_env \<Rightarrow> nat \<Rightarrow> loop_state \<Rightarrow> bool" where
  "in_bounds E n s \<longleftrightarrow> history E (attempts s) \<and> length (attempts s) \<le> n \<and> timeouts_seen (attempts s) \<le> 2 \<and>
     (\<forall>c \<in> set (calls s). allowed E c) \<and> length (calls s) \<le> 2 * n \<and>
     subseq (executed_texts (calls s)) (map a_query (attempts s)) \<and>
     model_calls s \<le> min n (max_retries (cfg E) - 1) \<and> length (pauses s) \<le> min n (max_retries (cfg E) - 1) \<and>
     (\<forall>p \<in> set (pauses s). p \<le> 4)"

definition loop_inv :: "loop_env \<Rightarrow> nat \<Rightarrow> loop_state \<Rightarrow> bool" where
  "loop_inv E n s \<longleftrightarrow> 0 < n \<and> in_bounds E (n - 1) s \<and> length (attempts s) = n - 1 \<and> timeouts_seen (attempts s) \<le> 1 \<and>
     (n = 1 \<or> n \<le> max_retries (cfg E) \<and> follows E (attempts s) (cur_query s))"

lemma executed_append: "executed_texts (xs @ ys) = executed_texts xs @ executed_texts ys"
  by (simp add: executed_texts_def)

lemma sends_effect:
  assumes "sends E q w"
  shows "(\<forall>c \<in> set w. allowed E c) \<and> length w \<le> 2 \<and> subseq (executed_texts w) [q]"
  using assms
  by (auto simp: sends_def dry_calls_def allowed_def executed_texts_def run_call_def dry_call_def)

lemma timeouts_append: "timeouts_seen (as @ [a]) \<le> Suc (timeouts_seen as)"
  by (simp add: timeouts_seen_def)

lemma history_next:
  assumes "loop_inv E n s" and "a_query a = cur_query s"
  shows "history E (attempts s @ [a])"
proof (cases "n = 1")
  case True
  with assms(1) show ?thesis by (simp add: loop_inv_def history.first)
next
  case False
  with assms show ?thesis by (auto simp: loop_inv_def in_bounds_def intro: history.another)
qed

lemma backoff_le: "backoff n \<le> 4"
  by (simp add: backoff_def)

text \<open>Whatever an attempt appends keeps the bounds.\<close>

lemma bounds_grow:
  assumes inv: "loop_inv E n s" and n: "n \<le> max_retries (cfg E)"
    and logged: "attempts t = attempts s \<and> w = [] \<or> attempts t = attempts s @ [a] \<and> a_query a = cur_query s"
    and w: "sends E (cur_query s) w" "calls t = calls s @ w"
    and m: "model_calls t \<le> model_calls s + (if n < max_retries (cfg E) then 1 else 0)"
    and p: "pauses t = pauses s \<or> n < max_retries (cfg E) \<and> pauses t = pauses s @ [backoff n]"
  shows "in_bounds E n t"
proof -
  have old: "in_bounds E (n - 1) s" and pos: "0 < n" and len: "length (attempts s) = n - 1"
    and tm: "timeouts_seen (attempts s) \<le> 1"
    using inv by (auto simp: loop_inv_def)
  have "history E (attempts t)" using logged old history_next [OF inv, of a] by (auto simp: in_bounds_def)
  moreover have "length (attempts t) \<le> n" using logged len pos by auto
  moreover have "timeouts_seen (attempts t) \<le> 2"
    using logged tm timeouts_append [of "attempts s" a] by auto
  moreover have "\<forall>c \<in> set (calls t). allowed E c" using old sends_effect [OF w(1)] w(2) by (auto simp: in_bounds_def)
  moreover have "length (calls t) \<le> 2 * n" using old sends_effect [OF w(1)] w(2) pos by (auto simp: in_bounds_def)
  moreover have "subseq (executed_texts (calls t)) (map a_query (attempts t))"
    using old sends_effect [OF w(1)] logged
    by (auto simp: in_bounds_def w(2) executed_append list_emb_append_mono) (simp add: executed_texts_def)
  moreover have "model_calls t \<le> min n (max_retries (cfg E) - 1)" "length (pauses t) \<le> min n (max_retries (cfg E) - 1)"
    using old m p pos n by (auto simp: in_bounds_def split: if_splits)
  moreover have "\<forall>x \<in> set (pauses t). x \<le> 4" using old p backoff_le by (auto simp: in_bounds_def)
  ultimately show ?thesis by (simp add: in_bounds_def)
qed

lemma ended_in_bounds:
  assumes "ended E n s (r, t)" and inv: "loop_inv E n s" and n: "n \<le> max_retries (cfg E)"
  shows "in_bounds E n t"
  using assms(1)
proof cases
  case (failed w a ws e ending)
  from repair_or_end_effect [OF failed(1) [symmetric]] show ?thesis
    by (intro bounds_grow [OF inv n, of t w "a\<lparr>a_error := Some e\<rparr>"]) (use failed in auto)
next
  case (refused q ws)
  then show ?thesis
    by (intro bounds_grow [OF inv n, of t "[]"]) (auto simp: sends_def)
next
  case (raised x ws)
  then show ?thesis
    by (intro bounds_grow [OF inv n, of t "[]"]) (auto simp: sends_def)
next
  case (answered w ws x)
  then show ?thesis
    by (intro bounds_grow [OF inv n, of t w "(new_attempt n s)\<lparr>a_results := Some x\<rparr>"]) auto
qed

lemma timeouts_log:
  "timeouts_seen (as @ [a\<lparr>a_error := Some e\<rparr>]) \<le> timeouts_seen as + (if e_type e = Timeout then 1 else 0)"
  by (simp add: timeouts_seen_def is_timeout_def)

lemma attempt_keeps:
  assumes inv: "loop_inv E n s" and n: "n \<le> max_retries (cfg E)" and "attempt E n s = (None, t)"
  shows "loop_inv E (Suc n) t"
proof -
  have e: "ended E n s (None, t)" using attempt_ended [of E n s] assms(3) by simp
  have old: "length (attempts s) = n - 1" "0 < n" "timeouts_seen (attempts s) \<le> 1"
    using inv by (auto simp: loop_inv_def)
  from e show ?thesis
  proof cases
    case (failed w a ws e ending)
    have call: "repair_or_end E n a e ending (grown ws w s) = (None, t)" using failed(1) by simp
    have again: "n < max_retries (cfg E)" "follows E (attempts t) (cur_query t)"
      "e_type e = Timeout \<longrightarrow> timeouts_seen (attempts t) \<le> 1"
      using repair_or_end_again [OF call] failed by auto
    have as: "attempts t = attempts s @ [a\<lparr>a_error := Some e\<rparr>]" using repair_or_end_effect [OF call] by simp
    have "timeouts_seen (attempts t) \<le> 1"
      using again(3) timeouts_log [of "attempts s" e a] old(3) by (cases "e_type e = Timeout") (auto simp: as)
    then show ?thesis
      using again as old ended_in_bounds [OF e inv n] by (simp add: loop_inv_def)
  qed
qed

interpretation rounds: counted_loop "attempt E" "max_retries (cfg E)" "loop_inv E" for E
  by unfold_locales (rule attempt_keeps)

lemma start_inv: "loop_inv E 1 (start q x)"
  by (simp add: loop_inv_def in_bounds_def start_def timeouts_seen_def executed_texts_def history.nothing)

text \<open>
  A run ends in one of its rounds: running out of rounds without an answer needs a loop that may
  not make a single attempt.
\<close>

lemma run_loop_ends:
  assumes "run_loop E q x = (r, s)"
  obtains (round) n u where "1 \<le> n" "n \<le> max_retries (cfg E)" "loop_inv E n u" "ended E n u (Some r, s)"
    | (none) "max_retries (cfg E) = 0" "s = start q x" "r = Inr (fail s None)"
proof (cases "for_rounds (attempt E) 1 (max_retries (cfg E)) (start q x)")
  case (Pair o' t)
  show thesis
  proof (cases o')
    case None
    with Pair have "loop_inv E (Suc (max_retries (cfg E))) t"
      using rounds.rounds_over [OF start_inv, of "max_retries (cfg E)"] by simp
    then have zero: "max_retries (cfg E) = 0" by (auto simp: loop_inv_def)
    then have "t = start q x" using Pair by simp
    then show thesis using assms Pair None zero
      by (intro none) (auto simp: run_loop_def start_def last_error_def)
  next
    case (Some y)
    with Pair assms have "y = r" "t = s" by (simp_all add: run_loop_def)
    with Pair Some obtain n u where "1 \<le> n" "n \<le> max_retries (cfg E)" "loop_inv E n u" "attempt E n u = (Some r, s)"
      using rounds.rounds_return [OF start_inv, of "max_retries (cfg E)"] by fastforce
    then show thesis using round [of n u] attempt_ended [of E n u] by simp
  qed
qed

lemma run_loop_in_bounds:
  assumes "run_loop E q x = (r, s)"
  shows "in_bounds E (max_retries (cfg E)) s"
  using assms
proof (cases rule: run_loop_ends)
  case (round n u)
  then have "in_bounds E n s" by (intro ended_in_bounds)
  with round(2) show ?thesis by (auto simp: in_bounds_def)
next
  case none
  then show ?thesis
    by (simp add: in_bounds_def start_def timeouts_seen_def executed_texts_def history.nothing)
qed

section \<open>What the history of a run shows\<close>

lemma history_repeats:
  "history E as \<Longrightarrow> i < j \<Longrightarrow> j < length as \<Longrightarrow>
    normalize_sql (a_query (as ! i)) = normalize_sql (a_query (as ! j)) \<Longrightarrow>
    a_query (as ! i) = a_query (as ! j) \<and> repeatable E (a_query (as ! j)) \<and> failed_as ConnectionError (as ! i)"
proof (induction arbitrary: i j rule: history.induct)
  case (another as a)
  show ?case
  proof (cases "j < length as")
    case True
    with another.prems another.IH [of i j] show ?thesis by (simp add: nth_append)
  next
    case False
    with another.prems have j: "j = length as" and i: "i < length as" by auto
    then have same: "normalize_sql (a_query (as ! i)) = normalize_sql (a_query a)"
      using another.prems(3) by (simp add: nth_append)
    then have l: "a_query (last as) = a_query a" "failed_as ConnectionError (last as)" "repeatable E (a_query a)"
      using another.hyps(2) i by (auto simp: follows_def)
    define k where "k = length as - 1"
    have k: "last as = as ! k" "k < length as" using i by (cases as; simp add: k_def last_conv_nth)+
    show ?thesis
    proof (cases "i = k")
      case True
      with l k i show ?thesis by (simp add: j nth_append)
    next
      case False
      with i k have "i < k" by (simp add: k_def)
      moreover have "normalize_sql (a_query (as ! i)) = normalize_sql (a_query (as ! k))"
        using same l(1) k(1) by simp
      ultimately show ?thesis using another.IH [of i k] k l i by (simp add: j nth_append)
    qed
  qed
qed simp_all

lemma once_in_history:
  assumes "history E as" and "\<not> repeatable E q"
  shows "length (filter (\<lambda>x. x = q) (map a_query as)) \<le> 1"
proof (rule ccontr)
  assume "\<not> ?thesis"
  then have "\<not> card {i. i < length (map a_query as) \<and> map a_query as ! i = q} \<le> 1"
    by (simp add: length_filter_conv_card)
  then obtain i j where "i < length as" "j < length as" "a_query (as ! i) = q" "a_query (as ! j) = q" "i < j"
    by (auto simp: card_le_Suc0_iff_eq) (metis linorder_neqE_nat)
  with history_repeats [OF assms(1), of i j] assms(2) show False by simp
qed

lemma length_filter_subseq: "subseq xs ys \<Longrightarrow> length (filter P xs) \<le> length (filter P ys)"
  by (blast intro: subseq_filter list_emb_length)

section \<open>A sample run\<close>

definition sample_schema :: "unit \<Rightarrow> schema_info" where
  "sample_schema u = \<lparr>tables = [\<lparr>table_name = ''t'', table_columns = [\<lparr>col_name = ''id'', data_type = ''int'',
      is_nullable = None, is_primary_key = True, col_comment = None\<rparr>], foreign_keys = [], indexes = [],
      table_rows = None, table_comment = None\<rparr>], schema_db_type = ''mysql''\<rparr>"

definition sample_rows :: "nat \<Rightarrow> pyval query_result" where
  "sample_rows n = \<lparr>columns = [''id''], rows = replicate n [PInt 1], row_count = int n, execution_time_ms = 1,
     error = None, error_type = None, truncated = False\<rparr>"

text \<open>A writable MySQL connection that is lost during the first call.\<close>

definition sample_env :: "unit \<Rightarrow> loop_env" where
  "sample_env u = \<lparr>cfg = (default_config ())\<lparr>enable_explain := False\<rparr>, conn_read_only = False, conn_db_type = ''mysql'',
     loop_schema = sample_schema (),
     loop_enricher = \<lparr>en_schema = sample_schema (), vector_store = None, db_index_context = [], sync_context = [],
       rules_context = [], distinct_values = [], learnings_context = [], sync_query_tips = [],
       required_filters_by_table = []\<rparr>,
     question = [], has_project = False,
     connector = (\<lambda>cs c. if cs = [] then Raised ''Lost connection'' else Replied (sample_rows 1)),
     ask_model = (\<lambda>n p d. LlmReply [] []), json_of = (\<lambda>s. None), show_reason = (\<lambda>r. []),
     display = \<lparr>show_value = (\<lambda>v. []), show_grouped = (\<lambda>v. []), json_loads = (\<lambda>s. None)\<rparr>, set_order = (\<lambda>ts. ts)\<rparr>"

definition sample_query :: "unit \<Rightarrow> string" where
  "sample_query u = ''SELECT id FROM t''"

definition sample_write :: "unit \<Rightarrow> string" where
  "sample_write u = ''UPDATE t SET id = 1''"

lemma sample_read_runs:
  "case run_loop (sample_env ()) (sample_query ()) (PStr []) of
     (Inr r, s) \<Rightarrow> success r \<and> calls s = [run_call (sample_env ()) (sample_query ()), run_call (sample_env ()) (sample_query ())]
       \<and> map (\<lambda>a. a_query a) (attempts s) = [sample_query (), sample_query ()]
   | _ \<Rightarrow> False"
  by code_simp

lemma sample_write_runs:
  "case run_loop (sample_env ()) (sample_write ()) (PStr []) of
     (Inr r, s) \<Rightarrow> \<not> success r \<and> calls s = [run_call (sample_env ()) (sample_write ())] \<and>
       map (\<lambda>a. a_query a) (attempts s) = [sample_write ()]
   | _ \<Rightarrow> False"
  by code_simp

lemma sample_write_not_repeatable: "\<not> repeatable (sample_env ()) (sample_write ())"
  unfolding repeatable_def by code_simp

lemma sample_read:
  obtains r s where "run_loop (sample_env ()) (sample_query ()) (PStr []) = (Inr r, s)" "success r"
    "calls s = [run_call (sample_env ()) (sample_query ()), run_call (sample_env ()) (sample_query ())]"
    "map (\<lambda>a. a_query a) (attempts s) = [sample_query (), sample_query ()]"
  using sample_read_runs by (auto split: prod.splits sum.splits)

lemma sample_refused:
  obtains r s where "run_loop (sample_env ()) (sample_write ()) (PStr []) = (Inr r, s)" "\<not> success r"
    "calls s = [run_call (sample_env ()) (sample_write ())]" "map (\<lambda>a. a_query a) (attempts s) = [sample_write ()]"
  using sample_write_runs by (auto split: prod.splits sum.splits)

section \<open>Properties\<close>

text \<open>
  C3. Nothing reaches the database that the safety guard did not admit: every statement the
  query loop sends is a query that the guard admits at the level of the connection, executed
  under the configured time limit, or the explain statement of such a query.
\<close>

theorem nothing_unguarded:
  assumes "run_loop E q x = (r, s)" and "c \<in> set (calls s)"
  shows "\<exists>p v. validate (json_of E) (if conn_read_only E then ReadOnly else AllowDml) p (conn_db_type E) = Inr v \<and>
    is_safe v \<and>
    (call_text c = p \<and> call_timeout c = Some (query_timeout_seconds (cfg E)) \<or>
     build_explain_query p (schema_db_type (loop_schema E)) = Some (call_text c) \<and> call_timeout c = None)"
proof -
  have "allowed E c" using run_loop_in_bounds [OF assms(1)] assms(2) by (simp add: in_bounds_def)
  then obtain p v where p: "guard E p = Inr v" "is_safe v"
    and c: "c = run_call E p \<or> (\<exists>t. build_explain_query p (schema_db_type (loop_schema E)) = Some t \<and> c = dry_call t)"
    by (auto simp: allowed_def admitted_def)
  show ?thesis
    by (rule exI [of _ p], rule exI [of _ v])
      (use p c in \<open>auto simp: guard_def safety_level_of_def run_call_def dry_call_def\<close>)
qed

theorem nothing_unguarded_witness:
  "\<exists>p v. validate (json_of (sample_env ())) AllowDml p ''mysql'' = Inr v \<and> is_safe v \<and> p = sample_query ()"
proof (rule sample_read)
  fix r s
  assume run: "run_loop (sample_env ()) (sample_query ()) (PStr []) = (Inr r, s)"
    and sent: "calls s = [run_call (sample_env ()) (sample_query ()), run_call (sample_env ()) (sample_query ())]"
  have "run_call (sample_env ()) (sample_query ()) \<in> set (calls s)" by (simp add: sent)
  from nothing_unguarded [OF run this] show ?thesis
    by (auto simp: run_call_def sample_env_def)
qed

text \<open>
  C4. A write is never sent twice: on a connection that may write, a statement that is no read
  is executed at most once in a run, whatever the database and the language model answer.
\<close>

theorem write_sent_once:
  assumes "run_loop E q x = (r, s)" and "\<not> conn_read_only E"
    and "is_read_only_statement (json_of E) p (if conn_db_type E = [] then ''postgres'' else conn_db_type E) \<noteq> Inr True"
  shows "length (filter (\<lambda>c. call_timeout c \<noteq> None \<and> call_text c = p) (calls s)) \<le> 1"
proof -
  have b: "in_bounds E (max_retries (cfg E)) s" by (rule run_loop_in_bounds [OF assms(1)])
  have "\<not> repeatable E p" using assms(2,3) by (simp add: repeatable_def is_repeatable_after_connection_loss_def)
  then have "length (filter (\<lambda>x. x = p) (map a_query (attempts s))) \<le> 1"
    using b by (intro once_in_history) (auto simp: in_bounds_def)
  moreover have "length (filter (\<lambda>x. x = p) (executed_texts (calls s)))
      \<le> length (filter (\<lambda>x. x = p) (map a_query (attempts s)))"
    using b by (intro length_filter_subseq) (simp add: in_bounds_def)
  moreover have "filter (\<lambda>x. x = p) (executed_texts (calls s))
      = map call_text (filter (\<lambda>c. call_timeout c \<noteq> None \<and> call_text c = p) (calls s))"
    by (auto simp: executed_texts_def filter_map filter_filter comp_def conj_commute)
  ultimately show ?thesis by simp
qed

theorem write_sent_once_witness:
  "case run_loop (sample_env ()) (sample_write ()) (PStr []) of (r, s) \<Rightarrow>
     length (filter (\<lambda>c. call_timeout c \<noteq> None \<and> call_text c = sample_write ()) (calls s)) \<le> 1 \<and> calls s \<noteq> []"
proof (rule sample_refused)
  fix r s
  assume run: "run_loop (sample_env ()) (sample_write ()) (PStr []) = (Inr r, s)"
    and sent: "calls s = [run_call (sample_env ()) (sample_write ())]"
  have "\<not> conn_read_only (sample_env ())" by (simp add: sample_env_def)
  moreover have "is_read_only_statement (json_of (sample_env ())) (sample_write ())
      (if conn_db_type (sample_env ()) = [] then ''postgres'' else conn_db_type (sample_env ())) \<noteq> Inr True"
    using sample_write_not_repeatable
    by (simp add: repeatable_def is_repeatable_after_connection_loss_def sample_env_def)
  ultimately show ?thesis using write_sent_once [OF run] unfolding run prod.case by (simp add: sent)
qed

text \<open>
  No query is tried again: two attempts of a run whose queries agree up to white space, case
  and trailing semicolons are the same text, which may be repeated safely, and the earlier one
  lost its connection.
\<close>

theorem only_lost_queries_repeat:
  assumes "run_loop E q x = (r, s)" and "i < j" and "j < length (attempts s)"
    and "normalize_sql (a_query (attempts s ! i)) = normalize_sql (a_query (attempts s ! j))"
  shows "a_query (attempts s ! i) = a_query (attempts s ! j) \<and>
    is_repeatable_after_connection_loss E (a_query (attempts s ! j)) = Inr True \<and>
    (\<exists>e. a_error (attempts s ! i) = Some e \<and> e_type e = ConnectionError)"
  using history_repeats [OF _ assms(2-4), of E] run_loop_in_bounds [OF assms(1)]
  by (simp add: in_bounds_def repeatable_def failed_as_def)

theorem only_lost_queries_repeat_witness:
  "\<exists>e. e_type e = ConnectionError \<and>
     (case run_loop (sample_env ()) (sample_query ()) (PStr []) of (r, s) \<Rightarrow> a_error (attempts s ! 0) = Some e)"
proof (rule sample_read)
  fix r s
  assume run: "run_loop (sample_env ()) (sample_query ()) (PStr []) = (Inr r, s)"
    and as: "map (\<lambda>a. a_query a) (attempts s) = [sample_query (), sample_query ()]"
  from as have "length (attempts s) = 2" by (metis length_map length_Cons list.size(3) numeral_2_eq_2)
  moreover from this as have "a_query (attempts s ! 0) = a_query (attempts s ! 1)"
    by (cases "attempts s"; cases "tl (attempts s)") auto
  ultimately show ?thesis using only_lost_queries_repeat [OF run, of 0 1] unfolding run prod.case by auto
qed

text \<open>
  C6. A run is bounded: it makes at most the configured number of attempts and sends at most two
  statements per attempt; it asks the language model and pauses less often than that, pauses at
  most four seconds at a time, and gives up at the second timeout.
\<close>

theorem run_bounded:
  assumes "run_loop E q x = (r, s)"
  shows "length (attempts s) \<le> max_retries (cfg E) \<and> length (calls s) \<le> 2 * max_retries (cfg E) \<and>
    model_calls s \<le> max_retries (cfg E) - 1 \<and> length (pauses s) \<le> max_retries (cfg E) - 1 \<and>
    (\<forall>p \<in> set (pauses s). p \<le> 4) \<and> timeouts_seen (attempts s) \<le> 2"
  using run_loop_in_bounds [OF assms] by (simp add: in_bounds_def)

theorem run_bounded_witness:
  "case run_loop (sample_env ()) (sample_query ()) (PStr []) of (r, s) \<Rightarrow>
     length (calls s) = 2 \<and> length (attempts s) \<le> 3 \<and> timeouts_seen (attempts s) \<le> 2"
proof (rule sample_read)
  fix r s
  assume run: "run_loop (sample_env ()) (sample_query ()) (PStr []) = (Inr r, s)"
    and sent: "calls s = [run_call (sample_env ()) (sample_query ()), run_call (sample_env ()) (sample_query ())]"
  from run_bounded [OF run] show ?thesis
    unfolding run prod.case by (simp add: sent sample_env_def default_config_def)
qed

lemma run_answer:
  assumes "run_loop E q x = (Inr a, s)" and "0 < max_retries (cfg E)"
  shows "if success a
    then final_error a = None \<and> results a \<noteq> None \<and> run_call E (res_query a) \<in> set (calls s) \<and>
      (\<exists>n. 1 \<le> n \<and> n \<le> max_retries (cfg E) \<and> total_attempts a = n \<and> checked E n (res_query a) (res_warnings a))
    else results a = None \<and> final_error a \<noteq> None \<and> final_error a = last_error (attempts s)"
  using assms(1)
proof (cases rule: run_loop_ends)
  case none
  with assms(2) show ?thesis by simp
next
  case (round n u)
  have more: "checked E n p ws \<Longrightarrow> checked E n p (vs @ ws @ zs)" for p ws vs zs
    by (auto simp: checked_def filters_passed_def)
  from round(4) show ?thesis
  proof cases
    case (failed w b ws e ending)
    have call: "repair_or_end E n b e ending (grown ws w u) = (Some (Inr a), s)" using failed(1) by simp
    from repair_or_end_result [OF call] have a: "a = ending s" and cur: "cur_query s = cur_query u" by auto
    from repair_or_end_effect [OF call] have as: "attempts s = attempts u @ [b\<lparr>a_error := Some e\<rparr>]"
      and cs: "calls s = calls u @ w" and wn: "all_warnings s = all_warnings u @ ws" by auto
    from failed(5) [unfolded ends_with_def] show ?thesis
    proof (elim disjE exE conjE)
      assume "\<forall>v. ending v = give_up e v"
      then show ?thesis by (simp add: a give_up_def fail_def last_error_def as)
    next
      fix y
      assume ck: "checked E n (cur_query u) ws" and rc: "run_call E (cur_query u) \<in> set w"
        and en: "\<forall>v. ending v = empty_success v y n"
      have "checked E n (cur_query u) (all_warnings u @ ws @
          [''Query returned 0 rows after exhausting empty-result retries; treating zero as the answer.''])"
        by (rule more [OF ck])
      then show ?thesis using rc round(1,2)
        by (simp add: a en empty_success_def succeed_def cur cs wn)
    qed
  next
    case (refused v ws)
    then show ?thesis by (simp add: give_up_def fail_def last_error_def log_attempt_def)
  next
    case (answered w ws y)
    have "checked E n (cur_query u) (all_warnings u @ ws @ [])" by (rule more [OF answered(4)])
    with answered round(1,2) show ?thesis by (simp add: succeed_def)
  qed
qed



text \<open>
  The dry run is not always dry: a guard that allows writing admits two statements in one
  text, and the explain statement built from it carries the second one unchanged.
\<close>

theorem dry_run_carries_write:
  "is_safe (validate_sql AllowDml ''SELECT 1; DELETE FROM t'' ''postgres'') \<and>
   build_explain_query ''SELECT 1; DELETE FROM t'' ''postgres'' = Some ''EXPLAIN (FORMAT JSON) SELECT 1; DELETE FROM t''"
  by code_simp

text \<open>
  The test for an already tried query ignores the case of literals, so a repair that only
  corrects the spelling of a value counts as tried and is thrown away.
\<close>

theorem identity_ignores_literals:
  "normalize_sql (''SELECT id FROM t WHERE s = '' @ quote_name ''Open'') =
   normalize_sql (''SELECT id FROM t WHERE s = '' @ quote_name ''OPEN'')"
  by code_simp

end
