(* ===== verification/RunManifests.thy ===== *)
theory RunManifests
  imports PyValue
begin

text \<open>
  \<^verbatim>\<open>backend/app/knowledge/run_manifests.py\<close>: the ordered, weighted steps of a background run per
  kind, and the percentage that a completed prefix of them amounts to. The percentage is the
  code's: a quotient and a product of doubles, rounded to an integer.
\<close>

section \<open>Manifests\<close>

record manifest_step =
  step_key :: string
  step_label :: string
  step_weight :: int

definition weighted :: "string \<Rightarrow> string \<Rightarrow> int \<Rightarrow> manifest_step" where
  "weighted key label weight = \<lparr>step_key = key, step_label = label, step_weight = weight\<rparr>"

definition base_manifests :: "unit \<Rightarrow> (string \<times> manifest_step list) list" where
  "base_manifests _ =
    [(''db_index'',
       [weighted ''introspect_schema'' ''Introspect Schema'' 1,
        weighted ''fetch_samples'' ''Fetch Samples'' 1,
        weighted ''load_context'' ''Load Context'' 1,
        weighted ''validate_tables'' ''LLM Analysis'' 3,
        weighted ''store_results'' ''Store Results'' 1,
        weighted ''generate_summary'' ''Generate Summary'' 1]),
     (''code_db_sync'',
       [weighted ''load_code_knowledge'' ''Load Code Knowledge'' 1,
        weighted ''load_db_index'' ''Load DB Index'' 1,
        weighted ''match_tables'' ''Match Tables'' 2,
        weighted ''analyze_sync'' ''Analyze Code-DB'' 2,
        weighted ''store_sync'' ''Store Results'' 1,
        weighted ''generate_sync_summary'' ''Generate Summary'' 1]),
     (''analytics_collect'',
       [weighted ''connect'' ''Connect to Vendor'' 1,
        weighted ''collect_reports'' ''Collect Reports'' 5,
        weighted ''summarize'' ''Summarize'' 1]),
     (''daily_sync'',
       [weighted ''plan_targets'' ''Plan Targets'' 1,
        weighted ''repo_index'' ''Repository Index'' 2,
        weighted ''db_index'' ''Database Index'' 3,
        weighted ''code_db_sync'' ''Code-DB Sync'' 3,
        weighted ''summarize'' ''Summarize'' 1])]"

definition index_repo_steps :: "unit \<Rightarrow> (string option \<times> manifest_step) list" where
  "index_repo_steps _ =
    [(None, weighted ''resolve_ssh_key'' ''SSH Key'' 1),
     (None, weighted ''clone_or_pull'' ''Git Clone/Pull'' 2),
     (None, weighted ''detect_changes'' ''Detect Changes'' 1),
     (None, weighted ''cleanup_deleted'' ''Cleanup Deleted'' 1),
     (None, weighted ''project_profile'' ''Project Profile'' 1),
     (Some ''code_graph_enabled'', weighted ''ast_parse'' ''AST Parse'' 2),
     (Some ''code_graph_enabled'', weighted ''graph_build'' ''Build Code Graph'' 2),
     (Some ''hybrid_retrieval_enabled'', weighted ''code_symbol_embed'' ''Embed Code Symbols'' 3),
     (None, weighted ''analyze_files'' ''Analyze Files'' 3),
     (None, weighted ''cross_file_analysis'' ''Cross-File Analysis'' 2),
     (Some ''lineage_enabled'', weighted ''graph_db_bridge'' ''Code->DB Lineage'' 1),
     (Some ''clustering_enabled'', weighted ''graph_clustering'' ''Cluster Communities'' 1),
     (None, weighted ''generate_docs'' ''Generate Docs'' 8),
     (Some ''hybrid_retrieval_enabled'', weighted ''bm25_build'' ''Build BM25'' 1),
     (Some ''schema_retrieval_enabled'', weighted ''schema_embed'' ''Embed Schema'' 1),
     (None, weighted ''record_index'' ''Record Index'' 1)]"

text \<open>An unknown kind is a \<^verbatim>\<open>KeyError\<close>; the flags are the settings that are true.\<close>

definition resolve_manifest :: "string list \<Rightarrow> string \<Rightarrow> string + manifest_step list" where
  "resolve_manifest flags kind =
     (if kind = ''index_repo'' then
        Inr (map snd (filter (\<lambda>(flag, step). case flag of None \<Rightarrow> True | Some f \<Rightarrow> f \<in> set flags)
               (index_repo_steps ())))
      else case map_of (base_manifests ()) kind of
        None \<Rightarrow> Inl (''unknown run kind: '' @ kind)
      | Some steps \<Rightarrow> Inr steps)"

definition weight_of :: "manifest_step list \<Rightarrow> int" where
  "weight_of steps = sum_list (map step_weight steps)"

definition progress_for :: "manifest_step list \<Rightarrow> int \<Rightarrow> int" where
  "progress_for manifest completed =
     (let total = (if weight_of manifest = 0 then 1 else weight_of manifest);
          bounded = max 0 (min completed (int (length manifest)));
          done = weight_of (take (nat bounded) manifest)
      in round_even (fl (fl (of_int done / of_int total) * 100)))"

fun position_from :: "int \<Rightarrow> manifest_step list \<Rightarrow> string \<Rightarrow> int option" where
  "position_from i [] key = None"
| "position_from i (s # steps) key = (if step_key s = key then Some i else position_from (i + 1) steps key)"

text \<open>A key that is not in the manifest is a \<^verbatim>\<open>KeyError\<close>.\<close>

definition step_position :: "manifest_step list \<Rightarrow> string \<Rightarrow> int option" where
  "step_position manifest key = position_from 1 manifest key"

section \<open>Positions and progress\<close>

text \<open>Every manifest that is resolved has steps of positive weight and no key twice.\<close>

definition manifest_ok :: "manifest_step list \<Rightarrow> bool" where
  "manifest_ok m \<longleftrightarrow> m \<noteq> [] \<and> (\<forall>s \<in> set m. 0 < step_weight s) \<and> distinct (map step_key m)"

lemma base_manifests_ok: "list_all (\<lambda>(k, m). manifest_ok m) (base_manifests ())"
  by (simp add: base_manifests_def weighted_def manifest_ok_def)

lemma index_repo_ok:
  "distinct (map (step_key \<circ> snd) (index_repo_steps ()))"
  "list_all (\<lambda>(f, s). 0 < step_weight s) (index_repo_steps ())"
  by (simp_all add: index_repo_steps_def weighted_def)

lemma resolve_manifest_ok:
  assumes "resolve_manifest flags kind = Inr m"
  shows "manifest_ok m"
proof (cases "kind = ''index_repo''")
  case True
  let ?on = "\<lambda>(flag, step). case flag of None \<Rightarrow> True | Some f \<Rightarrow> f \<in> set flags"
  have m: "m = map snd (filter ?on (index_repo_steps ()))"
    using assms True by (simp add: resolve_manifest_def)
  have "distinct (map (step_key \<circ> snd) (filter ?on (index_repo_steps ())))"
    by (rule distinct_map_filter) (rule index_repo_ok(1))
  moreover have "(None, weighted ''record_index'' ''Record Index'' 1) \<in> set (filter ?on (index_repo_steps ()))"
    by (simp add: index_repo_steps_def)
  ultimately show ?thesis
    using index_repo_ok(2) unfolding manifest_ok_def m
    by (fastforce simp: list_all_iff filter_empty_conv)
next
  case False
  with assms have "map_of (base_manifests ()) kind = Some m"
    by (auto simp: resolve_manifest_def split: option.splits)
  then show ?thesis using base_manifests_ok map_of_SomeD by (fastforce simp: list_all_iff)
qed

lemma position_bounds: "position_from i m key = Some p \<Longrightarrow> i \<le> p \<and> p < i + int (length m)"
  by (induction i m key rule: position_from.induct) (auto split: if_splits)

lemma position_nth: "position_from i m key = Some p \<Longrightarrow> step_key (m ! nat (p - i)) = key"
proof (induction i m key rule: position_from.induct)
  case (2 i s steps key)
  show ?case
  proof (cases "step_key s = key")
    case False
    with 2 have "position_from (i + 1) steps key = Some p" by simp
    with 2 False have "step_key (steps ! nat (p - (i + 1))) = key" "i + 1 \<le> p"
      using position_bounds [of "i + 1" steps key p] by simp_all
    moreover have "p - (i + 1) = p - i - 1" by simp
    then have "nat (p - (i + 1)) = nat (p - i) - 1" by linarith
    ultimately show ?thesis by (simp add: nth_Cons')
  qed (use 2 in simp)
qed simp

lemma position_None: "position_from i m key = None \<longleftrightarrow> key \<notin> step_key ` set m"
  by (induction i m key rule: position_from.induct) auto

lemma weight_take_mono:
  assumes "\<forall>s \<in> set m. 0 < step_weight s" "i \<le> j"
  shows "weight_of (take i m) \<le> weight_of (take j m)"
proof -
  obtain k where j: "j = i + k" using assms(2) le_Suc_ex by blast
  have "0 \<le> sum_list (map step_weight (take k (drop i m)))"
    using assms(1) by (intro sum_list_nonneg) (auto dest!: in_set_takeD in_set_dropD)
  then show ?thesis by (simp add: j weight_of_def take_add)
qed

lemma weight_pos: "manifest_ok m \<Longrightarrow> 0 < weight_of m"
proof (cases m)
  case (Cons s steps)
  assume "manifest_ok m"
  then have pos: "0 < step_weight s" "\<forall>x \<in> set steps. 0 < step_weight x"
    by (simp_all add: Cons manifest_ok_def)
  then have "0 \<le> sum_list (map step_weight steps)"
    by (intro sum_list_nonneg) (auto intro: order.strict_implies_order)
  with pos show ?thesis by (simp add: Cons weight_of_def)
qed (simp add: manifest_ok_def)

text \<open>Progress never goes back along the manifest, starts at 0 and ends at 100.\<close>

lemma progress_mono:
  assumes "manifest_ok m" "i \<le> j"
  shows "progress_for m i \<le> progress_for m j"
proof -
  define a b t where "a = weight_of (take (nat (max 0 (min i (int (length m))))) m)"
    and "b = weight_of (take (nat (max 0 (min j (int (length m))))) m)" and "t = weight_of m"
  have pos: "\<forall>s \<in> set m. 0 < step_weight s" using assms(1) by (simp add: manifest_ok_def)
  have "nat (max 0 (min i (int (length m)))) \<le> nat (max 0 (min j (int (length m))))" using assms(2) by linarith
  then have ab: "a \<le> b" unfolding a_def b_def by (rule weight_take_mono [OF pos])
  have "weight_of (take 0 m) \<le> a" unfolding a_def by (rule weight_take_mono [OF pos]) simp
  then have a0: "0 \<le> a" by (simp add: weight_of_def)
  have t: "0 < t" unfolding t_def by (rule weight_pos) (rule assms(1))
  have q: "0 \<le> of_int a / (of_int t :: rat)" "of_int a / (of_int t :: rat) \<le> of_int b / of_int t"
    using a0 ab t by (simp_all add: divide_right_mono)
  have f: "fl (of_int a / of_int t) \<le> fl (of_int b / of_int t)" using q by (rule fl_mono)
  have "0 \<le> fl (of_int a / of_int t) * 100" using fl_nonneg [OF q(1)] by simp
  then have "fl (fl (of_int a / of_int t) * 100) \<le> fl (fl (of_int b / of_int t) * 100)"
    by (rule fl_mono) (use f in simp)
  then have "round_even (fl (fl (of_int a / of_int t) * 100)) \<le> round_even (fl (fl (of_int b / of_int t) * 100))"
    by (rule round_even_mono)
  moreover have "t \<noteq> 0" using t by simp
  ultimately show ?thesis
    unfolding progress_for_def Let_def a_def [symmetric] b_def [symmetric] t_def [symmetric] by simp
qed

lemma progress_0: "progress_for m 0 = 0"
proof -
  have "fl 0 = 0" by (simp add: fl_def)
  moreover have "round_even 0 = 0" using round_even_int [of 0] by simp
  ultimately show ?thesis by (simp add: progress_for_def weight_of_def)
qed

lemma progress_all:
  assumes "manifest_ok m"
  shows "progress_for m (int (length m)) = 100"
proof -
  have one: "fl 1 = 1" and hundred: "fl 100 = 100" using fl_int [of 1] fl_int [of 100] by simp_all
  have round: "round_even 100 = 100" using round_even_int [of 100] by simp
  have w: "weight_of m \<noteq> 0" using weight_pos [OF assms] by simp
  then have q: "of_int (weight_of m) / of_int (weight_of m) = (1::rat)" by simp
  have "progress_for m (int (length m)) = round_even (fl (fl (of_int (weight_of m) / of_int (weight_of m)) * 100))"
    using w by (simp add: progress_for_def del: divide_self_if)
  then show ?thesis unfolding q one by (simp only: mult_1 hundred round)
qed

lemma progress_bounds:
  assumes "manifest_ok m"
  shows "0 \<le> progress_for m i" "progress_for m i \<le> 100"
proof -
  have clamp: "progress_for m i = progress_for m (max 0 (min i (int (length m))))"
    by (simp add: progress_for_def)
  have "progress_for m 0 \<le> progress_for m (max 0 (min i (int (length m))))"
    "progress_for m (max 0 (min i (int (length m)))) \<le> progress_for m (int (length m))"
    by (intro progress_mono assms; simp)+
  then show "0 \<le> progress_for m i" "progress_for m i \<le> 100"
    by (simp_all add: progress_0 progress_all [OF assms] flip: clamp)
qed

end
