(* ===== verification/ErrorLog.thy ===== *)
theory ErrorLog
  imports PyRegex PyValue
begin

text \<open>
  \<^verbatim>\<open>backend/app/services/error_log_service.py\<close> and its table: the catalog of failures, one row
  per project and signature, a signature being the digest of a message whose numbers and blanks
  are normalised. The digest of \<^verbatim>\<open>hashlib.sha256\<close> is a parameter; the clock is an argument.
\<close>

section \<open>The catalog\<close>

record logged =
  log_project :: "string option"
  log_signature :: string
  log_source :: string
  log_kind :: string
  log_failure_kind :: "string option"
  log_message :: string
  log_sample_ref :: "string option"
  occurrences :: int
  first_seen_at :: int
  last_seen_at :: int
  log_status :: string
  log_meta :: "(string \<times> pyval) list"

definition skeleton :: "string option \<Rightarrow> string" where
  "skeleton message = (case message of None \<Rightarrow> []
     | Some m \<Rightarrow> (if m = [] then [] else
         let s = sub_by (plus (Cls is_digit)) (\<lambda>_ _. ''#'') m
         in take 200 (py_lower (py_strip (sub_by spaces1 (\<lambda>_ _. '' '') s)))))"

definition signature :: "(string \<Rightarrow> string) \<Rightarrow> string \<Rightarrow> string \<Rightarrow> string option \<Rightarrow> string" where
  "signature digest source kind message =
     take 64 (digest (source @ ''|'' @ kind @ ''|'' @ skeleton message))"

text \<open>What one call reports.\<close>

record report =
  rep_project :: "string option"
  rep_source :: string
  rep_kind :: string
  rep_message :: "string option"
  rep_failure_kind :: "string option"
  rep_sample_ref :: "string option"
  rep_meta :: "(string \<times> pyval) list"

definition or_empty :: "string option \<Rightarrow> string" where
  "or_empty s = (case s of None \<Rightarrow> [] | Some t \<Rightarrow> t)"

text \<open>\<^verbatim>\<open>a or b\<close> of two optional texts: an empty text counts as none.\<close>

definition or_else :: "string option \<Rightarrow> string option \<Rightarrow> string option" where
  "or_else a b = (if a = None \<or> a = Some [] then b else a)"

definition log_key :: "logged \<Rightarrow> string \<times> string" where
  "log_key row = (or_empty (log_project row), log_signature row)"

definition report_key :: "(string \<Rightarrow> string) \<Rightarrow> report \<Rightarrow> string \<times> string" where
  "report_key digest r = (or_empty (rep_project r), signature digest (rep_source r) (rep_kind r) (rep_message r))"

definition merge_into :: "int \<Rightarrow> report \<Rightarrow> logged \<Rightarrow> logged" where
  "merge_into now r row = row\<lparr>
     occurrences := occurrences row + 1,
     log_status := (if log_status row = ''resolved'' then ''open'' else log_status row),
     last_seen_at := now,
     log_message := or_empty (or_else (rep_message r) (Some (log_message row))),
     log_sample_ref := or_else (rep_sample_ref r) (log_sample_ref row),
     log_failure_kind := or_else (rep_failure_kind r) (log_failure_kind row)\<rparr>"

definition new_row :: "(string \<Rightarrow> string) \<Rightarrow> int \<Rightarrow> report \<Rightarrow> logged" where
  "new_row digest now r =
    \<lparr>log_project = rep_project r,
     log_signature = signature digest (rep_source r) (rep_kind r) (rep_message r),
     log_source = rep_source r, log_kind = rep_kind r, log_failure_kind = rep_failure_kind r,
     log_message = or_empty (rep_message r), log_sample_ref = rep_sample_ref r, occurrences = 1,
     first_seen_at = now, last_seen_at = now, log_status = ''open'', log_meta = rep_meta r\<rparr>"

definition merge_key :: "(string \<Rightarrow> string) \<Rightarrow> int \<Rightarrow> report \<Rightarrow> logged list \<Rightarrow> logged list" where
  "merge_key digest now r logs =
     map (\<lambda>row. if log_key row = report_key digest r then merge_into now r row else row) logs"

text \<open>
  The row is looked up first; \<open>others\<close> is what other processes commit before the new row is.
  The unique index then refuses a second row of the key, and the loser merges into the winner.
\<close>

definition upsert :: "(string \<Rightarrow> string) \<Rightarrow> int \<Rightarrow> (logged list \<Rightarrow> logged list) \<Rightarrow> report
    \<Rightarrow> logged list \<Rightarrow> logged list" where
  "upsert digest now others r logs =
     (if report_key digest r \<in> log_key ` set logs then merge_key digest now r logs
      else let logs' = others logs in
        if report_key digest r \<in> log_key ` set logs' then merge_key digest now r logs'
        else logs' @ [new_row digest now r])"

section \<open>The catalog counts every report once\<close>

definition log_ok :: "logged list \<Rightarrow> bool" where
  "log_ok logs \<longleftrightarrow> distinct (map log_key logs) \<and> (\<forall>row \<in> set logs. 1 \<le> occurrences row)"

definition counted :: "logged list \<Rightarrow> int" where
  "counted logs = sum_list (map occurrences logs)"

lemma log_key_merge [simp]: "log_key (merge_into now r row) = log_key row"
  by (simp add: log_key_def merge_into_def)

lemma log_key_new [simp]: "log_key (new_row digest now r) = report_key digest r"
  by (simp add: log_key_def new_row_def report_key_def)

lemma occurrences_simps [simp]:
  "occurrences (merge_into now r row) = occurrences row + 1" "occurrences (new_row digest now r) = 1"
  by (simp_all add: merge_into_def new_row_def)

lemma keys_merge_key [simp]: "map log_key (merge_key digest now r logs) = map log_key logs"
  by (simp add: merge_key_def)

lemma counted_merge_key:
  "distinct (map log_key logs) \<Longrightarrow> report_key digest r \<in> log_key ` set logs
   \<Longrightarrow> counted (merge_key digest now r logs) = counted logs + 1"
proof (induction logs)
  case (Cons row logs)
  show ?case
  proof (cases "log_key row = report_key digest r")
    case True
    with Cons.prems have "report_key digest r \<notin> log_key ` set logs" by simp
    then have "merge_key digest now r logs = logs"
      unfolding merge_key_def by (intro map_idI) (metis imageI)
    with True show ?thesis by (simp add: merge_key_def counted_def)
  next
    case False
    with Cons show ?thesis by (simp add: merge_key_def counted_def)
  qed
qed simp

lemma log_ok_merge_key: "log_ok logs \<Longrightarrow> log_ok (merge_key digest now r logs)"
  unfolding log_ok_def keys_merge_key by (auto simp: merge_key_def)

lemma log_ok_upsert:
  assumes "log_ok logs" "log_ok (others logs)"
  shows "log_ok (upsert digest now others r logs)"
  using assms by (auto simp: upsert_def Let_def log_ok_merge_key) (auto simp: log_ok_def)

lemma upsert_lists: "report_key digest r \<in> log_key ` set (upsert digest now others r logs)"
proof -
  have "log_key ` set (merge_key digest now r l) = log_key ` set l" for l
    by (metis keys_merge_key set_map)
  then show ?thesis by (auto simp: upsert_def Let_def)
qed

text \<open>A failure that happens again is not left marked as resolved.\<close>

lemma upsert_reopens:
  assumes "row \<in> set (upsert digest now others r logs)" "log_key row = report_key digest r"
  shows "log_status row \<noteq> ''resolved'' \<and> last_seen_at row = now"
proof -
  have merged: "log_status row \<noteq> ''resolved'' \<and> last_seen_at row = now"
    if "row \<in> set (merge_key digest now r l)" for l
    using that assms(2) by (auto simp: merge_key_def merge_into_def split: if_splits)
  have "row \<notin> set l" if "report_key digest r \<notin> log_key ` set l" for l using that assms(2) by (metis imageI)
  then show ?thesis
    using assms(1) merged by (auto simp: upsert_def Let_def new_row_def split: if_splits)
qed


definition sample_report :: "unit \<Rightarrow> report" where
  "sample_report _ = \<lparr>rep_project = None, rep_source = ''run'', rep_kind = ''db_index'', rep_message = None,
     rep_failure_kind = Some ''fatal'', rep_sample_ref = Some ''r1'', rep_meta = []\<rparr>"


end
