(* ===== verification/RunTable.thy ===== *)
theory RunTable
  imports RunManifests ErrorLog
begin

text \<open>
  \<^verbatim>\<open>backend/app/models/indexing_run.py\<close>: the rows of background runs and of their journal, what
  the database refuses (a second active run of a project, kind and connection), and the two ways
  code writes a row: the columns that a loaded object changed, or an update of chosen columns.
  Times are microseconds; what \<^verbatim>\<open>json.loads\<close> reads from \<^verbatim>\<open>meta_json\<close> stands for its text
  (\<open>None\<close> for a text that is no JSON).
\<close>

section \<open>Rows\<close>

datatype run_status = Queued | Running | Cancelling | Completed | Failed | Cancelled

fun status_name :: "run_status \<Rightarrow> string" where
  "status_name Queued = ''queued''"
| "status_name Running = ''running''"
| "status_name Cancelling = ''cancelling''"
| "status_name Completed = ''completed''"
| "status_name Failed = ''failed''"
| "status_name Cancelled = ''cancelled''"

definition active_status :: "run_status \<Rightarrow> bool" where
  "active_status s \<longleftrightarrow> s \<in> {Queued, Running, Cancelling}"

definition terminal_status :: "run_status \<Rightarrow> bool" where
  "terminal_status s \<longleftrightarrow> s \<in> {Completed, Failed, Cancelled}"

lemma terminal_iff: "terminal_status s \<longleftrightarrow> \<not> active_status s"
  by (cases s) (simp_all add: terminal_status_def active_status_def)

record run =
  run_id :: string
  workflow_id :: string
  project_id :: string
  connection_id :: "string option"
  run_kind :: string
  trigger :: string
  run_status :: run_status
  current_step :: "string option"
  step_index :: int
  total_steps :: int
  progress_pct :: int
  run_error :: "string option"
  failure_kind :: "string option"
  cancel_requested :: bool
  version :: int
  started_at :: "int option"
  finished_at :: "int option"
  heartbeat_at :: "int option"
  meta_json :: "pyval option"

record entry =
  entry_run :: string
  entry_step :: string
  entry_status :: string
  entry_detail :: string
  entry_progress :: int
  entry_level :: string

text \<open>
  A workflow event: what the code that runs a pipeline emits, or (with a run id and its
  progress) what the coordinator itself emits.
\<close>

record workflow_event =
  ev_workflow :: string
  ev_step :: string
  ev_status :: string
  ev_detail :: string
  ev_run_id :: "string option"
  ev_progress :: "(string \<times> int \<times> int \<times> int) option"

text \<open>
  The database as far as runs reach into it, and the events sent to subscribers. A summary row
  of another index holds a status, a heartbeat and the time of its last update.
\<close>

record summary =
  sum_status :: string
  sum_heartbeat :: "int option"
  sum_updated :: int

record store =
  runs :: "run list"
  entries :: "entry list"
  error_log :: "logged list"
  sent :: "workflow_event list"
  project_ids :: "string list"
  connection_ids :: "string list"
  db_summaries :: "summary list"
  sync_summaries :: "summary list"
  checkpoints :: "summary list"

section \<open>What the database refuses\<close>

definition scope :: "run \<Rightarrow> string \<times> string \<times> string" where
  "scope r = (project_id r, run_kind r, or_empty (connection_id r))"

definition is_active :: "run \<Rightarrow> bool" where
  "is_active r \<longleftrightarrow> active_status (run_status r)"

definition constraints_ok :: "run list \<Rightarrow> bool" where
  "constraints_ok rs \<longleftrightarrow> distinct (map run_id rs) \<and> distinct (map workflow_id rs)
     \<and> distinct (map scope (filter is_active rs))"

datatype commit_error = IntegrityError | StaleDataError

text \<open>A new row also needs its project and its connection (foreign keys).\<close>

definition insert_run :: "run \<Rightarrow> store \<Rightarrow> commit_error + store" where
  "insert_run r st =
     (if constraints_ok (runs st @ [r]) \<and> project_id r \<in> set (project_ids st)
         \<and> (\<forall>c. connection_id r = Some c \<longrightarrow> c \<in> set (connection_ids st))
      then Inr (st\<lparr>runs := runs st @ [r]\<rparr>) else Inl IntegrityError)"

definition get_run :: "store \<Rightarrow> string \<Rightarrow> run option" where
  "get_run st i = List.find (\<lambda>r. run_id r = i) (runs st)"

definition by_workflow :: "store \<Rightarrow> string \<Rightarrow> run option" where
  "by_workflow st w = List.find (\<lambda>r. workflow_id r = w) (runs st)"

text \<open>
  A session writes the columns that differ from what it loaded. No code of the repository
  assigns the columns that are not listed once the row exists.
\<close>

definition pick :: "('a \<Rightarrow> 'b) \<Rightarrow> 'a \<Rightarrow> 'a \<Rightarrow> 'a \<Rightarrow> 'b" where
  "pick f loaded new row = (if f new = f loaded then f row else f new)"

definition overlay :: "run \<Rightarrow> run \<Rightarrow> run \<Rightarrow> run" where
  "overlay loaded new row = row\<lparr>
     run_status := pick run_status loaded new row,
     current_step := pick current_step loaded new row,
     step_index := pick step_index loaded new row,
     progress_pct := pick progress_pct loaded new row,
     run_error := pick run_error loaded new row,
     failure_kind := pick failure_kind loaded new row,
     cancel_requested := pick cancel_requested loaded new row,
     version := pick version loaded new row,
     finished_at := pick finished_at loaded new row,
     heartbeat_at := pick heartbeat_at loaded new row,
     meta_json := pick meta_json loaded new row\<rparr>"

definition update_run :: "string \<Rightarrow> (run \<Rightarrow> run) \<Rightarrow> run list \<Rightarrow> run list" where
  "update_run i f rs = map (\<lambda>r. if run_id r = i then f r else r) rs"

definition save :: "run \<Rightarrow> run \<Rightarrow> store \<Rightarrow> commit_error + store" where
  "save loaded new st =
     (if get_run st (run_id new) = None then Inl StaleDataError
      else let rs = update_run (run_id new) (overlay loaded new) (runs st)
        in if constraints_ok rs then Inr (st\<lparr>runs := rs\<rparr>) else Inl IntegrityError)"

definition add_entry :: "entry \<Rightarrow> store \<Rightarrow> store" where
  "add_entry e st = st\<lparr>entries := entries st @ [e]\<rparr>"

definition send :: "workflow_event \<Rightarrow> store \<Rightarrow> store" where
  "send e st = st\<lparr>sent := sent st @ [e]\<rparr>"

section \<open>Lemmas\<close>

lemma overlay_fixed [simp]:
  "run_id (overlay l n r) = run_id r" "workflow_id (overlay l n r) = workflow_id r"
  "project_id (overlay l n r) = project_id r" "connection_id (overlay l n r) = connection_id r"
  "run_kind (overlay l n r) = run_kind r" "trigger (overlay l n r) = trigger r"
  "total_steps (overlay l n r) = total_steps r" "started_at (overlay l n r) = started_at r"
  "scope (overlay l n r) = scope r"
  by (simp_all add: overlay_def scope_def)

text \<open>With nothing committed in between, the row is the object.\<close>

lemma overlay_current:
  "run_id n = run_id r \<Longrightarrow> workflow_id n = workflow_id r \<Longrightarrow> project_id n = project_id r
   \<Longrightarrow> connection_id n = connection_id r \<Longrightarrow> run_kind n = run_kind r \<Longrightarrow> trigger n = trigger r
   \<Longrightarrow> total_steps n = total_steps r \<Longrightarrow> started_at n = started_at r \<Longrightarrow> overlay r n r = n"
  by (simp add: overlay_def pick_def)

lemma get_runD: "get_run st i = Some r \<Longrightarrow> r \<in> set (runs st) \<and> run_id r = i"
  by (auto simp: get_run_def find_Some_iff)

lemma get_run_None: "get_run st i = None \<longleftrightarrow> i \<notin> run_id ` set (runs st)"
  by (auto simp: get_run_def find_None_iff)

lemma get_run_member:
  "distinct (map run_id (runs st)) \<Longrightarrow> r \<in> set (runs st) \<Longrightarrow> get_run st (run_id r) = Some r"
proof -
  assume d: "distinct (map run_id (runs st))" and r: "r \<in> set (runs st)"
  then obtain s where s: "get_run st (run_id r) = Some s"
    using get_run_None [of st "run_id r"] by (cases "get_run st (run_id r)") auto
  with get_runD have "s \<in> set (runs st)" "run_id s = run_id r" by blast+
  with d r have "s = r" by (simp add: distinct_map inj_on_def)
  with s show ?thesis by simp
qed

lemma by_workflowD: "by_workflow st w = Some r \<Longrightarrow> r \<in> set (runs st) \<and> workflow_id r = w"
  by (auto simp: by_workflow_def find_Some_iff)

lemma ids_update [simp]:
  "(\<And>r. run_id (f r) = run_id r) \<Longrightarrow> map run_id (update_run i f rs) = map run_id rs"
  "(\<And>r. workflow_id (f r) = workflow_id r) \<Longrightarrow> map workflow_id (update_run i f rs) = map workflow_id rs"
  by (auto simp: update_run_def)

lemma add_send_simps [simp]:
  "runs (add_entry e st) = runs st" "runs (send v st) = runs st"
  "error_log (add_entry e st) = error_log st" "error_log (send v st) = error_log st"
  "entries (send v st) = entries st" "entries (add_entry e st) = entries st @ [e]"
  "sent (add_entry e st) = sent st"
  by (simp_all add: add_entry_def send_def)

lemma saveD:
  assumes "save l n st = Inr st'"
  shows "st' = st\<lparr>runs := update_run (run_id n) (overlay l n) (runs st)\<rparr> \<and> constraints_ok (runs st')
    \<and> run_id n \<in> run_id ` set (runs st)"
  using assms by (auto simp: save_def Let_def get_run_None split: if_splits)

lemma save_ok: "save l n st = Inr st' \<Longrightarrow> constraints_ok (runs st')"
  by (simp add: saveD)

lemma insert_ok: "insert_run r st = Inr st' \<Longrightarrow> constraints_ok (runs st')"
  by (auto simp: insert_run_def split: if_splits)

text \<open>Ending a run, or leaving its status alone, is never refused.\<close>

lemma constraints_map:
  assumes "constraints_ok rs" "\<And>r. run_id (g r) = run_id r" "\<And>r. workflow_id (g r) = workflow_id r"
    and "\<And>r. scope (g r) = scope r" "\<And>r. r \<in> set rs \<Longrightarrow> is_active (g r) \<Longrightarrow> is_active r"
  shows "constraints_ok (map g rs)"
proof -
  have "distinct (map scope (filter is_active (map g rs)))
      \<and> set (map scope (filter is_active (map g rs))) \<subseteq> set (map scope (filter is_active rs))"
    if "distinct (map scope (filter is_active rs))"
    using that assms(5)
  proof (induction rs)
    case (Cons r rs)
    then have ih: "distinct (map scope (filter is_active (map g rs)))"
      "set (map scope (filter is_active (map g rs))) \<subseteq> set (map scope (filter is_active rs))"
      by (auto split: if_splits)
    have "is_active (g r) \<Longrightarrow> is_active r" using Cons.prems(2) [of r] by simp
    moreover have "scope r \<notin> set (map scope (filter is_active (map g rs)))" if "is_active r"
    proof
      assume "scope r \<in> set (map scope (filter is_active (map g rs)))"
      with ih(2) have "scope r \<in> set (map scope (filter is_active rs))" by blast
      with Cons.prems(1) that show False by simp
    qed
    ultimately show ?case using ih assms(4) [of r] by (cases "is_active (g r)") auto
  qed simp
  moreover have "map run_id (map g rs) = map run_id rs" "map workflow_id (map g rs) = map workflow_id rs"
    by (simp_all add: assms(2,3))
  ultimately show ?thesis using assms(1) unfolding constraints_ok_def by metis
qed

lemma constraints_update:
  assumes "constraints_ok rs" "\<And>r. run_id (f r) = run_id r" "\<And>r. workflow_id (f r) = workflow_id r"
    and "\<And>r. scope (f r) = scope r"
    and "\<And>r. r \<in> set rs \<Longrightarrow> run_id r = i \<Longrightarrow> is_active (f r) \<Longrightarrow> is_active r"
  shows "constraints_ok (update_run i f rs)"
  unfolding update_run_def by (rule constraints_map) (use assms in \<open>auto split: if_splits\<close>)

text \<open>At most one active run of a scope.\<close>

lemma single_active:
  assumes "constraints_ok rs" "r \<in> set rs" "s \<in> set rs" "is_active r" "is_active s" "scope r = scope s"
  shows "r = s"
  using assms unfolding constraints_ok_def distinct_map inj_on_def by simp

end
