(* ===== verification/RunCoordinator.thy ===== *)
theory RunCoordinator
  imports RunTable
begin

text \<open>
  \<^verbatim>\<open>backend/app/services/run_coordinator.py\<close>: the one seam that starts, advances, ends, cancels
  and retries background runs, and that folds the events of a pipeline into the row of its run.
  A handler is one step on the database, except where the code itself allows for others (between
  the check and the insertion of a new run); a handler reads the clock once. Metrics, logging,
  the elapsed time of a step, the flag in Redis and the registration of a workflow with the
  tracker are left out. Settings are fixed while a process lives.
\<close>

section \<open>Settings and process state\<close>

record config =
  flags_on :: "string list"
  stale_timeout :: int
  diagnostics :: "(string \<times> pyval) list"
  release :: string
  boot_id :: string
  process_owner :: string
  requeue_enabled :: bool
  requeue_max :: int
  requeue_window_hours :: int
  digest :: "string \<Rightarrow> string"
  isoformat :: "int \<Rightarrow> string"

record process =
  manifests :: "(string, manifest_step list) odict"
  wf_to_run :: "(string, string) odict"
  last_journalled :: "(string, string \<times> string) odict"
  hook_attached :: bool

datatype run_failure =
    AlreadyActive string
  | RunCancelled string
  | BadKey string
  | RowGone
  | Refused commit_error

definition REAP_ERROR :: string where
  "REAP_ERROR = ''stale run reaped''"

definition seconds :: "int \<Rightarrow> int" where
  "seconds n = n * 1000000"

definition last_journalled_max :: nat where
  "last_journalled_max = 512"

section \<open>Which run is active\<close>

definition is_live :: "config \<Rightarrow> int \<Rightarrow> run \<Rightarrow> bool" where
  "is_live cfg now r =
     (if is_active r then True
      else if run_status r \<noteq> Failed \<or> run_error r \<noteq> Some REAP_ERROR then False
      else case heartbeat_at r of None \<Rightarrow> False | Some beat \<Rightarrow> now - beat \<le> seconds (stale_timeout cfg))"

definition or_none :: "string option \<Rightarrow> string option" where
  "or_none s = (if s = Some [] then None else s)"

definition in_window :: "int \<Rightarrow> run \<Rightarrow> bool" where
  "in_window since r = (is_active r \<or> (case heartbeat_at r of None \<Rightarrow> False | Some beat \<Rightarrow> since \<le> beat))"

definition find_active :: "config \<Rightarrow> int \<Rightarrow> store \<Rightarrow> string \<Rightarrow> string \<Rightarrow> string option \<Rightarrow> run option" where
  "find_active cfg now st project kind conn =
     List.find (\<lambda>r. or_none (connection_id r) = or_none conn \<and> is_live cfg now r)
       (filter (\<lambda>r. project_id r = project \<and> run_kind r = kind
          \<and> in_window (now - seconds (stale_timeout cfg * 2)) r) (runs st))"

definition manifest_for :: "config \<Rightarrow> run \<Rightarrow> process \<Rightarrow> string + manifest_step list \<times> process" where
  "manifest_for cfg r p = (case map_of (manifests p) (run_id r) of
     Some m \<Rightarrow> Inr (m, p)
   | None \<Rightarrow> (case resolve_manifest (flags_on cfg) (run_kind r) of
       Inl e \<Rightarrow> Inl e
     | Inr m \<Rightarrow> Inr (m, p\<lparr>manifests := od_set (run_id r) m (manifests p)\<rparr>)))"

section \<open>The journal\<close>

text \<open>\<^verbatim>\<open>_record\<close>: an entry, and an event that carries the run and its progress.\<close>

definition record_step :: "run \<Rightarrow> string \<Rightarrow> string \<Rightarrow> string \<Rightarrow> string \<Rightarrow> store \<Rightarrow> store" where
  "record_step r step status detail level st =
     send \<lparr>ev_workflow = workflow_id r, ev_step = step, ev_status = status, ev_detail = detail,
           ev_run_id = Some (run_id r),
           ev_progress = Some (run_kind r, step_index r, total_steps r, progress_pct r)\<rparr>
       (add_entry \<lparr>entry_run = run_id r, entry_step = step, entry_status = status, entry_detail = detail,
           entry_progress = progress_pct r, entry_level = level\<rparr> st)"

text \<open>
  \<^verbatim>\<open>_journal\<close>: an entry, unless the last one this process wrote for the run has the same step
  and status. The memory of last entries is halved, oldest runs first, when it outgrows its bound.
\<close>

definition note_journalled :: "string \<Rightarrow> string \<times> string \<Rightarrow> process \<Rightarrow> process" where
  "note_journalled i key p =
     (let d = od_set i key (last_journalled p)
      in p\<lparr>last_journalled := (if length d > last_journalled_max
             then drop (last_journalled_max div 2) d else d)\<rparr>)"

definition journal :: "run \<Rightarrow> string \<Rightarrow> string \<Rightarrow> string \<Rightarrow> string \<Rightarrow> process \<Rightarrow> store \<Rightarrow> process \<times> store" where
  "journal r step status detail level p st =
     (if map_of (last_journalled p) (run_id r) = Some (step, status) then (p, st)
      else (note_journalled (run_id r) (step, status) p,
            add_entry \<lparr>entry_run = run_id r, entry_step = step, entry_status = status,
              entry_detail = detail, entry_progress = progress_pct r, entry_level = level\<rparr> st))"

definition catalog_run :: "config \<Rightarrow> int \<Rightarrow> run \<Rightarrow> store \<Rightarrow> store" where
  "catalog_run cfg now r st = st\<lparr>error_log := upsert (digest cfg) now (\<lambda>l. l)
     \<lparr>rep_project = Some (project_id r), rep_source = ''run'', rep_kind = run_kind r,
      rep_message = run_error r, rep_failure_kind = failure_kind r, rep_sample_ref = Some (run_id r),
      rep_meta = [(''connection_id'', case connection_id r of None \<Rightarrow> PNone | Some c \<Rightarrow> PStr c)]\<rparr>
     (error_log st)\<rparr>"

section \<open>Starting a run\<close>

definition start_meta :: "config \<Rightarrow> bool \<Rightarrow> pyval" where
  "start_meta cfg full = PDict
     [(''force_full'', PBool full), (''flags'', PDict (diagnostics cfg)), (''release'', PStr (release cfg)),
      (''boot_id'', PStr (boot_id cfg)), (''owner'', PStr (process_owner cfg))]"

definition new_run :: "config \<Rightarrow> int \<Rightarrow> string \<Rightarrow> string \<Rightarrow> string \<Rightarrow> string \<Rightarrow> string option \<Rightarrow> string \<Rightarrow> bool
    \<Rightarrow> manifest_step list \<Rightarrow> run" where
  "new_run cfg now i w kind project conn trig full m =
    \<lparr>run_id = i, workflow_id = w, project_id = project, connection_id = conn, run_kind = kind,
     trigger = trig, run_status = Running, current_step = None, step_index = 0,
     total_steps = int (length m), progress_pct = 0, run_error = None, failure_kind = None,
     cancel_requested = False, version = 0, started_at = Some now, finished_at = None,
     heartbeat_at = Some now, meta_json = Some (start_meta cfg full)\<rparr>"

definition start_insert :: "run \<Rightarrow> manifest_step list \<Rightarrow> process \<Rightarrow> store \<Rightarrow> commit_error + process \<times> store" where
  "start_insert r m p st = (case insert_run r st of
     Inl e \<Rightarrow> Inl e
   | Inr st' \<Rightarrow> Inr (p\<lparr>manifests := od_set (run_id r) m (manifests p),
                        wf_to_run := od_set (workflow_id r) (run_id r) (wf_to_run p)\<rparr>,
       record_step r ''pipeline_start'' ''started'' (''Starting '' @ run_kind r) ''info'' st'))"

text \<open>
  \<open>gap1\<close> is what others commit between the check and the insertion, \<open>gap2\<close> between the refused
  insertion and the second look; \<open>i\<close> and \<open>w\<close> are the generated identifiers.
\<close>

definition start :: "config \<Rightarrow> int \<Rightarrow> (store \<Rightarrow> store) \<Rightarrow> (store \<Rightarrow> store) \<Rightarrow> string \<Rightarrow> string \<Rightarrow> string
    \<Rightarrow> string \<Rightarrow> string option \<Rightarrow> string \<Rightarrow> bool \<Rightarrow> process \<Rightarrow> store
    \<Rightarrow> (run_failure + run) \<times> process \<times> store" where
  "start cfg now gap1 gap2 i w kind project conn trig full p st =
     (case find_active cfg now st project kind conn of
        Some r \<Rightarrow> (Inl (AlreadyActive (run_id r)), p, st)
      | None \<Rightarrow> (case resolve_manifest (flags_on cfg) kind of
          Inl e \<Rightarrow> (Inl (BadKey e), p, st)
        | Inr m \<Rightarrow> (let r = new_run cfg now i w kind project conn trig full m; st1 = gap1 st
            in case start_insert r m p st1 of
                 Inr (p', st') \<Rightarrow> (Inr r, p', st')
               | Inl e \<Rightarrow> (let st2 = gap2 st1 in
                   (Inl (AlreadyActive (case find_active cfg now st2 project kind conn of
                       None \<Rightarrow> ''unknown'' | Some r \<Rightarrow> run_id r)), p, st2)))))"

section \<open>Steps of a run\<close>

text \<open>The writer that keeps a run alive: by its id, or by its workflow, whatever the status.\<close>

definition beat :: "string \<Rightarrow> int \<Rightarrow> store \<Rightarrow> store" where
  "beat i now st = st\<lparr>runs := update_run i (\<lambda>r. r\<lparr>heartbeat_at := Some now\<rparr>) (runs st)\<rparr>"

definition beat_by_workflow :: "string \<Rightarrow> int \<Rightarrow> bool \<times> store \<Rightarrow> bool \<times> store" where
  "beat_by_workflow w now = (\<lambda>(warned, st).
     (\<not> (\<exists>r \<in> set (runs st). workflow_id r = w),
      st\<lparr>runs := map (\<lambda>r. if workflow_id r = w then r\<lparr>heartbeat_at := Some now\<rparr> else r) (runs st)\<rparr>))"

text \<open>What entering and completing a step of the manifest changes of the row.\<close>

definition entered :: "int \<Rightarrow> string \<Rightarrow> int \<Rightarrow> run \<Rightarrow> run" where
  "entered now key position r = r\<lparr>current_step := Some key, step_index := position, heartbeat_at := Some now\<rparr>"

definition advanced :: "int \<Rightarrow> manifest_step list \<Rightarrow> int \<Rightarrow> run \<Rightarrow> run" where
  "advanced now m position r = r\<lparr>progress_pct := progress_for m position, version := version r + 1,
     heartbeat_at := Some now\<rparr>"

text \<open>Entering a step: the object is refreshed, and a requested cancellation ends the step here.\<close>

definition step_enter :: "config \<Rightarrow> int \<Rightarrow> string \<Rightarrow> string \<Rightarrow> process \<Rightarrow> store
    \<Rightarrow> (run_failure + run) \<times> process \<times> store" where
  "step_enter cfg now key i p st =
     (case get_run st i of
        None \<Rightarrow> (Inl RowGone, p, st)
      | Some r \<Rightarrow>
          if cancel_requested r then
            (case save r (r\<lparr>run_status := Cancelling\<rparr>) st of
               Inl e \<Rightarrow> (Inl (Refused e), p, st)
             | Inr st' \<Rightarrow> (Inl (RunCancelled i), p, st'))
          else (case manifest_for cfg r p of
              Inl e \<Rightarrow> (Inl (BadKey e), p, st)
            | Inr (m, p') \<Rightarrow> (case step_position m key of
                None \<Rightarrow> (Inl (BadKey key), p', st)
              | Some position \<Rightarrow>
                  let r' = entered now key position r
                  in (case save r r' st of
                      Inl e \<Rightarrow> (Inl (Refused e), p', st)
                    | Inr st' \<Rightarrow> (Inr r', p', beat i now (record_step r' key ''started'' [] ''info'' st'))))))"

text \<open>Leaving it, after the body returned or raised.\<close>

definition step_leave :: "config \<Rightarrow> int \<Rightarrow> string \<Rightarrow> run \<Rightarrow> process \<Rightarrow> store
    \<Rightarrow> (run_failure + run) \<times> process \<times> store" where
  "step_leave cfg now key r p st =
     (case manifest_for cfg r p of
        Inl e \<Rightarrow> (Inl (BadKey e), p, st)
      | Inr (m, p') \<Rightarrow> (case step_position m key of
          None \<Rightarrow> (Inl (BadKey key), p', st)
        | Some position \<Rightarrow>
            let r' = advanced now m position r
            in (case save r r' st of
                Inl e \<Rightarrow> (Inl (Refused e), p', st)
              | Inr st' \<Rightarrow> (Inr r', p', record_step r' key ''completed'' [] ''info'' st'))))"

definition step_raise :: "string \<Rightarrow> string \<Rightarrow> run \<Rightarrow> store \<Rightarrow> store" where
  "step_raise key message r st = record_step r key ''failed'' message ''error'' st"

section \<open>Events of a pipeline\<close>

definition terminal_of :: "run \<Rightarrow> string \<Rightarrow> run_status" where
  "terminal_of r status = (if cancel_requested r then Cancelled
     else if status = ''failed'' then Failed else Completed)"

text \<open>The process forgets a run that ended.\<close>

definition forget_run :: "run \<Rightarrow> process \<Rightarrow> process" where
  "forget_run r p = p\<lparr>wf_to_run := od_del (workflow_id r) (wf_to_run p),
     manifests := od_del (run_id r) (manifests p)\<rparr>"

text \<open>
  What follows once the row of an ended run is committed. A refused write raises, which the
  tracker swallows: nothing is persisted.
\<close>

definition end_of_run :: "config \<Rightarrow> int \<Rightarrow> run_status \<Rightarrow> string \<Rightarrow> string \<Rightarrow> run \<Rightarrow> run \<Rightarrow> process \<Rightarrow> store
    \<Rightarrow> process \<times> store" where
  "end_of_run cfg now terminal step detail r r' p st =
     (case save r r' st of
        Inl e \<Rightarrow> (p, st)
      | Inr st1 \<Rightarrow>
          let (p2, st2) = journal r' step (status_name terminal) detail
                (if terminal = Failed then ''error'' else ''info'') p st1;
              st3 = (if terminal = Failed then catalog_run cfg now r' st2 else st2)
          in (forget_run r' p2, st3))"

definition ended_by_event :: "int \<Rightarrow> run_status \<Rightarrow> string \<Rightarrow> run \<Rightarrow> run" where
  "ended_by_event now terminal detail r = r\<lparr>
     run_status := terminal, finished_at := Some now, heartbeat_at := Some now, version := version r + 1,
     progress_pct := (if terminal = Completed then 100 else progress_pct r),
     run_error := (if terminal \<noteq> Completed \<and> detail \<noteq> [] then Some detail else run_error r),
     failure_kind := (if terminal = Failed then or_else (failure_kind r) (Some ''fatal'') else failure_kind r)\<rparr>"

definition apply_event :: "config \<Rightarrow> int \<Rightarrow> workflow_event \<Rightarrow> process \<Rightarrow> run \<Rightarrow> store \<Rightarrow> process \<times> store" where
  "apply_event cfg now ev p0 r st =
     (case manifest_for cfg r p0 of
        Inl e \<Rightarrow> (p0, st)
      | Inr (m, p) \<Rightarrow>
          if ev_step ev = ''pipeline_start'' then (p, st)
          else if ev_step ev = ''pipeline_end'' then
            let terminal = terminal_of r (ev_status ev)
            in end_of_run cfg now terminal (ev_step ev) (ev_detail ev) r (ended_by_event now terminal (ev_detail ev) r) p st
          else (case step_position m (ev_step ev) of
              None \<Rightarrow> journal r (ev_step ev) (ev_status ev) (ev_detail ev) ''info'' p st
            | Some position \<Rightarrow>
                if ev_status ev = ''started'' then
                  let r' = entered now (ev_step ev) position r
                  in (case save r r' st of
                      Inl e \<Rightarrow> (p, st)
                    | Inr st' \<Rightarrow> journal r' (ev_step ev) ''started'' (ev_detail ev) ''info'' p st')
                else if ev_status ev = ''completed'' \<or> ev_status ev = ''skipped'' then
                  let r' = advanced now m position r
                  in (case save r r' st of
                      Inl e \<Rightarrow> (p, st)
                    | Inr st' \<Rightarrow> journal r' (ev_step ev) (ev_status ev) (ev_detail ev) ''info'' p st')
                else if ev_status ev = ''failed'' then
                  journal r (ev_step ev) ''failed'' (ev_detail ev) ''error'' p st
                else (p, st)))"

text \<open>The dictionary of \<^verbatim>\<open>meta_json\<close>; a text that is no dictionary raises when it is assigned to.\<close>

definition meta_dict :: "pyval option \<Rightarrow> (string \<times> pyval) list option" where
  "meta_dict m = (case m of None \<Rightarrow> Some [] | Some (PDict d) \<Rightarrow> Some d | Some _ \<Rightarrow> None)"

definition reaped_note :: "config \<Rightarrow> run \<Rightarrow> pyval" where
  "reaped_note cfg r = PDict
     [(''error'', PStr (or_empty (or_else (run_error r) (Some REAP_ERROR)))),
      (''reaped_at'', case finished_at r of None \<Rightarrow> PNone | Some t \<Rightarrow> PStr (isoformat cfg t))]"

definition reconciled :: "config \<Rightarrow> int \<Rightarrow> run_status \<Rightarrow> string \<Rightarrow> (string \<times> pyval) list \<Rightarrow> run \<Rightarrow> run" where
  "reconciled cfg now terminal detail d r = r\<lparr>
     meta_json := Some (PDict (od_set ''reaped'' (reaped_note cfg r) d)),
     run_status := terminal, finished_at := Some now, heartbeat_at := Some now, version := version r + 1,
     progress_pct := (if terminal = Completed then 100 else progress_pct r),
     run_error := (if terminal = Completed then None else if detail \<noteq> [] then Some detail else run_error r),
     failure_kind := (if terminal = Completed then None else or_else (failure_kind r) (Some ''fatal''))\<rparr>"

definition reconcile_reaped_run :: "config \<Rightarrow> int \<Rightarrow> workflow_event \<Rightarrow> process \<Rightarrow> run \<Rightarrow> store \<Rightarrow> process \<times> store" where
  "reconcile_reaped_run cfg now ev p r st =
     (case meta_dict (meta_json r) of
        None \<Rightarrow> (p, st)
      | Some d \<Rightarrow> let terminal = terminal_of r (ev_status ev)
          in end_of_run cfg now terminal (ev_step ev) (ev_detail ev) r (reconciled cfg now terminal (ev_detail ev) d r) p st)"

text \<open>
  The persistence hook: which run an event is about, and what it does to it. An event relayed
  from another process, or emitted by the coordinator itself, is not persisted again.
\<close>

definition event_run :: "process \<Rightarrow> store \<Rightarrow> string \<Rightarrow> run option" where
  "event_run p st w =
     (let known = (case map_of (wf_to_run p) w of None \<Rightarrow> None | Some i \<Rightarrow> get_run st i)
      in case known of Some r \<Rightarrow> Some r | None \<Rightarrow> by_workflow st w)"

definition reaped :: "run \<Rightarrow> bool" where
  "reaped r \<longleftrightarrow> run_status r = Failed \<and> run_error r = Some REAP_ERROR"

definition on_loaded :: "config \<Rightarrow> int \<Rightarrow> workflow_event \<Rightarrow> process \<Rightarrow> run \<Rightarrow> store \<Rightarrow> process \<times> store" where
  "on_loaded cfg now ev p r st =
     (if terminal_status (run_status r) then
        if ev_step ev = ''pipeline_end'' \<and> reaped r then reconcile_reaped_run cfg now ev p r st else (p, st)
      else apply_event cfg now ev (p\<lparr>wf_to_run := od_set (ev_workflow ev) (run_id r) (wf_to_run p)\<rparr>) r st)"

definition on_event :: "config \<Rightarrow> int \<Rightarrow> bool \<Rightarrow> workflow_event \<Rightarrow> process \<Rightarrow> store \<Rightarrow> process \<times> store" where
  "on_event cfg now relayed ev p st =
     (if ev_run_id ev \<noteq> None \<or> relayed then (p, st)
      else case event_run p st (ev_workflow ev) of None \<Rightarrow> (p, st) | Some r \<Rightarrow> on_loaded cfg now ev p r st)"

text \<open>\<^verbatim>\<open>tracker.end\<close>: the event reaches the subscribers and then the hook, when one is attached.\<close>

definition end_event :: "run \<Rightarrow> run_status \<Rightarrow> string \<Rightarrow> workflow_event" where
  "end_event r status detail = \<lparr>ev_workflow = workflow_id r, ev_step = ''pipeline_end'',
     ev_status = status_name status,
     ev_detail = (if detail = [] then ''Pipeline '' @ run_kind r @ '' '' @ status_name status else detail),
     ev_run_id = None, ev_progress = None\<rparr>"

definition end_workflow :: "config \<Rightarrow> int \<Rightarrow> run \<Rightarrow> run_status \<Rightarrow> string \<Rightarrow> process \<Rightarrow> store \<Rightarrow> process \<times> store" where
  "end_workflow cfg now r status detail p st =
     (let st' = send (end_event r status detail) st
      in if hook_attached p then on_event cfg now False (end_event r status detail) p st' else (p, st'))"

section \<open>Ending, cancelling and retrying\<close>

definition finished :: "int \<Rightarrow> run_status \<Rightarrow> string option \<Rightarrow> string option \<Rightarrow> run \<Rightarrow> run" where
  "finished now status message fkind r = r\<lparr>
     run_status := status, finished_at := Some now, heartbeat_at := Some now, version := version r + 1,
     progress_pct := (if status = Completed then 100 else progress_pct r),
     run_error := (if message \<noteq> None then message else run_error r),
     failure_kind := (if fkind \<noteq> None then fkind else failure_kind r)\<rparr>"

definition finish_entry :: "run_status \<Rightarrow> string option \<Rightarrow> run \<Rightarrow> entry" where
  "finish_entry status message r =
    \<lparr>entry_run = run_id r, entry_step = ''pipeline_end'', entry_status = status_name status,
     entry_detail = or_empty (or_else message (Some (''Pipeline '' @ run_kind r @ '' '' @ status_name status))),
     entry_progress = progress_pct r, entry_level = (if status = Failed then ''error'' else ''info'')\<rparr>"

definition finish :: "config \<Rightarrow> int \<Rightarrow> run_status \<Rightarrow> string option \<Rightarrow> string option \<Rightarrow> run \<Rightarrow> run
    \<Rightarrow> process \<Rightarrow> store \<Rightarrow> (run_failure + run) \<times> process \<times> store" where
  "finish cfg now status message fkind loaded r p st =
     (let r' = finished now status message fkind r
      in case save loaded r' st of
        Inl e \<Rightarrow> (Inl (Refused e), p, st)
      | Inr st1 \<Rightarrow>
          let st2 = add_entry (finish_entry status message r') st1;
              (p3, st3) = end_workflow cfg now r' status (or_empty message) p st2;
              st4 = (if status = Failed then catalog_run cfg now r' st3 else st3)
          in (Inr r', p3\<lparr>manifests := od_del (run_id r') (manifests p3)\<rparr>, st4))"

definition request_cancel :: "string \<Rightarrow> store \<Rightarrow> commit_error + bool \<times> store" where
  "request_cancel i st = (case get_run st i of
     None \<Rightarrow> Inr (False, st)
   | Some r \<Rightarrow> if \<not> is_active r then Inr (False, st)
       else (case save r (r\<lparr>cancel_requested := True\<rparr>) st of
           Inl e \<Rightarrow> Inl e | Inr st' \<Rightarrow> Inr (True, st')))"

definition retry :: "config \<Rightarrow> int \<Rightarrow> (store \<Rightarrow> store) \<Rightarrow> (store \<Rightarrow> store) \<Rightarrow> string \<Rightarrow> string \<Rightarrow> string \<Rightarrow> bool
    \<Rightarrow> process \<Rightarrow> store \<Rightarrow> (run_failure + run) \<times> process \<times> store" where
  "retry cfg now gap1 gap2 i w old full p st =
     (case get_run st old of
        None \<Rightarrow> (Inl (BadKey (''run not found: '' @ old)), p, st)
      | Some r \<Rightarrow> (case start cfg now gap1 gap2 i w (run_kind r) (project_id r) (connection_id r) ''manual'' full p st of
          (Inl e, p', st') \<Rightarrow> (Inl e, p', st')
        | (Inr new, p', st') \<Rightarrow> (case meta_dict (meta_json new) of
            None \<Rightarrow> (Inl RowGone, p', st')
          | Some d \<Rightarrow>
              let new' = new\<lparr>meta_json := Some (PDict (od_set ''retried_from'' (PStr (run_id r))
                          (od_set ''force_full'' (PBool full) d)))\<rparr>
              in (case save new new' st' of
                  Inl e \<Rightarrow> (Inl (Refused e), p', st') | Inr st'' \<Rightarrow> (Inr new', p', st'')))))"

section \<open>Closing the parents of a nightly sync\<close>

text \<open>
  The end of \<^verbatim>\<open>run_for_project\<close> and \<^verbatim>\<open>_finish_connection_run\<close> of
  \<^verbatim>\<open>backend/app/services/daily_knowledge_sync_service.py\<close>: the work returned \<open>outcome\<close>
  (\<open>failed\<close> tells whether its status is the failed one), and its row is closed if it still is open.
\<close>

record outcome =
  out_status :: string
  out_steps :: pyval
  out_error :: "string option"

definition close_open_run :: "config \<Rightarrow> int \<Rightarrow> run_status \<Rightarrow> outcome \<Rightarrow> run \<Rightarrow> process \<Rightarrow> store
    \<Rightarrow> (run_failure + run) \<times> process \<times> store" where
  "close_open_run cfg now terminal out r p st =
     (let r' = r\<lparr>meta_json := Some (PDict [(''status'', PStr (out_status out)), (''steps'', out_steps out)])\<rparr>
      in case save r r' st of
        Inl e \<Rightarrow> (Inl (Refused e), p, st)
      | Inr st' \<Rightarrow> finish cfg now terminal (out_error out)
          (if terminal = Failed then Some ''fatal'' else None) r' r' p st')"

definition close_daily_run :: "config \<Rightarrow> int \<Rightarrow> string \<Rightarrow> outcome \<Rightarrow> process \<Rightarrow> store \<Rightarrow> process \<times> store" where
  "close_daily_run cfg now i out p st =
     (let terminal = (if out_status out = ''failed'' then Failed else Completed)
      in case get_run st i of
        None \<Rightarrow> (p, st)
      | Some r \<Rightarrow>
          if \<not> terminal_status (run_status r) then snd (close_open_run cfg now terminal out r p st)
          else if run_error r = Some REAP_ERROR then
            (case meta_dict (meta_json r) of
               None \<Rightarrow> (p, st)
             | Some d \<Rightarrow>
                 let d' = od_set ''steps'' (out_steps out) (od_set ''status'' (PStr (out_status out))
                       (od_set ''reaped'' (PDict [(''error'', PStr REAP_ERROR), (''reaped_at'', PNone)]) d));
                     r' = r\<lparr>meta_json := Some (PDict d'), run_status := terminal, run_error := out_error out,
                          failure_kind := (if terminal = Failed then Some ''fatal'' else None)\<rparr>
                 in (case save r r' st of Inl e \<Rightarrow> (p, st) | Inr st' \<Rightarrow> (p, st')))
          else (p, st))"

definition close_connection_run :: "config \<Rightarrow> int \<Rightarrow> string \<Rightarrow> outcome \<Rightarrow> process \<Rightarrow> store \<Rightarrow> process \<times> store" where
  "close_connection_run cfg now i out p st =
     (let terminal = (if out_status out = ''failed'' then Failed else Completed)
      in case get_run st i of
        None \<Rightarrow> (p, st)
      | Some r \<Rightarrow> if terminal_status (run_status r) then (p, st)
          else snd (close_open_run cfg now terminal out r p st))"

end
