(* ===== verification/RunReaper.thy ===== *)
theory RunReaper
  imports RunCoordinator
begin

text \<open>
  \<^verbatim>\<open>backend/app/services/stale_run_reaper.py\<close> and \<^verbatim>\<open>backend/app/ops/orphan_runs.py\<close>: rows that say
  \<^verbatim>\<open>running\<close> while nothing works on them are closed, recorded in the error catalog and, for some
  kinds, put back in the queue. The queue is a parameter that answers an enqueued job from the jobs
  accepted so far; writing to the catalog does not fail.
\<close>

section \<open>Stale rows\<close>

definition summary_stale :: "int \<Rightarrow> summary \<Rightarrow> bool" where
  "summary_stale cutoff s = (case sum_heartbeat s of Some b \<Rightarrow> b < cutoff | None \<Rightarrow> sum_updated s < cutoff)"

definition stale_run :: "int \<Rightarrow> run \<Rightarrow> bool" where
  "stale_run cutoff r = (case heartbeat_at r of
     Some b \<Rightarrow> b < cutoff
   | None \<Rightarrow> (case started_at r of Some s \<Rightarrow> s < cutoff | None \<Rightarrow> True))"

definition reset_stale :: "int \<Rightarrow> string \<Rightarrow> summary list \<Rightarrow> summary list" where
  "reset_stale cutoff status rows = map (\<lambda>s.
     if sum_status s = ''running'' \<and> summary_stale cutoff s then s\<lparr>sum_status := status\<rparr> else s) rows"

definition stale_count :: "int \<Rightarrow> summary list \<Rightarrow> nat" where
  "stale_count cutoff rows = length (filter (\<lambda>s. sum_status s = ''running'' \<and> summary_stale cutoff s) rows)"

definition doomed :: "int \<Rightarrow> run \<Rightarrow> bool" where
  "doomed cutoff r \<longleftrightarrow> run_status r = Running \<and> stale_run cutoff r"

definition half_cancelled :: "int \<Rightarrow> run \<Rightarrow> bool" where
  "half_cancelled cutoff r \<longleftrightarrow> run_status r = Cancelling \<and> stale_run cutoff r"

definition reap_run :: "int \<Rightarrow> int \<Rightarrow> run \<Rightarrow> run" where
  "reap_run now cutoff r =
     (if doomed cutoff r then r\<lparr>run_status := Failed, run_error := Some REAP_ERROR,
          failure_kind := Some ''fatal'', finished_at := Some now\<rparr>
      else if half_cancelled cutoff r then r\<lparr>run_status := Cancelled, finished_at := Some now\<rparr>
      else r)"

text \<open>Rows that neither a heartbeat nor a start dates are reaped, and counted for a warning.\<close>

definition unaccountable :: "run list \<Rightarrow> nat" where
  "unaccountable rs = length (filter (\<lambda>r. run_status r \<in> {Running, Cancelling}
     \<and> heartbeat_at r = None \<and> started_at r = None) rs)"

section \<open>Putting work back\<close>

record job =
  job_task :: string
  job_project :: string
  job_force_full :: "bool option"

datatype enqueue_reply = Enqueued string | NoJob | EnqueueRaised

type_synonym queue = "job list \<Rightarrow> job \<Rightarrow> enqueue_reply"

definition catalog_lost :: "config \<Rightarrow> int \<Rightarrow> string \<Rightarrow> string \<Rightarrow> (string \<times> pyval) list \<Rightarrow> run \<Rightarrow> store \<Rightarrow> store" where
  "catalog_lost cfg now message fkind note r st = st\<lparr>error_log := upsert (digest cfg) now (\<lambda>l. l)
     \<lparr>rep_project = Some (project_id r), rep_source = ''run'', rep_kind = run_kind r,
      rep_message = Some message, rep_failure_kind = Some fkind, rep_sample_ref = Some (run_id r),
      rep_meta = note\<rparr> (error_log st)\<rparr>"

definition opt_text :: "string option \<Rightarrow> pyval" where
  "opt_text s = (case s of None \<Rightarrow> PNone | Some t \<Rightarrow> PStr t)"

definition step_name :: "run \<Rightarrow> string" where
  "step_name r = or_empty (or_else (current_step r) (Some ''unknown''))"

definition catalog_reaped :: "config \<Rightarrow> int \<Rightarrow> run \<Rightarrow> store \<Rightarrow> store" where
  "catalog_reaped cfg now r st =
     catalog_lost cfg now (REAP_ERROR @ '' (step: '' @ step_name r @ '')'') ''fatal''
       [(''connection_id'', opt_text (connection_id r)), (''current_step'', opt_text (current_step r))] r st"

text \<open>
  How many runs of a project and kind were reaped within the window, the run at hand excepted. A
  run of another release does not count when the release is known; a \<^verbatim>\<open>meta_json\<close> that is no
  dictionary makes the whole count unknown, which is the bound.
\<close>

definition reaped_before :: "config \<Rightarrow> int \<Rightarrow> run \<Rightarrow> store \<Rightarrow> run list" where
  "reaped_before cfg now r st = filter (\<lambda>s. project_id s = project_id r \<and> run_kind s = run_kind r
     \<and> run_error s = Some REAP_ERROR
     \<and> (case finished_at s of None \<Rightarrow> False | Some t \<Rightarrow> now - seconds (requeue_window_hours cfg * 3600) \<le> t)
     \<and> run_id s \<noteq> run_id r) (runs st)"

text \<open>The release a row is stamped with: \<open>None\<close> where reading it raises.\<close>

definition stamp :: "pyval option \<Rightarrow> pyval option" where
  "stamp m = (case m of
     None \<Rightarrow> Some (PStr [])
   | Some v \<Rightarrow> if \<not> truthy v then Some (PStr [])
       else (case v of PDict d \<Rightarrow> Some (dict_get d ''release'' (PStr [])) | _ \<Rightarrow> None))"

definition counts_here :: "config \<Rightarrow> pyval \<Rightarrow> bool" where
  "counts_here cfg v \<longleftrightarrow> v = PStr (release cfg) \<or> \<not> truthy v"

definition requeue_attempts :: "config \<Rightarrow> int \<Rightarrow> run \<Rightarrow> store \<Rightarrow> int" where
  "requeue_attempts cfg now r st =
     (let rows = reaped_before cfg now r st; stamps = map (stamp \<circ> meta_json) rows
      in if release cfg = [] then int (length rows)
         else if None \<in> set stamps then requeue_max cfg
         else int (length (filter (\<lambda>v. counts_here cfg (the v)) stamps)))"

definition run_meta :: "pyval option \<Rightarrow> (string \<times> pyval) list" where
  "run_meta m = (case m of Some (PDict d) \<Rightarrow> d | _ \<Rightarrow> [])"

definition force_full_of :: "(string \<times> pyval) list \<Rightarrow> bool" where
  "force_full_of d = truthy (dict_get d ''force_full'' (PBool False))"

definition reap_task :: "string \<Rightarrow> string option" where
  "reap_task kind = map_of [(''index_repo'', ''run_repo_index'')] kind"

definition requeue_one :: "config \<Rightarrow> queue \<Rightarrow> int \<Rightarrow> store \<Rightarrow> run \<Rightarrow> job list \<Rightarrow> job list" where
  "requeue_one cfg q now st r jobs = (case reap_task (run_kind r) of
     None \<Rightarrow> jobs
   | Some task \<Rightarrow>
       if requeue_max cfg \<le> requeue_attempts cfg now r st then jobs
       else let j = \<lparr>job_task = task, job_project = project_id r,
                     job_force_full = Some (force_full_of (run_meta (meta_json r)))\<rparr>
         in (case q jobs j of Enqueued i \<Rightarrow> jobs @ [j] | _ \<Rightarrow> jobs))"

definition requeue :: "config \<Rightarrow> queue \<Rightarrow> int \<Rightarrow> store \<Rightarrow> run list \<Rightarrow> job list \<Rightarrow> job list" where
  "requeue cfg q now st lost jobs =
     (if lost = [] \<or> \<not> requeue_enabled cfg then jobs else fold (requeue_one cfg q now st) lost jobs)"

text \<open>One pass: the three summaries, the runs, the catalog and the queue.\<close>

record sweep_counts =
  swept_db :: nat
  swept_sync :: nat
  swept_repo :: nat
  swept_runs :: nat

definition reap_once :: "config \<Rightarrow> queue \<Rightarrow> int \<Rightarrow> int \<Rightarrow> store \<Rightarrow> job list \<Rightarrow> sweep_counts \<times> store \<times> job list" where
  "reap_once cfg q now timeout st jobs =
     (let cutoff = now - seconds timeout;
          lost = filter (doomed cutoff) (runs st);
          st1 = st\<lparr>db_summaries := reset_stale cutoff ''failed'' (db_summaries st),
                   sync_summaries := reset_stale cutoff ''failed'' (sync_summaries st),
                   checkpoints := reset_stale cutoff ''interrupted'' (checkpoints st),
                   runs := map (reap_run now cutoff) (runs st)\<rparr>;
          st2 = fold (catalog_reaped cfg now) lost st1
      in (\<lparr>swept_db = stale_count cutoff (db_summaries st), swept_sync = stale_count cutoff (sync_summaries st),
           swept_repo = stale_count cutoff (checkpoints st),
           swept_runs = length lost + length (filter (half_cancelled cutoff) (runs st))\<rparr>,
          st2, requeue cfg q now st2 lost jobs))"

section \<open>Runs orphaned by a restart\<close>

definition ORPHAN_ERROR :: string where
  "ORPHAN_ERROR = ''orphaned by a process restart''"

definition orphanable_kinds :: "string list" where
  "orphanable_kinds = [''index_repo'', ''daily_sync'', ''db_index'', ''code_db_sync'']"

definition orphan_task :: "string \<Rightarrow> string option" where
  "orphan_task kind = map_of [(''index_repo'', ''run_repo_index''),
     (''daily_sync'', ''run_daily_project_knowledge_sync'')] kind"

text \<open>
  \<open>None\<close> where reading the \<^verbatim>\<open>meta_json\<close> of a row raises outside every handler (it is a value with
  a truth but no \<^verbatim>\<open>get\<close>): the sweep ends there.
\<close>

definition orphan_meta :: "pyval option \<Rightarrow> (string \<times> pyval) list option" where
  "orphan_meta m = (case m of
     None \<Rightarrow> Some []
   | Some v \<Rightarrow> if \<not> truthy v then Some [] else (case v of PDict d \<Rightarrow> Some d | _ \<Rightarrow> None))"

text \<open>\<^verbatim>\<open>meta.get(key) or ""\<close>.\<close>

definition get_or_empty :: "(string \<times> pyval) list \<Rightarrow> string \<Rightarrow> pyval" where
  "get_or_empty d key = (let v = dict_get d key PNone in if truthy v then v else PStr [])"

definition orphaned :: "config \<Rightarrow> (string \<times> pyval) list \<Rightarrow> bool" where
  "orphaned cfg d =
     (let boot = get_or_empty d ''boot_id''; stamped = get_or_empty d ''owner''
      in if \<not> truthy boot \<or> \<not> truthy stamped then False
         else if process_owner cfg = [] \<or> stamped \<noteq> PStr (process_owner cfg) then False
         else boot \<noteq> PStr (boot_id cfg))"

definition orphan_note :: "config \<Rightarrow> run \<Rightarrow> (string \<times> pyval) list" where
  "orphan_note cfg r = [(''current_step'', opt_text (current_step r)), (''boot_id'', PStr (boot_id cfg))]"

definition close_orphan :: "int \<Rightarrow> run \<Rightarrow> run" where
  "close_orphan now r = r\<lparr>run_status := Failed, run_error := Some ORPHAN_ERROR,
     finished_at := Some now, failure_kind := Some ''transient''\<rparr>"

definition orphan_job :: "run \<Rightarrow> (string \<times> pyval) list \<Rightarrow> string \<Rightarrow> job" where
  "orphan_job r d task = \<lparr>job_task = task, job_project = project_id r,
     job_force_full = (if run_kind r = ''index_repo'' then Some (force_full_of d) else None)\<rparr>"

definition orphan_one :: "config \<Rightarrow> queue \<Rightarrow> int \<Rightarrow> run \<Rightarrow> (string \<times> pyval) list
    \<Rightarrow> nat \<times> store \<times> job list \<Rightarrow> nat \<times> store \<times> job list" where
  "orphan_one cfg q now r d = (\<lambda>(n, st, jobs).
     if \<not> orphaned cfg d then (n, st, jobs)
     else case save r (close_orphan now r) st of
       Inl e \<Rightarrow> (n, st, jobs)
     | Inr st1 \<Rightarrow>
         let st2 = catalog_lost cfg now (ORPHAN_ERROR @ '' (step: '' @ step_name r @ '')'') ''transient''
                     (orphan_note cfg r) r st1
         in case orphan_task (run_kind r) of
              None \<Rightarrow> (n, st2, jobs)
            | Some task \<Rightarrow> (case q jobs (orphan_job r d task) of
                EnqueueRaised \<Rightarrow> (n, st2, jobs)
              | NoJob \<Rightarrow> (n, catalog_lost cfg now
                    (ORPHAN_ERROR @ '' (re-enqueue failed -- nothing is rebuilding it)'') ''fatal''
                    (orphan_note cfg r) r st2, jobs)
              | Enqueued i \<Rightarrow> (n + 1, st2, jobs @ [orphan_job r d task])))"

fun orphan_rows :: "config \<Rightarrow> queue \<Rightarrow> int \<Rightarrow> run list \<Rightarrow> nat \<times> store \<times> job list
    \<Rightarrow> run option \<times> nat \<times> store \<times> job list" where
  "orphan_rows cfg q now [] s = (None, s)"
| "orphan_rows cfg q now (r # rs) s = (case orphan_meta (meta_json r) of
     None \<Rightarrow> (Some r, s)
   | Some d \<Rightarrow> orphan_rows cfg q now rs (orphan_one cfg q now r d s))"

text \<open>The first component is the row that ended the sweep with an exception, if any.\<close>

definition requeue_orphaned_runs :: "config \<Rightarrow> queue \<Rightarrow> int \<Rightarrow> store \<Rightarrow> job list
    \<Rightarrow> run option \<times> nat \<times> store \<times> job list" where
  "requeue_orphaned_runs cfg q now st jobs =
     orphan_rows cfg q now (filter (\<lambda>r. run_status r = Running \<and> run_kind r \<in> set orphanable_kinds) (runs st))
       (0, st, jobs)"

end
