(* ===== verification/RunInvariants.thy ===== *)
theory RunInvariants
  imports RunReaper
begin

text \<open>
  What holds of the rows of background runs however the operations of any number of processes
  interleave. A session may hold an object it loaded long ago, and writes what it changed of it;
  the coordinator, the hook, the reaper and the sweep work on the same rows.
\<close>

section \<open>The invariant\<close>

definition row_ok :: "run \<Rightarrow> bool" where
  "row_ok r \<longleftrightarrow> 0 \<le> progress_pct r \<and> progress_pct r \<le> 100 \<and> 0 \<le> step_index r
     \<and> (terminal_status (run_status r) \<longrightarrow> finished_at r \<noteq> None)"

text \<open>A held object has a row, and never knows of an end that its row does not show.\<close>

definition knows_less :: "run list \<Rightarrow> run \<Rightarrow> bool" where
  "knows_less rs h \<longleftrightarrow> run_id h \<in> run_id ` set rs \<and> (\<forall>r \<in> set rs. run_id r = run_id h \<longrightarrow> finished_at h \<noteq> None \<longrightarrow> finished_at r \<noteq> None)"

definition sys_inv :: "store \<Rightarrow> run list \<Rightarrow> bool" where
  "sys_inv st held \<longleftrightarrow> constraints_ok (runs st) \<and> (\<forall>r \<in> set (runs st). row_ok r)
     \<and> (\<forall>h \<in> set held. row_ok h \<and> knows_less (runs st) h)"

text \<open>What code makes of an object it holds.\<close>

definition derived :: "run \<Rightarrow> run \<Rightarrow> bool" where
  "derived l n \<longleftrightarrow> row_ok n \<and> run_id n = run_id l \<and> (finished_at n = None \<longrightarrow> finished_at l = None)"

definition proc_ok :: "process \<Rightarrow> bool" where
  "proc_ok p \<longleftrightarrow> (\<forall>i m. map_of (manifests p) i = Some m \<longrightarrow> manifest_ok m)"

lemma sys_inv_runs: "sys_inv st held \<Longrightarrow> runs st' = runs st \<Longrightarrow> sys_inv st' held"
  by (simp add: sys_inv_def)

lemma sys_inv_sub: "sys_inv st held \<Longrightarrow> set held' \<subseteq> set held \<Longrightarrow> sys_inv st held'"
  by (auto simp: sys_inv_def)

lemma sys_inv_held: "sys_inv st held \<Longrightarrow> h \<in> set held \<Longrightarrow> sys_inv st (h # held)"
  by (auto simp: sys_inv_def)

lemma sys_inv_row:
  assumes "sys_inv st held" "r \<in> set (runs st)"
  shows "sys_inv st (r # held)"
proof -
  have "knows_less (runs st) r"
    using assms unfolding knows_less_def sys_inv_def constraints_ok_def distinct_map inj_on_def by (metis imageI)
  then show ?thesis using assms by (auto simp: sys_inv_def)
qed

lemma sys_inv_load: "sys_inv st held \<Longrightarrow> get_run st i = Some r \<Longrightarrow> sys_inv st (r # held)"
  by (rule sys_inv_row) (auto dest: get_runD)

section \<open>Writing a row\<close>

lemma overlay_row_ok:
  assumes "row_ok row" "derived l n" "finished_at l \<noteq> None \<longrightarrow> finished_at row \<noteq> None"
  shows "row_ok (overlay l n row)"
  using assms unfolding row_ok_def derived_def overlay_def pick_def by auto

lemma overlay_finished:
  assumes "derived l n" "finished_at row \<noteq> None"
  shows "finished_at (overlay l n row) \<noteq> None"
  using assms unfolding derived_def overlay_def pick_def by auto

lemma overlay_finished_new:
  assumes "derived l n" "finished_at l \<noteq> None \<longrightarrow> finished_at row \<noteq> None" "finished_at n \<noteq> None"
  shows "finished_at (overlay l n row) \<noteq> None"
  using assms unfolding derived_def overlay_def pick_def by auto

lemma save_inv:
  assumes "sys_inv st (l # held)" "derived l n" "save l n st = Inr st'"
  shows "sys_inv st' (n # l # held)"
proof -
  have st': "runs st' = update_run (run_id n) (overlay l n) (runs st)" and ok: "constraints_ok (runs st')"
    using saveD [OF assms(3)] by (simp, blast)
  have id: "run_id n = run_id l" using assms(2) by (simp add: derived_def)
  have rows: "\<forall>r \<in> set (runs st). row_ok r" and less: "knows_less (runs st) h" and hok: "row_ok h"
    if "h \<in> set (l # held)" for h
    using assms(1) that by (auto simp: sys_inv_def)
  have link: "finished_at l \<noteq> None \<longrightarrow> finished_at r \<noteq> None" if "r \<in> set (runs st)" "run_id r = run_id n" for r
    using less [of l] that id by (simp add: knows_less_def)
  have "row_ok r'" if "r' \<in> set (runs st')" for r'
    using that rows [of l] overlay_row_ok [OF _ assms(2) link] by (auto simp: st' update_run_def)
  moreover have ids: "run_id ` set (runs st') = run_id ` set (runs st)"     unfolding st' set_map [symmetric] by (subst ids_update) simp_all
  moreover have "knows_less (runs st') h" if "h \<in> set (l # held)" for h
    using less [OF that] overlay_finished [OF assms(2)] unfolding knows_less_def ids
    by (auto simp: st' update_run_def)
  moreover have "knows_less (runs st') n"
    using overlay_finished_new [OF assms(2) link] less [of l] unfolding knows_less_def ids
    by (auto simp: st' update_run_def id)
  moreover have "row_ok n" using assms(2) by (simp add: derived_def)
  ultimately show ?thesis using ok hok by (auto simp: sys_inv_def)
qed

lemma map_inv:
  assumes "sys_inv st held" "runs st' = map g (runs st)"
    and "\<And>r. run_id (g r) = run_id r" "\<And>r. workflow_id (g r) = workflow_id r" "\<And>r. scope (g r) = scope r"
    and "\<And>r. is_active (g r) \<Longrightarrow> is_active r"
    and "\<And>r. row_ok r \<Longrightarrow> row_ok (g r)" "\<And>r. finished_at r \<noteq> None \<Longrightarrow> finished_at (g r) \<noteq> None"
  shows "sys_inv st' held"
proof -
  have "constraints_ok (runs st')" unfolding assms(2)
    by (rule constraints_map) (use assms(1,3-6) in \<open>auto simp: sys_inv_def\<close>)
  moreover have "knows_less (runs st') h" if "knows_less (runs st) h" for h
    using that assms(8) by (auto simp: knows_less_def assms(2,3) image_image)
  ultimately show ?thesis using assms(1,7) by (auto simp: sys_inv_def assms(2))
qed

section \<open>What an event writes\<close>

text \<open>The object a handler of an event commits, if it commits any.\<close>

definition saved_runs :: "run \<Rightarrow> run \<Rightarrow> store \<Rightarrow> run list" where
  "saved_runs l n st = (case save l n st of Inl e \<Rightarrow> runs st | Inr st' \<Rightarrow> runs st')"

definition event_effect :: "config \<Rightarrow> int \<Rightarrow> workflow_event \<Rightarrow> process \<Rightarrow> run \<Rightarrow> run option" where
  "event_effect cfg now ev p r = (case manifest_for cfg r p of
     Inl e \<Rightarrow> None
   | Inr (m, p') \<Rightarrow>
       if ev_step ev = ''pipeline_start'' then None
       else if ev_step ev = ''pipeline_end'' then
         Some (ended_by_event now (terminal_of r (ev_status ev)) (ev_detail ev) r)
       else (case step_position m (ev_step ev) of
           None \<Rightarrow> None
         | Some position \<Rightarrow>
             if ev_status ev = ''started'' then
               Some (entered now (ev_step ev) position r)
             else if ev_status ev = ''completed'' \<or> ev_status ev = ''skipped'' then
               Some (advanced now m position r)
             else None))"

definition loaded_effect :: "config \<Rightarrow> int \<Rightarrow> workflow_event \<Rightarrow> process \<Rightarrow> run \<Rightarrow> run option" where
  "loaded_effect cfg now ev p r =
     (if terminal_status (run_status r) then
        if ev_step ev = ''pipeline_end'' \<and> reaped r then
          (case meta_dict (meta_json r) of
             None \<Rightarrow> None
           | Some d \<Rightarrow> Some (reconciled cfg now (terminal_of r (ev_status ev)) (ev_detail ev) d r))
        else None
      else event_effect cfg now ev p r)"

definition effect_runs :: "run option \<Rightarrow> run \<Rightarrow> store \<Rightarrow> run list" where
  "effect_runs n r st = (case n of None \<Rightarrow> runs st | Some n \<Rightarrow> saved_runs r n st)"

lemma runs_journal [simp]: "runs (snd (journal r step status detail level p st)) = runs st"
  by (simp add: journal_def)

lemma runs_record [simp]: "runs (record_step r step status detail level st) = runs st"
  by (simp add: record_step_def)

lemma runs_catalog [simp]: "runs (catalog_run cfg now r st) = runs st"
  by (simp add: catalog_run_def)

lemma runs_end_of_run: "runs (snd (end_of_run cfg now t step detail r r' p st)) = saved_runs r r' st"
  by (auto simp: end_of_run_def saved_runs_def Let_def case_prod_beta split: sum.split)

lemma runs_apply_event: "runs (snd (apply_event cfg now ev p r st)) = effect_runs (event_effect cfg now ev p r) r st"
proof (cases "manifest_for cfg r p")
  case (Inr mp)
  show ?thesis
    by (cases mp) (auto simp: apply_event_def event_effect_def Inr effect_runs_def saved_runs_def Let_def
        runs_end_of_run split: option.split sum.split)
qed (simp add: apply_event_def event_effect_def effect_runs_def)

lemma manifest_for_other [simp]: "manifest_for cfg r (p\<lparr>wf_to_run := d\<rparr>) =
   (case manifest_for cfg r p of Inl e \<Rightarrow> Inl e | Inr (m, p') \<Rightarrow> Inr (m, p'\<lparr>wf_to_run := d\<rparr>))"
  by (auto simp: manifest_for_def split: option.split sum.split)

lemma event_effect_other [simp]: "event_effect cfg now ev (p\<lparr>wf_to_run := d\<rparr>) r = event_effect cfg now ev p r"
  by (auto simp: event_effect_def split: sum.split)

lemma runs_on_loaded: "runs (snd (on_loaded cfg now ev p r st)) = effect_runs (loaded_effect cfg now ev p r) r st"
  by (auto simp: on_loaded_def loaded_effect_def reconcile_reaped_run_def runs_end_of_run runs_apply_event
      effect_runs_def Let_def split: option.split)

lemma on_event_runs:
  "runs (snd (on_event cfg now relayed ev p st)) = runs st
   \<or> (\<exists>r. r \<in> set (runs st) \<and> workflow_id r = ev_workflow ev \<and>
        runs (snd (on_event cfg now relayed ev p st)) = effect_runs (loaded_effect cfg now ev p r) r st)
   \<or> (\<exists>r i. map_of (wf_to_run p) (ev_workflow ev) = Some i \<and> get_run st i = Some r \<and>
        runs (snd (on_event cfg now relayed ev p st)) = effect_runs (loaded_effect cfg now ev p r) r st)"
proof (cases "ev_run_id ev \<noteq> None \<or> relayed")
  case False
  then show ?thesis
    unfolding on_event_def event_run_def Let_def
    by (auto simp: runs_on_loaded dest: get_runD by_workflowD split: option.splits)
qed (simp add: on_event_def)

lemma on_event_row:
  "runs (snd (on_event cfg now relayed ev p st)) = runs st
   \<or> (\<exists>r \<in> set (runs st). runs (snd (on_event cfg now relayed ev p st)) = effect_runs (loaded_effect cfg now ev p r) r st)"
  using on_event_runs [of cfg now relayed ev p st] by (auto dest: get_runD)

section \<open>Every write is derived from what was held\<close>

lemma manifest_for_ok:
  "manifest_for cfg r p = Inr (m, p') \<Longrightarrow> proc_ok p \<Longrightarrow> manifest_ok m"
  by (auto simp: manifest_for_def proc_ok_def dest: resolve_manifest_ok split: option.splits sum.splits)

lemma step_position_pos: "step_position m key = Some i \<Longrightarrow> 0 \<le> i"
  unfolding step_position_def using position_bounds [of 1 m key i] by simp

lemma derived_ended: "row_ok r \<Longrightarrow> derived r (ended_by_event now t detail r)"
  by (auto simp: derived_def row_ok_def ended_by_event_def)

lemma derived_reconciled: "row_ok r \<Longrightarrow> derived r (reconciled cfg now t detail d r)"
  by (auto simp: derived_def row_ok_def reconciled_def)

lemma derived_finished: "row_ok r \<Longrightarrow> derived l r \<Longrightarrow> derived l (finished now status message fkind r)"
  by (auto simp: derived_def row_ok_def finished_def)

lemma derived_refl: "row_ok r \<Longrightarrow> derived r r"
  by (simp add: derived_def)

lemma derived_entered: "row_ok r \<Longrightarrow> 0 \<le> k \<Longrightarrow> derived r (entered now key k r)"
  by (simp add: derived_def row_ok_def entered_def)

lemma derived_advanced: "row_ok r \<Longrightarrow> manifest_ok m \<Longrightarrow> derived r (advanced now m k r)"
  using progress_bounds [of m k] by (simp add: derived_def row_ok_def advanced_def)

lemma derived_event:
  assumes "row_ok r" "proc_ok p" "event_effect cfg now ev p r = Some n"
  shows "derived r n"
  using assms manifest_for_ok [of cfg r p]
  by (auto simp: event_effect_def derived_ended derived_entered derived_advanced step_position_pos
      split: sum.splits if_splits option.splits)

lemma derived_loaded:
  assumes "row_ok r" "proc_ok p" "loaded_effect cfg now ev p r = Some n"
  shows "derived r n"
  using assms derived_event [OF assms(1,2), of cfg now ev n]
  by (auto simp: loaded_effect_def derived_reconciled split: if_splits option.splits)

lemma saved_inv:
  assumes "sys_inv st (r # held)" "derived r n" "runs st' = saved_runs r n st"
  shows "sys_inv st' (r # held)"
proof (cases "save r n st")
  case (Inl e)
  show ?thesis by (rule sys_inv_runs [OF assms(1)]) (simp add: assms(3) saved_runs_def Inl)
next
  case (Inr st1)
  have "sys_inv st1 (n # r # held)" by (rule save_inv [OF assms(1,2) Inr])
  then have "sys_inv st' (n # r # held)" by (rule sys_inv_runs) (simp add: assms(3) saved_runs_def Inr)
  then show ?thesis by (rule sys_inv_sub) auto
qed

lemma effect_inv:
  assumes "sys_inv st (r # held)" "\<And>n. e = Some n \<Longrightarrow> derived r n" "runs st' = effect_runs e r st"
  shows "sys_inv st' (r # held)"
proof (cases e)
  case None
  show ?thesis by (rule sys_inv_runs [OF assms(1)]) (simp add: assms(3) effect_runs_def None)
next
  case (Some n)
  show ?thesis by (rule saved_inv [OF assms(1)]) (use assms(2,3) Some in \<open>simp_all add: effect_runs_def\<close>)
qed

lemma on_loaded_inv:
  assumes "sys_inv st (r # held)" "proc_ok p"
  shows "sys_inv (snd (on_loaded cfg now ev p r st)) (r # held)"
proof (rule effect_inv)
  show "sys_inv st (r # held)" by (rule assms(1))
  have "row_ok r" using assms(1) by (simp add: sys_inv_def)
  then show "derived r n" if "loaded_effect cfg now ev p r = Some n" for n
    using that assms(2) by (intro derived_loaded)
qed (rule runs_on_loaded)

lemma on_event_inv:
  assumes "sys_inv st held" "proc_ok p"
  shows "sys_inv (snd (on_event cfg now relayed ev p st)) held"
proof -
  consider "runs (snd (on_event cfg now relayed ev p st)) = runs st"
    | r where "r \<in> set (runs st)" "runs (snd (on_event cfg now relayed ev p st)) = effect_runs (loaded_effect cfg now ev p r) r st"
    using on_event_row [of cfg now relayed ev p st] by blast
  then show ?thesis
  proof cases
    case 1
    with assms(1) show ?thesis by (rule sys_inv_runs)
  next
    case (2 r)
    have inv: "sys_inv st (r # held)" by (rule sys_inv_row [OF assms(1) 2(1)])
    have "sys_inv (snd (on_event cfg now relayed ev p st)) (r # held)"
    proof (rule effect_inv [OF inv _ 2(2)])
      have "row_ok r" using inv by (simp add: sys_inv_def)
      then show "derived r n" if "loaded_effect cfg now ev p r = Some n" for n
        using that assms(2) by (intro derived_loaded)
    qed
    then show ?thesis by (rule sys_inv_sub) auto
  qed
qed

section \<open>The operations of a session\<close>

lemma step_enter_inv:
  assumes "sys_inv st held" "proc_ok p" "step_enter cfg now key i p st = (res, p', st')"
  shows "sys_inv st' (case res of Inl e \<Rightarrow> held | Inr r \<Rightarrow> r # held)"
proof (cases "get_run st i")
  case None
  with assms show ?thesis by (auto simp: step_enter_def)
next
  case (Some r)
  have inv: "sys_inv st (r # held)" by (rule sys_inv_load [OF assms(1) Some])
  then have ok: "row_ok r" by (simp add: sys_inv_def)
  show ?thesis
  proof (cases "cancel_requested r")
    case True
    have "derived r (r\<lparr>run_status := Cancelling\<rparr>)"
      using ok by (simp add: derived_def row_ok_def terminal_status_def)
    then have "sys_inv st1 (r\<lparr>run_status := Cancelling\<rparr> # r # held)"
      if "save r (r\<lparr>run_status := Cancelling\<rparr>) st = Inr st1" for st1
      using that by (intro save_inv [OF inv])
    then have "sys_inv st1 held" if "save r (r\<lparr>run_status := Cancelling\<rparr>) st = Inr st1" for st1
      using sys_inv_sub [of st1 "r\<lparr>run_status := Cancelling\<rparr> # r # held" held] that by auto
    with True assms Some show ?thesis
      by (cases "save r (r\<lparr>run_status := Cancelling\<rparr>) st") (auto simp: step_enter_def)
  next
    case False
    note step = assms(3) [unfolded step_enter_def Some option.case if_not_P [OF False]]
    show ?thesis
    proof (cases "manifest_for cfg r p")
      case (Inl e)
      with step assms(1) show ?thesis by auto
    next
      case (Inr mp)
      obtain m p1 where mp: "mp = (m, p1)" by fastforce
      note step = step [unfolded Inr mp sum.case prod.case]
      show ?thesis
      proof (cases "step_position m key")
        case None
        with step assms(1) show ?thesis by auto
      next
        case (Some k)
        note step = step [unfolded Some option.case Let_def]
        show ?thesis
        proof (cases "save r (entered now key k r) st")
          case (Inl e)
          with step assms(1) show ?thesis by auto
        next
          case (Inr st1)
          have "derived r (entered now key k r)" using ok step_position_pos [OF Some] by (rule derived_entered)
          then have "sys_inv st1 (entered now key k r # r # held)" by (intro save_inv [OF inv _ Inr])
          then have one: "sys_inv st1 (entered now key k r # held)" by (rule sys_inv_sub) auto
          have "sys_inv (beat i now (record_step (entered now key k r) key ''started'' [] ''info'' st1))
              (entered now key k r # held)"
            by (rule map_inv [OF one, where g = "\<lambda>r. if run_id r = i then r\<lparr>heartbeat_at := Some now\<rparr> else r"])
              (auto simp: beat_def update_run_def scope_def is_active_def row_ok_def split: if_splits)
          with step Inr show ?thesis by auto
        qed
      qed
    qed
  qed
qed

lemma step_leave_inv:
  assumes "sys_inv st (r # held)" "proc_ok p" "step_leave cfg now key r p st = (res, p', st')"
  shows "sys_inv st' (case res of Inl e \<Rightarrow> r # held | Inr n \<Rightarrow> n # r # held)"
proof (cases "manifest_for cfg r p")
  case (Inl e)
  with assms show ?thesis by (auto simp: step_leave_def)
next
  case (Inr mp)
  obtain m p1 where mp: "mp = (m, p1)" by fastforce
  note step = assms(3) [unfolded step_leave_def Inr mp sum.case prod.case]
  have m: "manifest_ok m" using Inr mp manifest_for_ok assms(2) by blast
  have ok: "row_ok r" using assms(1) by (simp add: sys_inv_def)
  show ?thesis
  proof (cases "step_position m key")
    case None
    with step assms(1) show ?thesis by auto
  next
    case (Some k)
    note step = step [unfolded Some option.case Let_def]
    show ?thesis
    proof (cases "save r (advanced now m k r) st")
      case (Inl e)
      with step assms(1) show ?thesis by auto
    next
      case (Inr st1)
      have "sys_inv st1 (advanced now m k r # r # held)"
        by (intro save_inv [OF assms(1) _ Inr] derived_advanced ok m)
      then have "sys_inv (record_step (advanced now m k r) key ''completed'' [] ''info'' st1) (advanced now m k r # r # held)"
        by (rule sys_inv_runs) simp
      with step Inr show ?thesis by auto
    qed
  qed
qed

lemma end_workflow_inv:
  assumes "sys_inv st held" "proc_ok p"
  shows "sys_inv (snd (end_workflow cfg now r status detail p st)) held"
proof -
  have "sys_inv (send e st) held" for e using assms(1) by (rule sys_inv_runs) simp
  then show ?thesis using assms(2) by (simp add: end_workflow_def Let_def on_event_inv)
qed

lemma finish_runs:
  assumes "finish cfg now status message fkind l r p st = (res, p', st')"
  shows "(\<exists>e. save l (finished now status message fkind r) st = Inl e \<and> res = Inl (Refused e) \<and> st' = st)
    \<or> (\<exists>st1. save l (finished now status message fkind r) st = Inr st1
        \<and> res = Inr (finished now status message fkind r)
        \<and> runs st' = runs (snd (end_workflow cfg now (finished now status message fkind r) status (or_empty message) p
            (add_entry (finish_entry status message (finished now status message fkind r)) st1))))"
proof (cases "save l (finished now status message fkind r) st")
  case (Inl e)
  with assms show ?thesis by (simp add: finish_def)
next
  case (Inr st1)
  with assms show ?thesis by (auto simp: finish_def Let_def case_prod_beta)
qed

lemma finish_inv:
  assumes "sys_inv st (l # held)" "derived l r" "proc_ok p"
    and "finish cfg now status message fkind l r p st = (res, p', st')"
  shows "sys_inv st' (case res of Inl e \<Rightarrow> l # held | Inr n \<Rightarrow> n # l # held)"
  using finish_runs [OF assms(4)]
proof (elim disjE exE conjE)
  fix e assume "res = Inl (Refused e)" "st' = st"
  with assms(1) show ?thesis by simp
next
  fix st1
  let ?n = "finished now status message fkind r"
  assume s: "save l ?n st = Inr st1" and res: "res = Inr ?n"
    and r: "runs st' = runs (snd (end_workflow cfg now ?n status (or_empty message) p
      (add_entry (finish_entry status message ?n) st1)))"
  have "row_ok r" using assms(2) by (simp add: derived_def)
  then have "sys_inv st1 (?n # l # held)"
    by (intro save_inv [OF assms(1) _ s] derived_finished assms(2))
  then have "sys_inv (add_entry (finish_entry status message ?n) st1) (?n # l # held)" by (rule sys_inv_runs) simp
  then have "sys_inv (snd (end_workflow cfg now ?n status (or_empty message) p
      (add_entry (finish_entry status message ?n) st1))) (?n # l # held)"
    by (rule end_workflow_inv [OF _ assms(3)])
  then have "sys_inv st' (?n # l # held)" by (rule sys_inv_runs) (rule r)
  then show ?thesis by (simp add: res)
qed

section \<open>Starting, cancelling, closing\<close>

lemma start_insert_inv:
  assumes "sys_inv st held" "row_ok r" "start_insert r m p st = Inr (p', st')"
  shows "sys_inv st' (r # held)"
proof -
  obtain st1 where st1: "insert_run r st = Inr st1" and st': "runs st' = runs st1"
    using assms(3) by (auto simp: start_insert_def split: sum.splits)
  have r1: "runs st1 = runs st @ [r]" and ok: "constraints_ok (runs st1)"
    using st1 by (auto simp: insert_run_def split: if_splits)
  have new: "run_id r \<notin> run_id ` set (runs st)" using ok r1 by (simp add: constraints_ok_def)
  have "knows_less (runs st1) h" if "h \<in> set held" for h
    using assms(1) that new by (auto simp: sys_inv_def knows_less_def r1)
  moreover have "knows_less (runs st1) r" using new by (auto simp: knows_less_def r1 intro: rev_image_eqI)
  ultimately have "sys_inv st1 (r # held)" using assms(1,2) ok by (auto simp: sys_inv_def r1)
  then show ?thesis by (rule sys_inv_runs) (rule st')
qed

lemma new_run_ok: "row_ok (new_run cfg now i w kind project conn trig full m)"
  by (simp add: row_ok_def new_run_def terminal_status_def)

lemma save_row_inv:
  assumes "sys_inv st held" "get_run st i = Some r" "derived r n" "save r n st = Inr st'"
  shows "sys_inv st' (n # held)"
  by (rule sys_inv_sub [OF save_inv [OF sys_inv_load [OF assms(1,2)] assms(3,4)]]) auto

lemma request_cancel_inv:
  assumes "sys_inv st held" "request_cancel i st = Inr (b, st')"
  shows "sys_inv st' held"
proof (cases "get_run st i")
  case None
  with assms show ?thesis by (simp add: request_cancel_def)
next
  case (Some r)
  show ?thesis
  proof (cases "is_active r")
    case False
    with Some assms show ?thesis by (simp add: request_cancel_def)
  next
    case True
    have ok: "row_ok r" using sys_inv_load [OF assms(1) Some] by (simp add: sys_inv_def)
    have "save r (r\<lparr>cancel_requested := True\<rparr>) st = Inr st'"
      using True Some assms(2) by (auto simp: request_cancel_def split: sum.splits)
    then have "sys_inv st' (r\<lparr>cancel_requested := True\<rparr> # held)"
      by (rule save_row_inv [OF assms(1) Some, rotated]) (use ok in \<open>simp add: derived_def row_ok_def\<close>)
    then show ?thesis by (rule sys_inv_sub) auto
  qed
qed

lemma beat_inv: "sys_inv st held \<Longrightarrow> sys_inv (beat i now st) held"
  by (erule map_inv [where g = "\<lambda>r. if run_id r = i then r\<lparr>heartbeat_at := Some now\<rparr> else r"])
    (auto simp: beat_def update_run_def scope_def is_active_def row_ok_def split: if_splits)

lemma runs_fold_catalog [simp]: "runs (fold (catalog_reaped cfg now) lost st) = runs st"
  by (induction lost arbitrary: st) (simp_all add: catalog_reaped_def catalog_lost_def)

lemma runs_reap_once: "runs (fst (snd (reap_once cfg q now timeout st jobs))) = map (reap_run now (now - seconds timeout)) (runs st)"
  by (simp add: reap_once_def Let_def)

lemma reap_run_fixed [simp]:
  "run_id (reap_run now c r) = run_id r" "workflow_id (reap_run now c r) = workflow_id r"
  "scope (reap_run now c r) = scope r"
  by (simp_all add: reap_run_def scope_def)

lemma reap_once_inv:
  assumes "sys_inv st held"
  shows "sys_inv (fst (snd (reap_once cfg q now timeout st jobs))) held"
proof (rule map_inv [OF assms runs_reap_once])
  fix r
  show "is_active (reap_run now (now - seconds timeout) r) \<Longrightarrow> is_active r"
    by (auto simp: reap_run_def is_active_def active_status_def doomed_def half_cancelled_def split: if_splits)
  show "row_ok r \<Longrightarrow> row_ok (reap_run now (now - seconds timeout) r)"
    by (auto simp: reap_run_def row_ok_def)
  show "finished_at r \<noteq> None \<Longrightarrow> finished_at (reap_run now (now - seconds timeout) r) \<noteq> None"
    by (auto simp: reap_run_def)
qed simp_all

lemma derived_orphan: "row_ok r \<Longrightarrow> derived r (close_orphan now r)"
  by (simp add: derived_def row_ok_def close_orphan_def)

lemma runs_catalog_lost [simp]: "runs (catalog_lost cfg now message fkind note r st) = runs st"
  by (simp add: catalog_lost_def)

lemma runs_orphan_one:
  "runs (fst (snd (orphan_one cfg q now r d (n, st, jobs)))) =
     (if orphaned cfg d then saved_runs r (close_orphan now r) st else runs st)"
  by (auto simp: orphan_one_def saved_runs_def Let_def split: sum.split option.split enqueue_reply.split)

lemma orphan_rows_inv:
  "sys_inv (fst (snd s)) (rs @ held) \<Longrightarrow> orphan_rows cfg q now rs s = (x, n', st', jobs') \<Longrightarrow> sys_inv st' held"
proof (induction rs arbitrary: s)
  case Nil
  then show ?case by auto
next
  case (Cons r rs)
  show ?case
  proof (cases "orphan_meta (meta_json r)")
    case None
    with Cons.prems have "fst (snd s) = st'" by auto
    with Cons.prems(1) show ?thesis by (auto intro: sys_inv_sub)
  next
    case (Some d)
    obtain k t jobs where s: "s = (k, t, jobs)" by (cases s) auto
    have inv: "sys_inv t (r # rs @ held)" using Cons.prems(1) s by simp
    then have ok: "row_ok r" by (simp add: sys_inv_def)
    have "sys_inv (fst (snd (orphan_one cfg q now r d s))) (r # rs @ held)"
    proof (cases "orphaned cfg d")
      case True
      show ?thesis unfolding s
        by (rule saved_inv [OF inv derived_orphan [OF ok]]) (simp add: runs_orphan_one True)
    next
      case False
      show ?thesis unfolding s by (rule sys_inv_runs [OF inv]) (simp add: runs_orphan_one False)
    qed
    then have "sys_inv (fst (snd (orphan_one cfg q now r d s))) (rs @ held)" by (rule sys_inv_sub) auto
    with Cons.IH Cons.prems(2) Some show ?thesis by simp
  qed
qed

lemma sys_inv_rows:
  "sys_inv st held \<Longrightarrow> set rs \<subseteq> set (runs st) \<Longrightarrow> sys_inv st (rs @ held)"
proof (induction rs)
  case (Cons r rs)
  then show ?case using sys_inv_row [of st "rs @ held" r] by simp
qed simp

lemma requeue_orphaned_inv:
  assumes "sys_inv st held" "requeue_orphaned_runs cfg q now st jobs = (x, n, st', jobs')"
  shows "sys_inv st' held"
proof (rule orphan_rows_inv)
  show "sys_inv (fst (snd (0, st, jobs)))
      (filter (\<lambda>r. run_status r = Running \<and> run_kind r \<in> set orphanable_kinds) (runs st) @ held)"
    using sys_inv_rows [OF assms(1)] by auto
qed (rule assms(2) [unfolded requeue_orphaned_runs_def])

lemma close_open_inv:
  assumes "sys_inv st held" "get_run st i = Some r" "proc_ok p"
  shows "sys_inv (snd (snd (close_open_run cfg now t out r p st))) held"
proof -
  define n where "n = r\<lparr>meta_json := Some (PDict [(''status'', PStr (out_status out)), (''steps'', out_steps out)])\<rparr>"
  have "row_ok r" using sys_inv_load [OF assms(1,2)] by (simp add: sys_inv_def)
  then have d: "derived r n" "derived n n" by (simp_all add: n_def derived_def row_ok_def)
  show ?thesis
  proof (cases "save r n st")
    case (Inl e)
    with assms(1) show ?thesis by (simp add: close_open_run_def Let_def n_def)
  next
    case (Inr st1)
    obtain res p' st' where f: "finish cfg now t (out_error out) (if t = Failed then Some ''fatal'' else None) n n p st1
        = (res, p', st')" by (metis surj_pair)
    have "sys_inv st1 (n # held)" by (rule save_row_inv [OF assms(1,2) d(1) Inr])
    from finish_inv [OF this d(2) assms(3) f] have "sys_inv st' held"
      by (cases res) (auto intro: sys_inv_sub)
    with f Inr show ?thesis by (simp add: close_open_run_def Let_def n_def)
  qed
qed

lemma close_daily_inv:
  assumes "sys_inv st held" "proc_ok p"
  shows "sys_inv (snd (close_daily_run cfg now i out p st)) held"
proof (cases "get_run st i")
  case None
  with assms(1) show ?thesis by (simp add: close_daily_run_def Let_def)
next
  case (Some r)
  define t where "t = (if out_status out = ''failed'' then Failed else Completed)"
  have ok: "row_ok r" using sys_inv_load [OF assms(1) Some] by (simp add: sys_inv_def)
  show ?thesis
  proof (cases "terminal_status (run_status r)")
    case False
    have "snd (close_daily_run cfg now i out p st) = snd (snd (close_open_run cfg now t out r p st))"
      using Some False by (simp add: close_daily_run_def Let_def t_def)
    then show ?thesis using close_open_inv [OF assms(1) Some assms(2)] by simp
  next
    case True
    show ?thesis
    proof (cases "run_error r = Some REAP_ERROR \<and> meta_dict (meta_json r) \<noteq> None")
      case False
      with Some True assms(1) show ?thesis by (auto simp: close_daily_run_def Let_def split: option.splits)
    next
      case err: True
      then obtain d where d: "meta_dict (meta_json r) = Some d" by blast
      define n where "n = r\<lparr>meta_json := Some (PDict (od_set ''steps'' (out_steps out) (od_set ''status'' (PStr (out_status out))
            (od_set ''reaped'' (PDict [(''error'', PStr REAP_ERROR), (''reaped_at'', PNone)]) d)))),
          run_status := t, run_error := out_error out, failure_kind := (if t = Failed then Some ''fatal'' else None)\<rparr>"
      have dn: "derived r n" using ok True by (simp add: n_def derived_def row_ok_def)
      have "snd (close_daily_run cfg now i out p st) = (case save r n st of Inl e \<Rightarrow> st | Inr st' \<Rightarrow> st')"
        using Some True err d by (simp add: close_daily_run_def Let_def t_def n_def split: sum.split)
      then show ?thesis
        using save_row_inv [OF assms(1) Some dn] assms(1) sys_inv_sub
        by (cases "save r n st") (simp, metis set_subset_Cons sum.case(2))
    qed
  qed
qed

lemma close_connection_inv:
  assumes "sys_inv st held" "proc_ok p"
  shows "sys_inv (snd (close_connection_run cfg now i out p st)) held"
proof (cases "get_run st i")
  case None
  with assms(1) show ?thesis by (simp add: close_connection_run_def Let_def)
next
  case (Some r)
  then show ?thesis
    using close_open_inv [OF assms(1) Some assms(2)] assms(1) by (simp add: close_connection_run_def Let_def)
qed

section \<open>The system\<close>

text \<open>
  One step of any process on the database and on the objects sessions hold. The settings, the
  clock and the memory of the process are those of whoever acts; nothing relates them. A step of
  the hook, of \<^verbatim>\<open>finish\<close> and of the end of a step acts on an object that may be out of date.
\<close>

inductive sys_step :: "store \<times> run list \<Rightarrow> store \<times> run list \<Rightarrow> bool" where
  Loading: "get_run st i = Some r \<Longrightarrow> sys_step (st, held) (st, r # held)"
| Starting: "resolve_manifest (flags_on cfg) kind = Inr m \<Longrightarrow>
    start_insert (new_run cfg now i w kind project conn trig full m) m p st = Inr (p', st') \<Longrightarrow>
    sys_step (st, held) (st', new_run cfg now i w kind project conn trig full m # held)"
| Retrying: "n \<in> set held \<Longrightarrow> save n (n\<lparr>meta_json := meta\<rparr>) st = Inr st' \<Longrightarrow>
    sys_step (st, held) (st', n\<lparr>meta_json := meta\<rparr> # held)"
| Entering: "proc_ok p \<Longrightarrow> step_enter cfg now key i p st = (res, p', st') \<Longrightarrow>
    sys_step (st, held) (st', case res of Inl e \<Rightarrow> held | Inr r \<Rightarrow> r # held)"
| Leaving: "proc_ok p \<Longrightarrow> r \<in> set held \<Longrightarrow> step_leave cfg now key r p st = (res, p', st') \<Longrightarrow>
    sys_step (st, held) (st', case res of Inl e \<Rightarrow> held | Inr n \<Rightarrow> n # held)"
| Raising: "r \<in> set held \<Longrightarrow> sys_step (st, held) (step_raise key message r st, held)"
| Finishing: "proc_ok p \<Longrightarrow> l \<in> set held \<Longrightarrow> r = l \<or> (\<exists>meta. r = l\<lparr>meta_json := meta\<rparr>) \<Longrightarrow>
    finish cfg now status message fkind l r p st = (res, p', st') \<Longrightarrow>
    sys_step (st, held) (st', case res of Inl e \<Rightarrow> held | Inr n \<Rightarrow> n # held)"
| Stopping: "request_cancel i st = Inr (b, st') \<Longrightarrow> sys_step (st, held) (st', held)"
| Beating: "sys_step (st, held) (beat i now st, held)"
| Event: "proc_ok p \<Longrightarrow> r \<in> set held \<Longrightarrow> sys_step (st, held) (snd (on_loaded cfg now ev p r st), held)"
| Reaping: "sys_step (st, held) (fst (snd (reap_once cfg q now timeout st jobs)), held)"
| Sweeping: "requeue_orphaned_runs cfg q now st jobs = (x, n, st', jobs') \<Longrightarrow> sys_step (st, held) (st', held)"
| Daily: "proc_ok p \<Longrightarrow> sys_step (st, held) (snd (close_daily_run cfg now i out p st), held)"
| Connection: "proc_ok p \<Longrightarrow> sys_step (st, held) (snd (close_connection_run cfg now i out p st), held)"

inductive sys_runs :: "store \<times> run list \<Rightarrow> store \<times> run list \<Rightarrow> bool" where
  Here: "sys_runs s s"
| There: "sys_runs s t \<Longrightarrow> sys_step t u \<Longrightarrow> sys_runs s u"

lemma held_sub: "sys_inv st' (case res of Inl e \<Rightarrow> r # held | Inr n \<Rightarrow> n # r # held)
   \<Longrightarrow> sys_inv st' (case res of Inl e \<Rightarrow> held | Inr n \<Rightarrow> n # held)"
  by (cases res) (auto intro: sys_inv_sub)

lemma sys_step_inv:
  assumes "sys_step s t" "sys_inv (fst s) (snd s)"
  shows "sys_inv (fst t) (snd t)"
  using assms
proof (induction rule: sys_step.induct)
  case (Loading st i r held)
  then show ?case by (simp add: sys_inv_load)
next
  case (Starting cfg kind m now i w project conn trig full p st p' st' held)
  then show ?case using start_insert_inv [OF _ new_run_ok] by simp
next
  case (Retrying n held meta st st')
  then have "sys_inv st (n # held)" "row_ok n" by (simp_all add: sys_inv_held) (simp add: sys_inv_def)
  then have "sys_inv st' (n\<lparr>meta_json := meta\<rparr> # n # held)"
    by (intro save_inv [OF _ _ Retrying.hyps(2)]) (simp_all add: derived_def row_ok_def)
  then show ?case by (auto intro: sys_inv_sub)
next
  case (Entering p cfg now key i st res p' st' held)
  then show ?case using step_enter_inv by simp
next
  case (Leaving p r held cfg now key st res p' st')
  then have "sys_inv st (r # held)" by (simp add: sys_inv_held)
  from step_leave_inv [OF this Leaving.hyps(1,3)] show ?case by (simp add: held_sub)
next
  case (Raising r held st key message)
  have "sys_inv (step_raise key message r st) held"
    by (rule sys_inv_runs [of st]) (use Raising in \<open>simp_all add: step_raise_def\<close>)
  then show ?case by simp
next
  case (Finishing p l held r cfg now status message fkind st res p' st')
  then have inv: "sys_inv st (l # held)" by (simp add: sys_inv_held)
  then have "row_ok l" by (simp add: sys_inv_def)
  with Finishing.hyps(3) have "derived l r" by (auto simp: derived_def row_ok_def)
  from finish_inv [OF inv this Finishing.hyps(1,4)] show ?case by (simp add: held_sub)
next
  case (Stopping i st b st' held)
  then show ?case using request_cancel_inv by simp
next
  case (Beating st held i now)
  then show ?case by (simp add: beat_inv)
next
  case (Event p r held st cfg now ev)
  then have "sys_inv st (r # held)" by (simp add: sys_inv_held)
  from on_loaded_inv [OF this Event.hyps(1), of cfg now ev]
  have "sys_inv (snd (on_loaded cfg now ev p r st)) held" by (rule sys_inv_sub) auto
  then show ?case by simp
next
  case (Reaping st held cfg q now timeout jobs)
  then show ?case by (simp add: reap_once_inv)
next
  case (Sweeping cfg q now st jobs x n st' jobs' held)
  then show ?case using requeue_orphaned_inv by simp
next
  case (Daily p st held cfg now i out)
  then show ?case by (simp add: close_daily_inv)
next
  case (Connection p st held cfg now i out)
  then show ?case by (simp add: close_connection_inv)
qed

lemma sys_runs_inv: "sys_runs s t \<Longrightarrow> sys_inv (fst s) (snd s) \<Longrightarrow> sys_inv (fst t) (snd t)"
  by (induction rule: sys_runs.induct) (auto intro: sys_step_inv)

text \<open>A database without runs.\<close>

definition no_runs :: "string list \<Rightarrow> string list \<Rightarrow> store" where
  "no_runs projects connections = \<lparr>runs = [], entries = [], error_log = [], sent = [],
     project_ids = projects, connection_ids = connections, db_summaries = [], sync_summaries = [], checkpoints = []\<rparr>"

lemma no_runs_inv: "sys_inv (no_runs projects connections) []"
  by (simp add: sys_inv_def no_runs_def constraints_ok_def)

end
