(* ===== verification/RunLifecycle.thy ===== *)
theory RunLifecycle
  imports RunInvariants
begin

text \<open>
  The life of a run as its users are promised it, and the refinement of that promise by the
  operations of the coordinator, the hook, the reaper and the restart sweep: a verdict is final,
  except the reaper's, which the pipeline's own end may still settle.
\<close>

section \<open>Simulation\<close>

text \<open>An operation of the code refines the abstract machine when it makes some of its steps.\<close>

locale simulation =
  fixes cstep :: "'s \<Rightarrow> 's \<Rightarrow> bool"
    and good :: "'s \<Rightarrow> bool"
    and astep :: "'a \<Rightarrow> 'a \<Rightarrow> bool"
    and abs_of :: "'s \<Rightarrow> 'a"
  assumes keeps: "good s \<Longrightarrow> cstep s t \<Longrightarrow> good t"
    and simulates: "good s \<Longrightarrow> cstep s t \<Longrightarrow> astep\<^sup>*\<^sup>* (abs_of s) (abs_of t)"
begin

lemma runs_simulate: "cstep\<^sup>*\<^sup>* s t \<Longrightarrow> good s \<Longrightarrow> good t \<and> astep\<^sup>*\<^sup>* (abs_of s) (abs_of t)"
proof (induction rule: rtranclp_induct)
  case (step t u)
  then have "good t" "astep\<^sup>*\<^sup>* (abs_of s) (abs_of t)" by simp_all
  with step.hyps(2) keeps simulates show ?case by (meson rtranclp_trans)
qed simp

text \<open>What the abstract machine cannot leave, no run of the code leaves.\<close>

lemma stuck_stays:
  assumes "cstep\<^sup>*\<^sup>* s t" "good s" "\<And>b. astep (abs_of s) b \<Longrightarrow> b = abs_of s"
  shows "abs_of t = abs_of s"
proof -
  have "astep\<^sup>*\<^sup>* (abs_of s) (abs_of t)" using runs_simulate assms(1,2) by blast
  then show ?thesis by (induction rule: rtranclp_induct) (use assms(3) in auto)
qed

end

section \<open>The abstract life of a run\<close>

datatype life = Absent | Live | Provisional | Ended run_status

inductive life_step :: "life \<Rightarrow> life \<Rightarrow> bool" where
  Begin: "life_step Absent Live"
| End: "life_step Live (Ended s)"
| GiveUp: "life_step Live Provisional"
| Settle: "life_step Provisional (Ended s)"

inductive_cases life_step_EndedE: "life_step (Ended s) x"
inductive_cases life_step_LiveE: "life_step Live x"

definition lives :: "run \<Rightarrow> life" where
  "lives r = (if is_active r then Live else if reaped r then Provisional else Ended (run_status r))"

definition life_of :: "string \<Rightarrow> store \<Rightarrow> life" where
  "life_of i st = (case get_run st i of None \<Rightarrow> Absent | Some r \<Rightarrow> lives r)"

text \<open>Only rows that failed carry the reaper's mark.\<close>

definition row_good :: "run \<Rightarrow> bool" where
  "row_good r \<longleftrightarrow> (run_error r = Some REAP_ERROR \<longrightarrow> run_status r = Failed)"

definition table_good :: "store \<Rightarrow> bool" where
  "table_good st \<longleftrightarrow> constraints_ok (runs st) \<and> (\<forall>r \<in> set (runs st). row_good r)"

section \<open>The operations\<close>

text \<open>
  Events of a pipeline's end carry a text, which is not the reaper's mark; \<^verbatim>\<open>finish\<close> is called, as
  its callers do, on a row that is open when it is loaded; a step is entered on a row that is open
  or has no cancellation pending.
\<close>

definition clean_event :: "workflow_event \<Rightarrow> bool" where
  "clean_event ev \<longleftrightarrow> (ev_step ev = ''pipeline_end'' \<longrightarrow> ev_detail ev \<noteq> [] \<and> ev_detail ev \<noteq> REAP_ERROR)"

inductive run_op :: "store \<Rightarrow> store \<Rightarrow> bool" where
  OpStart: "start cfg now (\<lambda>s. s) (\<lambda>s. s) i w kind project conn trig full p st = (res, p', st') \<Longrightarrow> run_op st st'"
| OpEnter: "step_enter cfg now key i p st = (res, p', st') \<Longrightarrow>
    (\<forall>r. get_run st i = Some r \<longrightarrow> cancel_requested r \<longrightarrow> is_active r) \<Longrightarrow> run_op st st'"
| OpLeave: "step_leave cfg now key r p st = (res, p', st') \<Longrightarrow> run_op st st'"
| OpRaise: "run_op st (step_raise key message r st)"
| OpCancel: "request_cancel i st = Inr (b, st') \<Longrightarrow> run_op st st'"
| OpBeat: "run_op st (beat i now st)"
| OpEvent: "clean_event ev \<Longrightarrow> run_op st (snd (on_event cfg now relayed ev p st))"
| OpReap: "run_op st (fst (snd (reap_once cfg q now timeout st jobs)))"
| OpSweep: "requeue_orphaned_runs cfg q now st jobs = (x, n, st', jobs') \<Longrightarrow> run_op st st'"
| OpDaily: "out_error out \<noteq> Some REAP_ERROR \<Longrightarrow> run_op st (snd (close_daily_run cfg now i out p st))"
| OpConnection: "out_error out \<noteq> Some REAP_ERROR \<Longrightarrow> run_op st (snd (close_connection_run cfg now i out p st))"

section \<open>Every operation refines\<close>

definition refines :: "store \<Rightarrow> store \<Rightarrow> bool" where
  "refines st st' \<longleftrightarrow> table_good st' \<and> (\<forall>i. life_step\<^sup>*\<^sup>* (life_of i st) (life_of i st'))"

lemma refines_same: "table_good st \<Longrightarrow> runs st' = runs st \<Longrightarrow> refines st st'"
  by (simp add: refines_def table_good_def life_of_def get_run_def)

lemma refines_trans: "refines s t \<Longrightarrow> refines t u \<Longrightarrow> refines s u"
  unfolding refines_def by (meson rtranclp_trans)

lemma refines_good: "refines s t \<Longrightarrow> table_good t"
  by (simp add: refines_def)

definition same_run :: "run \<Rightarrow> run \<Rightarrow> bool" where
  "same_run r n \<longleftrightarrow> run_id n = run_id r \<and> workflow_id n = workflow_id r \<and> project_id n = project_id r
     \<and> connection_id n = connection_id r \<and> run_kind n = run_kind r \<and> trigger n = trigger r
     \<and> total_steps n = total_steps r \<and> started_at n = started_at r"

lemma save_runs:
  "save l n st = Inr st' \<Longrightarrow>
   runs st' = map (\<lambda>x. if run_id x = run_id n then overlay l n x else x) (runs st)"
  proof -
  assume "save l n st = Inr st'"
  then have "st' = st\<lparr>runs := update_run (run_id n) (overlay l n) (runs st)\<rparr>" using saveD by blast
  then show ?thesis by (simp add: update_run_def)
qed

lemma lives_cong:
  "run_status n = run_status r \<Longrightarrow> run_error n = run_error r \<Longrightarrow> lives n = lives r \<and> row_good n = row_good r"
  by (auto simp: row_good_def lives_def is_active_def reaped_def)

text \<open>A change of rows, in place.\<close>

lemma get_run_map:
  assumes "\<And>r. run_id (g r) = run_id r" "runs st' = map g (runs st)"
  shows "get_run st' i = map_option g (get_run st i)"
proof -
  have "List.find (\<lambda>r. run_id r = i) (map g rs) = map_option g (List.find (\<lambda>r. run_id r = i) rs)" for rs
    by (induction rs) (simp_all add: assms(1))
  then show ?thesis by (simp add: get_run_def assms(2))
qed

lemma refines_map:
  assumes "table_good st" "runs st' = map g (runs st)" "constraints_ok (runs st')"
    and "\<And>r. run_id (g r) = run_id r"
    and "\<And>r. r \<in> set (runs st) \<Longrightarrow> row_good (g r) \<and> life_step\<^sup>*\<^sup>* (lives r) (lives (g r))"
  shows "refines st st'"
proof -
  have "life_step\<^sup>*\<^sup>* (life_of i st) (life_of i st')" for i
    using assms(5) get_runD [of st i] get_run_map [of g st' st i, OF assms(4,2)]
    by (cases "get_run st i") (auto simp: life_of_def)
  then show ?thesis using assms(2,3,5) by (auto simp: refines_def table_good_def)
qed

lemma refines_save:
  assumes "table_good st" "get_run st (run_id r) = Some r" "same_run r n" "row_good n"
    and "life_step\<^sup>*\<^sup>* (lives r) (lives n)" "save r n st = Inr st'"
  shows "refines st st' \<and> get_run st' (run_id r) = Some n
    \<and> (\<forall>i. i \<noteq> run_id r \<longrightarrow> get_run st' i = get_run st i)"
proof -
  let ?g = "\<lambda>x. if run_id x = run_id r then overlay r n x else x"
  have id: "run_id n = run_id r" using assms(3) by (simp add: same_run_def)
  have st': "runs st' = map ?g (runs st)" and ok: "constraints_ok (runs st')"
    using save_runs [OF assms(6)] save_ok [OF assms(6)] id by simp_all
  have now: "overlay r n r = n" using assms(3) by (intro overlay_current) (simp_all add: same_run_def)
  have uniq: "x = r" if "x \<in> set (runs st)" "run_id x = run_id r" for x
    using that assms(1) get_runD [OF assms(2)]
    by (simp add: table_good_def constraints_ok_def distinct_map inj_on_def)
  have ref: "refines st st'"
  proof (rule refines_map [OF assms(1) st' ok])
    fix x assume x: "x \<in> set (runs st)"
    show "row_good (?g x) \<and> life_step\<^sup>*\<^sup>* (lives x) (lives (?g x))"
    proof (cases "run_id x = run_id r")
      case True
      with x uniq have "x = r" by blast
      with now assms(4,5) show ?thesis by simp
    qed (use x assms(1) in \<open>simp add: table_good_def\<close>)
  qed simp
  have "get_run st' i = map_option ?g (get_run st i)" for i
    by (rule get_run_map [OF _ st']) simp
  note get = this
  have "get_run st' (run_id r) = Some n" using get [of "run_id r"] assms(2) now by simp
  moreover have "get_run st' i = get_run st i" if "i \<noteq> run_id r" for i
    using get [of i] that get_runD [of st i] by (cases "get_run st i") auto
  ultimately show ?thesis using ref by blast
qed

text \<open>A write that leaves status and error alone keeps the life of whatever row it meets.\<close>

lemma refines_quiet:
  assumes "table_good st" "run_status n = run_status l" "run_error n = run_error l" "save l n st = Inr st'"
  shows "refines st st'"
proof -
  let ?g = "\<lambda>x. if run_id x = run_id n then overlay l n x else x"
  have st': "runs st' = map ?g (runs st)" and ok: "constraints_ok (runs st')"
    using save_runs [OF assms(4)] save_ok [OF assms(4)] by blast+
  have "run_status (overlay l n x) = run_status x" "run_error (overlay l n x) = run_error x" for x
    using assms(2,3) by (simp_all add: overlay_def pick_def)
  then have same: "lives (overlay l n x) = lives x \<and> row_good (overlay l n x) = row_good x" for x
    by (intro lives_cong)
  show ?thesis
  proof (rule refines_map [OF assms(1) st' ok])
    fix x assume "x \<in> set (runs st)"
    with assms(1) have "row_good x" by (simp add: table_good_def)
    then show "row_good (?g x) \<and> life_step\<^sup>*\<^sup>* (lives x) (lives (?g x))" by (simp add: same)
  qed simp
qed

lemma refines_insert:
  assumes "table_good st" "insert_run r st = Inr st'" "is_active r" "run_error r = None"
  shows "refines st st'"
proof -
  have st': "runs st' = runs st @ [r]" and ok: "constraints_ok (runs st')"
    using assms(2) by (auto simp: insert_run_def split: if_splits)
  have new: "run_id r \<notin> run_id ` set (runs st)" using ok st' by (simp add: constraints_ok_def)
  have get: "get_run st' i = (case get_run st i of Some x \<Rightarrow> Some x | None \<Rightarrow> if run_id r = i then Some r else None)" for i
  proof -
    have "List.find P (xs @ ys) = (case List.find P xs of Some x \<Rightarrow> Some x | None \<Rightarrow> List.find P ys)"
      for P and xs ys :: "run list" by (induction xs) auto
    then show ?thesis by (simp add: get_run_def st' split: option.split)
  qed
  have "life_step\<^sup>*\<^sup>* (life_of i st) (life_of i st')" for i
    using assms(3) Begin by (auto simp: life_of_def get lives_def split: option.split)
  then show ?thesis using assms(1,4) ok by (auto simp: refines_def table_good_def st' row_good_def)
qed

lemma live_ends:
  assumes "is_active r" "terminal_status (run_status n)" "\<not> reaped n"
  shows "life_step\<^sup>*\<^sup>* (lives r) (lives n)"
proof -
  have "lives r = Live" "lives n = Ended (run_status n)"
    using assms terminal_iff by (simp_all add: lives_def is_active_def)
  then show ?thesis using End by auto
qed

lemma provisional_ends:
  assumes "reaped r" "terminal_status (run_status n)" "\<not> reaped n"
  shows "life_step\<^sup>*\<^sup>* (lives r) (lives n)"
proof -
  have "lives r = Provisional" "lives n = Ended (run_status n)"
    using assms terminal_iff by (simp_all add: lives_def is_active_def reaped_def active_status_def)
  then show ?thesis using Settle by auto
qed

lemma terminal_of_terminal: "terminal_status (terminal_of r s)"
  by (simp add: terminal_of_def terminal_status_def)

lemma ended_by_event_life:
  assumes "is_active r" "row_good r" "d \<noteq> REAP_ERROR"
  shows "row_good (ended_by_event now (terminal_of r s) d r)
    \<and> life_step\<^sup>*\<^sup>* (lives r) (lives (ended_by_event now (terminal_of r s) d r))"
proof -
  have e: "run_error r \<noteq> Some REAP_ERROR"
    using assms(1,2) by (auto simp: row_good_def is_active_def active_status_def)
  then have ne: "run_error (ended_by_event now (terminal_of r s) d r) \<noteq> Some REAP_ERROR"
    using assms(3) by (simp add: ended_by_event_def)
  then have "\<not> reaped (ended_by_event now (terminal_of r s) d r)" by (simp add: reaped_def)
  moreover have "run_status (ended_by_event now (terminal_of r s) d r) = terminal_of r s" by (simp add: ended_by_event_def)
  ultimately show ?thesis using ne live_ends [OF assms(1)] terminal_of_terminal by (simp add: row_good_def)
qed

lemma reconciled_life:
  assumes "reaped r" "d \<noteq> []" "d \<noteq> REAP_ERROR"
  shows "row_good (reconciled cfg now (terminal_of r s) d m r)
    \<and> life_step\<^sup>*\<^sup>* (lives r) (lives (reconciled cfg now (terminal_of r s) d m r))"
proof -
  have ne: "run_error (reconciled cfg now (terminal_of r s) d m r) \<noteq> Some REAP_ERROR"
    using assms(2,3) by (simp add: reconciled_def)
  then have "\<not> reaped (reconciled cfg now (terminal_of r s) d m r)" by (simp add: reaped_def)
  moreover have "run_status (reconciled cfg now (terminal_of r s) d m r) = terminal_of r s" by (simp add: reconciled_def)
  ultimately show ?thesis using ne provisional_ends [OF assms(1)] terminal_of_terminal by (simp add: row_good_def)
qed

lemma loaded_effect_life:
  assumes "loaded_effect cfg now ev p r = Some n" "clean_event ev" "row_good r"
  shows "same_run r n \<and> row_good n \<and> life_step\<^sup>*\<^sup>* (lives r) (lives n)"
proof (cases "terminal_status (run_status r)")
  case True
  with assms(1) obtain d where "ev_step ev = ''pipeline_end''" "reaped r"
    and n: "n = reconciled cfg now (terminal_of r (ev_status ev)) (ev_detail ev) d r"
    by (auto simp: loaded_effect_def split: if_splits option.splits)
  moreover from this assms(2) have "ev_detail ev \<noteq> []" "ev_detail ev \<noteq> REAP_ERROR" by (simp_all add: clean_event_def)
  ultimately show ?thesis using reconciled_life [of r "ev_detail ev"] by (simp add: same_run_def reconciled_def)
next
  case False
  then have act: "is_active r" by (simp add: terminal_iff is_active_def)
  have quiet: "same_run r n \<and> row_good n \<and> life_step\<^sup>*\<^sup>* (lives r) (lives n)"
    if "run_status n = run_status r" "run_error n = run_error r" "same_run r n"
    using that assms(3) by (simp add: row_good_def lives_def is_active_def reaped_def)
  have "event_effect cfg now ev p r = Some n" using assms(1) False by (simp add: loaded_effect_def)
  then consider "ev_step ev = ''pipeline_end''" "n = ended_by_event now (terminal_of r (ev_status ev)) (ev_detail ev) r"
    | k where "n = entered now (ev_step ev) k r" | m k where "n = advanced now m k r"
    by (auto simp: event_effect_def split: sum.splits if_splits option.splits)
  then show ?thesis
  proof cases
    case 1
    with assms(2) have "ev_detail ev \<noteq> REAP_ERROR" by (simp add: clean_event_def)
    with 1(2) show ?thesis
      using ended_by_event_life [OF act assms(3)] by (simp add: same_run_def ended_by_event_def)
  qed (intro quiet; simp add: entered_def advanced_def same_run_def)+
qed

lemma refines_on_event:
  assumes "table_good st" "clean_event ev"
  shows "refines st (snd (on_event cfg now relayed ev p st))"
proof -
  let ?t = "snd (on_event cfg now relayed ev p st)"
  consider "runs ?t = runs st"
    | r where "r \<in> set (runs st)" "runs ?t = effect_runs (loaded_effect cfg now ev p r) r st"
    using on_event_row [of cfg now relayed ev p st] by blast
  then show ?thesis
  proof cases
    case 1
    then show ?thesis by (rule refines_same [OF assms(1)])
  next
    case (2 r)
    show ?thesis
    proof (cases "loaded_effect cfg now ev p r")
      case None
      with 2(2) show ?thesis by (intro refines_same [OF assms(1)]) (simp add: effect_runs_def)
    next
      case (Some n)
      have good: "row_good r" "get_run st (run_id r) = Some r"
        using 2(1) assms(1) get_run_member [of st r] by (simp_all add: table_good_def constraints_ok_def)
      show ?thesis
      proof (cases "save r n st")
        case (Inl e)
        with 2(2) Some show ?thesis
          by (intro refines_same [OF assms(1)]) (simp add: effect_runs_def saved_runs_def)
      next
        case (Inr st1)
        have "refines st st1"
          using refines_save [OF assms(1) good(2) _ _ _ Inr] loaded_effect_life [OF Some assms(2) good(1)] by blast
        moreover have "refines st1 ?t" if "table_good st1"
          using that 2(2) Some Inr by (intro refines_same) (simp_all add: effect_runs_def saved_runs_def)
        ultimately show ?thesis using refines_trans refines_good by blast
      qed
    qed
  qed
qed

lemma REAP_nonempty: "[] \<noteq> REAP_ERROR"
  by (simp add: REAP_ERROR_def)

lemma refines_end_workflow:
  assumes "table_good st" "detail \<noteq> REAP_ERROR"
  shows "refines st (snd (end_workflow cfg now r status detail p st))"
proof -
  let ?ev = "end_event r status detail"
  have "clean_event ?ev" using assms(2) by (auto simp: clean_event_def REAP_ERROR_def end_event_def)
  moreover have sent: "refines st (send ?ev st)" by (rule refines_same [OF assms(1)]) simp
  ultimately have "refines (send ?ev st) (snd (on_event cfg now False ?ev p (send ?ev st)))"
    by (intro refines_on_event) (rule refines_good)
  with sent have "refines st (snd (on_event cfg now False ?ev p (send ?ev st)))" by (rule refines_trans)
  with sent show ?thesis by (simp add: end_workflow_def Let_def)
qed

lemma refines_finish:
  assumes "table_good st" "get_run st (run_id r) = Some r" "is_active r" "terminal_status status"
    and "message \<noteq> Some REAP_ERROR" "finish cfg now status message fkind r r p st = (res, p', st')"
  shows "refines st st'"
  using finish_runs [OF assms(6)]
proof (elim disjE exE conjE)
  fix e assume "st' = st"
  with assms(1) show ?thesis using refines_same by blast
next
  fix st1
  let ?n = "finished now status message fkind r"
  let ?w = "snd (end_workflow cfg now ?n status (or_empty message) p (add_entry (finish_entry status message ?n) st1))"
  assume s: "save r ?n st = Inr st1" and r: "runs st' = runs ?w"
  have "row_good r" using assms(1) get_runD [OF assms(2)] by (simp add: table_good_def)
  then have e: "run_error r \<noteq> Some REAP_ERROR"
    using assms(3) by (auto simp: row_good_def is_active_def active_status_def)
  have ne: "run_error ?n \<noteq> Some REAP_ERROR" using e assms(5) by (simp add: finished_def)
  have one: "refines st st1"
  proof (rule conjunct1 [OF refines_save [OF assms(1,2) _ _ _ s]])
    show "same_run r ?n" by (simp add: same_run_def finished_def)
    show "row_good ?n" using ne by (simp add: row_good_def)
    have "\<not> reaped ?n" using ne unfolding reaped_def by blast
    moreover have "terminal_status (run_status ?n)" using assms(4) by (simp add: finished_def)
    ultimately show "life_step\<^sup>*\<^sup>* (lives r) (lives ?n)" by (intro live_ends [OF assms(3)])
  qed
  have two: "refines st1 (add_entry (finish_entry status message ?n) st1)"
    by (rule refines_same [OF refines_good [OF one]]) simp
  have "or_empty message \<noteq> REAP_ERROR"
    using assms(5) by (cases message) (simp_all add: or_empty_def REAP_nonempty)
  then have "refines (add_entry (finish_entry status message ?n) st1) ?w"
    by (rule refines_end_workflow [OF refines_good [OF two]])
  then have three: "refines st ?w" using refines_trans one two by blast
  have "refines ?w st'" by (rule refines_same [OF refines_good [OF three] r])
  with three show ?thesis by (rule refines_trans)
qed

lemma refines_close_open:
  assumes "table_good st" "get_run st i = Some r" "is_active r" "terminal_status t" "out_error out \<noteq> Some REAP_ERROR"
  shows "refines st (snd (snd (close_open_run cfg now t out r p st)))"
proof -
  define n where "n = r\<lparr>meta_json := Some (PDict [(''status'', PStr (out_status out)), (''steps'', out_steps out)])\<rparr>"
  have i: "i = run_id r" using get_runD [OF assms(2)] by simp
  show ?thesis
  proof (cases "save r n st")
    case (Inl e)
    then show ?thesis
      using refines_same [OF assms(1)] by (simp add: close_open_run_def Let_def n_def)
  next
    case (Inr st1)
    have rg: "row_good r" using assms(1) get_runD [OF assms(2)] by (simp add: table_good_def)
    have ln: "lives n = lives r \<and> row_good n = row_good r" by (rule lives_cong) (simp_all add: n_def)
    have sn: "same_run r n" by (simp add: n_def same_run_def)
    have g: "get_run st (run_id r) = Some r" using assms(2) i by simp
    have one: "refines st st1" "get_run st1 (run_id n) = Some n"
      using refines_save [OF assms(1) g sn _ _ Inr] ln rg by (simp_all add: n_def)
    obtain res p' st' where f: "finish cfg now t (out_error out) (if t = Failed then Some ''fatal'' else None) n n p st1
        = (res, p', st')" by (metis surj_pair)
    have "refines st1 st'"
      by (rule refines_finish [OF refines_good [OF one(1)] one(2) _ assms(4,5) f]) (use assms(3) in \<open>simp add: n_def is_active_def\<close>)
    with one(1) have "refines st st'" by (rule refines_trans)
    with f Inr show ?thesis by (simp add: close_open_run_def Let_def n_def)
  qed
qed

lemma refines_daily:
  assumes "table_good st" "out_error out \<noteq> Some REAP_ERROR"
  shows "refines st (snd (close_daily_run cfg now i out p st))"
proof (cases "get_run st i")
  case None
  then show ?thesis using refines_same [OF assms(1)] by (simp add: close_daily_run_def Let_def)
next
  case (Some r)
  define t where "t = (if out_status out = ''failed'' then Failed else Completed)"
  have tt: "terminal_status t" by (simp add: t_def terminal_status_def)
  have rg: "row_good r" using assms(1) get_runD [OF Some] by (simp add: table_good_def)
  show ?thesis
  proof (cases "terminal_status (run_status r)")
    case False
    then have "refines st (snd (snd (close_open_run cfg now t out r p st)))"
      by (intro refines_close_open [OF assms(1) Some _ tt assms(2)]) (simp add: terminal_iff is_active_def)
    with Some False show ?thesis by (simp add: close_daily_run_def Let_def t_def)
  next
    case True
    show ?thesis
    proof (cases "run_error r = Some REAP_ERROR \<and> meta_dict (meta_json r) \<noteq> None")
      case False
      with Some True have "snd (close_daily_run cfg now i out p st) = st"
        by (auto simp: close_daily_run_def Let_def split: option.splits)
      with assms(1) refines_same show ?thesis by metis
    next
      case err: True
      then obtain d where d: "meta_dict (meta_json r) = Some d" by blast
      define n where "n = r\<lparr>meta_json := Some (PDict (od_set ''steps'' (out_steps out) (od_set ''status'' (PStr (out_status out))
            (od_set ''reaped'' (PDict [(''error'', PStr REAP_ERROR), (''reaped_at'', PNone)]) d)))),
          run_status := t, run_error := out_error out, failure_kind := (if t = Failed then Some ''fatal'' else None)\<rparr>"
      have res: "snd (close_daily_run cfg now i out p st) = (case save r n st of Inl e \<Rightarrow> st | Inr st' \<Rightarrow> st')"
        using Some True err d by (simp add: close_daily_run_def Let_def t_def n_def split: sum.split)
      have "reaped r" using rg err by (simp add: row_good_def reaped_def)
      then have l: "life_step\<^sup>*\<^sup>* (lives r) (lives n)"
        by (rule provisional_ends) (use tt assms(2) in \<open>simp_all add: n_def reaped_def\<close>)
      have g: "row_good n" "same_run r n" using assms(2) by (simp_all add: n_def row_good_def same_run_def)
      have cur: "get_run st (run_id r) = Some r" using Some get_runD [OF Some] by simp
      show ?thesis
      proof (cases "save r n st")
        case (Inl e)
        show ?thesis by (rule refines_same [OF assms(1)]) (simp add: res Inl)
      next
        case (Inr st1)
        have "refines st st1" using refines_save [OF assms(1) cur g(2,1) l Inr] by blast
        then show ?thesis by (simp add: res Inr)
      qed
    qed
  qed
qed

lemma refines_connection:
  assumes "table_good st" "out_error out \<noteq> Some REAP_ERROR"
  shows "refines st (snd (close_connection_run cfg now i out p st))"
proof (cases "get_run st i")
  case None
  then show ?thesis using refines_same [OF assms(1)] by (simp add: close_connection_run_def Let_def)
next
  case (Some r)
  have "refines st (snd (snd (close_open_run cfg now t out r p st)))"
    if "\<not> terminal_status (run_status r)" "terminal_status t" for t
    using that by (intro refines_close_open [OF assms(1) Some _ _ assms(2)]) (simp_all add: terminal_iff is_active_def)
  then show ?thesis
    using Some refines_same [OF assms(1), of st]
    by (simp add: close_connection_run_def Let_def terminal_status_def)
qed

lemma refines_start:
  assumes "table_good st" "start cfg now (\<lambda>s. s) (\<lambda>s. s) i w kind project conn trig full p st = (res, p', st')"
  shows "refines st st'"
proof -
  consider "st' = st" | m where "start_insert (new_run cfg now i w kind project conn trig full m) m p st = Inr (p', st')"
    using assms(2) by (auto simp: start_def Let_def split: option.splits sum.splits prod.splits)
  then show ?thesis
  proof cases
    case 1
    with assms(1) refines_same show ?thesis by blast
  next
    case (2 m)
    let ?r = "new_run cfg now i w kind project conn trig full m"
    obtain st1 where st1: "insert_run ?r st = Inr st1" and r: "runs st' = runs st1"
      using 2 by (auto simp: start_insert_def split: sum.splits)
    have one: "refines st st1"
      by (rule refines_insert [OF assms(1) st1]) (simp_all add: new_run_def is_active_def active_status_def)
    have "refines st1 st'" by (rule refines_same [OF refines_good [OF one] r])
    with one show ?thesis by (rule refines_trans)
  qed
qed

lemma refines_beat:
  assumes "table_good st"
  shows "refines st (beat i now st)"
proof -
  let ?g = "\<lambda>r. if run_id r = i then r\<lparr>heartbeat_at := Some now\<rparr> else r"
  have g: "run_id (?g r) = run_id r" "workflow_id (?g r) = workflow_id r" "scope (?g r) = scope r"
    "is_active (?g r) = is_active r" "lives (?g r) = lives r" "row_good (?g r) = row_good r" for r
    by (auto simp: scope_def is_active_def lives_def reaped_def row_good_def)
  have b: "runs (beat i now st) = map ?g (runs st)" by (simp add: beat_def update_run_def)
  have "constraints_ok (update_run i (\<lambda>r. r\<lparr>heartbeat_at := Some now\<rparr>) (runs st))"
    using assms by (intro constraints_update) (simp_all add: table_good_def scope_def is_active_def)
  then have c: "constraints_ok (runs (beat i now st))" by (simp add: beat_def)
  show ?thesis
    by (rule refines_map [OF assms b c]) (use assms in \<open>simp_all only: g table_good_def rtranclp.rtrancl_refl simp_thms\<close>)
qed

lemma refines_enter:
  assumes "table_good st" "step_enter cfg now key i p st = (res, p', st')"
    and "\<forall>r. get_run st i = Some r \<longrightarrow> cancel_requested r \<longrightarrow> is_active r"
  shows "refines st st'"
proof (cases "get_run st i")
  case None
  with assms(2) refines_same [OF assms(1)] show ?thesis by (simp add: step_enter_def)
next
  case (Some r)
  note same = refines_same [OF assms(1), of st]
  have i: "run_id r = i" using get_runD [OF Some] by simp
  note step = assms(2) [unfolded step_enter_def Some option.case]
  show ?thesis
  proof (cases "cancel_requested r")
    case True
    let ?n = "r\<lparr>run_status := Cancelling\<rparr>"
    have act: "is_active r" using assms(3) Some True by blast
    have "row_good r" using assms(1) get_runD [OF Some] by (simp add: table_good_def)
    then have "run_error r \<noteq> Some REAP_ERROR" using act by (auto simp: row_good_def is_active_def active_status_def)
    then have n: "same_run r ?n" "row_good ?n" "life_step\<^sup>*\<^sup>* (lives r) (lives ?n)"
      using act by (simp_all add: same_run_def row_good_def lives_def is_active_def active_status_def)
    have cur: "get_run st (run_id r) = Some r" using Some i by simp
    show ?thesis
    proof (cases "save r ?n st")
      case (Inl e)
      with step True same show ?thesis by simp
    next
      case (Inr st1)
      with step True have "st' = st1" by simp
      then show ?thesis using refines_save [OF assms(1) cur n Inr] by blast
    qed
  next
    case False
    note step = step [unfolded if_not_P [OF False]]
    show ?thesis
    proof (cases "manifest_for cfg r p")
      case (Inl e)
      with step same show ?thesis by simp
    next
      case (Inr mp)
      obtain m p1 where mp: "mp = (m, p1)" by fastforce
      note step = step [unfolded Inr mp sum.case prod.case]
      show ?thesis
      proof (cases "step_position m key")
        case None
        with step same show ?thesis by simp
      next
        case (Some k)
        note step = step [unfolded Some option.case Let_def]
        show ?thesis
        proof (cases "save r (entered now key k r) st")
          case (Inl e)
          with step same show ?thesis by simp
        next
          case (Inr st1)
          have one: "refines st st1" by (rule refines_quiet [OF assms(1) _ _ Inr]) (simp_all add: entered_def)
          have two: "refines st1 (record_step (entered now key k r) key ''started'' [] ''info'' st1)"
            by (rule refines_same [OF refines_good [OF one]]) simp
          have "st' = beat i now (record_step (entered now key k r) key ''started'' [] ''info'' st1)"
            using step Inr by simp
          with refines_trans [OF one refines_trans [OF two refines_beat [OF refines_good [OF two]]]]
          show ?thesis by simp
        qed
      qed
    qed
  qed
qed

lemma refines_leave:
  assumes "table_good st" "step_leave cfg now key r p st = (res, p', st')"
  shows "refines st st'"
proof (cases "manifest_for cfg r p")
  case (Inl e)
  with assms refines_same show ?thesis by (simp add: step_leave_def)
next
  case (Inr mp)
  note same = refines_same [OF assms(1), of st]
  obtain m p1 where mp: "mp = (m, p1)" by fastforce
  note step = assms(2) [unfolded step_leave_def Inr mp sum.case prod.case]
  show ?thesis
  proof (cases "step_position m key")
    case None
    with step same show ?thesis by simp
  next
    case (Some k)
    note step = step [unfolded Some option.case Let_def]
    show ?thesis
    proof (cases "save r (advanced now m k r) st")
      case (Inl e)
      with step same show ?thesis by simp
    next
      case (Inr st1)
      have one: "refines st st1" by (rule refines_quiet [OF assms(1) _ _ Inr]) (simp_all add: advanced_def)
      have "runs st' = runs st1" using step Inr by auto
      then have "refines st1 st'" by (rule refines_same [OF refines_good [OF one]])
      with one show ?thesis by (rule refines_trans)
    qed
  qed
qed

lemma refines_cancel:
  assumes "table_good st" "request_cancel i st = Inr (b, st')"
  shows "refines st st'"
proof -
  consider "st' = st" | r where "save r (r\<lparr>cancel_requested := True\<rparr>) st = Inr st'"
    using assms(2) by (auto simp: request_cancel_def split: option.splits if_splits sum.splits)
  then show ?thesis
  proof cases
    case 1
    with assms(1) refines_same show ?thesis by blast
  next
    case (2 r)
    then show ?thesis by (rule refines_quiet [OF assms(1), rotated 2]) simp_all
  qed
qed

lemma reap_run_life:
  assumes "row_good r"
  shows "row_good (reap_run now c r) \<and> life_step\<^sup>*\<^sup>* (lives r) (lives (reap_run now c r))"
proof -
  consider "doomed c r" | "\<not> doomed c r" "half_cancelled c r" | "\<not> doomed c r" "\<not> half_cancelled c r" by blast
  then show ?thesis
  proof cases
    case 1
    then have "lives r = Live" "lives (reap_run now c r) = Provisional" "run_status (reap_run now c r) = Failed"
      by (simp_all add: lives_def reap_run_def doomed_def is_active_def active_status_def reaped_def)
    then show ?thesis using GiveUp by (auto simp: row_good_def)
  next
    case 2
    then have s: "run_status r = Cancelling" by (simp add: half_cancelled_def)
    then have e: "run_error r \<noteq> Some REAP_ERROR" using assms by (auto simp: row_good_def)
    have n: "reap_run now c r = r\<lparr>run_status := Cancelled, finished_at := Some now\<rparr>"
      using 2 by (simp add: reap_run_def)
    have "life_step\<^sup>*\<^sup>* (lives r) (lives (reap_run now c r))"
      by (rule live_ends) (simp_all add: n s is_active_def active_status_def terminal_status_def reaped_def)
    then show ?thesis using e by (simp add: n row_good_def)
  next
    case 3
    with assms show ?thesis by (simp add: reap_run_def)
  qed
qed

lemma refines_reap:
  assumes "table_good st"
  shows "refines st (fst (snd (reap_once cfg q now timeout st jobs)))"
proof (rule refines_map [OF assms runs_reap_once])
  have "constraints_ok (map (reap_run now (now - seconds timeout)) (runs st))"
    by (rule constraints_map)
      (use assms in \<open>auto simp: table_good_def reap_run_def is_active_def active_status_def scope_def doomed_def half_cancelled_def split: if_splits\<close>)
  then show "constraints_ok (runs (fst (snd (reap_once cfg q now timeout st jobs))))" by (simp add: runs_reap_once)
qed (use assms reap_run_life in \<open>auto simp: table_good_def\<close>)

lemma refines_orphan_rows:
  assumes "table_good st" "distinct (map run_id rs)"
    and "\<forall>r \<in> set rs. get_run st (run_id r) = Some r \<and> run_status r = Running"
    and "orphan_rows cfg q now rs (k, st, jobs) = (x, n, st', jobs')"
  shows "refines st st'"
  using assms
proof (induction rs arbitrary: k st jobs)
  case Nil
  then show ?case using refines_same [of st st] by simp
next
  case (Cons r rs)
  show ?case
  proof (cases "orphan_meta (meta_json r)")
    case None
    with Cons.prems refines_same [of st st] show ?thesis by simp
  next
    case (Some d)
    obtain k1 st1 jobs1 where one: "orphan_one cfg q now r d (k, st, jobs) = (k1, st1, jobs1)" by (metis surj_pair)
    have st1: "runs st1 = (if orphaned cfg d then saved_runs r (close_orphan now r) st else runs st)"
      using runs_orphan_one [of cfg q now r d k st jobs] one by simp
    have cur: "get_run st (run_id r) = Some r" and run: "run_status r = Running" using Cons.prems(3) by simp_all
    have n: "same_run r (close_orphan now r)" "row_good (close_orphan now r)"
      by (simp_all add: same_run_def close_orphan_def row_good_def REAP_ERROR_def ORPHAN_ERROR_def)
    have l: "life_step\<^sup>*\<^sup>* (lives r) (lives (close_orphan now r))"
      by (rule live_ends) (simp_all add: run is_active_def active_status_def close_orphan_def terminal_status_def
          reaped_def REAP_ERROR_def ORPHAN_ERROR_def)
    have others: "refines st st1 \<and> (\<forall>i. i \<noteq> run_id r \<longrightarrow> get_run st1 i = get_run st i)"
    proof (cases "orphaned cfg d \<and> (\<exists>t. save r (close_orphan now r) st = Inr t)")
      case True
      then obtain t where t: "save r (close_orphan now r) st = Inr t" by blast
      have "runs st1 = runs t" using st1 True t by (simp add: saved_runs_def)
      then have same: "get_run st1 i = get_run t i" for i by (simp add: get_run_def)
      have s: "refines st t \<and> get_run t (run_id r) = Some (close_orphan now r)
          \<and> (\<forall>i. i \<noteq> run_id r \<longrightarrow> get_run t i = get_run st i)"
        by (rule refines_save [OF Cons.prems(1) cur n l t])
      then have "refines t st1" using \<open>runs st1 = runs t\<close> by (intro refines_same) (auto dest: refines_good)
      with s same refines_trans show ?thesis by metis
    next
      case False
      then have "runs st1 = runs st"
        using st1 by (cases "save r (close_orphan now r) st") (auto simp: saved_runs_def)
      then show ?thesis using refines_same [OF Cons.prems(1)] by (simp add: get_run_def)
    qed
    have "run_id s \<noteq> run_id r" if "s \<in> set rs" for s using Cons.prems(2) that by (metis distinct.simps(2) image_eqI list.simps(9) set_map)
    then have "\<forall>s \<in> set rs. get_run st1 (run_id s) = Some s \<and> run_status s = Running"
      using others Cons.prems(3) by simp
    moreover have "orphan_rows cfg q now rs (k1, st1, jobs1) = (x, n, st', jobs')"
      using Cons.prems(4) Some one by simp
    moreover have "table_good st1" "distinct (map run_id rs)" using others refines_good Cons.prems(2) by auto
    ultimately have "refines st1 st'" by (intro Cons.IH)
    with others refines_trans show ?thesis by blast
  qed
qed

lemma refines_sweep:
  assumes "table_good st" "requeue_orphaned_runs cfg q now st jobs = (x, n, st', jobs')"
  shows "refines st st'"
proof (rule refines_orphan_rows [OF assms(1) _ _ assms(2) [unfolded requeue_orphaned_runs_def]])
  let ?P = "\<lambda>r. run_status r = Running \<and> run_kind r \<in> set orphanable_kinds"
  have d: "distinct (map run_id (runs st))" using assms(1) by (simp add: table_good_def constraints_ok_def)
  then show "distinct (map run_id (filter ?P (runs st)))" by (rule distinct_map_filter)
  show "\<forall>r \<in> set (filter ?P (runs st)). get_run st (run_id r) = Some r \<and> run_status r = Running"
    using get_run_member [OF d] by simp
qed

lemma run_op_refines:
  assumes "run_op st st'" "table_good st"
  shows "refines st st'"
  using assms(1)
proof (cases rule: run_op.cases)
  case OpStart
  show ?thesis by (rule refines_start [OF assms(2) OpStart(1)])
next
  case OpEnter
  show ?thesis by (rule refines_enter [OF assms(2) OpEnter(1,2)])
next
  case OpLeave
  show ?thesis by (rule refines_leave [OF assms(2) OpLeave(1)])
next
  case OpRaise
  show ?thesis by (rule refines_same [OF assms(2)]) (simp add: OpRaise(1) step_raise_def)
next
  case OpCancel
  show ?thesis by (rule refines_cancel [OF assms(2) OpCancel(1)])
next
  case OpBeat
  show ?thesis unfolding OpBeat(1) by (rule refines_beat [OF assms(2)])
next
  case OpEvent
  show ?thesis unfolding OpEvent(1) by (rule refines_on_event [OF assms(2) OpEvent(2)])
next
  case OpReap
  show ?thesis unfolding OpReap(1) by (rule refines_reap [OF assms(2)])
next
  case OpSweep
  show ?thesis by (rule refines_sweep [OF assms(2) OpSweep(1)])
next
  case OpDaily
  show ?thesis unfolding OpDaily(1) by (rule refines_daily [OF assms(2) OpDaily(2)])
next
  case OpConnection
  show ?thesis unfolding OpConnection(1) by (rule refines_connection [OF assms(2) OpConnection(2)])
qed

interpretation lives: simulation run_op table_good life_step "life_of i" for i
  by unfold_locales (use run_op_refines in \<open>auto simp: refines_def\<close>)

end
