(* ===== verification/RunProperties.thy ===== *)
theory RunProperties
  imports RunLifecycle
begin

text \<open>
  What the coordinator, the reaper and the restart sweep do, branch by branch, and what their
  composition allows: starting, the exactness of the duplicate guard, the journal, reaping and
  putting work back.
\<close>

section \<open>Samples\<close>

definition sample_config :: "unit \<Rightarrow> config" where
  "sample_config _ = \<lparr>flags_on = [], stale_timeout = 300, diagnostics = [], release = ''v1'', boot_id = ''b1'',
     process_owner = ''worker'', requeue_enabled = True, requeue_max = 2, requeue_window_hours = 6,
     digest = (\<lambda>s. s), isoformat = (\<lambda>t. ''then'')\<rparr>"

definition sample_process :: "unit \<Rightarrow> process" where
  "sample_process _ = \<lparr>manifests = [], wf_to_run = [], last_journalled = [], hook_attached = True\<rparr>"

definition sample_run :: "string \<Rightarrow> string \<Rightarrow> run_status \<Rightarrow> run" where
  "sample_run i kind status = (new_run (sample_config ()) 0 i (''w'' @ i) kind ''p1'' None ''manual'' False [])
     \<lparr>run_status := status\<rparr>"

definition sample_store :: "run list \<Rightarrow> store" where
  "sample_store rs = (no_runs [''p1''] [])\<lparr>runs := rs\<rparr>"

definition sample_event :: "string \<Rightarrow> workflow_event" where
  "sample_event status = \<lparr>ev_workflow = ''wr1'', ev_step = ''pipeline_end'', ev_status = status,
     ev_detail = ''over'', ev_run_id = None, ev_progress = None\<rparr>"

lemmas sample_defs = sample_config_def sample_process_def sample_run_def sample_store_def sample_event_def
  no_runs_def new_run_def

section \<open>Final verdicts\<close>



section \<open>The duplicate guard\<close>

text \<open>The scan of a window of heartbeats finds what a scan of every row would find.\<close>

lemma find_filter:
  "List.find P (filter Q xs) = List.find (\<lambda>x. Q x \<and> P x) xs"
  by (induction xs) auto

lemma live_in_window: "0 \<le> stale_timeout cfg \<Longrightarrow> is_live cfg now r \<Longrightarrow> in_window (now - seconds (stale_timeout cfg * 2)) r"
  by (auto simp: is_live_def in_window_def seconds_def split: if_splits option.splits)

text \<open>
  The duplicate guard is exact: the scan restricted to active rows and recent heartbeats
  answers the same row as a scan of every row of the scope for a live one.
\<close>

theorem find_active_exact:
  assumes "0 \<le> stale_timeout cfg"
  shows "find_active cfg now st project kind conn = List.find (\<lambda>r. project_id r = project \<and> run_kind r = kind
     \<and> or_none (connection_id r) = or_none conn \<and> is_live cfg now r) (runs st)"
proof -
  have "(\<lambda>r. (project_id r = project \<and> run_kind r = kind \<and> in_window (now - seconds (stale_timeout cfg * 2)) r)
      \<and> or_none (connection_id r) = or_none conn \<and> is_live cfg now r)
    = (\<lambda>r. project_id r = project \<and> run_kind r = kind \<and> or_none (connection_id r) = or_none conn \<and> is_live cfg now r)"
    using live_in_window [OF assms] by (intro ext) blast
  then show ?thesis unfolding find_active_def find_filter by simp
qed

definition in_scope :: "string \<Rightarrow> string \<Rightarrow> string option \<Rightarrow> run \<Rightarrow> bool" where
  "in_scope project kind conn r \<longleftrightarrow> project_id r = project \<and> run_kind r = kind \<and> or_none (connection_id r) = or_none conn"

lemma or_none_or_empty: "or_none a = or_none b \<longleftrightarrow> or_empty a = or_empty b"
  by (auto simp: or_none_def or_empty_def split: option.split)

lemma scope_in_scope: "scope r = (project, kind, or_empty conn) \<longleftrightarrow> in_scope project kind conn r"
  by (simp add: scope_def in_scope_def or_none_or_empty conj_commute)

lemma find_active_Some:
  "find_active cfg now st project kind conn = Some r \<Longrightarrow>
   r \<in> set (runs st) \<and> in_scope project kind conn r \<and> is_live cfg now r"
  unfolding find_active_def by (auto simp: find_Some_iff in_scope_def dest!: nth_mem)

lemma find_active_None:
  assumes "find_active cfg now st project kind conn = None" "r \<in> set (runs st)" "in_scope project kind conn r"
  shows "\<not> is_active r"
  using assms by (auto simp: find_active_def find_None_iff in_scope_def in_window_def is_live_def)

theorem find_active_exact_witness:
  "find_active (sample_config ()) 0 (sample_store [sample_run ''r1'' ''db_index'' Running]) ''p1'' ''db_index'' (Some [])
   = Some (sample_run ''r1'' ''db_index'' Running)"
  by (subst find_active_exact)
    (simp_all add: sample_defs or_none_def is_live_def is_active_def active_status_def)

section \<open>Starting a run\<close>

text \<open>The second look names whoever is live, or nobody.\<close>

definition named_winner :: "config \<Rightarrow> int \<Rightarrow> store \<Rightarrow> string \<Rightarrow> string \<Rightarrow> string option \<Rightarrow> string \<Rightarrow> bool" where
  "named_winner cfg now st project kind conn i \<longleftrightarrow>
     (\<exists>r \<in> set (runs st). run_id r = i \<and> in_scope project kind conn r \<and> is_live cfg now r)
     \<or> (i = ''unknown'' \<and> find_active cfg now st project kind conn = None)"

lemma start_insert_refused:
  "start_insert r m p st = Inl e \<longleftrightarrow> insert_run r st = Inl e"
  by (simp add: start_insert_def split: sum.split)

lemma insert_run_scope:
  assumes "insert_run r st = Inr st'" "is_active r" "s \<in> set (runs st)" "scope s = scope r"
  shows "\<not> is_active s"
proof
  assume s: "is_active s"
  have ok: "constraints_ok (runs st @ [r])" using assms(1) by (auto simp: insert_run_def split: if_splits)
  from ok have "r = s" by (rule single_active) (use assms s in auto)
  with ok assms(3) show False by (auto simp: constraints_ok_def)
qed

text \<open>
  Starting a run, whatever others commit between the check and the insertion and after it: a
  started run is the one new row, no row of its scope was active at the check or at the
  insertion, and its start is journalled; a refused start writes nothing and names a live row of
  the scope, seen at the check or after the refusal, or nobody when none is live any more; an
  unknown kind is an error before anything is written.
\<close>

theorem start_outcome:
  assumes "start cfg now gap1 gap2 i w kind project conn trig full p st = (res, p', st')"
  shows "(case res of
      Inr r \<Rightarrow> r \<in> set (runs st') \<and> run_id r = i \<and> in_scope project kind conn r \<and> run_status r = Running
        \<and> runs st' = runs (gap1 st) @ [r]
        \<and> (\<forall>s \<in> set (runs st) \<union> set (runs (gap1 st)). in_scope project kind conn s \<longrightarrow> \<not> is_active s)
        \<and> (\<exists>e. entries st' = entries (gap1 st) @ [e] \<and> entry_run e = i \<and> entry_step e = ''pipeline_start'')
    | Inl (AlreadyActive j) \<Rightarrow> p' = p \<and> (st' = st \<and> (\<exists>r \<in> set (runs st). run_id r = j \<and> in_scope project kind conn r \<and> is_live cfg now r)
        \<or> st' = gap2 (gap1 st) \<and> named_winner cfg now st' project kind conn j)
    | Inl (BadKey e) \<Rightarrow> st' = st \<and> p' = p \<and> resolve_manifest (flags_on cfg) kind = Inl e
    | Inl _ \<Rightarrow> False)"
proof (cases "find_active cfg now st project kind conn")
  case (Some r)
  with assms find_active_Some [OF Some] show ?thesis by (auto simp: start_def)
next
  case None
  show ?thesis
  proof (cases "resolve_manifest (flags_on cfg) kind")
    case (Inl e)
    with None assms show ?thesis by (auto simp: start_def)
  next
    case (Inr m)
    let ?r = "new_run cfg now i w kind project conn trig full m"
    have r: "is_active ?r" "in_scope project kind conn ?r" "run_id ?r = i" "run_status ?r = Running"
      by (simp_all add: new_run_def is_active_def active_status_def in_scope_def)
    show ?thesis
    proof (cases "insert_run ?r (gap1 st)")
      case (Inl e)
      then have "start_insert ?r m p (gap1 st) = Inl e" by (simp add: start_insert_refused)
      with assms None Inr have res: "p' = p" "st' = gap2 (gap1 st)"
        "res = Inl (AlreadyActive (case find_active cfg now st' project kind conn of None \<Rightarrow> ''unknown'' | Some r \<Rightarrow> run_id r))"
        by (auto simp: start_def Let_def)
      have "named_winner cfg now st' project kind conn
          (case find_active cfg now st' project kind conn of None \<Rightarrow> ''unknown'' | Some r \<Rightarrow> run_id r)"
        using find_active_Some [of cfg now st' project kind conn]
        by (auto simp: named_winner_def split: option.split)
      with res show ?thesis by simp
    next
      case ins: (Inr st1)
      with assms None Inr have res: "res = Inr ?r"
        and st': "st' = record_step ?r ''pipeline_start'' ''started'' (''Starting '' @ run_kind ?r) ''info'' st1"
        by (auto simp: start_def start_insert_def Let_def)
      have runs1: "runs st1 = runs (gap1 st) @ [?r]" "entries st1 = entries (gap1 st)"
        using ins by (auto simp: insert_run_def split: if_splits)
      have "\<not> is_active s" if "s \<in> set (runs (gap1 st))" "in_scope project kind conn s" for s
        using insert_run_scope [OF ins r(1) that(1)] that(2) r(2) scope_in_scope by metis
      moreover have "\<not> is_active s" if "s \<in> set (runs st)" "in_scope project kind conn s" for s
        by (rule find_active_None [OF None that])
      ultimately show ?thesis unfolding res using r runs1 by (auto simp: st' record_step_def)
    qed
  qed
qed

theorem start_outcome_witness:
  "\<exists>r \<in> set (runs (sample_store [sample_run ''r1'' ''db_index'' Running])). run_id r = ''r1''
     \<and> in_scope ''p1'' ''db_index'' None r \<and> is_live (sample_config ()) 0 r"
proof -
  let ?st = "sample_store [sample_run ''r1'' ''db_index'' Running]"
  have "start (sample_config ()) 0 (\<lambda>s. s) (\<lambda>s. s) ''r2'' ''wr2'' ''db_index'' ''p1'' None ''manual'' False
      (sample_process ()) ?st = (Inl (AlreadyActive ''r1''), sample_process (), ?st)"
    by (simp add: start_def find_active_def sample_defs or_none_def is_live_def is_active_def active_status_def in_window_def)
  from start_outcome [OF this] show ?thesis by (auto simp: named_winner_def)
qed

section \<open>The journal of a process\<close>

definition journal_ok :: "process \<Rightarrow> bool" where
  "journal_ok p \<longleftrightarrow> length (last_journalled p) \<le> last_journalled_max"

lemma last_of_od_set: "k \<notin> set (od_keys d) \<Longrightarrow> od_set k v d = d @ [(k, v)]"
  by (induction d) (auto simp: od_set_def od_keys_def)

lemma length_od_set_member: "k \<in> set (od_keys d) \<Longrightarrow> length (od_set k v d) = length d"
  by (induction d) (auto simp: od_set_def od_keys_def)

lemma map_of_drop_absent: "map_of d i = None \<Longrightarrow> map_of (drop n d) i = None"
  by (induction d arbitrary: n) (auto simp: drop_Cons split: nat.split if_splits)

lemma note_remembers:
  assumes "journal_ok p"
  shows "map_of (last_journalled (note_journalled i key p)) i = Some key"
    and "journal_ok (note_journalled i key p)"
proof -
  let ?d = "od_set i key (last_journalled p)"
  have small: "length ?d \<le> last_journalled_max" if "i \<in> set (od_keys (last_journalled p))"
    using assms length_od_set_member [OF that, of key] by (simp add: journal_ok_def)
  have big: "?d = last_journalled p @ [(i, key)]" if "i \<notin> set (od_keys (last_journalled p))"
    by (rule last_of_od_set) (rule that)
  show "map_of (last_journalled (note_journalled i key p)) i = Some key"
  proof (cases "length ?d > last_journalled_max")
    case True
    then have new: "i \<notin> set (od_keys (last_journalled p))" using small by fastforce
    have "length (last_journalled p) \<ge> last_journalled_max div 2"
      using True big [OF new] by (simp add: last_journalled_max_def)
    then have "drop (last_journalled_max div 2) ?d = drop (last_journalled_max div 2) (last_journalled p) @ [(i, key)]"
      using big [OF new] by simp
    moreover have "map_of (last_journalled p) i = None" using new by (simp add: map_of_keys)
    then have "map_of (drop (last_journalled_max div 2) (last_journalled p)) i = None" by (rule map_of_drop_absent)
    ultimately show ?thesis using True by (simp add: note_journalled_def Let_def map_add_def)
  next
    case False
    then show ?thesis by (simp add: note_journalled_def odict_simps)
  qed
  show "journal_ok (note_journalled i key p)"
  proof (cases "length ?d > last_journalled_max")
    case True
    then have "length ?d = Suc (length (last_journalled p))" using small big by fastforce
    then show ?thesis using assms True by (simp add: journal_ok_def note_journalled_def last_journalled_max_def)
  qed (simp add: journal_ok_def note_journalled_def)
qed

text \<open>An entry is written once, however often its step and status are reported in a row.\<close>

theorem journal_once:
  assumes "journal_ok p" "journal r step status detail level p st = (p1, st1)"
  shows "journal_ok p1 \<and> journal r step status detail' level' p1 st1 = (p1, st1)
    \<and> (st1 = st \<or> (\<exists>e. entries st1 = entries st @ [e] \<and> entry_run e = run_id r \<and> entry_step e = step \<and> entry_status e = status))"
proof (cases "map_of (last_journalled p) (run_id r) = Some (step, status)")
  case True
  with assms show ?thesis by (simp add: journal_def)
next
  case False
  with assms(2) have "p1 = note_journalled (run_id r) (step, status) p"
    and "\<exists>e. entries st1 = entries st @ [e] \<and> entry_run e = run_id r \<and> entry_step e = step \<and> entry_status e = status"
    by (auto simp: journal_def)
  with note_remembers [OF assms(1)] show ?thesis by (simp add: journal_def)
qed

theorem journal_once_witness:
  "\<exists>p st. journal (sample_run ''r1'' ''db_index'' Running) ''fetch_samples'' ''completed'' ''again'' ''info'' p st = (p, st)
     \<and> length (entries st) = 1"
proof -
  let ?r = "sample_run ''r1'' ''db_index'' Running"
  obtain p st where j: "journal ?r ''fetch_samples'' ''completed'' ''done'' ''info'' (sample_process ()) (sample_store [])
      = (p, st)" by fastforce
  have "journal_ok (sample_process ())" by (simp add: journal_ok_def sample_process_def)
  note once = journal_once [OF this j, of "''again''" "''info''"]
  have "length (entries st) = 1" using j by (auto simp: journal_def sample_defs add_entry_def)
  with once show ?thesis by blast
qed

section \<open>Reaping\<close>

text \<open>
  A pass of the reaper is exact: every row that is running or cancelling and stale is closed,
  every other row is untouched, no such row is left, the count is their number, and no summary of
  another index is left running and stale.
\<close>

theorem reap_exact:
  assumes "reap_once cfg q now timeout st jobs = (n, st', jobs')" "cutoff = now - seconds timeout"
  shows "runs st' = map (reap_run now cutoff) (runs st)
    \<and> (\<forall>r \<in> set (runs st). \<not> (run_status r \<in> {Running, Cancelling} \<and> stale_run cutoff r) \<longrightarrow> reap_run now cutoff r = r)
    \<and> (\<forall>r \<in> set (runs st'). run_status r \<in> {Running, Cancelling} \<longrightarrow> \<not> stale_run cutoff r)
    \<and> swept_runs n = length (filter (\<lambda>r. run_status r \<in> {Running, Cancelling} \<and> stale_run cutoff r) (runs st))
    \<and> (\<forall>s \<in> set (db_summaries st' @ sync_summaries st' @ checkpoints st'). sum_status s = ''running'' \<longrightarrow> \<not> summary_stale cutoff s)"
proof -
  have st': "runs st' = map (reap_run now cutoff) (runs st)"
    using runs_reap_once [of cfg q now timeout st jobs] assms by simp
  have status: "run_status (reap_run now cutoff r) \<in> {Running, Cancelling} \<longrightarrow> \<not> stale_run cutoff (reap_run now cutoff r)" for r
    by (auto simp: reap_run_def doomed_def half_cancelled_def)
  have filters: "length (filter (doomed cutoff) rs) + length (filter (half_cancelled cutoff) rs)
      = length (filter (\<lambda>r. run_status r \<in> {Running, Cancelling} \<and> stale_run cutoff r) rs)" for rs
    by (induction rs) (auto simp: doomed_def half_cancelled_def)
  have sums: "\<forall>s \<in> set (reset_stale cutoff status rows). sum_status s = ''running'' \<longrightarrow> \<not> summary_stale cutoff s"
    if "status \<noteq> ''running''" for status rows
    using that by (auto simp: reset_stale_def)
  have keep: "db_summaries (fold (catalog_reaped cfg now) l s) = db_summaries s
      \<and> sync_summaries (fold (catalog_reaped cfg now) l s) = sync_summaries s
      \<and> checkpoints (fold (catalog_reaped cfg now) l s) = checkpoints s" for l s
    by (induction l arbitrary: s) (simp_all add: catalog_reaped_def catalog_lost_def)
  have "swept_runs n = length (filter (doomed cutoff) (runs st)) + length (filter (half_cancelled cutoff) (runs st))"
    using assms by (auto simp: reap_once_def Let_def)
  then have "swept_runs n = length (filter (\<lambda>r. run_status r \<in> {Running, Cancelling} \<and> stale_run cutoff r) (runs st))"
    by (simp only: filters)
  moreover have "\<forall>s \<in> set (db_summaries st' @ sync_summaries st' @ checkpoints st'). sum_status s = ''running'' \<longrightarrow> \<not> summary_stale cutoff s"
    using assms keep sums [of "''failed''"] sums [of "''interrupted''"] by (auto simp: reap_once_def Let_def)
  moreover have "\<forall>r \<in> set (runs st). \<not> (run_status r \<in> {Running, Cancelling} \<and> stale_run cutoff r) \<longrightarrow> reap_run now cutoff r = r"
    by (auto simp: reap_run_def doomed_def half_cancelled_def)
  ultimately show ?thesis using status by (auto simp: st')
qed

definition accepting :: queue where
  "accepting jobs j = Enqueued ''job''"

theorem reap_exact_witness:
  "map run_status (runs (fst (snd (reap_once (sample_config ()) accepting (seconds 1000) 300
     (sample_store [sample_run ''r1'' ''db_index'' Running, sample_run ''r2'' ''db_index'' Completed]) []))))
   = [Failed, Completed]"
proof -
  let ?st = "sample_store [sample_run ''r1'' ''db_index'' Running, sample_run ''r2'' ''db_index'' Completed]"
  obtain n st' jobs' where r: "reap_once (sample_config ()) accepting (seconds 1000) 300 ?st [] = (n, st', jobs')"
    by (metis surj_pair)
  have "runs st' = map (reap_run (seconds 1000) (seconds 1000 - seconds 300)) (runs ?st)"
    using reap_exact [OF r refl] by blast
  then show ?thesis using r
    by (simp add: sample_defs reap_run_def doomed_def half_cancelled_def stale_run_def seconds_def)
qed

section \<open>Putting work back\<close>

lemma requeue_one_cases:
  "requeue_one cfg q now st r jobs = jobs \<or>
   (\<exists>j. requeue_one cfg q now st r jobs = jobs @ [j] \<and> job_task j = ''run_repo_index'' \<and> job_project j = project_id r
      \<and> run_kind r = ''index_repo'' \<and> requeue_attempts cfg now r st < requeue_max cfg)"
  by (auto simp: requeue_one_def reap_task_def Let_def split: enqueue_reply.split)

lemma requeue_fold:
  "\<exists>added. fold (requeue_one cfg q now st) lost jobs = jobs @ added
    \<and> length added \<le> length (filter (\<lambda>r. run_kind r = ''index_repo'') lost)
    \<and> (\<forall>j \<in> set added. job_task j = ''run_repo_index'' \<and> (\<exists>r \<in> set lost. job_project j = project_id r
         \<and> run_kind r = ''index_repo'' \<and> requeue_attempts cfg now r st < requeue_max cfg))"
proof (induction lost arbitrary: jobs)
  case (Cons r lost)
  obtain added where a: "fold (requeue_one cfg q now st) lost (requeue_one cfg q now st r jobs)
        = requeue_one cfg q now st r jobs @ added"
    "length added \<le> length (filter (\<lambda>r. run_kind r = ''index_repo'') lost)"
    "\<forall>j \<in> set added. job_task j = ''run_repo_index'' \<and> (\<exists>r \<in> set lost. job_project j = project_id r
         \<and> run_kind r = ''index_repo'' \<and> requeue_attempts cfg now r st < requeue_max cfg)"
    using Cons by blast
  from requeue_one_cases [of cfg q now st r jobs] show ?case
  proof (elim disjE exE conjE)
    assume "requeue_one cfg q now st r jobs = jobs"
    with a show ?thesis by (intro exI [of _ added]) auto
  next
    fix j
    assume j: "requeue_one cfg q now st r jobs = jobs @ [j]" "job_task j = ''run_repo_index''"
      "job_project j = project_id r" "run_kind r = ''index_repo''" "requeue_attempts cfg now r st < requeue_max cfg"
    with a show ?thesis by (intro exI [of _ "j # added"]) auto
  qed
qed simp

text \<open>
  A pass of the reaper appends to the queue only jobs that rebuild an index, at most one per
  index run it closed, each for a project with fewer counted reaps than the bound, and nothing
  when putting back is switched off.
\<close>

theorem requeue_bounded:
  assumes "reap_once cfg q now timeout st jobs = (n, st', jobs')"
    and "lost = filter (doomed (now - seconds timeout)) (runs st)"
  shows "\<exists>added. jobs' = jobs @ added \<and> (requeue_enabled cfg \<or> added = [])
    \<and> length added \<le> length (filter (\<lambda>r. run_kind r = ''index_repo'') lost)
    \<and> (\<forall>j \<in> set added. job_task j = ''run_repo_index'' \<and> (\<exists>r \<in> set lost. job_project j = project_id r
         \<and> run_kind r = ''index_repo'' \<and> requeue_attempts cfg now r st' < requeue_max cfg))"
proof -
  have jobs': "jobs' = requeue cfg q now st' lost jobs" using assms by (auto simp: reap_once_def Let_def)
  show ?thesis
  proof (cases "lost = [] \<or> \<not> requeue_enabled cfg")
    case True
    then show ?thesis by (intro exI [of _ "[]"]) (auto simp: jobs' requeue_def)
  next
    case False
    with requeue_fold [of cfg q now st' lost jobs] show ?thesis by (auto simp: jobs' requeue_def)
  qed
qed

definition sample_reaped_twice :: "unit \<Rightarrow> store" where
  "sample_reaped_twice _ = sample_store
     [sample_run ''r1'' ''index_repo'' Running,
      (sample_run ''r2'' ''index_repo'' Failed)\<lparr>run_error := Some REAP_ERROR, finished_at := Some (seconds 900)\<rparr>,
      (sample_run ''r3'' ''index_repo'' Failed)\<lparr>run_error := Some REAP_ERROR, finished_at := Some (seconds 950)\<rparr>]"

lemma runs_sample_twice: "filter (doomed (seconds 700)) (runs (sample_reaped_twice ())) = [sample_run ''r1'' ''index_repo'' Running]"
  by (simp add: sample_reaped_twice_def sample_defs doomed_def stale_run_def seconds_def)

text \<open>Two reaps of the same release within the window leave nothing to put back.\<close>

theorem requeue_bounded_witness:
  "snd (snd (reap_once (sample_config ()) accepting (seconds 1000) 300 (sample_reaped_twice ()) [])) = []"
proof -
  obtain n st' jobs' where r: "reap_once (sample_config ()) accepting (seconds 1000) 300 (sample_reaped_twice ()) []
      = (n, st', jobs')" by (metis surj_pair)
  have "runs st' = map (reap_run (seconds 1000) (seconds 700)) (runs (sample_reaped_twice ()))"
    using runs_reap_once [of "sample_config ()" accepting "seconds 1000" 300 "sample_reaped_twice ()" "[]"] r
    by (simp add: seconds_def)
  then have "requeue_attempts (sample_config ()) (seconds 1000) (sample_run ''r1'' ''index_repo'' Running) st' = 2"
    by (simp add: requeue_attempts_def reaped_before_def sample_reaped_twice_def sample_defs reap_run_def doomed_def
        half_cancelled_def stale_run_def seconds_def REAP_ERROR_def stamp_def start_meta_def dict_get_def
        counts_here_def Let_def)
  then have none: "\<not> requeue_attempts (sample_config ()) (seconds 1000) (sample_run ''r1'' ''index_repo'' Running) st'
      < requeue_max (sample_config ())" by (simp add: sample_config_def)
  have lost: "[sample_run ''r1'' ''index_repo'' Running] = filter (doomed (seconds 1000 - seconds 300)) (runs (sample_reaped_twice ()))"
    using runs_sample_twice by (simp add: seconds_def)
  from requeue_bounded [OF r lost] obtain added where a: "jobs' = [] @ added"
    and "\<forall>j \<in> set added. \<exists>x \<in> set [sample_run ''r1'' ''index_repo'' Running].
      requeue_attempts (sample_config ()) (seconds 1000) x st' < requeue_max (sample_config ())"
    by blast
  with none have "set added = {}" by auto
  with a r show ?thesis by simp
qed

text \<open>The run at hand is not among the reaps it is judged by.\<close>

lemma attempts_exclude_self: "r \<notin> set (reaped_before cfg now r st)"
  by (simp add: reaped_before_def)

text \<open>
  A stale run whose cancellation its user has requested is closed as failed and put back in the
  queue like any other.
\<close>

theorem cancelled_run_put_back:
  assumes "reap_once cfg q now timeout st jobs = (n, st', jobs')"
    and "filter (doomed (now - seconds timeout)) (runs st) = [r]" "cancel_requested r" "run_kind r = ''index_repo''"
    and "requeue_enabled cfg" "requeue_attempts cfg now r st' < requeue_max cfg"
    and "\<And>j. \<exists>i. q jobs j = Enqueued i"
  shows "reap_run now (now - seconds timeout) r \<in> set (runs st')
    \<and> run_status (reap_run now (now - seconds timeout) r) = Failed
    \<and> (\<exists>j. jobs' = jobs @ [j] \<and> job_task j = ''run_repo_index'' \<and> job_project j = project_id r)"
proof -
  have "r \<in> set (filter (doomed (now - seconds timeout)) (runs st))" using assms(2) by simp
  then have r: "r \<in> set (runs st)" "doomed (now - seconds timeout) r" by simp_all
  have jobs': "jobs' = requeue_one cfg q now st' r jobs"
    using assms(1,2,5) by (auto simp: reap_once_def Let_def requeue_def)
  define j where "j = \<lparr>job_task = ''run_repo_index'', job_project = project_id r,
      job_force_full = Some (force_full_of (run_meta (meta_json r)))\<rparr>"
  obtain i where "q jobs j = Enqueued i" using assms(7) by blast
  then have "jobs' = jobs @ [j]" using assms(4,6) unfolding jobs' j_def by (simp add: requeue_one_def reap_task_def)
  moreover have "runs st' = map (reap_run now (now - seconds timeout)) (runs st)"
    using runs_reap_once [of cfg q now timeout st jobs] assms(1) by simp
  ultimately show ?thesis using r by (auto simp: reap_run_def j_def)
qed

theorem cancelled_run_put_back_witness:
  "\<exists>j. snd (snd (reap_once (sample_config ()) accepting (seconds 1000) 300
     (sample_store [(sample_run ''r1'' ''index_repo'' Running)\<lparr>cancel_requested := True\<rparr>]) [])) = [j]"
proof -
  let ?r = "(sample_run ''r1'' ''index_repo'' Running)\<lparr>cancel_requested := True\<rparr>"
  obtain n st' jobs' where r: "reap_once (sample_config ()) accepting (seconds 1000) 300 (sample_store [?r]) []
      = (n, st', jobs')" by (metis surj_pair)
  have "runs st' = [reap_run (seconds 1000) (seconds 700) ?r]"
    using runs_reap_once [of "sample_config ()" accepting "seconds 1000" 300 "sample_store [?r]" "[]"] r
    by (simp add: seconds_def sample_store_def)
  then have few: "requeue_attempts (sample_config ()) (seconds 1000) ?r st' < requeue_max (sample_config ())"
    by (simp add: requeue_attempts_def reaped_before_def sample_defs reap_run_def doomed_def half_cancelled_def
        stale_run_def seconds_def)
  have one: "filter (doomed (seconds 1000 - seconds 300)) (runs (sample_store [?r])) = [?r]"
    by (simp add: sample_defs doomed_def stale_run_def seconds_def)
  have "\<exists>j. jobs' = [] @ [j] \<and> job_task j = ''run_repo_index'' \<and> job_project j = project_id ?r"
    by (rule conjunct2 [OF conjunct2 [OF cancelled_run_put_back [OF r one _ _ _ few]]])
      (simp_all add: sample_defs accepting_def)
  with r show ?thesis by auto
qed

section \<open>Reaped rows whose work goes on\<close>

lemma constraints_activate:
  assumes "constraints_ok rs" "r \<in> set rs" "run_id r = i"
    and "run_id n = i" "workflow_id n = workflow_id r" "scope n = scope r"
    and "\<forall>s \<in> set rs. scope s = scope r \<longrightarrow> \<not> is_active s"
  shows "constraints_ok (map (\<lambda>x. if run_id x = i then n else x) rs)"
proof -
  let ?g = "\<lambda>x. if run_id x = i then n else x"
  have uniq: "x = r" if "x \<in> set rs" "run_id x = i" for x
    using that assms(1-3) by (simp add: constraints_ok_def distinct_map inj_on_def)
  have ids: "map run_id (map ?g rs) = map run_id rs" "map workflow_id (map ?g rs) = map workflow_id rs"
    using uniq assms(4,5) by auto
  have "inj_on scope (set (filter is_active (map ?g rs)))"
  proof (rule inj_onI)
    fix a b
    assume "a \<in> set (filter is_active (map ?g rs))" "b \<in> set (filter is_active (map ?g rs))" and ab: "scope a = scope b"
    then obtain x y where x: "x \<in> set rs" "a = ?g x" "is_active a" and y: "y \<in> set rs" "b = ?g y" "is_active b" by auto
    have no: "scope c \<noteq> scope n" if "c \<in> set rs" "is_active c" for c using assms(6,7) that by auto
    consider "a = n" "b = n" | "a = n" "b = y" | "a = x" "b = n" | "a = x" "b = y"
      using x(2) y(2) by (auto split: if_splits)
    then show "a = b"
    proof cases
      case 2
      with no [OF y(1)] y(3) ab show ?thesis by simp
    next
      case 3
      with no [OF x(1)] x(3) ab show ?thesis by simp
    next
      case 4
      with x y ab single_active [OF assms(1), of x y] show ?thesis by simp
    qed simp
  qed
  moreover have d: "distinct (map ?g rs)"
  proof -
    have "distinct (map run_id (map ?g rs))" using assms(1) ids(1) by (simp only: constraints_ok_def)
    then show ?thesis by (simp only: distinct_map)
  qed
  ultimately have "distinct (map scope (filter is_active (map ?g rs)))"
    using distinct_filter [OF d, of is_active] by (blast intro: distinct_map [of scope "filter is_active (map ?g rs)", THEN iffD2])
  then show ?thesis using assms(1) ids unfolding constraints_ok_def by (simp only: simp_thms)
qed

text \<open>
  Entering a step on a row that the reaper closed and whose cancellation was requested makes
  the row active again, which no step of the promised life of a run does.
\<close>

theorem step_revives_closed_run:
  assumes "constraints_ok (runs st)" "get_run st i = Some r" "reaped r" "cancel_requested r"
    and "\<forall>s \<in> set (runs st). scope s = scope r \<longrightarrow> \<not> is_active s"
  shows "\<exists>st'. step_enter cfg now key i p st = (Inl (RunCancelled i), p, st')
    \<and> get_run st' i = Some (r\<lparr>run_status := Cancelling\<rparr>)
    \<and> life_of i st = Provisional \<and> life_of i st' = Live"
proof -
  let ?n = "r\<lparr>run_status := Cancelling\<rparr>"
  have r: "r \<in> set (runs st)" "run_id r = i" using get_runD [OF assms(2)] by simp_all
  have same: "overlay r ?n r = ?n" by (rule overlay_current) simp_all
  let ?rs = "update_run i (overlay r ?n) (runs st)"
  have uniq: "x = r" if "x \<in> set (runs st)" "run_id x = i" for x
    using that r assms(1) by (simp add: constraints_ok_def distinct_map inj_on_def)
  have rs: "?rs = map (\<lambda>x. if run_id x = i then ?n else x) (runs st)"
    unfolding update_run_def using uniq same by (intro map_cong) auto
  have "constraints_ok ?rs"
    unfolding rs by (rule constraints_activate [OF assms(1) r]) (use assms(5) in \<open>simp_all add: scope_def r(2)\<close>)
  then have s: "save r ?n st = Inr (st\<lparr>runs := ?rs\<rparr>)" using assms(2) r(2) by (simp add: save_def Let_def)
  let ?st' = "st\<lparr>runs := ?rs\<rparr>"
  have "get_run ?st' i = map_option (\<lambda>x. if run_id x = i then ?n else x) (get_run st i)"
    by (rule get_run_map) (simp_all add: r(2) rs)
  then have "get_run ?st' i = Some ?n" using assms(2) r(2) by simp
  moreover have "step_enter cfg now key i p st = (Inl (RunCancelled i), p, ?st')"
    using assms(2,4) s by (simp add: step_enter_def)
  ultimately show ?thesis
    using assms(2,3) by (simp add: life_of_def lives_def is_active_def active_status_def reaped_def)
qed

definition sample_reaped :: "unit \<Rightarrow> run" where
  "sample_reaped _ = (sample_run ''r1'' ''analytics_collect'' Failed)
     \<lparr>run_error := Some REAP_ERROR, finished_at := Some 5, cancel_requested := True\<rparr>"

lemma sample_reaped_facts:
  "constraints_ok (runs (sample_store [sample_reaped ()]))" "get_run (sample_store [sample_reaped ()]) ''r1'' = Some (sample_reaped ())"
  "reaped (sample_reaped ())" "cancel_requested (sample_reaped ())" "\<not> is_active (sample_reaped ())"
  by (simp_all add: sample_reaped_def sample_defs constraints_ok_def is_active_def active_status_def get_run_def reaped_def)

theorem step_revives_closed_run_witness:
  "\<exists>st'. step_enter (sample_config ()) 9 ''connect'' ''r1'' (sample_process ()) (sample_store [sample_reaped ()])
      = (Inl (RunCancelled ''r1''), sample_process (), st') \<and> life_of ''r1'' st' = Live"
proof -
  have "\<forall>s \<in> set (runs (sample_store [sample_reaped ()])). scope s = scope (sample_reaped ()) \<longrightarrow> \<not> is_active s"
    using sample_reaped_facts(5) by (simp add: sample_store_def)
  from step_revives_closed_run [OF sample_reaped_facts(1,2,3,4) this] show ?thesis by blast
qed

text \<open>
  \<^verbatim>\<open>finish\<close> on a reaped row keeps the reaper's mark on a run that is then completed, and the mark
  still counts against later runs of the project.
\<close>

lemma by_workflow_member:
  "distinct (map workflow_id (runs st)) \<Longrightarrow> r \<in> set (runs st) \<Longrightarrow> by_workflow st (workflow_id r) = Some r"
proof -
  assume d: "distinct (map workflow_id (runs st))" and r: "r \<in> set (runs st)"
  then obtain s where s: "by_workflow st (workflow_id r) = Some s"
    by (cases "by_workflow st (workflow_id r)") (auto simp: by_workflow_def find_None_iff)
  with by_workflowD have "s \<in> set (runs st)" "workflow_id s = workflow_id r" by blast+
  with d r have "s = r" by (simp add: distinct_map inj_on_def)
  with s show ?thesis by simp
qed

text \<open>
  A reaped run that is finished as completed keeps the reaper's mark and its failure kind, and
  the mark counts as a reap against every later run of its project and kind.
\<close>

theorem finish_keeps_mark:
  assumes "constraints_ok (runs st)" "get_run st i = Some r" "reaped r"
    and "map_of (wf_to_run p) (workflow_id r) \<in> {None, Some i}"
    and "finish cfg now Completed None None r r p st = (res, p', st')"
  shows "\<exists>n. get_run st' i = Some n \<and> run_status n = Completed \<and> run_error n = Some REAP_ERROR
    \<and> failure_kind n = failure_kind r \<and> progress_pct n = 100
    \<and> (\<forall>s. project_id s = project_id r \<and> run_kind s = run_kind r \<and> run_id s \<noteq> i \<and> 0 \<le> requeue_window_hours cfg
         \<longrightarrow> n \<in> set (reaped_before cfg now s st'))"
proof -
  let ?n = "finished now Completed None None r"
  have r: "r \<in> set (runs st)" "run_id r = i" using get_runD [OF assms(2)] by simp_all
  have fixed: "run_id ?n = i" "workflow_id ?n = workflow_id r" "run_status ?n = Completed" "run_error ?n = Some REAP_ERROR"
    "failure_kind ?n = failure_kind r" "progress_pct ?n = 100" "finished_at ?n = Some now"
    "project_id ?n = project_id r" "run_kind ?n = run_kind r"
    using assms(3) r(2) by (simp_all add: finished_def reaped_def)
  have now: "overlay r ?n r = ?n" by (rule overlay_current) (simp_all add: finished_def)
  have uniq: "x = r" if "x \<in> set (runs st)" "run_id x = i" for x
    using that r assms(1) by (simp add: constraints_ok_def distinct_map inj_on_def)
  let ?g = "\<lambda>x. if run_id x = i then ?n else x"
  have rs: "update_run i (overlay r ?n) (runs st) = map ?g (runs st)"
    unfolding update_run_def using uniq now by (intro map_cong) auto
  have ok: "constraints_ok (map ?g (runs st))"
    unfolding rs [symmetric]
    by (rule constraints_update [OF assms(1)])
      (use uniq now fixed(3) in \<open>auto simp: is_active_def active_status_def\<close>)
  then have s: "save r ?n st = Inr (st\<lparr>runs := map ?g (runs st)\<rparr>)"
    using assms(2) r(2) rs fixed(1) by (simp add: save_def Let_def)
  let ?st1 = "st\<lparr>runs := map ?g (runs st)\<rparr>"
  let ?st2 = "add_entry (finish_entry Completed None ?n) ?st1"
  have runs': "runs st' = runs (snd (end_workflow cfg now ?n Completed (or_empty None) p ?st2))"
    using finish_runs [OF assms(5)] s by auto
  have get: "get_run ?st1 i = Some ?n"
    using get_run_map [of ?g ?st1 st i] assms(2) r(2) fixed(1) by simp
  then have mem: "?n \<in> set (runs ?st1)" by (rule conjunct1 [OF get_runD])
  have quiet: "runs (snd (end_workflow cfg now ?n Completed [] p ?st2)) = runs ?st1"
  proof (cases "hook_attached p")
    case True
    let ?st3 = "send (end_event ?n Completed []) ?st2"
    have "by_workflow ?st3 (workflow_id ?n) = Some ?n"
      by (rule by_workflow_member) (use ok mem in \<open>simp_all add: constraints_ok_def\<close>)
    moreover have "get_run ?st3 i = Some ?n" using get by (simp add: get_run_def)
    ultimately have "event_run p ?st3 (workflow_id r) = Some ?n"
      using assms(4) fixed(2) by (auto simp: event_run_def Let_def)
    moreover have "snd (on_loaded cfg now ev p ?n st4) = st4" for ev st4
      using fixed(3) by (simp add: on_loaded_def terminal_status_def reaped_def)
    ultimately show ?thesis
      using True fixed(2) by (simp add: end_workflow_def Let_def on_event_def end_event_def)
  qed (simp add: end_workflow_def)
  have "runs st' = runs ?st1" using runs' quiet by (simp add: or_empty_def)
  with get mem have n: "get_run st' i = Some ?n" "?n \<in> set (runs st')" by (simp_all add: get_run_def)
  then show ?thesis
    using fixed by (intro exI [of _ ?n]) (auto simp: reaped_before_def seconds_def)
qed

theorem finish_keeps_mark_witness:
  "\<exists>res p' st' n. finish (sample_config ()) 9 Completed None None (sample_reaped ()) (sample_reaped ()) (sample_process ())
      (sample_store [sample_reaped ()]) = (res, p', st') \<and> get_run st' ''r1'' = Some n \<and> run_error n = Some REAP_ERROR"
proof -
  obtain res p' st' where f: "finish (sample_config ()) 9 Completed None None (sample_reaped ()) (sample_reaped ())
      (sample_process ()) (sample_store [sample_reaped ()]) = (res, p', st')" by (metis surj_pair)
  have "map_of (wf_to_run (sample_process ())) (workflow_id (sample_reaped ())) \<in> {None, Some ''r1''}"
    by (simp add: sample_process_def)
  from finish_keeps_mark [OF sample_reaped_facts(1,2,3) this f] f show ?thesis by blast
qed

text \<open>
  The parent of a nightly sync that was reaped while it worked is settled with its outcome; the
  run of one connection of the same sync stays failed, whatever its outcome.
\<close>

theorem connection_run_unsettled:
  assumes "get_run st i = Some r" "reaped r"
  shows "close_connection_run cfg now i out p st = (p, st)"
  using assms by (simp add: close_connection_run_def Let_def reaped_def terminal_status_def)

theorem connection_run_unsettled_witness:
  "close_connection_run (sample_config ()) 9 ''r1'' \<lparr>out_status = ''success'', out_steps = PDict [], out_error = None\<rparr>
     (sample_process ()) (sample_store [sample_reaped ()]) = (sample_process (), sample_store [sample_reaped ()])"
  by (rule connection_run_unsettled [OF sample_reaped_facts(2,3)])

text \<open>An insertion that the database refuses for another reason is reported as an active run.\<close>

theorem refused_start_reported_active:
  assumes "runs st = []" "project \<notin> set (project_ids st)" "resolve_manifest (flags_on cfg) kind = Inr m"
  shows "start cfg now (\<lambda>s. s) (\<lambda>s. s) i w kind project conn trig full p st
    = (Inl (AlreadyActive ''unknown''), p, st)"
proof -
  have "insert_run (new_run cfg now i w kind project conn trig full m) st = Inl IntegrityError"
    using assms(2) by (simp add: insert_run_def new_run_def)
  then show ?thesis using assms(1,3) by (simp add: start_def find_active_def start_insert_def Let_def)
qed

section \<open>One active run, honest progress, dated ends\<close>

text \<open>
  C8. However the operations of any number of processes interleave, on rows that sessions may have
  loaded long ago, from a database without runs: a project, kind and connection has at most one
  active run, progress stays between 0 and 100, and a run that ended has the time of its end.
\<close>

theorem runs_stay_consistent:
  assumes "sys_runs (no_runs projects connections, []) (st, held)" "r \<in> set (runs st)"
  shows "0 \<le> progress_pct r \<and> progress_pct r \<le> 100 \<and> (terminal_status (run_status r) \<longrightarrow> finished_at r \<noteq> None)
    \<and> (\<forall>s \<in> set (runs st). is_active r \<and> is_active s \<and> scope r = scope s \<longrightarrow> r = s)"
proof -
  have inv: "sys_inv st held" using sys_runs_inv [OF assms(1)] by (simp add: no_runs_inv)
  then have "constraints_ok (runs st)" "row_ok r" using assms(2) by (simp_all add: sys_inv_def)
  then show ?thesis using single_active assms(2) by (auto simp: row_ok_def)
qed

text \<open>
  For every kind and every choice of flags, progress starts at 0, never goes back along the
  manifest and is 100 at its end, in spite of the rounded quotient; and the position of a step is
  the place of its key.
\<close>

theorem progress_honest:
  assumes "resolve_manifest flags kind = Inr m"
  shows "progress_for m 0 = 0 \<and> progress_for m (int (length m)) = 100
    \<and> (\<forall>i j. i \<le> j \<longrightarrow> progress_for m i \<le> progress_for m j)
    \<and> (\<forall>key k. step_position m key = Some k \<longrightarrow> 1 \<le> k \<and> k \<le> int (length m) \<and> step_key (m ! nat (k - 1)) = key)"
proof -
  have ok: "manifest_ok m" by (rule resolve_manifest_ok) (rule assms)
  have "1 \<le> k \<and> k \<le> int (length m) \<and> step_key (m ! nat (k - 1)) = key" if "step_position m key = Some k" for key k
    using that position_bounds [of 1 m key k] position_nth [of 1 m key k] by (simp add: step_position_def)
  then show ?thesis using ok progress_mono progress_0 progress_all progress_bounds by blast
qed

theorem progress_honest_witness:
  "\<exists>m. resolve_manifest [] ''daily_sync'' = Inr m \<and> progress_for m 2 \<le> progress_for m 3 \<and> progress_for m 5 = 100"
proof -
  obtain m where m: "resolve_manifest [] ''daily_sync'' = Inr m" "length m = 5"
    by (simp add: resolve_manifest_def base_manifests_def)
  note p = progress_honest [OF m(1)]
  have "progress_for m 2 \<le> progress_for m 3" using p by simp
  moreover have "progress_for m 5 = 100" using p m(2) by simp
  ultimately show ?thesis using m(1) by blast
qed

theorem runs_stay_consistent_witness:
  "\<exists>st held r. sys_runs (no_runs [''p1''] [], []) (st, held) \<and> runs st = [r] \<and> progress_pct r \<le> 100"
proof -
  obtain m where m: "resolve_manifest (flags_on (sample_config ())) ''daily_sync'' = Inr m"
    by (simp add: resolve_manifest_def base_manifests_def)
  let ?r = "new_run (sample_config ()) 0 ''r1'' ''w1'' ''daily_sync'' ''p1'' None ''manual'' False m"
  obtain p' st where s: "start_insert ?r m (sample_process ()) (no_runs [''p1''] []) = Inr (p', st)" "runs st = [?r]"
    by (simp add: start_insert_def insert_run_def no_runs_def new_run_def constraints_ok_def is_active_def active_status_def)
  have run: "sys_runs (no_runs [''p1''] [], []) (st, [?r])"
    by (rule There [OF Here Starting [OF m s(1)]])
  have "progress_pct ?r \<le> 100" using runs_stay_consistent [OF run, of ?r] s(2) by simp
  with run s(2) show ?thesis by blast
qed

theorem refused_start_reported_active_witness:
  "\<exists>p st. start (sample_config ()) 0 (\<lambda>s. s) (\<lambda>s. s) ''r1'' ''w1'' ''daily_sync'' ''gone'' None ''manual'' False p st
     = (Inl (AlreadyActive ''unknown''), p, st) \<and> runs st = []"
proof -
  obtain m where m: "resolve_manifest (flags_on (sample_config ())) ''daily_sync'' = Inr m"
    by (simp add: resolve_manifest_def base_manifests_def)
  have "runs (no_runs [''p1''] []) = []" "''gone'' \<notin> set (project_ids (no_runs [''p1''] []))"
    by (simp_all add: no_runs_def)
  from refused_start_reported_active [OF this m] show ?thesis using \<open>runs (no_runs [''p1''] []) = []\<close> by blast
qed

end
