(* ===== verification/LlmRouter.thy ===== *)
theory LlmRouter
  imports PyValue PyText
begin

text \<open>
  \<^verbatim>\<open>backend/app/llm/router.py\<close>, with the errors of \<^verbatim>\<open>errors.py\<close>, the accumulating sink of
  \<^verbatim>\<open>usage_sink.py\<close>, the wrapper of \<^verbatim>\<open>retry.py\<close> and the decorator of \<^verbatim>\<open>core/retry.py\<close>: which provider
  a request for a language model is sent to, how often, after which pauses, and what is counted.
  The providers and the clock answer through parameters, from everything sent so far; the state
  records what was sent to whom. Logging is kept where it is a promise (which vendors received a
  request after which other failed).
\<close>

section \<open>Errors and answers\<close>

datatype llm_error = PlainError | RateLimit | ServerError | AuthError | TokenLimit | BillingError
  | ContentFilter | TimeoutError | ConnectionError | AllProvidersFailed

text \<open>An exception of the hierarchy carries the delay its provider asked for, if any.\<close>

datatype exc = LLM llm_error "rat option" | OtherExc string

definition retryable_errors :: "llm_error list" where
  "retryable_errors = [RateLimit, ServerError, TimeoutError, ConnectionError]"

definition is_retryable :: "llm_error \<Rightarrow> bool" where
  "is_retryable k = (k \<in> set retryable_errors)"

definition class_delay :: "llm_error \<Rightarrow> rat option" where
  "class_delay k = (case k of RateLimit \<Rightarrow> Some 5 | ServerError \<Rightarrow> Some 2 | TimeoutError \<Rightarrow> Some 2
     | ConnectionError \<Rightarrow> Some 2 | AllProvidersFailed \<Rightarrow> Some 3 | _ \<Rightarrow> None)"

definition retry_after :: "llm_error \<Rightarrow> rat option \<Rightarrow> rat option" where
  "retry_after k asked = (case asked of Some d \<Rightarrow> Some d | None \<Rightarrow> class_delay k)"

text \<open>\<^verbatim>\<open>exc.retry_after_seconds or delay\<close>.\<close>

definition wait_for :: "llm_error \<Rightarrow> rat option \<Rightarrow> rat \<Rightarrow> rat" where
  "wait_for k asked delay = (case retry_after k asked of None \<Rightarrow> delay | Some d \<Rightarrow> if d = 0 then delay else d)"

record response =
  resp_body :: string
  resp_usage :: "(string \<times> pyval) list"
  resp_model :: string
  resp_provider :: string

datatype reply = Answered response | Raised exc

section \<open>Counting usage\<close>

definition as_int :: "pyval \<Rightarrow> py_error + int" where
  "as_int v = (case v of
     PInt i \<Rightarrow> Inr (max 0 i)
   | PFloat (Fin r) \<Rightarrow> Inr (max 0 (if r < 0 then \<lceil>r\<rceil> else \<lfloor>r\<rfloor>))
   | PFloat NaN \<Rightarrow> Inr 0
   | PFloat (Infinite pos) \<Rightarrow> Inl OverflowError
   | PStr s \<Rightarrow> Inr (case int_of_text s of None \<Rightarrow> 0 | Some i \<Rightarrow> max 0 i)
   | _ \<Rightarrow> Inr 0)"

definition usage_total :: "(string \<times> pyval) list \<Rightarrow> py_error + int" where
  "usage_total u = bind_ok (as_int (dict_get u ''total_tokens'' PNone)) (\<lambda>reported.
     if reported \<noteq> 0 then Inr reported
     else bind_ok (as_int (dict_get u ''prompt_tokens'' PNone)) (\<lambda>p.
       bind_ok (as_int (dict_get u ''completion_tokens'' PNone)) (\<lambda>c. Inr (p + c))))"

record observation =
  obs_prompt :: int
  obs_completion :: int
  obs_total :: int
  obs_provider :: string
  obs_model :: string

definition or_text :: "string \<Rightarrow> string \<Rightarrow> string" where
  "or_text a b = (if a = [] then b else a)"

definition observe :: "string \<Rightarrow> string option \<Rightarrow> response \<Rightarrow> py_error + observation" where
  "observe provider model r =
     bind_ok (as_int (dict_get (resp_usage r) ''prompt_tokens'' PNone)) (\<lambda>p.
     bind_ok (as_int (dict_get (resp_usage r) ''completion_tokens'' PNone)) (\<lambda>c.
     bind_ok (usage_total (resp_usage r)) (\<lambda>t.
       Inr \<lparr>obs_prompt = p, obs_completion = c, obs_total = t,
            obs_provider = or_text (resp_provider r) provider,
            obs_model = or_text (resp_model r) (case model of None \<Rightarrow> [] | Some m \<Rightarrow> m)\<rparr>)))"

text \<open>The accumulating sink.\<close>

definition accumulate :: "observation \<Rightarrow> int \<times> int \<times> int \<Rightarrow> int \<times> int \<times> int" where
  "accumulate ob = (\<lambda>(p, c, t). (p + obs_prompt ob, c + obs_completion ob,
     t + (if obs_total ob \<noteq> 0 then obs_total ob else obs_prompt ob + obs_completion ob)))"

section \<open>The router's state\<close>

record 'm call =
  to_provider :: string
  content :: 'm
  asked_model :: "string option"
  api_key :: "string option"

record 'm router =
  unhealthy :: "(string, rat) odict"
  sent_calls :: "'m call list"
  pings :: "string list"
  pauses :: "rat list"
  disclosed :: "(string \<times> string) list"
  refused :: "(string \<times> string) list"
  observed :: "observation list"

text \<open>
  The settings, and the world: the adapters that can be constructed, what a provider answers to a
  call (the last of those sent), what it streams, whether it answers a ping, and the clock.
\<close>

record 'm env =
  allow_fallback :: bool
  default_provider :: string
  default_model :: string
  configured :: "string \<Rightarrow> bool"
  account_key :: "string option"
  request_key :: "string option"
  constructs :: "string \<Rightarrow> bool"
  answer :: "'m call list \<Rightarrow> reply"
  streamed :: "'m call list \<Rightarrow> string list \<times> exc option"
  ping_answers :: "string list \<Rightarrow> bool"
  clock :: "'m call list \<Rightarrow> rat list \<Rightarrow> rat"

definition now :: "'m env \<Rightarrow> 'm router \<Rightarrow> rat" where
  "now E s = clock E (sent_calls s) (pauses s)"

definition provider_names :: "string list" where
  "provider_names = [''openai'', ''anthropic'', ''openrouter'']"

definition max_retries_per_provider :: nat where "max_retries_per_provider = 3"
definition base_backoff :: rat where "base_backoff = 2"
definition backoff_multiplier :: rat where "backoff_multiplier = 2"
definition unhealthy_ttl :: rat where "unhealthy_ttl = 120"

definition text_or_none :: "string option \<Rightarrow> string option" where
  "text_or_none a = (if a = Some [] then None else a)"

text \<open>\<^verbatim>\<open>model or (settings.default_llm_model or None)\<close>.\<close>

definition effective_model :: "'m env \<Rightarrow> string option \<Rightarrow> string option" where
  "effective_model E model = (case text_or_none model of
     Some m \<Rightarrow> Some m | None \<Rightarrow> text_or_none (Some (default_model E)))"

text \<open>The account's own key, and only for the provider it can authenticate against.\<close>

definition key_for :: "'m env \<Rightarrow> string \<Rightarrow> string option" where
  "key_for E name = (if name \<noteq> ''openrouter'' then None
     else case text_or_none (account_key E) of Some k \<Rightarrow> Some k | None \<Rightarrow> request_key E)"

text \<open>What is sent to a provider; an empty key is not passed.\<close>

definition call_to :: "'m env \<Rightarrow> 'm \<Rightarrow> string option \<Rightarrow> string \<Rightarrow> 'm call" where
  "call_to E msg model p =
     \<lparr>to_provider = p, content = msg, asked_model = model, api_key = text_or_none (key_for E p)\<rparr>"

text \<open>A name without a key in the settings is never in the chain; the settings know three names.\<close>

definition has_key :: "'m env \<Rightarrow> string \<Rightarrow> bool" where
  "has_key E p = (p \<in> set provider_names \<and> configured E p)"

definition raw_chain :: "'m env \<Rightarrow> string option \<Rightarrow> string list" where
  "raw_chain E preferred =
     (let primary = (case preferred of Some p \<Rightarrow> if p = [] then default_provider E else p | None \<Rightarrow> default_provider E)
      in primary # filter (\<lambda>p. p \<noteq> primary) provider_names)"

definition is_healthy :: "'m env \<Rightarrow> 'm router \<Rightarrow> string \<Rightarrow> bool" where
  "is_healthy E s p = (case map_of (unhealthy s) p of None \<Rightarrow> True | Some t \<Rightarrow> now E s - t > unhealthy_ttl)"

definition fallback_chain :: "'m env \<Rightarrow> string option \<Rightarrow> 'm router \<Rightarrow> string list" where
  "fallback_chain E preferred s =
     (let keyed = filter (has_key E) (raw_chain E preferred); healthy = filter (is_healthy E s) keyed
      in if healthy = [] then keyed else healthy)"

definition mark_unhealthy :: "'m env \<Rightarrow> string \<Rightarrow> 'm router \<Rightarrow> 'm router" where
  "mark_unhealthy E p s = s\<lparr>unhealthy := od_set p (now E s) (unhealthy s)\<rparr>"

definition mark_healthy :: "string \<Rightarrow> 'm router \<Rightarrow> 'm router" where
  "mark_healthy p s = s\<lparr>unhealthy := od_del p (unhealthy s)\<rparr>"

text \<open>One round of the health loop: every provider that is marked is asked once.\<close>

definition health_one :: "'m env \<Rightarrow> string \<Rightarrow> 'm router \<Rightarrow> 'm router" where
  "health_one E p s =
     (if \<not> constructs E p then s
      else let s1 = s\<lparr>pings := pings s @ [p]\<rparr> in if ping_answers E (pings s1) then mark_healthy p s1 else s1)"

definition health_round :: "'m env \<Rightarrow> 'm router \<Rightarrow> 'm router" where
  "health_round E s = fold (health_one E) (od_keys (unhealthy s)) s"

text \<open>The size of a model's context: its own entry, or the first whose name contains or is contained.\<close>

definition context_windows :: "unit \<Rightarrow> (string \<times> nat) list" where
  "context_windows _ =
    [(''gpt-4o'', 128000), (''gpt-4o-mini'', 128000), (''gpt-4-turbo'', 128000), (''gpt-4'', 8192),
     (''gpt-3.5-turbo'', 16385), (''claude-sonnet-4-20250514'', 200000),
     (''claude-3-5-sonnet-20241022'', 200000), (''claude-3-haiku-20240307'', 200000),
     (''claude-3-opus-20240229'', 200000), (''deepseek/deepseek-v4-flash-0731'', 1310720),
     (''z-ai/glm-5.2'', 1048576), (''qwen/qwen3.8-flash'', 1000000), (''qwen/qwen3.7-plus'', 1000000),
     (''moonshotai/kimi-k2.5'', 262144), (''anthropic/claude-opus-4.8'', 1000000)]"

definition context_window :: "string option \<Rightarrow> nat" where
  "context_window model = (case model of
     None \<Rightarrow> 16000
   | Some m \<Rightarrow> if m = [] then 16000 else (case map_of (context_windows ()) m of
       Some n \<Rightarrow> n
     | None \<Rightarrow> (case List.find (\<lambda>(key, n). contains_text key m \<or> contains_text m key) (context_windows ()) of
         Some (key, n) \<Rightarrow> n | None \<Rightarrow> 16000)))"

section \<open>One provider\<close>

definition send_call :: "'m env \<Rightarrow> 'm call \<Rightarrow> 'm router \<Rightarrow> reply \<times> 'm router" where
  "send_call E c s = (answer E (sent_calls s @ [c]), s\<lparr>sent_calls := sent_calls s @ [c]\<rparr>)"

definition pause :: "rat \<Rightarrow> 'm router \<Rightarrow> 'm router" where
  "pause d s = s\<lparr>pauses := pauses s @ [d]\<rparr>"

definition non_retryable_per_provider :: "llm_error list" where
  "non_retryable_per_provider = [AuthError, BillingError, TokenLimit]"

text \<open>An attempt: the state of the loop is the router, the next delay and the last exception.\<close>

definition call_attempt :: "'m env \<Rightarrow> 'm call \<Rightarrow> nat \<Rightarrow> 'm router \<times> rat \<times> exc option
    \<Rightarrow> (exc + response) option \<times> 'm router \<times> rat \<times> exc option" where
  "call_attempt E c n = (\<lambda>(s, delay, prev). case send_call E c s of
     (Answered r, s1) \<Rightarrow>
       (Some (Inr (if resp_provider r = [] then r\<lparr>resp_provider := to_provider c\<rparr> else r)), s1, delay, prev)
   | (Raised e, s1) \<Rightarrow> (case e of
       LLM k asked \<Rightarrow>
         if k \<in> set non_retryable_per_provider then (Some (Inl e), s1, delay, prev)
         else if n \<ge> max_retries_per_provider then (None, s1, delay, Some e)
         else if is_retryable k then
           (None, pause (wait_for k asked delay) s1, delay * backoff_multiplier, Some e)
         else (None, pause delay s1, delay * backoff_multiplier, Some e)
     | OtherExc t \<Rightarrow>
         if n \<ge> max_retries_per_provider then (None, s1, delay, Some e)
         else (None, pause delay s1, delay * backoff_multiplier, Some e)))"

definition call_with_retry :: "'m env \<Rightarrow> 'm call \<Rightarrow> 'm router \<Rightarrow> (exc + response) \<times> 'm router" where
  "call_with_retry E c s =
     (case for_rounds (call_attempt E c) 1 max_retries_per_provider (s, base_backoff, None) of
        (Some r, s1, delay, prev) \<Rightarrow> (r, s1)
      | (None, s1, delay, prev) \<Rightarrow> (Inl (case prev of Some e \<Rightarrow> e | None \<Rightarrow> OtherExc []), s1))"

section \<open>The chain of providers\<close>

text \<open>What a failure of one provider means for the chain.\<close>

datatype verdict = Stop | Skip | SkipMarked

definition failure_verdict :: "exc \<Rightarrow> verdict" where
  "failure_verdict e = (case e of
     LLM k asked \<Rightarrow> if k = AuthError then Stop
       else if k = TokenLimit \<or> k = BillingError then Skip
       else if \<not> is_retryable k then Stop else SkipMarked
   | OtherExc t \<Rightarrow> SkipMarked)"

definition disclose :: "'m env \<Rightarrow> string \<Rightarrow> string \<Rightarrow> 'm router \<Rightarrow> bool \<times> 'm router" where
  "disclose E chosen target s =
     (if \<not> allow_fallback E then (False, s\<lparr>refused := refused s @ [(chosen, target)]\<rparr>)
      else (True, s\<lparr>disclosed := disclosed s @ [(chosen, target)]\<rparr>))"

definition note_usage :: "string \<Rightarrow> string option \<Rightarrow> response \<Rightarrow> 'm router \<Rightarrow> 'm router" where
  "note_usage p model r s = (case observe p model r of
     Inl e \<Rightarrow> s | Inr ob \<Rightarrow> s\<lparr>observed := observed s @ [ob]\<rparr>)"

fun walk :: "'m env \<Rightarrow> 'm \<Rightarrow> string option \<Rightarrow> string \<Rightarrow> string list \<Rightarrow> exc option \<Rightarrow> 'm router
    \<Rightarrow> (exc option + response) \<times> 'm router" where
  "walk E msg model chosen [] prev s = (Inl prev, s)"
| "walk E msg model chosen (p # ps) prev s =
     (case (if p = chosen then (True, s) else disclose E chosen p s) of
        (False, s1) \<Rightarrow> (Inl prev, s1)
      | (True, s1) \<Rightarrow>
          if \<not> constructs E p then
            walk E msg model chosen ps (Some (OtherExc p)) (mark_unhealthy E p s1)
          else (case call_with_retry E (call_to E msg model p) s1 of
              (Inr r, s2) \<Rightarrow> (Inr r, note_usage p model r s2)
            | (Inl e, s2) \<Rightarrow> (case failure_verdict e of
                Stop \<Rightarrow> (Inl (Some e), s2)
              | Skip \<Rightarrow> walk E msg model chosen ps (Some e) s2
              | SkipMarked \<Rightarrow> walk E msg model chosen ps (Some e) (mark_unhealthy E p s2))))"

text \<open>
  A failure is always \<^verbatim>\<open>LLMAllProvidersFailedError\<close>, whatever the last error was.
\<close>

definition complete_request :: "'m env \<Rightarrow> 'm \<Rightarrow> string option \<Rightarrow> string option \<Rightarrow> 'm router \<Rightarrow> (exc + response) \<times> 'm router" where
  "complete_request E msg model preferred s =
     (let chain = fallback_chain E preferred s;
          chosen = (case chain of [] \<Rightarrow> [] | p # ps \<Rightarrow> p)
      in case walk E msg (effective_model E model) chosen chain None s of
           (Inr r, s') \<Rightarrow> (Inr r, s')
         | (Inl prev, s') \<Rightarrow> (Inl (LLM AllProvidersFailed None), s'))"

section \<open>Streaming\<close>

text \<open>Tokens that were yielded, and how the stream ended: \<open>None\<close> is its regular end.\<close>

fun walk_stream :: "'m env \<Rightarrow> 'm \<Rightarrow> string option \<Rightarrow> string \<Rightarrow> string list \<Rightarrow> 'm router
    \<Rightarrow> (string list \<times> exc option) \<times> 'm router" where
  "walk_stream E msg model chosen [] s = (([], Some (LLM AllProvidersFailed None)), s)"
| "walk_stream E msg model chosen (p # ps) s =
     (case (if p = chosen then (True, s) else disclose E chosen p s) of
        (False, s1) \<Rightarrow> (([], Some (LLM AllProvidersFailed None)), s1)
      | (True, s1) \<Rightarrow>
          if \<not> constructs E p then walk_stream E msg model chosen ps s1
          else let c = \<lparr>to_provider = p, content = msg, asked_model = model, api_key = None\<rparr>;
                   s2 = s1\<lparr>sent_calls := sent_calls s1 @ [c]\<rparr>
            in case streamed E (sent_calls s2) of
                 (tokens, None) \<Rightarrow> ((tokens, None), s2)
               | (t # ts, Some e) \<Rightarrow> ((t # ts, Some e), s2)
               | ([], Some e) \<Rightarrow> (case failure_verdict e of
                   Stop \<Rightarrow> (([], Some (LLM AllProvidersFailed None)), s2)
                 | _ \<Rightarrow> walk_stream E msg model chosen ps s2))"

definition stream_request :: "'m env \<Rightarrow> 'm \<Rightarrow> string option \<Rightarrow> string option \<Rightarrow> 'm router
    \<Rightarrow> (string list \<times> exc option) \<times> 'm router" where
  "stream_request E msg model preferred s =
     (let chain = fallback_chain E preferred s; chosen = (case chain of [] \<Rightarrow> [] | p # ps \<Rightarrow> p)
      in walk_stream E msg (effective_model E model) chosen chain s)"

section \<open>The wrappers that try again\<close>

text \<open>\<^verbatim>\<open>llm_call_with_retry\<close> around any callable that answers or raises.\<close>

definition retry_attempt :: "('s \<Rightarrow> (exc + 'a) \<times> 's) \<Rightarrow> (rat \<Rightarrow> 's \<Rightarrow> 's) \<Rightarrow> nat \<Rightarrow> nat
    \<Rightarrow> 's \<times> rat \<times> exc option \<Rightarrow> (exc + 'a) option \<times> 's \<times> rat \<times> exc option" where
  "retry_attempt f wait m n = (\<lambda>(s, delay, prev). case f s of
     (Inr a, s1) \<Rightarrow> (Some (Inr a), s1, delay, prev)
   | (Inl e, s1) \<Rightarrow> (case e of
       LLM k asked \<Rightarrow>
         if is_retryable k then
           if n \<ge> m then (None, s1, delay, Some e)
           else (None, wait (wait_for k asked delay) s1, delay * 2, Some e)
         else (Some (Inl e), s1, delay, prev)
     | OtherExc t \<Rightarrow> (Some (Inl e), s1, delay, prev)))"

definition llm_call_with_retry :: "('s \<Rightarrow> (exc + 'a) \<times> 's) \<Rightarrow> (rat \<Rightarrow> 's \<Rightarrow> 's) \<Rightarrow> nat \<Rightarrow> rat \<Rightarrow> 's \<Rightarrow> (exc + 'a) \<times> 's" where
  "llm_call_with_retry f wait m backoff s =
     (case for_rounds (retry_attempt f wait m) 1 m (s, backoff, None) of
        (Some r, s1, delay, prev) \<Rightarrow> (r, s1)
      | (None, s1, delay, prev) \<Rightarrow> (Inl (case prev of Some e \<Rightarrow> e | None \<Rightarrow> OtherExc ''RuntimeError''), s1))"

text \<open>
  The decorator of \<^verbatim>\<open>core/retry.py\<close>: which exceptions are never, which are possibly worth another
  attempt, and a predicate that narrows the latter.
\<close>

record 'e retry_policy =
  max_attempts :: nat
  backoff_seconds :: rat
  multiplier :: rat
  never :: "'e \<Rightarrow> bool"
  worth :: "'e \<Rightarrow> bool"
  narrowed :: "'e \<Rightarrow> bool"

definition policy_attempt :: "'e retry_policy \<Rightarrow> ('s \<Rightarrow> ('e + 'a) \<times> 's) \<Rightarrow> nat
    \<Rightarrow> 's \<times> rat list \<times> rat \<times> 'e option \<Rightarrow> ('e + 'a) option \<times> 's \<times> rat list \<times> rat \<times> 'e option" where
  "policy_attempt P f n = (\<lambda>(s, ws, delay, prev). case f s of
     (Inr a, s1) \<Rightarrow> (Some (Inr a), s1, ws, delay, prev)
   | (Inl e, s1) \<Rightarrow>
       if never P e \<or> \<not> worth P e \<or> \<not> narrowed P e then (Some (Inl e), s1, ws, delay, prev)
       else if n \<ge> max_attempts P then (None, s1, ws, delay, Some e)
       else (None, s1, ws @ [delay], delay * multiplier P, Some e))"

text \<open>\<open>None\<close> is the \<^verbatim>\<open>RuntimeError\<close> of a policy without attempts.\<close>

definition with_retry :: "'e retry_policy \<Rightarrow> ('s \<Rightarrow> ('e + 'a) \<times> 's) \<Rightarrow> 's \<Rightarrow> ('e + 'a) option \<times> 's \<times> rat list" where
  "with_retry P f s =
     (case for_rounds (policy_attempt P f) 1 (max_attempts P) (s, [], backoff_seconds P, None) of
        (Some r, s1, ws, delay, prev) \<Rightarrow> (Some r, s1, ws)
      | (None, s1, ws, delay, prev) \<Rightarrow> (map_option Inl prev, s1, ws))"

section \<open>The attempts at one provider\<close>

text \<open>What the attempts at a provider leave alone, and what they add up to.\<close>

definition untouched :: "'m router \<Rightarrow> 'm router \<Rightarrow> bool" where
  "untouched s t \<longleftrightarrow> unhealthy t = unhealthy s \<and> pings t = pings s \<and> disclosed t = disclosed s
     \<and> refused t = refused s \<and> observed t = observed s"

definition attempted :: "'m env \<Rightarrow> 'm call \<Rightarrow> 'm router \<Rightarrow> nat \<Rightarrow> 'm router \<times> rat \<times> exc option \<Rightarrow> bool" where
  "attempted E c s n = (\<lambda>(t, delay, prev). n \<ge> 1 \<and> untouched s t \<and>
     sent_calls t = sent_calls s @ replicate (n - 1) c \<and>
     (n > 1 \<longrightarrow> (\<exists>e. prev = Some e \<and> answer E (sent_calls t) = Raised e)))"

lemma pause_sel [simp]:
  "sent_calls (pause d s) = sent_calls s" "unhealthy (pause d s) = unhealthy s" "pings (pause d s) = pings s"
  "disclosed (pause d s) = disclosed s" "refused (pause d s) = refused s" "observed (pause d s) = observed s"
  by (simp_all add: pause_def)

lemma mark_unhealthy_sel [simp]:
  "sent_calls (mark_unhealthy E p s) = sent_calls s" "pauses (mark_unhealthy E p s) = pauses s"
  "pings (mark_unhealthy E p s) = pings s" "disclosed (mark_unhealthy E p s) = disclosed s"
  "refused (mark_unhealthy E p s) = refused s" "observed (mark_unhealthy E p s) = observed s"
  by (simp_all add: mark_unhealthy_def)

lemma note_usage_sel [simp]:
  "sent_calls (note_usage p m r s) = sent_calls s" "disclosed (note_usage p m r s) = disclosed s"
  "refused (note_usage p m r s) = refused s"
  by (simp_all add: note_usage_def split: sum.split)

lemma sent_once: "sent_calls s @ replicate n c @ [c] = sent_calls s @ replicate (Suc n) c"
  by (simp add: replicate_append_same)

lemma attempt_goes_on:
  assumes "call_attempt E c n (t, delay, prev) = (None, t', delay', prev')"
  shows "\<exists>e. answer E (sent_calls t @ [c]) = Raised e \<and> prev' = Some e"
    and "sent_calls t' = sent_calls t @ [c]" and "untouched t t'"
  using assms
  by (auto simp: call_attempt_def send_call_def untouched_def split: reply.splits exc.splits if_splits)

lemma attempt_returns:
  assumes "call_attempt E c n (t, delay, prev) = (Some x, t', delay', prev')"
  shows "sent_calls t' = sent_calls t @ [c]" and "untouched t t'"
    and "(\<exists>r. answer E (sent_calls t') = Answered r \<and>
            x = Inr (if resp_provider r = [] then r\<lparr>resp_provider := to_provider c\<rparr> else r)) \<or>
         (\<exists>e. answer E (sent_calls t') = Raised e \<and> x = Inl e)"
  using assms
  by (auto simp: call_attempt_def send_call_def untouched_def split: reply.splits exc.splits if_splits)

interpretation attempts: counted_loop "call_attempt E c" max_retries_per_provider "attempted E c s" for E c s
proof
  fix n and S T :: "'a router \<times> rat \<times> exc option"
  assume inv: "attempted E c s n S" and step: "call_attempt E c n S = (None, T)"
  obtain t delay prev where S: "S = (t, delay, prev)" by (cases S)
  obtain t' delay' prev' where T: "T = (t', delay', prev')" by (cases T)
  note st = attempt_goes_on [OF step [unfolded S T]]
  from inv obtain k where n: "n = Suc k" by (cases n) (simp_all add: attempted_def S)
  with inv st(2) have "sent_calls t' = sent_calls s @ replicate n c"
    by (simp add: attempted_def S sent_once)
  moreover obtain e where "answer E (sent_calls t') = Raised e" "prev' = Some e" using st(1,2) by auto
  ultimately show "attempted E c s (Suc n) T"
    using inv st(3) by (simp add: attempted_def S T untouched_def)
qed

lemma attempted_first: "attempted E c s 1 (s, d, None)"
  by (simp add: attempted_def untouched_def)

lemma three_attempts: "1 + 3 = Suc max_retries_per_provider"
  by (simp add: max_retries_per_provider_def)

text \<open>A provider is asked one to three times, with the same content, and its last answer counts.\<close>

lemma call_with_retry_sends:
  assumes "call_with_retry E c s = (x, t)"
  shows "\<exists>n. 1 \<le> n \<and> n \<le> 3 \<and> sent_calls t = sent_calls s @ replicate n c"
    and "untouched s t"
    and "(\<exists>r. answer E (sent_calls t) = Answered r \<and>
            x = Inr (if resp_provider r = [] then r\<lparr>resp_provider := to_provider c\<rparr> else r)) \<or>
         (\<exists>e. answer E (sent_calls t) = Raised e \<and> x = Inl e)"
proof -
  obtain R t' delay prev where run: "for_rounds (call_attempt E c) 1 3 (s, base_backoff, None) = (R, t', delay, prev)"
    by (metis prod_cases4)
  with assms have t: "t' = t"
    by (auto simp: call_with_retry_def max_retries_per_provider_def split: option.splits)
  have all: "(\<exists>n. 1 \<le> n \<and> n \<le> 3 \<and> sent_calls t = sent_calls s @ replicate n c) \<and> untouched s t \<and>
    ((\<exists>r. answer E (sent_calls t) = Answered r \<and>
        x = Inr (if resp_provider r = [] then r\<lparr>resp_provider := to_provider c\<rparr> else r)) \<or>
     (\<exists>e. answer E (sent_calls t) = Raised e \<and> x = Inl e))"
  proof (cases R)
    case None
    have "attempted E c s 4 (t, delay, prev)"
      using attempts.rounds_over [OF attempted_first three_attempts run [unfolded None t]]
      by (simp add: max_retries_per_provider_def)
    moreover have "x = Inl (case prev of Some e \<Rightarrow> e | None \<Rightarrow> OtherExc [])"
      using assms run None by (simp add: call_with_retry_def max_retries_per_provider_def)
    ultimately show ?thesis by (auto simp: attempted_def)
  next
    case (Some y)
    with assms run have x: "x = y" by (simp add: call_with_retry_def max_retries_per_provider_def)
    obtain i U where U: "1 \<le> i" "i \<le> 3" "attempted E c s i U" "call_attempt E c i U = (Some y, t, delay, prev)"
      using attempts.rounds_return [OF attempted_first three_attempts run [unfolded Some t]]
      unfolding max_retries_per_provider_def by blast
    obtain u d p where u: "U = (u, d, p)" by (cases U)
    note ret = attempt_returns [OF U(4) [unfolded u]]
    obtain k where i: "i = Suc k" using U(1) by (cases i) auto
    have "sent_calls t = sent_calls s @ replicate i c"
      using U(3) ret(1) by (simp add: attempted_def u i sent_once)
    with U(1-3) ret(2,3) x show ?thesis by (auto simp: attempted_def u untouched_def)
  qed
  from all show "\<exists>n. 1 \<le> n \<and> n \<le> 3 \<and> sent_calls t = sent_calls s @ replicate n c"
    and "untouched s t"
    and "(\<exists>r. answer E (sent_calls t) = Answered r \<and>
            x = Inr (if resp_provider r = [] then r\<lparr>resp_provider := to_provider c\<rparr> else r)) \<or>
         (\<exists>e. answer E (sent_calls t) = Raised e \<and> x = Inl e)"
    by auto
qed

section \<open>The chain\<close>

text \<open>The calls of a walk along providers of which the first were asked so often.\<close>

definition calls_of :: "'m env \<Rightarrow> 'm \<Rightarrow> string option \<Rightarrow> string list \<Rightarrow> nat list \<Rightarrow> 'm call list" where
  "calls_of E msg model ps ns = concat (map2 (\<lambda>p n. replicate n (call_to E msg model p)) ps ns)"

lemma calls_of_simps [simp]:
  "calls_of E msg model ps [] = []"
  "calls_of E msg model (p # ps) (n # ns) = replicate n (call_to E msg model p) @ calls_of E msg model ps ns"
  by (simp_all add: calls_of_def)

text \<open>What a walk adds to the state: calls in order, and a disclosure of every other vendor reached.\<close>

definition walked :: "'m env \<Rightarrow> 'm \<Rightarrow> string option \<Rightarrow> string \<Rightarrow> string list \<Rightarrow> 'm router \<Rightarrow> 'm router \<Rightarrow> nat list \<Rightarrow> bool" where
  "walked E msg model chosen ps s t ns \<longleftrightarrow>
     length ns \<le> length ps \<and> (\<forall>n \<in> set ns. n \<le> 3) \<and>
     sent_calls t = sent_calls s @ calls_of E msg model ps ns \<and>
     disclosed t = disclosed s @ map (Pair chosen) (filter (\<lambda>p. p \<noteq> chosen) (take (length ns) ps)) \<and>
     (\<not> allow_fallback E \<longrightarrow> set (take (length ns) ps) \<subseteq> {chosen})"

lemma walked_none: "sent_calls t = sent_calls s \<Longrightarrow> disclosed t = disclosed s \<Longrightarrow> walked E msg model chosen ps s t []"
  by (simp add: walked_def)

definition reaches :: "'m env \<Rightarrow> string \<Rightarrow> string \<Rightarrow> 'm router \<Rightarrow> bool \<times> 'm router" where
  "reaches E chosen p s = (if p = chosen then (True, s) else disclose E chosen p s)"

lemma reaches_no: "reaches E chosen p s = (False, s1) \<Longrightarrow> sent_calls s1 = sent_calls s \<and> disclosed s1 = disclosed s
    \<and> unhealthy s1 = unhealthy s \<and> observed s1 = observed s"
  by (auto simp: reaches_def disclose_def split: if_splits)

lemma reaches_yes: "reaches E chosen p s = (True, s1) \<Longrightarrow> sent_calls s1 = sent_calls s \<and>
    disclosed s1 = disclosed s @ (if p = chosen then [] else [(chosen, p)]) \<and> observed s1 = observed s
    \<and> (\<not> allow_fallback E \<longrightarrow> p = chosen)"
  by (auto simp: reaches_def disclose_def split: if_splits)

lemma walked_step:
  assumes "reaches E chosen p s = (True, s1)" and "n \<le> 3"
    and "sent_calls s2 = sent_calls s @ replicate n (call_to E msg model p)" and "disclosed s2 = disclosed s1"
    and "walked E msg model chosen ps s2 t ns"
  shows "walked E msg model chosen (p # ps) s t (n # ns)"
  using assms(2-) reaches_yes [OF assms(1)] by (auto simp: walked_def)

lemma walk_Cons:
  "walk E msg model chosen (p # ps) prev s =
     (case reaches E chosen p s of
        (False, s1) \<Rightarrow> (Inl prev, s1)
      | (True, s1) \<Rightarrow>
          if \<not> constructs E p then
            walk E msg model chosen ps (Some (OtherExc p)) (mark_unhealthy E p s1)
          else (case call_with_retry E (call_to E msg model p) s1 of
              (Inr r, s2) \<Rightarrow> (Inr r, note_usage p model r s2)
            | (Inl e, s2) \<Rightarrow> (case failure_verdict e of
                Stop \<Rightarrow> (Inl (Some e), s2)
              | Skip \<Rightarrow> walk E msg model chosen ps (Some e) s2
              | SkipMarked \<Rightarrow> walk E msg model chosen ps (Some e) (mark_unhealthy E p s2))))"
  by (simp add: reaches_def)

lemma walk_sends:
  assumes "walk E msg model chosen ps prev s = (x, t)"
  shows "\<exists>ns. walked E msg model chosen ps s t ns"
  using assms
proof (induction ps arbitrary: prev s)
  case Nil
  then show ?case by (auto intro: walked_none)
next
  case (Cons p ps)
  note step = Cons.prems [unfolded walk_Cons]
  obtain ok s1 where reach: "reaches E chosen p s = (ok, s1)" by fastforce
  show ?case
  proof (cases ok)
    case False
    with step reach have "t = s1" by simp
    with reaches_no reach False show ?thesis by (metis walked_none)
  next
    case True
    have yes: "reaches E chosen p s = (True, s1)" using reach True by simp
    note same = reaches_yes [OF yes]
    show ?thesis
    proof (cases "constructs E p")
      case False
      with step yes have "walk E msg model chosen ps (Some (OtherExc p)) (mark_unhealthy E p s1) = (x, t)" by simp
      from Cons.IH [OF this] obtain ns where "walked E msg model chosen ps (mark_unhealthy E p s1) t ns" by blast
      then have "walked E msg model chosen (p # ps) s t (0 # ns)"
        by (intro walked_step [OF yes]) (simp_all add: same)
      then show ?thesis ..
    next
      case built: True
      obtain y s2 where call: "call_with_retry E (call_to E msg model p) s1 = (y, s2)" by fastforce
      obtain n where n: "n \<le> 3" "sent_calls s2 = sent_calls s1 @ replicate n (call_to E msg model p)"
        using call_with_retry_sends(1) [OF call] by blast
      have d: "disclosed s2 = disclosed s1" using call_with_retry_sends(2) [OF call] by (simp add: untouched_def)
      have on: "\<exists>ns. walked E msg model chosen (p # ps) s t ns"
        if "walked E msg model chosen ps s3 t ns" "sent_calls s3 = sent_calls s2" "disclosed s3 = disclosed s2" for s3 ns
        using walked_step [OF yes n(1) _ _ that(1)] that(2,3) n(2) d same by metis
      show ?thesis
      proof (cases y)
        case (Inr r)
        with step yes built call have "t = note_usage p model r s2" by simp
        then show ?thesis by (intro on [of s2 "[]"]) (simp_all add: walked_none)
      next
        case (Inl e)
        show ?thesis
        proof (cases "failure_verdict e")
          case Stop
          with step yes built call Inl have "t = s2" by simp
          then show ?thesis by (intro on [of s2 "[]"]) (simp_all add: walked_none)
        next
          case Skip
          with step yes built call Inl have "walk E msg model chosen ps (Some e) s2 = (x, t)" by simp
          from Cons.IH [OF this] show ?thesis using on by blast
        next
          case SkipMarked
          with step yes built call Inl have "walk E msg model chosen ps (Some e) (mark_unhealthy E p s2) = (x, t)" by simp
          from Cons.IH [OF this] obtain ns where "walked E msg model chosen ps (mark_unhealthy E p s2) t ns" by blast
          then show ?thesis by (rule on) simp_all
        qed
      qed
    qed
  qed
qed

lemma fallback_chain_known: "set (fallback_chain E preferred s) \<subseteq> set provider_names"
  by (auto simp: fallback_chain_def Let_def has_key_def split: if_splits)

lemma fallback_chain_distinct: "distinct (fallback_chain E preferred s)"
  by (simp add: fallback_chain_def Let_def raw_chain_def provider_names_def)

lemma fallback_chain_length: "length (fallback_chain E preferred s) \<le> 3"
proof -
  have "length (fallback_chain E preferred s) = card (set (fallback_chain E preferred s))"
    by (simp add: distinct_card fallback_chain_distinct)
  also have "\<dots> \<le> card (set provider_names)" by (intro card_mono fallback_chain_known) simp
  also have "\<dots> \<le> 3" by (simp add: provider_names_def)
  finally show ?thesis .
qed

lemma calls_of_length:
  "length ns \<le> length ps \<Longrightarrow> \<forall>n \<in> set ns. n \<le> 3 \<Longrightarrow> length (calls_of E msg model ps ns) \<le> 3 * length ns"
proof (induction ps arbitrary: ns)
  case (Cons p ps)
  then show ?case by (cases ns) force+
qed simp

text \<open>What a walk returns, and what it counts.\<close>

definition named :: "string \<Rightarrow> response \<Rightarrow> response" where
  "named p r = (if resp_provider r = [] then r\<lparr>resp_provider := p\<rparr> else r)"

definition counted :: "string \<Rightarrow> string option \<Rightarrow> response \<Rightarrow> observation list" where
  "counted p model r = (case observe p model r of Inl e \<Rightarrow> [] | Inr ob \<Rightarrow> [ob])"

definition answered_by :: "'m env \<Rightarrow> 'm \<Rightarrow> string option \<Rightarrow> string list \<Rightarrow> 'm router \<Rightarrow> exc option + response \<Rightarrow> 'm router \<Rightarrow> bool" where
  "answered_by E msg model ps s x t = (case x of
     Inl e \<Rightarrow> observed t = observed s
   | Inr r \<Rightarrow> (\<exists>p \<in> set ps. \<exists>r' before. sent_calls t = before @ [call_to E msg model p] \<and>
       answer E (sent_calls t) = Answered r' \<and> r = named p r' \<and> observed t = observed s @ counted p model r))"

lemma answered_by_Cons:
  "answered_by E msg model ps s x t \<Longrightarrow> observed s = observed s' \<Longrightarrow> answered_by E msg model (p # ps) s' x t"
  by (auto simp: answered_by_def split: sum.splits)

lemma walk_answers: "walk E msg model chosen ps prev s = (x, t) \<Longrightarrow> answered_by E msg model ps s x t"
proof (induction ps arbitrary: prev s)
  case Nil
  then show ?case by (auto simp: answered_by_def)
next
  case (Cons p ps)
  note step = Cons.prems [unfolded walk_Cons]
  obtain ok s1 where reach: "reaches E chosen p s = (ok, s1)" by fastforce
  have obs: "observed s1 = observed s" using reach by (auto simp: reaches_def disclose_def split: if_splits)
  show ?case
  proof (cases "ok \<and> constructs E p")
    case False
    then have "(x = Inl prev \<and> t = s1) \<or> walk E msg model chosen ps (Some (OtherExc p)) (mark_unhealthy E p s1) = (x, t)"
      using step reach by (cases ok) simp_all
    then show ?thesis
    proof
      assume "x = Inl prev \<and> t = s1"
      with obs show ?thesis by (simp add: answered_by_def)
    next
      assume "walk E msg model chosen ps (Some (OtherExc p)) (mark_unhealthy E p s1) = (x, t)"
      from Cons.IH [OF this] show ?thesis by (rule answered_by_Cons) (simp add: obs)
    qed
  next
    case True
    obtain y s2 where call: "call_with_retry E (call_to E msg model p) s1 = (y, s2)" by fastforce
    note res = call_with_retry_sends [OF call]
    have obs2: "observed s2 = observed s" using res(2) obs by (simp add: untouched_def)
    show ?thesis
    proof (cases y)
      case (Inr r)
      with step reach True call have xt: "x = Inr r" "t = note_usage p model r s2" by simp_all
      obtain n where n: "1 \<le> n" "sent_calls s2 = sent_calls s1 @ replicate n (call_to E msg model p)" using res(1) by blast
      then obtain k where "n = Suc k" by (cases n) auto
      with n have lst: "sent_calls s2 = (sent_calls s1 @ replicate k (call_to E msg model p)) @ [call_to E msg model p]"
        by (simp add: replicate_append_same)
      obtain r' where r': "answer E (sent_calls s2) = Answered r'" "r = named p r'"
        using res(3) Inr by (auto simp: named_def call_to_def)
      have "observed t = observed s @ counted p model r"
        using obs2 by (simp add: xt(2) note_usage_def counted_def split: sum.split)
      with lst r' show ?thesis unfolding answered_by_def xt by auto
    next
      case (Inl e)
      from step reach True call Inl
      have "(x = Inl (Some e) \<and> t = s2) \<or>
        (\<exists>s3. observed s3 = observed s2 \<and> walk E msg model chosen ps (Some e) s3 = (x, t))"
        by (cases "failure_verdict e") (auto intro: exI [of _ s2] exI [of _ "mark_unhealthy E p s2"])
      then show ?thesis
      proof
        assume "x = Inl (Some e) \<and> t = s2"
        with obs2 show ?thesis by (simp add: answered_by_def)
      next
        assume "\<exists>s3. observed s3 = observed s2 \<and> walk E msg model chosen ps (Some e) s3 = (x, t)"
        then obtain s3 where s3: "observed s3 = observed s2" "walk E msg model chosen ps (Some e) s3 = (x, t)" by blast
        from Cons.IH [OF s3(2)] show ?thesis by (rule answered_by_Cons) (simp add: s3 obs2)
      qed
    qed
  qed
qed

section \<open>What a request does\<close>

lemma complete_walk:
  assumes "complete_request E msg model preferred s = (x, t)"
  obtains y where "walk E msg (effective_model E model) (hd (fallback_chain E preferred s)) (fallback_chain E preferred s) None s = (y, t)"
    and "x = (case y of Inl e \<Rightarrow> Inl (LLM AllProvidersFailed None) | Inr r \<Rightarrow> Inr r)"
proof -
  let ?chain = "fallback_chain E preferred s"
  let ?w = "\<lambda>c. walk E msg (effective_model E model) c ?chain None s"
  have same: "?w (case ?chain of [] \<Rightarrow> [] | p # ps \<Rightarrow> p) = ?w (hd ?chain)"
    by (cases ?chain) (simp_all del: walk.simps(2))
  obtain y u where w: "?w (hd ?chain) = (y, u)" by fastforce
  have "x = (case y of Inl e \<Rightarrow> Inl (LLM AllProvidersFailed None) | Inr r \<Rightarrow> Inr r) \<and> u = t"
    using assms unfolding complete_request_def Let_def same w by (auto split: sum.splits)
  with w that show thesis by blast
qed

lemma tail_of_chain: "distinct ps \<Longrightarrow> filter (\<lambda>p. p \<noteq> hd ps) (take n ps) = tl (take n ps)"
proof (cases ps)
  case (Cons q qs)
  assume "distinct ps"
  with Cons have "q \<notin> set (take k qs)" for k by (auto dest: in_set_takeD)
  then show ?thesis by (cases n) (auto simp: Cons intro: filter_True)
qed simp

text \<open>
  C21. A request asks the providers of its chain one after the other, at most three times each (nine
  in all), always with the same content; every vendor but the first that is reached has been
  disclosed, in order; and where fallback is not allowed only the first is ever asked.
\<close>

theorem request_calls:
  assumes "complete_request E msg model preferred s = (x, t)"
  shows "\<exists>ns. length ns \<le> length (fallback_chain E preferred s) \<and> (\<forall>n \<in> set ns. n \<le> 3) \<and>
    sent_calls t = sent_calls s @ concat (map2 (\<lambda>p n. replicate n (call_to E msg (effective_model E model) p))
      (fallback_chain E preferred s) ns) \<and>
    disclosed t = disclosed s @ map (Pair (hd (fallback_chain E preferred s)))
      (tl (take (length ns) (fallback_chain E preferred s))) \<and>
    (\<not> allow_fallback E \<longrightarrow> length ns \<le> 1) \<and>
    length (sent_calls t) \<le> length (sent_calls s) + 9"
proof -
  let ?chain = "fallback_chain E preferred s"
  obtain y where "walk E msg (effective_model E model) (hd ?chain) ?chain None s = (y, t)"
    by (rule complete_walk [OF assms])
  from walk_sends [OF this] obtain ns where w: "walked E msg (effective_model E model) (hd ?chain) ?chain s t ns" ..
  have "length ns \<le> 1" if "\<not> allow_fallback E"
  proof -
    from w that have "set (take (length ns) ?chain) \<subseteq> {hd ?chain}" by (simp add: walked_def)
    then have "card (set (take (length ns) ?chain)) \<le> card {hd ?chain}" by (intro card_mono) simp_all
    moreover have "length (take (length ns) ?chain) = length ns" using w by (simp add: walked_def)
    ultimately show ?thesis
      using distinct_card [of "take (length ns) ?chain"] fallback_chain_distinct [of E preferred s] by simp
  qed
  moreover have "length (sent_calls t) \<le> length (sent_calls s) + 9"
    using w calls_of_length [of ns ?chain E msg "effective_model E model"] fallback_chain_length [of E preferred s]
    by (simp add: walked_def)
  ultimately show ?thesis
    using w tail_of_chain [OF fallback_chain_distinct [of E preferred s], of "length ns"]
    by (auto simp: walked_def calls_of_def)
qed

text \<open>
  C1. A request that fails raises \<^verbatim>\<open>LLMAllProvidersFailedError\<close> whatever the providers said, and
  counts nothing; one that succeeds returns what the provider asked last answered to exactly this
  content, and counts that answer once.
\<close>

theorem request_result:
  assumes "complete_request E msg model preferred s = (x, t)"
  shows "case x of
     Inl e \<Rightarrow> e = LLM AllProvidersFailed None \<and> observed t = observed s
   | Inr r \<Rightarrow> (\<exists>p \<in> set (fallback_chain E preferred s). \<exists>r' before.
       sent_calls t = before @ [call_to E msg (effective_model E model) p] \<and>
       answer E (sent_calls t) = Answered r' \<and>
       r = (if resp_provider r' = [] then r'\<lparr>resp_provider := p\<rparr> else r') \<and>
       observed t = observed s @ (case observe p (effective_model E model) r of Inl e \<Rightarrow> [] | Inr ob \<Rightarrow> [ob]))"
proof -
  let ?chain = "fallback_chain E preferred s"
  obtain y where y: "walk E msg (effective_model E model) (hd ?chain) ?chain None s = (y, t)"
    "x = (case y of Inl e \<Rightarrow> Inl (LLM AllProvidersFailed None) | Inr r \<Rightarrow> Inr r)"
    by (rule complete_walk [OF assms])
  from walk_answers [OF y(1)] y(2) show ?thesis
    by (cases y) (simp_all add: answered_by_def named_def counted_def)
qed

text \<open>
  A provider that keeps failing in the same way is asked once when the failure is of the kinds
  that no attempt can mend, and three times otherwise, with the pause it asks for or two and then
  four seconds: also for a refusal of the content, which the hierarchy calls not retryable.
\<close>

theorem attempts_by_kind:
  assumes "\<And>n. 1 \<le> n \<Longrightarrow> n \<le> 3 \<Longrightarrow> answer E (sent_calls s @ replicate n c) = Raised (LLM k (asked n))"
  shows "sent_calls (snd (call_with_retry E c s)) = sent_calls s @ replicate (if k \<in> {AuthError, BillingError, TokenLimit} then 1 else 3) c \<and>
    pauses (snd (call_with_retry E c s)) = pauses s @
      (if k \<in> {AuthError, BillingError, TokenLimit} then []
       else if is_retryable k then [wait_for k (asked 1) 2, wait_for k (asked 2) 4] else [2, 4])"
proof -
  have a: "answer E (sent_calls s @ [c]) = Raised (LLM k (asked 1))"
    "answer E (sent_calls s @ [c, c]) = Raised (LLM k (asked 2))"
    "answer E (sent_calls s @ [c, c, c]) = Raised (LLM k (asked 3))"
    using assms [of 1] assms [of 2] assms [of 3] by (simp_all add: numeral_eq_Suc)
  have three: "for_rounds b 1 max_retries_per_provider x = for_rounds b (Suc 0) (Suc (Suc (Suc 0))) x"
    for b :: "nat \<Rightarrow> 'a router \<times> rat \<times> exc option \<Rightarrow> (exc + response) option \<times> 'a router \<times> rat \<times> exc option" and x
    by (simp add: max_retries_per_provider_def numeral_eq_Suc)
  show ?thesis
    unfolding call_with_retry_def three for_rounds.simps
    by (simp add: call_attempt_def send_call_def a non_retryable_per_provider_def
        max_retries_per_provider_def base_backoff_def backoff_multiplier_def pause_def numeral_eq_Suc)
qed

text \<open>
  The wrapper that the agents call a model through never tries again, because a request never
  fails with one of the errors it retries: it is the request itself.
\<close>

theorem retry_never_retries:
  assumes "1 \<le> m"
  shows "llm_call_with_retry (complete_request E msg model preferred) wait m backoff s
    = complete_request E msg model preferred s"
proof -
  obtain x t where req: "complete_request E msg model preferred s = (x, t)" by fastforce
  obtain y where "walk E msg (effective_model E model) (hd (fallback_chain E preferred s)) (fallback_chain E preferred s) None s = (y, t)"
    and "x = (case y of Inl e \<Rightarrow> Inl (LLM AllProvidersFailed None) | Inr r \<Rightarrow> Inr r)"
    by (rule complete_walk [OF req])
  then have x: "(\<exists>r. x = Inr r) \<or> x = Inl (LLM AllProvidersFailed None)" by (cases y) simp_all
  obtain k where m: "m = Suc k" using assms by (cases m) auto
  from x req show ?thesis
    by (auto simp: llm_call_with_retry_def m retry_attempt_def is_retryable_def retryable_errors_def)
qed

lemma shorter_chain_differs: "fallback_chain E preferred s = q # ps \<Longrightarrow> is_healthy E s q \<or> (\<forall>p \<in> set (q # ps). \<not> is_healthy E s p)"
  by (auto simp: fallback_chain_def Let_def filter_empty_conv split: if_splits dest: filter_eq_ConsD)

text \<open>
  C35. Where fallback is not allowed, content goes to a vendor the deployment did not choose when the
  chosen one was marked unhealthy less than two minutes ago: the chain starts at another, to which
  everything is sent, and no disclosure is made.
\<close>

theorem undisclosed_vendor:
  assumes "\<not> allow_fallback E" and "has_key E p" and "\<not> is_healthy E s p" and "p \<noteq> []"
    and "has_key E q" and "is_healthy E s q"
    and "\<And>p'. constructs E p'"
    and "complete_request E msg model (Some p) s = (x, t)"
  shows "\<exists>q n. q \<noteq> p \<and> 1 \<le> n \<and> disclosed t = disclosed s \<and>
    sent_calls t = sent_calls s @ replicate n (call_to E msg (effective_model E model) q)"
proof -
  let ?chain = "fallback_chain E (Some p) s"
  have "filter (is_healthy E s) (filter (has_key E) (raw_chain E (Some p))) \<noteq> []"
    using assms(2-6) by (auto simp: raw_chain_def has_key_def filter_empty_conv)
  then have ch: "?chain = filter (is_healthy E s) (filter (has_key E) (raw_chain E (Some p)))" "?chain \<noteq> []"
    by (simp_all add: fallback_chain_def Let_def)
  from ch(2) obtain q' ps where q': "?chain = q' # ps" by (metis list.exhaust)
  have "q' \<in> set ?chain" by (simp add: q')
  then have "is_healthy E s q'" unfolding ch(1) by simp
  with assms(3) have neq: "q' \<noteq> p" by auto
  obtain y where w: "walk E msg (effective_model E model) q' (q' # ps) None s = (y, t)"
    using complete_walk [OF assms(8)] q' by (metis list.sel(1))
  have first: "reaches E q' q' s = (True, s)" by (simp add: reaches_def)
  obtain z s2 where call: "call_with_retry E (call_to E msg (effective_model E model) q') s = (z, s2)" by fastforce
  have keep: "sent_calls t = sent_calls s2 \<and> disclosed t = disclosed s2"
    if "walk E msg (effective_model E model) q' ps prev u = (y, t)" "sent_calls u = sent_calls s2" "disclosed u = disclosed s2" for prev u
  proof -
    from walk_sends [OF that(1)] obtain ns where ns: "walked E msg (effective_model E model) q' ps u t ns" ..
    have "q' \<notin> set ps" using fallback_chain_distinct [of E "Some p" s] q' by simp
    then have "take (length ns) ps = []"
      using ns assms(1) in_set_takeD [of _ "length ns" ps] by (cases "take (length ns) ps") (force simp: walked_def)+
    then have "ns = []" using ns by (auto simp: walked_def)
    with ns that(2,3) show ?thesis by (simp add: walked_def)
  qed
  have "sent_calls t = sent_calls s2 \<and> disclosed t = disclosed s2"
  proof (cases z)
    case (Inl e)
    with w have "(case failure_verdict e of Stop \<Rightarrow> (Inl (Some e), s2)
        | Skip \<Rightarrow> walk E msg (effective_model E model) q' ps (Some e) s2
        | SkipMarked \<Rightarrow> walk E msg (effective_model E model) q' ps (Some e) (mark_unhealthy E q' s2)) = (y, t)"
      by (simp only: walk_Cons first call assms(7) prod.case bool.case sum.case not_True_eq_False if_False)
    then show ?thesis
      using keep [of "Some e" s2] keep [of "Some e" "mark_unhealthy E q' s2"] by (cases "failure_verdict e") simp_all
  next
    case (Inr r)
    with w have "t = note_usage q' (effective_model E model) r s2"
      by (simp only: walk_Cons first call assms(7) prod.case bool.case sum.case not_True_eq_False if_False prod.inject)
    then show ?thesis by simp
  qed
  moreover obtain n where "1 \<le> n" "sent_calls s2 = sent_calls s @ replicate n (call_to E msg (effective_model E model) q')"
    using call_with_retry_sends(1) [OF call] by blast
  moreover have "disclosed s2 = disclosed s" using call_with_retry_sends(2) [OF call] by (simp add: untouched_def)
  ultimately show ?thesis using neq by (intro exI [of _ q'] exI [of _ n]) simp
qed

section \<open>Streams\<close>

lemma walk_stream_Cons:
  "walk_stream E msg model chosen (p # ps) s =
     (case reaches E chosen p s of
        (False, s1) \<Rightarrow> (([], Some (LLM AllProvidersFailed None)), s1)
      | (True, s1) \<Rightarrow>
          if \<not> constructs E p then walk_stream E msg model chosen ps s1
          else let c = \<lparr>to_provider = p, content = msg, asked_model = model, api_key = None\<rparr>;
                   s2 = s1\<lparr>sent_calls := sent_calls s1 @ [c]\<rparr>
            in case streamed E (sent_calls s2) of
                 (tokens, None) \<Rightarrow> ((tokens, None), s2)
               | (t # ts, Some e) \<Rightarrow> ((t # ts, Some e), s2)
               | ([], Some e) \<Rightarrow> (case failure_verdict e of
                   Stop \<Rightarrow> (([], Some (LLM AllProvidersFailed None)), s2)
                 | _ \<Rightarrow> walk_stream E msg model chosen ps s2))"
  by (simp add: reaches_def)

text \<open>What a stream of a chain is: one vendor's, or none's.\<close>

definition stream_of :: "'m env \<Rightarrow> 'm \<Rightarrow> string option \<Rightarrow> string list \<Rightarrow> 'm router
    \<Rightarrow> string list \<times> exc option \<Rightarrow> 'm router \<Rightarrow> bool" where
  "stream_of E msg model ps s x t \<longleftrightarrow> observed t = observed s \<and>
     (\<exists>qs. set qs \<subseteq> set ps \<and> length qs \<le> length ps \<and>
        sent_calls t = sent_calls s @ map (\<lambda>q. \<lparr>to_provider = q, content = msg, asked_model = model, api_key = None\<rparr>) qs) \<and>
     ((\<exists>p before. p \<in> set ps \<and>
         sent_calls t = before @ [\<lparr>to_provider = p, content = msg, asked_model = model, api_key = None\<rparr>] \<and>
         streamed E (sent_calls t) = x) \<or>
      x = ([], Some (LLM AllProvidersFailed None)))"

lemma stream_of_none:
  "observed t = observed s \<Longrightarrow> sent_calls t = sent_calls s \<Longrightarrow> stream_of E msg model ps s ([], Some (LLM AllProvidersFailed None)) t"
  by (auto simp: stream_of_def intro: exI [of _ "[]"])

lemma stream_of_Cons:
  assumes "stream_of E msg model ps s2 x t" and "observed s2 = observed s"
    and "sent_calls s2 = sent_calls s \<or>
      sent_calls s2 = sent_calls s @ [\<lparr>to_provider = p, content = msg, asked_model = model, api_key = None\<rparr>]"
  shows "stream_of E msg model (p # ps) s x t"
proof -
  let ?c = "\<lambda>q. \<lparr>to_provider = q, content = msg, asked_model = model, api_key = None\<rparr>"
  obtain qs where qs: "set qs \<subseteq> set ps" "length qs \<le> length ps" "sent_calls t = sent_calls s2 @ map ?c qs"
    using assms(1) by (auto simp: stream_of_def)
  have "\<exists>qs'. set qs' \<subseteq> set (p # ps) \<and> length qs' \<le> length (p # ps) \<and> sent_calls t = sent_calls s @ map ?c qs'"
    using assms(3)
  proof
    assume "sent_calls s2 = sent_calls s"
    with qs show ?thesis by (intro exI [of _ qs]) auto
  next
    assume "sent_calls s2 = sent_calls s @ [?c p]"
    with qs show ?thesis by (intro exI [of _ "p # qs"]) auto
  qed
  with assms(1,2) show ?thesis by (auto simp: stream_of_def)
qed

lemma walk_stream_of: "walk_stream E msg model chosen ps s = (x, t) \<Longrightarrow> stream_of E msg model ps s x t"
proof (induction ps arbitrary: s)
  case Nil
  then show ?case by (auto intro: stream_of_none)
next
  case (Cons p ps)
  note step = Cons.prems [unfolded walk_stream_Cons]
  obtain ok s1 where reach: "reaches E chosen p s = (ok, s1)" by fastforce
  have same: "observed s1 = observed s" "sent_calls s1 = sent_calls s"
    using reach by (auto simp: reaches_def disclose_def split: if_splits)
  show ?case
  proof (cases "ok \<and> constructs E p")
    case False
    then have "(x = ([], Some (LLM AllProvidersFailed None)) \<and> t = s1) \<or> walk_stream E msg model chosen ps s1 = (x, t)"
      using step reach by (cases ok) simp_all
    then show ?thesis using Cons.IH same by (auto intro: stream_of_none stream_of_Cons)
  next
    case True
    define c where "c = \<lparr>to_provider = p, content = msg, asked_model = model, api_key = None\<rparr>"
    define s2 where "s2 = s1\<lparr>sent_calls := sent_calls s1 @ [c]\<rparr>"
    have s2: "observed s2 = observed s" "sent_calls s2 = sent_calls s @ [c]" by (simp_all add: s2_def same)
    obtain tokens e where st: "streamed E (sent_calls s2) = (tokens, e)" by fastforce
    have step': "(case (tokens, e) of
                 (tokens, None) \<Rightarrow> ((tokens, None), s2)
               | (t # ts, Some e) \<Rightarrow> ((t # ts, Some e), s2)
               | ([], Some e) \<Rightarrow> (case failure_verdict e of
                   Stop \<Rightarrow> (([], Some (LLM AllProvidersFailed None)), s2)
                 | _ \<Rightarrow> walk_stream E msg model chosen ps s2)) = (x, t)"
      using step reach True st unfolding s2_def c_def by (simp add: Let_def)
    have one: "stream_of E msg model (p # ps) s y s2"
      if "y = (tokens, e) \<or> y = ([], Some (LLM AllProvidersFailed None))" for y
      using that st s2 unfolding stream_of_def c_def by (auto intro!: exI [of _ "[p]"])
    have on: "stream_of E msg model (p # ps) s x t" if "walk_stream E msg model chosen ps s2 = (x, t)"
      using Cons.IH [OF that] s2 unfolding c_def by (auto intro: stream_of_Cons)
    show ?thesis
      using step' one on by (cases e; cases tokens) (auto split: verdict.splits)
  qed
qed

text \<open>
  A stream asks each provider of the chain at most once; the tokens that were yielded and the
  way it ended are those of the one that was asked last, so tokens of two vendors are never mixed;
  its usage is never counted, and the account's own key is never passed.
\<close>

theorem stream_one_vendor:
  assumes "stream_request E msg model preferred s = ((tokens, e), t)"
  shows "(tokens, e) = ([], Some (LLM AllProvidersFailed None)) \<or>
     (\<exists>p before. p \<in> set (fallback_chain E preferred s) \<and>
        sent_calls t = before @ [\<lparr>to_provider = p, content = msg, asked_model = effective_model E model, api_key = None\<rparr>] \<and>
        streamed E (sent_calls t) = (tokens, e))"
    and "length (sent_calls t) \<le> length (sent_calls s) + 3" and "observed t = observed s"
proof -
  let ?chain = "fallback_chain E preferred s"
  have "stream_of E msg (effective_model E model) ?chain s (tokens, e) t"
    using assms unfolding stream_request_def Let_def by (rule walk_stream_of)
  then show "(tokens, e) = ([], Some (LLM AllProvidersFailed None)) \<or>
     (\<exists>p before. p \<in> set ?chain \<and>
        sent_calls t = before @ [\<lparr>to_provider = p, content = msg, asked_model = effective_model E model, api_key = None\<rparr>] \<and>
        streamed E (sent_calls t) = (tokens, e))"
    and "length (sent_calls t) \<le> length (sent_calls s) + 3" and "observed t = observed s"
    using fallback_chain_length [of E preferred s] by (auto simp: stream_of_def)
qed

section \<open>The decorator\<close>

definition again :: "'e retry_policy \<Rightarrow> 'e + 'a \<Rightarrow> bool" where
  "again P r = (case r of Inr a \<Rightarrow> False | Inl e \<Rightarrow> \<not> never P e \<and> worth P e \<and> narrowed P e)"

text \<open>The state of the wrapped function after some calls, and what its next call gives.\<close>

definition after_calls :: "('s \<Rightarrow> ('e + 'a) \<times> 's) \<Rightarrow> nat \<Rightarrow> 's \<Rightarrow> 's" where
  "after_calls f n s = ((\<lambda>u. snd (f u)) ^^ n) s"

definition nth_answer :: "('s \<Rightarrow> ('e + 'a) \<times> 's) \<Rightarrow> nat \<Rightarrow> 's \<Rightarrow> 'e + 'a" where
  "nth_answer f n s = fst (f (after_calls f n s))"

lemma after_Suc: "snd (f (after_calls f n s)) = after_calls f (Suc n) s"
  by (simp add: after_calls_def)

definition retried :: "'e retry_policy \<Rightarrow> ('s \<Rightarrow> ('e + 'a) \<times> 's) \<Rightarrow> 's \<Rightarrow> nat \<Rightarrow> 's \<times> rat list \<times> rat \<times> 'e option \<Rightarrow> bool" where
  "retried P f s n = (\<lambda>(u, ws, delay, prev). n \<ge> 1 \<and> u = after_calls f (n - 1) s \<and>
     (\<forall>i < n - 1. again P (nth_answer f i s)) \<and>
     ws = map (\<lambda>i. backoff_seconds P * multiplier P ^ i) [0..<min (n - 1) (max_attempts P - 1)] \<and>
     (n \<le> max_attempts P \<longrightarrow> delay = backoff_seconds P * multiplier P ^ (n - 1)) \<and>
     (n > 1 \<longrightarrow> (\<exists>e. prev = Some e \<and> nth_answer f (n - 2) s = Inl e)))"

lemma policy_goes_on:
  assumes "policy_attempt P f n (u, ws, delay, prev) = (None, T)"
  shows "\<exists>e. fst (f u) = Inl e \<and> again P (fst (f u)) \<and>
    T = (if n \<ge> max_attempts P then (snd (f u), ws, delay, Some e)
         else (snd (f u), ws @ [delay], delay * multiplier P, Some e))"
  using assms by (cases "f u") (auto simp: policy_attempt_def again_def split: sum.splits if_splits)

lemma policy_returns:
  assumes "policy_attempt P f n (u, ws, delay, prev) = (Some x, u', ws', delay', prev')"
  shows "x = fst (f u)" "\<not> again P (fst (f u))" "u' = snd (f u)" "ws' = ws"
  using assms by (cases "f u", auto simp: policy_attempt_def again_def split: sum.splits if_splits)+

interpretation decorated: counted_loop "policy_attempt P f" "max_attempts P" "retried P f s" for P f s
proof
  fix n and S T :: "'b \<times> rat list \<times> rat \<times> 'a option"
  assume inv: "retried P f s n S" and n: "n \<le> max_attempts P" and step: "policy_attempt P f n S = (None, T)"
  obtain u ws delay prev where S: "S = (u, ws, delay, prev)" by (cases S)
  obtain k where k: "n = Suc k" using inv by (cases n) (auto simp: retried_def S)
  from inv have u: "u = after_calls f k s" by (simp add: retried_def S k)
  obtain e where e: "nth_answer f k s = Inl e" "again P (nth_answer f k s)"
    "T = (if n \<ge> max_attempts P then (after_calls f n s, ws, delay, Some e)
          else (after_calls f n s, ws @ [delay], delay * multiplier P, Some e))"
    using policy_goes_on [OF step [unfolded S]] by (auto simp: nth_answer_def u k after_Suc)
  show "retried P f s (Suc n) T"
  proof (cases "n \<ge> max_attempts P")
    case True
    with inv n e show ?thesis by (auto simp: retried_def S k less_Suc_eq)
  next
    case False
    with inv n e show ?thesis by (auto simp: retried_def S k less_Suc_eq min_def)
  qed
qed

text \<open>
  C1. A decorated function is called until it answers or raises what is not worth another attempt,
  at most \<^verbatim>\<open>max_attempts\<close> times, with pauses that grow geometrically between the calls and none
  after the last; and what the last call gave is what the caller sees.
\<close>

theorem retry_policy_exact:
  assumes "1 \<le> max_attempts P" and "with_retry P f s = (x, t, ws)"
  shows "\<exists>k < max_attempts P.
    x = Some (fst (f (((\<lambda>u. snd (f u)) ^^ k) s))) \<and> t = ((\<lambda>u. snd (f u)) ^^ Suc k) s \<and>
    ws = map (\<lambda>i. backoff_seconds P * multiplier P ^ i) [0..<k] \<and>
    (\<forall>i < k. \<exists>e. fst (f (((\<lambda>u. snd (f u)) ^^ i) s)) = Inl e \<and> \<not> never P e \<and> worth P e \<and> narrowed P e) \<and>
    (k + 1 < max_attempts P \<longrightarrow>
      (\<forall>e. fst (f (((\<lambda>u. snd (f u)) ^^ k) s)) = Inl e \<longrightarrow> never P e \<or> \<not> worth P e \<or> \<not> narrowed P e))"
proof -
  let ?m = "max_attempts P"
  have agn: "again P (nth_answer f i s) \<longleftrightarrow> (\<exists>e. nth_answer f i s = Inl e \<and> \<not> never P e \<and> worth P e \<and> narrowed P e)" for i
    by (auto simp: again_def split: sum.splits)
  have first: "retried P f s 1 (s, [], backoff_seconds P, None)"
    by (simp add: retried_def after_calls_def)
  have m: "1 + ?m = Suc ?m" by simp
  obtain R u ws' delay prev where run: "for_rounds (policy_attempt P f) 1 ?m (s, [], backoff_seconds P, None) = (R, u, ws', delay, prev)"
    by (metis prod_cases5)
  have "\<exists>k < ?m. x = Some (nth_answer f k s) \<and> t = after_calls f (Suc k) s \<and>
    ws = map (\<lambda>i. backoff_seconds P * multiplier P ^ i) [0..<k] \<and> (\<forall>i < k. again P (nth_answer f i s)) \<and>
    (k + 1 < ?m \<longrightarrow> \<not> again P (nth_answer f k s))"
  proof (cases R)
    case None
    with assms(2) run have r: "x = map_option Inl prev" "t = u" "ws = ws'" by (simp_all add: with_retry_def)
    have inv: "retried P f s (Suc ?m) (u, ws', delay, prev)"
      using decorated.rounds_over [OF first m run [unfolded None]] .
    obtain k where k: "?m = Suc k" using assms(1) by (cases ?m) auto
    from inv obtain e where "prev = Some e" "nth_answer f k s = Inl e" by (auto simp: retried_def k)
    with inv r show ?thesis by (intro exI [of _ k]) (simp add: retried_def k)
  next
    case (Some y)
    with assms(2) run have r: "x = Some y" "t = u" "ws = ws'" by (simp_all add: with_retry_def)
    obtain i U where U: "1 \<le> i" "i \<le> ?m" "retried P f s i U" "policy_attempt P f i U = (Some y, u, ws', delay, prev)"
      using decorated.rounds_return [OF first m run [unfolded Some]] by blast
    obtain u0 ws0 d0 p0 where U0: "U = (u0, ws0, d0, p0)" by (cases U)
    note ret = policy_returns [OF U(4) [unfolded U0]]
    obtain k where k: "i = Suc k" using U(1) by (cases i) auto
    with U(3) have u0: "u0 = after_calls f k s" by (simp add: retried_def U0)
    show ?thesis
      using U(2,3) ret r by (intro exI [of _ k]) (simp add: retried_def U0 k u0 nth_answer_def after_Suc min_def)
  qed
  then obtain k where k: "k < ?m" "x = Some (nth_answer f k s)" "t = after_calls f (Suc k) s"
    "ws = map (\<lambda>i. backoff_seconds P * multiplier P ^ i) [0..<k]" "\<forall>i < k. again P (nth_answer f i s)"
    "k + 1 < ?m \<longrightarrow> \<not> again P (nth_answer f k s)" by blast
  show ?thesis
    using k unfolding agn unfolding nth_answer_def after_calls_def by (intro exI [of _ k]) (simp; blast)
qed

section \<open>Usage\<close>

lemma as_int_nonneg: "as_int v = Inr i \<Longrightarrow> 0 \<le> i"
  by (auto simp: as_int_def split: pyval.splits fnum.splits option.splits if_splits)

text \<open>
  What the router counts for an answer: whatever the provider reported, the counts are never
  negative, the total is the provider's own when it reported one and otherwise the sum of the two
  parts; nothing is counted only when one of them is an infinite float.
\<close>

theorem usage_counted:
  "case observe p model r of
     Inr ob \<Rightarrow> 0 \<le> obs_prompt ob \<and> 0 \<le> obs_completion ob \<and>
       as_int (dict_get (resp_usage r) ''prompt_tokens'' PNone) = Inr (obs_prompt ob) \<and>
       as_int (dict_get (resp_usage r) ''completion_tokens'' PNone) = Inr (obs_completion ob) \<and>
       (\<exists>reported. as_int (dict_get (resp_usage r) ''total_tokens'' PNone) = Inr reported \<and>
         obs_total ob = (if reported = 0 then obs_prompt ob + obs_completion ob else reported) \<and> 0 \<le> obs_total ob)
   | Inl e \<Rightarrow> e = OverflowError \<and> (\<exists>k \<in> {''prompt_tokens'', ''completion_tokens'', ''total_tokens''}. \<exists>b.
       dict_get (resp_usage r) k PNone = PFloat (Infinite b))"
proof -
  have inf: "as_int v = Inl e \<Longrightarrow> e = OverflowError \<and> (\<exists>b. v = PFloat (Infinite b))" for v e
    by (auto simp: as_int_def split: pyval.splits fnum.splits)
  let ?g = "\<lambda>k. as_int (dict_get (resp_usage r) k PNone)"
  show ?thesis
  proof (cases "?g ''prompt_tokens''")
    case (Inl e)
    with inf [OF Inl] show ?thesis by (auto simp: observe_def)
  next
    case p: (Inr p')
    show ?thesis
    proof (cases "?g ''completion_tokens''")
      case (Inl e)
      with p inf [OF Inl] show ?thesis by (auto simp: observe_def)
    next
      case c: (Inr c')
      show ?thesis
      proof (cases "?g ''total_tokens''")
        case (Inl e)
        with p c inf [OF Inl] show ?thesis by (auto simp: observe_def usage_total_def)
      next
        case (Inr t')
        with p c as_int_nonneg [OF p] as_int_nonneg [OF c] as_int_nonneg [OF Inr] show ?thesis
          by (auto simp: observe_def usage_total_def)
      qed
    qed
  qed
qed

section \<open>Examples\<close>

text \<open>Two vendors with keys, one of which is overloaded; the clock stands still at a minute.\<close>

definition sample_env :: "bool \<Rightarrow> string env" where
  "sample_env fallback = \<lparr>allow_fallback = fallback, default_provider = ''openai'', default_model = ''gpt-4o'',
     configured = (\<lambda>p. p \<noteq> ''openrouter''), account_key = None, request_key = None, constructs = (\<lambda>p. True),
     answer = (\<lambda>cs. if cs \<noteq> [] \<and> to_provider (last cs) = ''openai'' then Raised (LLM RateLimit None)
        else Answered \<lparr>resp_body = ''42'', resp_usage = [(''prompt_tokens'', PInt 7)], resp_model = [], resp_provider = []\<rparr>),
     streamed = (\<lambda>cs. if cs \<noteq> [] \<and> to_provider (last cs) = ''openai'' then ([], Some (LLM RateLimit None)) else ([''4'', ''2''], None)),
     ping_answers = (\<lambda>ps. True), clock = (\<lambda>cs ds. 60)\<rparr>"

definition fresh_router :: "(string, rat) odict \<Rightarrow> string router" where
  "fresh_router marks = \<lparr>unhealthy = marks, sent_calls = [], pings = [], pauses = [], disclosed = [], refused = [], observed = []\<rparr>"

lemma request_calls_witness:
  "length (sent_calls (snd (complete_request (sample_env True) ''hi'' None None (fresh_router [])))) \<le> 9"
proof -
  obtain x t where run: "complete_request (sample_env True) ''hi'' None None (fresh_router []) = (x, t)" by fastforce
  from request_calls [OF run] run show ?thesis by (auto simp: fresh_router_def)
qed

lemma request_result_witness:
  "\<exists>r'. fst (complete_request (sample_env True) ''hi'' None None (fresh_router [])) = Inr r' \<and> resp_provider r' = ''anthropic'' \<or>
    fst (complete_request (sample_env True) ''hi'' None None (fresh_router [])) = Inl (LLM AllProvidersFailed None)"
proof -
  obtain x t where run: "complete_request (sample_env True) ''hi'' None None (fresh_router []) = (x, t)" by fastforce
  note res = request_result [OF run]
  show ?thesis
  proof (cases x)
    case (Inl e)
    with res run show ?thesis by simp
  next
    case (Inr r)
    with res obtain p r' before where p: "p \<in> set (fallback_chain (sample_env True) None (fresh_router []))"
      "sent_calls t = before @ [call_to (sample_env True) ''hi'' (effective_model (sample_env True) None) p]"
      "answer (sample_env True) (sent_calls t) = Answered r'" "r = (if resp_provider r' = [] then r'\<lparr>resp_provider := p\<rparr> else r')"
      by auto
    from p(2,3) have "p \<noteq> ''openai''" "resp_provider r' = []" by (auto simp: sample_env_def call_to_def split: if_splits)
    with p(1,4) have "resp_provider r = ''anthropic''"
      by (auto simp: fallback_chain_def Let_def has_key_def provider_names_def sample_env_def split: if_splits)
    with run Inr show ?thesis by simp
  qed
qed

lemma attempts_by_kind_witness:
  "sent_calls (snd (call_with_retry (sample_env True) (call_to (sample_env True) ''hi'' None ''openai'') (fresh_router [])))
     = replicate 3 (call_to (sample_env True) ''hi'' None ''openai'') \<and>
   pauses (snd (call_with_retry (sample_env True) (call_to (sample_env True) ''hi'' None ''openai'') (fresh_router []))) = [5, 5]"
proof -
  have "answer (sample_env True) (sent_calls (fresh_router []) @ replicate n (call_to (sample_env True) ''hi'' None ''openai''))
    = Raised (LLM RateLimit ((\<lambda>n. None) n))" if "1 \<le> n" "n \<le> 3" for n :: nat
    using that by (auto simp: sample_env_def fresh_router_def call_to_def)
  from attempts_by_kind [where asked = "\<lambda>n. None", OF this] show ?thesis
    by (simp add: is_retryable_def retryable_errors_def wait_for_def retry_after_def class_delay_def fresh_router_def)
qed

lemma retry_never_retries_witness:
  "llm_call_with_retry (complete_request (sample_env False) ''hi'' None None) (\<lambda>d s. pause d s) 3 (1 / 2) (fresh_router [])
    = complete_request (sample_env False) ''hi'' None None (fresh_router [])"
  by (rule retry_never_retries) simp

lemma undisclosed_vendor_witness:
  "\<exists>q n. q \<noteq> ''openai'' \<and> 1 \<le> n \<and>
    disclosed (snd (complete_request (sample_env False) ''secret'' None (Some ''openai'') (fresh_router [(''openai'', 0)]))) = [] \<and>
    sent_calls (snd (complete_request (sample_env False) ''secret'' None (Some ''openai'') (fresh_router [(''openai'', 0)])))
      = replicate n (call_to (sample_env False) ''secret'' (effective_model (sample_env False) None) q)"
proof -
  let ?E = "sample_env False" and ?s = "fresh_router [(''openai'', 0)]"
  obtain x t where run: "complete_request ?E ''secret'' None (Some ''openai'') ?s = (x, t)" by fastforce
  have "\<not> allow_fallback ?E" "has_key ?E ''openai''" "\<not> is_healthy ?E ?s ''openai''" "''openai'' \<noteq> []"
    "has_key ?E ''anthropic''" "is_healthy ?E ?s ''anthropic''" "\<And>p. constructs ?E p"
    by (simp_all add: sample_env_def fresh_router_def has_key_def provider_names_def is_healthy_def now_def unhealthy_ttl_def)
  from undisclosed_vendor [OF this run] run show ?thesis by (auto simp: fresh_router_def)
qed

lemma stream_one_vendor_witness:
  "\<exists>tokens e t. stream_request (sample_env True) ''hi'' None None (fresh_router []) = ((tokens, e), t) \<and> length (sent_calls t) \<le> 3"
proof -
  obtain tokens e t where run: "stream_request (sample_env True) ''hi'' None None (fresh_router []) = ((tokens, e), t)"
    by (metis prod.exhaust)
  from stream_one_vendor(2) [OF run] run show ?thesis by (simp add: fresh_router_def)
qed

text \<open>A function that answers on its third call, under a policy of four attempts.\<close>

lemma retry_policy_exact_witness:
  "\<exists>k < 4. snd (snd (with_retry \<lparr>max_attempts = 4, backoff_seconds = 1, multiplier = 2, never = (\<lambda>e::nat. False), worth = (\<lambda>e. True), narrowed = (\<lambda>e. True)\<rparr>
      (\<lambda>s::nat. if s < 2 then (Inl s, Suc s) else (Inr s, Suc s)) 0)) = map (\<lambda>i. 1 * 2 ^ i) [0..<k]"
proof -
  define P where "P = \<lparr>max_attempts = 4, backoff_seconds = 1, multiplier = 2, never = (\<lambda>e::nat. False), worth = (\<lambda>e. True), narrowed = (\<lambda>e. True)\<rparr>"
  define f where "f = (\<lambda>s::nat. if s < 2 then (Inl s :: nat + nat, Suc s) else (Inr s, Suc s))"
  obtain x t ws where run: "with_retry P f 0 = (x, t, ws)" by (metis prod.exhaust)
  have "1 \<le> max_attempts P" by (simp add: P_def)
  from retry_policy_exact [OF this run] obtain k where "k < 4" "ws = map (\<lambda>i. 1 * 2 ^ i) [0..<k]"
    by (auto simp: P_def)
  with run show ?thesis unfolding P_def [symmetric] f_def [symmetric] by auto
qed

end
