(* ===== verification/Credits.thy ===== *)
theory Credits
  imports Prelude
begin

text \<open>
  \<^verbatim>\<open>services/openrouter_credit_service.py\<close> with the row of \<^verbatim>\<open>models/llm_credit.py\<close>: the key that an
  account spends its language-model credit with, and the two pockets (this period's allowance and
  bought credit) that are kept over the key's one counter.

  Money is whole millionths of a dollar, which is what \<^verbatim>\<open>_q\<close> quantises every amount to (an amount
  of cents divided by 100 and printed is exact). A session is what it sees now, what is committed,
  and the calls it made to the vendor, which answers through a parameter, from all calls so far.
\<close>

section \<open>State\<close>

record credit =
  key_hash :: string
  key_encrypted :: string
  usage_at_period_start :: int
  included_grant :: int
  purchased_balance :: int
  provision_count :: nat

text \<open>The two key columns are \<open>[]\<close> when they are \<^verbatim>\<open>NULL\<close>; the code never tells the two apart.\<close>

definition new_credit :: credit where
  "new_credit = \<lparr>key_hash = [], key_encrypted = [], usage_at_period_start = 0, included_grant = 0,
     purchased_balance = 0, provision_count = 0\<rparr>"

datatype vendor_call = CreateKey string int | ReadKey string | SetLimit string int | DeleteKey string

text \<open>What the vendor answers: the key and hash of a new key, the usage of an existing one.\<close>

record vendor_reply =
  new_key :: string
  new_hash :: string
  usage :: int

datatype billing_error = CreditError | BillingError | DecryptError | StripeFailure

text \<open>The tables that the billing services share. What a user's subscription row holds is left open here.\<close>

record 'r database =
  credits :: "(string, credit) odict"
  subscriptions :: "(string, 'r) odict"
  events :: "string list"

record 'r session =
  current :: "'r database"
  committed :: "'r database"
  calls :: "vendor_call list"

record vendor =
  management_key :: bool
  vendor_answer :: "vendor_call list \<Rightarrow> vendor_reply option"
  encrypt :: "string \<Rightarrow> string"
  decrypt :: "string \<Rightarrow> string option"

type_synonym ('r, 'a) action = "'r session \<Rightarrow> (billing_error + 'a) \<times> 'r session"

definition bind_s :: "('r, 'a) action \<Rightarrow> ('a \<Rightarrow> ('r, 'b) action) \<Rightarrow> ('r, 'b) action" where
  "bind_s m f s = (case m s of (Inl e, t) \<Rightarrow> (Inl e, t) | (Inr a, t) \<Rightarrow> f a t)"

definition commit :: "'r session \<Rightarrow> 'r session" where
  "commit s = s\<lparr>committed := current s\<rparr>"

definition rollback :: "'r session \<Rightarrow> 'r session" where
  "rollback s = s\<lparr>current := committed s\<rparr>"

definition put_credit :: "string \<Rightarrow> credit \<Rightarrow> 'r session \<Rightarrow> 'r session" where
  "put_credit u r s = s\<lparr>current := (current s)\<lparr>credits := od_set u r (credits (current s))\<rparr>\<rparr>"

section \<open>Operations\<close>

text \<open>One HTTP call; an answer of 400 or more, or no answer, is an error.\<close>

definition vendor_request :: "vendor \<Rightarrow> vendor_call \<Rightarrow> ('r, vendor_reply) action" where
  "vendor_request V c s =
     (if \<not> management_key V then (Inl CreditError, s)
      else let t = s\<lparr>calls := calls s @ [c]\<rparr>
        in case vendor_answer V (calls t) of None \<Rightarrow> (Inl CreditError, t) | Some r \<Rightarrow> (Inr r, t))"

definition credit_row :: "string \<Rightarrow> ('r, credit) action" where
  "credit_row u s = (case map_of (credits (current s)) u of
     Some r \<Rightarrow> (Inr r, s) | None \<Rightarrow> (Inr new_credit, put_credit u new_credit s))"

text \<open>Spending since the watermark is taken from the allowance first.\<close>

definition split_spend :: "int \<Rightarrow> int \<Rightarrow> int \<times> int" where
  "split_spend spent included = (min spent included, max 0 (spent - included))"

definition limit_for :: "credit \<Rightarrow> int" where
  "limit_for r = usage_at_period_start r + included_grant r + purchased_balance r"

text \<open>The row of a key that the vendor has just created: its counter starts at nothing.\<close>

definition provisioned :: "vendor \<Rightarrow> int \<Rightarrow> vendor_reply \<Rightarrow> credit \<Rightarrow> credit" where
  "provisioned V included a r = r\<lparr>included_grant := included, key_encrypted := encrypt V (new_key a),
     key_hash := new_hash a, usage_at_period_start := 0, provision_count := provision_count r + 1\<rparr>"

text \<open>An account that has a key keeps it; its stored form may no longer decrypt, which raises.\<close>

definition provision :: "vendor \<Rightarrow> string \<Rightarrow> int \<Rightarrow> ('r, string) action" where
  "provision V u included = bind_s (credit_row u) (\<lambda>r.
     if key_encrypted r \<noteq> [] \<and> key_hash r \<noteq> [] then
       (\<lambda>s. (case decrypt V (key_encrypted r) of None \<Rightarrow> Inl DecryptError | Some k \<Rightarrow> Inr k, s))
     else (\<lambda>s. bind_s (vendor_request V (CreateKey u (included + purchased_balance r))) (\<lambda>a t.
         if new_key a = [] \<or> new_hash a = [] then (Inl CreditError, t)
         else (Inr (new_key a), commit (put_credit u (provisioned V included a r) t)))
         (put_credit u (r\<lparr>included_grant := included\<rparr>) s)))"

text \<open>What is left, by pocket: \<open>None\<close> without a key.\<close>

definition balance :: "vendor \<Rightarrow> string \<Rightarrow> ('r, (int \<times> int \<times> int) option) action" where
  "balance V u = bind_s (credit_row u) (\<lambda>r.
     if key_hash r = [] then (\<lambda>s. (Inr None, s))
     else bind_s (vendor_request V (ReadKey (key_hash r))) (\<lambda>a s.
       let spent = max 0 (usage a - usage_at_period_start r);
           (from_included, from_purchased) = split_spend spent (included_grant r)
       in (Inr (Some (spent, max 0 (included_grant r - from_included),
                      max 0 (purchased_balance r - from_purchased))), s)))"

text \<open>Store a row whose ceiling changed, and tell the vendor: the row, then the call, then the commit.\<close>

definition push_ceiling :: "vendor \<Rightarrow> string \<Rightarrow> credit \<Rightarrow> ('r, credit) action" where
  "push_ceiling V u r s = bind_s (vendor_request V (SetLimit (key_hash r) (limit_for r)))
     (\<lambda>a t. (Inr r, commit t)) (put_credit u r s)"

definition top_up :: "vendor \<Rightarrow> string \<Rightarrow> int \<Rightarrow> ('r, credit) action" where
  "top_up V u amount =
     (if amount \<le> 0 then (\<lambda>s. (Inl CreditError, s))
      else bind_s (credit_row u) (\<lambda>r.
        if key_hash r = [] then (\<lambda>s. (Inl CreditError, s))
        else bind_s (vendor_request V (ReadKey (key_hash r))) (\<lambda>a.
          push_ceiling V u (r\<lparr>purchased_balance := purchased_balance r + amount\<rparr>))))"

text \<open>Answers the new balance and what the balance could not absorb.\<close>

definition adjust :: "vendor \<Rightarrow> string \<Rightarrow> int \<Rightarrow> ('r, int \<times> int) action" where
  "adjust V u delta = bind_s (credit_row u) (\<lambda>r.
     let before = purchased_balance r; after = max 0 (before + delta); shortfall = max 0 (- (before + delta));
         r1 = r\<lparr>purchased_balance := after\<rparr>
     in if key_hash r = [] then (\<lambda>s. (Inr (after, shortfall), commit (put_credit u r1 s)))
        else (\<lambda>s. bind_s (vendor_request V (ReadKey (key_hash r))) (\<lambda>a.
          bind_s (push_ceiling V u r1) (\<lambda>r2 t. (Inr (after, shortfall), t))) (put_credit u r1 s)))"

definition debit :: "vendor \<Rightarrow> string \<Rightarrow> int \<Rightarrow> ('r, int \<times> int) action" where
  "debit V u amount = (if amount \<le> 0 then (\<lambda>s. (Inl CreditError, s)) else adjust V u (- amount))"

definition restore :: "vendor \<Rightarrow> string \<Rightarrow> int \<Rightarrow> ('r, int \<times> int) action" where
  "restore V u amount = (if amount \<le> 0 then (\<lambda>s. (Inl CreditError, s)) else adjust V u amount)"

text \<open>The row after a period: the allowance is replaced, bought credit pays for what it did not cover.\<close>

definition renewed :: "int \<Rightarrow> int \<Rightarrow> credit \<Rightarrow> credit" where
  "renewed used included r =
     (let spent = max 0 (used - usage_at_period_start r);
          from_purchased = snd (split_spend spent (included_grant r))
      in r\<lparr>purchased_balance := max 0 (purchased_balance r - from_purchased),
           included_grant := included, usage_at_period_start := used\<rparr>)"

text \<open>Without a key the grant is written down and nothing is committed here.\<close>

definition renew :: "vendor \<Rightarrow> string \<Rightarrow> int \<Rightarrow> ('r, credit) action" where
  "renew V u included = bind_s (credit_row u) (\<lambda>r.
     if key_hash r = [] then
       (\<lambda>s. (Inr (r\<lparr>included_grant := included\<rparr>), put_credit u (r\<lparr>included_grant := included\<rparr>) s))
     else bind_s (vendor_request V (ReadKey (key_hash r))) (\<lambda>a.
       push_ceiling V u (renewed (usage a) included r)))"

definition revoke :: "vendor \<Rightarrow> string \<Rightarrow> ('r, bool) action" where
  "revoke V u = bind_s (credit_row u) (\<lambda>r.
     if key_hash r = [] then (\<lambda>s. (Inr False, s))
     else bind_s (vendor_request V (DeleteKey (key_hash r))) (\<lambda>a s.
       (Inr True, commit (put_credit u (r\<lparr>key_hash := [], key_encrypted := [], included_grant := 0\<rparr>) s))))"

text \<open>\<^verbatim>\<open>resolve_account_key\<close>: every failure is \<open>None\<close>, and the operator's key serves the request.\<close>

definition resolve_account_key :: "vendor \<Rightarrow> string \<Rightarrow> 'r session \<Rightarrow> string option \<times> 'r session" where
  "resolve_account_key V u s = (case credit_row u s of
     (Inl e, t) \<Rightarrow> (None, s)
   | (Inr r, t) \<Rightarrow> (if key_encrypted r = [] \<or> key_hash r = [] then None else decrypt V (key_encrypted r), t))"

section \<open>Transactions\<close>

text \<open>
  What a handler relies on when it calls an operation: one that fails has committed nothing, so that
  rolling back leaves the database as it was.
\<close>

locale transactional =
  fixes act :: "('r, 'a) action"
  assumes fails_uncommitted: "act s = (Inl e, t) \<Longrightarrow> committed t = committed s"
begin

lemma rolled_back: "act s = (Inl e, t) \<Longrightarrow> current (rollback t) = committed s \<and> committed (rollback t) = committed s"
  using fails_uncommitted by (simp add: rollback_def)

end

text \<open>Actions that commit nothing, and actions whose commit is their last deed.\<close>

definition quiet :: "('r, 'a) action \<Rightarrow> bool" where
  "quiet m \<longleftrightarrow> (\<forall>s x t. m s = (x, t) \<longrightarrow> committed t = committed s)"

definition commits_last :: "('r, 'a) action \<Rightarrow> bool" where
  "commits_last m \<longleftrightarrow> (\<forall>s e t. m s = (Inl e, t) \<longrightarrow> committed t = committed s)"

named_theorems txn "actions and their commits"

lemma quietI: "(\<And>s x t. m s = (x, t) \<Longrightarrow> committed t = committed s) \<Longrightarrow> quiet m"
  by (simp add: quiet_def)

lemma commits_lastI: "(\<And>s e t. m s = (Inl e, t) \<Longrightarrow> committed t = committed s) \<Longrightarrow> commits_last m"
  by (simp add: commits_last_def)

lemma commits_lastD: "commits_last m \<Longrightarrow> m s = (Inl e, t) \<Longrightarrow> committed t = committed s"
  by (auto simp: commits_last_def)

lemma quiet_bind [txn]: "quiet m \<Longrightarrow> (\<And>a. quiet (f a)) \<Longrightarrow> quiet (bind_s m f)"
  by (force simp: quiet_def bind_s_def split: prod.splits sum.splits)

lemma last_bind [txn]: "quiet m \<Longrightarrow> (\<And>a. commits_last (f a)) \<Longrightarrow> commits_last (bind_s m f)"
  by (force simp: quiet_def commits_last_def bind_s_def split: prod.splits sum.splits)

lemma quiet_last: "quiet m \<Longrightarrow> commits_last m"
  by (auto simp: quiet_def commits_last_def)

lemma last_if [txn]: "(b \<Longrightarrow> commits_last m) \<Longrightarrow> (\<not> b \<Longrightarrow> commits_last n) \<Longrightarrow> commits_last (if b then m else n)"
  by simp

lemma last_returns [txn]: "commits_last (\<lambda>s. (Inr (g s), h s))"
  by (simp add: commits_last_def)

lemma quiet_returns [txn]: "quiet (\<lambda>s. (x, s))"
  by (simp add: quiet_def)

lemma put_credit_sel [simp]:
  "committed (put_credit u r s) = committed s" "calls (put_credit u r s) = calls s"
  "subscriptions (current (put_credit u r s)) = subscriptions (current s)" "events (current (put_credit u r s)) = events (current s)"
  "map_of (credits (current (put_credit u r s))) = (map_of (credits (current s)))(u \<mapsto> r)"
  by (simp_all add: put_credit_def odict_simps)

lemma commit_sel [simp]: "current (commit s) = current s" "committed (commit s) = current s" "calls (commit s) = calls s"
  by (simp_all add: commit_def)

lemma quiet_request [txn]: "quiet (vendor_request V c)"
  by (rule quietI) (auto simp: vendor_request_def Let_def split: if_splits option.splits)

lemma quiet_row [txn]: "quiet (credit_row u)"
  by (rule quietI) (auto simp: credit_row_def split: option.splits)

lemma last_put [txn]: "commits_last m \<Longrightarrow> commits_last (\<lambda>s. m (put_credit u r s))"
  unfolding commits_last_def by (metis put_credit_sel(1))

lemma last_commits [txn]: "commits_last (\<lambda>s. (Inr x, commit (g s)))"
  by (simp add: commits_last_def)

lemma last_push [txn]: "commits_last (push_ceiling V u r)"
  unfolding push_ceiling_def by (intro txn)

lemma last_case [txn]: "commits_last (\<lambda>s. (case x of None \<Rightarrow> Inl e | Some k \<Rightarrow> Inr k, s))"
  by (simp add: commits_last_def)

lemma last_error [txn]: "commits_last (\<lambda>s. (Inl e, s))"
  by (simp add: commits_last_def)

lemma last_answer [txn]: "commits_last (\<lambda>s. (x, s))"
  by (simp add: commits_last_def)

lemma last_top_up [txn]: "commits_last (top_up V u a)"
  unfolding top_up_def by (intro txn)

text \<open>An action whose result is replaced commits when it did.\<close>

lemma last_map [txn]: "commits_last m \<Longrightarrow> commits_last (bind_s m (\<lambda>a s. (Inr (g a), s)))"
  by (auto simp: commits_last_def bind_s_def split: prod.splits sum.splits)

lemma last_adjust [txn]: "commits_last (adjust V u d)"
  unfolding adjust_def Let_def by (intro txn last_bind [OF quiet_row])

lemma last_renew [txn]: "commits_last (renew V u i)"
  unfolding renew_def by (intro txn)

lemma last_revoke [txn]: "commits_last (revoke V u)"
  unfolding revoke_def by (intro txn)

lemma last_provision [txn]: "commits_last (provision V u i)"
proof -
  have created: "commits_last (\<lambda>t. if new_key a = [] \<or> new_hash a = [] then (Inl CreditError, t) else (Inr (new_key a), commit (g t)))"
    for a :: vendor_reply and g :: "'a session \<Rightarrow> 'a session"
    by (simp add: commits_last_def)
  show ?thesis unfolding provision_def Let_def by (intro txn created)
qed

interpretation top_up: transactional "top_up V u a" for V u a
  by unfold_locales (rule commits_lastD [OF last_top_up])

interpretation adjust: transactional "adjust V u d" for V u d
  by unfold_locales (rule commits_lastD [OF last_adjust])

interpretation renew: transactional "renew V u i" for V u i
  by unfold_locales (rule commits_lastD [OF last_renew])

interpretation revoke: transactional "revoke V u" for V u
  by unfold_locales (rule commits_lastD [OF last_revoke])

interpretation provision: transactional "provision V u i" for V u i
  by unfold_locales (rule commits_lastD [OF last_provision])

section \<open>Frames\<close>

text \<open>What an operation on one account's credit leaves alone.\<close>

definition only_credit :: "string \<Rightarrow> 'r session \<Rightarrow> 'r session \<Rightarrow> bool" where
  "only_credit u s t \<longleftrightarrow> subscriptions (current t) = subscriptions (current s) \<and> events (current t) = events (current s) \<and>
     (\<forall>v. v \<noteq> u \<longrightarrow> map_of (credits (current t)) v = map_of (credits (current s)) v) \<and>
     (committed t = committed s \<or> committed t = current t) \<and> (\<exists>cs. calls t = calls s @ cs)"

definition framed :: "string \<Rightarrow> ('r, 'a) action \<Rightarrow> bool" where
  "framed u m \<longleftrightarrow> (\<forall>s. only_credit u s (snd (m s)))"

named_theorems frames "actions and what they leave alone"

lemma only_credit_refl: "only_credit u s s"
  by (simp add: only_credit_def)

lemma only_credit_trans: "only_credit u s t \<Longrightarrow> committed t = committed s \<Longrightarrow> only_credit u t t' \<Longrightarrow> only_credit u s t'"
  by (auto simp: only_credit_def)

lemma framed_bind [frames]: "quiet m \<Longrightarrow> framed u m \<Longrightarrow> (\<And>a. framed u (f a)) \<Longrightarrow> framed u (bind_s m f)"
proof -
  assume m: "quiet m" "framed u m" and f: "\<And>a. framed u (f a)"
  have "only_credit u s (snd (bind_s m f s))" for s
  proof -
    obtain x t where mt: "m s = (x, t)" by fastforce
    have st: "only_credit u s t" "committed t = committed s" using m mt by (auto simp: framed_def quiet_def dest: spec [of _ s])
    show ?thesis
      using st f mt by (cases x) (auto simp: bind_s_def framed_def intro: only_credit_trans)
  qed
  then show ?thesis by (simp add: framed_def)
qed

lemma framed_returns [frames]: "framed u (\<lambda>s. (x, s))"
  by (simp add: framed_def only_credit_refl)

lemma framed_if [frames]: "(b \<Longrightarrow> framed u m) \<Longrightarrow> (\<not> b \<Longrightarrow> framed u n) \<Longrightarrow> framed u (if b then m else n)"
  by simp

lemma only_put: "only_credit u (put_credit u r s) t \<Longrightarrow> only_credit u s t"
  by (auto simp: only_credit_def)

lemma framed_put [frames]: "framed u m \<Longrightarrow> framed u (\<lambda>s. m (put_credit u r s))"
  by (auto simp: framed_def intro: only_put)

lemma framed_commit [frames]: "framed u (\<lambda>s. (x, commit (put_credit u r s)))"
  by (simp add: framed_def only_credit_def)

lemma framed_write [frames]: "framed u (\<lambda>s. (x, put_credit u r s))"
  by (simp add: framed_def only_credit_def)

lemma framed_commits [frames]: "framed u (\<lambda>s. (x, commit s))"
  by (simp add: framed_def only_credit_def)

lemma framed_request [frames]: "framed u (vendor_request V c)"
  by (auto simp: framed_def only_credit_def vendor_request_def Let_def split: option.splits)

lemma framed_row [frames]: "framed u (credit_row u)"
  by (auto simp: framed_def only_credit_def credit_row_def split: option.splits)

lemma framed_push [frames]: "framed u (push_ceiling V u r)"
  unfolding push_ceiling_def by (intro frames txn)

lemma framed_map [frames]: "framed u m \<Longrightarrow> framed u (bind_s m (\<lambda>a s. (Inr (g a), s)))"
proof -
  assume "framed u m"
  moreover have "snd (bind_s m (\<lambda>a s. (Inr (g a), s)) s) = snd (m s)" for s
    by (simp add: bind_s_def split: prod.splits sum.splits)
  ultimately show ?thesis by (simp add: framed_def)
qed

lemma framed_ops [frames]:
  "framed u (top_up V u a)" "framed u (adjust V u d)" "framed u (debit V u a)" "framed u (restore V u a)"
  "framed u (renew V u i)" "framed u (revoke V u)" "framed u (provision V u i)"
proof -
  show adj: "framed u (adjust V u d)" for d
    unfolding adjust_def Let_def by (intro frames txn framed_bind [OF quiet_row])
  show "framed u (top_up V u a)" unfolding top_up_def by (intro frames txn)
  show "framed u (debit V u a)" unfolding debit_def by (intro frames adj)
  show "framed u (restore V u a)" unfolding restore_def by (intro frames adj)
  show "framed u (renew V u i)" unfolding renew_def by (intro frames txn)
  show "framed u (revoke V u)" unfolding revoke_def by (intro frames txn)
  have created: "framed u (\<lambda>t. if b then (Inl e, t) else (Inr k, commit (put_credit u r t)))"
    for b e r and k :: string by (cases b) (simp_all add: frames)
  show "framed u (provision V u i)" unfolding provision_def Let_def by (intro frames txn created)
qed

section \<open>What the operations do\<close>

definition row_of :: "'r database \<Rightarrow> string \<Rightarrow> credit" where
  "row_of d u = (case map_of (credits d) u of Some r \<Rightarrow> r | None \<Rightarrow> new_credit)"

lemma bind_row: "bind_s (credit_row u) f s = f (row_of (current s) u) (if map_of (credits (current s)) u = None then put_credit u new_credit s else s)"
  by (auto simp: bind_s_def credit_row_def row_of_def split: option.splits)

lemma row_of_put [simp]: "row_of (current (put_credit u r s)) u = r"
  by (simp add: row_of_def)

lemma bind_request: "bind_s (vendor_request V c) f s = (x, t) \<Longrightarrow> x = Inr y \<Longrightarrow>
    \<exists>a. f a (s\<lparr>calls := calls s @ [c]\<rparr>) = (Inr y, t) \<and> vendor_answer V (calls s @ [c]) = Some a"
  by (auto simp: bind_s_def vendor_request_def Let_def split: if_splits option.splits)

text \<open>A row was stored with its ceiling pushed to the vendor by the last call, and committed.\<close>

definition pushed :: "string \<Rightarrow> credit \<Rightarrow> 'r session \<Rightarrow> 'r session \<Rightarrow> bool" where
  "pushed u r s t \<longleftrightarrow> map_of (credits (current t)) u = Some r \<and> committed t = current t \<and>
     (\<exists>cs. calls t = calls s @ cs @ [SetLimit (key_hash r) (limit_for r)])"

lemma push_result: "push_ceiling V u r s = (Inr y, t) \<Longrightarrow> y = r \<and> pushed u r s t"
  by (auto simp: push_ceiling_def pushed_def bind_s_def vendor_request_def Let_def split: if_splits option.splits)

lemma request_answer:
  "bind_s (vendor_request V c) f s = (Inr y, t) \<longleftrightarrow>
    management_key V \<and> (\<exists>a. vendor_answer V (calls s @ [c]) = Some a \<and> f a (s\<lparr>calls := calls s @ [c]\<rparr>) = (Inr y, t))"
  by (auto simp: bind_s_def vendor_request_def Let_def split: if_splits option.splits)

lemma pushed_after: "pushed u r (s\<lparr>calls := calls s @ [c]\<rparr>) t \<Longrightarrow> pushed u r s t"
  by (auto simp: pushed_def)

lemma pushed_both: "pushed u r ((put_credit u r' s)\<lparr>calls := calls s @ [c]\<rparr>) t \<Longrightarrow> pushed u r s t"
  by (auto simp: pushed_def)

lemma pushed_put: "pushed u r (put_credit u r' s) t \<Longrightarrow> pushed u r s t"
  by (auto simp: pushed_def)

lemma pushed_fresh: "pushed u r (if b then put_credit u r' s else s) t \<Longrightarrow> pushed u r s t"
  by (auto split: if_splits intro: pushed_put)

lemma top_up_result:
  assumes "top_up V u amount s = (Inr r', t)"
  shows "0 < amount" "r' = (row_of (current s) u)\<lparr>purchased_balance := purchased_balance (row_of (current s) u) + amount\<rparr>"
    "key_hash r' \<noteq> []" "pushed u r' s t"
  using assms
  by (auto simp: top_up_def bind_row request_answer split: if_splits dest!: push_result intro: pushed_after pushed_put pushed_both)

lemma adjust_result:
  assumes "adjust V u delta s = (Inr (left, short), t)"
  defines "r \<equiv> row_of (current s) u"
  shows "left = max 0 (purchased_balance r + delta)" "short = max 0 (- (purchased_balance r + delta))"
    "key_hash r \<noteq> [] \<Longrightarrow> pushed u (r\<lparr>purchased_balance := left\<rparr>) s t"
    "map_of (credits (current t)) u = Some (r\<lparr>purchased_balance := left\<rparr>)" "committed t = current t"
proof -
  have all: "left = max 0 (purchased_balance r + delta) \<and> short = max 0 (- (purchased_balance r + delta)) \<and>
    (key_hash r \<noteq> [] \<longrightarrow> pushed u (r\<lparr>purchased_balance := left\<rparr>) s t) \<and>
    map_of (credits (current t)) u = Some (r\<lparr>purchased_balance := left\<rparr>) \<and> committed t = current t"
  proof (cases "key_hash r = []")
    case True
    with assms(1) show ?thesis by (auto simp: adjust_def bind_row r_def Let_def split: if_splits)
  next
    case False
    define r1 where "r1 = r\<lparr>purchased_balance := max 0 (purchased_balance r + delta)\<rparr>"
    define s0 where "s0 = (if map_of (credits (current s)) u = None then put_credit u new_credit s else s)"
    from False assms(1) obtain a where a: "bind_s (push_ceiling V u r1)
        (\<lambda>r2 t. (Inr (max 0 (purchased_balance r + delta), max 0 (- (purchased_balance r + delta))), t))
        ((put_credit u r1 s0)\<lparr>calls := calls s0 @ [ReadKey (key_hash r)]\<rparr>) = (Inr (left, short), t)"
      by (auto simp: adjust_def bind_row r_def [symmetric] Let_def request_answer r1_def s0_def)
    then have res: "left = max 0 (purchased_balance r + delta)" "short = max 0 (- (purchased_balance r + delta))"
      "\<exists>y. push_ceiling V u r1 ((put_credit u r1 s0)\<lparr>calls := calls s0 @ [ReadKey (key_hash r)]\<rparr>) = (Inr y, t)"
      by (auto simp: bind_s_def split: prod.splits sum.splits)
    from res(3) have "pushed u r1 s0 t"
      using push_result pushed_after [of u r1 "put_credit u r1 s0"] pushed_put by (metis put_credit_sel(2))
    then have "pushed u r1 s t" unfolding s0_def by (rule pushed_fresh)
    with res(1,2) False show ?thesis by (simp add: r1_def pushed_def)
  qed
  from all show "left = max 0 (purchased_balance r + delta)" "short = max 0 (- (purchased_balance r + delta))"
    "key_hash r \<noteq> [] \<Longrightarrow> pushed u (r\<lparr>purchased_balance := left\<rparr>) s t"
    "map_of (credits (current t)) u = Some (r\<lparr>purchased_balance := left\<rparr>)" "committed t = current t" by auto
qed

lemma renew_result:
  assumes "renew V u included s = (Inr r', t)" and "key_hash (row_of (current s) u) \<noteq> []"
  shows "\<exists>a. vendor_answer V (calls s @ [ReadKey (key_hash (row_of (current s) u))]) = Some a \<and>
      r' = renewed (usage a) included (row_of (current s) u)" "pushed u r' s t"
  using assms
  by (auto simp: renew_def bind_row request_answer split: if_splits dest!: push_result intro: pushed_after pushed_put pushed_both)

lemma revoke_result:
  assumes "revoke V u s = (Inr b, t)" and "key_hash (row_of (current s) u) \<noteq> []"
  shows "map_of (credits (current t)) u =
      Some ((row_of (current s) u)\<lparr>key_hash := [], key_encrypted := [], included_grant := 0\<rparr>)"
    "committed t = current t" "calls t = calls s @ [DeleteKey (key_hash (row_of (current s) u))]" "b"
  using assms by (auto simp: revoke_def bind_row request_answer split: if_splits)

lemma provision_result:
  assumes "provision V u included s = (Inr k, t)" and "key_hash (row_of (current s) u) = []"
  shows "\<exists>a. new_hash a \<noteq> [] \<and> k = new_key a \<and> map_of (credits (current t)) u = Some (provisioned V included a (row_of (current s) u))"
    "committed t = current t" "calls t = calls s @ [CreateKey u (included + purchased_balance (row_of (current s) u))]"
  using assms by (auto simp: provision_def bind_row request_answer split: if_splits)

section \<open>The money of one key\<close>

text \<open>The operations that move an account's ceiling, as a handler runs them.\<close>

datatype credit_op = TopUp int | Debit int | Restore int | Renew nat

definition settle :: "(billing_error + 'a) \<times> 'r session \<Rightarrow> 'r session" where
  "settle r = (case r of (Inl e, t) \<Rightarrow> rollback t | (Inr a, t) \<Rightarrow> commit t)"

definition credit_step :: "vendor \<Rightarrow> string \<Rightarrow> 'r session \<Rightarrow> credit_op \<Rightarrow> 'r session" where
  "credit_step V u s op = (case op of
     TopUp a \<Rightarrow> settle (top_up V u a s) | Debit a \<Rightarrow> settle (debit V u a s)
   | Restore a \<Rightarrow> settle (restore V u a s) | Renew i \<Rightarrow> settle (renew V u (int i) s))"

definition granted :: "credit_op \<Rightarrow> int" where
  "granted op = (case op of TopUp a \<Rightarrow> max 0 a | Restore a \<Rightarrow> max 0 a | Debit a \<Rightarrow> 0 | Renew i \<Rightarrow> int i)"

text \<open>The row that an operation writes down when it succeeds, from the vendor's answer.\<close>

definition moved :: "credit_op \<Rightarrow> vendor_reply \<Rightarrow> credit \<Rightarrow> credit" where
  "moved op a r = (case op of
     TopUp x \<Rightarrow> r\<lparr>purchased_balance := purchased_balance r + max 0 x\<rparr>
   | Debit x \<Rightarrow> r\<lparr>purchased_balance := max 0 (purchased_balance r - max 0 x)\<rparr>
   | Restore x \<Rightarrow> r\<lparr>purchased_balance := max 0 (purchased_balance r + max 0 x)\<rparr>
   | Renew i \<Rightarrow> renewed (usage a) (int i) r)"

text \<open>
  What a step of an account that has a key comes to: nothing, or the row of \<open>moved\<close>; and the only
  ceiling it sends is that row's.
\<close>

definition step_outcome :: "vendor \<Rightarrow> string \<Rightarrow> credit_op \<Rightarrow> 'r session \<Rightarrow> 'r session \<Rightarrow> bool" where
  "step_outcome V u op s t \<longleftrightarrow>
     (let r = row_of (current s) u; answers = (\<lambda>a. vendor_answer V (calls s @ [ReadKey (key_hash r)]) = Some a)
      in current t = committed t \<and>
       (\<forall>h l. SetLimit h l \<in> set (calls t) \<longrightarrow> SetLimit h l \<in> set (calls s) \<or> (\<exists>a. answers a \<and> l = limit_for (moved op a r))) \<and>
       (current t = current s \<or> (\<exists>a. answers a \<and> row_of (current t) u = moved op a r)))"

lemma settle_error [simp]: "settle (Inl e, t) = rollback t"
  by (simp add: settle_def)

lemma rollback_sel [simp]: "current (rollback t) = committed t" "committed (rollback t) = committed t" "calls (rollback t) = calls t"
  by (simp_all add: rollback_def)

lemma settle_ok [simp]: "settle (Inr a, t) = commit t"
  by (simp add: settle_def)

lemma key_row: "key_hash (row_of d u) \<noteq> [] \<Longrightarrow> map_of (credits d) u = Some (row_of d u)"
  by (auto simp: row_of_def new_credit_def split: option.splits)

text \<open>Reading the counter and then pushing a ceiling, from a session that may hold unsaved changes.\<close>

lemma read_and_push:
  fixes s s0 :: "'r session"
  assumes "committed s0 = committed s" "calls s0 = calls s" "current s = committed s"
    and "key_hash (row_of (current s) u) \<noteq> []" and g: "\<And>a. g a = moved op a (row_of (current s) u)"
  shows "step_outcome V u op s (settle (bind_s (vendor_request V (ReadKey (key_hash (row_of (current s) u)))) (\<lambda>a. push_ceiling V u (g a)) s0))"
proof (cases "management_key V")
  case False
  with assms show ?thesis by (simp add: step_outcome_def bind_s_def vendor_request_def)
next
  case True
  let ?h = "key_hash (row_of (current s) u)"
  let ?read = "calls s @ [ReadKey ?h]"
  show ?thesis
  proof (cases "vendor_answer V ?read")
    case None
    with True assms show ?thesis by (simp add: step_outcome_def bind_s_def vendor_request_def)
  next
    case (Some a)
    let ?r = "moved op a (row_of (current s) u)"
    have run: "bind_s (vendor_request V (ReadKey ?h)) (\<lambda>a. push_ceiling V u (g a)) s0 = push_ceiling V u ?r (s0\<lparr>calls := ?read\<rparr>)"
      using True Some assms(2) by (simp add: bind_s_def vendor_request_def g)
    show ?thesis
    proof (cases "vendor_answer V (?read @ [SetLimit (key_hash ?r) (limit_for ?r)])")
      case None
      with True Some assms(1-3) show ?thesis
        unfolding run by (simp add: step_outcome_def push_ceiling_def bind_s_def vendor_request_def)
    next
      case (Some b)
      with True \<open>vendor_answer V ?read = Some a\<close> assms(1-3) show ?thesis
        unfolding run by (simp add: step_outcome_def push_ceiling_def bind_s_def vendor_request_def row_of_def)
    qed
  qed
qed

lemma step_nothing: "current s = committed s \<Longrightarrow> step_outcome V u op s (rollback s)"
  by (simp add: step_outcome_def rollback_def)

lemma bind_present: "key_hash (row_of (current s) u) \<noteq> [] \<Longrightarrow> bind_s (credit_row u) f s = f (row_of (current s) u) s"
  by (simp add: bind_row key_row)

lemma settle_map: "settle (bind_s m (\<lambda>a t. (Inr (k a), t)) s) = settle (m s)"
  by (simp add: bind_s_def settle_def split: prod.splits sum.splits)

lemma settle_adjust:
  assumes "key_hash (row_of (current s) u) \<noteq> []"
  shows "settle (adjust V u d s) = settle (bind_s (vendor_request V (ReadKey (key_hash (row_of (current s) u))))
    (\<lambda>a. push_ceiling V u ((row_of (current s) u)\<lparr>purchased_balance := max 0 (purchased_balance (row_of (current s) u) + d)\<rparr>))
    (put_credit u ((row_of (current s) u)\<lparr>purchased_balance := max 0 (purchased_balance (row_of (current s) u) + d)\<rparr>) s))"
proof -
  have assoc: "bind_s m (\<lambda>a. bind_s (f a) (\<lambda>r t. (Inr (c, d'), t))) s1 = bind_s (bind_s m f) (\<lambda>r t. (Inr (c, d'), t)) s1"
    for m :: "('a, vendor_reply) action" and f :: "vendor_reply \<Rightarrow> ('a, credit) action" and c d' :: int and s1
    by (simp add: bind_s_def split: prod.splits sum.splits)
  show ?thesis
    unfolding adjust_def bind_present [OF assms] using assms by (simp add: Let_def assoc settle_map)
qed

lemma credit_step_outcome:
  assumes "key_hash (row_of (current s) u) \<noteq> []" and "current s = committed s"
  shows "step_outcome V u op s (credit_step V u s op)"
proof (cases op)
  case (TopUp x)
  show ?thesis
  proof (cases "x \<le> 0")
    case True
    then show ?thesis by (simp add: credit_step_def TopUp top_up_def step_nothing assms(2))
  next
    case False
    then have "credit_step V u s op = settle (bind_s (vendor_request V (ReadKey (key_hash (row_of (current s) u))))
        (\<lambda>a. push_ceiling V u ((row_of (current s) u)\<lparr>purchased_balance := purchased_balance (row_of (current s) u) + x\<rparr>)) s)"
      by (simp add: credit_step_def TopUp top_up_def bind_present [OF assms(1)] assms(1))
    then show ?thesis using False by (simp only:) (intro read_and_push assms refl, simp add: TopUp moved_def)
  qed
next
  case (Debit x)
  show ?thesis
  proof (cases "x \<le> 0")
    case True
    then show ?thesis by (simp add: credit_step_def Debit debit_def step_nothing assms(2))
  next
    case False
    then have "credit_step V u s op = settle (adjust V u (- x) s)" by (simp add: credit_step_def Debit debit_def)
    then show ?thesis using False unfolding settle_adjust [OF assms(1)]
      by (simp only:) (intro read_and_push assms, simp_all add: Debit moved_def)
  qed
next
  case (Restore x)
  show ?thesis
  proof (cases "x \<le> 0")
    case True
    then show ?thesis by (simp add: credit_step_def Restore restore_def step_nothing assms(2))
  next
    case False
    then have "credit_step V u s op = settle (adjust V u (x) s)" by (simp add: credit_step_def Restore restore_def)
    then show ?thesis using False unfolding settle_adjust [OF assms(1)]
      by (simp only:) (intro read_and_push assms, simp_all add: Restore moved_def)
  qed
next
  case (Renew i)
  then have "credit_step V u s op = settle (bind_s (vendor_request V (ReadKey (key_hash (row_of (current s) u))))
      (\<lambda>a. push_ceiling V u (renewed (usage a) (int i) (row_of (current s) u))) s)"
    by (simp add: credit_step_def renew_def bind_present [OF assms(1)] assms(1))
  then show ?thesis by (simp only:) (intro read_and_push assms refl, simp add: Renew moved_def)
qed

text \<open>Pockets never hold less than nothing, and a step adds at most its grant to what is authorised.\<close>

definition pockets :: "credit \<Rightarrow> bool" where
  "pockets r \<longleftrightarrow> 0 \<le> purchased_balance r \<and> 0 \<le> included_grant r"

lemma moved_pockets: "pockets r \<Longrightarrow> pockets (moved op a r)"
  by (auto simp: pockets_def moved_def renewed_def Let_def split: credit_op.split)

lemma moved_key: "key_hash (moved op a r) = key_hash r"
  by (simp add: moved_def renewed_def Let_def split: credit_op.split)

lemma moved_limit: "pockets r \<Longrightarrow> limit_for (moved op a r) \<le> max (limit_for r) (usage a) + granted op"
  by (auto simp: pockets_def moved_def renewed_def split_spend_def limit_for_def granted_def Let_def split: credit_op.split)

lemma granted_nonneg: "0 \<le> granted op"
  by (simp add: granted_def split: credit_op.split)

text \<open>
  What the vendor promises: it refuses calls beyond the ceiling in force, so that the counter it
  reports never exceeds the highest ceiling it was ever given.
\<close>

definition stops_at_ceiling :: "vendor \<Rightarrow> int \<Rightarrow> bool" where
  "stops_at_ceiling V first \<longleftrightarrow> (\<forall>cs h a. vendor_answer V (cs @ [ReadKey h]) = Some a \<longrightarrow>
     usage a \<le> first \<or> (\<exists>h' l. SetLimit h' l \<in> set cs \<and> usage a \<le> l))"

definition in_total :: "vendor \<Rightarrow> string \<Rightarrow> int \<Rightarrow> 'r session \<times> int \<Rightarrow> bool" where
  "in_total V u first = (\<lambda>(s, total). stops_at_ceiling V first \<and> current s = committed s \<and> first \<le> total \<and>
     key_hash (row_of (current s) u) \<noteq> [] \<and> pockets (row_of (current s) u) \<and>
     limit_for (row_of (current s) u) \<le> total \<and> (\<forall>h l. SetLimit h l \<in> set (calls s) \<longrightarrow> l \<le> total))"

definition spend_step :: "vendor \<Rightarrow> string \<Rightarrow> 'r session \<times> int \<Rightarrow> credit_op \<Rightarrow> 'r session \<times> int" where
  "spend_step V u = (\<lambda>(s, total) op. (credit_step V u s op, total + granted op))"

interpretation spending: machine "spend_step V u" "in_total V u first" for V u first
proof
  fix S :: "'a session \<times> int" and op
  assume "in_total V u first S"
  then obtain s total where S: "S = (s, total)" and inv: "in_total V u first (s, total)" by (cases S) simp
  define r where "r = row_of (current s) u"
  define t where "t = credit_step V u s op"
  have key: "key_hash r \<noteq> []" "current s = committed s" "pockets r" "limit_for r \<le> total" "first \<le> total"
    and sent: "\<And>h l. SetLimit h l \<in> set (calls s) \<Longrightarrow> l \<le> total" and law: "stops_at_ceiling V first"
    using inv by (auto simp: in_total_def r_def)
  have out: "step_outcome V u op s t" unfolding t_def using key(1,2) by (intro credit_step_outcome) (simp_all add: r_def)
  have low: "usage a \<le> total" if "vendor_answer V (calls s @ [ReadKey (key_hash r)]) = Some a" for a
  proof -
    from law that have "usage a \<le> first \<or> (\<exists>h' l. SetLimit h' l \<in> set (calls s) \<and> usage a \<le> l)"
      unfolding stops_at_ceiling_def by blast
    then show ?thesis using sent key(5) by (metis order_trans)
  qed
  have lim: "limit_for (moved op a r) \<le> total + granted op"
    if "vendor_answer V (calls s @ [ReadKey (key_hash r)]) = Some a" for a
    using moved_limit [OF key(3), of op a] low [OF that] key(4) by linarith
  have "row_of (current t) u = r \<or> (\<exists>a. vendor_answer V (calls s @ [ReadKey (key_hash r)]) = Some a \<and> row_of (current t) u = moved op a r)"
    using out by (auto simp: step_outcome_def Let_def r_def)
  then have row: "key_hash (row_of (current t) u) \<noteq> [] \<and> pockets (row_of (current t) u) \<and> limit_for (row_of (current t) u) \<le> total + granted op"
    using key moved_key [of op _ r] moved_pockets [OF key(3), of op] lim granted_nonneg [of op]
    by auto
  have "l \<le> total + granted op" if "SetLimit h l \<in> set (calls t)" for h l
  proof -
    have "SetLimit h l \<in> set (calls s) \<or> (\<exists>a. vendor_answer V (calls s @ [ReadKey (key_hash r)]) = Some a \<and> l = limit_for (moved op a r))"
      using out that by (auto simp: step_outcome_def Let_def r_def)
    then show ?thesis using sent [of h l] lim granted_nonneg [of op] by force
  qed
  moreover have "current t = committed t" using out by (simp add: step_outcome_def Let_def)
  ultimately show "in_total V u first (spend_step V u S op)"
    using row law key(5) granted_nonneg [of op] by (simp add: S in_total_def spend_step_def t_def [symmetric])
qed

lemma foldl_spend: "foldl (spend_step V u) (s, n) ops = (foldl (credit_step V u) s ops, n + sum_list (map granted ops))"
  by (induction ops arbitrary: s n) (simp_all add: spend_step_def)

section \<open>Properties\<close>


text \<open>
  A renewal replaces the allowance and charges bought credit exactly what the spending exceeded
  the allowance by; an allowance that was enough costs no bought credit; and the ceiling it commits
  is the one it sent to the vendor last.
\<close>

theorem renew_exact:
  assumes "renew V u included s = (Inr r', t)" and "key_hash (row_of (current s) u) \<noteq> []"
    and "0 \<le> purchased_balance (row_of (current s) u)" and "0 \<le> included_grant (row_of (current s) u)"
  shows "\<exists>used. let r = row_of (current s) u; over = max 0 (max 0 (used - usage_at_period_start r) - included_grant r)
    in purchased_balance r' = max 0 (purchased_balance r - over) \<and> included_grant r' = included \<and>
       (used - usage_at_period_start r \<le> included_grant r \<longrightarrow> purchased_balance r' = purchased_balance r) \<and>
       limit_for r' = used + included + purchased_balance r' \<and>
       row_of (committed t) u = r' \<and> last (calls t) = SetLimit (key_hash r) (limit_for r')"
proof -
  let ?r = "row_of (current s) u"
  from renew_result(1) [OF assms(1,2)] obtain a :: vendor_reply where a: "r' = renewed (usage a) included ?r" by blast
  have push: "pushed u r' s t" by (rule renew_result(2) [OF assms(1,2)])
  then have "row_of (committed t) u = r'" "last (calls t) = SetLimit (key_hash r') (limit_for r')"
    by (auto simp: pushed_def row_of_def)
  then show ?thesis
    using assms(3,4) by (intro exI [of _ "usage a"]) (simp add: a renewed_def split_spend_def limit_for_def Let_def)
qed

text \<open>
  C39. Cancelling and subscribing again gives bought credit back that was already spent: the new key's
  counter starts at nothing, and its ceiling holds the whole bought pocket, however far the old key's
  spending had gone into it.
\<close>

theorem resubscribing_returns_spent_credit:
  assumes "key_hash (row_of (current s) u) \<noteq> []" and "revoke V u s = (Inr b, t)"
    and "provision V u included t = (Inr k, t')"
  shows "last (calls t') = CreateKey u (included + purchased_balance (row_of (current s) u)) \<and>
    limit_for (row_of (committed t') u) = included + purchased_balance (row_of (current s) u)"
proof -
  let ?r = "row_of (current s) u"
  have row: "row_of (current t) u = ?r\<lparr>key_hash := [], key_encrypted := [], included_grant := 0\<rparr>"
    using revoke_result(1) [OF assms(2,1)] by (simp add: row_of_def)
  have gone: "key_hash (row_of (current t) u) = []" by (simp add: row)
  note made = provision_result [OF assms(3) gone]
  from made(3) have "last (calls t') = CreateKey u (included + purchased_balance ?r)" by (simp add: row)
  moreover from made(1) obtain a where "row_of (current t') u = provisioned V included a (row_of (current t) u)"
    by (auto simp: row_of_def)
  with made(2) have "limit_for (row_of (committed t') u) = included + purchased_balance ?r"
    by (simp add: provisioned_def limit_for_def row)
  ultimately show ?thesis ..
qed

section \<open>Examples\<close>

text \<open>A vendor whose counter stands at 38 dollars, and an account with an allowance of 30 and 10 bought.\<close>

definition sample_vendor :: vendor where
  "sample_vendor = \<lparr>management_key = True, vendor_answer = (\<lambda>cs. Some \<lparr>new_key = ''k2'', new_hash = ''h2'', usage = 38000000\<rparr>),
     encrypt = (\<lambda>k. ''x'' @ k), decrypt = (\<lambda>c. Some (tl c))\<rparr>"

definition sample_row :: credit where
  "sample_row = \<lparr>key_hash = ''h1'', key_encrypted = ''xk1'', usage_at_period_start = 0, included_grant = 30000000,
     purchased_balance = 10000000, provision_count = 1\<rparr>"

definition sample_session :: "unit session" where
  "sample_session = (let d = \<lparr>credits = [(''ann'', sample_row)], subscriptions = [], events = []\<rparr>
     in \<lparr>current = d, committed = d, calls = []\<rparr>)"

lemmas sample_credit = sample_vendor_def sample_row_def sample_session_def row_of_def limit_for_def Let_def


lemma renew_exact_witness:
  "\<exists>r' t. renew sample_vendor ''ann'' 30000000 sample_session = (Inr r', t) \<and> row_of (committed t) ''ann'' = r' \<and> included_grant r' = 30000000"
proof -
  have key: "key_hash (row_of (current sample_session) ''ann'') \<noteq> []" and pos: "0 \<le> purchased_balance (row_of (current sample_session) ''ann'')"
    "0 \<le> included_grant (row_of (current sample_session) ''ann'')" by (simp_all add: sample_credit)
  obtain r' t where run: "renew sample_vendor ''ann'' 30000000 sample_session = (Inr r', t)"
    unfolding renew_def bind_present [OF key]
    by (simp add: key push_ceiling_def bind_s_def vendor_request_def sample_vendor_def split_def)
  from renew_exact [OF run key pos] run show ?thesis by (auto simp: Let_def)
qed

lemma resubscribing_returns_spent_credit_witness:
  "\<exists>b t k t'. revoke sample_vendor ''ann'' sample_session = (Inr b, t) \<and> provision sample_vendor ''ann'' 30000000 t = (Inr k, t') \<and>
     last (calls t') = CreateKey ''ann'' 40000000"
proof -
  have key: "key_hash (row_of (current sample_session) ''ann'') \<noteq> []" by (simp add: sample_credit)
  obtain b t where r: "revoke sample_vendor ''ann'' sample_session = (Inr b, t)"
    unfolding revoke_def bind_present [OF key]
    by (simp add: key bind_s_def vendor_request_def sample_vendor_def)
  have gone: "key_hash (row_of (current t) ''ann'') = []" using revoke_result(1) [OF r key] by (simp add: row_of_def)
  obtain k t' where p: "provision sample_vendor ''ann'' 30000000 t = (Inr k, t')"
    unfolding provision_def bind_row by (simp add: gone bind_s_def vendor_request_def sample_vendor_def)
  from resubscribing_returns_spent_credit [OF key r p] r p show ?thesis by (auto simp: sample_credit)
qed

end
