(* ===== verification/Billing.thy ===== *)
theory Billing
  imports Credits PyText
begin

text \<open>
  \<^verbatim>\<open>services/billing_service.py\<close> with the rows of \<^verbatim>\<open>models/billing.py\<close>: what a verified Stripe event
  does to an account's subscription and credit, what the success page and the reconciliation do, and
  what opens a checkout.

  A Stripe object is the record of the fields that the code reads; a text that is missing or \<^verbatim>\<open>null\<close>
  is \<open>[]\<close>, a number that is missing is 0 (the code treats both alike). Stripe itself answers through
  a parameter. A handler runs in its own session; the unique columns of the tables make a claim a
  single step. Times are whole microseconds, Stripe's own are whole seconds.
\<close>

section \<open>Rows and objects\<close>

record subscription =
  plan_id :: string
  customer_id :: string
  subscription_id :: string
  status :: string
  cancel_at_period_end :: bool
  current_period_start :: "int option"
  current_period_end :: "int option"
  trial_end :: "int option"
  last_event_created :: int
  checkout_pending_at :: "int option"

text \<open>No event applied yet is 0 in \<open>last_event_created\<close>, as the code reads it.\<close>

definition new_subscription :: subscription where
  "new_subscription = \<lparr>plan_id = ''free'', customer_id = [], subscription_id = [], status = ''free'',
     cancel_at_period_end = False, current_period_start = None, current_period_end = None, trial_end = None,
     last_event_created = 0, checkout_pending_at = None\<rparr>"

record stripe_item =
  item_start :: int
  item_end :: int
  item_price :: string

record stripe_obj =
  o_id :: string
  o_customer :: string
  o_reference :: string
  o_user :: string
  o_plan :: string
  o_mode :: string
  o_status :: string
  o_payment_status :: string
  o_charge :: string
  o_billing_reason :: string
  o_amount_total :: int
  o_amount :: int
  o_cancel :: bool
  o_items :: "stripe_item list"
  o_period_start :: int
  o_period_end :: int
  o_trial_end :: int

record stripe_event =
  ev_id :: string
  ev_type :: string
  ev_created :: int
  ev_obj :: stripe_obj

record plan =
  p_id :: string
  p_stripe_price :: string
  p_price :: int
  p_active :: bool

datatype remote_subscription = Missing | Unreadable | Remote stripe_obj

record stripe =
  plans :: "plan list"
  env_price :: "string \<Rightarrow> string"
  charge_of :: "string \<Rightarrow> billing_error + (string \<times> string)"
  session_of :: "string \<Rightarrow> billing_error + (stripe_obj \<times> stripe_obj option)"
  remote_of :: "string \<Rightarrow> remote_subscription"
  make_customer :: "string \<Rightarrow> billing_error + string"
  make_session :: "string \<Rightarrow> string \<Rightarrow> billing_error + string"
  clock_now :: int

type_synonym db = "subscription database"
type_synonym 'a billing = "(subscription, 'a) action"

definition put_subscription :: "string \<Rightarrow> subscription \<Rightarrow> subscription session \<Rightarrow> subscription session" where
  "put_subscription u r s = s\<lparr>current := (current s)\<lparr>subscriptions := od_set u r (subscriptions (current s))\<rparr>\<rparr>"

definition done_with :: "'a \<Rightarrow> 'a billing" where
  "done_with a s = (Inr a, s)"

definition fails_with :: "billing_error \<Rightarrow> 'a billing" where
  "fails_with e s = (Inl e, s)"

section \<open>Helpers\<close>

definition or_else :: "string \<Rightarrow> string \<Rightarrow> string" where
  "or_else a b = (if a = [] then b else a)"

definition ts_to_dt :: "int \<Rightarrow> int option" where
  "ts_to_dt ts = (if ts = 0 then None else Some ts)"

definition period_from :: "stripe_obj \<Rightarrow> int \<times> int" where
  "period_from ob = (case o_items ob of
     [] \<Rightarrow> (o_period_start ob, o_period_end ob)
   | i # is \<Rightarrow> if item_start i \<noteq> 0 \<or> item_end i \<noteq> 0 then (item_start i, item_end i)
       else (o_period_start ob, o_period_end ob))"

definition included_credit :: "(string \<times> int option) list" where
  "included_credit = [(''base'', Some 30000000), (''scale'', Some 90000000), (''team'', Some 150000000), (''enterprise'', None)]"

definition find_plan :: "stripe \<Rightarrow> string \<Rightarrow> plan option" where
  "find_plan S p = List.find (\<lambda>q. p_id q = p) (plans S)"

text \<open>\<open>None\<close> is a tier without a ceiling; a plan the table does not know has no headroom.\<close>

definition included_credit_for :: "plan option \<Rightarrow> int option" where
  "included_credit_for p = (case map_of included_credit (case p of None \<Rightarrow> [] | Some q \<Rightarrow> p_id q) of
     None \<Rightarrow> Some 0 | Some c \<Rightarrow> c)"

definition subscription_plan :: "stripe \<Rightarrow> subscription \<Rightarrow> plan option" where
  "subscription_plan S r = (if plan_id r = [] then None else find_plan S (plan_id r))"

definition price_id_for :: "stripe \<Rightarrow> plan \<Rightarrow> billing_error + string" where
  "price_id_for S p = (let price = or_else (p_stripe_price p) (env_price S (p_id p))
     in if price = [] then Inl BillingError else Inr price)"

text \<open>The catalogue is listed in the order of its \<^verbatim>\<open>sort_order\<close>.\<close>

definition list_plans :: "stripe \<Rightarrow> plan list" where
  "list_plans S = filter (\<lambda>p. p_active p \<and> (p_price p \<le> 0 \<or> (case price_id_for S p of Inl e \<Rightarrow> False | Inr x \<Rightarrow> True))) (plans S)"

definition subscription_row :: "string \<Rightarrow> subscription billing" where
  "subscription_row u s = (case map_of (subscriptions (current s)) u of
     Some r \<Rightarrow> (Inr r, s) | None \<Rightarrow> (Inr new_subscription, put_subscription u new_subscription s))"

definition find_by_customer :: "db \<Rightarrow> string \<Rightarrow> (string \<times> subscription) option" where
  "find_by_customer d c = (if c = [] then None else List.find (\<lambda>(u, r). customer_id r = c) (subscriptions d))"

definition claim_once :: "string \<Rightarrow> bool billing" where
  "claim_once key s = (if key \<in> set (events (current s)) then (Inr False, s)
     else (Inr True, s\<lparr>current := (current s)\<lparr>events := events (current s) @ [key]\<rparr>\<rparr>))"

text \<open>The price decides; the plan that was bought is asked only when no plan has the price.\<close>

definition resolve_plan_id :: "stripe \<Rightarrow> stripe_obj \<Rightarrow> string option" where
  "resolve_plan_id S ob = (let price = (case o_items ob of [] \<Rightarrow> [] | i # is \<Rightarrow> item_price i);
       meta = (if o_plan ob = [] then None else Some (o_plan ob))
     in if price = [] then meta
        else case List.find (\<lambda>p. or_else (p_stripe_price p) (env_price S (p_id p)) = price) (plans S) of
          Some p \<Rightarrow> Some (p_id p)
        | None \<Rightarrow> (if o_plan ob \<notin> p_id ` set (plans S) then None else meta))"

section \<open>Events\<close>

definition provision_key :: "vendor \<Rightarrow> string \<Rightarrow> int option \<Rightarrow> unit billing" where
  "provision_key V u included = (case included of
     None \<Rightarrow> bind_s (revoke V u) (\<lambda>b. done_with ())
   | Some i \<Rightarrow> bind_s (provision V u i) (\<lambda>k. done_with ()))"

definition live_statuses :: "string list" where
  "live_statuses = [''active'', ''trialing'']"

text \<open>The row that an event describes.\<close>

definition described :: "stripe \<Rightarrow> stripe_obj \<Rightarrow> subscription \<Rightarrow> subscription" where
  "described S ob r = (let (a, b) = period_from ob
     in r\<lparr>subscription_id := o_id ob, status := or_else (o_status ob) (status r), cancel_at_period_end := o_cancel ob,
          current_period_start := ts_to_dt a, current_period_end := ts_to_dt b, trial_end := ts_to_dt (o_trial_end ob),
          plan_id := (case resolve_plan_id S ob of None \<Rightarrow> plan_id r | Some p \<Rightarrow> p)\<rparr>)"

definition torn_down :: "subscription \<Rightarrow> subscription" where
  "torn_down r = r\<lparr>status := ''canceled'', plan_id := ''free'', subscription_id := [], cancel_at_period_end := False\<rparr>"

definition write_subscription :: "vendor \<Rightarrow> stripe \<Rightarrow> bool \<Rightarrow> stripe_obj \<Rightarrow> string \<Rightarrow> subscription \<Rightarrow> unit billing" where
  "write_subscription V S deleted ob u r s =
     (if deleted then bind_s (revoke V u) (\<lambda>b. done_with ()) (put_subscription u (torn_down r) s)
      else let r1 = described S ob r; s1 = put_subscription u r1 s
        in if status r1 \<in> set live_statuses
           then provision_key V u (included_credit_for (subscription_plan S r1)) s1
           else (Inr (), s1))"

definition sync_subscription :: "vendor \<Rightarrow> stripe \<Rightarrow> bool \<Rightarrow> int \<Rightarrow> stripe_obj \<Rightarrow> unit billing" where
  "sync_subscription V S deleted created ob s = (case find_by_customer (current s) (o_customer ob) of
     Some (u, r) \<Rightarrow>
       if created = 0 then write_subscription V S deleted ob u r s
       else if created < last_event_created r then (Inr (), s)
       else write_subscription V S deleted ob u (r\<lparr>last_event_created := created, checkout_pending_at := None\<rparr>) s
   | None \<Rightarrow>
       if o_user ob = [] then (Inr (), s)
       else bind_s (subscription_row (o_user ob)) (\<lambda>r. write_subscription V S deleted ob (o_user ob) (r\<lparr>customer_id := o_customer ob\<rparr>)) s)"

definition set_status :: "string \<Rightarrow> string \<Rightarrow> unit billing" where
  "set_status c st s = (case find_by_customer (current s) c of
     None \<Rightarrow> (Inr (), s)
   | Some (u, r) \<Rightarrow> (Inr (), if status r = ''canceled'' then s else put_subscription u (r\<lparr>status := st\<rparr>) s))"

definition ref_text :: "string \<Rightarrow> string" where
  "ref_text r = or_else r ''None''"

definition cents :: "int \<Rightarrow> int" where
  "cents n = 10000 * n"

text \<open>Whose bought credit a charge paid for: nobody's for a subscription invoice.\<close>

definition charge_owner :: "stripe \<Rightarrow> string \<Rightarrow> string option billing" where
  "charge_owner S charge s = (if charge = [] then (Inr None, s)
     else case charge_of S charge of
       Inl e \<Rightarrow> (Inl e, s)
     | Inr (invoice, c) \<Rightarrow> (Inr (if invoice \<noteq> [] then None else map_option fst (find_by_customer (current s) c)), s))"

definition move_purchased :: "vendor \<Rightarrow> stripe \<Rightarrow> bool \<Rightarrow> string \<Rightarrow> int \<Rightarrow> string \<Rightarrow> unit billing" where
  "move_purchased V S back charge amount key =
     (if amount \<le> 0 then done_with ()
      else bind_s (charge_owner S charge) (\<lambda>owner. case owner of
        None \<Rightarrow> done_with ()
      | Some u \<Rightarrow> bind_s (claim_once key) (\<lambda>won.
          if \<not> won then done_with ()
          else if back then bind_s (restore V u (cents amount)) (\<lambda>r. done_with ())
          else bind_s (debit V u (cents amount)) (\<lambda>r. done_with ()))))"

definition reverse_purchased_credit :: "vendor \<Rightarrow> stripe \<Rightarrow> string \<Rightarrow> int \<Rightarrow> string \<Rightarrow> string \<Rightarrow> unit billing" where
  "reverse_purchased_credit V S charge amount reason ref =
     move_purchased V S False charge amount (''reversal:'' @ reason @ '':'' @ ref_text ref)"

definition restore_purchased_credit :: "vendor \<Rightarrow> stripe \<Rightarrow> string \<Rightarrow> int \<Rightarrow> string \<Rightarrow> unit billing" where
  "restore_purchased_credit V S charge amount ref =
     move_purchased V S True charge amount (''restore:'' @ ref_text ref)"

definition credit_top_up :: "vendor \<Rightarrow> string \<Rightarrow> stripe_obj \<Rightarrow> unit billing" where
  "credit_top_up V u ob =
     (if o_amount_total ob \<le> 0 \<or> o_id ob = [] then done_with ()
      else bind_s (claim_once (''topup:'' @ o_id ob)) (\<lambda>won.
        if \<not> won then done_with () else bind_s (top_up V u (cents (o_amount_total ob))) (\<lambda>r. done_with ())))"

definition renew_credit :: "vendor \<Rightarrow> stripe \<Rightarrow> stripe_obj \<Rightarrow> unit billing" where
  "renew_credit V S ob s = (case find_by_customer (current s) (o_customer ob) of
     None \<Rightarrow> (Inr (), s)
   | Some (u, r) \<Rightarrow> (case included_credit_for (subscription_plan S r) of
       None \<Rightarrow> (Inr (), s)
     | Some included \<Rightarrow>
         if o_id ob = [] then bind_s (renew V u included) (\<lambda>r. done_with ()) s
         else bind_s (claim_once (''renew:'' @ o_id ob)) (\<lambda>won.
           if \<not> won then done_with () else bind_s (renew V u included) (\<lambda>r. done_with ())) s))"

definition link_customer :: "string \<Rightarrow> string \<Rightarrow> unit billing" where
  "link_customer u c = bind_s (subscription_row u) (\<lambda>r s. (Inr (), put_subscription u (r\<lparr>customer_id := c\<rparr>) s))"

definition apply_event :: "vendor \<Rightarrow> stripe \<Rightarrow> string \<Rightarrow> stripe_obj \<Rightarrow> int \<Rightarrow> unit billing" where
  "apply_event V S type ob created =
     (if type = ''checkout.session.completed'' then
        (let u = or_else (o_reference ob) (o_user ob)
         in bind_s (if u \<noteq> [] \<and> o_customer ob \<noteq> [] then link_customer u (o_customer ob) else done_with ()) (\<lambda>x.
              if o_mode ob = ''payment'' \<and> u \<noteq> [] then credit_top_up V u ob else done_with ()))
      else if take 22 type = ''customer.subscription.'' then
        sync_subscription V S (type = ''customer.subscription.deleted'') created ob
      else if type = ''invoice.payment_failed'' then set_status (o_customer ob) ''past_due''
      else if type = ''refund.created'' then reverse_purchased_credit V S (o_charge ob) (o_amount ob) ''refund'' (o_id ob)
      else if type = ''charge.dispute.created'' then reverse_purchased_credit V S (o_charge ob) (o_amount ob) ''chargeback'' (o_id ob)
      else if type = ''charge.dispute.closed'' then
        (if o_status ob \<noteq> ''won'' then done_with () else restore_purchased_credit V S (o_charge ob) (o_amount ob) (o_id ob))
      else if type = ''invoice.paid'' then
        bind_s (set_status (o_customer ob) ''active'') (\<lambda>x.
          if o_billing_reason ob = ''subscription_cycle'' then renew_credit V S ob else done_with ())
      else done_with ())"

definition handled_events :: "string list" where
  "handled_events = [''checkout.session.completed'', ''customer.subscription.created'', ''customer.subscription.updated'',
     ''customer.subscription.deleted'', ''invoice.payment_failed'', ''invoice.paid'', ''refund.created'',
     ''charge.dispute.created'', ''charge.dispute.closed'']"

text \<open>\<open>False\<close> is a delivery that was processed before; an error is answered to Stripe, which delivers again.\<close>

definition handle_event :: "vendor \<Rightarrow> stripe \<Rightarrow> stripe_event \<Rightarrow> bool billing" where
  "handle_event V S ev s =
     (case claim_once (ev_id ev) s of
        (Inr True, s1) \<Rightarrow>
          (case (if ev_type ev \<in> set handled_events then apply_event V S (ev_type ev) (ev_obj ev) (ev_created ev) s1 else (Inr (), s1)) of
             (Inl e, s2) \<Rightarrow> (Inl e, rollback s2)
           | (Inr x, s2) \<Rightarrow> (Inr True, commit s2))
      | (x, s1) \<Rightarrow> (Inr False, rollback s1))"

section \<open>The success page\<close>

datatype checkout_result = Settled string string string | NotSettled string

text \<open>An error of the synchronisation is rolled back and left to the webhook.\<close>

definition or_pending :: "unit billing \<Rightarrow> checkout_result billing \<Rightarrow> checkout_result billing" where
  "or_pending m k s = (case m s of
     (Inl e, t) \<Rightarrow> (Inr (NotSettled ''pending''), rollback t) | (Inr x, t) \<Rightarrow> k t)"

definition settled_row :: "string \<Rightarrow> stripe_obj \<Rightarrow> checkout_result billing" where
  "settled_row u ob s = bind_s (subscription_row u)
     (\<lambda>r t. (Inr (Settled (o_mode ob) (plan_id r) (status r)), commit t)) s"

definition settle_checkout :: "vendor \<Rightarrow> stripe \<Rightarrow> string \<Rightarrow> stripe_obj \<Rightarrow> stripe_obj option \<Rightarrow> subscription \<Rightarrow> checkout_result billing" where
  "settle_checkout V S u ob sub r s =
     or_pending (case sub of None \<Rightarrow> done_with () | Some so \<Rightarrow> sync_subscription V S False 0 so)
       (or_pending (if o_mode ob = ''payment'' then credit_top_up V u ob else done_with ()) (settled_row u ob))
       (if o_customer ob = [] then s else put_subscription u (r\<lparr>customer_id := o_customer ob\<rparr>) s)"

definition verify_checkout :: "vendor \<Rightarrow> stripe \<Rightarrow> string \<Rightarrow> string \<Rightarrow> checkout_result billing" where
  "verify_checkout V S u session_id =
     (if take 3 session_id \<noteq> ''cs_'' then fails_with BillingError
      else case session_of S session_id of
        Inl e \<Rightarrow> fails_with BillingError
      | Inr (ob, sub) \<Rightarrow>
          if or_else (o_reference ob) (o_user ob) \<noteq> u then fails_with BillingError
          else if o_status ob \<noteq> ''complete'' then done_with (NotSettled ''incomplete'')
          else if o_payment_status ob = ''unpaid'' then done_with (NotSettled ''unpaid'')
          else bind_s (subscription_row u) (settle_checkout V S u ob sub))"

section \<open>Opening a checkout\<close>

definition holding_statuses :: "string list" where
  "holding_statuses = [''active'', ''trialing'', ''past_due'']"

definition active_subscription :: "db \<Rightarrow> string \<Rightarrow> string option" where
  "active_subscription d u = (case map_of (subscriptions d) u of
     None \<Rightarrow> None
   | Some r \<Rightarrow> if subscription_id r \<noteq> [] \<and> status r \<in> set holding_statuses then Some (subscription_id r) else None)"

text \<open>Fifteen minutes.\<close>

definition pending_window :: int where
  "pending_window = 15 * 60 * 1000000"

definition ensure_customer :: "stripe \<Rightarrow> string \<Rightarrow> string billing" where
  "ensure_customer S u = bind_s (subscription_row u) (\<lambda>r.
     if customer_id r \<noteq> [] then done_with (customer_id r)
     else (\<lambda>s. case make_customer S u of
       Inl e \<Rightarrow> (Inl e, s) | Inr c \<Rightarrow> (Inr c, commit (put_subscription u (r\<lparr>customer_id := c\<rparr>) s))))"

definition create_checkout_session :: "stripe \<Rightarrow> string \<Rightarrow> string \<Rightarrow> string billing" where
  "create_checkout_session S u p s =
     (case List.find (\<lambda>q. p_id q = p \<and> p_active q) (plans S) of
        None \<Rightarrow> (Inl BillingError, s)
      | Some q \<Rightarrow>
          if p_price q \<le> 0 then (Inl BillingError, s)
          else if active_subscription (current s) u \<noteq> None then (Inl BillingError, s)
          else bind_s (subscription_row u) (\<lambda>r.
            if (case checkout_pending_at r of None \<Rightarrow> False | Some t \<Rightarrow> clock_now S - t < pending_window) then fails_with BillingError
            else case price_id_for S q of
              Inl e \<Rightarrow> fails_with e
            | Inr price \<Rightarrow> bind_s (ensure_customer S u) (\<lambda>c. case make_session S c price of
                Inl e \<Rightarrow> fails_with e
              | Inr url \<Rightarrow> bind_s (subscription_row u) (\<lambda>r2 t.
                  (Inr url, commit (put_subscription u (r2\<lparr>checkout_pending_at := Some (clock_now S)\<rparr>) t))))) s)"

definition create_topup_session :: "stripe \<Rightarrow> string \<Rightarrow> string \<Rightarrow> string billing" where
  "create_topup_session S price u s =
     (if price = [] then (Inl BillingError, s)
      else case map_of (credits (current s)) u of
        None \<Rightarrow> (Inl BillingError, s)
      | Some r \<Rightarrow> if key_hash r = [] then (Inl BillingError, s)
          else bind_s (ensure_customer S u) (\<lambda>c t. (make_session S c price, t)) s)"

definition create_portal_session :: "(string \<Rightarrow> billing_error + string) \<Rightarrow> string \<Rightarrow> string billing" where
  "create_portal_session portal u s = (case map_of (subscriptions (current s)) u of
     None \<Rightarrow> (Inl BillingError, s)
   | Some r \<Rightarrow> (if customer_id r = [] then Inl BillingError else portal (customer_id r), s))"

section \<open>Reconciliation\<close>

text \<open>What a readable remote subscription changes: only fields that are present and differ.\<close>

definition repaired_row :: "stripe \<Rightarrow> stripe_obj \<Rightarrow> subscription \<Rightarrow> subscription" where
  "repaired_row S ob r = (let (a, b) = period_from ob
     in r\<lparr>status := or_else (o_status ob) (status r), cancel_at_period_end := o_cancel ob,
          current_period_start := (case ts_to_dt a of None \<Rightarrow> current_period_start r | Some t \<Rightarrow> Some t),
          current_period_end := (case ts_to_dt b of None \<Rightarrow> current_period_end r | Some t \<Rightarrow> Some t),
          trial_end := (case ts_to_dt (o_trial_end ob) of None \<Rightarrow> trial_end r | Some t \<Rightarrow> Some t),
          plan_id := (case resolve_plan_id S ob of None \<Rightarrow> plan_id r | Some p \<Rightarrow> p)\<rparr>)"

record counts =
  checked :: nat
  repaired :: nat
  orphaned :: nat

definition reconcile_one :: "stripe \<Rightarrow> string \<times> subscription \<Rightarrow> counts \<times> subscription session \<Rightarrow> counts \<times> subscription session" where
  "reconcile_one S = (\<lambda>(u, r) (n, s). let n1 = n\<lparr>checked := checked n + 1\<rparr> in
     case remote_of S (subscription_id r) of
       Missing \<Rightarrow> (n1\<lparr>orphaned := orphaned n + 1\<rparr>, put_subscription u (r\<lparr>status := ''canceled''\<rparr>) s)
     | Unreadable \<Rightarrow> (n1, s)
     | Remote ob \<Rightarrow> (let r1 = repaired_row S ob r
         in if r1 = r then (n1, s) else (n1\<lparr>repaired := repaired n + 1\<rparr>, put_subscription u r1 s)))"

definition reconcile :: "stripe \<Rightarrow> nat \<Rightarrow> counts billing" where
  "reconcile S limit s =
     (let rows = take limit (filter (\<lambda>(u, r). subscription_id r \<noteq> []) (subscriptions (current s)));
          (n, t) = fold (reconcile_one S) rows (\<lparr>checked = 0, repaired = 0, orphaned = 0\<rparr>, s)
      in (Inr n, commit t))"

section \<open>Transactions of the handlers\<close>

lemma put_subscription_sel [simp]:
  "committed (put_subscription u r s) = committed s" "calls (put_subscription u r s) = calls s"
  "credits (current (put_subscription u r s)) = credits (current s)" "events (current (put_subscription u r s)) = events (current s)"
  "map_of (subscriptions (current (put_subscription u r s))) = (map_of (subscriptions (current s)))(u \<mapsto> r)"
  by (simp_all add: put_subscription_def odict_simps)

lemma quiet_sub_row [txn]: "quiet (subscription_row u)"
  by (rule quietI) (auto simp: subscription_row_def split: option.splits)

lemma quiet_claim [txn]: "quiet (claim_once k)"
  by (rule quietI) (auto simp: claim_once_def split: if_splits)

lemma quiet_done [txn]: "quiet (done_with a)" "quiet (fails_with e)"
  by (simp_all add: quiet_def done_with_def fails_with_def)

lemma last_done [txn]: "commits_last (done_with a)" "commits_last (fails_with e)"
  by (simp_all add: commits_last_def done_with_def fails_with_def)

lemma last_unit [txn]: "commits_last m \<Longrightarrow> commits_last (bind_s m (\<lambda>a. done_with b))"
  by (auto simp: commits_last_def bind_s_def done_with_def split: prod.splits sum.splits)

lemma quiet_owner [txn]: "quiet (charge_owner S c)"
  by (rule quietI) (auto simp: charge_owner_def split: if_splits sum.splits prod.splits)

lemma quiet_set_status [txn]: "quiet (set_status c st)"
  by (rule quietI) (auto simp: set_status_def split: option.splits prod.splits if_splits)

lemma quiet_link [txn]: "quiet (link_customer u c)"
  unfolding link_customer_def by (intro txn) (simp add: quiet_def)

lemma last_debit [txn]: "commits_last (debit V u a)" "commits_last (restore V u a)"
  unfolding debit_def restore_def by (intro txn)+

lemma last_provision_key [txn]: "commits_last (provision_key V u i)"
  unfolding provision_key_def by (cases i) (auto intro: txn)

lemma last_put_sub: "commits_last m \<Longrightarrow> commits_last (\<lambda>s. m (put_subscription u r s))"
  unfolding commits_last_def by (metis put_subscription_sel(1))

lemma last_write [txn]: "commits_last (write_subscription V S d ob u r)"
proof (rule commits_lastI)
  fix s e t
  assume run: "write_subscription V S d ob u r s = (Inl e, t)"
  show "committed t = committed s"
  proof (cases d)
    case True
    with run have "bind_s (revoke V u) (\<lambda>b. done_with ()) (put_subscription u (torn_down r) s) = (Inl e, t)"
      by (simp add: write_subscription_def)
    then show ?thesis using commits_lastD [OF last_unit [OF last_revoke]] by fastforce
  next
    case False
    with run have "provision_key V u (included_credit_for (subscription_plan S (described S ob r))) (put_subscription u (described S ob r) s) = (Inl e, t)"
      by (auto simp: write_subscription_def Let_def split: if_splits)
    then show ?thesis using commits_lastD [OF last_provision_key] by fastforce
  qed
qed

lemma last_sync [txn]: "commits_last (sync_subscription V S d c ob)"
proof (rule commits_lastI)
  fix s e t
  assume run: "sync_subscription V S d c ob s = (Inl e, t)"
  show "committed t = committed s"
  proof (cases "find_by_customer (current s) (o_customer ob)")
    case None
    with run have "bind_s (subscription_row (o_user ob)) (\<lambda>r. write_subscription V S d ob (o_user ob) (r\<lparr>customer_id := o_customer ob\<rparr>)) s = (Inl e, t)"
      by (auto simp: sync_subscription_def split: if_splits)
    then show ?thesis by (rule commits_lastD [rotated]) (intro txn)
  next
    case (Some p)
    with run obtain u r where "write_subscription V S d ob u r s = (Inl e, t)"
      by (auto simp: sync_subscription_def split: if_splits prod.splits)
    then show ?thesis by (rule commits_lastD [OF last_write])
  qed
qed

lemma last_move [txn]: "commits_last (move_purchased V S b c a k)"
proof -
  have each: "commits_last (case owner of None \<Rightarrow> done_with () | Some u \<Rightarrow> bind_s (claim_once k) (\<lambda>won.
          if \<not> won then done_with ()
          else if b then bind_s (restore V u (cents a)) (\<lambda>r. done_with ())
          else bind_s (debit V u (cents a)) (\<lambda>r. done_with ())))" for owner
    by (cases owner) (auto intro!: txn)
  show ?thesis unfolding move_purchased_def by (intro txn each)
qed

lemma last_credit_top_up [txn]: "commits_last (credit_top_up V u ob)"
  unfolding credit_top_up_def by (intro txn)

lemma last_renew_credit [txn]: "commits_last (renew_credit V S ob)"
proof (rule commits_lastI)
  fix s e t
  assume run: "renew_credit V S ob s = (Inl e, t)"
  then obtain u included where "bind_s (renew V u included) (\<lambda>r. done_with ()) s = (Inl e, t) \<or>
    bind_s (claim_once (''renew:'' @ o_id ob)) (\<lambda>won. if \<not> won then done_with () else bind_s (renew V u included) (\<lambda>r. done_with ())) s = (Inl e, t)"
    by (auto simp: renew_credit_def split: option.splits if_splits prod.splits)
  then show "committed t = committed s"
  proof
    assume "bind_s (renew V u included) (\<lambda>r. done_with ()) s = (Inl e, t)"
    then show ?thesis by (rule commits_lastD [rotated]) (intro txn)
  next
    assume "bind_s (claim_once (''renew:'' @ o_id ob)) (\<lambda>won. if \<not> won then done_with () else bind_s (renew V u included) (\<lambda>r. done_with ())) s = (Inl e, t)"
    then show ?thesis by (rule commits_lastD [rotated]) (intro txn)
  qed
qed

lemma last_apply [txn]: "commits_last (apply_event V S type ob c)"
  unfolding apply_event_def Let_def reverse_purchased_credit_def restore_purchased_credit_def
  by (intro last_if last_bind last_sync last_move last_done last_credit_top_up last_renew_credit quiet_set_status
      quiet_last [OF quiet_set_status]) (auto intro!: txn)

interpretation applied: transactional "apply_event V S type ob c" for V S type ob c
  by unfold_locales (rule commits_lastD [OF last_apply])

section \<open>Claims\<close>

text \<open>What was claimed, in the session and in the database, stays claimed.\<close>

definition claimed :: "string set \<Rightarrow> 'r session \<Rightarrow> bool" where
  "claimed K s \<longleftrightarrow> K \<subseteq> set (events (current s)) \<and> K \<subseteq> set (events (committed s))"

lemma claimed_simps [simp]:
  "claimed K (put_subscription u r s) = claimed K s" "claimed K (commit s) = (K \<subseteq> set (events (current s)))"
  "claimed K (rollback s) = (K \<subseteq> set (events (committed s)))"
  by (auto simp: claimed_def)

lemma claimedD: "claimed K s \<Longrightarrow> K \<subseteq> set (events (current s))" "claimed K s \<Longrightarrow> K \<subseteq> set (events (committed s))"
  by (simp_all add: claimed_def)

text \<open>
  A condition on sessions that every piece of an event's work keeps: it need only survive writing a
  subscription, an operation on credit, and a claim.
\<close>

definition keeps :: "('r session \<Rightarrow> bool) \<Rightarrow> ('r, 'a) action \<Rightarrow> bool" where
  "keeps I m \<longleftrightarrow> (\<forall>s. I s \<longrightarrow> I (snd (m s)))"

named_theorems claims "actions and the conditions they keep"

lemma keepsI: "(\<And>s x t. I s \<Longrightarrow> m s = (x, t) \<Longrightarrow> I t) \<Longrightarrow> keeps I m"
  unfolding keeps_def by (metis prod.exhaust_sel)

lemma keepsD: "keeps I m \<Longrightarrow> m s = (x, t) \<Longrightarrow> I s \<Longrightarrow> I t"
  unfolding keeps_def by (metis snd_conv)

lemma keeps_bind [claims]: "keeps I m \<Longrightarrow> (\<And>a. keeps I (f a)) \<Longrightarrow> keeps I (bind_s m f)"
  unfolding keeps_def bind_s_def by (auto split: prod.splits sum.splits)

lemma keeps_if [claims]: "(b \<Longrightarrow> keeps I m) \<Longrightarrow> (\<not> b \<Longrightarrow> keeps I n) \<Longrightarrow> keeps I (if b then m else n)"
  by simp

lemma keeps_same [claims]: "keeps I (done_with a)" "keeps I (fails_with e)" "keeps I (charge_owner S c)"
proof -
  show "keeps I (done_with a)" "keeps I (fails_with e)" by (simp_all add: keeps_def done_with_def fails_with_def)
  show "keeps I (charge_owner S c)"
    by (rule keepsI) (auto simp: charge_owner_def split: if_splits sum.splits prod.splits)
qed

locale session_law =
  fixes I :: "subscription session \<Rightarrow> bool"
  assumes put_law: "I s \<Longrightarrow> I (put_subscription u r s)"
    and credit_law: "I s \<Longrightarrow> only_credit u s t \<Longrightarrow> I t"
    and claim_law: "I s \<Longrightarrow> I (snd (claim_once k s))"
begin

lemma keeps_framed: "framed u m \<Longrightarrow> keeps I m"
  unfolding keeps_def framed_def using credit_law by blast

lemmas keeps_ops [claims] = framed_ops [THEN keeps_framed]

lemma keeps_basic [claims]:
  "keeps I (subscription_row u)" "keeps I (claim_once k)" "keeps I (set_status c st)" "keeps I (link_customer u c)"
proof -
  show row: "keeps I (subscription_row u)"
    by (rule keepsI) (auto simp: subscription_row_def split: option.splits intro: put_law)
  show "keeps I (link_customer u c)"
    unfolding link_customer_def by (intro claims row) (auto simp: keeps_def intro: put_law)
  show "keeps I (claim_once k)" using claim_law by (simp add: keeps_def)
  show "keeps I (set_status c st)"
    by (rule keepsI) (auto simp: set_status_def split: option.splits prod.splits if_splits intro: put_law)
qed

lemma keeps_put_sub [claims]: "keeps I m \<Longrightarrow> keeps I (\<lambda>s. m (put_subscription u r s))"
  by (auto simp: keeps_def intro: put_law)

lemma keeps_provision_key [claims]: "keeps I (provision_key V u i)"
  unfolding provision_key_def by (cases i) (auto intro!: claims)

lemma keeps_write [claims]: "keeps I (write_subscription V S d ob u r)"
proof (rule keepsI)
  fix s x t
  assume c: "I s" and run: "write_subscription V S d ob u r s = (x, t)"
  have a: "keeps I (bind_s (revoke V u) (\<lambda>b. done_with ()))" by (intro claims)
  note put = put_law [OF c]
  show "I t"
    using run put
    by (auto simp: write_subscription_def Let_def split: if_splits dest: keepsD [OF a] keepsD [OF keeps_provision_key])
qed

lemma keeps_sync [claims]: "keeps I (sync_subscription V S d c ob)"
proof (rule keepsI)
  fix s x t
  assume c: "I s" and run: "sync_subscription V S d c ob s = (x, t)"
  have "keeps I (bind_s (subscription_row (o_user ob)) (\<lambda>r. write_subscription V S d ob (o_user ob) (r\<lparr>customer_id := o_customer ob\<rparr>)))"
    by (intro claims)
  with c run show "I t"
    by (auto simp: sync_subscription_def split: option.splits if_splits prod.splits dest: keepsD keepsD [OF keeps_write])
qed

lemma keeps_move [claims]: "keeps I (move_purchased V S b c a k)"
proof -
  have each: "keeps I (case owner of None \<Rightarrow> done_with () | Some u \<Rightarrow> bind_s (claim_once k) (\<lambda>won.
          if \<not> won then done_with ()
          else if b then bind_s (restore V u (cents a)) (\<lambda>r. done_with ())
          else bind_s (debit V u (cents a)) (\<lambda>r. done_with ())))" for owner
    by (cases owner) (auto intro!: claims)
  show ?thesis unfolding move_purchased_def by (intro claims each)
qed

lemma keeps_credit_top_up [claims]: "keeps I (credit_top_up V u ob)"
  unfolding credit_top_up_def by (intro claims)

lemma keeps_renew_credit [claims]: "keeps I (renew_credit V S ob)"
proof (rule keepsI)
  fix s x t
  assume c: "I s" and run: "renew_credit V S ob s = (x, t)"
  have a: "keeps I (bind_s (renew V u i) (\<lambda>r. done_with ()))" for u i by (intro claims)
  have b: "keeps I (bind_s (claim_once k) (\<lambda>won. if \<not> won then done_with () else bind_s (renew V u i) (\<lambda>r. done_with ())))" for u i k
    by (intro claims)
  show "I t"
    using c run
    by (auto simp: renew_credit_def split: option.splits if_splits prod.splits dest: keepsD [OF a] keepsD [OF b])
qed

lemma keeps_apply [claims]: "keeps I (apply_event V S type ob c)"
  unfolding apply_event_def Let_def reverse_purchased_credit_def restore_purchased_credit_def by (intro claims)

end

interpretation claims_law: session_law "claimed K" for K
  by unfold_locales (auto simp: claimed_def only_credit_def claim_once_def)

interpretation seen_law: session_law "\<lambda>s. K \<subseteq> set (events (current s))" for K
  by unfold_locales (auto simp: only_credit_def claim_once_def)

section \<open>Handlers and requests\<close>

text \<open>A request's session is closed at its end, and what it has not committed is gone.\<close>

datatype handler =
    Deliver vendor stripe stripe_event
  | SuccessPage vendor stripe string string
  | Sweep stripe nat
  | OpenCheckout stripe string string
  | OpenTopUp stripe string string

definition billing_step :: "subscription session \<Rightarrow> handler \<Rightarrow> subscription session" where
  "billing_step s h = rollback (case h of
     Deliver V S ev \<Rightarrow> snd (handle_event V S ev s)
   | SuccessPage V S u i \<Rightarrow> snd (verify_checkout V S u i s)
   | Sweep S n \<Rightarrow> snd (reconcile S n s)
   | OpenCheckout S u p \<Rightarrow> snd (create_checkout_session S u p s)
   | OpenTopUp S p u \<Rightarrow> snd (create_topup_session S p u s))"

lemma keeps_handle: "keeps (claimed K) (handle_event V S ev)"
proof (rule keepsI)
  fix s x t
  assume c: "claimed K s" and run: "handle_event V S ev s = (x, t)"
  obtain y s1 where cl: "claim_once (ev_id ev) s = (y, s1)" by fastforce
  have s1: "claimed K s1" using keepsD [OF claims_law.keeps_basic(2) cl c] .
  show "claimed K t"
  proof (cases "y = Inr True")
    case False
    then show ?thesis using run cl s1 claimedD(2) [OF s1] by (cases y) (auto simp: handle_event_def split: bool.splits)
  next
    case True
    define m where "m = (if ev_type ev \<in> set handled_events then apply_event V S (ev_type ev) (ev_obj ev) (ev_created ev) s1 else (Inr (), s1))"
    obtain z s2 where m: "m = (z, s2)" by fastforce
    have s2: "claimed K s2" using m s1 keepsD [OF claims_law.keeps_apply] by (auto simp: m_def split: if_splits)
    have "(x, t) = (case (z, s2) of (Inl e, s2) \<Rightarrow> (Inl e, rollback s2) | (Inr x, s2) \<Rightarrow> (Inr True, commit s2))"
      using run cl True m by (simp add: handle_event_def m_def)
    then show ?thesis using claimedD [OF s2] by (auto split: sum.splits)
  qed
qed

lemma keeps_pending [claims]: "keeps (claimed K) m \<Longrightarrow> keeps (claimed K) k \<Longrightarrow> keeps (claimed K) (or_pending m k)"
  unfolding or_pending_def by (rule keepsI) (auto split: prod.splits sum.splits dest: keepsD claimedD)

lemma keeps_settled [claims]: "keeps (claimed K) (settled_row u ob)"
proof -
  have "keeps (claimed K) (\<lambda>t. (Inr (x, y, z), commit t))" for x y z :: string
    by (auto simp: keeps_def claimed_def)
  have "keeps (claimed K) (bind_s (subscription_row u) (\<lambda>r t. (Inr (Settled (o_mode ob) (plan_id r) (status r)), commit t)))"
    by (intro claims) (auto simp: keeps_def claimed_def)
  then show ?thesis by (simp add: settled_row_def keeps_def)
qed

lemma keeps_settle [claims]: "keeps (claimed K) (settle_checkout V S u ob sub r)"
proof (rule keepsI)
  fix s x t
  assume c: "claimed K s" and run: "settle_checkout V S u ob sub r s = (x, t)"
  have "keeps (claimed K) (or_pending (case sub of None \<Rightarrow> done_with () | Some so \<Rightarrow> sync_subscription V S False 0 so)
     (or_pending (if o_mode ob = ''payment'' then credit_top_up V u ob else done_with ()) (settled_row u ob)))"
    by (cases sub) (auto intro!: claims)
  from keepsD [OF this run [unfolded settle_checkout_def]] c show "claimed K t" by (simp split: if_split)
qed

lemma keeps_verify: "keeps (claimed K) (verify_checkout V S u i)"
  unfolding verify_checkout_def by (intro claims) (auto intro!: claims split: sum.split prod.split)

lemma keeps_fold_reconcile: "claimed K s \<Longrightarrow> fold (reconcile_one S) rows (n, s) = (n', t) \<Longrightarrow> claimed K t"
proof (induction rows arbitrary: n s)
  case (Cons row rows)
  obtain n1 s1 where one: "reconcile_one S row (n, s) = (n1, s1)" by fastforce
  then have "claimed K s1"
    using Cons.prems(1) by (auto simp: reconcile_one_def Let_def split: prod.splits remote_subscription.splits if_splits)
  with Cons one show ?case by simp
qed simp

lemma keeps_reconcile: "keeps (claimed K) (reconcile S n)"
proof (rule keepsI)
  fix s x t
  assume c: "claimed K s" and run: "reconcile S n s = (x, t)"
  let ?rows = "take n (filter (\<lambda>(u, r). subscription_id r \<noteq> []) (subscriptions (current s)))"
  obtain m t' where f: "fold (reconcile_one S) ?rows (\<lparr>checked = 0, repaired = 0, orphaned = 0\<rparr>, s) = (m, t')" by fastforce
  then have "t = commit t'" using run by (simp add: reconcile_def)
  then show "claimed K t" using claimedD(1) [OF keeps_fold_reconcile [OF c f]] by simp
qed

lemma keeps_customer [claims]: "keeps (claimed K) (ensure_customer S u)"
  unfolding ensure_customer_def
  by (intro claims) (rule keepsI, auto split: sum.splits dest: claimedD)

lemma keeps_checkout: "keeps (claimed K) (create_checkout_session S u p)"
proof (rule keepsI)
  fix s x t
  assume c: "claimed K s" and run: "create_checkout_session S u p s = (x, t)"
  have stamp: "keeps (claimed K) (bind_s (subscription_row u) (\<lambda>r2 t.
        (Inr (url::string), commit (put_subscription u (r2\<lparr>checkout_pending_at := Some (clock_now S)\<rparr>) t))))" for url
    by (intro claims) (auto simp: keeps_def claimed_def)
  have opened: "keeps (claimed K) (case make_session S cu price of Inl e \<Rightarrow> fails_with e
      | Inr url \<Rightarrow> bind_s (subscription_row u) (\<lambda>r2 t.
          (Inr url, commit (put_subscription u (r2\<lparr>checkout_pending_at := Some (clock_now S)\<rparr>) t))))" for cu price
    by (auto intro!: claims stamp split: sum.split)
  have "keeps (claimed K) (bind_s (subscription_row u) (\<lambda>r.
            if (case checkout_pending_at r of None \<Rightarrow> False | Some t \<Rightarrow> clock_now S - t < pending_window) then fails_with BillingError
            else case price_id_for S q of
              Inl e \<Rightarrow> fails_with e
            | Inr price \<Rightarrow> bind_s (ensure_customer S u) (\<lambda>c. case make_session S c price of
                Inl e \<Rightarrow> fails_with e
              | Inr url \<Rightarrow> bind_s (subscription_row u) (\<lambda>r2 t.
                  (Inr url, commit (put_subscription u (r2\<lparr>checkout_pending_at := Some (clock_now S)\<rparr>) t))))))" for q
    by (intro claims) (auto intro!: claims opened split: sum.split)
  then show "claimed K t"
    using c run by (auto simp: create_checkout_session_def split: option.splits if_splits dest: keepsD)
qed

lemma keeps_topup: "keeps (claimed K) (create_topup_session S p u)"
proof (rule keepsI)
  fix s x t
  assume c: "claimed K s" and run: "create_topup_session S p u s = (x, t)"
  have "keeps (claimed K) (bind_s (ensure_customer S u) (\<lambda>c t. (make_session S c p, t)))"
    by (intro claims) (simp add: keeps_def)
  then show "claimed K t"
    using c run by (auto simp: create_topup_session_def split: option.splits if_splits dest: keepsD)
qed

interpretation requests: machine billing_step "\<lambda>s. claimed K s \<and> current s = committed s" for K
proof
  fix K and s :: "subscription session" and h
  assume "claimed K s \<and> current s = committed s"
  then have "claimed K (case h of
     Deliver V S ev \<Rightarrow> snd (handle_event V S ev s)
   | SuccessPage V S u i \<Rightarrow> snd (verify_checkout V S u i s)
   | Sweep S n \<Rightarrow> snd (reconcile S n s)
   | OpenCheckout S u p \<Rightarrow> snd (create_checkout_session S u p s)
   | OpenTopUp S p u \<Rightarrow> snd (create_topup_session S p u s))"
    using keeps_handle keeps_verify keeps_reconcile keeps_checkout keeps_topup
    unfolding keeps_def by (cases h) simp_all
  then show "claimed K (billing_step s h) \<and> current (billing_step s h) = committed (billing_step s h)"
    by (simp add: billing_step_def claimedD)
qed

end
