(* ===== verification/BillingProperties.thy ===== *)
theory BillingProperties
  imports Billing
begin

text \<open>
  What the billing handlers promise: an event is applied wholly or not at all and once, a payment is
  credited once whoever reports it, an event that is older than what a row shows changes nothing, an
  account holds a key exactly while its subscription lives; and where they do not keep the promise.
\<close>

section \<open>Outcomes of a delivery\<close>

definition with_event :: "string \<Rightarrow> subscription session \<Rightarrow> subscription session" where
  "with_event i s = s\<lparr>current := (current s)\<lparr>events := events (current s) @ [i]\<rparr>\<rparr>"

lemma with_event_sel [simp]:
  "committed (with_event i s) = committed s" "calls (with_event i s) = calls s"
  "subscriptions (current (with_event i s)) = subscriptions (current s)" "credits (current (with_event i s)) = credits (current s)"
  "events (current (with_event i s)) = events (current s) @ [i]"
  by (simp_all add: with_event_def)

lemma find_with_event: "find_by_customer (current (with_event i s)) c = find_by_customer (current s) c"
  by (simp only: find_by_customer_def with_event_sel)

text \<open>The work of an event that is new.\<close>

definition event_work :: "vendor \<Rightarrow> stripe \<Rightarrow> stripe_event \<Rightarrow> unit billing" where
  "event_work V S ev = (if ev_type ev \<in> set handled_events then apply_event V S (ev_type ev) (ev_obj ev) (ev_created ev) else done_with ())"

lemma handle_event_alt:
  "handle_event V S ev s = (if ev_id ev \<in> set (events (current s)) then (Inr False, rollback s)
     else case event_work V S ev (with_event (ev_id ev) s) of
       (Inl e, t) \<Rightarrow> (Inl e, rollback t) | (Inr x, t) \<Rightarrow> (Inr True, commit t))"
  by (simp add: handle_event_def claim_once_def event_work_def with_event_def done_with_def)

lemma handled_once:
  assumes "handle_event V S ev s = (Inr True, t)"
  obtains s2 where "event_work V S ev (with_event (ev_id ev) s) = (Inr (), s2)" "t = commit s2"
    "ev_id ev \<notin> set (events (current s))"
  using assms unfolding handle_event_alt by (auto split: if_splits prod.splits sum.splits)

lemma last_work: "commits_last (event_work V S ev)"
  unfolding event_work_def by (intro txn)

lemma keeps_seen: "keeps (\<lambda>s. K \<subseteq> set (events (current s))) (event_work V S ev)"
  unfolding event_work_def by (intro claims)

text \<open>
  C10. A delivery is applied wholly or not at all: one that was processed before answers \<open>False\<close> and
  changes nothing, one that fails changes nothing (although the credit service commits on its own),
  and one that succeeds is on record, so that delivering it again changes nothing.
\<close>

theorem event_atomic:
  assumes "current s = committed s" and "handle_event V S ev s = (x, t)"
  shows "current t = committed t \<and>
    (x \<noteq> Inr True \<longrightarrow> committed t = committed s) \<and>
    (x = Inr False \<longleftrightarrow> ev_id ev \<in> set (events (committed s))) \<and>
    (x = Inr True \<longrightarrow> handle_event V' S' (ev\<lparr>ev_created := c, ev_obj := ob\<rparr>) t = (Inr False, t))"
proof -
  have all: "current t = committed t \<and> (x \<noteq> Inr True \<longrightarrow> committed t = committed s) \<and>
    (x = Inr False \<longleftrightarrow> ev_id ev \<in> set (events (committed s))) \<and> (x = Inr True \<longrightarrow> ev_id ev \<in> set (events (current t)))"
  proof (cases "ev_id ev \<in> set (events (current s))")
    case True
    with assms show ?thesis by (auto simp: handle_event_alt)
  next
    case False
    obtain y s2 where w: "event_work V S ev (with_event (ev_id ev) s) = (y, s2)" by fastforce
    show ?thesis
    proof (cases y)
      case (Inl e)
      with False w assms have "x = Inl e" "t = rollback s2" by (simp_all add: handle_event_alt)
      moreover have "committed s2 = committed s" using commits_lastD [OF last_work w [unfolded Inl]] by simp
      ultimately show ?thesis using assms(1) False by simp
    next
      case (Inr u)
      with False w assms have "x = Inr True" "t = commit s2" by (simp_all add: handle_event_alt)
      moreover have "{ev_id ev} \<subseteq> set (events (current s2))"
        by (rule keepsD [OF keeps_seen w]) simp
      ultimately show ?thesis using assms(1) False by simp
    qed
  qed
  moreover have "handle_event V' S' (ev\<lparr>ev_created := c, ev_obj := ob\<rparr>) t = (Inr False, t)" if "x = Inr True"
  proof -
    from all that have "ev_id ev \<in> set (events (current t))" "current t = committed t" by blast+
    then show ?thesis unfolding handle_event_alt by (simp add: rollback_def)
  qed
  ultimately show ?thesis by blast
qed

section \<open>Payments\<close>

text \<open>The delivery of a paid one-time checkout that names its account.\<close>

definition is_top_up :: "stripe_event \<Rightarrow> bool" where
  "is_top_up ev \<longleftrightarrow> ev_type ev = ''checkout.session.completed'' \<and> o_mode (ev_obj ev) = ''payment'' \<and>
     or_else (o_reference (ev_obj ev)) (o_user (ev_obj ev)) \<noteq> [] \<and> o_amount_total (ev_obj ev) > 0 \<and> o_id (ev_obj ev) \<noteq> []"

lemma link_or_not:
  assumes "(if b then link_customer u c else done_with ()) s = (x, t)"
  shows "x = Inr ()" "credits (current t) = credits (current s)" "events (current t) = events (current s)"
    "committed t = committed s"
  using assms by (auto simp: link_customer_def done_with_def bind_s_def subscription_row_def split: if_splits option.splits)

lemma top_up_work:
  assumes "is_top_up ev" and "event_work V S ev s = (x, t)"
  obtains s1 where "credits (current s1) = credits (current s)" "events (current s1) = events (current s)"
    "committed s1 = committed s"
    "credit_top_up V (or_else (o_reference (ev_obj ev)) (o_user (ev_obj ev))) (ev_obj ev) s1 = (x, t)"
proof -
  let ?u = "or_else (o_reference (ev_obj ev)) (o_user (ev_obj ev))"
  let ?link = "if ?u \<noteq> [] \<and> o_customer (ev_obj ev) \<noteq> [] then link_customer ?u (o_customer (ev_obj ev)) else done_with ()"
  obtain y s1 where l: "?link s = (y, s1)" by fastforce
  note ln = link_or_not [OF l]
  have "bind_s ?link (\<lambda>x. credit_top_up V ?u (ev_obj ev)) s = (x, t)"
    using assms by (simp add: event_work_def handled_events_def is_top_up_def apply_event_def Let_def)
  then have "credit_top_up V ?u (ev_obj ev) s1 = (x, t)" using l ln(1) by (simp add: bind_s_def)
  with ln(2-4) that show thesis by blast
qed

lemma top_up_claims:
  assumes "credit_top_up V u ob s = (Inr (), t)" and "0 < o_amount_total ob" and "o_id ob \<noteq> []"
  shows "''topup:'' @ o_id ob \<in> set (events (current t))"
proof -
  let ?k = "''topup:'' @ o_id ob"
  define won where "won = (?k \<notin> set (events (current s)))"
  define s1 where "s1 = snd (claim_once ?k s)"
  have c: "claim_once ?k s = (Inr won, s1)" unfolding won_def s1_def by (simp add: claim_once_def)
  have k: "?k \<in> set (events (current s1))" using c by (auto simp: claim_once_def split: if_splits)
  show ?thesis
  proof (cases won)
    case False
    with assms c k show ?thesis by (simp add: credit_top_up_def bind_s_def done_with_def)
  next
    case True
    with assms c have "t = snd (top_up V u (cents (o_amount_total ob)) s1)"
      by (simp add: credit_top_up_def bind_s_def done_with_def split: prod.splits sum.splits)
    moreover have "only_credit u s1 (snd (top_up V u (cents (o_amount_total ob)) s1))"
      using framed_ops(1) [of u V "cents (o_amount_total ob)"] unfolding framed_def by blast
    ultimately show ?thesis using k by (simp add: only_credit_def)
  qed
qed

lemma top_up_again:
  "''topup:'' @ o_id ob \<in> set (events (current s)) \<Longrightarrow> credit_top_up V u ob s = (Inr (), s)"
  by (simp add: credit_top_up_def bind_s_def claim_once_def done_with_def)

text \<open>
  C9. A payment is credited once: after a delivery that reports it has succeeded, and whatever other
  deliveries, success pages, sweeps and checkouts run in between, neither another delivery of the
  same checkout session under any event id nor its success page changes any account's credit.
\<close>

theorem payment_credited_once:
  assumes "current s = committed s" and "is_top_up ev" and "handle_event V S ev s = (Inr True, s1)"
    and "t = foldl billing_step s1 hs" and "is_top_up ev'" and "o_id (ev_obj ev') = o_id (ev_obj ev)"
  shows "credits (current (snd (handle_event V' S' ev' t))) = credits (committed t) \<and>
    (session_of S' i = Inr (ob, None) \<and> o_id ob = o_id (ev_obj ev) \<longrightarrow>
      credits (current (snd (verify_checkout V' S' u i t))) = credits (committed t))"
proof -
  let ?k = "''topup:'' @ o_id (ev_obj ev)"
  obtain s2 where w: "event_work V S ev (with_event (ev_id ev) s) = (Inr (), s2)" "s1 = commit s2"
    by (rule handled_once [OF assms(3)])
  obtain s0 where "credit_top_up V (or_else (o_reference (ev_obj ev)) (o_user (ev_obj ev))) (ev_obj ev) s0 = (Inr (), s2)"
    by (rule top_up_work [OF assms(2) w(1)])
  then have "?k \<in> set (events (current s2))"
    using assms(2) by (intro top_up_claims) (simp_all add: is_top_up_def)
  then have "claimed {?k} s1 \<and> current s1 = committed s1" by (simp add: w(2))
  from requests.run_inv [OF this, of hs] have t: "?k \<in> set (events (current t))" "current t = committed t"
    by (simp_all add: assms(4) claimed_def)
  have "credits (current (snd (handle_event V' S' ev' t))) = credits (committed t)"
  proof (cases "ev_id ev' \<in> set (events (current t))")
    case True
    then show ?thesis by (simp add: handle_event_alt t(2))
  next
    case False
    obtain y t2 where y: "event_work V' S' ev' (with_event (ev_id ev') t) = (y, t2)" by fastforce
    obtain s3 where s3: "credits (current s3) = credits (current t)" "events (current s3) = events (current t) @ [ev_id ev']"
      "credit_top_up V' (or_else (o_reference (ev_obj ev')) (o_user (ev_obj ev'))) (ev_obj ev') s3 = (y, t2)"
      using top_up_work [OF assms(5) y] by (metis with_event_sel(4,5))
    have "?k \<in> set (events (current s3))" using t(1) s3(2) by simp
    then have "t2 = s3" "y = Inr ()" using s3(3) top_up_again [of "ev_obj ev'" s3] by (simp_all add: assms(6))
    then show ?thesis using False y s3(1) t(2) by (simp add: handle_event_alt)
  qed
  moreover have "credits (current (snd (verify_checkout V' S' u i t))) = credits (committed t)"
    if session: "session_of S' i = Inr (ob, None)" "o_id ob = o_id (ev_obj ev)"
  proof -
    define m where "m = (if o_mode ob = ''payment'' then credit_top_up V' u ob else done_with ())"
    have m: "m q = (Inr (), q)" if "events (current q) = events (current t)" for q
      using that t(1) top_up_again [of ob q] by (simp add: m_def session(2) done_with_def)
    have page: "credits (current (snd (settle_checkout V' S' u ob None r q))) = credits (current q)"
      if "events (current q) = events (current t)" for r q
    proof -
      define q' where "q' = (if o_customer ob = [] then q else put_subscription u (r\<lparr>customer_id := o_customer ob\<rparr>) q)"
      have "credits (current q') = credits (current q)" "events (current q') = events (current t)" by (simp_all add: q'_def that)
      moreover have "settle_checkout V' S' u ob None r q = settled_row u ob q'"
        using m [of q'] calculation(2) unfolding settle_checkout_def m_def [symmetric] q'_def [symmetric]
        by (simp add: or_pending_def done_with_def)
      ultimately show ?thesis by (simp add: settled_row_def bind_s_def subscription_row_def split: option.split)
    qed
    show ?thesis
      using page t(2)
      by (auto simp: verify_checkout_def fails_with_def done_with_def session(1) bind_s_def subscription_row_def split: option.split)
  qed
  ultimately show ?thesis by blast
qed

section \<open>Subscriptions and keys\<close>

definition subscription_event :: "stripe_event \<Rightarrow> bool" where
  "subscription_event ev \<longleftrightarrow> ev_type ev \<in> {''customer.subscription.created'', ''customer.subscription.updated'', ''customer.subscription.deleted''}"

lemma subscription_work:
  "subscription_event ev \<Longrightarrow> event_work V S ev
    = sync_subscription V S (ev_type ev = ''customer.subscription.deleted'') (ev_created ev) (ev_obj ev)"
  by (auto simp: subscription_event_def event_work_def handled_events_def apply_event_def)

lemma revoke_key: "revoke V u s = (Inr b, t) \<Longrightarrow> key_hash (row_of (current t) u) = []"
  by (auto simp: revoke_def bind_row request_answer row_of_def split: if_splits option.splits)

lemma provision_has_key: "provision V u i s = (Inr k, t) \<Longrightarrow> key_hash (row_of (current t) u) \<noteq> []"
proof (cases "key_encrypted (row_of (current s) u) \<noteq> [] \<and> key_hash (row_of (current s) u) \<noteq> []")
  case True
  assume "provision V u i s = (Inr k, t)"
  with True key_row [of "current s" u] show ?thesis by (auto simp: provision_def bind_row split: if_splits option.splits)
next
  case False
  assume "provision V u i s = (Inr k, t)"
  with False show ?thesis
    by (auto simp: provision_def bind_row request_answer provisioned_def split: if_splits)
qed

lemma provision_key_result:
  assumes "provision_key V u inc s = (Inr (), t)"
  shows "key_hash (row_of (current t) u) = [] \<longleftrightarrow> inc = None" and "only_credit u s t"
proof -
  have "key_hash (row_of (current t) u) = [] \<longleftrightarrow> inc = None"
    using assms by (auto simp: provision_key_def bind_s_def done_with_def split: option.splits prod.splits sum.splits
        dest: revoke_key provision_has_key)
  moreover have "only_credit u s (snd (revoke V u s))" "only_credit u s (snd (provision V u i s))" for i
    using framed_ops(6) [of u V] framed_ops(7) [of u V i] unfolding framed_def by blast+
  then have "only_credit u s t"
    using assms by (auto simp: provision_key_def bind_s_def done_with_def split: option.splits prod.splits sum.splits) (metis snd_conv)+
  ultimately show "key_hash (row_of (current t) u) = [] \<longleftrightarrow> inc = None" and "only_credit u s t" by simp_all
qed

text \<open>The row that a fresh event starts from.\<close>

definition touched :: "int \<Rightarrow> subscription \<Rightarrow> subscription" where
  "touched created r = (if created = 0 then r else r\<lparr>last_event_created := created, checkout_pending_at := None\<rparr>)"

lemma sync_fresh:
  assumes "find_by_customer (current s) (o_customer ob) = Some (u, r)" and "created = 0 \<or> last_event_created r \<le> created"
  shows "sync_subscription V S d created ob s = write_subscription V S d ob u (touched created r) s"
  using assms by (auto simp: sync_subscription_def touched_def)

lemma write_torn_down:
  assumes "write_subscription V S True ob u r s = (Inr (), t)"
  shows "map_of (subscriptions (current t)) u = Some (torn_down r)" and "key_hash (row_of (current t) u) = []"
proof -
  obtain b where b: "revoke V u (put_subscription u (torn_down r) s) = (Inr b, t)"
    using assms by (auto simp: write_subscription_def bind_s_def done_with_def split: prod.splits sum.splits)
  have "only_credit u (put_subscription u (torn_down r) s) t"
    using framed_ops(6) [of u V] b unfolding framed_def by (metis snd_conv)
  then show "map_of (subscriptions (current t)) u = Some (torn_down r)" by (simp add: only_credit_def)
  show "key_hash (row_of (current t) u) = []" by (rule revoke_key [OF b])
qed

lemma write_described:
  assumes "write_subscription V S False ob u r s = (Inr (), t)"
  shows "map_of (subscriptions (current t)) u = Some (described S ob r)"
    and "status (described S ob r) \<in> set live_statuses \<Longrightarrow>
      (key_hash (row_of (current t) u) = [] \<longleftrightarrow> included_credit_for (subscription_plan S (described S ob r)) = None)"
proof -
  let ?r = "described S ob r"
  have "(status ?r \<in> set live_statuses \<and> provision_key V u (included_credit_for (subscription_plan S ?r)) (put_subscription u ?r s) = (Inr (), t)) \<or>
    (status ?r \<notin> set live_statuses \<and> t = put_subscription u ?r s)"
    using assms by (auto simp: write_subscription_def Let_def split: if_splits)
  then have "map_of (subscriptions (current t)) u = Some ?r \<and> (status ?r \<in> set live_statuses \<longrightarrow>
      (key_hash (row_of (current t) u) = [] \<longleftrightarrow> included_credit_for (subscription_plan S ?r) = None))"
    using provision_key_result [of V u _ "put_subscription u ?r s" t] by (auto simp: only_credit_def)
  then show "map_of (subscriptions (current t)) u = Some ?r"
    and "status ?r \<in> set live_statuses \<Longrightarrow>
      (key_hash (row_of (current t) u) = [] \<longleftrightarrow> included_credit_for (subscription_plan S ?r) = None)" by auto
qed

text \<open>
  An event that is older than the last one applied to its customer's row changes nothing but the
  record of deliveries, and calls nobody.
\<close>

theorem stale_event_dropped:
  assumes "subscription_event ev" and "find_by_customer (current s) (o_customer (ev_obj ev)) = Some (u, r)"
    and "ev_created ev \<noteq> 0" and "ev_created ev < last_event_created r" and "handle_event V S ev s = (Inr True, t)"
  shows "committed t = (current s)\<lparr>events := events (current s) @ [ev_id ev]\<rparr> \<and> calls t = calls s"
proof -
  obtain s2 where w: "event_work V S ev (with_event (ev_id ev) s) = (Inr (), s2)" "t = commit s2"
    by (rule handled_once [OF assms(5)])
  have "find_by_customer (current (with_event (ev_id ev) s)) (o_customer (ev_obj ev)) = Some (u, r)"
    using assms(2) by (simp only: find_with_event)
  with w(1) assms(1,3,4) have "s2 = with_event (ev_id ev) s"
    by (simp add: subscription_work sync_subscription_def)
  then show ?thesis by (simp add: w(2) with_event_def)
qed

lemma fresh_work:
  assumes "subscription_event ev" and "find_by_customer (current s) (o_customer (ev_obj ev)) = Some (u, r)"
    and "ev_created ev = 0 \<or> last_event_created r \<le> ev_created ev" and "handle_event V S ev s = (Inr True, t)"
  obtains s2 where "write_subscription V S (ev_type ev = ''customer.subscription.deleted'') (ev_obj ev) u
      (touched (ev_created ev) r) (with_event (ev_id ev) s) = (Inr (), s2)" "t = commit s2"
proof -
  obtain s2 where w: "event_work V S ev (with_event (ev_id ev) s) = (Inr (), s2)" "t = commit s2"
    by (rule handled_once [OF assms(4)])
  have "find_by_customer (current (with_event (ev_id ev) s)) (o_customer (ev_obj ev)) = Some (u, r)"
    using assms(2) by (simp only: find_with_event)
  with w(1) assms(1,3) have "write_subscription V S (ev_type ev = ''customer.subscription.deleted'') (ev_obj ev) u
      (touched (ev_created ev) r) (with_event (ev_id ev) s) = (Inr (), s2)"
    by (simp add: subscription_work sync_fresh)
  with w(2) that show thesis by blast
qed


text \<open>
  C40. The deletion of any subscription of a customer, also of one that the row does not show, tears
  down the account: its row is cancelled and without a plan, and its key is gone.
\<close>

theorem any_deletion_tears_down:
  assumes "ev_type ev = ''customer.subscription.deleted''"
    and "find_by_customer (current s) (o_customer (ev_obj ev)) = Some (u, r)" and "o_id (ev_obj ev) \<noteq> subscription_id r"
    and "ev_created ev = 0 \<or> last_event_created r \<le> ev_created ev" and "handle_event V S ev s = (Inr True, t)"
  shows "\<exists>r'. map_of (subscriptions (committed t)) u = Some r' \<and> status r' = ''canceled'' \<and> plan_id r' = ''free'' \<and>
    subscription_id r' = [] \<and> key_hash (row_of (committed t) u) = []"
proof -
  have "subscription_event ev" using assms(1) by (simp add: subscription_event_def)
  from fresh_work [OF this assms(2,4,5)] assms(1) obtain s2 where
    w: "write_subscription V S True (ev_obj ev) u (touched (ev_created ev) r) (with_event (ev_id ev) s) = (Inr (), s2)" "t = commit s2"
    by auto
  from write_torn_down [OF w(1)] show ?thesis by (simp add: w(2) torn_down_def)
qed

lemma find_after_set:
  "od_ok d \<Longrightarrow> List.find (\<lambda>(u, r). P r) d = Some (u, r) \<Longrightarrow> P r' \<Longrightarrow> List.find (\<lambda>(u, r). P r) (od_set u r' d) = Some (u, r')"
proof (induction d)
  case (Cons e d)
  obtain v q where e: "e = (v, q)" by (cases e)
  show ?case
  proof (cases "P q")
    case True
    with Cons.prems e show ?thesis by (simp add: od_set_def)
  next
    case False
    with Cons.prems e have f: "List.find (\<lambda>(u, r). P r) d = Some (u, r)" by simp
    then obtain i where "i < length d" "d ! i = (u, r)" by (auto simp: find_Some_iff)
    then have "(u, r) \<in> set d" by (metis nth_mem)
    then have "u \<in> set (od_keys d)" by (force simp: od_keys_def)
    with Cons.prems(1) e have "v \<noteq> u" "od_ok d" by (auto simp: od_ok_def)
    with Cons.IH f Cons.prems(3) e False show ?thesis by (simp add: od_set_def)
  qed
qed simp

text \<open>
  Stripe's timestamps are whole seconds, and an event of the same second is not stale: an update
  that is delivered after the deletion of that second makes the cancelled account live again, with a
  new key.
\<close>

theorem same_second_resurrects:
  assumes "ev_type gone = ''customer.subscription.deleted''" and "ev_type late = ''customer.subscription.updated''"
    and "ev_created late = ev_created gone" and "ev_created gone \<noteq> 0" and "o_customer (ev_obj late) = o_customer (ev_obj gone)"
    and "od_ok (subscriptions (current s))" and "find_by_customer (current s) (o_customer (ev_obj gone)) = Some (u, r)"
    and "last_event_created r \<le> ev_created gone"
    and "handle_event V S gone s = (Inr True, s1)" and "handle_event V S late s1 = (Inr True, t)"
    and "o_status (ev_obj late) = ''active''" and "resolve_plan_id S (ev_obj late) = Some ''base''" and "find_plan S ''base'' \<noteq> None"
  shows "key_hash (row_of (committed s1) u) = []" and "key_hash (row_of (committed t) u) \<noteq> []"
    and "\<exists>r'. map_of (subscriptions (committed t)) u = Some r' \<and> status r' = ''active'' \<and> plan_id r' = ''base''"
proof -
  have ev: "subscription_event gone" "subscription_event late" using assms(1,2) by (simp_all add: subscription_event_def)
  have ns: "ev_created gone = 0 \<or> last_event_created r \<le> ev_created gone" using assms(8) ..
  obtain s2 where w: "write_subscription V S True (ev_obj gone) u (touched (ev_created gone) r) (with_event (ev_id gone) s) = (Inr (), s2)" "s1 = commit s2"
    using fresh_work [OF ev(1) assms(7) ns assms(9)] assms(1) by auto
  define r1 where "r1 = torn_down (touched (ev_created gone) r)"
  from write_torn_down [OF w(1)] show dead: "key_hash (row_of (committed s1) u) = []" by (simp add: w(2))
  obtain b where "revoke V u (put_subscription u r1 (with_event (ev_id gone) s)) = (Inr b, s2)"
    using w(1) by (auto simp: write_subscription_def r1_def bind_s_def done_with_def split: prod.splits sum.splits)
  then have "only_credit u (put_subscription u r1 (with_event (ev_id gone) s)) s2"
    using framed_ops(6) [of u V] unfolding framed_def by (metis snd_conv)
  then have subs: "subscriptions (current s1) = od_set u r1 (subscriptions (current s))"
    by (simp add: only_credit_def w(2) put_subscription_def)
  have "customer_id r = o_customer (ev_obj gone)" "o_customer (ev_obj gone) \<noteq> []"
    using assms(7) by (auto simp: find_by_customer_def find_Some_iff split: if_splits)
  then have "find_by_customer (current s1) (o_customer (ev_obj late)) = Some (u, r1)"
    using assms(5-7) find_after_set [of "subscriptions (current s)" "\<lambda>q. customer_id q = o_customer (ev_obj gone)" u r r1]
    by (simp add: find_by_customer_def subs r1_def torn_down_def touched_def)
  moreover have "ev_created late = 0 \<or> last_event_created r1 \<le> ev_created late"
    using assms(3,4) by (simp add: r1_def torn_down_def touched_def)
  ultimately obtain t2 where t2: "write_subscription V S False (ev_obj late) u (touched (ev_created late) r1) (with_event (ev_id late) s1) = (Inr (), t2)" "t = commit t2"
    using fresh_work [OF ev(2) _ _ assms(10)] assms(2) by auto
  let ?r = "described S (ev_obj late) (touched (ev_created late) r1)"
  have live: "status ?r = ''active''" "plan_id ?r = ''base''"
    using assms(11,12) by (simp_all add: described_def or_else_def Let_def split: prod.split)
  obtain p where "find_plan S ''base'' = Some p" "p_id p = ''base''"
    using assms(13) by (auto simp: find_plan_def find_Some_iff)
  then have "included_credit_for (subscription_plan S ?r) \<noteq> None"
    using live(2) by (simp add: included_credit_for_def subscription_plan_def included_credit_def)
  with write_described [OF t2(1)] live show "key_hash (row_of (committed t) u) \<noteq> []"
    and "\<exists>r'. map_of (subscriptions (committed t)) u = Some r' \<and> status r' = ''active'' \<and> plan_id r' = ''base''"
    by (auto simp: t2(2) live_statuses_def)
qed

lemma reconcile_one_frame:
  "reconcile_one S (u, r) (n, s) = (n', t) \<Longrightarrow> credits (current t) = credits (current s) \<and> calls t = calls s \<and>
    (\<forall>v. v \<noteq> u \<longrightarrow> map_of (subscriptions (current t)) v = map_of (subscriptions (current s)) v)"
  by (auto simp: reconcile_one_def Let_def split: remote_subscription.splits if_splits)

lemma reconcile_fold:
  "fold (reconcile_one S) rows (n, s) = (n', t) \<Longrightarrow> credits (current t) = credits (current s) \<and> calls t = calls s \<and>
    (\<forall>v. v \<notin> fst ` set rows \<longrightarrow> map_of (subscriptions (current t)) v = map_of (subscriptions (current s)) v)"
proof (induction rows arbitrary: n s)
  case (Cons row rows)
  obtain u r where row: "row = (u, r)" by (cases row)
  obtain n1 s1 where one: "reconcile_one S (u, r) (n, s) = (n1, s1)" by fastforce
  with Cons.prems have "fold (reconcile_one S) rows (n1, s1) = (n', t)" by (simp add: row)
  from Cons.IH [OF this] reconcile_one_frame [OF one] show ?case by (simp add: row)
qed simp

lemma reconcile_cancels:
  "fold (reconcile_one S) rows (n, s) = (n', t) \<Longrightarrow> distinct (map fst rows) \<Longrightarrow> (u, r) \<in> set rows \<Longrightarrow>
    remote_of S (subscription_id r) = Missing \<Longrightarrow> map_of (subscriptions (current t)) u = Some (r\<lparr>status := ''canceled''\<rparr>)"
proof (induction rows arbitrary: n s)
  case (Cons row rows)
  obtain n1 s1 where one: "reconcile_one S row (n, s) = (n1, s1)" by fastforce
  with Cons.prems have rest: "fold (reconcile_one S) rows (n1, s1) = (n', t)" by simp
  show ?case
  proof (cases "row = (u, r)")
    case True
    with Cons.prems(2) have "u \<notin> fst ` set rows" by simp
    with reconcile_fold [OF rest] have "map_of (subscriptions (current t)) u = map_of (subscriptions (current s1)) u" by blast
    moreover have "map_of (subscriptions (current s1)) u = Some (r\<lparr>status := ''canceled''\<rparr>)"
      using one Cons.prems(4) by (auto simp: True reconcile_one_def Let_def)
    ultimately show ?thesis by simp
  next
    case False
    with Cons.IH [OF rest] Cons.prems show ?thesis by simp
  qed
qed simp

text \<open>
  The reconciliation that finds a subscription gone at Stripe marks the row cancelled, and
  revokes nothing: the account's key and its ceiling stay as they were, and nobody is called.
\<close>

theorem sweep_keeps_keys:
  assumes "od_ok (subscriptions (current s))" and "reconcile S n s = (x, t)"
    and "(u, r) \<in> set (take n (filter (\<lambda>(u, r). subscription_id r \<noteq> []) (subscriptions (current s))))"
    and "remote_of S (subscription_id r) = Missing"
  shows "map_of (subscriptions (committed t)) u = Some (r\<lparr>status := ''canceled''\<rparr>)"
    and "credits (committed t) = credits (current s)" and "calls t = calls s"
proof -
  let ?rows = "take n (filter (\<lambda>(u, r). subscription_id r \<noteq> []) (subscriptions (current s)))"
  obtain m t' where f: "fold (reconcile_one S) ?rows (\<lparr>checked = 0, repaired = 0, orphaned = 0\<rparr>, s) = (m, t')" by fastforce
  then have t: "t = commit t'" using assms(2) by (simp add: reconcile_def)
  have "distinct (map fst (filter (\<lambda>(u, r). subscription_id r \<noteq> []) (subscriptions (current s))))"
    using od_ok_filter [OF assms(1), of "\<lambda>(u, r). subscription_id r \<noteq> []"] by (simp add: od_ok_def od_keys_def)
  then have "distinct (map fst ?rows)" by (simp add: take_map [symmetric] distinct_take)
  from reconcile_cancels [OF f this assms(3,4)] show "map_of (subscriptions (committed t)) u = Some (r\<lparr>status := ''canceled''\<rparr>)"
    by (simp add: t)
  from reconcile_fold [OF f] show "credits (committed t) = credits (current s)" and "calls t = calls s" by (simp_all add: t)
qed

section \<open>Examples\<close>

text \<open>An account with a key and a base subscription, and events about it.\<close>

definition blank_obj :: stripe_obj where
  "blank_obj = \<lparr>o_id = [], o_customer = [], o_reference = [], o_user = [], o_plan = [], o_mode = [], o_status = [],
     o_payment_status = [], o_charge = [], o_billing_reason = [], o_amount_total = 0, o_amount = 0, o_cancel = False,
     o_items = [], o_period_start = 0, o_period_end = 0, o_trial_end = 0\<rparr>"

definition sample_stripe :: stripe where
  "sample_stripe = \<lparr>plans = [\<lparr>p_id = ''base'', p_stripe_price = ''p1'', p_price = 199000000, p_active = True\<rparr>], env_price = (\<lambda>p. []),
     charge_of = (\<lambda>c. Inr ([], ''cu'')), session_of = (\<lambda>i. Inl StripeFailure), remote_of = (\<lambda>i. Missing),
     make_customer = (\<lambda>u. Inr ''cu''), make_session = (\<lambda>c p. Inr ''url''), clock_now = 0\<rparr>"

definition sample_sub :: subscription where
  "sample_sub = new_subscription\<lparr>plan_id := ''base'', customer_id := ''cu'', subscription_id := ''s1'', status := ''active'',
     last_event_created := 100\<rparr>"

definition sample_billing :: "subscription session" where
  "sample_billing = (let d = \<lparr>credits = [(''ann'', sample_row)], subscriptions = [(''ann'', sample_sub)], events = []\<rparr>
     in \<lparr>current = d, committed = d, calls = []\<rparr>)"

definition sample_event :: "string \<Rightarrow> string \<Rightarrow> int \<Rightarrow> stripe_obj \<Rightarrow> stripe_event" where
  "sample_event i ty c ob = \<lparr>ev_id = i, ev_type = ty, ev_created = c, ev_obj = ob\<rparr>"

definition top_up_event :: "string \<Rightarrow> stripe_event" where
  "top_up_event i = sample_event i ''checkout.session.completed'' 0
     (blank_obj\<lparr>o_id := ''cs_1'', o_user := ''ann'', o_mode := ''payment'', o_amount_total := 500\<rparr>)"

definition gone_event :: "int \<Rightarrow> string \<Rightarrow> stripe_event" where
  "gone_event c sub = sample_event ''e1'' ''customer.subscription.deleted'' c (blank_obj\<lparr>o_id := sub, o_customer := ''cu''\<rparr>)"

definition update_event :: "int \<Rightarrow> stripe_event" where
  "update_event c = sample_event ''e2'' ''customer.subscription.updated'' c (blank_obj\<lparr>o_id := ''s1'', o_customer := ''cu'',
     o_status := ''active'', o_items := [\<lparr>item_start = 0, item_end = 0, item_price = ''p1''\<rparr>]\<rparr>)"

lemma handles: "fst (handle_event V S ev s) = Inr True \<Longrightarrow> \<exists>t. handle_event V S ev s = (Inr True, t)"
  by (metis prod.collapse)

lemma sample_found: "find_by_customer (current sample_billing) ''cu'' = Some (''ann'', sample_sub)"
  by (simp add: find_by_customer_def sample_billing_def sample_sub_def Let_def)

lemma event_atomic_witness:
  "\<exists>x t. handle_event sample_vendor sample_stripe (top_up_event ''e1'') sample_billing = (x, t) \<and> current t = committed t"
proof -
  obtain x t where run: "handle_event sample_vendor sample_stripe (top_up_event ''e1'') sample_billing = (x, t)" by fastforce
  have "current sample_billing = committed sample_billing" by (simp add: sample_billing_def Let_def)
  from event_atomic [OF this run] run show ?thesis by blast
qed

lemma payment_credited_once_witness:
  "\<exists>t. handle_event sample_vendor sample_stripe (top_up_event ''e1'') sample_billing = (Inr True, t) \<and>
    credits (current (snd (handle_event sample_vendor sample_stripe (top_up_event ''e2'') t))) = credits (committed t)"
proof -
  have "fst (handle_event sample_vendor sample_stripe (top_up_event ''e1'') sample_billing) = Inr True" by code_simp
  from handles [OF this] obtain t where run: "handle_event sample_vendor sample_stripe (top_up_event ''e1'') sample_billing = (Inr True, t)" ..
  have clean: "current sample_billing = committed sample_billing" by (simp add: sample_billing_def Let_def)
  have paid: "is_top_up (top_up_event i)" for i
    by (simp add: is_top_up_def top_up_event_def sample_event_def blank_obj_def or_else_def)
  have same: "o_id (ev_obj (top_up_event ''e2'')) = o_id (ev_obj (top_up_event ''e1''))"
    by (simp add: top_up_event_def sample_event_def)
  from payment_credited_once [OF clean paid run _ paid same, of t "[]"] run show ?thesis by auto
qed

lemma stale_event_dropped_witness:
  "\<exists>t. handle_event sample_vendor sample_stripe (gone_event 99 ''s1'') sample_billing = (Inr True, t) \<and> calls t = []"
proof -
  have "fst (handle_event sample_vendor sample_stripe (gone_event 99 ''s1'') sample_billing) = Inr True" by code_simp
  from handles [OF this] obtain t where run: "handle_event sample_vendor sample_stripe (gone_event 99 ''s1'') sample_billing = (Inr True, t)" ..
  have "calls t = calls sample_billing"
    by (rule stale_event_dropped [where u = "''ann''" and r = sample_sub, OF _ _ _ _ run, THEN conjunct2])
       (simp_all add: subscription_event_def gone_event_def sample_event_def sample_found sample_sub_def blank_obj_def)
  with run show ?thesis by (simp add: sample_billing_def Let_def)
qed


lemma any_deletion_tears_down_witness:
  "\<exists>t r'. handle_event sample_vendor sample_stripe (gone_event 101 ''other'') sample_billing = (Inr True, t) \<and>
    map_of (subscriptions (committed t)) ''ann'' = Some r' \<and> status r' = ''canceled'' \<and> key_hash (row_of (committed t) ''ann'') = []"
proof -
  have "fst (handle_event sample_vendor sample_stripe (gone_event 101 ''other'') sample_billing) = Inr True" by code_simp
  from handles [OF this] obtain t where run: "handle_event sample_vendor sample_stripe (gone_event 101 ''other'') sample_billing = (Inr True, t)" ..
  have "find_by_customer (current sample_billing) (o_customer (ev_obj (gone_event 101 ''other''))) = Some (''ann'', sample_sub)"
    by (simp add: gone_event_def sample_event_def sample_found)
  from any_deletion_tears_down [OF _ this _ _ run] run show ?thesis
    by (auto simp: gone_event_def sample_event_def sample_sub_def)
qed

lemma same_second_resurrects_witness:
  "\<exists>s1 t. handle_event sample_vendor sample_stripe (gone_event 101 ''s1'') sample_billing = (Inr True, s1) \<and>
    handle_event sample_vendor sample_stripe (update_event 101) s1 = (Inr True, t) \<and>
    key_hash (row_of (committed s1) ''ann'') = [] \<and> key_hash (row_of (committed t) ''ann'') \<noteq> []"
proof -
  define s1 where "s1 = snd (handle_event sample_vendor sample_stripe (gone_event 101 ''s1'') sample_billing)"
  have "fst (handle_event sample_vendor sample_stripe (gone_event 101 ''s1'') sample_billing) = Inr True" by code_simp
  then have run: "handle_event sample_vendor sample_stripe (gone_event 101 ''s1'') sample_billing = (Inr True, s1)"
    by (simp add: s1_def prod_eq_iff)
  have "fst (handle_event sample_vendor sample_stripe (update_event 101) (snd (handle_event sample_vendor sample_stripe (gone_event 101 ''s1'') sample_billing))) = Inr True"
    by code_simp
  then obtain t where run2: "handle_event sample_vendor sample_stripe (update_event 101) s1 = (Inr True, t)"
    using handles unfolding s1_def [symmetric] by blast
  have facts: "ev_type (gone_event 101 ''s1'') = ''customer.subscription.deleted''" "ev_type (update_event 101) = ''customer.subscription.updated''"
    "ev_created (update_event 101) = ev_created (gone_event 101 ''s1'')" "ev_created (gone_event 101 ''s1'') \<noteq> 0"
    "o_customer (ev_obj (update_event 101)) = o_customer (ev_obj (gone_event 101 ''s1''))" "od_ok (subscriptions (current sample_billing))"
    "find_by_customer (current sample_billing) (o_customer (ev_obj (gone_event 101 ''s1''))) = Some (''ann'', sample_sub)"
    "last_event_created sample_sub \<le> ev_created (gone_event 101 ''s1'')"
    by (simp_all add: gone_event_def update_event_def sample_event_def sample_found sample_billing_def od_ok_def Let_def sample_sub_def)
       (simp add: find_by_customer_def sample_sub_def)
  have plan: "o_status (ev_obj (update_event 101)) = ''active''" "resolve_plan_id sample_stripe (ev_obj (update_event 101)) = Some ''base''"
    "find_plan sample_stripe ''base'' \<noteq> None"
    by (simp_all add: update_event_def sample_event_def resolve_plan_id_def sample_stripe_def or_else_def find_plan_def Let_def)
  from same_second_resurrects(1,2) [OF facts run run2 plan] run run2 show ?thesis by blast
qed

lemma sweep_keeps_keys_witness:
  "\<exists>x t. reconcile sample_stripe 100 sample_billing = (x, t) \<and> map_of (subscriptions (committed t)) ''ann'' = Some (sample_sub\<lparr>status := ''canceled''\<rparr>) \<and>
    key_hash (row_of (committed t) ''ann'') = ''h1''"
proof -
  obtain x t where run: "reconcile sample_stripe 100 sample_billing = (x, t)" by fastforce
  have subs: "subscriptions (current sample_billing) = [(''ann'', sample_sub)]" "credits (current sample_billing) = [(''ann'', sample_row)]"
    by (simp_all add: sample_billing_def Let_def)
  have "od_ok (subscriptions (current sample_billing))" by (simp add: subs od_ok_def)
  moreover have "(''ann'', sample_sub) \<in> set (take 100 (filter (\<lambda>(u, r). subscription_id r \<noteq> []) (subscriptions (current sample_billing))))"
    by (simp add: subs sample_sub_def)
  moreover have "remote_of sample_stripe (subscription_id sample_sub) = Missing" by (simp add: sample_stripe_def)
  ultimately show ?thesis
    using sweep_keeps_keys [OF _ run] run by (auto simp: subs row_of_def sample_row_def)
qed

end
