(* ===== verification/Entitlements.thy ===== *)
theory Entitlements
  imports PyValue Billing
begin

text \<open>
  \<^verbatim>\<open>services/plan_catalogue.py\<close>, \<^verbatim>\<open>services/entitlement_service.py\<close> and the registry of
  \<^verbatim>\<open>entitlements/__init__.py\<close>: the paid tiers, what an account may do, and how a quota is enforced
  while several requests of one owner run. In every limit 0 means unlimited. Floats are the rationals
  they stand for.
\<close>

section \<open>The catalogue\<close>

record tier =
  tier_id :: string
  tier_name :: string
  tier_price :: int
  daily_cost :: rat
  monthly_cost :: rat
  daily_tokens :: int
  monthly_tokens :: int
  max_connections :: int
  max_projects :: int
  max_index_bytes :: int
  tier_seats :: int
  trial_days :: int
  tier_active :: bool
  sort_order :: int

definition gigabyte :: int where
  "gigabyte = 1024 ^ 3"

definition bytes_per_symbol :: int where "bytes_per_symbol = 400"
definition bytes_per_edge :: int where "bytes_per_edge = 150"
definition bytes_per_embedding :: int where "bytes_per_embedding = 384 * 4"

definition promised_credit :: "(string \<times> rat) list" where
  "promised_credit = [(''base'', 30), (''scale'', 90), (''team'', 150)]"

definition promised :: "string \<Rightarrow> rat" where
  "promised i = the (map_of promised_credit i)"

definition blended_usd_per_million :: rat where
  "blended_usd_per_million = 1 / 4"

definition unpriced_usd_per_million :: rat where
  "unpriced_usd_per_million = fl (185 / 100)"

definition price_unpriced_tokens :: "int \<Rightarrow> rat" where
  "price_unpriced_tokens n = (if n \<le> 0 then 0 else fl (fl (of_int n / 1000000) * unpriced_usd_per_million))"

text \<open>\<^verbatim>\<open>round(x, 2)\<close> and \<^verbatim>\<open>round(x, -5)\<close>.\<close>

definition round_2 :: "rat \<Rightarrow> rat" where
  "round_2 x = fl (of_int (round_even (x * 100)) / 100)"

definition round_100000 :: "rat \<Rightarrow> rat" where
  "round_100000 x = fl (of_int (round_even (x / 100000) * 100000))"

definition cost_ceilings :: "rat \<Rightarrow> rat \<times> rat" where
  "cost_ceilings usd = (round_2 (fl (usd / 3)), usd)"

definition token_ceilings :: "rat \<Rightarrow> int \<times> int" where
  "token_ceilings usd =
     (let monthly = round_100000 (fl (fl (usd / blended_usd_per_million) * 1000000))
      in (\<lfloor>round_100000 (fl (monthly / 3))\<rfloor>, \<lfloor>monthly\<rfloor>))"

definition estimate_index_bytes :: "int \<Rightarrow> int \<Rightarrow> int \<Rightarrow> int \<Rightarrow> int" where
  "estimate_index_bytes docs symbols edges embeddings =
     max 0 docs + max 0 symbols * bytes_per_symbol + max 0 edges * bytes_per_edge + max 0 embeddings * bytes_per_embedding"

definition paid_tier :: "string \<Rightarrow> string \<Rightarrow> int \<Rightarrow> int \<Rightarrow> int \<Rightarrow> int \<Rightarrow> int \<Rightarrow> int \<Rightarrow> tier" where
  "paid_tier i n price conns projs gb seats ord =
     (let (dc, mc) = cost_ceilings (promised i); (dt, mt) = token_ceilings (promised i)
      in \<lparr>tier_id = i, tier_name = n, tier_price = price, daily_cost = dc, monthly_cost = mc,
          daily_tokens = dt, monthly_tokens = mt, max_connections = conns, max_projects = projs,
          max_index_bytes = gb * gigabyte, tier_seats = seats, trial_days = 14, tier_active = True, sort_order = ord\<rparr>)"

definition enterprise_tier :: tier where
  "enterprise_tier = \<lparr>tier_id = ''enterprise'', tier_name = ''Enterprise'', tier_price = 1500, daily_cost = 0, monthly_cost = 0,
     daily_tokens = 0, monthly_tokens = 0, max_connections = 0, max_projects = 0, max_index_bytes = 0, tier_seats = 0,
     trial_days = 14, tier_active = True, sort_order = 40\<rparr>"

definition paid_tiers :: "tier list" where
  "paid_tiers = [paid_tier ''base'' ''Base'' 199 5 1 1 5 10, paid_tier ''scale'' ''Scale'' 599 15 3 2 20 20,
     paid_tier ''team'' ''Team'' 900 50 10 5 50 30, enterprise_tier]"

definition retired_tier_ids :: "string list" where
  "retired_tier_ids = [''free'', ''pro'']"

section \<open>What an account may do\<close>

record entitlements =
  plan_name :: string
  ent_plan :: string
  ent_status :: string
  lim_daily_tokens :: int
  lim_monthly_tokens :: int
  lim_connections :: int
  lim_projects :: int
  ent_seats :: int
  lim_index_bytes :: int
  lim_daily_cost :: rat
  lim_monthly_cost :: rat
  ent_cancels :: bool
  ent_period_end :: "int option"

record limits_config =
  billing_enabled :: bool
  user_daily_token_limit :: int
  user_monthly_token_limit :: int

definition active_statuses :: "string list" where
  "active_statuses = [''active'', ''trialing'']"

definition grace_statuses :: "string list" where
  "grace_statuses = [''past_due'']"

definition no_plan_id :: string where
  "no_plan_id = ''none''"

definition no_plan :: "string \<Rightarrow> bool \<Rightarrow> int option \<Rightarrow> entitlements" where
  "no_plan st cancels per_end = \<lparr>plan_name = ''No plan'', ent_plan = no_plan_id, ent_status = st, lim_daily_tokens = 0,
     lim_monthly_tokens = 0, lim_connections = 0, lim_projects = 0, ent_seats = 1, lim_index_bytes = 0,
     lim_daily_cost = 0, lim_monthly_cost = 0, ent_cancels = cancels, ent_period_end = per_end\<rparr>"

definition of_tier :: "tier \<Rightarrow> subscription \<Rightarrow> entitlements" where
  "of_tier p sub = \<lparr>plan_name = tier_name p, ent_plan = tier_id p, ent_status = status sub, lim_daily_tokens = daily_tokens p,
     lim_monthly_tokens = monthly_tokens p, lim_connections = max_connections p, lim_projects = max_projects p,
     ent_seats = tier_seats p, lim_index_bytes = max_index_bytes p, lim_daily_cost = daily_cost p,
     lim_monthly_cost = monthly_cost p, ent_cancels = cancel_at_period_end sub, ent_period_end = current_period_end sub\<rparr>"

definition get_plan :: "tier list \<Rightarrow> string \<Rightarrow> tier option" where
  "get_plan ts i = List.find (\<lambda>p. tier_id p = i) ts"

definition get_entitlements :: "limits_config \<Rightarrow> tier list \<Rightarrow> subscription option \<Rightarrow> entitlements" where
  "get_entitlements cfg ts sub =
     (if \<not> billing_enabled cfg then no_plan ''none'' False None
      else case sub of None \<Rightarrow> no_plan ''none'' False None
      | Some r \<Rightarrow>
          if status r \<notin> set active_statuses \<and> status r \<notin> set grace_statuses
          then no_plan (status r) (cancel_at_period_end r) (current_period_end r)
          else case get_plan ts (plan_id r) of
                 None \<Rightarrow> no_plan (status r) (cancel_at_period_end r) (current_period_end r)
               | Some p \<Rightarrow> of_tier p r)"

definition strictest :: "int \<Rightarrow> int \<Rightarrow> int" where
  "strictest a b = (case filter (\<lambda>v. v > 0) [a, b] of [] \<Rightarrow> 0 | v # vs \<Rightarrow> Min (set (v # vs)))"

definition effective_token_limits :: "limits_config \<Rightarrow> entitlements \<Rightarrow> int \<times> int" where
  "effective_token_limits cfg e =
     (strictest (lim_daily_tokens e) (user_daily_token_limit cfg), strictest (lim_monthly_tokens e) (user_monthly_token_limit cfg))"

definition effective_cost_limits :: "entitlements \<Rightarrow> rat \<times> rat" where
  "effective_cost_limits e = (lim_daily_cost e, lim_monthly_cost e)"

definition plan_runs_scheduled :: "limits_config \<Rightarrow> tier list \<Rightarrow> subscription option \<Rightarrow> bool" where
  "plan_runs_scheduled cfg ts sub \<longleftrightarrow> \<not> billing_enabled cfg \<or> ent_plan (get_entitlements cfg ts sub) \<noteq> no_plan_id"

text \<open>\<^verbatim>\<open>QuotaExceededError\<close>: the resource, the limit and the count.\<close>

type_synonym quota_error = "string \<times> int \<times> int"

definition enforce_quota :: "string \<Rightarrow> int \<Rightarrow> int \<Rightarrow> quota_error option" where
  "enforce_quota resource limit now = (if limit = 0 then None else if now \<ge> limit then Some (resource, limit, now) else None)"

section \<open>The registry\<close>

text \<open>
  A provider may lack the newer questions, and its answer may be an exception. What it publishes are
  the attributes of its entitlements, each of which may be missing.
\<close>

record provider =
  asks_scheduled :: "(string \<Rightarrow> bool option) option"
  publishes :: "(string \<Rightarrow> (int option \<times> int option) option) option"

definition unlimited :: provider where
  "unlimited = \<lparr>asks_scheduled = Some (\<lambda>u. Some True), publishes = None\<rparr>"

definition installed :: "provider option \<Rightarrow> provider" where
  "installed slot = (case slot of None \<Rightarrow> unlimited | Some p \<Rightarrow> p)"

definition may_run_scheduled_work :: "provider option \<Rightarrow> string \<Rightarrow> bool" where
  "may_run_scheduled_work slot u = (case asks_scheduled (installed slot) of
     None \<Rightarrow> True | Some ask \<Rightarrow> (case ask u of None \<Rightarrow> True | Some b \<Rightarrow> b))"

definition published :: "(int option \<times> int option \<Rightarrow> int option) \<Rightarrow> provider option \<Rightarrow> string \<Rightarrow> int" where
  "published f slot u = (case publishes (installed slot) of
     None \<Rightarrow> 0 | Some ask \<Rightarrow> (case ask u of None \<Rightarrow> 0 | Some r \<Rightarrow> (case f r of None \<Rightarrow> 0 | Some n \<Rightarrow> n)))"

definition index_quota_bytes :: "provider option \<Rightarrow> string \<Rightarrow> int" where
  "index_quota_bytes = published fst"

definition seat_limit :: "provider option \<Rightarrow> string \<Rightarrow> int" where
  "seat_limit = published snd"

text \<open>The provider that the cloud image registers: the service above on the database.\<close>

definition billing_provider :: "limits_config \<Rightarrow> tier list \<Rightarrow> (string \<Rightarrow> subscription option) \<Rightarrow> provider" where
  "billing_provider cfg ts sub = \<lparr>asks_scheduled = Some (\<lambda>u. Some (plan_runs_scheduled cfg ts (sub u))),
     publishes = Some (\<lambda>u. let e = get_entitlements cfg ts (sub u) in Some (Some (lim_index_bytes e), Some (ent_seats e)))\<rparr>"

section \<open>Quotas under concurrency\<close>

text \<open>
  Requests of one owner that create a resource: each takes the owner's row lock (where the database
  has one), counts the committed rows, and inserts one if the count is below the limit; its commit
  releases the lock.
\<close>

record creation =
  rows :: nat
  holder :: "nat option"
  counted :: "nat \<Rightarrow> bool"

inductive creating :: "bool \<Rightarrow> int \<Rightarrow> creation \<Rightarrow> creation \<Rightarrow> bool" for locks limit where
  lock_owner: "locks \<Longrightarrow> holder s = None \<Longrightarrow> creating locks limit s (s\<lparr>holder := Some p\<rparr>)"
| count_rows: "locks \<longrightarrow> holder s = Some p \<Longrightarrow> enforce_quota resource limit (int (rows s)) = None \<Longrightarrow>
    creating locks limit s (s\<lparr>counted := (counted s)(p := True)\<rparr>)"
| refuse: "holder s = Some p \<Longrightarrow> enforce_quota resource limit (int (rows s)) \<noteq> None \<Longrightarrow> \<not> counted s p \<Longrightarrow>
    creating locks limit s (s\<lparr>holder := None\<rparr>)"
| insert_row: "counted s p \<Longrightarrow>
    creating locks limit s (s\<lparr>rows := Suc (rows s), counted := (counted s)(p := False),
      holder := if holder s = Some p then None else holder s\<rparr>)"

definition idle :: "nat \<Rightarrow> creation" where
  "idle n = \<lparr>rows = n, holder = None, counted = (\<lambda>p. False)\<rparr>"

inductive_cases creatingE: "creating locks limit s t"

section \<open>Properties\<close>

lemma fl_numeral: "numeral n < (2 ^ 53 :: int) \<Longrightarrow> fl (numeral n) = numeral n"
  using fl_int [of "numeral n"] by simp

lemma round_even_numeral: "round_even (numeral n) = numeral n"
  using round_even_int [of "numeral n"] by simp

lemmas ceiling_simps = cost_ceilings_def round_2_def token_ceilings_def blended_usd_per_million_def round_100000_def
  Let_def fl_numeral round_even_numeral

text \<open>
  The ladder sells what it says: the dollar ceiling of a month is the promised credit, the token
  ceiling is that credit at the blended rate, and a day is a third of a month.
\<close>

lemma ladder: "map (\<lambda>t. (daily_cost t, monthly_cost t, daily_tokens t, monthly_tokens t)) paid_tiers =
  [(10, 30, 40000000, 120000000), (30, 90, 120000000, 360000000), (50, 150, 200000000, 600000000), (0, 0, 0, 0)]"
  by (simp add: paid_tiers_def paid_tier_def enterprise_tier_def promised_def promised_credit_def ceiling_simps)

theorem ladder_keeps_promises:
  "list_all (\<lambda>t. (case map_of promised_credit (tier_id t) of
      None \<Rightarrow> monthly_cost t = 0 \<and> monthly_tokens t = 0
    | Some usd \<Rightarrow> monthly_cost t = usd \<and> of_int (monthly_tokens t) * blended_usd_per_million = usd * 1000000)
    \<and> 3 * daily_cost t = monthly_cost t \<and> 3 * daily_tokens t = monthly_tokens t) paid_tiers"
  by (simp add: paid_tiers_def paid_tier_def enterprise_tier_def promised_def promised_credit_def ceiling_simps)

text \<open>Whoever has counted holds the lock, and there is still room.\<close>

definition serial :: "int \<Rightarrow> int \<Rightarrow> creation \<Rightarrow> bool" where
  "serial limit m s \<longleftrightarrow> (\<forall>p. counted s p \<longrightarrow> holder s = Some p \<and> int (rows s) < limit) \<and> int (rows s) \<le> m"

lemma serial_step: "creating True limit s t \<Longrightarrow> serial limit m s \<Longrightarrow> limit \<noteq> 0 \<Longrightarrow> limit \<le> m \<Longrightarrow> serial limit m t"
proof (induction rule: creating.induct)
  case (insert_row s p)
  then have h: "holder s = Some p" "int (rows s) < limit" by (auto simp: serial_def)
  have "q = p" if "counted s q" for q
    using that insert_row.prems(1) h(1) unfolding serial_def by (metis option.inject)
  with insert_row.prems h show ?case by (auto simp: serial_def)
qed (auto simp: serial_def enforce_quota_def split: if_splits)

text \<open>
  With the lock, the requests that create resources never take an owner past the limit (or past
  what the owner had before), however they interleave.
\<close>

theorem quota_kept:
  assumes "(creating True limit)\<^sup>*\<^sup>* (idle n) t" and "limit \<noteq> 0"
  shows "int (rows t) \<le> max (int n) limit"
proof -
  have "serial limit (max (int n) limit) t"
    using assms
  proof (induction rule: rtranclp_induct)
    case (step y z)
    then show ?case by (intro serial_step [of limit y z]) simp_all
  qed (simp add: serial_def idle_def)
  then show ?thesis by (simp add: serial_def)
qed

text \<open>Without the lock two requests that find one place left both take it.\<close>

theorem quota_race:
  assumes "int n + 1 = limit"
  shows "\<exists>t. (creating False limit)\<^sup>*\<^sup>* (idle n) t \<and> int (rows t) = limit + 1"
proof -
  have pass: "enforce_quota r limit (int n) = None" for r using assms by (simp add: enforce_quota_def)
  let ?a = "(idle n)\<lparr>counted := (\<lambda>p. False)(0 := True)\<rparr>"
  let ?b = "(idle n)\<lparr>counted := (\<lambda>p. False)(0 := True, 1 := True)\<rparr>"
  let ?c = "(idle n)\<lparr>rows := Suc n, counted := (\<lambda>p. False)(1 := True)\<rparr>"
  let ?d = "(idle n)\<lparr>rows := Suc (Suc n)\<rparr>"
  have "creating False limit (idle n) ?a"
    using creating.count_rows [of False "idle n" 0 _ limit] pass by (simp add: idle_def)
  moreover have "creating False limit ?a ?b"
    using creating.count_rows [of False ?a 1 _ limit] pass by (simp add: idle_def)
  moreover have "creating False limit ?b ?c"
    using creating.insert_row [of ?b 0 False limit] by (simp add: idle_def fun_upd_twist fun_upd_idem)
  moreover have "creating False limit ?c ?d"
    using creating.insert_row [of ?c 1 False limit] by (simp add: idle_def fun_upd_idem)
  ultimately have "(creating False limit)\<^sup>*\<^sup>* (idle n) ?d" by (meson converse_rtranclp_into_rtranclp rtranclp.rtrancl_refl)
  then show ?thesis using assms by (intro exI [of _ ?d]) simp
qed

lemma strictest_alt: "strictest a b = (if a > 0 then if b > 0 then min a b else a else max 0 b)"
  by (simp add: strictest_def)

definition live :: "subscription \<Rightarrow> bool" where
  "live r \<longleftrightarrow> status r \<in> {''active'', ''trialing'', ''past_due''}"

definition plan_of :: "limits_config \<Rightarrow> tier list \<Rightarrow> subscription option \<Rightarrow> tier option" where
  "plan_of cfg ts sub = (case sub of None \<Rightarrow> None
     | Some r \<Rightarrow> if billing_enabled cfg \<and> live r then get_plan ts (plan_id r) else None)"

lemma entitlements_cases:
  "get_entitlements cfg ts sub = (case plan_of cfg ts sub of
     Some p \<Rightarrow> of_tier p (the sub) | None \<Rightarrow> no_plan (ent_status (get_entitlements cfg ts sub))
       (ent_cancels (get_entitlements cfg ts sub)) (ent_period_end (get_entitlements cfg ts sub)))"
  by (auto simp: get_entitlements_def plan_of_def live_def active_statuses_def grace_statuses_def no_plan_def split: option.split)

text \<open>
  Unattended work runs for an account, as the cloud image answers it, exactly when billing is off or
  a catalogue plan stands behind a live subscription; without such a plan every limit but the single
  seat is gone.
\<close>

theorem no_plan_no_schedule:
  assumes "get_plan ts no_plan_id = None"
  shows "(may_run_scheduled_work (Some (billing_provider cfg ts subs)) u \<longleftrightarrow>
      \<not> billing_enabled cfg \<or> plan_of cfg ts (subs u) \<noteq> None) \<and>
    (plan_of cfg ts (subs u) = None \<longrightarrow> enforce_quota r (lim_connections (get_entitlements cfg ts (subs u))) n = None \<and>
      enforce_quota r (lim_projects (get_entitlements cfg ts (subs u))) n = None \<and>
      seat_limit (Some (billing_provider cfg ts subs)) u = 1)"
proof (intro conjI impI)
  have named: "tier_id p \<noteq> no_plan_id" if "get_plan ts i = Some p" for i p
    using that assms by (auto simp: get_plan_def find_Some_iff find_None_iff)
  then have "ent_plan (get_entitlements cfg ts (subs u)) \<noteq> no_plan_id \<longleftrightarrow> plan_of cfg ts (subs u) \<noteq> None"
    by (subst entitlements_cases) (auto simp: of_tier_def no_plan_def plan_of_def split: option.splits if_splits)
  then show "may_run_scheduled_work (Some (billing_provider cfg ts subs)) u \<longleftrightarrow> \<not> billing_enabled cfg \<or> plan_of cfg ts (subs u) \<noteq> None"
    by (simp add: may_run_scheduled_work_def installed_def billing_provider_def plan_runs_scheduled_def)
next
  assume none: "plan_of cfg ts (subs u) = None"
  define e where "e = get_entitlements cfg ts (subs u)"
  have "e = no_plan (ent_status e) (ent_cancels e) (ent_period_end e)"
    unfolding e_def using entitlements_cases [of cfg ts "subs u"] none by simp
  then have e: "lim_connections e = 0" "lim_projects e = 0" "ent_seats e = 1"
    by (metis no_plan_def entitlements.select_convs)+
  from e show "enforce_quota r (lim_connections (get_entitlements cfg ts (subs u))) n = None"
    and "enforce_quota r (lim_projects (get_entitlements cfg ts (subs u))) n = None"
    and "seat_limit (Some (billing_provider cfg ts subs)) u = 1"
    unfolding e_def by (simp_all add: enforce_quota_def seat_limit_def published_def installed_def billing_provider_def Let_def)
qed

section \<open>Examples\<close>

lemma quota_kept_witness: "int (rows (idle 3)) \<le> max (int 3) 5"
  by (rule quota_kept [of 5 3 "idle 3"]) simp_all

lemma quota_race_witness: "\<exists>t. (creating False 5)\<^sup>*\<^sup>* (idle 4) t \<and> rows t = 6"
  using quota_race [of 4 5] by auto

lemma no_plan_no_schedule_witness:
  "\<not> may_run_scheduled_work (Some (billing_provider \<lparr>billing_enabled = True, user_daily_token_limit = 0, user_monthly_token_limit = 0\<rparr>
      [enterprise_tier] (\<lambda>u. None))) ''ann''"
proof -
  have "get_plan [enterprise_tier] no_plan_id = None" by (simp add: get_plan_def enterprise_tier_def no_plan_id_def)
  from no_plan_no_schedule [OF this] show ?thesis by (simp add: plan_of_def)
qed

end
