(* ===== verification/Spending.thy ===== *)
theory Spending
  imports Entitlements
begin

text \<open>
  \<^verbatim>\<open>services/usage_service.py\<close> with the rows of \<^verbatim>\<open>models/token_usage.py\<close>, and the recording sink of
  \<^verbatim>\<open>llm/usage_sink.py\<close>: what model calls cost an account, and when it is refused. Times are whole
  microseconds since the epoch, in UTC; the cost of a row is in whole millionths of a dollar (the
  column holds six decimals), or missing where no price was known.
\<close>

section \<open>The ledger\<close>

record usage_row =
  row_user :: string
  row_project :: string
  row_session :: "string option"
  row_message :: "string option"
  row_provider :: string
  row_model :: string
  row_prompt :: int
  row_completion :: int
  row_total :: int
  row_cost :: "int option"
  row_at :: int

definition record_usage :: "usage_row \<Rightarrow> usage_row list \<Rightarrow> usage_row list" where
  "record_usage r ledger = ledger @ [if row_total r = 0 then r\<lparr>row_total := row_prompt r + row_completion r\<rparr> else r]"

definition day_length :: int where
  "day_length = 24 * 60 * 60 * 1000000"

definition day_start :: "int \<Rightarrow> int" where
  "day_start now = now div day_length * day_length"

text \<open>The day of the month of a day counted from 1970-01-01, in the proleptic Gregorian calendar.\<close>

definition day_of_month :: "int \<Rightarrow> int" where
  "day_of_month d =
     (let z = d + 719468; doe = z mod 146097;
          yoe = (doe - doe div 1460 + doe div 36524 - doe div 146096) div 365;
          doy = doe - (365 * yoe + yoe div 4 - yoe div 100);
          mp = (5 * doy + 2) div 153
      in doy - (153 * mp + 2) div 5 + 1)"

definition month_start :: "int \<Rightarrow> int" where
  "month_start now = (now div day_length - (day_of_month (now div day_length) - 1)) * day_length"

record window_totals =
  w_daily_tokens :: int
  w_monthly_tokens :: int
  w_daily_cost :: rat
  w_monthly_cost :: rat
  w_daily_estimated :: rat
  w_monthly_estimated :: rat

definition sum_of :: "('a \<Rightarrow> int) \<Rightarrow> ('a \<Rightarrow> bool) \<Rightarrow> 'a list \<Rightarrow> int" where
  "sum_of f P xs = sum_list (map (\<lambda>x. if P x then f x else 0) xs)"

definition dollars :: "int \<Rightarrow> rat" where
  "dollars micros = fl (of_int micros / 1000000)"

definition cost_of :: "usage_row \<Rightarrow> int" where
  "cost_of r = (case row_cost r of None \<Rightarrow> 0 | Some c \<Rightarrow> c)"

definition in_window :: "string \<Rightarrow> int \<Rightarrow> usage_row \<Rightarrow> bool" where
  "in_window u start r \<longleftrightarrow> row_user r = u \<and> row_at r \<ge> start"

definition window_totals :: "string \<Rightarrow> int \<Rightarrow> int \<Rightarrow> usage_row list \<Rightarrow> window_totals" where
  "window_totals u dstart mstart ledger =
     (let rows = filter (in_window u mstart) ledger;
          in_day = (\<lambda>r. row_at r \<ge> dstart);
          priced = (\<lambda>r. row_cost r \<noteq> None);
          de = price_unpriced_tokens (sum_of row_total (\<lambda>r. in_day r \<and> \<not> priced r) rows);
          me = price_unpriced_tokens (sum_of row_total (\<lambda>r. \<not> priced r) rows)
      in \<lparr>w_daily_tokens = sum_of row_total in_day rows, w_monthly_tokens = sum_of row_total (\<lambda>r. True) rows,
          w_daily_cost = fl (dollars (sum_of cost_of (\<lambda>r. in_day r \<and> priced r) rows) + de),
          w_monthly_cost = fl (dollars (sum_of cost_of priced rows) + me),
          w_daily_estimated = de, w_monthly_estimated = me\<rparr>)"

section \<open>The gate\<close>

text \<open>The four ceilings: tokens by day and month, dollars by day and month.\<close>

type_synonym ceilings = "(int \<times> int) \<times> (rat \<times> rat)"

datatype breach = DailySpend rat rat | MonthlySpend rat rat | DailyTokens int int | MonthlyTokens int int

definition limit_or_none :: "'a::zero \<Rightarrow> 'a option" where
  "limit_or_none l = (if l = 0 then None else Some l)"

definition round_6 :: "rat \<Rightarrow> rat" where
  "round_6 x = fl (of_int (round_even (x * 1000000)) / 1000000)"

record budget_report =
  b_totals :: window_totals
  b_daily_limit :: "int option"
  b_monthly_limit :: "int option"
  b_daily_remaining :: "int option"
  b_monthly_remaining :: "int option"
  b_daily_cost_limit :: "rat option"
  b_monthly_cost_limit :: "rat option"
  b_daily_cost_remaining :: "rat option"
  b_monthly_cost_remaining :: "rat option"

definition check_budget :: "string \<Rightarrow> ceilings \<Rightarrow> int \<Rightarrow> usage_row list \<Rightarrow> breach + budget_report" where
  "check_budget u lims now ledger =
     (let ((dt, mt), (dc, mc)) = lims;
          w = window_totals u (day_start now) (month_start now) ledger
      in if dc \<noteq> 0 \<and> w_daily_cost w \<ge> dc then Inl (DailySpend (w_daily_cost w) dc)
         else if mc \<noteq> 0 \<and> w_monthly_cost w \<ge> mc then Inl (MonthlySpend (w_monthly_cost w) mc)
         else if dt \<noteq> 0 \<and> w_daily_tokens w \<ge> dt then Inl (DailyTokens (w_daily_tokens w) dt)
         else if mt \<noteq> 0 \<and> w_monthly_tokens w \<ge> mt then Inl (MonthlyTokens (w_monthly_tokens w) mt)
         else Inr \<lparr>b_totals = w\<lparr>w_daily_cost := round_6 (w_daily_cost w), w_monthly_cost := round_6 (w_monthly_cost w),
                w_daily_estimated := round_6 (w_daily_estimated w), w_monthly_estimated := round_6 (w_monthly_estimated w)\<rparr>,
              b_daily_limit = limit_or_none dt, b_monthly_limit = limit_or_none mt,
              b_daily_remaining = map_option (\<lambda>l. l - w_daily_tokens w) (limit_or_none dt),
              b_monthly_remaining = map_option (\<lambda>l. l - w_monthly_tokens w) (limit_or_none mt),
              b_daily_cost_limit = limit_or_none dc, b_monthly_cost_limit = limit_or_none mc,
              b_daily_cost_remaining = map_option (\<lambda>l. round_6 (fl (l - w_daily_cost w))) (limit_or_none dc),
              b_monthly_cost_remaining = map_option (\<lambda>l. round_6 (fl (l - w_monthly_cost w))) (limit_or_none mc)\<rparr>)"

text \<open>
  What the gate relies on: the settings, what the entitlement lookup answers (\<open>None\<close> when it raises),
  and whether the ledger can be read.
\<close>

record gate_env =
  limits_cfg :: limits_config
  lookup :: "string \<Rightarrow> entitlements option"
  readable :: bool
  estimate :: "string \<Rightarrow> int \<Rightarrow> int \<Rightarrow> int option option"
  writable :: bool

definition ceilings_of :: "gate_env \<Rightarrow> string \<Rightarrow> ceilings" where
  "ceilings_of G u = (case lookup G u of
     None \<Rightarrow> ((user_daily_token_limit (limits_cfg G), user_monthly_token_limit (limits_cfg G)), (0, 0))
   | Some e \<Rightarrow> (effective_token_limits (limits_cfg G) e, effective_cost_limits e))"

definition check_token_budget :: "gate_env \<Rightarrow> string \<Rightarrow> int \<Rightarrow> usage_row list \<Rightarrow> breach option" where
  "check_token_budget G u now ledger =
     (let lims = ceilings_of G u
      in if lims = ((0, 0), (0, 0)) \<or> \<not> readable G then None
         else case check_budget u lims now ledger of Inl b \<Rightarrow> Some b | Inr r \<Rightarrow> None)"

section \<open>The sink\<close>

record model_use =
  use_prompt :: int
  use_completion :: int
  use_total :: int
  use_provider :: string
  use_model :: string

record sink =
  sink_user :: string
  sink_project :: string
  sink_session :: "string option"
  sink_message :: "string option"
  gating :: bool
  reason :: "breach option"

definition usage_row_of :: "sink \<Rightarrow> model_use \<Rightarrow> int option \<Rightarrow> int \<Rightarrow> usage_row" where
  "usage_row_of k c cost now = \<lparr>row_user = sink_user k, row_project = sink_project k, row_session = sink_session k,
     row_message = sink_message k, row_provider = use_provider c, row_model = use_model c, row_prompt = use_prompt c,
     row_completion = use_completion c, row_total = use_total c, row_cost = cost, row_at = now\<rparr>"

text \<open>\<^verbatim>\<open>DbUsageSink.observe\<close>: a failing estimate or write is swallowed, and then nothing is checked.\<close>

definition sink_observe :: "gate_env \<Rightarrow> int \<Rightarrow> model_use \<Rightarrow> sink \<times> usage_row list \<Rightarrow> sink \<times> usage_row list" where
  "sink_observe G now c = (\<lambda>(k, ledger).
     case estimate G (use_model c) (use_prompt c) (use_completion c) of
       None \<Rightarrow> (k, ledger)
     | Some cost \<Rightarrow>
         if \<not> writable G then (k, ledger)
         else let ledger' = record_usage (usage_row_of k c cost now) ledger
              in if \<not> gating k then (k, ledger')
                 else (case check_token_budget G (sink_user k) now ledger' of
                     None \<Rightarrow> (k, ledger')
                   | Some b \<Rightarrow> (k\<lparr>reason := Some b\<rparr>, ledger')))"

text \<open>A run makes its next call only while the sink gives no reason to stop.\<close>

fun gated_run :: "gate_env \<Rightarrow> int \<Rightarrow> model_use list \<Rightarrow> sink \<times> usage_row list \<Rightarrow> sink \<times> usage_row list" where
  "gated_run G now [] s = s"
| "gated_run G now (c # cs) s = (if reason (fst s) \<noteq> None then s else gated_run G now cs (sink_observe G now c s))"

text \<open>A request: refused at the door, or run behind the gate.\<close>

definition gated_request :: "gate_env \<Rightarrow> int \<Rightarrow> model_use list \<Rightarrow> sink \<Rightarrow> usage_row list \<Rightarrow> usage_row list" where
  "gated_request G now cs k ledger = (case check_token_budget G (sink_user k) now ledger of
     Some b \<Rightarrow> ledger | None \<Rightarrow> snd (gated_run G now cs (k\<lparr>gating := True, reason := None\<rparr>, ledger)))"

section \<open>Reports\<close>

record aggregate =
  agg_prompt :: int
  agg_completion :: int
  agg_total :: int
  agg_cost :: "rat option"
  agg_requests :: int

definition in_scope :: "string \<Rightarrow> string option \<Rightarrow> usage_row \<Rightarrow> bool" where
  "in_scope u project r \<longleftrightarrow> row_user r = u \<and> (case project of None \<Rightarrow> True | Some p \<Rightarrow> row_project r = p)"

definition cost_or_none :: "usage_row list \<Rightarrow> rat option" where
  "cost_or_none rs = (let c = sum_list (map cost_of rs) in if c = 0 then None else Some (round_6 (dollars c)))"

definition aggregate_rows :: "usage_row list \<Rightarrow> aggregate" where
  "aggregate_rows rs = \<lparr>agg_prompt = sum_list (map row_prompt rs), agg_completion = sum_list (map row_completion rs),
     agg_total = sum_list (map row_total rs), agg_cost = cost_or_none rs, agg_requests = int (length rs)\<rparr>"

definition period_rows :: "string \<Rightarrow> string option \<Rightarrow> int \<Rightarrow> int \<Rightarrow> usage_row list \<Rightarrow> usage_row list" where
  "period_rows u project start stop = filter (\<lambda>r. in_scope u project r \<and> start \<le> row_at r \<and> row_at r < stop)"

definition aggregate_period :: "string \<Rightarrow> string option \<Rightarrow> int \<Rightarrow> int \<Rightarrow> usage_row list \<Rightarrow> aggregate" where
  "aggregate_period u project start stop ledger = aggregate_rows (period_rows u project start stop ledger)"

definition row_day :: "usage_row \<Rightarrow> int" where
  "row_day r = row_at r div day_length"

definition daily_breakdown :: "string \<Rightarrow> string option \<Rightarrow> int \<Rightarrow> int \<Rightarrow> usage_row list \<Rightarrow> (int \<times> aggregate) list" where
  "daily_breakdown u project start stop ledger =
     (let rs = period_rows u project start stop ledger
      in map (\<lambda>d. (d, aggregate_rows (filter (\<lambda>r. row_day r = d) rs))) (sort (remdups (map row_day rs))))"

text \<open>The change of one figure, in per cent rounded to one digit.\<close>

definition change_percent :: "rat \<Rightarrow> rat \<Rightarrow> rat \<Rightarrow> rat" where
  "change_percent difference cur prev =
     (if prev > 0 then fl (of_int (round_even (fl (fl (difference / prev) * 100) * 10)) / 10)
      else if cur > 0 then 100 else 0)"

definition or_zero :: "rat option \<Rightarrow> rat" where
  "or_zero c = (case c of None \<Rightarrow> 0 | Some x \<Rightarrow> x)"

record comparison =
  cmp_current :: aggregate
  cmp_previous :: aggregate
  cmp_change :: "(string \<times> rat) list"
  cmp_daily :: "(int \<times> aggregate) list"

definition changes :: "aggregate \<Rightarrow> aggregate \<Rightarrow> (string \<times> rat) list" where
  "changes cur prev =
     (let count = (\<lambda>f. change_percent (of_int (f cur - f prev)) (of_int (f cur)) (of_int (f prev)));
          c = or_zero (agg_cost cur); p = or_zero (agg_cost prev)
      in [(''prompt_tokens'', count agg_prompt), (''completion_tokens'', count agg_completion),
          (''total_tokens'', count agg_total), (''estimated_cost_usd'', change_percent (fl (c - p)) c p),
          (''request_count'', count agg_requests)])"

definition get_period_comparison :: "string \<Rightarrow> int \<Rightarrow> string option \<Rightarrow> int \<Rightarrow> usage_row list \<Rightarrow> comparison" where
  "get_period_comparison u days project now ledger =
     (let cstart = now - days * day_length; pstart = cstart - days * day_length;
          cur = aggregate_period u project cstart now ledger;
          prev = aggregate_period u project pstart cstart ledger
      in \<lparr>cmp_current = cur, cmp_previous = prev,
          cmp_change = changes cur prev,
          cmp_daily = daily_breakdown u project cstart now ledger\<rparr>)"

section \<open>Properties\<close>

definition charged :: "model_use \<Rightarrow> int" where
  "charged c = (if use_total c = 0 then use_prompt c + use_completion c else use_total c)"

lemma day_of_month_pos: "1 \<le> day_of_month d"
proof -
  define z where "z = (d + 719468) mod 146097"
  define yoe where "yoe = (z - z div 1460 + z div 36524 - z div 146096) div 365"
  define doy where "doy = z - (365 * yoe + yoe div 4 - yoe div 100)"
  define q where "q = (5 * doy + 2) div 153"
  have "153 * q \<le> 5 * doy + 2" using mult_div_mod_eq [of 153 "5 * doy + 2"] pos_mod_sign [of 153 "5 * doy + 2"]
    unfolding q_def by linarith
  then have "(153 * q + 2) div 5 \<le> (4 + 5 * doy) div 5" by (intro zdiv_mono1) linarith+
  then have "(153 * q + 2) div 5 \<le> doy" by simp
  moreover have "day_of_month d = doy - (153 * q + 2) div 5 + 1"
    unfolding day_of_month_def Let_def q_def doy_def yoe_def z_def ..
  ultimately show ?thesis by linarith
qed

lemma window_order: "month_start now \<le> day_start now" "day_start now \<le> now"
proof -
  have "(now div day_length - (day_of_month (now div day_length) - 1)) * day_length \<le> now div day_length * day_length"
    using day_of_month_pos [of "now div day_length"] by (intro mult_right_mono) (simp_all add: day_length_def)
  then show "month_start now \<le> day_start now" by (simp add: month_start_def day_start_def)
  show "day_start now \<le> now" by (simp add: day_start_def day_length_def minus_mod_eq_div_mult [symmetric])
qed

lemma sum_of_append: "sum_of f P (xs @ ys) = sum_of f P xs + sum_of f P ys"
  by (simp add: sum_of_def)

text \<open>What the ledger counts against the month.\<close>

definition month_tokens :: "string \<Rightarrow> int \<Rightarrow> usage_row list \<Rightarrow> int" where
  "month_tokens u now ledger = w_monthly_tokens (window_totals u (day_start now) (month_start now) ledger)"

lemma month_tokens_record:
  assumes "sink_user k = u" "month_start now \<le> now"
  shows "month_tokens u now (record_usage (usage_row_of k c cost now) ledger) = month_tokens u now ledger + charged c"
  using assms
  by (simp add: month_tokens_def window_totals_def Let_def record_usage_def sum_of_append usage_row_of_def in_window_def charged_def)
     (simp add: sum_of_def)

lemma passed_budget:
  assumes "check_token_budget G u now ledger = None" "readable G" "snd (fst (ceilings_of G u)) \<noteq> 0"
  shows "month_tokens u now ledger < snd (fst (ceilings_of G u))"
proof -
  obtain dt mt dc mc where c: "ceilings_of G u = ((dt, mt), (dc, mc))" by (metis prod.exhaust)
  with assms show ?thesis
    by (auto simp: check_token_budget_def check_budget_def month_tokens_def Let_def split: if_splits)
qed

text \<open>Every call of a gated run but the last was made, and found the account, within its ceilings.\<close>

lemma gated_run_last:
  assumes "reason (fst s) = None" "gating (fst s)" "gated_run G now cs s = t"
    "check_token_budget G (sink_user (fst s)) now (snd s) = None"
  shows "check_token_budget G (sink_user (fst s)) now (snd t) = None \<or>
    (\<exists>before c cost. c \<in> set cs \<and> check_token_budget G (sink_user (fst s)) now before = None \<and>
      (\<exists>k. sink_user k = sink_user (fst s) \<and> snd t = record_usage (usage_row_of k c cost now) before))"
  using assms
proof (induction cs arbitrary: s)
  case (Cons c cs)
  obtain k ledger where s: "s = (k, ledger)" by (cases s)
  show ?case
  proof (cases "reason (fst (sink_observe G now c s))")
    case None
    have *: "sink_user (fst (sink_observe G now c s)) = sink_user k" "gating (fst (sink_observe G now c s))"
      "check_token_budget G (sink_user k) now (snd (sink_observe G now c s)) = None"
      using None Cons.prems s by (auto simp: sink_observe_def Let_def split: option.splits)
    have "gated_run G now cs (sink_observe G now c s) = t" using Cons.prems by simp
    from Cons.IH [OF None *(2) this] * show ?thesis by (auto simp: s)
  next
    case (Some b)
    then have "t = sink_observe G now c s" using Cons.prems by (cases cs) auto
    with Some Cons.prems s show ?thesis
      by (auto simp: sink_observe_def Let_def split: option.splits if_splits)
  qed
qed simp


text \<open>The rows of a period, day by day.\<close>

lemma sum_by_day:
  "sum_list (map (\<lambda>d. sum_list (map f (filter (\<lambda>r. row_day r = d) rs))) (sort (remdups (map row_day rs)))) = sum_list (map f rs)"
  for f :: "usage_row \<Rightarrow> int"
proof -
  have "sum_list (map (\<lambda>d. sum_list (map f (filter (\<lambda>r. row_day r = d) rs))) (sort (remdups (map row_day rs))))
     = (\<Sum>d\<in>row_day ` set rs. sum_list (map f (filter (\<lambda>r. row_day r = d) rs)))"
    by (simp add: sum_list_distinct_conv_sum_set)
  also have "(\<Sum>d\<in>row_day ` set rs. sum_list (map f (filter (\<lambda>r. row_day r = d) rs))) = sum_list (map f rs)" 
  proof -
    have "(\<Sum>d\<in>D. sum_list (map f (filter (\<lambda>r. row_day r = d) rs))) = sum_list (map f rs)" if "finite D" "row_day ` set rs \<subseteq> D" for D
      using that
    proof (induction rs)
      case (Cons r rs)
      have "(\<Sum>d\<in>D. sum_list (map f (filter (\<lambda>r. row_day r = d) (r # rs))))
         = (\<Sum>d\<in>D. (if d = row_day r then f r else 0) + sum_list (map f (filter (\<lambda>r. row_day r = d) rs)))"
        by (intro sum.cong) auto
      also have "\<dots> = f r + sum_list (map f rs)"
        using Cons by (simp add: sum.distrib sum.delta)
      finally show ?case by simp
    qed simp
    then show ?thesis by simp
  qed
  finally show ?thesis by simp
qed

text \<open>
  The daily figures of a report, in the order of their days and one for each, add up to the figures
  of its period.
\<close>

theorem breakdown_adds_up:
  "sum_list (map (agg_total \<circ> snd) (daily_breakdown u project start stop ledger)) = agg_total (aggregate_period u project start stop ledger) \<and>
   sum_list (map (agg_requests \<circ> snd) (daily_breakdown u project start stop ledger)) = agg_requests (aggregate_period u project start stop ledger) \<and>
   sorted (map fst (daily_breakdown u project start stop ledger)) \<and> distinct (map fst (daily_breakdown u project start stop ledger))"
  using sum_by_day [of row_total "period_rows u project start stop ledger"]
    sum_by_day [of "\<lambda>r. 1" "period_rows u project start stop ledger"]
  by (simp add: daily_breakdown_def aggregate_period_def aggregate_rows_def Let_def comp_def sum_list_triv)

text \<open>
  The gate answers nothing exactly when nothing is limited, the ledger cannot be read, or all four
  figures are below the ceilings that are set.
\<close>

theorem gate_exact:
  assumes "ceilings_of G u = ((dt, mt), (dc, mc))"
    and "w = window_totals u (day_start now) (month_start now) ledger"
  shows "check_token_budget G u now ledger = None \<longleftrightarrow> \<not> readable G \<or>
    (dc \<noteq> 0 \<longrightarrow> w_daily_cost w < dc) \<and> (mc \<noteq> 0 \<longrightarrow> w_monthly_cost w < mc) \<and>
    (dt \<noteq> 0 \<longrightarrow> w_daily_tokens w < dt) \<and> (mt \<noteq> 0 \<longrightarrow> w_monthly_tokens w < mt)"
  using assms by (auto simp: check_token_budget_def check_budget_def Let_def)

section \<open>Examples\<close>

definition sample_gate :: gate_env where
  "sample_gate = \<lparr>limits_cfg = \<lparr>billing_enabled = False, user_daily_token_limit = 0, user_monthly_token_limit = 1000\<rparr>,
     lookup = (\<lambda>u. Some (no_plan ''none'' False None)), readable = True, estimate = (\<lambda>m p c. Some None), writable = True\<rparr>"

definition sample_use :: model_use where
  "sample_use = \<lparr>use_prompt = 500, use_completion = 100, use_total = 0, use_provider = ''p'', use_model = ''m''\<rparr>"

definition sample_sink :: sink where
  "sample_sink = \<lparr>sink_user = ''ann'', sink_project = ''shop'', sink_session = None, sink_message = None, gating = True, reason = None\<rparr>"

lemma sample_ceilings: "ceilings_of sample_gate ''ann'' = ((0, 1000), (0, 0))"
  by (simp add: ceilings_of_def sample_gate_def no_plan_def effective_token_limits_def effective_cost_limits_def strictest_alt)


lemma gate_exact_witness: "check_token_budget sample_gate ''ann'' 0 [] = None"
  using gate_exact [OF sample_ceilings refl, of 0 "[]"] by (simp add: window_totals_def sum_of_def Let_def)

end
