(* ===== verification/Accounts.thy ===== *)
theory Accounts
  imports PyValue Entitlements
begin

text \<open>
  Accounts and their sessions: \<^verbatim>\<open>services/auth_service.py\<close>, \<^verbatim>\<open>services/mcp_key_service.py\<close>,
  \<^verbatim>\<open>core/identity.py\<close>, \<^verbatim>\<open>mcp_server/auth.py\<close>, \<^verbatim>\<open>get_current_user\<close> of \<^verbatim>\<open>api/deps.py\<close> and the routes of
  \<^verbatim>\<open>api/routes/auth.py\<close>, over the tables that the memberships and invitations share.

  Hashes, signed tokens and Google's answer are parameters; ids, random tokens and salts are
  arguments. Times are whole microseconds. An operation that inserts a row under a unique column reads
  the state \<open>s\<close> and writes to the state \<open>s'\<close> that others have committed meanwhile; the others are one
  step each. A mail is remembered with its address.
\<close>

section \<open>Tables\<close>

record user =
  email :: string
  password_hash :: "string option"
  display_name :: string
  is_active :: bool
  is_onboarded :: bool
  auth_provider :: string
  google_id :: "string option"
  picture_url :: "string option"
  can_create_projects :: bool
  token_version :: int
  email_verified :: bool
  email_verify_token :: "string option"
  password_reset_token :: "string option"
  password_reset_expires_at :: "int option"

record project =
  project_name :: string
  owner_id :: "string option"

record member =
  of_project :: string
  of_user :: string
  role :: string

record invite =
  inv_project :: string
  inv_email :: string
  invited_by :: string
  inv_role :: string
  inv_status :: string
  inv_created_at :: int
  inv_expires_at :: "int option"
  inv_accepted_at :: "int option"

record connection =
  conn_project :: string
  vendor_credential_id :: "string option"
  collection_enabled :: bool

record mcp_key =
  key_user :: string
  key_name :: string
  token_hash :: string
  token_prefix :: string
  key_last_used_at :: "int option"
  key_expires_at :: "int option"
  key_revoked_at :: "int option"

datatype mail = VerifyMail string | ResetMail string | InviteMail string

record site =
  users :: "(string, user) odict"
  projects :: "(string, project) odict"
  members :: "member list"
  invites :: "(string, invite) odict"
  connections :: "(string, connection) odict"
  vendor_credentials :: "(string, string) odict"
  mcp_keys :: "(string, mcp_key) odict"
  chat_sessions :: "(string, string \<times> string option) odict"
  mails :: "(string \<times> mail) list"

text \<open>An HTTP status, a quota, or an exception that no handler expects.\<close>

datatype refusal = Http nat | QuotaExceeded quota_error | ServerError

section \<open>The outside\<close>

record claims =
  c_sub :: "string option"
  c_email :: string
  c_ver :: pyval

record google_payload =
  g_sub :: string
  g_email :: string
  g_email_verified :: bool
  g_name :: string
  g_picture :: string
  g_nonce :: string

record crypto =
  sha256 :: "string \<Rightarrow> string"
  hash_password :: "string \<Rightarrow> string \<Rightarrow> string"
  verify_password :: "string \<Rightarrow> string \<Rightarrow> bool"
  encode_jwt :: "claims \<Rightarrow> int \<Rightarrow> string"
  decode_jwt :: "int \<Rightarrow> string \<Rightarrow> claims option"
  verify_google :: "string \<Rightarrow> google_payload option"

record deployment =
  jwt_expire_minutes :: int
  password_reset_expiry_hours :: int
  invite_expiry_days :: int
  mcp_token_default_expiry_days :: int
  google_client_id :: string
  admin_emails :: "string list"
  server_key :: string
  server_key_user :: string
  entitled :: "string \<Rightarrow> entitlements option"

definition minute :: int where "minute = 60 * 1000000"
definition hour :: int where "hour = 60 * minute"
definition day :: int where "day = 24 * hour"

definition norm_email :: "string \<Rightarrow> string" where
  "norm_email e = py_strip (py_lower e)"

definition admin_form :: "string \<Rightarrow> string" where
  "admin_form e = py_lower (py_strip e)"

definition is_admin_email :: "deployment \<Rightarrow> string \<Rightarrow> bool" where
  "is_admin_email D e \<longleftrightarrow> e \<noteq> [] \<and> list_ex (\<lambda>a. a \<noteq> [] \<and> admin_form a = admin_form e) (admin_emails D)"

section \<open>Lookups\<close>

text \<open>\<^verbatim>\<open>scalar_one_or_none\<close> raises when there are several rows.\<close>

definition scalar_one_or_none :: "'a list \<Rightarrow> refusal + 'a option" where
  "scalar_one_or_none xs = (case xs of [] \<Rightarrow> Inr None | [x] \<Rightarrow> Inr (Some x) | _ \<Rightarrow> Inl ServerError)"

definition rows_where :: "('r \<Rightarrow> bool) \<Rightarrow> (string, 'r) odict \<Rightarrow> (string \<times> 'r) list" where
  "rows_where P d = filter (\<lambda>(i, r). P r) d"

definition user_by :: "(user \<Rightarrow> bool) \<Rightarrow> site \<Rightarrow> refusal + (string \<times> user) option" where
  "user_by P s = scalar_one_or_none (rows_where P (users s))"

definition put_user :: "string \<Rightarrow> user \<Rightarrow> site \<Rightarrow> site" where
  "put_user i u s = s\<lparr>users := od_set i u (users s)\<rparr>"

definition send_mail :: "string \<Rightarrow> mail \<Rightarrow> site \<Rightarrow> site" where
  "send_mail a m s = s\<lparr>mails := mails s @ [(a, m)]\<rparr>"

text \<open>The unique columns of \<^verbatim>\<open>users\<close>.\<close>

definition insert_user :: "string \<Rightarrow> user \<Rightarrow> site \<Rightarrow> site option" where
  "insert_user i u s =
     (if i \<in> set (od_keys (users s)) \<or> (list_ex (\<lambda>(j, v). email v = email u) (users s)) \<or>
         (google_id u \<noteq> None \<and> list_ex (\<lambda>(j, v). google_id v = google_id u) (users s))
      then None else Some (s\<lparr>users := users s @ [(i, u)]\<rparr>))"

section \<open>The service\<close>

definition or_str :: "string \<Rightarrow> string \<Rightarrow> string" where
  "or_str a b = (if a = [] then b else a)"

definition local_part :: "string \<Rightarrow> string" where
  "local_part e = takeWhile (\<lambda>c. c \<noteq> CHR ''@'') e"

definition new_email_user :: "string \<Rightarrow> string \<Rightarrow> string \<Rightarrow> user" where
  "new_email_user e h name = \<lparr>email = e, password_hash = Some h, display_name = or_str name (local_part e), is_active = True,
     is_onboarded = False, auth_provider = ''email'', google_id = None, picture_url = None, can_create_projects = False,
     token_version = 0, email_verified = False, email_verify_token = None, password_reset_token = None,
     password_reset_expires_at = None\<rparr>"

text \<open>\<open>None\<close> is the \<^verbatim>\<open>ValueError\<close> of an address that is taken.\<close>

definition register_user :: "crypto \<Rightarrow> string \<Rightarrow> string \<Rightarrow> string \<Rightarrow> string \<Rightarrow> string \<Rightarrow> site \<Rightarrow> site \<Rightarrow> (string \<times> user) option \<times> site" where
  "register_user C i salt mail pw name s' s =
     (let e = norm_email mail; u = new_email_user e (hash_password C salt pw) name
      in if list_ex (\<lambda>(j, v). email v = e) (users s) then (None, s')
         else case insert_user i u s' of None \<Rightarrow> (None, s') | Some t \<Rightarrow> (Some (i, u), t))"

definition authenticate :: "crypto \<Rightarrow> string \<Rightarrow> string \<Rightarrow> site \<Rightarrow> (string \<times> user) option" where
  "authenticate C mail pw s = (case List.find (\<lambda>(i, u). email u = norm_email mail) (users s) of
     None \<Rightarrow> None
   | Some (i, u) \<Rightarrow> (case password_hash u of None \<Rightarrow> None
       | Some h \<Rightarrow> if h \<noteq> [] \<and> verify_password C pw h then Some (i, u) else None))"

definition get_by_id :: "string \<Rightarrow> site \<Rightarrow> user option" where
  "get_by_id i s = map_of (users s) i"

definition issue_email_verification :: "crypto \<Rightarrow> string \<Rightarrow> string \<Rightarrow> user \<Rightarrow> site \<Rightarrow> site" where
  "issue_email_verification C tok i u s = put_user i (u\<lparr>email_verify_token := Some (sha256 C tok)\<rparr>) s"

definition verify_email :: "crypto \<Rightarrow> string \<Rightarrow> site \<Rightarrow> (refusal + (string \<times> user) option) \<times> site" where
  "verify_email C tok s =
     (if tok = [] then (Inr None, s)
      else case user_by (\<lambda>u. email_verify_token u = Some (sha256 C tok)) s of
          Inl e \<Rightarrow> (Inl e, s)
        | Inr None \<Rightarrow> (Inr None, s)
        | Inr (Some (i, u)) \<Rightarrow>
            let v = u\<lparr>email_verified := True, email_verify_token := None, can_create_projects := True\<rparr>
            in (Inr (Some (i, v)), put_user i v s))"

definition issue_password_reset :: "crypto \<Rightarrow> deployment \<Rightarrow> int \<Rightarrow> string \<Rightarrow> string \<Rightarrow> site \<Rightarrow> string option \<times> site" where
  "issue_password_reset C D now tok mail s = (case List.find (\<lambda>(i, u). email u = norm_email mail) (users s) of
     None \<Rightarrow> (None, s)
   | Some (i, u) \<Rightarrow>
       if password_hash u = None \<or> password_hash u = Some [] then (None, s)
       else (Some tok, put_user i (u\<lparr>password_reset_token := Some (sha256 C tok),
              password_reset_expires_at := Some (now + password_reset_expiry_hours D * hour)\<rparr>) s))"

text \<open>\<open>Http 400\<close> is the \<^verbatim>\<open>ValueError\<close> of a link that is missing, unknown or expired, as the route reports it.\<close>

definition reset_password :: "crypto \<Rightarrow> int \<Rightarrow> string \<Rightarrow> string \<Rightarrow> string \<Rightarrow> site \<Rightarrow> (refusal + unit) \<times> site" where
  "reset_password C now salt tok pw s =
     (if tok = [] then (Inl (Http 400), s)
      else case user_by (\<lambda>u. password_reset_token u = Some (sha256 C tok)) s of
          Inl e \<Rightarrow> (Inl e, s)
        | Inr None \<Rightarrow> (Inl (Http 400), s)
        | Inr (Some (i, u)) \<Rightarrow> (case password_reset_expires_at u of
            None \<Rightarrow> (Inl (Http 400), s)
          | Some until \<Rightarrow>
              if until < now then (Inl (Http 400), s)
              else (Inr (), put_user i (u\<lparr>password_hash := Some (hash_password C salt pw), password_reset_token := None,
                     password_reset_expires_at := None, token_version := token_version u + 1\<rparr>) s)))"

definition opt_text :: "string \<Rightarrow> string option" where
  "opt_text t = (if t = [] then None else Some t)"

definition new_google_user :: "google_payload \<Rightarrow> user" where
  "new_google_user g = \<lparr>email = norm_email (g_email g), password_hash = None,
     display_name = or_str (g_name g) (local_part (norm_email (g_email g))), is_active = True,
     is_onboarded = False, auth_provider = ''google'', google_id = Some (g_sub g), picture_url = opt_text (g_picture g),
     can_create_projects = True, token_version = 0, email_verified = True, email_verify_token = None,
     password_reset_token = None, password_reset_expires_at = None\<rparr>"

definition linked :: "google_payload \<Rightarrow> user \<Rightarrow> user" where
  "linked g u = u\<lparr>google_id := Some (g_sub g),
     picture_url := (if g_picture g = [] then picture_url u else Some (g_picture g)),
     auth_provider := (if password_hash u = None then ''google'' else auth_provider u),
     can_create_projects := (email_verified u \<longrightarrow> can_create_projects u), email_verified := True\<rparr>"

text \<open>A row that was found is written where it is now; it may have gone, or another may have its Google id.\<close>

definition write_user :: "(user \<Rightarrow> bool) \<Rightarrow> (user \<Rightarrow> user) \<Rightarrow> site \<Rightarrow> (refusal + (string \<times> user) \<times> bool) \<times> site" where
  "write_user P f s = (case List.find (\<lambda>(j, u). P u) (users s) of
     None \<Rightarrow> (Inl ServerError, s)
   | Some (j, u) \<Rightarrow>
       if list_ex (\<lambda>(k, v). k \<noteq> j \<and> google_id v = google_id (f u)) (users s) then (Inl ServerError, s)
       else (Inr ((j, f u), False), put_user j (f u) s))"

definition with_picture :: "google_payload \<Rightarrow> user \<Rightarrow> user" where
  "with_picture g u = (if g_picture g \<noteq> [] then u\<lparr>picture_url := Some (g_picture g)\<rparr> else u)"

definition find_or_create_google_user :: "string \<Rightarrow> google_payload \<Rightarrow> site \<Rightarrow> site \<Rightarrow> (refusal + (string \<times> user) \<times> bool) \<times> site" where
  "find_or_create_google_user i g s' s =
     (if list_ex (\<lambda>(j, u). google_id u = Some (g_sub g)) (users s)
      then write_user (\<lambda>u. google_id u = Some (g_sub g)) (with_picture g) s'
      else if list_ex (\<lambda>(j, u). email u = norm_email (g_email g)) (users s)
      then write_user (\<lambda>u. email u = norm_email (g_email g)) (linked g) s'
      else case insert_user i (new_google_user g) s' of
          None \<Rightarrow> (Inl ServerError, s')
        | Some t \<Rightarrow> (Inr ((i, new_google_user g), True), t))"

section \<open>Who is asking\<close>

definition as_version :: "pyval \<Rightarrow> int option" where
  "as_version v = (case v of PNone \<Rightarrow> Some 0 | PInt n \<Rightarrow> Some n | PStr t \<Rightarrow> int_of_text t | _ \<Rightarrow> None)"

definition not_revoked :: "claims \<Rightarrow> user \<Rightarrow> bool" where
  "not_revoked c u \<longleftrightarrow> as_version (c_ver c) = Some (token_version u)"

definition create_token :: "crypto \<Rightarrow> deployment \<Rightarrow> int \<Rightarrow> string \<Rightarrow> user \<Rightarrow> string" where
  "create_token C D now i u = encode_jwt C \<lparr>c_sub = Some i, c_email = email u, c_ver = PInt (token_version u)\<rparr>
     (now + jwt_expire_minutes D * minute)"

record credentials =
  authorization :: "string option"
  session_cookie :: string
  safe_method :: bool
  csrf_header :: string
  csrf_cookie :: string

definition bearer :: "string option \<Rightarrow> string option" where
  "bearer a = (case a of None \<Rightarrow> None | Some t \<Rightarrow> if prefix ''Bearer '' t then Some (drop 7 t) else None)"

definition get_current_user :: "crypto \<Rightarrow> int \<Rightarrow> credentials \<Rightarrow> site \<Rightarrow> refusal + (string \<times> string)" where
  "get_current_user C now k s =
     (let (token, by_cookie) = (case bearer (authorization k) of Some t \<Rightarrow> (t, False)
            | None \<Rightarrow> (session_cookie k, session_cookie k \<noteq> []))
      in if token = [] then Inl (Http 401)
         else if by_cookie \<and> \<not> safe_method k \<and>
             (csrf_header k = [] \<or> csrf_cookie k = [] \<or> csrf_header k \<noteq> csrf_cookie k) then Inl (Http 403)
         else case decode_jwt C now token of None \<Rightarrow> Inl (Http 401)
           | Some c \<Rightarrow> (case c_sub c of None \<Rightarrow> Inl (Http 401)
             | Some i \<Rightarrow> (case get_by_id i s of None \<Rightarrow> Inl (Http 401)
               | Some u \<Rightarrow> if is_active u \<and> not_revoked c u then Inr (i, email u) else Inl (Http 401))))"

section \<open>Keys for MCP clients\<close>

definition key_prefix :: string where
  "key_prefix = ''cmd_mcp_''"

text \<open>\<open>days\<close> is the lifetime that was asked for; the answer is the key's id and its one showing.\<close>

definition issue_key :: "crypto \<Rightarrow> deployment \<Rightarrow> int \<Rightarrow> string \<Rightarrow> string \<Rightarrow> string \<Rightarrow> string \<Rightarrow> int option \<Rightarrow> site
    \<Rightarrow> (refusal + string \<times> string) \<times> site" where
  "issue_key C D now kid random u name days s =
     (let clean = py_strip name; plain = key_prefix @ random;
          effective = (case days of Some n \<Rightarrow> Some n
            | None \<Rightarrow> if mcp_token_default_expiry_days D = 0 then None else Some (mcp_token_default_expiry_days D))
      in if u = [] \<or> clean = [] \<or> length clean > 255 \<or> (\<exists>n \<in> set_option effective. n \<le> 0) then (Inl (Http 400), s)
         else if kid \<in> set (od_keys (mcp_keys s)) \<or> list_ex (\<lambda>(j, k). token_hash k = sha256 C plain) (mcp_keys s)
           then (Inl ServerError, s)
         else (Inr (kid, plain), s\<lparr>mcp_keys := mcp_keys s @ [(kid, \<lparr>key_user = u, key_name = clean, token_hash = sha256 C plain,
             token_prefix = take 12 plain, key_last_used_at = None,
             key_expires_at = map_option (\<lambda>n. now + n * day) effective, key_revoked_at = None\<rparr>)]\<rparr>))"

definition list_keys :: "string \<Rightarrow> site \<Rightarrow> (string \<times> mcp_key) list" where
  "list_keys u s = (if u = [] then [] else rev (rows_where (\<lambda>k. key_user k = u) (mcp_keys s)))"

definition get_key :: "string \<Rightarrow> string \<Rightarrow> site \<Rightarrow> mcp_key option" where
  "get_key kid u s = (case map_of (mcp_keys s) kid of None \<Rightarrow> None | Some k \<Rightarrow> if key_user k = u then Some k else None)"

definition put_key :: "string \<Rightarrow> mcp_key \<Rightarrow> site \<Rightarrow> site" where
  "put_key i k s = s\<lparr>mcp_keys := od_set i k (mcp_keys s)\<rparr>"

definition revoke_key :: "int \<Rightarrow> string \<Rightarrow> string \<Rightarrow> site \<Rightarrow> bool \<times> site" where
  "revoke_key now kid u s = (case get_key kid u s of
     None \<Rightarrow> (False, s)
   | Some k \<Rightarrow> if key_revoked_at k \<noteq> None then (False, s) else (True, put_key kid (k\<lparr>key_revoked_at := Some now\<rparr>) s))"

definition lookup_by_token :: "crypto \<Rightarrow> int \<Rightarrow> string \<Rightarrow> site \<Rightarrow> mcp_key option \<times> site" where
  "lookup_by_token C now plain s =
     (if \<not> prefix key_prefix plain then (None, s)
      else case List.find (\<lambda>(i, k). token_hash k = sha256 C plain) (mcp_keys s) of
          None \<Rightarrow> (None, s)
        | Some (i, k) \<Rightarrow>
            if key_revoked_at k \<noteq> None \<or> (\<exists>until \<in> set_option (key_expires_at k). until \<le> now) then (None, s)
            else (Some k, put_key i (k\<lparr>key_last_used_at := Some now\<rparr>) s))"

text \<open>A principal is a user's id and address.\<close>

definition user_from_personal_token :: "crypto \<Rightarrow> int \<Rightarrow> string \<Rightarrow> site \<Rightarrow> (string \<times> string) option \<times> site" where
  "user_from_personal_token C now tok s = (case lookup_by_token C now tok s of
     (None, t) \<Rightarrow> (None, t)
   | (Some k, t) \<Rightarrow> (case get_by_id (key_user k) t of
       None \<Rightarrow> (None, t) | Some u \<Rightarrow> (if is_active u then Some (key_user k, email u) else None, t)))"

definition user_from_server_key :: "deployment \<Rightarrow> string \<Rightarrow> refusal + (string \<times> string)" where
  "user_from_server_key D k =
     (if server_key D = [] \<or> k \<noteq> server_key D \<or> server_key_user D = [] then Inl (Http 401) else Inr (server_key_user D, []))"

definition user_from_jwt :: "crypto \<Rightarrow> int \<Rightarrow> string \<Rightarrow> site \<Rightarrow> refusal + (string \<times> string)" where
  "user_from_jwt C now tok s = (case decode_jwt C now tok of
     None \<Rightarrow> Inl (Http 401)
   | Some c \<Rightarrow> (case c_sub c of
       None \<Rightarrow> Inl ServerError
     | Some i \<Rightarrow> (case get_by_id i s of
         None \<Rightarrow> Inl (Http 401)
       | Some u \<Rightarrow> if is_active u \<and> not_revoked c u then Inr (i, c_email c) else Inl (Http 401))))"

text \<open>What was passed with the call comes first; a key of the user's own never falls through.\<close>

definition authenticate_call :: "crypto \<Rightarrow> deployment \<Rightarrow> int \<Rightarrow> string \<Rightarrow> string \<Rightarrow> site \<Rightarrow> (refusal + string \<times> string) \<times> site" where
  "authenticate_call C D now api_key tok s =
     (let personal = (\<lambda>k. case user_from_personal_token C now k s of
             (None, t) \<Rightarrow> (Inl (Http 401), t) | (Some p, t) \<Rightarrow> (Inr p, t))
      in if prefix key_prefix api_key then personal api_key
         else if tok \<noteq> [] then (user_from_jwt C now tok s, s)
         else if prefix key_prefix (server_key D) then personal (server_key D)
         else if server_key D \<noteq> [] then (user_from_server_key D (server_key D), s)
         else (Inl (Http 401), s))"

section \<open>Deletion\<close>

text \<open>The rows of projects go with them: members, invitations, connections and chats cascade.\<close>

definition drop_projects :: "(string \<times> project \<Rightarrow> bool) \<Rightarrow> site \<Rightarrow> site" where
  "drop_projects P s =
     (let gone = map fst (filter P (projects s))
      in s\<lparr>projects := filter (\<lambda>e. \<not> P e) (projects s),
           members := filter (\<lambda>m. of_project m \<notin> set gone) (members s),
           invites := filter (\<lambda>(i, v). inv_project v \<notin> set gone) (invites s),
           connections := filter (\<lambda>(i, c). conn_project c \<notin> set gone) (connections s),
           chat_sessions := filter (\<lambda>(i, c). fst c \<notin> set gone) (chat_sessions s)\<rparr>)"

text \<open>Connections of others lose the account's credentials before these are deleted.\<close>

definition detach :: "string list \<Rightarrow> connection \<Rightarrow> connection" where
  "detach creds c = (case vendor_credential_id c of
     None \<Rightarrow> c | Some v \<Rightarrow> if v \<in> set creds then c\<lparr>vendor_credential_id := None, collection_enabled := False\<rparr> else c)"

definition drop_user :: "string \<Rightarrow> site \<Rightarrow> site" where
  "drop_user i s =
     (let s1 = drop_projects (\<lambda>(p, r). owner_id r = Some i) s;
          creds = map fst (filter (\<lambda>(v, u). u = i) (vendor_credentials s1))
      in s1\<lparr>connections := map (\<lambda>(k, c). (k, detach creds c)) (connections s1),
            vendor_credentials := filter (\<lambda>(v, u). u \<noteq> i) (vendor_credentials s1),
            mcp_keys := filter (\<lambda>(k, r). key_user r \<noteq> i) (mcp_keys s1),
            chat_sessions := filter (\<lambda>(c, r). snd r \<noteq> Some i) (chat_sessions s1),
            members := filter (\<lambda>m. of_user m \<noteq> i) (members s1),
            invites := filter (\<lambda>(k, v). invited_by v \<noteq> i) (invites s1),
            users := od_del i (users s1)\<rparr>)"

end
