(* ===== verification/Membership.thy ===== *)
theory Membership
  imports Accounts
begin

text \<open>
  \<^verbatim>\<open>services/membership_service.py\<close>: roles in a project, who may do what, and how members are
  added, changed, removed and how ownership is handed over. The seats and the number of projects come
  from what the entitlements answer; a lookup that fails limits nothing.
\<close>

section \<open>Roles\<close>

definition role_hierarchy :: "(string \<times> nat) list" where
  "role_hierarchy = [(''owner'', 3), (''editor'', 2), (''viewer'', 1)]"

definition valid_roles :: "string list" where
  "valid_roles = map fst role_hierarchy"

definition assignable_roles :: "string list" where
  "assignable_roles = [''editor'', ''viewer'']"

definition role_rank :: "string \<Rightarrow> nat" where
  "role_rank r = (case map_of role_hierarchy r of None \<Rightarrow> 0 | Some n \<Rightarrow> n)"

definition is_row :: "string \<Rightarrow> string \<Rightarrow> member \<Rightarrow> bool" where
  "is_row p u m \<longleftrightarrow> of_project m = p \<and> of_user m = u"

definition find_member :: "string \<Rightarrow> string \<Rightarrow> site \<Rightarrow> member option" where
  "find_member p u s = List.find (is_row p u) (members s)"

definition owner_of :: "string \<Rightarrow> site \<Rightarrow> string option" where
  "owner_of p s = (case map_of (projects s) p of None \<Rightarrow> None | Some r \<Rightarrow> owner_id r)"

definition get_role :: "string \<Rightarrow> string \<Rightarrow> site \<Rightarrow> string option" where
  "get_role p u s =
     (let r = map_option role (find_member p u s)
      in if r = Some ''owner'' then r else if owner_of p s = Some u then Some ''owner'' else r)"

definition require_role :: "string \<Rightarrow> string \<Rightarrow> string \<Rightarrow> site \<Rightarrow> refusal + string" where
  "require_role p u least s =
     (if least \<notin> set valid_roles then Inl ServerError
      else case get_role p u s of None \<Rightarrow> Inl (Http 403)
        | Some r \<Rightarrow> if r \<notin> set valid_roles then Inl (Http 403)
            else if role_rank r < role_rank least then Inl (Http 403) else Inr r)"

definition require_write_role :: "string \<Rightarrow> string \<Rightarrow> bool \<Rightarrow> site \<Rightarrow> refusal + string" where
  "require_write_role p u read_only s = require_role p u (if read_only then ''viewer'' else ''editor'') s"

definition accessible :: "string \<Rightarrow> site \<Rightarrow> string \<times> project \<Rightarrow> bool" where
  "accessible u s = (\<lambda>(p, r). owner_id r = Some u \<or> list_ex (\<lambda>m. of_project m = p \<and> of_user m = u) (members s))"

definition can_access :: "string \<Rightarrow> string \<Rightarrow> site \<Rightarrow> bool" where
  "can_access p u s \<longleftrightarrow> u \<noteq> [] \<and> (case map_of (projects s) p of None \<Rightarrow> False | Some r \<Rightarrow> accessible u s (p, r))"

definition list_accessible :: "string \<Rightarrow> site \<Rightarrow> string list" where
  "list_accessible u s = (if u = [] then [] else map fst (rev (filter (accessible u s) (projects s))))"

definition get_accessible_projects :: "string \<Rightarrow> site \<Rightarrow> string list" where
  "get_accessible_projects u s = map fst (filter (accessible u s) (projects s))"

definition get_roles_bulk :: "string list \<Rightarrow> string \<Rightarrow> site \<Rightarrow> (string, string) odict" where
  "get_roles_bulk ps u s =
     (let rows = map (\<lambda>m. (of_project m, role m)) (filter (\<lambda>m. of_user m = u \<and> of_project m \<in> set ps) (members s));
          owned = map fst (filter (\<lambda>(p, r). p \<in> set ps \<and> owner_id r = Some u) (projects s))
      in if ps = [] then [] else foldl (\<lambda>d p. od_set p ''owner'' d) (foldl (\<lambda>d (p, r). od_set p r d) [] rows) owned)"

section \<open>Members\<close>

definition count_members :: "string \<Rightarrow> site \<Rightarrow> nat" where
  "count_members p s = length (filter (\<lambda>m. of_project m = p) (members s))"

definition default_member_page :: int where "default_member_page = 500"
definition max_member_page :: int where "max_member_page = 1000"

definition list_members :: "string \<Rightarrow> int \<Rightarrow> site \<Rightarrow> refusal + member list" where
  "list_members p n s = (if n \<le> 0 then Inl ServerError
     else Inr (take (nat (min n max_member_page)) (filter (\<lambda>m. of_project m = p) (members s))))"

definition plan_seats :: "deployment \<Rightarrow> string \<Rightarrow> int" where
  "plan_seats D u = (case entitled D u of None \<Rightarrow> 0 | Some e \<Rightarrow> ent_seats e)"

text \<open>The owner here is the one of a member row.\<close>

definition owner_row :: "string \<Rightarrow> site \<Rightarrow> string option" where
  "owner_row p s = map_option of_user (List.find (\<lambda>m. of_project m = p \<and> role m = ''owner'') (members s))"

definition enforce_seat_cap :: "deployment \<Rightarrow> string \<Rightarrow> site \<Rightarrow> quota_error option" where
  "enforce_seat_cap D p s = (case owner_row p s of
     None \<Rightarrow> None
   | Some o' \<Rightarrow> (let cap = plan_seats D o'; now = int (count_members p s)
       in if cap \<le> 0 then None else if now \<ge> cap then Some (''seats'', cap, now) else None))"

definition update_role :: "string \<Rightarrow> string \<Rightarrow> string \<Rightarrow> site \<Rightarrow> site" where
  "update_role p u r s = s\<lparr>members := map (\<lambda>m. if is_row p u m then m\<lparr>role := r\<rparr> else m) (members s)\<rparr>"

text \<open>What the foreign keys and the unique pair of \<^verbatim>\<open>project_members\<close> admit.\<close>

definition insert_member :: "string \<Rightarrow> string \<Rightarrow> string \<Rightarrow> site \<Rightarrow> site option" where
  "insert_member p u r s =
     (if find_member p u s \<noteq> None \<or> p \<notin> set (od_keys (projects s)) \<or> u \<notin> set (od_keys (users s)) then None
      else Some (s\<lparr>members := members s @ [\<lparr>of_project = p, of_user = u, role = r\<rparr>]\<rparr>))"

definition add_member :: "deployment \<Rightarrow> string \<Rightarrow> string \<Rightarrow> string \<Rightarrow> site \<Rightarrow> site \<Rightarrow> (refusal + unit) \<times> site" where
  "add_member D p u r s' s =
     (if r \<notin> set valid_roles then (Inl ServerError, s')
      else if find_member p u s \<noteq> None then
        (if find_member p u s' = None then (Inl ServerError, s') else (Inr (), update_role p u r s'))
      else case enforce_seat_cap D p s of
          Some q \<Rightarrow> (Inl (QuotaExceeded q), s')
        | None \<Rightarrow> (case insert_member p u r s' of
            Some t \<Rightarrow> (Inr (), t)
          | None \<Rightarrow> if find_member p u s' = None then (Inl ServerError, s') else (Inr (), update_role p u r s')))"

definition delete_member :: "string \<Rightarrow> string \<Rightarrow> site \<Rightarrow> site" where
  "delete_member p u s = s\<lparr>members := filter (\<lambda>m. \<not> is_row p u m) (members s)\<rparr>"

definition remove_member :: "string \<Rightarrow> string \<Rightarrow> site \<Rightarrow> (refusal + bool) \<times> site" where
  "remove_member p u s = (case find_member p u s of
     None \<Rightarrow> (Inr False, s)
   | Some m \<Rightarrow> if role m = ''owner'' then (Inl (Http 400), s) else (Inr True, delete_member p u s))"

definition update_member_role :: "string \<Rightarrow> string \<Rightarrow> string \<Rightarrow> site \<Rightarrow> (refusal + bool) \<times> site" where
  "update_member_role p u r s = (case find_member p u s of
     None \<Rightarrow> (Inr False, s)
   | Some m \<Rightarrow> if role m = ''owner'' then (Inl (Http 400), s)
       else if r \<notin> set valid_roles then (Inl ServerError, s)
       else (Inr True, update_role p u r s))"

definition leave_project :: "string \<Rightarrow> string \<Rightarrow> site \<Rightarrow> (refusal + bool) \<times> site" where
  "leave_project p u s = (case get_role p u s of
     None \<Rightarrow> (Inr False, s)
   | Some r \<Rightarrow> if r = ''owner'' then (Inl (Http 400), s)
       else if find_member p u s = None then (Inr False, s) else (Inr True, delete_member p u s))"

section \<open>Ownership\<close>

definition count_projects :: "string \<Rightarrow> site \<Rightarrow> nat" where
  "count_projects u s = length (filter (\<lambda>(p, r). owner_id r = Some u) (projects s))"

text \<open>A lookup that fails here is not caught.\<close>

definition enforce_project_quota :: "deployment \<Rightarrow> string \<Rightarrow> site \<Rightarrow> refusal option" where
  "enforce_project_quota D u s = (case entitled D u of
     None \<Rightarrow> Some ServerError
   | Some e \<Rightarrow> map_option QuotaExceeded (enforce_quota ''projects'' (lim_projects e) (int (count_projects u s))))"

definition owned_connections :: "string \<Rightarrow> site \<Rightarrow> nat" where
  "owned_connections u s = length (filter (\<lambda>(i, c). owner_of (conn_project c) s = Some u) (connections s))"

definition enforce_connection_quota :: "deployment \<Rightarrow> string \<Rightarrow> site \<Rightarrow> refusal option" where
  "enforce_connection_quota D u s = (case entitled D u of
     None \<Rightarrow> Some ServerError
   | Some e \<Rightarrow> map_option QuotaExceeded (enforce_quota ''connections'' (lim_connections e) (int (owned_connections u s))))"

definition current_owner :: "string \<Rightarrow> site \<Rightarrow> string option" where
  "current_owner p s = (case owner_of p s of Some u \<Rightarrow> Some u | None \<Rightarrow> owner_row p s)"

definition set_owner :: "string \<Rightarrow> string \<Rightarrow> site \<Rightarrow> site" where
  "set_owner p u s = s\<lparr>projects := map (\<lambda>(q, r). if q = p then (q, r\<lparr>owner_id := Some u\<rparr>) else (q, r)) (projects s)\<rparr>"

text \<open>The new owner's row, the old owner's row (made or changed) and the project's column.\<close>

definition demoted :: "string \<Rightarrow> string option \<Rightarrow> site \<Rightarrow> site" where
  "demoted p cur s = (case cur of None \<Rightarrow> s
     | Some u \<Rightarrow> if find_member p u s = None
         then s\<lparr>members := members s @ [\<lparr>of_project = p, of_user = u, role = ''editor''\<rparr>]\<rparr>
         else update_role p u ''editor'' s)"

definition transfer_ownership :: "deployment \<Rightarrow> string \<Rightarrow> string \<Rightarrow> string \<Rightarrow> bool \<Rightarrow> site \<Rightarrow> (refusal + unit) \<times> site" where
  "transfer_ownership D p new actor admin s =
     (let cur = current_owner p s
      in if \<not> admin \<and> cur \<noteq> Some actor then (Inl (Http 403), s)
         else if cur = Some new then (Inl (Http 400), s)
         else if find_member p new s = None then (Inl (Http 400), s)
         else case enforce_project_quota D new s of
             Some e \<Rightarrow> (Inl e, s)
           | None \<Rightarrow> (Inr (), set_owner p new (demoted p cur (update_role p new ''owner'' s))))"

end
