(* ===== verification/Invites.thy ===== *)
theory Invites
  imports Membership
begin

text \<open>
  \<^verbatim>\<open>services/invite_service.py\<close>: invitations by address, from their creation to their acceptance. The
  table's unique triple is the project, the address and the status, so a change of status can fail too.
\<close>

definition expires_at :: "deployment \<Rightarrow> invite \<Rightarrow> int" where
  "expires_at D v = (case inv_expires_at v of Some e \<Rightarrow> e | None \<Rightarrow> inv_created_at v + invite_expiry_days D * day)"

definition is_expired :: "deployment \<Rightarrow> int \<Rightarrow> invite \<Rightarrow> bool" where
  "is_expired D now v \<longleftrightarrow> now \<ge> expires_at D v"

definition invite_key :: "invite \<Rightarrow> string \<times> string \<times> string" where
  "invite_key v = (inv_project v, inv_email v, inv_status v)"

text \<open>\<open>None\<close> is the \<^verbatim>\<open>IntegrityError\<close> of the commit, or the row that has gone meanwhile.\<close>

definition write_invite :: "string \<Rightarrow> (invite \<Rightarrow> invite) \<Rightarrow> site \<Rightarrow> site option" where
  "write_invite i f s = (case map_of (invites s) i of
     None \<Rightarrow> None
   | Some v \<Rightarrow> if list_ex (\<lambda>(j, w). j \<noteq> i \<and> invite_key w = invite_key (f v)) (invites s) then None
       else Some (s\<lparr>invites := od_set i (f v) (invites s)\<rparr>))"

definition insert_invite :: "string \<Rightarrow> invite \<Rightarrow> site \<Rightarrow> site option" where
  "insert_invite i v s =
     (if i \<in> set (od_keys (invites s)) \<or> list_ex (\<lambda>(j, w). invite_key w = invite_key v) (invites s) \<or>
         inv_project v \<notin> set (od_keys (projects s)) \<or> invited_by v \<notin> set (od_keys (users s)) then None
      else Some (s\<lparr>invites := invites s @ [(i, v)]\<rparr>))"

definition is_member_address :: "string \<Rightarrow> string \<Rightarrow> site \<Rightarrow> bool" where
  "is_member_address p e s \<longleftrightarrow> list_ex (\<lambda>m. of_project m = p \<and>
     (case map_of (users s) (of_user m) of None \<Rightarrow> False | Some u \<Rightarrow> email u = e)) (members s)"

definition pending_for :: "string \<Rightarrow> string \<Rightarrow> invite \<Rightarrow> bool" where
  "pending_for p e v \<longleftrightarrow> inv_project v = p \<and> inv_email v = e \<and> inv_status v = ''pending''"

definition create_invite :: "deployment \<Rightarrow> int \<Rightarrow> string \<Rightarrow> string \<Rightarrow> string \<Rightarrow> string \<Rightarrow> string \<Rightarrow> site \<Rightarrow> site
    \<Rightarrow> (refusal + string) \<times> site" where
  "create_invite D now i p mail r by s' s =
     (let e = norm_email mail
      in if is_member_address p e s then (Inl (Http 409), s')
         else if list_ex (\<lambda>(j, v). pending_for p e v) (invites s) then (Inl (Http 409), s')
         else case insert_invite i \<lparr>inv_project = p, inv_email = e, invited_by = by, inv_role = r, inv_status = ''pending'',
                inv_created_at = now, inv_expires_at = Some (now + invite_expiry_days D * day), inv_accepted_at = None\<rparr> s' of
             None \<Rightarrow> (Inl (Http 409), s')
           | Some t \<Rightarrow> (Inr i, t))"

definition get_pending_invite :: "string \<Rightarrow> string \<Rightarrow> site \<Rightarrow> invite option" where
  "get_pending_invite i p s = (case map_of (invites s) i of
     None \<Rightarrow> None | Some v \<Rightarrow> if inv_project v = p \<and> inv_status v = ''pending'' then Some v else None)"

definition list_invites :: "string \<Rightarrow> site \<Rightarrow> (string \<times> invite) list" where
  "list_invites p s = rows_where (\<lambda>v. inv_project v = p) (invites s)"

definition revoke_invite :: "string \<Rightarrow> string \<Rightarrow> site \<Rightarrow> (refusal + bool) \<times> site" where
  "revoke_invite i p s = (case map_of (invites s) i of
     None \<Rightarrow> (Inr False, s)
   | Some v \<Rightarrow>
       if p \<noteq> [] \<and> inv_project v \<noteq> p then (Inr False, s)
       else if inv_status v \<noteq> ''pending'' then (Inl (Http 400), s)
       else case write_invite i (inv_status_update (\<lambda>_. ''revoked'')) s of
           None \<Rightarrow> (Inl ServerError, s) | Some t \<Rightarrow> (Inr True, t))"

definition decline_invite :: "string \<Rightarrow> string \<Rightarrow> site \<Rightarrow> (refusal + unit) \<times> site" where
  "decline_invite i mail s = (case map_of (invites s) i of
     None \<Rightarrow> (Inl (Http 404), s)
   | Some v \<Rightarrow>
       if inv_status v \<noteq> ''pending'' then (Inl (Http 400), s)
       else if norm_email mail = [] \<or> norm_email mail \<noteq> norm_email (inv_email v) then (Inl (Http 403), s)
       else (Inr (), s\<lparr>invites := od_del i (invites s)\<rparr>))"

definition accepted :: "int \<Rightarrow> invite \<Rightarrow> invite" where
  "accepted now v = v\<lparr>inv_status := ''accepted'', inv_accepted_at := Some now\<rparr>"

text \<open>
  The new status is flushed by the query for the member row, whose failure nothing catches; when the
  commit of a new member row fails, the account must be a member by now. \<open>skip\<close>: the caller has
  proved the address itself.
\<close>

definition accept_invite :: "deployment \<Rightarrow> int \<Rightarrow> string \<Rightarrow> string \<Rightarrow> bool \<Rightarrow> site \<Rightarrow> site \<Rightarrow> (refusal + member) \<times> site" where
  "accept_invite D now i u skip s' s = (case map_of (invites s) i of
     None \<Rightarrow> (Inl (Http 404), s')
   | Some v \<Rightarrow>
       if inv_status v \<noteq> ''pending'' then (Inl (Http 400), s')
       else if \<not> skip \<and> (case get_by_id u s of None \<Rightarrow> True | Some w \<Rightarrow>
           norm_email (email w) \<noteq> norm_email (inv_email v) \<or> \<not> email_verified w) then (Inl (Http 403), s')
       else if is_expired D now v then (Inl (Http 410), s')
       else case write_invite i (accepted now) s' of
           None \<Rightarrow> (Inl ServerError, s')
         | Some t \<Rightarrow> (case find_member (inv_project v) u s of
             Some m \<Rightarrow> (Inr m, t)
           | None \<Rightarrow> (case insert_member (inv_project v) u (inv_role v) t of
               Some t' \<Rightarrow> (Inr \<lparr>of_project = inv_project v, of_user = u, role = inv_role v\<rparr>, t')
             | None \<Rightarrow> (case find_member (inv_project v) u s' of
                 None \<Rightarrow> (Inl ServerError, s') | Some m \<Rightarrow> (Inr m, s')))))"

definition list_pending_for_email :: "string \<Rightarrow> site \<Rightarrow> (string \<times> invite) list" where
  "list_pending_for_email mail s = rows_where (\<lambda>v. inv_email v = norm_email mail \<and> inv_status v = ''pending'') (invites s)"

text \<open>The loop stops at the first acceptance that raises; those before it are committed.\<close>

fun accept_each :: "deployment \<Rightarrow> int \<Rightarrow> string \<Rightarrow> (string \<times> invite) list \<Rightarrow> site \<Rightarrow> (refusal + member list) \<times> site" where
  "accept_each D now u [] s = (Inr [], s)"
| "accept_each D now u ((i, v) # vs) s =
     (if is_expired D now v then accept_each D now u vs s
      else case accept_invite D now i u True s s of
          (Inl e, t) \<Rightarrow> (Inl e, t)
        | (Inr m, t) \<Rightarrow> (case accept_each D now u vs t of
            (Inl e, t') \<Rightarrow> (Inl e, t') | (Inr ms, t') \<Rightarrow> (Inr (m # ms), t')))"

definition auto_accept_for_user :: "deployment \<Rightarrow> int \<Rightarrow> string \<Rightarrow> string \<Rightarrow> site \<Rightarrow> (refusal + member list) \<times> site" where
  "auto_accept_for_user D now u mail s = accept_each D now u (list_pending_for_email mail s) s"

end
