(* ===== verification/AccessRuns.thy ===== *)
theory AccessRuns
  imports Invites
begin

text \<open>
  The requests that change accounts, memberships and invitations: the routes of \<^verbatim>\<open>api/routes/auth.py\<close>,
  \<^verbatim>\<open>api/routes/invites.py\<close>, \<^verbatim>\<open>api/routes/mcp_tokens.py\<close> and of \<^verbatim>\<open>api/routes/projects.py\<close> (creation and
  deletion), and the runs they form. A request reads the state \<open>s\<close>; where another may get in before its
  insertion, it writes to the state \<open>s'\<close> that the others have left, and else it works on \<open>s'\<close> alone.
\<close>

section \<open>Requests\<close>

datatype answer = Done | SignedIn string string

type_synonym 'a served = "(refusal + 'a) \<times> site"

definition as_user :: "crypto \<Rightarrow> int \<Rightarrow> credentials \<Rightarrow> site \<Rightarrow> (string \<Rightarrow> string \<Rightarrow> answer served) \<Rightarrow> site \<Rightarrow> answer served" where
  "as_user C now k s f s' = (case get_current_user C now k s of Inl e \<Rightarrow> (Inl e, s') | Inr (i, e) \<Rightarrow> f i e)"

definition in_role :: "string \<Rightarrow> string \<Rightarrow> site \<Rightarrow> site \<Rightarrow> answer served \<Rightarrow> answer served" where
  "in_role p i s s' r = (case require_role p i ''owner'' s of Inl e \<Rightarrow> (Inl e, s') | Inr x \<Rightarrow> r)"

definition found :: "bool served \<Rightarrow> answer served" where
  "found r = (case r of (Inl e, t) \<Rightarrow> (Inl e, t) | (Inr b, t) \<Rightarrow> (if b then Inr Done else Inl (Http 404), t))"

definition finished :: "'a served \<Rightarrow> answer served" where
  "finished r = (case r of (Inl e, t) \<Rightarrow> (Inl e, t) | (Inr x, t) \<Rightarrow> (Inr Done, t))"

definition good_password :: "string \<Rightarrow> bool" where
  "good_password pw \<longleftrightarrow> 8 \<le> length pw \<and> length pw \<le> 128"

definition signed_in :: "crypto \<Rightarrow> deployment \<Rightarrow> int \<Rightarrow> string \<Rightarrow> user \<Rightarrow> answer" where
  "signed_in C D now i u = SignedIn i (create_token C D now i u)"

definition register :: "crypto \<Rightarrow> deployment \<Rightarrow> int \<Rightarrow> string \<Rightarrow> string \<Rightarrow> string \<Rightarrow> string \<Rightarrow> string \<Rightarrow> string \<Rightarrow> site \<Rightarrow> site \<Rightarrow> answer served" where
  "register C D now i salt tok mail pw name s' s =
     (if \<not> good_password pw then (Inl (Http 422), s')
      else case register_user C i salt mail pw name s' s of
          (None, t) \<Rightarrow> (Inl (Http 409), t)
        | (Some (j, u), t) \<Rightarrow> (Inr (signed_in C D now j u),
            send_mail (email u) (VerifyMail tok) (issue_email_verification C tok j u t)))"

definition verify_address :: "crypto \<Rightarrow> deployment \<Rightarrow> int \<Rightarrow> string \<Rightarrow> site \<Rightarrow> answer served" where
  "verify_address C D now tok s = (case verify_email C tok s of
     (Inl e, t) \<Rightarrow> (Inl e, t)
   | (Inr None, t) \<Rightarrow> (Inl (Http 400), t)
   | (Inr (Some (i, u)), t) \<Rightarrow> finished (auto_accept_for_user D now i (email u) t))"

definition resend_verification :: "crypto \<Rightarrow> string \<Rightarrow> string \<Rightarrow> site \<Rightarrow> answer served" where
  "resend_verification C tok i s = (case get_by_id i s of
     None \<Rightarrow> (Inl (Http 401), s)
   | Some u \<Rightarrow> if auth_provider u = ''google'' \<or> email_verified u then (Inr Done, s)
       else (Inr Done, send_mail (email u) (VerifyMail tok) (issue_email_verification C tok i u s)))"

definition forgot_password :: "crypto \<Rightarrow> deployment \<Rightarrow> int \<Rightarrow> string \<Rightarrow> string \<Rightarrow> site \<Rightarrow> answer served" where
  "forgot_password C D now tok mail s = (case issue_password_reset C D now tok mail s of
     (None, t) \<Rightarrow> (Inr Done, t) | (Some k, t) \<Rightarrow> (Inr Done, send_mail (norm_email mail) (ResetMail k) t))"

definition login :: "crypto \<Rightarrow> deployment \<Rightarrow> int \<Rightarrow> string \<Rightarrow> string \<Rightarrow> site \<Rightarrow> answer served" where
  "login C D now mail pw s = (case authenticate C mail pw s of
     None \<Rightarrow> (Inl (Http 401), s) | Some (i, u) \<Rightarrow> (Inr (signed_in C D now i u), s))"

text \<open>The double-submitted token, Google's answer and the nonce; \<open>[]\<close> where the request has none.\<close>

definition google_login :: "crypto \<Rightarrow> deployment \<Rightarrow> int \<Rightarrow> string \<Rightarrow> string \<Rightarrow> string \<Rightarrow> string \<Rightarrow> string \<Rightarrow> site \<Rightarrow> site \<Rightarrow> answer served" where
  "google_login C D now i credential cookie body nonce s' s =
     (if cookie \<noteq> [] \<and> (body = [] \<or> cookie \<noteq> body) then (Inl (Http 403), s')
      else case (if google_client_id D = [] then None else verify_google C credential) of
          None \<Rightarrow> (Inl (Http 401), s')
        | Some g \<Rightarrow>
            if \<not> g_email_verified g then (Inl (Http 401), s')
            else if nonce \<noteq> [] \<and> (g_nonce g = [] \<or> g_nonce g \<noteq> nonce) then (Inl (Http 401), s')
            else case find_or_create_google_user i g s' s of
                (Inl e, t) \<Rightarrow> (Inl e, t)
              | (Inr ((j, u), new), t) \<Rightarrow> (case auto_accept_for_user D now j (email u) t of
                  (Inl e, t') \<Rightarrow> (Inl e, t') | (Inr ms, t') \<Rightarrow> (Inr (signed_in C D now j u), t')))"

definition change_password :: "crypto \<Rightarrow> string \<Rightarrow> string \<Rightarrow> string \<Rightarrow> string \<Rightarrow> site \<Rightarrow> answer served" where
  "change_password C salt cur pw i s =
     (if \<not> good_password pw then (Inl (Http 422), s)
      else case get_by_id i s of
          None \<Rightarrow> (Inl (Http 400), s)
        | Some u \<Rightarrow> (case password_hash u of
            None \<Rightarrow> (Inl (Http 400), s)
          | Some h \<Rightarrow>
              if h = [] then (Inl (Http 400), s)
              else if \<not> verify_password C cur h then (Inl (Http 401), s)
              else (Inr Done, put_user i (u\<lparr>password_hash := Some (hash_password C salt pw),
                     token_version := token_version u + 1\<rparr>) s)))"

definition refresh :: "crypto \<Rightarrow> deployment \<Rightarrow> int \<Rightarrow> string \<Rightarrow> site \<Rightarrow> answer served" where
  "refresh C D now i s = (case get_by_id i s of
     None \<Rightarrow> (Inl (Http 401), s) | Some u \<Rightarrow> (Inr (signed_in C D now i u), s))"

definition complete_onboarding :: "string \<Rightarrow> site \<Rightarrow> answer served" where
  "complete_onboarding i s = (case get_by_id i s of
     None \<Rightarrow> (Inl (Http 401), s) | Some u \<Rightarrow> (Inr Done, put_user i (u\<lparr>is_onboarded := True\<rparr>) s))"

text \<open>The project is committed before its owner's row.\<close>

definition create_project :: "deployment \<Rightarrow> string \<Rightarrow> string \<Rightarrow> string \<Rightarrow> site \<Rightarrow> answer served" where
  "create_project D p name i s =
     (case get_by_id i s of
        None \<Rightarrow> (Inl (Http 403), s)
      | Some u \<Rightarrow>
          if \<not> can_create_projects u then (Inl (Http 403), s)
          else case enforce_project_quota D i s of
              Some (QuotaExceeded q) \<Rightarrow> (Inl (Http 402), s)
            | Some e \<Rightarrow> (Inl e, s)
            | None \<Rightarrow>
                if list_ex (\<lambda>(q, r). owner_id r = Some i \<and> project_name r = name) (projects s) then (Inl (Http 409), s)
                else if p \<in> set (od_keys (projects s)) then (Inl ServerError, s)
                else let t = s\<lparr>projects := projects s @ [(p, \<lparr>project_name = name, owner_id = Some i\<rparr>)]\<rparr>
                  in finished (add_member D p i ''owner'' t t))"

definition delete_project :: "string \<Rightarrow> site \<Rightarrow> answer served" where
  "delete_project p s = (if p \<in> set (od_keys (projects s)) then (Inr Done, drop_projects (\<lambda>(q, r). q = p) s) else (Inl (Http 404), s))"

definition invite_address :: "deployment \<Rightarrow> int \<Rightarrow> string \<Rightarrow> string \<Rightarrow> string \<Rightarrow> string \<Rightarrow> string \<Rightarrow> site \<Rightarrow> site \<Rightarrow> answer served" where
  "invite_address D now i p mail r by s' s =
     (if r \<notin> set assignable_roles then (Inl (Http 422), s')
      else case create_invite D now i p mail r by s' s of
          (Inl e, t) \<Rightarrow> (Inl e, t) | (Inr j, t) \<Rightarrow> (Inr Done, send_mail (norm_email mail) (InviteMail j) t))"

definition resend_invite :: "string \<Rightarrow> string \<Rightarrow> site \<Rightarrow> answer served" where
  "resend_invite i p s = (case get_pending_invite i p s of
     None \<Rightarrow> (Inl (Http 404), s) | Some v \<Rightarrow> (Inr Done, send_mail (inv_email v) (InviteMail i) s))"

datatype request =
    Register string string string string string string
  | VerifyEmail string
  | ResendVerification credentials string
  | ForgotPassword string string
  | ResetPassword string string string
  | Login string string
  | GoogleLogin string string string string string
  | ChangePassword credentials string string string
  | Refresh credentials
  | CompleteOnboarding credentials
  | DeleteAccount credentials
  | IssueKey credentials string string string "int option"
  | RevokeKey credentials string
  | CreateProject credentials string string
  | DeleteProject credentials string
  | CreateInvite credentials string string string string
  | RevokeInvite credentials string string
  | ResendInvite credentials string string
  | AcceptInvite credentials string
  | DeclineInvite credentials string
  | LeaveProject credentials string
  | TransferOwnership credentials string string
  | UpdateRole credentials string string string
  | RemoveMember credentials string string

fun serve :: "crypto \<Rightarrow> deployment \<Rightarrow> int \<Rightarrow> site \<Rightarrow> site \<Rightarrow> request \<Rightarrow> answer served" where
  "serve C D now s' s (Register i salt tok mail pw name) = register C D now i salt tok mail pw name s' s"
| "serve C D now s' s (VerifyEmail tok) = verify_address C D now tok s'"
| "serve C D now s' s (ResendVerification k tok) = as_user C now k s' (\<lambda>i e. resend_verification C tok i s') s'"
| "serve C D now s' s (ForgotPassword tok mail) = forgot_password C D now tok mail s'"
| "serve C D now s' s (ResetPassword tok salt pw) =
     (if good_password pw then finished (reset_password C now salt tok pw s') else (Inl (Http 422), s'))"
| "serve C D now s' s (Login mail pw) = login C D now mail pw s'"
| "serve C D now s' s (GoogleLogin i credential cookie body nonce) = google_login C D now i credential cookie body nonce s' s"
| "serve C D now s' s (ChangePassword k salt cur pw) = as_user C now k s' (\<lambda>i e. change_password C salt cur pw i s') s'"
| "serve C D now s' s (Refresh k) = as_user C now k s' (\<lambda>i e. refresh C D now i s') s'"
| "serve C D now s' s (CompleteOnboarding k) = as_user C now k s' (\<lambda>i e. complete_onboarding i s') s'"
| "serve C D now s' s (DeleteAccount k) = as_user C now k s' (\<lambda>i e. (Inr Done, drop_user i s')) s'"
| "serve C D now s' s (IssueKey k kid random name days) =
     as_user C now k s' (\<lambda>i e. finished (issue_key C D now kid random i name days s')) s'"
| "serve C D now s' s (RevokeKey k kid) =
     as_user C now k s' (\<lambda>i e. let (b, t) = revoke_key now kid i s' in (if b then Inr Done else Inl (Http 404), t)) s'"
| "serve C D now s' s (CreateProject k p name) = as_user C now k s' (\<lambda>i e. create_project D p name i s') s'"
| "serve C D now s' s (DeleteProject k p) = as_user C now k s' (\<lambda>i e. in_role p i s' s' (delete_project p s')) s'"
| "serve C D now s' s (CreateInvite k j p mail r) =
     as_user C now k s (\<lambda>i e. in_role p i s s' (invite_address D now j p mail r i s' s)) s'"
| "serve C D now s' s (RevokeInvite k p j) = as_user C now k s' (\<lambda>i e. in_role p i s' s' (found (revoke_invite j p s'))) s'"
| "serve C D now s' s (ResendInvite k p j) = as_user C now k s' (\<lambda>i e. in_role p i s' s' (resend_invite j p s')) s'"
| "serve C D now s' s (AcceptInvite k j) = as_user C now k s (\<lambda>i e. finished (accept_invite D now j i False s' s)) s'"
| "serve C D now s' s (DeclineInvite k j) = as_user C now k s' (\<lambda>i e. finished (decline_invite j e s')) s'"
| "serve C D now s' s (LeaveProject k p) = as_user C now k s' (\<lambda>i e. found (leave_project p i s')) s'"
| "serve C D now s' s (TransferOwnership k p new) =
     as_user C now k s' (\<lambda>i e. finished (transfer_ownership D p new i (is_admin_email D e) s')) s'"
| "serve C D now s' s (UpdateRole k p u r) =
     as_user C now k s' (\<lambda>i e. if r \<notin> set assignable_roles then (Inl (Http 422), s')
       else in_role p i s' s' (found (update_member_role p u r s'))) s'"
| "serve C D now s' s (RemoveMember k p u) = as_user C now k s' (\<lambda>i e. in_role p i s' s' (found (remove_member p u s'))) s'"

section \<open>Runs\<close>

text \<open>What was served: the state that the request read, the one it wrote to, the settings, the time.\<close>

record served_event =
  ev_read :: site
  ev_site :: site
  ev_deployment :: deployment
  ev_now :: int
  ev_request :: request
  ev_answer :: "refusal + answer"

inductive access_run :: "crypto \<Rightarrow> site \<Rightarrow> served_event list \<Rightarrow> site \<Rightarrow> bool" for C where
  idle: "access_run C s [] s"
| served: "access_run C s es t \<Longrightarrow> access_run C t fs t' \<Longrightarrow> serve C D now t' t rq = (x, u) \<Longrightarrow>
    access_run C s (es @ fs @ [\<lparr>ev_read = t, ev_site = t', ev_deployment = D, ev_now = now, ev_request = rq, ev_answer = x\<rparr>]) u"

end
