(* ===== verification/AccessRows.thy ===== *)
theory AccessRows
  imports AccessRuns
begin

text \<open>
  What one request does to the row of one account, and which requests leave the accounts or the
  memberships alone. \<open>row_change\<close> lists every change that a row can undergo, with what the request
  had to know for it.
\<close>

section \<open>Which tables an operation leaves alone\<close>

definition same_users :: "site \<Rightarrow> site \<Rightarrow> bool" where
  "same_users s t \<longleftrightarrow> users t = users s \<and> mails t = mails s"

definition same_rooms :: "site \<Rightarrow> site \<Rightarrow> bool" where
  "same_rooms s t \<longleftrightarrow> projects t = projects s \<and> members t = members s \<and> invites t = invites s"

named_theorems frames "operations that leave the accounts or the memberships alone"

lemma same_users_refl [simp]: "same_users s s" and same_rooms_refl [simp]: "same_rooms s s"
  by (simp_all add: same_users_def same_rooms_def)

lemma same_users_trans: "same_users s t \<Longrightarrow> same_users t u \<Longrightarrow> same_users s u"
  by (simp add: same_users_def)

lemma same_users_upd [simp]:
  "same_users s (update_role p u r t) \<longleftrightarrow> same_users s t" "same_users s (delete_member p u t) \<longleftrightarrow> same_users s t"
  "same_users s (set_owner p u t) \<longleftrightarrow> same_users s t" "same_users s (demoted p c t) \<longleftrightarrow> same_users s t"
  "same_users s (drop_projects P t) \<longleftrightarrow> same_users s t" "same_users s (t\<lparr>invites := vs\<rparr>) \<longleftrightarrow> same_users s t"
  "same_users s (t\<lparr>projects := ps\<rparr>) \<longleftrightarrow> same_users s t" "same_users s (t\<lparr>members := ms\<rparr>) \<longleftrightarrow> same_users s t"
  "same_users (s\<lparr>projects := ps\<rparr>) t \<longleftrightarrow> same_users s t"
  "same_users s (put_key k key t) \<longleftrightarrow> same_users s t" "same_users s (t\<lparr>mcp_keys := ks\<rparr>) \<longleftrightarrow> same_users s t"
  by (simp_all add: same_users_def update_role_def delete_member_def set_owner_def demoted_def drop_projects_def put_key_def
      Let_def split: option.splits)

lemma same_rooms_upd [simp]:
  "same_rooms s (put_user i u t) \<longleftrightarrow> same_rooms s t" "same_rooms s (send_mail a m t) \<longleftrightarrow> same_rooms s t"
  "same_rooms s (put_key k key t) \<longleftrightarrow> same_rooms s t" "same_rooms s (t\<lparr>mcp_keys := ks\<rparr>) \<longleftrightarrow> same_rooms s t"
  "same_rooms s (t\<lparr>users := us\<rparr>) \<longleftrightarrow> same_rooms s t"
  by (simp_all add: same_rooms_def put_user_def send_mail_def put_key_def)

lemma insert_member_frame: "insert_member p u r s = Some t \<Longrightarrow> same_users s t"
  by (auto simp: insert_member_def split: if_splits)

lemma write_invite_frame: "write_invite i v s = Some t \<Longrightarrow> same_users s t"
  by (auto simp: write_invite_def split: if_splits option.splits)

lemma insert_invite_frame: "insert_invite i v s = Some t \<Longrightarrow> same_users s t"
  by (auto simp: insert_invite_def split: if_splits)

lemma insert_user_frame: "insert_user i u s = Some t \<Longrightarrow> same_rooms s t"
  by (auto simp: insert_user_def split: if_splits)

lemma add_member_frame [frames]: "add_member D p u r s' s = (x, t) \<Longrightarrow> same_users s' t"
  by (auto simp: add_member_def split: if_splits option.splits dest: insert_member_frame)

lemma accept_invite_frame [frames]: "accept_invite D now i u b s' s = (x, t) \<Longrightarrow> same_users s' t"
  by (auto simp: accept_invite_def split: if_splits option.splits
      dest!: write_invite_frame insert_member_frame intro: same_users_trans)

lemma accept_each_frame [frames]: "accept_each D now u vs s = (x, t) \<Longrightarrow> same_users s t"
proof (induction vs arbitrary: s x t)
  case (Cons a vs)
  obtain i v where a: "a = (i, v)" by (cases a)
  show ?case
  proof (cases "is_expired D now v")
    case True
    with Cons a show ?thesis by simp
  next
    case False
    obtain y s1 where acc: "accept_invite D now i u True s s = (y, s1)" by fastforce
    show ?thesis
    proof (cases y)
      case (Inl e)
      with Cons.prems a False acc show ?thesis by (auto intro: accept_invite_frame)
    next
      case (Inr m)
      obtain z s2 where rest: "accept_each D now u vs s1 = (z, s2)" by fastforce
      with Cons.prems a False acc Inr have "t = s2" by (auto split: sum.splits)
      with Cons.IH [OF rest] accept_invite_frame [OF acc] show ?thesis by (auto intro: same_users_trans)
    qed
  qed
qed simp

lemma auto_accept_frame [frames]: "auto_accept_for_user D now u e s = (x, t) \<Longrightarrow> same_users s t"
  unfolding auto_accept_for_user_def by (rule accept_each_frame)

lemma invite_address_frame: "invite_address D now i p m r b s' s = (x, t) \<Longrightarrow> users t = users s' \<and> (\<forall>a k. (a, VerifyMail k) \<in> set (mails t) \<longleftrightarrow> (a, VerifyMail k) \<in> set (mails s'))"
  by (auto simp: invite_address_def create_invite_def send_mail_def Let_def same_users_def split: if_splits option.splits dest!: insert_invite_frame)

section \<open>One row\<close>

inductive row_change :: "crypto \<Rightarrow> request \<Rightarrow> string \<Rightarrow> user option \<Rightarrow> user option \<Rightarrow> bool" for C where
  same: "row_change C rq i r r"
| registered: "row_change C (Register i salt tok mail pw name) i None
    (Some ((new_email_user (norm_email mail) (hash_password C salt pw) name)\<lparr>email_verify_token := Some (sha256 C tok)\<rparr>))"
| by_google: "verify_google C cred = Some g \<Longrightarrow> g_email_verified g \<Longrightarrow>
    row_change C (GoogleLogin i cred c b n) i None (Some (new_google_user g))"
| google_linked: "verify_google C cred = Some g \<Longrightarrow> g_email_verified g \<Longrightarrow> email u = norm_email (g_email g) \<Longrightarrow>
    row_change C (GoogleLogin j cred c b n) i (Some u) (Some (linked g u))"
| pictured: "verify_google C cred = Some g \<Longrightarrow> g_email_verified g \<Longrightarrow> google_id u = Some (g_sub g) \<Longrightarrow>
    row_change C (GoogleLogin j cred c b n) i (Some u) (Some (with_picture g u))"
| mailed: "row_change C (ResendVerification k tok) i (Some u) (Some (u\<lparr>email_verify_token := Some (sha256 C tok)\<rparr>))"
| verified: "email_verify_token u = Some (sha256 C tok) \<Longrightarrow>
    row_change C (VerifyEmail tok) i (Some u)
      (Some (u\<lparr>email_verified := True, email_verify_token := None, can_create_projects := True\<rparr>))"
| reset_mailed: "email u = norm_email mail \<Longrightarrow>
    row_change C (ForgotPassword tok mail) i (Some u)
      (Some (u\<lparr>password_reset_token := Some (sha256 C tok), password_reset_expires_at := Some until\<rparr>))"
| reset: "password_reset_token u = Some (sha256 C tok) \<Longrightarrow>
    row_change C (ResetPassword tok salt pw) i (Some u)
      (Some (u\<lparr>password_hash := Some (hash_password C salt pw), password_reset_token := None,
         password_reset_expires_at := None, token_version := token_version u + 1\<rparr>))"
| changed: "password_hash u = Some h \<Longrightarrow> verify_password C cur h \<Longrightarrow>
    row_change C (ChangePassword k salt cur pw) i (Some u)
      (Some (u\<lparr>password_hash := Some (hash_password C salt pw), token_version := token_version u + 1\<rparr>))"
| onboarded: "row_change C (CompleteOnboarding k) i (Some u) (Some (u\<lparr>is_onboarded := True\<rparr>))"
| deleted: "row_change C (DeleteAccount k) i (Some u) None"

inductive_cases row_changeE: "row_change C rq i r r'"

lemma get_put [simp]: "get_by_id i (put_user j u s) = (if i = j then Some u else get_by_id i s)"
  by (simp add: get_by_id_def put_user_def odict_simps)

lemma get_mail [simp]: "get_by_id i (send_mail a m s) = get_by_id i s"
  by (simp add: get_by_id_def send_mail_def)

lemma get_same: "same_users s t \<Longrightarrow> get_by_id i t = get_by_id i s"
  by (simp add: get_by_id_def same_users_def)

lemma get_insert:
  assumes "insert_user j u s = Some t"
  shows "get_by_id i t = (if i = j then Some u else get_by_id i s)" and "get_by_id j s = None"
proof -
  from assms have t: "t = s\<lparr>users := users s @ [(j, u)]\<rparr>" and j: "map_of (users s) j = None"
    by (auto simp: insert_user_def map_of_keys split: if_splits)
  from j show "get_by_id j s = None" by (simp add: get_by_id_def)
  show "get_by_id i t = (if i = j then Some u else get_by_id i s)"
    using j by (auto simp: t get_by_id_def map_add_def split: option.split)
qed

lemma get_drop: "get_by_id i (drop_user j s) = (if i = j then None else get_by_id i s)"
  by (simp add: get_by_id_def drop_user_def drop_projects_def odict_simps Let_def)

text \<open>A row found by a column, in a table whose ids are distinct.\<close>

lemma find_row: "od_ok d \<Longrightarrow> List.find (\<lambda>(i, u). P u) d = Some (i, u) \<Longrightarrow> map_of d i = Some u \<and> P u"
  by (auto simp: find_Some_iff od_ok_map_of [symmetric]) (metis nth_mem)

lemma user_by_row:
  assumes "od_ok (users s)" "user_by P s = Inr (Some (i, u))"
  shows "get_by_id i s = Some u \<and> P u \<and> (\<forall>j v. get_by_id j s = Some v \<longrightarrow> P v \<longrightarrow> j = i)"
proof -
  have rows: "rows_where P (users s) = [(i, u)]"
    using assms(2) by (auto simp: user_by_def scalar_one_or_none_def split: list.splits)
  then have "(i, u) \<in> set (filter (\<lambda>(i, r). P r) (users s))" by (simp add: rows_where_def)
  then have "(i, u) \<in> set (users s)" "P u" by simp_all
  moreover have "j = i" if "get_by_id j s = Some v" "P v" for j v
  proof -
    have "(j, v) \<in> set (rows_where P (users s))"
      using that by (auto simp: rows_where_def get_by_id_def dest: map_of_SomeD)
    then show ?thesis by (simp add: rows)
  qed
  moreover have "get_by_id i s = Some u" if "(i, u) \<in> set (users s)"
    using that od_ok_map_of [OF assms(1), of i u] by (simp add: get_by_id_def)
  ultimately show ?thesis by blast
qed

section \<open>Requests, taken apart\<close>

lemma as_userE:
  assumes "as_user C now k s f s' = (x, t)"
  obtains e where "x = Inl e" "t = s'" | i m where "get_current_user C now k s = Inr (i, m)" "f i m = (x, t)"
  using assms by (cases "get_current_user C now k s") (auto simp: as_user_def)

lemma in_roleE:
  assumes "in_role p i s s' r = (x, t)"
  obtains e where "x = Inl e" "t = s'" | o' where "require_role p i ''owner'' s = Inr o'" "r = (x, t)"
  using assms by (cases "require_role p i ''owner'' s") (auto simp: in_role_def)

lemma finishedE:
  assumes "finished r = (x, t)"
  obtains y where "r = (y, t)" "x = map_sum id (\<lambda>a. Done) y"
  using assms by (cases r; cases "fst r") (auto simp: finished_def)

lemma foundE:
  assumes "found r = (x, t)"
  obtains y where "r = (y, t)" "x = Inr Done \<longleftrightarrow> y = Inr True"
  using assms by (cases r; cases "fst r") (auto simp: found_def split: if_splits)

section \<open>Rows under a request\<close>

lemma register_rows:
  assumes "register C D now i salt tok mail pw name s' s = (x, t)" "od_ok (users s')"
  shows "row_change C (Register i salt tok mail pw name) j (get_by_id j s') (get_by_id j t)"
proof -
  let ?u = "new_email_user (norm_email mail) (hash_password C salt pw) name"
  consider "t = s'"
    | t1 where "insert_user i ?u s' = Some t1" "t = send_mail (norm_email mail) (VerifyMail tok) (issue_email_verification C tok i ?u t1)"
    using assms(1)
    by (auto simp: register_def register_user_def Let_def new_email_user_def split: if_splits option.splits)
  then show ?thesis
  proof cases
    case 2
    show ?thesis
    proof (cases "j = i")
      case True
      with 2 get_insert(2) [OF 2(1)] show ?thesis
        by (simp add: issue_email_verification_def row_change.registered)
    next
      case False
      with 2 get_insert(1) [OF 2(1), of j] show ?thesis
        by (simp add: issue_email_verification_def row_change.same)
    qed
  qed (simp add: row_change.same)
qed

lemma one_row:
  assumes "t = put_user i v s" "get_by_id i s = Some u" "row_change C rq i (Some u) (Some v)"
  shows "row_change C rq j (get_by_id j s) (get_by_id j t)"
  using assms by (cases "i = j") (auto intro: row_change.same)

lemma verify_rows:
  assumes "verify_address C D now tok s = (x, t)" "od_ok (users s)"
  shows "row_change C (VerifyEmail tok) j (get_by_id j s) (get_by_id j t)"
proof -
  obtain y t1 where v: "verify_email C tok s = (y, t1)" by fastforce
  have t: "same_users t1 t"
    using assms(1) v by (auto simp: verify_address_def split: sum.splits option.splits elim!: finishedE dest: auto_accept_frame)
  have "row_change C (VerifyEmail tok) j (get_by_id j s) (get_by_id j t1)"
  proof (cases "\<exists>i u. user_by (\<lambda>u. email_verify_token u = Some (sha256 C tok)) s = Inr (Some (i, u)) \<and> tok \<noteq> []")
    case True
    then obtain i u where u: "user_by (\<lambda>u. email_verify_token u = Some (sha256 C tok)) s = Inr (Some (i, u))" "tok \<noteq> []" by blast
    from user_by_row [OF assms(2) u(1)] have r: "get_by_id i s = Some u" "email_verify_token u = Some (sha256 C tok)" by simp_all
    from v u have "t1 = put_user i (u\<lparr>email_verified := True, email_verify_token := None, can_create_projects := True\<rparr>) s"
      by (simp add: verify_email_def Let_def)
    from one_row [OF this r(1) row_change.verified [OF r(2)]] show ?thesis .
  next
    case False
    then have "t1 = s" using v by (auto simp: verify_email_def Let_def split: if_splits sum.splits option.splits)
    then show ?thesis by (simp add: row_change.same)
  qed
  then show ?thesis by (simp add: get_same [OF t])
qed

lemma reset_rows:
  assumes "reset_password C now salt tok pw s = (x, t)" "od_ok (users s)"
  shows "row_change C (ResetPassword tok salt pw) j (get_by_id j s) (get_by_id j t)"
proof (cases "t = s")
  case False
  then obtain i u where u: "user_by (\<lambda>u. password_reset_token u = Some (sha256 C tok)) s = Inr (Some (i, u))"
      and t: "t = put_user i (u\<lparr>password_hash := Some (hash_password C salt pw), password_reset_token := None,
         password_reset_expires_at := None, token_version := token_version u + 1\<rparr>) s"
    using assms(1) by (auto simp: reset_password_def split: if_splits sum.splits option.splits)
  from user_by_row [OF assms(2) u] have r: "get_by_id i s = Some u" "password_reset_token u = Some (sha256 C tok)" by simp_all
  from one_row [OF t r(1) row_change.reset [OF r(2)]] show ?thesis .
qed (simp add: row_change.same)

lemma forgot_rows:
  assumes "forgot_password C D now tok mail s = (x, t)" "od_ok (users s)"
  shows "row_change C (ForgotPassword tok mail) j (get_by_id j s) (get_by_id j t)"
proof (cases "t = s")
  case False
  then obtain i u where f: "List.find (\<lambda>(i, u). email u = norm_email mail) (users s) = Some (i, u)"
      and t: "t = send_mail (norm_email mail) (ResetMail tok) (put_user i (u\<lparr>password_reset_token := Some (sha256 C tok),
              password_reset_expires_at := Some (now + password_reset_expiry_hours D * hour)\<rparr>) s)"
    using assms(1) by (auto simp: forgot_password_def issue_password_reset_def split: if_splits sum.splits option.splits)
  from find_row [OF assms(2) f] have r: "get_by_id i s = Some u" "email u = norm_email mail" by (simp_all add: get_by_id_def)
  from one_row [OF refl r(1) row_change.reset_mailed [OF r(2)]] t show ?thesis by simp
qed (simp add: row_change.same)

lemma change_rows:
  assumes "change_password C salt cur pw i s = (x, t)"
  shows "row_change C (ChangePassword k salt cur pw) j (get_by_id j s) (get_by_id j t)"
proof (cases "t = s")
  case False
  then obtain u h where u: "get_by_id i s = Some u" "password_hash u = Some h" "verify_password C cur h"
      and t: "t = put_user i (u\<lparr>password_hash := Some (hash_password C salt pw), token_version := token_version u + 1\<rparr>) s"
    using assms(1) by (auto simp: change_password_def split: if_splits option.splits)
  from one_row [OF t u(1) row_change.changed [OF u(2,3)]] show ?thesis .
qed (simp add: row_change.same)

lemma google_rows:
  assumes "google_login C D now i cred c b n s' s = (x, t)" "od_ok (users s')"
  shows "row_change C (GoogleLogin i cred c b n) j (get_by_id j s') (get_by_id j t)"
proof (cases "t = s'")
  case False
  then obtain g where g: "verify_google C cred = Some g" "g_email_verified g"
    using assms(1) by (auto simp: google_login_def split: if_splits option.splits)
  obtain y t1 where y: "find_or_create_google_user i g s' s = (y, t1)" by fastforce
  have t: "same_users t1 t"
    using assms(1) g y False by (auto simp: google_login_def split: if_splits option.splits sum.splits prod.splits dest: auto_accept_frame)
  have wrote: "row_change C (GoogleLogin i cred c b n) j (get_by_id j s') (get_by_id j t1)"
    if w: "write_user P f s' = (y, t1)"
      and p: "\<And>k u. P u \<Longrightarrow> row_change C (GoogleLogin i cred c b n) k (Some u) (Some (f u))" for P f
  proof (cases "t1 = s'")
    case False
    then obtain k u where k: "List.find (\<lambda>(j, u). P u) (users s') = Some (k, u)" "t1 = put_user k (f u) s'"
      using w by (auto simp: write_user_def split: option.splits if_splits)
    from find_row [OF assms(2) k(1)] have r: "get_by_id k s' = Some u" "P u" by (simp_all add: get_by_id_def)
    from one_row [OF k(2) r(1) p [OF r(2)]] show ?thesis .
  qed (simp add: row_change.same)
  have insert: "row_change C (GoogleLogin i cred c b n) j (get_by_id j s') (get_by_id j t1)"
    if ins: "insert_user i (new_google_user g) s' = Some t1"
    using get_insert [OF ins] row_change.by_google [OF g] by (cases "j = i") (auto intro: row_change.same)
  have "row_change C (GoogleLogin i cred c b n) j (get_by_id j s') (get_by_id j t1)"
    using y wrote [OF _ row_change.pictured [OF g]] wrote [OF _ row_change.google_linked [OF g]] insert
    by (auto simp: find_or_create_google_user_def split: if_splits option.splits intro: row_change.same)
  then show ?thesis by (simp add: get_same [OF t])
qed (simp add: row_change.same)

section \<open>What leaves the accounts alone\<close>

lemma revoke_invite_frame [frames]: "revoke_invite i p s = (x, t) \<Longrightarrow> same_users s t"
  by (auto simp: revoke_invite_def split: if_splits option.splits dest: write_invite_frame)

lemma decline_invite_frame [frames]: "decline_invite i m s = (x, t) \<Longrightarrow> same_users s t"
  by (auto simp: decline_invite_def split: if_splits option.splits)

lemma leave_frame [frames]: "leave_project p i s = (x, t) \<Longrightarrow> same_users s t"
  by (auto simp: leave_project_def split: if_splits option.splits)

lemma transfer_frame [frames]: "transfer_ownership D p new i a s = (x, t) \<Longrightarrow> same_users s t"
  by (auto simp: transfer_ownership_def Let_def split: if_splits option.splits)

lemma update_member_frame [frames]: "update_member_role p u r s = (x, t) \<Longrightarrow> same_users s t"
  by (auto simp: update_member_role_def split: if_splits option.splits)

lemma remove_member_frame [frames]: "remove_member p u s = (x, t) \<Longrightarrow> same_users s t"
  by (auto simp: remove_member_def split: if_splits option.splits)

lemma create_project_frame [frames]: "create_project D p n i s = (x, t) \<Longrightarrow> same_users s t"
  by (auto simp: create_project_def Let_def split: if_splits option.splits refusal.splits elim!: finishedE dest!: add_member_frame)

lemma delete_project_frame [frames]: "delete_project p s = (x, t) \<Longrightarrow> same_users s t"
  by (auto simp: delete_project_def split: if_splits)

lemma issue_key_frame [frames]: "issue_key C D now k r u n d s = (x, t) \<Longrightarrow> same_users s t"
  by (auto simp: issue_key_def Let_def split: if_splits)

lemma revoke_key_frame [frames]: "revoke_key now k u s = (b, t) \<Longrightarrow> same_users s t"
  by (auto simp: revoke_key_def split: if_splits option.splits)

section \<open>Every request\<close>

theorem serve_rows:
  assumes "serve C D now s' s rq = (x, t)" and "od_ok (users s')"
  shows "row_change C rq i (get_by_id i s') (get_by_id i t)"
proof -
  have same: "row_change C q i (get_by_id i s') (get_by_id i t)" if "same_users s' t" for q
    using get_same [OF that] by (simp add: row_change.same)
  have unchanged: "row_change C q i (get_by_id i s') (get_by_id i s')" for q by (rule row_change.same)
  show ?thesis
  proof (cases rq)
    case (Register i salt tok mail pw name)
    with assms show ?thesis by (auto intro: register_rows)
  next
    case (VerifyEmail tok)
    with assms show ?thesis by (auto intro: verify_rows)
  next
    case (ResendVerification k tok)
    from assms(1)[unfolded ResendVerification serve.simps] show ?thesis
    proof (rule as_userE)
      fix j m assume "resend_verification C tok j s' = (x, t)"
      then show ?thesis using one_row [OF refl _ row_change.mailed [where C = C and k = k and tok = tok]] unchanged
        by (auto simp: resend_verification_def ResendVerification issue_email_verification_def split: option.splits if_splits)
    qed (simp add: unchanged)
  next
    case (ForgotPassword tok mail)
    with assms show ?thesis by (auto intro: forgot_rows)
  next
    case (ResetPassword tok salt pw)
    with assms unchanged show ?thesis by (auto split: if_splits elim!: finishedE intro: reset_rows)
  next
    case (Login mail pw)
    with assms(1) unchanged show ?thesis by (auto simp: login_def split: option.splits)
  next
    case (GoogleLogin j cred c b n)
    with assms show ?thesis by (auto intro: google_rows)
  next
    case (ChangePassword k salt cur pw)
    with assms(1) unchanged show ?thesis by (auto elim!: as_userE intro: change_rows)
  next
    case (Refresh k)
    with assms(1) unchanged show ?thesis by (auto simp: refresh_def elim!: as_userE split: option.splits)
  next
    case (CompleteOnboarding k)
    from assms(1)[unfolded CompleteOnboarding serve.simps] show ?thesis
    proof (rule as_userE)
      fix j m assume "complete_onboarding j s' = (x, t)"
      then show ?thesis using one_row [OF refl _ row_change.onboarded [where C = C and k = k]] unchanged
        by (auto simp: complete_onboarding_def CompleteOnboarding split: option.splits if_splits)
    qed (simp add: unchanged)
  next
    case (DeleteAccount k)
    from assms(1)[unfolded DeleteAccount serve.simps] show ?thesis
    proof (rule as_userE)
      fix j m assume "(Inr Done, drop_user j s') = (x, t)"
      then have "t = drop_user j s'" by simp
      then show ?thesis using row_change.deleted [where C = C and k = k and i = i] unchanged
        by (cases "get_by_id i s'") (auto simp: get_drop DeleteAccount intro: row_change.same)
    qed (simp add: unchanged)
  next
    case (CreateInvite k j p mail r)
    from assms(1)[unfolded CreateInvite serve.simps] show ?thesis
    proof (rule as_userE)
      fix a m assume "in_role p a s s' (invite_address D now j p mail r a s' s) = (x, t)"
      then show ?thesis
        by (rule in_roleE) (use unchanged in \<open>auto simp: get_by_id_def dest: invite_address_frame\<close>)
    qed (simp add: unchanged)
  next
    case (ResendInvite k p j)
    with assms(1) unchanged show ?thesis
      by (auto simp: resend_invite_def elim!: as_userE in_roleE split: option.splits)
  qed (use assms(1) in \<open>auto intro!: same elim!: as_userE in_roleE finishedE foundE split: if_splits prod.splits
      dest: frames\<close>)
qed

end
