(* ===== verification/RoomSteps.thy ===== *)
theory RoomSteps
  imports AccessRows
begin

text \<open>
  Every change that a request can make to projects, memberships and invitations, one after another:
  \<open>room_step\<close> lists them with what the request had to hold, and \<open>serve_steps\<close> says that there are no
  others. The invariant of the tables, access, ownership and invitations are then followed over these.
\<close>

section \<open>Addresses\<close>

lemma code_pt_lower_char: "code_pt (lower_char c) = (if is_upper c then code_pt c + 32 else code_pt c)"
  by (simp add: lower_char_alt code_pt_lower)

lemma isspace_lower [simp]: "py_isspace (lower_char c) \<longleftrightarrow> py_isspace c"
proof (cases "is_upper c")
  case True
  then show ?thesis by (auto simp: py_isspace_def Let_def code_pt_lower_char is_upper_def)
qed (simp add: lower_char_alt)

lemma dropWhile_lower: "dropWhile py_isspace (map lower_char s) = map lower_char (dropWhile py_isspace s)"
  by (simp add: dropWhile_map comp_def)

lemma strip_lower: "py_strip (py_lower s) = py_lower (py_strip s)"
  by (simp add: py_strip_def rstrip_by_def lstrip_by_def py_lower_def dropWhile_lower rev_map)

lemma dropWhile_again [simp]: "dropWhile f (dropWhile f s) = dropWhile f s"
  by (induction s) auto

lemma dropWhile_rev_head: "s = [] \<or> \<not> f (hd s) \<Longrightarrow> dropWhile f (rev (dropWhile f (rev s))) = rev (dropWhile f (rev s))"
proof (induction s rule: rev_induct)
  case (snoc c s)
  then show ?case by (cases "f c"; cases s) auto
qed simp

lemma strip_again [simp]: "py_strip (py_strip s) = py_strip s"
proof -
  have "dropWhile py_isspace s = [] \<or> \<not> py_isspace (hd (dropWhile py_isspace s))" by (induction s) auto
  then show ?thesis by (simp add: py_strip_def rstrip_by_def lstrip_by_def dropWhile_rev_head)
qed

lemma norm_email_again [simp]: "norm_email (norm_email e) = norm_email e"
proof -
  have "py_lower (py_lower x) = py_lower x" for x by (simp add: py_lower_def comp_def)
  then show ?thesis by (simp add: norm_email_def strip_lower)
qed

section \<open>The tables\<close>

definition pair :: "member \<Rightarrow> string \<times> string" where
  "pair m = (of_project m, of_user m)"

definition members_ok :: "site \<Rightarrow> bool" where
  "members_ok s \<longleftrightarrow> distinct (map pair (members s)) \<and> (\<forall>m \<in> set (members s). role m \<in> set valid_roles \<and>
     of_project m \<in> set (od_keys (projects s)) \<and> of_user m \<in> set (od_keys (users s)))"

text \<open>A project has one owner: the account of its column, which is the only member with that role.\<close>

definition owned :: "member list \<Rightarrow> string \<Rightarrow> project \<Rightarrow> bool" where
  "owned ms p r \<longleftrightarrow> (case owner_id r of None \<Rightarrow> False
     | Some u \<Rightarrow> (p, u) \<in> pair ` set ms \<and> (\<forall>m \<in> set ms. of_project m = p \<longrightarrow> (role m = ''owner'' \<longleftrightarrow> of_user m = u)))"

definition projects_ok :: "site \<Rightarrow> bool" where
  "projects_ok s \<longleftrightarrow> od_ok (projects s) \<and> (\<forall>(p, r) \<in> set (projects s). owned (members s) p r)"

definition invite_ok :: "site \<Rightarrow> invite \<Rightarrow> bool" where
  "invite_ok s v \<longleftrightarrow> inv_role v \<in> set assignable_roles \<and> inv_status v \<in> {''pending'', ''accepted'', ''revoked''} \<and>
     inv_project v \<in> set (od_keys (projects s)) \<and> invited_by v \<in> set (od_keys (users s)) \<and> norm_email (inv_email v) = inv_email v"

definition invites_ok :: "site \<Rightarrow> bool" where
  "invites_ok s \<longleftrightarrow> od_ok (invites s) \<and> distinct (map (\<lambda>(i, v). invite_key v) (invites s)) \<and>
     (\<forall>(i, v) \<in> set (invites s). invite_ok s v)"

definition rooms_ok :: "site \<Rightarrow> bool" where
  "rooms_ok s \<longleftrightarrow> members_ok s \<and> projects_ok s \<and> invites_ok s"

section \<open>One change\<close>

text \<open>An address that the request proves to be the account's.\<close>

fun proves_address :: "crypto \<Rightarrow> int \<Rightarrow> site \<Rightarrow> site \<Rightarrow> request \<Rightarrow> string \<Rightarrow> string \<Rightarrow> bool" where
  "proves_address C now s s' (AcceptInvite k j) u a \<longleftrightarrow>
     (\<exists>m w. get_current_user C now k s = Inr (u, m) \<and> get_by_id u s = Some w \<and> email_verified w \<and> norm_email (email w) = a)"
| "proves_address C now s s' (VerifyEmail tok) u a \<longleftrightarrow>
     (\<exists>w. get_by_id u s' = Some w \<and> email_verify_token w = Some (sha256 C tok) \<and> norm_email (email w) = a)"
| "proves_address C now s s' (GoogleLogin j cred c b n) u a \<longleftrightarrow>
     (\<exists>g. verify_google C cred = Some g \<and> g_email_verified g \<and>
       ((\<exists>w. get_by_id u s' = Some w \<and> norm_email (email w) = a \<and> (google_id w = Some (g_sub g) \<or> email w = norm_email (g_email g))) \<or>
        u = j \<and> norm_email (g_email g) = a))"
| "proves_address C now s s' rq u a \<longleftrightarrow> False"

definition new_invite :: "deployment \<Rightarrow> int \<Rightarrow> string \<Rightarrow> string \<Rightarrow> string \<Rightarrow> string \<Rightarrow> invite" where
  "new_invite D now p mail r by = \<lparr>inv_project = p, inv_email = norm_email mail, invited_by = by, inv_role = r, inv_status = ''pending'',
     inv_created_at = now, inv_expires_at = Some (now + invite_expiry_days D * day), inv_accepted_at = None\<rparr>"

definition with_project :: "string \<Rightarrow> string \<Rightarrow> string \<Rightarrow> site \<Rightarrow> site" where
  "with_project p name u s = s\<lparr>projects := projects s @ [(p, \<lparr>project_name = name, owner_id = Some u\<rparr>)],
     members := members s @ [\<lparr>of_project = p, of_user = u, role = ''owner''\<rparr>]\<rparr>"

inductive room_step :: "crypto \<Rightarrow> deployment \<Rightarrow> int \<Rightarrow> site \<Rightarrow> site \<Rightarrow> request \<Rightarrow> site \<Rightarrow> site \<Rightarrow> bool"
  for C D now s s' rq where
  kept: "same_rooms a b \<Longrightarrow> set (od_keys (users a)) \<subseteq> set (od_keys (users b)) \<Longrightarrow> room_step C D now s s' rq a b"
| made: "rq = CreateProject k p name \<Longrightarrow> get_current_user C now k s' = Inr (i, m) \<Longrightarrow> p \<notin> set (od_keys (projects a)) \<Longrightarrow>
    i \<in> set (od_keys (users a)) \<Longrightarrow> room_step C D now s s' rq a (with_project p name i a)"
| dropped: "rq = DeleteProject k p \<Longrightarrow> get_current_user C now k s' = Inr (i, m) \<Longrightarrow> get_role p i s' = Some ''owner'' \<Longrightarrow>
    room_step C D now s s' rq a (drop_projects (\<lambda>(q, r). q = p) a)"
| user_gone: "rq = DeleteAccount k \<Longrightarrow> get_current_user C now k s' = Inr (i, m) \<Longrightarrow> room_step C D now s s' rq a (drop_user i a)"
| invited: "rq = CreateInvite k j p mail r \<Longrightarrow> get_current_user C now k s = Inr (i, m) \<Longrightarrow> get_role p i s = Some ''owner'' \<Longrightarrow>
    r \<in> set assignable_roles \<Longrightarrow> insert_invite j (new_invite D now p mail r i) a = Some b \<Longrightarrow> room_step C D now s s' rq a b"
| revoked: "write_invite j (inv_status_update (\<lambda>_. ''revoked'')) a = Some b \<Longrightarrow> room_step C D now s s' rq a b"
| declined: "room_step C D now s s' rq a (a\<lparr>invites := od_del j (invites a)\<rparr>)"
| accepts: "map_of (invites c) j = Some v \<Longrightarrow> c = s \<or> c = a \<Longrightarrow> inv_status v = ''pending'' \<Longrightarrow> \<not> is_expired D now v \<Longrightarrow>
    proves_address C now s s' rq u (norm_email (inv_email v)) \<Longrightarrow> write_invite j (accepted now) a = Some t \<Longrightarrow>
    b = t \<or> insert_member (inv_project v) u (inv_role v) t = Some b \<Longrightarrow> room_step C D now s s' rq a b"
| left: "find_member p u a = Some m \<Longrightarrow> role m \<noteq> ''owner'' \<Longrightarrow> room_step C D now s s' rq a (delete_member p u a)"
| re_roled: "find_member p u a = Some m \<Longrightarrow> role m \<noteq> ''owner'' \<Longrightarrow> r \<in> set assignable_roles \<Longrightarrow>
    room_step C D now s s' rq a (update_role p u r a)"
| handed_over: "rq = TransferOwnership k p u \<Longrightarrow> get_current_user C now k s' = Inr (i, m) \<Longrightarrow>
    is_admin_email D m \<or> current_owner p a = Some i \<Longrightarrow> current_owner p a \<noteq> Some u \<Longrightarrow> find_member p u a \<noteq> None \<Longrightarrow> a = s' \<Longrightarrow>
    room_step C D now s s' rq a (set_owner p u (demoted p (current_owner p a) (update_role p u ''owner'' a)))"

abbreviation room_steps :: "crypto \<Rightarrow> deployment \<Rightarrow> int \<Rightarrow> site \<Rightarrow> site \<Rightarrow> request \<Rightarrow> site \<Rightarrow> site \<Rightarrow> bool" where
  "room_steps C D now s s' rq \<equiv> (room_step C D now s s' rq)\<^sup>*\<^sup>*"

section \<open>The tables stay in order\<close>

lemma roles [simp]: "r \<in> set assignable_roles \<Longrightarrow> r \<noteq> ''owner''" "r \<in> set assignable_roles \<Longrightarrow> r \<in> set valid_roles"
  "''owner'' \<in> set valid_roles" "''editor'' \<in> set assignable_roles"
  by (auto simp: assignable_roles_def valid_roles_def role_hierarchy_def)

lemma is_row_pair: "is_row p u m \<longleftrightarrow> pair m = (p, u)"
  by (auto simp: is_row_def pair_def)

lemma find_member_None: "find_member p u s = None \<longleftrightarrow> (p, u) \<notin> pair ` set (members s)"
  unfolding find_member_def find_None_iff is_row_pair by (metis image_iff)

lemma find_member_Some: "find_member p u s = Some m \<Longrightarrow> m \<in> set (members s) \<and> pair m = (p, u)"
  by (auto simp: find_member_def find_Some_iff is_row_pair)

lemma find_member_unique:
  assumes "members_ok s" "m \<in> set (members s)" "pair m = (p, u)"
  shows "find_member p u s = Some m"
proof (cases "find_member p u s")
  case None
  with assms(2,3) show ?thesis by (force simp: find_member_None)
next
  case (Some n)
  have "inj_on pair (set (members s))" using assms(1) by (simp add: members_ok_def distinct_map)
  with assms(2,3) find_member_Some [OF Some] have "n = m" by (metis inj_onD)
  with Some show ?thesis by simp
qed

lemma pair_role [simp]: "pair (m\<lparr>role := r\<rparr>) = pair m"
  by (simp add: pair_def)

lemma update_role_pairs [simp]: "map pair (members (update_role p u r s)) = map pair (members s)"
  by (auto simp: update_role_def)

lemma update_role_same [simp]: "projects (update_role p u r s) = projects s" "invites (update_role p u r s) = invites s"
  "users (update_role p u r s) = users s"
  by (simp_all add: update_role_def)

lemma set_update_role: "m \<in> set (members (update_role p u r s)) \<longleftrightarrow>
    (\<exists>n \<in> set (members s). m = (if pair n = (p, u) then n\<lparr>role := r\<rparr> else n))"
  by (auto simp: update_role_def is_row_pair)

lemma members_ok_role:
  assumes "members_ok s" "r \<in> set valid_roles"
  shows "members_ok (update_role p u r s)"
  using assms unfolding members_ok_def Ball_def by (auto simp: set_update_role)

lemma pairs_image: "map pair ms = map pair ns \<Longrightarrow> pair ` set ms = pair ` set ns"
  by (metis set_map)

lemma projects_ok_role:
  assumes "rooms_ok s" "find_member p u s = Some m" "role m \<noteq> ''owner''" "r \<noteq> ''owner''"
  shows "projects_ok (update_role p u r s)"
proof -
  have m: "m \<in> set (members s)" "pair m = (p, u)" using find_member_Some [OF assms(2)] by simp_all
  have "owned (members (update_role p u r s)) q x" if q: "owned (members s) q x" for q x
    using q m assms(3,4) pairs_image [OF update_role_pairs, of p u r s]
    by (auto simp: owned_def set_update_role pair_def split: option.splits if_splits)
  with assms(1) show ?thesis by (auto simp: rooms_ok_def projects_ok_def)
qed

lemma invites_ok_same: "invites t = invites s \<Longrightarrow> set (od_keys (projects s)) \<subseteq> set (od_keys (projects t)) \<Longrightarrow>
    set (od_keys (users s)) \<subseteq> set (od_keys (users t)) \<Longrightarrow> invites_ok s \<Longrightarrow> invites_ok t"
  by (fastforce simp: invites_ok_def invite_ok_def)

lemma rooms_ok_role:
  assumes "rooms_ok s" "find_member p u s = Some m" "role m \<noteq> ''owner''" "r \<in> set assignable_roles"
  shows "rooms_ok (update_role p u r s)"
  using assms members_ok_role [of s r p u] projects_ok_role [OF assms(1-3), of r] invites_ok_same [of "update_role p u r s" s]
  by (simp add: rooms_ok_def)

lemma rooms_ok_kept:
  assumes "same_rooms a b" "set (od_keys (users a)) \<subseteq> set (od_keys (users b))" "rooms_ok a"
  shows "rooms_ok b"
proof -
  have "members_ok b" using assms unfolding rooms_ok_def members_ok_def same_rooms_def by auto
  moreover have "projects_ok b" using assms unfolding rooms_ok_def projects_ok_def same_rooms_def by simp
  moreover have "invites_ok b" using assms by (intro invites_ok_same [of b a]) (auto simp: rooms_ok_def same_rooms_def)
  ultimately show ?thesis by (simp add: rooms_ok_def)
qed

lemma owned_filter:
  assumes "owned ms p r" "\<And>m. m \<in> set ms \<Longrightarrow> of_project m = p \<Longrightarrow> owner_id r = Some (of_user m) \<Longrightarrow> P m"
  shows "owned (filter P ms) p r"
  using assms by (fastforce simp: owned_def pair_def split: option.splits)

lemma rooms_ok_delete:
  assumes "rooms_ok s" "find_member p u s = Some m" "role m \<noteq> ''owner''"
  shows "rooms_ok (delete_member p u s)"
proof -
  have m: "m \<in> set (members s)" "pair m = (p, u)" using find_member_Some [OF assms(2)] by simp_all
  have "owned (filter (\<lambda>m. \<not> is_row p u m) (members s)) q x" if "owned (members s) q x" for q x
    by (rule owned_filter [OF that]) (use m assms(3) that in \<open>auto simp: owned_def is_row_pair pair_def\<close>)
  then show ?thesis
    using assms(1) invites_ok_same [of "delete_member p u s" s]
    by (auto simp: rooms_ok_def members_ok_def projects_ok_def delete_member_def distinct_map_filter)
qed

lemma rooms_ok_insert:
  assumes "rooms_ok s" "insert_member p u r s = Some t" "r \<in> set assignable_roles"
  shows "rooms_ok t"
proof -
  from assms(2) have t: "t = s\<lparr>members := members s @ [\<lparr>of_project = p, of_user = u, role = r\<rparr>]\<rparr>"
    and new: "(p, u) \<notin> pair ` set (members s)" "p \<in> set (od_keys (projects s))" "u \<in> set (od_keys (users s))"
    by (auto simp: insert_member_def find_member_None split: if_splits)
  have "owned (members t) q x" if "owned (members s) q x" for q x
    using that new assms(3) by (auto simp: owned_def t pair_def split: option.splits)
  then show ?thesis
    using assms(1,3) new invites_ok_same [of t s] by (auto simp: rooms_ok_def members_ok_def projects_ok_def t pair_def)
qed

lemma distinct_keys_set:
  assumes "distinct (map fst d)" "distinct (map (\<lambda>(i, v). f v) d)" "i \<in> fst ` set d" "\<not> list_ex (\<lambda>(j, w). j \<noteq> i \<and> f w = f v) d"
  shows "distinct (map (\<lambda>(i, v). f v) (od_set i v d))"
  using assms
proof (induction d)
  case (Cons e d)
  obtain j w where e: "e = (j, w)" by (cases e)
  show ?case
  proof (cases "j = i")
    case True
    have other: "f y \<noteq> f v" if y: "(k, y) \<in> set d" for k y
    proof -
      from y have "k \<in> fst ` set d" by (rule image_eqI [rotated]) simp
      with Cons.prems(1) e True have "k \<noteq> i" by auto
      with Cons.prems(4) y e show ?thesis by (auto simp: list_ex_iff)
    qed
    have "f v \<notin> (\<lambda>(i, v). f v) ` set d"
    proof
      assume "f v \<in> (\<lambda>(i, v). f v) ` set d"
      then obtain k y where "(k, y) \<in> set d" "f y = f v" by (auto dest: sym)
      with other show False by blast
    qed
    with Cons.prems e True show ?thesis by (simp add: od_set_def)
  next
    case False
    with Cons e have ih: "distinct (map (\<lambda>(i, v). f v) (od_set i v d))" by simp
    have "f w \<noteq> f v" "f w \<notin> (\<lambda>(i, v). f v) ` set d" using Cons.prems(2,4) False by (simp_all add: e)
    then have "f w \<notin> (\<lambda>(i, v). f v) ` insert (i, v) (set d)" by simp
    then have "f w \<notin> (\<lambda>(i, v). f v) ` set (od_set i v d)" using set_od_set [of i v d] by blast
    with ih False e show ?thesis by (simp add: od_set_def)
  qed
qed simp

lemma write_inviteD:
  assumes "write_invite i f s = Some t"
  obtains v where "map_of (invites s) i = Some v" "t = s\<lparr>invites := od_set i (f v) (invites s)\<rparr>"
    "\<not> list_ex (\<lambda>(j, w). j \<noteq> i \<and> invite_key w = invite_key (f v)) (invites s)"
  using assms by (auto simp: write_invite_def split: option.splits if_splits)

lemma rooms_ok_write:
  assumes "rooms_ok s" "write_invite i f s = Some t" "\<And>v. invite_ok s v \<Longrightarrow> invite_ok s (f v)"
  shows "rooms_ok t"
proof -
  obtain v where v: "map_of (invites s) i = Some v" and t: "t = s\<lparr>invites := od_set i (f v) (invites s)\<rparr>"
    and key: "\<not> list_ex (\<lambda>(j, w). j \<noteq> i \<and> invite_key w = invite_key (f v)) (invites s)"
    by (rule write_inviteD [OF assms(2)])
  have ok: "od_ok (invites s)" "distinct (map (\<lambda>(i, v). invite_key v) (invites s))"
      "(\<And>j w. (j, w) \<in> set (invites s) \<Longrightarrow> invite_ok s w)"
    using assms(1) by (auto simp: rooms_ok_def invites_ok_def)
  have fv: "invite_ok s (f v)" using assms(3) ok(3) map_of_SomeD [OF v] by blast
  have i: "i \<in> fst ` set (invites s)" using v by (force dest: map_of_SomeD)
  have "distinct (map (\<lambda>(i, v). invite_key v) (od_set i (f v) (invites s)))"
    by (rule distinct_keys_set [OF _ ok(2) i key]) (use ok(1) in \<open>simp add: od_ok_def od_keys_def\<close>)
  moreover have "invite_ok s w" if "(j, w) \<in> set (od_set i (f v) (invites s))" for j w
    using that set_od_set [of i "f v" "invites s"] fv ok(3) by blast
  ultimately have "invites_ok t"
    using ok(1) by (auto simp: invites_ok_def t invite_ok_def)
  with assms(1) show ?thesis by (simp add: rooms_ok_def t members_ok_def projects_ok_def)
qed

lemma rooms_ok_invited:
  assumes "rooms_ok s" "insert_invite i (new_invite D now p mail r by) s = Some t" "r \<in> set assignable_roles"
  shows "rooms_ok t"
proof -
  let ?v = "new_invite D now p mail r by"
  have t: "t = s\<lparr>invites := invites s @ [(i, ?v)]\<rparr>" and i: "i \<notin> set (od_keys (invites s))"
    and key: "\<forall>(j, w) \<in> set (invites s). invite_key w \<noteq> invite_key ?v"
    and fk: "inv_project ?v \<in> set (od_keys (projects s))" "invited_by ?v \<in> set (od_keys (users s))"
    using assms(2) by (auto simp: insert_invite_def list_ex_iff split: if_splits)
  have v: "invite_ok s ?v" using fk assms(3) by (simp add: invite_ok_def new_invite_def)
  have old: "od_ok (invites s)" "distinct (map (\<lambda>(i, v). invite_key v) (invites s))" "\<forall>(j, w) \<in> set (invites s). invite_ok s w"
    using assms(1) by (simp_all add: rooms_ok_def invites_ok_def)
  have "invite_key ?v \<notin> (\<lambda>(i, v). invite_key v) ` set (invites s)" using key by force
  then have "distinct (map (\<lambda>(i, v). invite_key v) (invites t))" using old(2) by (simp add: t)
  moreover have "od_ok (invites t)" using old(1) i by (simp add: t od_ok_def)
  moreover have "invite_ok t w" if "(j, w) \<in> set (invites t)" for j w
    using that old(3) v by (auto simp: t invite_ok_def)
  ultimately have "invites_ok t" by (auto simp: invites_ok_def)
  with assms(1) show ?thesis by (simp add: rooms_ok_def t members_ok_def projects_ok_def)
qed

lemma rooms_ok_declined:
  assumes "rooms_ok s"
  shows "rooms_ok (s\<lparr>invites := od_del j (invites s)\<rparr>)"
  using assms by (auto simp: rooms_ok_def members_ok_def projects_ok_def invites_ok_def invite_ok_def od_del_def od_ok_def od_keys_def
      distinct_map_filter)

lemma rooms_ok_made:
  assumes "rooms_ok s" "p \<notin> set (od_keys (projects s))" "i \<in> set (od_keys (users s))"
  shows "rooms_ok (with_project p name i s)"
proof -
  let ?t = "with_project p name i s"
  have fk: "of_project m \<noteq> p" if "m \<in> set (members s)" for m
    using that assms(1,2) by (auto simp: rooms_ok_def members_ok_def)
  then have "(p, i) \<notin> pair ` set (members s)" by (auto simp: pair_def)
  then have "members_ok ?t"
    using assms(1,3) by (auto simp: rooms_ok_def members_ok_def with_project_def) (auto simp: pair_def)
  moreover have "owned (members ?t) q x" if "owned (members s) q x" "q \<noteq> p" for q x
    using that by (auto simp: owned_def with_project_def pair_def split: option.splits)
  moreover have "owned (members ?t) p \<lparr>project_name = name, owner_id = Some i\<rparr>"
    using fk by (auto simp: owned_def with_project_def pair_def)
  moreover have "q \<noteq> p" if "(q, x) \<in> set (projects s)" for q x
    using that assms(2) by (force simp: od_keys_def)
  ultimately have "projects_ok ?t"
    using assms(1,2) unfolding rooms_ok_def projects_ok_def with_project_def od_ok_def by auto
  moreover have "invites_ok ?t"
    using assms(1) by (intro invites_ok_same [of ?t s]) (auto simp: rooms_ok_def with_project_def)
  ultimately show ?thesis using \<open>members_ok ?t\<close> by (simp add: rooms_ok_def)
qed

lemma kept_keys: "set (od_keys (filter (\<lambda>e. \<not> P e) d)) \<union> set (map fst (filter P d)) = set (od_keys d)"
  by (auto simp: od_keys_def)

lemma gone_keys: "od_ok d \<Longrightarrow> (p, r) \<in> set d \<Longrightarrow> \<not> P (p, r) \<Longrightarrow> p \<notin> set (map fst (filter P d))"
  by (auto simp: od_ok_map_of)

lemma rooms_ok_dropped:
  assumes "rooms_ok s"
  shows "rooms_ok (drop_projects P s)"
proof -
  let ?gone = "set (map fst (filter P (projects s)))" and ?t = "drop_projects P s"
  have t: "projects ?t = filter (\<lambda>e. \<not> P e) (projects s)" "members ?t = filter (\<lambda>m. of_project m \<notin> ?gone) (members s)"
    "invites ?t = filter (\<lambda>(i, v). inv_project v \<notin> ?gone) (invites s)" "users ?t = users s"
    by (simp_all add: drop_projects_def Let_def)
  have keys: "q \<in> set (od_keys (projects ?t))" if "q \<in> set (od_keys (projects s))" "q \<notin> ?gone" for q
    using that kept_keys [of P "projects s"] unfolding t by blast
  have ok: "od_ok (projects s)" using assms by (simp add: rooms_ok_def projects_ok_def)
  have "members_ok ?t" using assms keys by (auto simp: rooms_ok_def members_ok_def t distinct_map_filter)
  moreover have "owned (members ?t) q x" if "(q, x) \<in> set (projects ?t)" for q x
  proof -
    from that have q: "(q, x) \<in> set (projects s)" "\<not> P (q, x)" by (simp_all add: t)
    then have "owned (members s) q x" using assms by (auto simp: rooms_ok_def projects_ok_def)
    then show ?thesis unfolding t by (rule owned_filter) (use gone_keys [where P = P, OF ok q] in simp)
  qed
  then have "projects_ok ?t" using ok by (auto simp: projects_ok_def t)
  moreover have "invites_ok ?t"
    using assms keys by (auto simp: rooms_ok_def invites_ok_def invite_ok_def t distinct_map_filter)
  ultimately show ?thesis by (simp add: rooms_ok_def)
qed

lemma rooms_ok_user_gone:
  assumes "rooms_ok s"
  shows "rooms_ok (drop_user i s)"
proof -
  let ?a = "drop_projects (\<lambda>(p, r). owner_id r = Some i) s" and ?t = "drop_user i s"
  have a: "rooms_ok ?a" by (rule rooms_ok_dropped [OF assms])
  have t: "projects ?t = projects ?a" "members ?t = filter (\<lambda>m. of_user m \<noteq> i) (members ?a)"
    "invites ?t = filter (\<lambda>(k, v). invited_by v \<noteq> i) (invites ?a)" "users ?t = od_del i (users ?a)"
    by (simp_all add: drop_user_def Let_def)
  have others: "owner_id r \<noteq> Some i" if "(p, r) \<in> set (projects ?a)" for p r
    using that by (auto simp: drop_projects_def Let_def)
  have "owned (members ?t) p r" if p: "(p, r) \<in> set (projects ?t)" for p r
  proof -
    from p a have "owned (members ?a) p r" by (auto simp: t rooms_ok_def projects_ok_def)
    then show ?thesis unfolding t(2) by (rule owned_filter) (use others p in \<open>auto simp: t\<close>)
  qed
  then have "projects_ok ?t" using a by (auto simp: rooms_ok_def projects_ok_def t)
  moreover have "members_ok ?t" using a by (auto simp: rooms_ok_def members_ok_def t distinct_map_filter)
  moreover have "invites_ok ?t" using a by (auto simp: rooms_ok_def invites_ok_def invite_ok_def t distinct_map_filter)
  ultimately show ?thesis by (simp add: rooms_ok_def)
qed

lemma owner_column:
  assumes "rooms_ok s" "p \<in> set (od_keys (projects s))"
  obtains r u where "map_of (projects s) p = Some r" "owner_id r = Some u" "owner_of p s = Some u" "owned (members s) p r"
proof -
  obtain r where r: "map_of (projects s) p = Some r" using assms(2) map_of_keys [of "projects s" p] by blast
  have o: "owned (members s) p r" using assms(1) map_of_SomeD [OF r] by (auto simp: rooms_ok_def projects_ok_def)
  then obtain u where "owner_id r = Some u" by (auto simp: owned_def split: option.splits)
  with r o that show ?thesis by (simp add: owner_of_def)
qed

lemma member_project: "rooms_ok s \<Longrightarrow> find_member p u s \<noteq> None \<Longrightarrow> p \<in> set (od_keys (projects s))"
proof -
  assume ok: "rooms_ok s" and "find_member p u s \<noteq> None"
  then obtain m where "m \<in> set (members s)" "pair m = (p, u)" by (auto dest!: find_member_Some)
  with ok show ?thesis by (auto simp: rooms_ok_def members_ok_def pair_def)
qed

lemma owner_is_member: "rooms_ok s \<Longrightarrow> owner_of p s = Some u \<Longrightarrow> \<exists>m. find_member p u s = Some m \<and> role m = ''owner''"
proof -
  assume ok: "rooms_ok s" and u: "owner_of p s = Some u"
  then obtain r where r: "map_of (projects s) p = Some r" "owner_id r = Some u" by (auto simp: owner_of_def split: option.splits)
  have "owned (members s) p r" using ok map_of_SomeD [OF r(1)] by (auto simp: rooms_ok_def projects_ok_def)
  with r(2) obtain m where m: "m \<in> set (members s)" "pair m = (p, u)" "role m = ''owner''"
    by (auto simp: owned_def pair_def)
  from find_member_unique [OF _ m(1,2)] ok m(3) show ?thesis by (simp add: rooms_ok_def)
qed

lemma set_owner_same [simp]: "members (set_owner p u s) = members s" "invites (set_owner p u s) = invites s"
  "users (set_owner p u s) = users s" "od_keys (projects (set_owner p u s)) = od_keys (projects s)"
  by (simp_all add: set_owner_def od_keys_def comp_def split_def if_distrib [where f = fst] cong: if_cong)

lemma rooms_ok_handed_over:
  assumes "rooms_ok a" "find_member p u a \<noteq> None" "current_owner p a \<noteq> Some u"
  shows "rooms_ok (set_owner p u (demoted p (current_owner p a) (update_role p u ''owner'' a)))"
proof -
  obtain r u0 where r: "map_of (projects a) p = Some r" "owner_id r = Some u0" "owner_of p a = Some u0" "owned (members a) p r"
    using owner_column [OF assms(1) member_project [OF assms(1,2)]] by blast
  have cur: "current_owner p a = Some u0" and ne: "u0 \<noteq> u" using r(3) assms(3) by (auto simp: current_owner_def)
  let ?b = "update_role p u ''owner'' a" and ?c = "update_role p u0 ''editor'' (update_role p u ''owner'' a)"
  have at: "(p, u0) \<in> pair ` set (members a)" using r(2,4) by (simp add: owned_def)
  have "(p, u0) \<in> pair ` set (members ?b)" using at pairs_image [OF update_role_pairs, of p u "''owner''" a] by simp
  then have t: "demoted p (current_owner p a) ?b = ?c" by (simp add: cur demoted_def find_member_None)
  have mem: "m \<in> set (members ?c) \<longleftrightarrow> (\<exists>n \<in> set (members a). m = (if pair n = (p, u0) then n\<lparr>role := ''editor''\<rparr>
      else if pair n = (p, u) then n\<lparr>role := ''owner''\<rparr> else n))" for m
  proof -
    have img: "set (members (update_role p v x c)) = (\<lambda>n. if pair n = (p, v) then n\<lparr>role := x\<rparr> else n) ` set (members c)" for v x c
      by (simp add: update_role_def is_row_pair)
    have "set (members ?c) = (\<lambda>n. if pair n = (p, u0) then n\<lparr>role := ''editor''\<rparr>
        else if pair n = (p, u) then n\<lparr>role := ''owner''\<rparr> else n) ` set (members a)"
      unfolding img image_image by (rule image_cong) (use ne in simp_all)
    then show ?thesis by blast
  qed
  have pairs: "pair ` set (members ?c) = pair ` set (members a)" by (rule pairs_image) simp
  have "members_ok ?c" using assms(1) by (intro members_ok_role) (auto simp: rooms_ok_def)
  then have "members_ok (set_owner p u ?c)" by (simp add: members_ok_def)
  moreover have "role m = ''owner'' \<longleftrightarrow> of_user m = u" if m: "m \<in> set (members ?c)" "of_project m = p" for m
  proof -
    from m(1) obtain n where n: "n \<in> set (members a)" "m = (if pair n = (p, u0) then n\<lparr>role := ''editor''\<rparr>
        else if pair n = (p, u) then n\<lparr>role := ''owner''\<rparr> else n)" unfolding mem by blast
    then have "pair m = pair n" by simp
    with m(2) have "of_project n = p" "of_user m = of_user n" by (simp_all add: pair_def)
    with n r(2,4) ne show ?thesis by (auto simp: owned_def pair_def)
  qed
  then have "owned (members ?c) p (r\<lparr>owner_id := Some u\<rparr>)"
    using assms(2) pairs by (simp add: owned_def find_member_None)
  moreover have "owned (members ?c) q x" if "owned (members a) q x" "q \<noteq> p" for q x
    using that pairs by (auto simp: owned_def mem pair_def split: option.splits)
  moreover have "x = r" if "(p, x) \<in> set (projects a)" for x
    using that assms(1) r(1) by (auto simp: rooms_ok_def projects_ok_def od_ok_map_of)
  ultimately have "projects_ok (set_owner p u ?c)"
    using assms(1) unfolding rooms_ok_def projects_ok_def od_ok_def set_owner_same
    by (auto simp: set_owner_def split: if_splits)
  moreover have "invites_ok (set_owner p u ?c)"
    using assms(1) by (intro invites_ok_same [of "set_owner p u ?c" a]) (auto simp: rooms_ok_def)
  ultimately show ?thesis using \<open>members_ok (set_owner p u ?c)\<close> by (simp add: t rooms_ok_def)
qed

lemma accepted_same [simp]: "inv_role (accepted now v) = inv_role v" "inv_project (accepted now v) = inv_project v"
  "invited_by (accepted now v) = invited_by v" "inv_email (accepted now v) = inv_email v" "inv_status (accepted now v) = ''accepted''"
  by (simp_all add: accepted_def)

theorem step_rooms_ok:
  assumes "room_step C D now s s' rq a b" "rooms_ok s" "rooms_ok a"
  shows "rooms_ok b"
  using assms(1)
proof (cases rule: room_step.cases)
  case (accepts c j v u t)
  then have "invite_ok c v" using assms(2,3) map_of_SomeD [OF accepts(1)] by (auto simp: rooms_ok_def invites_ok_def)
  then have r: "inv_role v \<in> set assignable_roles" by (simp add: invite_ok_def)
  have t: "rooms_ok t" by (rule rooms_ok_write [OF assms(3) accepts(6)]) (simp add: invite_ok_def)
  from accepts(7) show ?thesis using t rooms_ok_insert [OF t _ r] by blast
next
  case (invited k j p mail r i m)
  then show ?thesis using assms(3) by (blast intro: rooms_ok_invited)
next
  case (revoked j)
  show ?thesis by (rule rooms_ok_write [OF assms(3) revoked]) (simp add: invite_ok_def)
next
  case kept
  with assms(3) show ?thesis by (blast intro: rooms_ok_kept)
qed (use assms(3) in \<open>auto intro: rooms_ok_made rooms_ok_dropped rooms_ok_user_gone rooms_ok_declined rooms_ok_delete
    rooms_ok_role rooms_ok_handed_over\<close>)

end
