(* ===== verification/AccountProperties.thy ===== *)
theory AccountProperties
  imports AccessRows
begin

text \<open>
  What holds of accounts in every run: sessions that a new password ends stay ended, a reset link
  works once, a verified address was proved, and how an account that somebody else registered first
  is taken over.
\<close>

section \<open>Over runs\<close>

definition creates :: "string \<Rightarrow> request \<Rightarrow> bool" where
  "creates i rq \<longleftrightarrow> (\<exists>salt tok mail pw name. rq = Register i salt tok mail pw name) \<or>
     (\<exists>cred c b n. rq = GoogleLogin i cred c b n)"

lemma users_ok_put [simp]: "od_ok (users s) \<Longrightarrow> od_ok (users (put_user i u s))"
  by (simp add: put_user_def od_ok_set)

lemma users_ok_insert: "insert_user i u s = Some t \<Longrightarrow> od_ok (users s) \<Longrightarrow> od_ok (users t)"
  by (auto simp: insert_user_def od_ok_def split: if_splits)

lemma users_ok_mail [simp]: "od_ok (users (send_mail a m s)) \<longleftrightarrow> od_ok (users s)"
  by (simp add: send_mail_def)

lemma users_ok_same: "same_users s t \<Longrightarrow> od_ok (users s) \<Longrightarrow> od_ok (users t)"
  by (simp add: same_users_def)

lemma users_ok_drop: "od_ok (users s) \<Longrightarrow> od_ok (users (drop_user i s))"
  by (simp add: drop_user_def drop_projects_def Let_def od_ok_del)

lemma register_ok: "register C D now i salt tok mail pw name s' s = (x, t) \<Longrightarrow> od_ok (users s') \<Longrightarrow> od_ok (users t)"
  by (auto simp: register_def register_user_def issue_email_verification_def Let_def split: if_splits option.splits
      dest: users_ok_insert)

lemma verify_ok: "verify_address C D now tok s = (x, t) \<Longrightarrow> od_ok (users s) \<Longrightarrow> od_ok (users t)"
  by (auto simp: verify_address_def verify_email_def Let_def split: if_splits option.splits sum.splits prod.splits
      elim!: finishedE dest!: auto_accept_frame users_ok_same)

lemma find_or_create_ok: "find_or_create_google_user i g s' s = (x, t) \<Longrightarrow> od_ok (users s') \<Longrightarrow> od_ok (users t)"
  by (auto simp: find_or_create_google_user_def write_user_def split: if_splits option.splits dest: users_ok_insert)

lemma google_ok: "google_login C D now i cred c b n s' s = (x, t) \<Longrightarrow> od_ok (users s') \<Longrightarrow> od_ok (users t)"
  by (auto simp: google_login_def split: if_splits option.splits sum.splits prod.splits
      dest!: auto_accept_frame dest: find_or_create_ok users_ok_same)

lemma serve_ok:
  assumes "serve C D now s' s rq = (x, t)" and ok: "od_ok (users s')"
  shows "od_ok (users t)"
proof -
  have same: "od_ok (users t)" if "same_users s' t" using that ok by (rule users_ok_same)
  show ?thesis
  proof (cases rq)
    case (Register i salt tok mail pw name)
    with assms show ?thesis by (auto dest: register_ok)
  next
    case (VerifyEmail tok)
    with assms show ?thesis by (auto dest: verify_ok)
  next
    case (ResendVerification k tok)
    with assms show ?thesis
      by (auto simp: resend_verification_def issue_email_verification_def elim!: as_userE split: option.splits if_splits)
  next
    case (ForgotPassword tok mail)
    with assms show ?thesis by (auto simp: forgot_password_def issue_password_reset_def split: option.splits if_splits)
  next
    case (ResetPassword tok salt pw)
    with assms show ?thesis
      by (auto simp: reset_password_def elim!: finishedE split: option.splits if_splits sum.splits)
  next
    case (Login mail pw)
    with assms show ?thesis by (auto simp: login_def split: option.splits)
  next
    case (GoogleLogin j cred c b n)
    with assms show ?thesis by (auto dest: google_ok)
  next
    case (ChangePassword k salt cur pw)
    with assms show ?thesis by (auto simp: change_password_def elim!: as_userE split: option.splits if_splits)
  next
    case (Refresh k)
    with assms show ?thesis by (auto simp: refresh_def elim!: as_userE split: option.splits)
  next
    case (CompleteOnboarding k)
    with assms show ?thesis by (auto simp: complete_onboarding_def elim!: as_userE split: option.splits)
  next
    case (DeleteAccount k)
    with assms show ?thesis by (auto elim!: as_userE intro: users_ok_drop)
  next
    case (CreateInvite k j p mail r)
    with assms show ?thesis by (auto elim!: as_userE in_roleE dest: invite_address_frame)
  next
    case (ResendInvite k p j)
    with assms show ?thesis by (auto simp: resend_invite_def elim!: as_userE in_roleE split: option.splits)
  qed (use assms(1) in \<open>auto intro!: same elim!: as_userE in_roleE finishedE foundE split: if_splits prod.splits
      dest: frames\<close>)
qed

text \<open>What a row that was not made again keeps, or it is gone.\<close>

definition carried :: "string \<Rightarrow> site \<Rightarrow> site \<Rightarrow> bool" where
  "carried i s t \<longleftrightarrow> (case get_by_id i t of None \<Rightarrow> True
     | Some v \<Rightarrow> (\<exists>u. get_by_id i s = Some u \<and> token_version u \<le> token_version v \<and> email v = email u
         \<and> (email_verified u \<longrightarrow> email_verified v)))"

lemma carried_trans: "carried i s t \<Longrightarrow> carried i t u \<Longrightarrow> carried i s u"
  by (fastforce simp: carried_def split: option.splits)

lemma row_carried: "row_change C rq i r (Some v) \<Longrightarrow> \<not> creates i rq \<Longrightarrow>
    \<exists>u. r = Some u \<and> token_version u \<le> token_version v \<and> email v = email u \<and> (email_verified u \<longrightarrow> email_verified v)"
  by (erule row_changeE) (auto simp: creates_def linked_def with_picture_def)

lemma serve_carried:
  assumes "serve C D now s' s rq = (x, t)" "od_ok (users s')" "\<not> creates i rq"
  shows "carried i s' t"
proof (cases "get_by_id i t")
  case (Some v)
  from serve_rows [OF assms(1,2), of i] Some have "row_change C rq i (get_by_id i s') (Some v)" by simp
  from row_carried [OF this assms(3)] Some show ?thesis by (simp add: carried_def)
qed (simp add: carried_def)

lemma run_ok: "access_run C s es t \<Longrightarrow> od_ok (users s) \<Longrightarrow> od_ok (users t)"
  by (induction rule: access_run.induct) (auto intro: serve_ok)

lemma run_carried:
  assumes "access_run C s es t" "od_ok (users s)" "\<forall>ev \<in> set es. \<not> creates i (ev_request ev)"
  shows "carried i s t"
  using assms
proof (induction rule: access_run.induct)
  case (idle s)
  then show ?case by (simp add: carried_def split: option.split)
next
  case (served s es t fs t' D now rq x u)
  have "od_ok (users t)" by (rule run_ok [OF served.hyps(1) served.prems(1)])
  moreover from this have "od_ok (users t')" by (rule run_ok [OF served.hyps(2)])
  ultimately show ?case
    using served.IH served.prems serve_carried [OF served.hyps(3), of i] by (auto intro: carried_trans)
qed

section \<open>Sessions\<close>

lemma stale_token_refused:
  assumes "carried i s t" "get_by_id i s = Some u" "n < token_version u" "as_version (c_ver c) = Some n" "c_sub c = Some i"
    "decode_jwt C now tok = Some c"
  shows "user_from_jwt C now tok t = Inl (Http 401)"
    and "(case bearer (authorization k) of Some b \<Rightarrow> b | None \<Rightarrow> session_cookie k) = tok \<Longrightarrow>
      \<exists>e. get_current_user C now k t = Inl e"
  using assms by (auto simp: carried_def user_from_jwt_def get_current_user_def not_revoked_def Let_def split: option.splits)

lemma password_bumps:
  "row_change C rq i (Some u) (Some v) \<Longrightarrow> password_hash v \<noteq> password_hash u \<Longrightarrow> token_version v = token_version u + 1"
  by (erule row_changeE) (auto simp: linked_def with_picture_def split: if_splits)


section \<open>Reset links\<close>

definition no_link :: "crypto \<Rightarrow> string \<Rightarrow> site \<Rightarrow> bool" where
  "no_link C tok s \<longleftrightarrow> (\<forall>i u. get_by_id i s = Some u \<longrightarrow> password_reset_token u \<noteq> Some (sha256 C tok))"

lemma serve_no_link:
  assumes "serve C D now s' s rq = (x, t)" "od_ok (users s')" "no_link C tok s'"
    and "\<And>tok' mail. rq = ForgotPassword tok' mail \<Longrightarrow> sha256 C tok' \<noteq> sha256 C tok"
  shows "no_link C tok t"
  unfolding no_link_def
proof (intro allI impI)
  fix i v assume v: "get_by_id i t = Some v"
  from serve_rows [OF assms(1,2), of i] v have "row_change C rq i (get_by_id i s') (Some v)" by simp
  then show "password_reset_token v \<noteq> Some (sha256 C tok)"
    by (rule row_changeE)
       (use assms(3,4) in \<open>auto simp: no_link_def linked_def with_picture_def new_email_user_def new_google_user_def\<close>)
qed

lemma run_no_link:
  assumes "access_run C s es t" "od_ok (users s)" "no_link C tok s"
    "\<forall>ev \<in> set es. \<forall>tok' mail. ev_request ev = ForgotPassword tok' mail \<longrightarrow> sha256 C tok' \<noteq> sha256 C tok"
  shows "no_link C tok t"
  using assms
proof (induction rule: access_run.induct)
  case (served s es t fs t' D now rq x u)
  have "od_ok (users t)" by (rule run_ok [OF served.hyps(1) served.prems(1)])
  moreover from this have "od_ok (users t')" by (rule run_ok [OF served.hyps(2)])
  moreover have "no_link C tok t" using served.prems by (intro served.IH(1)) (simp_all add: ball_Un)
  then have "no_link C tok t'" using served.prems calculation(1) by (intro served.IH(2)) (simp_all add: ball_Un)
  ultimately show ?case using served.prems by (intro serve_no_link [OF served.hyps(3)]) (simp_all add: ball_Un)
qed

text \<open>
  C17. A reset link works once: after it has set a password it is refused and changes nothing, until a
  link with the same digest is issued.
\<close>

theorem reset_link_once:
  assumes "serve C D now s' s (ResetPassword tok salt pw) = (Inr a, s1)" and "od_ok (users s')"
    and "access_run C s1 es t"
    and "\<forall>ev \<in> set es. \<forall>tok' mail. ev_request ev = ForgotPassword tok' mail \<longrightarrow> sha256 C tok' \<noteq> sha256 C tok"
  shows "\<exists>e. serve C D' later t t (ResetPassword tok salt' pw') = (Inl e, t)"
proof -
  obtain i u where u: "user_by (\<lambda>u. password_reset_token u = Some (sha256 C tok)) s' = Inr (Some (i, u))"
      and s1: "s1 = put_user i (u\<lparr>password_hash := Some (hash_password C salt pw), password_reset_token := None,
         password_reset_expires_at := None, token_version := token_version u + 1\<rparr>) s'"
    using assms(1) by (auto simp: reset_password_def split: if_splits sum.splits option.splits elim!: finishedE)
  have "no_link C tok s1"
    using user_by_row [OF assms(2) u] by (auto simp: no_link_def s1)
  from run_no_link [OF assms(3) _ this assms(4)] serve_ok [OF assms(1,2)] have none: "no_link C tok t" by simp
  have "od_ok (users t)" by (rule run_ok [OF assms(3) serve_ok [OF assms(1,2)]])
  then have "user_by (\<lambda>u. password_reset_token u = Some (sha256 C tok)) t \<noteq> Inr (Some (j, w))" for j w
    using user_by_row [of t _ j w] none by (auto simp: no_link_def)
  then show ?thesis
    by (auto simp: reset_password_def finished_def split: sum.splits option.splits)
qed

section \<open>Verified addresses\<close>

lemma mails_simps [simp]:
  "mails (put_user i u s) = mails s" "mails (send_mail a m s) = mails s @ [(a, m)]" "mails (drop_user i s) = mails s"
  by (simp_all add: put_user_def send_mail_def drop_user_def drop_projects_def Let_def)

lemma mails_insert: "insert_user i u s = Some t \<Longrightarrow> mails t = mails s"
  by (auto simp: insert_user_def split: if_splits)

lemma mails_same: "same_users s t \<Longrightarrow> mails t = mails s"
  by (simp add: same_users_def)

definition tokens_mailed :: "crypto \<Rightarrow> site \<Rightarrow> bool" where
  "tokens_mailed C s \<longleftrightarrow> (\<forall>i u h. get_by_id i s = Some u \<longrightarrow> email_verify_token u = Some h \<longrightarrow>
     (\<exists>tok. h = sha256 C tok \<and> (email u, VerifyMail tok) \<in> set (mails s)))"

lemma register_mailed:
  assumes "register C D now i salt tok mail pw name s' s = (x, t)"
  shows "t = s' \<or> (norm_email mail, VerifyMail tok) \<in> set (mails t)" and "set (mails s') \<subseteq> set (mails t)"
  using assms
  by (auto simp: register_def register_user_def issue_email_verification_def new_email_user_def Let_def split: if_splits option.splits
      dest: mails_insert)

lemma serve_mails:
  assumes "serve C D now s' s rq = (x, t)"
  shows "(a, VerifyMail k) \<in> set (mails s') \<Longrightarrow> (a, VerifyMail k) \<in> set (mails t)"
proof -
  assume in_before: "(a, VerifyMail k) \<in> set (mails s')"
  have same: "(a, VerifyMail k) \<in> set (mails t)" if "same_users s' t" using in_before mails_same [OF that] by simp
  show ?thesis
  proof (cases rq)
    case (Register i salt tok mail pw name)
    with assms in_before show ?thesis using register_mailed(2) by fastforce
  next
    case (VerifyEmail tok)
    with assms in_before show ?thesis
      by (auto simp: verify_address_def verify_email_def Let_def split: if_splits option.splits sum.splits prod.splits
          elim!: finishedE dest!: auto_accept_frame mails_same)
  next
    case (ResendVerification k tok)
    with assms in_before show ?thesis
      by (auto simp: resend_verification_def issue_email_verification_def elim!: as_userE split: option.splits if_splits)
  next
    case (ForgotPassword tok mail)
    with assms in_before show ?thesis by (auto simp: forgot_password_def issue_password_reset_def split: option.splits if_splits)
  next
    case (ResetPassword tok salt pw)
    with assms in_before show ?thesis
      by (auto simp: reset_password_def elim!: finishedE split: option.splits if_splits sum.splits)
  next
    case (Login mail pw)
    with assms in_before show ?thesis by (auto simp: login_def split: option.splits)
  next
    case (GoogleLogin j cred c b n)
    with assms in_before show ?thesis
      by (auto simp: google_login_def find_or_create_google_user_def write_user_def
          split: if_splits option.splits sum.splits prod.splits dest!: auto_accept_frame mails_same mails_insert)
  next
    case (ChangePassword k salt cur pw)
    with assms in_before show ?thesis by (auto simp: change_password_def elim!: as_userE split: option.splits if_splits)
  next
    case (Refresh k)
    with assms in_before show ?thesis by (auto simp: refresh_def elim!: as_userE split: option.splits)
  next
    case (CompleteOnboarding k)
    with assms in_before show ?thesis by (auto simp: complete_onboarding_def elim!: as_userE split: option.splits)
  next
    case (DeleteAccount k)
    with assms in_before show ?thesis by (auto elim!: as_userE)
  next
    case (CreateInvite k j p mail r)
    with assms in_before show ?thesis by (auto elim!: as_userE in_roleE dest: invite_address_frame)
  next
    case (ResendInvite k p j)
    with assms in_before show ?thesis by (auto simp: resend_invite_def elim!: as_userE in_roleE split: option.splits)
  qed (use assms in \<open>auto intro!: same elim!: as_userE in_roleE finishedE foundE split: if_splits prod.splits dest: frames\<close>)
qed

lemma serve_tokens_mailed:
  assumes "serve C D now s' s rq = (x, t)" "od_ok (users s')" "tokens_mailed C s'"
  shows "tokens_mailed C t"
  unfolding tokens_mailed_def
proof (intro allI impI)
  fix i v h assume v: "get_by_id i t = Some v" and h: "email_verify_token v = Some h"
  have old: "\<exists>tok. h = sha256 C tok \<and> (email v, VerifyMail tok) \<in> set (mails t)"
    if "get_by_id i s' = Some u" "email_verify_token u = Some h" "email u = email v" for u
    using assms(3) that serve_mails [OF assms(1)] unfolding tokens_mailed_def by metis
  show "\<exists>tok. h = sha256 C tok \<and> (email v, VerifyMail tok) \<in> set (mails t)"
  proof (cases "\<exists>k tok. rq = ResendVerification k tok")
    case True
    then obtain k tok where rq: "rq = ResendVerification k tok" by blast
    from assms(1)[unfolded rq serve.simps] show ?thesis
    proof (rule as_userE)
      fix j m assume "resend_verification C tok j s' = (x, t)"
      then have "t = s' \<or> (\<exists>u. get_by_id j s' = Some u \<and>
          t = send_mail (email u) (VerifyMail tok) (put_user j (u\<lparr>email_verify_token := Some (sha256 C tok)\<rparr>) s'))"
        by (auto simp: resend_verification_def issue_email_verification_def split: option.splits if_splits)
      then show ?thesis
      proof (elim disjE exE conjE)
        fix u assume u: "get_by_id j s' = Some u"
          "t = send_mail (email u) (VerifyMail tok) (put_user j (u\<lparr>email_verify_token := Some (sha256 C tok)\<rparr>) s')"
        show ?thesis
        proof (cases "i = j")
          case True
          with u v h show ?thesis by (intro exI [of _ tok]) auto
        next
          case False
          with u v have "get_by_id i s' = Some v" by simp
          from old [OF this h refl] show ?thesis .
        qed
      qed (use v h old [of v] in simp)
    qed (use v h old [of v] in simp)
  next
    case False
    from serve_rows [OF assms(1,2), of i] v have "row_change C rq i (get_by_id i s') (Some v)" by simp
    then show ?thesis
    proof (cases rule: row_change.cases)
      case same
      then show ?thesis using old [of v] h by simp
    next
      case (registered salt tok mail pw name)
      from assms(1) have "register C D now i salt tok mail pw name s' s = (x, t)" by (simp add: registered)
      from register_mailed(1) [OF this] v registered have "(norm_email mail, VerifyMail tok) \<in> set (mails t)" by auto
      with registered h show ?thesis by (auto simp: new_email_user_def)
    qed (use False h old in \<open>auto simp: linked_def with_picture_def new_google_user_def split: if_splits\<close>)
  qed
qed

lemma run_tokens_mailed:
  assumes "access_run C s es t" "od_ok (users s)" "tokens_mailed C s"
  shows "tokens_mailed C t"
  using assms
proof (induction rule: access_run.induct)
  case (served s es t fs t' D now rq x u)
  have "od_ok (users t)" by (rule run_ok [OF served.hyps(1) served.prems(1)])
  moreover from this have "od_ok (users t')" by (rule run_ok [OF served.hyps(2)])
  ultimately show ?case using served.IH served.prems by (intro serve_tokens_mailed [OF served.hyps(3)]) simp_all
qed

text \<open>How the address of an account is proved: with a link that was mailed to it, or by Google.\<close>

definition proves :: "crypto \<Rightarrow> string \<Rightarrow> site \<Rightarrow> request \<Rightarrow> bool" where
  "proves C e s rq \<longleftrightarrow>
     (\<exists>tok sent. rq = VerifyEmail tok \<and> sha256 C sent = sha256 C tok \<and> (e, VerifyMail sent) \<in> set (mails s)) \<or>
     (\<exists>j cred c b n g. rq = GoogleLogin j cred c b n \<and> verify_google C cred = Some g \<and> g_email_verified g \<and> norm_email (g_email g) = e)"

lemma proves_mono:
  "(\<And>a k. (a, VerifyMail k) \<in> set (mails s) \<Longrightarrow> (a, VerifyMail k) \<in> set (mails t)) \<Longrightarrow> proves C e s rq \<Longrightarrow> proves C e t rq"
  unfolding proves_def by blast

lemma run_mails: "access_run C s es t \<Longrightarrow> (a, VerifyMail k) \<in> set (mails s) \<Longrightarrow> (a, VerifyMail k) \<in> set (mails t)"
  by (induction rule: access_run.induct) (auto intro: serve_mails)

lemma serve_proved:
  assumes "serve C D now s' s rq = (x, t)" "od_ok (users s')" "tokens_mailed C s'"
    and "get_by_id i t = Some v" "email_verified v" "\<not> (\<exists>u. get_by_id i s' = Some u \<and> email_verified u \<and> email u = email v)"
  shows "proves C (email v) t rq"
proof -
  from serve_rows [OF assms(1,2), of i] assms(4) have "row_change C rq i (get_by_id i s') (Some v)" by simp
  then show ?thesis
  proof (cases rule: row_change.cases)
    case (verified u tok)
    from assms(3) verified obtain sent where "sha256 C sent = sha256 C tok" "(email u, VerifyMail sent) \<in> set (mails s')"
      unfolding tokens_mailed_def by metis
    with serve_mails [OF assms(1)] verified show ?thesis by (auto simp: proves_def)
  qed (use assms(5,6) in \<open>auto simp: proves_def new_email_user_def new_google_user_def linked_def with_picture_def split: if_splits\<close>)
qed

text \<open>
  C16. An account whose address counts as verified has proved it: some request presented a link that
  was mailed to this very address, or a sign-in in which Google vouched for it.
\<close>

theorem verified_means_proved:
  assumes "access_run C s es t" and "od_ok (users s)" and "tokens_mailed C s"
    and "get_by_id i t = Some v" and "email_verified v"
    and "\<not> (\<exists>u. get_by_id i s = Some u \<and> email_verified u \<and> email u = email v)"
  shows "\<exists>ev \<in> set es. proves C (email v) t (ev_request ev)"
  using assms
proof (induction arbitrary: v rule: access_run.induct)
  case (served s es t fs t' D now rq x u)
  have ok: "od_ok (users t)" by (rule run_ok [OF served.hyps(1) served.prems(1)])
  then have ok': "od_ok (users t')" by (rule run_ok [OF served.hyps(2)])
  have m: "tokens_mailed C t" by (rule run_tokens_mailed [OF served.hyps(1) served.prems(1,2)])
  then have m': "tokens_mailed C t'" by (rule run_tokens_mailed [OF served.hyps(2) ok])
  have later: "proves C e u q" if "proves C e t' q" for e q
    by (rule proves_mono [OF serve_mails [OF served.hyps(3)] that])
  have later': "proves C e u q" if "proves C e t q" for e q
    by (rule later [OF proves_mono [OF run_mails [OF served.hyps(2)] that]])
  show ?case
  proof (cases "\<exists>w. get_by_id i t' = Some w \<and> email_verified w \<and> email w = email v")
    case False
    from serve_proved [OF served.hyps(3) ok' m' served.prems(3,4) False] show ?thesis by simp
  next
    case True
    then obtain w where w: "get_by_id i t' = Some w" "email_verified w" "email w = email v" by blast
    show ?thesis
    proof (cases "\<exists>w. get_by_id i t = Some w \<and> email_verified w \<and> email w = email v")
      case False
      with served.IH(2) [OF ok m w(1,2)] w(3) obtain ev where "ev \<in> set fs" "proves C (email v) t' (ev_request ev)" by auto
      with later show ?thesis by (intro bexI [of _ ev]) simp_all
    next
      case True
      then obtain y where "get_by_id i t = Some y" "email_verified y" "email y = email v" by blast
      with served.IH(1) [OF served.prems(1,2), of y] served.prems(5) obtain ev where
        "ev \<in> set es" "proves C (email v) t (ev_request ev)" by auto
      with later' show ?thesis by (intro bexI [of _ ev]) simp_all
    qed
  qed
qed simp

section \<open>Registered by somebody else\<close>

lemma find_only:
  assumes "od_ok d" "map_of d i = Some u" "P u" "\<And>j v. map_of d j = Some v \<Longrightarrow> P v \<Longrightarrow> j = i"
  shows "List.find (\<lambda>(j, v). P v) d = Some (i, u)"
proof -
  have "(i, u) \<in> set d" using assms(2) by (rule map_of_SomeD)
  then have "List.find (\<lambda>(j, v). P v) d \<noteq> None" using assms(3) by (auto simp: find_None_iff)
  then obtain j v where f: "List.find (\<lambda>(j, v). P v) d = Some (j, v)" by auto
  from find_row [OF assms(1) this] assms(2,4) have "j = i" "v = u" by auto
  with f show ?thesis by simp
qed

lemma list_ex_rows: "od_ok (users s) \<Longrightarrow> list_ex (\<lambda>(j, v). P v) (users s) \<longleftrightarrow> (\<exists>j v. get_by_id j s = Some v \<and> P v)"
  by (auto simp: list_ex_iff get_by_id_def od_ok_map_of) blast+

lemma registered_row:
  assumes "register C D now i salt tok mail pw name s s = (Inr a, s1)" "od_ok (users s)"
  shows "get_by_id j s1 = (if j = i then Some ((new_email_user (norm_email mail) (hash_password C salt pw) name)\<lparr>email_verify_token := Some (sha256 C tok)\<rparr>)
      else get_by_id j s)"
    and "get_by_id j s = Some v \<Longrightarrow> email v \<noteq> norm_email mail"
proof -
  let ?u = "new_email_user (norm_email mail) (hash_password C salt pw) name"
  from assms(1) obtain t1 where ins: "insert_user i ?u s = Some t1" and fresh: "\<not> list_ex (\<lambda>(j, v). email v = norm_email mail) (users s)"
    and s1: "s1 = send_mail (email ?u) (VerifyMail tok) (issue_email_verification C tok i ?u t1)"
    by (auto simp: register_def register_user_def Let_def split: if_splits option.splits)
  show "get_by_id j s1 = (if j = i then Some (?u\<lparr>email_verify_token := Some (sha256 C tok)\<rparr>) else get_by_id j s)"
    using get_insert(1) [OF ins, of j] by (simp add: s1 issue_email_verification_def)
  show "email v \<noteq> norm_email mail" if "get_by_id j s = Some v"
    using fresh that list_ex_rows [OF assms(2), of "\<lambda>v. email v = norm_email mail"] by blast
qed

text \<open>
  C37. Somebody registers an address that is not theirs; when its owner later signs in with Google, the
  account is linked and counts as verified, but keeps the other's password, which still opens it. The
  only assumptions on the hash are that it is no empty text and accepts the password it was made from.
\<close>

theorem prehijacked_account:
  assumes "hash_password C salt pw \<noteq> []" and "verify_password C pw (hash_password C salt pw)" and "od_ok (users s)"
    and "serve C D now s s (Register i salt tok mail pw name) = (Inr a, s1)"
    and "verify_google C cred = Some g" and "g_email_verified g" and "norm_email (g_email g) = norm_email mail"
    and "\<forall>(j, v) \<in> set (users s). google_id v \<noteq> Some (g_sub g)"
    and "serve C D' now' s1 s1 (GoogleLogin j cred [] [] []) = (Inr b, s2)"
  shows "\<exists>u session. get_by_id i s2 = Some u \<and> google_id u = Some (g_sub g) \<and> email_verified u \<and> can_create_projects u \<and>
    serve C D'' later s2 s2 (Login mail pw) = (Inr (SignedIn i session), s2)"
proof -
  let ?e = "norm_email mail"
  let ?u = "(new_email_user ?e (hash_password C salt pw) name)\<lparr>email_verify_token := Some (sha256 C tok)\<rparr>"
  have reg: "register C D now i salt tok mail pw name s s = (Inr a, s1)" using assms(4) by simp
  note row = registered_row [OF reg assms(3)]
  have ok1: "od_ok (users s1)" using serve_ok [OF assms(4,3)] .
  have fields: "email ?u = ?e" "google_id ?u = None" "password_hash ?u = Some (hash_password C salt pw)"
    "email_verified ?u = False" by (simp_all add: new_email_user_def)
  have no_gid: "google_id v \<noteq> Some (g_sub g)" if "get_by_id k s1 = Some v" for k v
    using that assms(8) row(1) [of k] fields(2) by (auto simp: get_by_id_def split: if_splits dest!: map_of_SomeD [OF sym])
  have only: "k = i" if "get_by_id k s1 = Some v" "email v = ?e" for k v
    using that row by (auto split: if_splits)
  have mine: "get_by_id i s1 = Some ?u" using row(1) [of i] by simp
  let ?s = "put_user i (linked g ?u) s1"
  have "find_or_create_google_user j g s1 s1 = (Inr ((i, linked g ?u), False), ?s)"
  proof -
    have "\<not> list_ex (\<lambda>(k, v). google_id v = Some (g_sub g)) (users s1)"
      using no_gid unfolding list_ex_rows [OF ok1, of "\<lambda>v. google_id v = Some (g_sub g)"] by blast
    moreover have "list_ex (\<lambda>(k, v). email v = ?e) (users s1)"
      using mine fields(1) unfolding list_ex_rows [OF ok1, of "\<lambda>v. email v = ?e"] by blast
    moreover have "List.find (\<lambda>(k, v). email v = ?e) (users s1) = Some (i, ?u)"
      by (rule find_only [where P = "\<lambda>v. email v = ?e", OF ok1 mine [unfolded get_by_id_def] fields(1)]) (rule only [unfolded get_by_id_def])
    moreover have "\<not> list_ex (\<lambda>(k, v). k \<noteq> i \<and> google_id v = google_id (linked g ?u)) (users s1)"
    proof
      assume "list_ex (\<lambda>(k, v). k \<noteq> i \<and> google_id v = google_id (linked g ?u)) (users s1)"
      then obtain k v where "(k, v) \<in> set (users s1)" "google_id v = Some (g_sub g)" by (auto simp: list_ex_iff linked_def)
      with no_gid [of k v] od_ok_map_of [OF ok1, of k v] show False by (simp add: get_by_id_def)
    qed
    ultimately show ?thesis
      unfolding find_or_create_google_user_def write_user_def assms(7) by simp
  qed
  then have same: "same_users ?s s2"
    using assms(5,6,9) by (auto simp: google_login_def split: if_splits option.splits sum.splits prod.splits dest: auto_accept_frame)
  have ok2: "od_ok (users s2)" by (rule users_ok_same [OF same]) (simp add: ok1)
  have row2: "get_by_id k s2 = (if k = i then Some (linked g ?u) else get_by_id k s1)" for k
    by (simp add: get_same [OF same])
  have link: "email (linked g ?u) = ?e" "password_hash (linked g ?u) = Some (hash_password C salt pw)"
    "google_id (linked g ?u) = Some (g_sub g)" "email_verified (linked g ?u)" "can_create_projects (linked g ?u)"
    using fields by (simp_all add: linked_def)
  have "List.find (\<lambda>(k, v). email v = ?e) (users s2) = Some (i, linked g ?u)"
  proof (rule find_only [OF ok2])
    show "map_of (users s2) i = Some (linked g ?u)" using row2 [of i] by (simp add: get_by_id_def)
    show "k = i" if "map_of (users s2) k = Some v" "email v = ?e" for k v
    proof (rule ccontr)
      assume ne: "k \<noteq> i"
      with row2 [of k] that(1) have "get_by_id k s1 = Some v" by (simp add: get_by_id_def)
      from only [OF this that(2)] ne show False by blast
    qed
  qed (rule link(1))
  then have "authenticate C mail pw s2 = Some (i, linked g ?u)"
    using assms(1,2) link(2) by (simp add: authenticate_def)
  then show ?thesis using row2 [of i] link(3-5) by (simp add: login_def signed_in_def)
qed

section \<open>Examples\<close>

definition sample_crypto :: crypto where
  "sample_crypto = \<lparr>sha256 = (\<lambda>t. CHR ''h'' # t), hash_password = (\<lambda>salt pw. CHR ''p'' # pw),
     verify_password = (\<lambda>pw h. h = CHR ''p'' # pw), encode_jwt = (\<lambda>c e. ''t''),
     decode_jwt = (\<lambda>now t. if t = ''t'' then Some \<lparr>c_sub = Some ''u1'', c_email = ''ann@x'', c_ver = PInt 0\<rparr> else None),
     verify_google = (\<lambda>c. if c = ''g'' then Some \<lparr>g_sub = ''sub'', g_email = ''Ann@x'', g_email_verified = True, g_name = ''Ann'',
       g_picture = [], g_nonce = []\<rparr> else None)\<rparr>"

definition sample_deployment :: deployment where
  "sample_deployment = \<lparr>jwt_expire_minutes = 1440, password_reset_expiry_hours = 1, invite_expiry_days = 14,
     mcp_token_default_expiry_days = 90, google_client_id = ''id'', admin_emails = [], server_key = [], server_key_user = [],
     entitled = (\<lambda>u. Some (no_plan ''none'' False None))\<rparr>"

definition empty_site :: site where
  "empty_site = \<lparr>users = [], projects = [], members = [], invites = [], connections = [], vendor_credentials = [],
     mcp_keys = [], chat_sessions = [], mails = []\<rparr>"

definition sample_register :: request where
  "sample_register = Register ''u1'' ''salt'' ''v'' ''ann@x'' ''password1'' []"

definition serve_at :: "int \<Rightarrow> site \<Rightarrow> request \<Rightarrow> answer served" where
  "serve_at now s rq = serve sample_crypto sample_deployment now s s rq"

definition site1 :: site where "site1 = snd (serve_at 0 empty_site sample_register)"
definition site2 :: site where "site2 = snd (serve_at 0 site1 (ForgotPassword ''r'' ''ann@x''))"
definition site3 :: site where "site3 = snd (serve_at 0 site2 (ResetPassword ''r'' ''salt'' ''password2''))"

lemma serve_at_ok: "od_ok (users s) \<Longrightarrow> od_ok (users (snd (serve_at now s rq)))"
  unfolding serve_at_def by (rule serve_ok [OF surjective_pairing])

lemma ok_sites: "od_ok (users empty_site)" "od_ok (users site1)" "od_ok (users site2)"
  by (simp_all add: site1_def site2_def serve_at_ok empty_site_def)

lemma sample_reset: "serve sample_crypto sample_deployment 0 site2 site2 (ResetPassword ''r'' ''salt'' ''password2'') = (Inr Done, site3)"
proof -
  have "fst (serve_at 0 site2 (ResetPassword ''r'' ''salt'' ''password2'')) = Inr Done" by code_simp
  then show ?thesis by (simp add: serve_at_def site3_def prod_eq_iff)
qed

lemma reset_link_once_witness:
  "\<exists>e. serve sample_crypto sample_deployment 1 site3 site3 (ResetPassword ''r'' ''salt'' ''password3'') = (Inl e, site3)"
  by (rule reset_link_once [OF sample_reset ok_sites(3) access_run.idle]) simp


lemma verified_means_proved_witness:
  "\<exists>t v. get_by_id ''u1'' t = Some v \<and> email_verified v \<and> proves sample_crypto (email v) t (VerifyEmail ''v'')"
proof -
  obtain x where reg: "serve sample_crypto sample_deployment 0 empty_site empty_site sample_register = (x, site1)"
    by (simp add: site1_def serve_at_def prod_eq_iff)
  obtain y t where ver: "serve sample_crypto sample_deployment 0 site1 site1 (VerifyEmail ''v'') = (y, t)" by fastforce
  then have t: "t = snd (serve_at 0 site1 (VerifyEmail ''v''))" by (simp add: serve_at_def)
  have "map_option email_verified (get_by_id ''u1'' (snd (serve_at 0 site1 (VerifyEmail ''v'')))) = Some True" by code_simp
  then obtain v where v: "get_by_id ''u1'' t = Some v" "email_verified v" unfolding t by auto
  have none: "\<not> (\<exists>u. get_by_id ''u1'' site1 = Some u \<and> email_verified u \<and> email u = email v)"
  proof -
    have "map_option email_verified (get_by_id ''u1'' site1) = Some False" by code_simp
    then show ?thesis by auto
  qed
  have mailed: "tokens_mailed sample_crypto site1"
    by (rule serve_tokens_mailed [OF reg ok_sites(1)]) (simp add: tokens_mailed_def get_by_id_def empty_site_def)
  from verified_means_proved [OF access_run.served [OF access_run.idle access_run.idle ver] ok_sites(2) mailed v none] v
  show ?thesis by auto
qed

lemma prehijacked_account_witness:
  "\<exists>s2 u session. get_by_id ''u1'' s2 = Some u \<and> email_verified u \<and>
    serve sample_crypto sample_deployment 2 s2 s2 (Login ''ann@x'' ''password1'') = (Inr (SignedIn ''u1'' session), s2)"
proof -
  have "fst (serve_at 0 empty_site sample_register) = Inr (SignedIn ''u1'' ''t'')" by code_simp
  then have reg: "serve sample_crypto sample_deployment 0 empty_site empty_site (Register ''u1'' ''salt'' ''v'' ''ann@x'' ''password1'' [])
      = (Inr (SignedIn ''u1'' ''t''), site1)"
    by (simp add: serve_at_def site1_def sample_register_def prod_eq_iff)
  define s2 where "s2 = snd (serve_at 1 site1 (GoogleLogin ''u2'' ''g'' [] [] []))"
  moreover have "fst (serve_at 1 site1 (GoogleLogin ''u2'' ''g'' [] [] [])) = Inr (SignedIn ''u1'' ''t'')" by code_simp
  ultimately have google: "serve sample_crypto sample_deployment 1 site1 site1 (GoogleLogin ''u2'' ''g'' [] [] []) = (Inr (SignedIn ''u1'' ''t''), s2)"
    by (simp add: serve_at_def prod_eq_iff)
  define g where "g = the (verify_google sample_crypto ''g'')"
  have vg: "verify_google sample_crypto ''g'' = Some g" "g_email_verified g" by (simp_all add: g_def sample_crypto_def)
  have same: "norm_email (g_email g) = norm_email ''ann@x''" unfolding g_def by code_simp
  have hash: "hash_password sample_crypto ''salt'' ''password1'' \<noteq> []"
    "verify_password sample_crypto ''password1'' (hash_password sample_crypto ''salt'' ''password1'')" by (simp_all add: sample_crypto_def)
  have fresh: "\<forall>(j, v) \<in> set (users empty_site). google_id v \<noteq> Some (g_sub g)" by (simp add: empty_site_def)
  from prehijacked_account [OF hash ok_sites(1) reg vg same fresh google, where D'' = sample_deployment and later = 2]
  show ?thesis by blast
qed

end
