(* ===== verification/RoomRuns.thy ===== *)
theory RoomRuns
  imports RoomSteps AccountProperties
begin

text \<open>
  Every request changes projects, memberships and invitations by \<open>room_step\<close>s only (\<open>serve_steps\<close>),
  and what follows for runs: the tables stay in order, access is traced to its grant, ownership to a
  transfer and an invitation to an owner.
\<close>

section \<open>Requests as steps\<close>

lemma keeps: "same_rooms a b \<Longrightarrow> set (od_keys (users a)) \<subseteq> set (od_keys (users b)) \<Longrightarrow> room_steps C D now s s' rq a b"
  by (blast intro: room_step.kept)

lemma stays [simp]: "room_steps C D now s s' rq a a"
  by (rule rtranclp.rtrancl_refl)

lemma users_keys_put [simp]: "set (od_keys (users (put_user i u s))) = insert i (set (od_keys (users s)))"
  by (simp add: put_user_def od_keys_set)

lemma users_keys_mail [simp]: "users (send_mail a m s) = users s" "users (put_key k x s) = users s"
  by (simp_all add: send_mail_def put_key_def)

lemma insert_user_keys: "insert_user i u s = Some t \<Longrightarrow> set (od_keys (users s)) \<subseteq> set (od_keys (users t))"
  by (auto simp: insert_user_def split: if_splits)

lemma room_keeps [simp]: "room_steps C D now s s' rq a (send_mail x m a)" "room_steps C D now s s' rq a (put_user i u a)"
  "room_steps C D now s s' rq a (put_key k y a)" "room_steps C D now s s' rq a (a\<lparr>mcp_keys := ks\<rparr>)"
  by (rule keeps; auto)+

lemma owner_only: "require_role p i ''owner'' s = Inr r \<Longrightarrow> get_role p i s = Some ''owner''"
  by (auto simp: require_role_def role_rank_def role_hierarchy_def valid_roles_def split: if_splits option.splits)

lemma accept_step:
  assumes "accept_invite D now i u skip a c = (y, b)" "c = s \<or> c = a"
    and "\<And>v. map_of (invites c) i = Some v \<Longrightarrow>
      skip \<or> (\<exists>w. get_by_id u c = Some w \<and> norm_email (email w) = norm_email (inv_email v) \<and> email_verified w) \<Longrightarrow>
      proves_address C now s s' rq u (norm_email (inv_email v))"
  shows "room_steps C D now s s' rq a b"
proof (cases "b = a")
  case False
  then obtain v t where v: "map_of (invites c) i = Some v" "inv_status v = ''pending''" "\<not> is_expired D now v"
      and checked: "skip \<or> (\<exists>w. get_by_id u c = Some w \<and> norm_email (email w) = norm_email (inv_email v) \<and> email_verified w)"
      and t: "write_invite i (accepted now) a = Some t" "b = t \<or> insert_member (inv_project v) u (inv_role v) t = Some b"
    using assms(1) by (auto simp: accept_invite_def split: option.splits if_splits)
  from room_step.accepts [OF v(1) assms(2) v(2,3) assms(3) [OF v(1) checked] t] show ?thesis by blast
qed simp

lemma accept_invite_emails:
  assumes "accept_invite D now i u skip a c = (y, b)" "map_of (invites b) j = Some w"
  shows "\<exists>v. map_of (invites a) j = Some v \<and> inv_email v = inv_email w"
proof (cases "b = a")
  case False
  then obtain t where t: "write_invite i (accepted now) a = Some t" "invites b = invites t"
    using assms(1) by (auto simp: accept_invite_def insert_member_def split: option.splits if_splits)
  from t(1) obtain v where "map_of (invites a) i = Some v" "invites t = od_set i (accepted now v) (invites a)"
    by (rule write_inviteD) simp
  with assms(2) t(2) show ?thesis by (auto simp: odict_simps split: if_splits)
qed (use assms(2) in simp)

lemma accept_each_steps:
  assumes "accept_each D now u vs a = (y, b)"
    and "\<And>i v w. (i, v) \<in> set vs \<Longrightarrow> map_of (invites a) i = Some w \<Longrightarrow> norm_email (inv_email w) = e"
    and "proves_address C now s s' rq u e"
  shows "room_steps C D now s s' rq a b"
  using assms
proof (induction vs arbitrary: a y b)
  case (Cons iv vs)
  obtain i v where iv: "iv = (i, v)" by (cases iv)
  show ?case
  proof (cases "is_expired D now v")
    case True
    from Cons.IH [of a y b] Cons.prems True show ?thesis by (simp add: iv) blast
  next
    case False
    obtain z c where z: "accept_invite D now i u True a a = (z, c)" by fastforce
    have e: "norm_email (inv_email w) = e" if "map_of (invites a) i = Some w" for w
      by (rule Cons.prems(2) [OF _ that, of v]) (simp add: iv)
    have one: "room_steps C D now s s' rq a c"
      by (rule accept_step [OF z]) (use e Cons.prems(3) in auto)
    show ?thesis
    proof (cases z)
      case (Inl err)
      with Cons.prems(1) False z iv one show ?thesis by simp
    next
      case (Inr m)
      obtain y' b' where rest: "accept_each D now u vs c = (y', b')" by fastforce
      with Cons.prems(1) False z iv Inr have b: "b' = b" by (auto split: sum.splits)
      have later: "norm_email (inv_email w) = e" if "(j, x) \<in> set vs" "map_of (invites c) j = Some w" for j x w
      proof -
        from accept_invite_emails [OF z that(2)] obtain v' where "map_of (invites a) j = Some v'" "inv_email v' = inv_email w" by blast
        with Cons.prems(2) [of j x v'] that(1) show ?thesis by simp
      qed
      from Cons.IH [OF rest later Cons.prems(3)] one b show ?thesis by (simp add: rtranclp_trans)
    qed
  qed
qed simp

lemma auto_accept_steps:
  assumes "auto_accept_for_user D now u mail a = (y, b)" "rooms_ok a" "proves_address C now s s' rq u (norm_email mail)"
  shows "room_steps C D now s s' rq a b"
proof (rule accept_each_steps [OF assms(1)[unfolded auto_accept_for_user_def] _ assms(3)])
  fix i v w
  assume "(i, v) \<in> set (list_pending_for_email mail a)" and w: "map_of (invites a) i = Some w"
  then have "(i, v) \<in> set (invites a)" and e: "inv_email v = norm_email mail"
    by (auto simp: list_pending_for_email_def rows_where_def)
  moreover have "od_ok (invites a)" using assms(2) by (simp add: rooms_ok_def invites_ok_def)
  ultimately have "v = w" using w by (simp add: od_ok_map_of)
  with e show "norm_email (inv_email w) = norm_email mail" by simp
qed

lemma register_steps:
  assumes "register C D now i salt tok mail pw name s' s = (x, t)"
  shows "room_steps C D now s s' rq s' t"
proof (cases "t = s'")
  case False
  let ?u = "new_email_user (norm_email mail) (hash_password C salt pw) name"
  obtain t1 where t1: "insert_user i ?u s' = Some t1" "t = send_mail (norm_email mail) (VerifyMail tok) (issue_email_verification C tok i ?u t1)"
    using assms False by (auto simp: register_def register_user_def Let_def new_email_user_def split: if_splits option.splits)
  show ?thesis
    by (rule keeps) (use t1 insert_user_frame [OF t1(1)] insert_user_keys [OF t1(1)] in \<open>auto simp: issue_email_verification_def\<close>)
qed simp

lemma verify_steps:
  assumes "verify_address C D now tok s' = (x, t)" "od_ok (users s')" "rooms_ok s'"
  shows "room_steps C D now s s' (VerifyEmail tok) s' t"
proof (cases "t = s'")
  case False
  have "\<exists>i u. tok \<noteq> [] \<and> user_by (\<lambda>u. email_verify_token u = Some (sha256 C tok)) s' = Inr (Some (i, u))"
    using assms(1) False by (auto simp: verify_address_def verify_email_def Let_def split: if_splits option.splits sum.splits)
  then obtain i u where u: "user_by (\<lambda>u. email_verify_token u = Some (sha256 C tok)) s' = Inr (Some (i, u))" and ne: "tok \<noteq> []" by blast
  let ?a = "put_user i (u\<lparr>email_verified := True, email_verify_token := None, can_create_projects := True\<rparr>) s'"
  from assms(1) u ne obtain y where auto: "auto_accept_for_user D now i (email u) ?a = (y, t)"
    by (auto simp: verify_address_def verify_email_def Let_def elim!: finishedE)
  have "rooms_ok ?a" by (rule rooms_ok_kept [OF _ _ assms(3)]) auto
  moreover have "proves_address C now s s' (VerifyEmail tok) i (norm_email (email u))"
    using user_by_row [OF assms(2) u] by auto
  ultimately have "room_steps C D now s s' (VerifyEmail tok) ?a t" by (rule auto_accept_steps [OF auto])
  then show ?thesis by (rule rtranclp_trans [OF room_keeps(2)])
qed simp

lemma google_user_proved:
  assumes "find_or_create_google_user i g s' s = (Inr ((j, u), new), t)" "od_ok (users s')"
    and "verify_google C cred = Some g" "g_email_verified g"
  shows "same_rooms s' t \<and> set (od_keys (users s')) \<subseteq> set (od_keys (users t)) \<and>
    proves_address C now s s' (GoogleLogin i cred c b n) j (norm_email (email u))"
proof -
  have found: ?thesis if w: "write_user P f s' = (Inr ((j, u), new), t)"
      and f: "\<And>w. P w \<Longrightarrow> email (f w) = email w \<and> (google_id w = Some (g_sub g) \<or> email w = norm_email (g_email g))" for P f
  proof -
    obtain w where k: "List.find (\<lambda>(j, u). P u) (users s') = Some (j, w)" "u = f w" "t = put_user j (f w) s'"
      using w by (auto simp: write_user_def split: option.splits if_splits)
    from find_row [OF assms(2) k(1)] f [of w] k assms(3,4) show ?thesis by (auto simp: get_by_id_def)
  qed
  have made: ?thesis if "insert_user i (new_google_user g) s' = Some t" "j = i" "u = new_google_user g"
    using that assms(3,4) insert_user_frame [OF that(1)] insert_user_keys [OF that(1)] by (auto simp: new_google_user_def)
  show ?thesis
    using assms(1) found [of "\<lambda>u. google_id u = Some (g_sub g)" "with_picture g"] found [of "\<lambda>u. email u = norm_email (g_email g)" "linked g"] made
    by (auto simp: find_or_create_google_user_def with_picture_def linked_def split: if_splits option.splits)
qed

lemma google_steps:
  assumes "google_login C D now i cred c b n s' s = (x, t)" "od_ok (users s')" "rooms_ok s'"
  shows "room_steps C D now s s' (GoogleLogin i cred c b n) s' t"
proof (cases "t = s'")
  case False
  then obtain g where g: "verify_google C cred = Some g" "g_email_verified g"
    using assms(1) by (auto simp: google_login_def split: if_splits option.splits)
  obtain y t1 where y: "find_or_create_google_user i g s' s = (y, t1)" by fastforce
  show ?thesis
  proof (cases y)
    case (Inl e)
    then have "t1 = s'" using y by (auto simp: find_or_create_google_user_def write_user_def split: if_splits option.splits)
    with assms(1) g y Inl False show ?thesis by (auto simp: google_login_def split: if_splits option.splits)
  next
    case (Inr r)
    then obtain j u new where r: "y = Inr ((j, u), new)" by (cases r) auto
    have row: "same_rooms s' t1" "set (od_keys (users s')) \<subseteq> set (od_keys (users t1))"
        "proves_address C now s s' (GoogleLogin i cred c b n) j (norm_email (email u))"
      using google_user_proved [OF y [unfolded r] assms(2) g] by blast+
    obtain z where auto: "auto_accept_for_user D now j (email u) t1 = (z, t)"
      using assms(1) g y r False by (auto simp: google_login_def split: if_splits option.splits sum.splits prod.splits)
    have "rooms_ok t1" by (rule rooms_ok_kept [OF row(1,2) assms(3)])
    from auto_accept_steps [OF auto this row(3)] show ?thesis by (rule rtranclp_trans [OF keeps [OF row(1,2)]])
  qed
qed simp

lemma create_steps:
  assumes "create_project D p name i s' = (x, t)" "rooms_ok s'" "get_current_user C now k s' = Inr (i, m)"
  shows "room_steps C D now s s' (CreateProject k p name) s' t"
proof (cases "t = s'")
  case False
  let ?a = "s'\<lparr>projects := projects s' @ [(p, \<lparr>project_name = name, owner_id = Some i\<rparr>)]\<rparr>"
  have p: "p \<notin> set (od_keys (projects s'))" and i: "get_by_id i s' \<noteq> None" and add: "finished (add_member D p i ''owner'' ?a ?a) = (x, t)"
    using assms(1) False by (auto simp: create_project_def Let_def split: option.splits if_splits refusal.splits)
  have keys: "i \<in> set (od_keys (users s'))" using i by (auto simp: get_by_id_def dest: map_of_member)
  have fk: "of_project m \<noteq> p" if "m \<in> set (members s')" for m
    using that assms(2) p by (auto simp: rooms_ok_def members_ok_def)
  then have "owner_row p ?a = None" by (auto simp: owner_row_def find_None_iff)
  with fk have "find_member p i ?a = None" "enforce_seat_cap D p ?a = None"
    by (auto simp: find_member_None pair_def enforce_seat_cap_def)
  with add keys have "t = with_project p name i s'"
    by (auto simp: add_member_def insert_member_def with_project_def od_keys_def elim!: finishedE)
  with room_step.made [OF refl assms(3) p keys] show ?thesis by blast
qed simp

lemma invite_steps:
  assumes "invite_address D now j p mail r i s' s = (x, t)" "get_current_user C now k s = Inr (i, m)" "get_role p i s = Some ''owner''"
  shows "room_steps C D now s s' (CreateInvite k j p mail r) s' t"
proof (cases "t = s'")
  case False
  then obtain t1 where r: "r \<in> set assignable_roles" and ins: "insert_invite j (new_invite D now p mail r i) s' = Some t1"
      and t: "t = send_mail (norm_email mail) (InviteMail j) t1"
    using assms(1) by (auto simp: invite_address_def create_invite_def new_invite_def Let_def split: if_splits option.splits)
  have "room_steps C D now s s' (CreateInvite k j p mail r) s' t1"
    using room_step.invited [OF refl assms(2,3) r ins] by blast
  then show ?thesis unfolding t by (rule rtranclp_trans) simp
qed simp

lemma leave_steps:
  assumes "leave_project p i s' = (x, t)"
  shows "room_steps C D now s s' rq s' t"
proof (cases "t = s'")
  case False
  then obtain m where m: "find_member p i s' = Some m" "get_role p i s' \<noteq> Some ''owner''" "t = delete_member p i s'"
    using assms by (auto simp: leave_project_def split: option.splits if_splits)
  then have "role m \<noteq> ''owner''" by (auto simp: get_role_def Let_def)
  from room_step.left [OF m(1) this] show ?thesis using m(3) by blast
qed simp

lemma row_steps:
  "remove_member p u s' = (y, t) \<Longrightarrow> room_steps C D now s s' rq s' t"
  "update_member_role p u r s' = (y, t) \<Longrightarrow> r \<in> set assignable_roles \<Longrightarrow> room_steps C D now s s' rq s' t"
  "revoke_invite j p s' = (y, t) \<Longrightarrow> room_steps C D now s s' rq s' t"
  "decline_invite j e s' = (z, t) \<Longrightarrow> room_steps C D now s s' rq s' t"
  by (auto simp: remove_member_def update_member_role_def revoke_invite_def decline_invite_def split: option.splits if_splits
      intro: room_step.intros)

lemma transfer_steps:
  assumes "transfer_ownership D p u i (is_admin_email D m) s' = (x, t)" "get_current_user C now k s' = Inr (i, m)"
  shows "room_steps C D now s s' (TransferOwnership k p u) s' t"
proof (cases "t = s'")
  case False
  then have "is_admin_email D m \<or> current_owner p s' = Some i" "current_owner p s' \<noteq> Some u" "find_member p u s' \<noteq> None"
      and t: "t = set_owner p u (demoted p (current_owner p s') (update_role p u ''owner'' s'))"
    using assms(1) by (auto simp: transfer_ownership_def Let_def split: option.splits if_splits)
  from room_step.handed_over [OF refl assms(2) this(1-3) refl] show ?thesis using t by blast
qed simp

theorem serve_steps:
  assumes "serve C D now s' s rq = (x, t)" and "od_ok (users s')" and "rooms_ok s'"
  shows "room_steps C D now s s' rq s' t"
proof (cases rq)
  case (Register i salt tok mail pw name)
  with assms(1) show ?thesis by (auto intro: register_steps)
next
  case (VerifyEmail tok)
  with assms show ?thesis by (auto intro: verify_steps)
next
  case (ResendVerification k tok)
  with assms(1) show ?thesis
    by (auto simp: resend_verification_def issue_email_verification_def intro: rtranclp_trans [OF room_keeps(2) room_keeps(1)]
        elim!: as_userE split: option.splits if_splits)
next
  case (ForgotPassword tok mail)
  with assms(1) show ?thesis
    by (auto simp: forgot_password_def issue_password_reset_def intro: rtranclp_trans [OF room_keeps(2) room_keeps(1)]
        split: option.splits if_splits)
next
  case (ResetPassword tok salt pw)
  with assms(1) show ?thesis
    by (auto simp: reset_password_def elim!: finishedE split: option.splits if_splits sum.splits)
next
  case (Login mail pw)
  with assms(1) show ?thesis by (auto simp: login_def split: option.splits)
next
  case (GoogleLogin j cred c b n)
  with assms show ?thesis by (auto intro: google_steps)
next
  case (ChangePassword k salt cur pw)
  with assms(1) show ?thesis by (auto simp: change_password_def elim!: as_userE split: option.splits if_splits)
next
  case (Refresh k)
  with assms(1) show ?thesis by (auto simp: refresh_def elim!: as_userE split: option.splits)
next
  case (CompleteOnboarding k)
  with assms(1) show ?thesis by (auto simp: complete_onboarding_def elim!: as_userE split: option.splits)
next
  case (DeleteAccount k)
  with assms(1) show ?thesis by (auto elim!: as_userE intro: room_step.user_gone)
next
  case (IssueKey k kid random name days)
  with assms(1) show ?thesis by (auto simp: issue_key_def Let_def elim!: as_userE finishedE split: if_splits)
next
  case (RevokeKey k kid)
  with assms(1) show ?thesis by (auto simp: revoke_key_def Let_def elim!: as_userE split: option.splits if_splits)
next
  case (CreateProject k p name)
  with assms show ?thesis by (auto elim!: as_userE intro: create_steps)
next
  case (DeleteProject k p)
  with assms(1) show ?thesis
    by (auto simp: delete_project_def elim!: as_userE in_roleE dest!: owner_only intro: room_step.dropped split: if_splits)
next
  case (CreateInvite k j p mail r)
  with assms(1) show ?thesis by (auto elim!: as_userE in_roleE dest!: owner_only intro: invite_steps)
next
  case (RevokeInvite k p j)
  with assms(1) show ?thesis by (auto elim!: as_userE in_roleE foundE intro: row_steps)
next
  case (ResendInvite k p j)
  with assms(1) show ?thesis by (auto simp: resend_invite_def elim!: as_userE in_roleE split: option.splits)
next
  case (AcceptInvite k j)
  from assms(1)[unfolded AcceptInvite serve.simps] show ?thesis
  proof (rule as_userE)
    fix i m
    assume i: "get_current_user C now k s = Inr (i, m)" and "finished (accept_invite D now j i False s' s) = (x, t)"
    then obtain y where "accept_invite D now j i False s' s = (y, t)" by (auto elim!: finishedE)
    from accept_step [OF this, of s C s' rq] show ?thesis using i by (auto simp: AcceptInvite)
  qed simp
next
  case (DeclineInvite k j)
  with assms(1) show ?thesis by (auto elim!: as_userE finishedE intro: row_steps)
next
  case (LeaveProject k p)
  with assms(1) show ?thesis by (auto elim!: as_userE foundE intro: leave_steps)
next
  case (TransferOwnership k p new)
  with assms(1) show ?thesis by (auto elim!: as_userE finishedE intro: transfer_steps)
next
  case (UpdateRole k p u r)
  with assms(1) show ?thesis by (auto elim!: as_userE in_roleE foundE intro: row_steps split: if_splits)
next
  case (RemoveMember k p u)
  with assms(1) show ?thesis by (auto elim!: as_userE in_roleE foundE intro: row_steps)
qed

section \<open>The invariant over runs\<close>

lemma steps_rooms_ok: "room_steps C D now s s' rq a b \<Longrightarrow> rooms_ok s \<Longrightarrow> rooms_ok a \<Longrightarrow> rooms_ok b"
  by (induction rule: rtranclp_induct) (auto intro: step_rooms_ok)

lemma serve_rooms_ok:
  "serve C D now s' s rq = (x, t) \<Longrightarrow> od_ok (users s') \<Longrightarrow> rooms_ok s \<Longrightarrow> rooms_ok s' \<Longrightarrow> rooms_ok t"
  by (rule steps_rooms_ok [OF serve_steps])

lemma run_rooms_ok: "access_run C s es t \<Longrightarrow> od_ok (users s) \<Longrightarrow> rooms_ok s \<Longrightarrow> rooms_ok t"
proof (induction rule: access_run.induct)
  case (served s es t fs t' D now rq x u)
  have t: "od_ok (users t)" "rooms_ok t" using run_ok [OF served.hyps(1)] served by simp_all
  then have "od_ok (users t')" "rooms_ok t'" using run_ok [OF served.hyps(2)] served by simp_all
  with serve_rooms_ok [OF served.hyps(3)] t(2) show ?case by simp
qed

section \<open>Roles\<close>

lemma role_is_row: "rooms_ok s \<Longrightarrow> get_role p u s = map_option role (find_member p u s)"
  using owner_is_member [of s p u] by (auto simp: get_role_def Let_def)

lemma one_owner:
  assumes "rooms_ok s" "p \<in> set (od_keys (projects s))"
  shows "\<exists>u. \<forall>w. get_role p w s = Some ''owner'' \<longleftrightarrow> w = u"
proof -
  obtain r u where r: "owner_id r = Some u" "owner_of p s = Some u" "owned (members s) p r"
    using owner_column [OF assms] by blast
  have "get_role p w s = Some ''owner'' \<longleftrightarrow> w = u" for w
  proof
    assume "get_role p w s = Some ''owner''"
    then obtain m where "find_member p w s = Some m" "role m = ''owner''" by (auto simp: role_is_row [OF assms(1)])
    with find_member_Some [of p w s m] r(1,3) show "w = u" by (auto simp: owned_def pair_def)
  qed (use owner_is_member [OF assms(1) r(2)] in \<open>auto simp: role_is_row [OF assms(1)]\<close>)
  then show ?thesis by blast
qed

lemma has_role: "rooms_ok s \<Longrightarrow> get_role p u s \<noteq> None \<longleftrightarrow> (p, u) \<in> pair ` set (members s)"
  by (simp add: role_is_row find_member_None del: not_None_eq)

lemma accessible_role:
  assumes "rooms_ok s" "map_of (projects s) p = Some r"
  shows "accessible u s (p, r) \<longleftrightarrow> get_role p u s \<noteq> None"
proof -
  have "(p, u) \<in> pair ` set (members s)" if "owner_id r = Some u"
    using owner_is_member [OF assms(1), of p u] that assms(2) by (force simp: owner_of_def dest: find_member_Some)
  moreover have "list_ex (\<lambda>m. of_project m = p \<and> of_user m = u) (members s) \<longleftrightarrow> (p, u) \<in> pair ` set (members s)"
    by (force simp: list_ex_iff pair_def)
  ultimately show ?thesis unfolding has_role [OF assms(1)] by (auto simp: accessible_def)
qed

lemma role_project: "rooms_ok s \<Longrightarrow> get_role p u s \<noteq> None \<Longrightarrow> \<exists>r. map_of (projects s) p = Some r"
  using member_project [of s p u] map_of_keys [of "projects s" p] by (auto simp: role_is_row)

lemma can_access_role: "rooms_ok s \<Longrightarrow> can_access p u s \<longleftrightarrow> u \<noteq> [] \<and> get_role p u s \<noteq> None"
  using role_project [of s p u] accessible_role [of s p _ u] by (auto simp: can_access_def split: option.splits)

lemma accessible_ids:
  assumes "rooms_ok s"
  shows "p \<in> fst ` {e \<in> set (projects s). accessible u s e} \<longleftrightarrow> get_role p u s \<noteq> None"
proof -
  have row: "(p, r) \<in> set (projects s) \<longleftrightarrow> map_of (projects s) p = Some r" for r
    using assms by (simp add: rooms_ok_def projects_ok_def od_ok_map_of)
  have "p \<in> fst ` {e \<in> set (projects s). accessible u s e} \<longleftrightarrow> (\<exists>r. map_of (projects s) p = Some r \<and> accessible u s (p, r))"
    unfolding row [symmetric] by force
  also have "\<dots> \<longleftrightarrow> get_role p u s \<noteq> None"
    using accessible_role [OF assms] role_project [OF assms, of p u] by metis
  finally show ?thesis .
qed

lemma map_of_foldl_set: "map_of (foldl (\<lambda>d (p, r). od_set p r d) d es) = map_of d ++ map_of (rev es)"
  by (induction es arbitrary: d) (auto simp: odict_simps)

lemma map_of_foldl_owned: "map_of (foldl (\<lambda>d p. od_set p x d) d ps) q = (if q \<in> set ps then Some x else map_of d q)"
  by (induction ps arbitrary: d) (auto simp: odict_simps)

lemma member_rows: "(p, r) \<in> set (map (\<lambda>m. (of_project m, role m)) (filter (\<lambda>m. of_user m = u \<and> of_project m \<in> set ps) ms)) \<longleftrightarrow>
    p \<in> set ps \<and> (\<exists>m \<in> set ms. pair m = (p, u) \<and> role m = r)"
  by (induction ms) (auto simp: pair_def)

lemma row_role:
  assumes "members_ok s"
  shows "(\<exists>m \<in> set (members s). pair m = (p, u) \<and> role m = r) \<longleftrightarrow> map_option role (find_member p u s) = Some r"
proof
  assume "\<exists>m \<in> set (members s). pair m = (p, u) \<and> role m = r"
  then show "map_option role (find_member p u s) = Some r" using find_member_unique [OF assms, of _ p u] by auto
qed (use find_member_Some [of p u s] in auto)

lemma if_known: "(\<And>r. x = Some r \<longleftrightarrow> b \<and> y = Some r) \<Longrightarrow> x = (if b then y else None)"
  by (cases x; cases y) auto

lemma bulk_role:
  assumes "rooms_ok s"
  shows "map_of (get_roles_bulk ps u s) p = (if p \<in> set ps then get_role p u s else None)"
proof -
  let ?rows = "map (\<lambda>m. (of_project m, role m)) (filter (\<lambda>m. of_user m = u \<and> of_project m \<in> set ps) (members s))"
  let ?owned = "map fst (filter (\<lambda>(p, r). p \<in> set ps \<and> owner_id r = Some u) (projects s))"
  have dist: "distinct (map pair (members s))" using assms by (simp add: rooms_ok_def members_ok_def)
  have "inj_on of_project {m \<in> set (members s). of_user m = u \<and> of_project m \<in> set ps}"
    using dist by (auto simp: distinct_map inj_on_def pair_def)
  then have "distinct (map fst ?rows)"
    using dist by (simp add: comp_def distinct_map)
  then have "map_of (rev ?rows) p = Some r \<longleftrightarrow> (p, r) \<in> set ?rows" for r
    using map_of_eq_Some_iff [of "rev ?rows" p r] by (simp add: rev_map [symmetric] del: map_map)
  moreover have "(p, r) \<in> set ?rows \<longleftrightarrow> p \<in> set ps \<and> map_option role (find_member p u s) = Some r" for r
  proof -
    have "(p, r) \<in> set ?rows \<longleftrightarrow> p \<in> set ps \<and> (\<exists>m \<in> set (members s). pair m = (p, u) \<and> role m = r)"
      by (rule member_rows)
    also have "(\<exists>m \<in> set (members s). pair m = (p, u) \<and> role m = r) \<longleftrightarrow> map_option role (find_member p u s) = Some r"
      by (rule row_role) (use assms in \<open>simp add: rooms_ok_def\<close>)
    finally show ?thesis .
  qed
  ultimately have rows: "map_of (rev ?rows) p = (if p \<in> set ps then get_role p u s else None)"
    unfolding role_is_row [OF assms] by (intro if_known) (simp only:)
  have owned: "p \<in> set ?owned \<Longrightarrow> p \<in> set ps \<and> get_role p u s = Some ''owner''"
  proof -
    assume "p \<in> set ?owned"
    then obtain r where "p \<in> set ps" "(p, r) \<in> set (projects s)" "owner_id r = Some u" by auto
    moreover have "owner_of p s = Some u"
      using calculation assms by (simp add: owner_of_def rooms_ok_def projects_ok_def od_ok_map_of)
    ultimately show ?thesis using owner_is_member [OF assms, of p u] role_is_row [OF assms, of p u] by auto
  qed
  show ?thesis
    using owned unfolding get_roles_bulk_def Let_def by (auto simp: map_of_foldl_owned map_of_foldl_set rows)
qed

end
