(* ===== verification/AccessProperties.thy ===== *)
theory AccessProperties
  imports RoomRuns
begin

text \<open>
  What holds of projects, memberships and invitations in every run: how access, ownership and
  invitations come about, which accounts have a role, and what the operations refuse or let through.
\<close>

section \<open>Where things come from\<close>

definition makes :: "crypto \<Rightarrow> string \<Rightarrow> string \<Rightarrow> served_event \<Rightarrow> bool" where
  "makes C p u ev \<longleftrightarrow> (\<exists>k name m. ev_request ev = CreateProject k p name \<and>
     get_current_user C (ev_now ev) k (ev_site ev) = Inr (u, m))"

definition invites_to :: "crypto \<Rightarrow> string \<Rightarrow> string \<Rightarrow> served_event \<Rightarrow> bool" where
  "invites_to C p a ev \<longleftrightarrow> (\<exists>k j mail r i m. ev_request ev = CreateInvite k j p mail r \<and> norm_email mail = a \<and>
     get_current_user C (ev_now ev) k (ev_read ev) = Inr (i, m) \<and> get_role p i (ev_read ev) = Some ''owner'')"

text \<open>The request proves the address and finds an invitation to it that is pending and not expired.\<close>

definition open_invite :: "deployment \<Rightarrow> int \<Rightarrow> string \<Rightarrow> string \<Rightarrow> site \<Rightarrow> bool" where
  "open_invite D now p a s \<longleftrightarrow> (\<exists>(j, v) \<in> set (invites s). inv_project v = p \<and> norm_email (inv_email v) = a \<and>
     inv_status v = ''pending'' \<and> \<not> is_expired D now v)"

definition takes_up :: "crypto \<Rightarrow> string \<Rightarrow> string \<Rightarrow> string \<Rightarrow> served_event \<Rightarrow> bool" where
  "takes_up C p u a ev \<longleftrightarrow> proves_address C (ev_now ev) (ev_read ev) (ev_site ev) (ev_request ev) u a \<and>
     (open_invite (ev_deployment ev) (ev_now ev) p a (ev_read ev) \<or> open_invite (ev_deployment ev) (ev_now ev) p a (ev_site ev))"

definition hands_over :: "crypto \<Rightarrow> string \<Rightarrow> string \<Rightarrow> served_event \<Rightarrow> bool" where
  "hands_over C p u ev \<longleftrightarrow> (\<exists>k i m. ev_request ev = TransferOwnership k p u \<and>
     get_current_user C (ev_now ev) k (ev_site ev) = Inr (i, m) \<and>
     (is_admin_email (ev_deployment ev) m \<or> owner_of p (ev_site ev) = Some i) \<and> get_role p u (ev_site ev) \<noteq> None)"

abbreviation event :: "site \<Rightarrow> site \<Rightarrow> deployment \<Rightarrow> int \<Rightarrow> request \<Rightarrow> refusal + answer \<Rightarrow> served_event" where
  "event s s' D now rq x \<equiv> \<lparr>ev_read = s, ev_site = s', ev_deployment = D, ev_now = now, ev_request = rq, ev_answer = x\<rparr>"

subsection \<open>Invitations\<close>

lemma step_pending:
  assumes "room_step C D now s s' rq a b" "(j, w) \<in> set (invites b)" "inv_status w = ''pending''" "\<And>k i p m r. rq \<noteq> CreateInvite k i p m r"
  shows "(j, w) \<in> set (invites a)"
  using assms(1)
proof (cases rule: room_step.cases)
  case kept
  with assms(2) show ?thesis by (simp add: same_rooms_def)
next
  case (revoked i)
  then obtain v where "invites b = od_set i (inv_status_update (\<lambda>_. ''revoked'') v) (invites a)" by (rule write_inviteD) simp
  with assms(2,3) set_od_set [of i "inv_status_update (\<lambda>_. ''revoked'') v" "invites a"] show ?thesis by auto
next
  case (accepts c i v u t)
  from accepts(6) obtain v' where t: "invites t = od_set i (accepted now v') (invites a)" by (rule write_inviteD) simp
  have "invites b = invites t" using accepts(7) by (auto simp: insert_member_def split: if_splits)
  with t assms(2,3) set_od_set [of i "accepted now v'" "invites a"] show ?thesis by auto
qed (use assms in \<open>auto simp: with_project_def drop_projects_def drop_user_def od_del_def delete_member_def demoted_def Let_def
    split: option.splits if_splits\<close>)

lemma steps_pending:
  "room_steps C D now s s' rq a b \<Longrightarrow> (j, w) \<in> set (invites b) \<Longrightarrow> inv_status w = ''pending'' \<Longrightarrow> (\<And>k i p m r. rq \<noteq> CreateInvite k i p m r) \<Longrightarrow>
    (j, w) \<in> set (invites a)"
  by (induction rule: rtranclp_induct) (simp, metis step_pending)

text \<open>Only the fields that an invitation keeps: its project and its address.\<close>

definition invite_for :: "string \<Rightarrow> string \<Rightarrow> site \<Rightarrow> bool" where
  "invite_for p a s \<longleftrightarrow> (\<exists>(j, v) \<in> set (invites s). inv_project v = p \<and> norm_email (inv_email v) = a)"

lemma write_invite_for: "write_invite i f a = Some b \<Longrightarrow> (\<And>v. inv_project (f v) = inv_project v \<and> inv_email (f v) = inv_email v) \<Longrightarrow>
    invite_for p e b \<Longrightarrow> invite_for p e a"
proof (erule write_inviteD)
  fix v
  assume f: "\<And>v. inv_project (f v) = inv_project v \<and> inv_email (f v) = inv_email v" and b: "invite_for p e b"
    and v: "map_of (invites a) i = Some v" "b = a\<lparr>invites := od_set i (f v) (invites a)\<rparr>"
  from b v(2) obtain j w where w: "(j, w) \<in> set (od_set i (f v) (invites a))" "inv_project w = p" "norm_email (inv_email w) = e"
    by (auto simp: invite_for_def)
  from w(1) set_od_set [of i "f v" "invites a"] consider "w = f v" | "(j, w) \<in> set (invites a)" by auto
  then show "invite_for p e a"
  proof cases
    case 1
    with f [of v] w(2,3) have "inv_project v = p" "norm_email (inv_email v) = e" by simp_all
    with map_of_SomeD [OF v(1)] show ?thesis unfolding invite_for_def by blast
  next
    case 2
    with w(2,3) show ?thesis unfolding invite_for_def by blast
  qed
qed

lemma step_invite_for:
  assumes "room_step C D now s s' rq a b" "invite_for p e b"
  shows "invite_for p e a \<or> invites_to C p e (event s s' D now rq x)"
  using assms(1)
proof (cases rule: room_step.cases)
  case (invited k j q mail r i m)
  then have "invites b = invites a @ [(j, new_invite D now q mail r i)]" by (auto simp: insert_invite_def split: if_splits)
  with assms(2) invited show ?thesis by (auto simp: invite_for_def invites_to_def new_invite_def)
next
  case (revoked j)
  from write_invite_for [OF this _ assms(2)] show ?thesis by simp
next
  case (accepts c i v u t)
  have "invites b = invites t" using accepts(7) by (auto simp: insert_member_def split: if_splits)
  with assms(2) have "invite_for p e t" by (simp add: invite_for_def)
  from write_invite_for [OF accepts(6) _ this] show ?thesis by simp
qed (use assms in \<open>auto simp: invite_for_def same_rooms_def with_project_def drop_projects_def drop_user_def od_del_def delete_member_def
    demoted_def Let_def split: option.splits if_splits\<close>)

lemma steps_invite_for: "room_steps C D now s s' rq a b \<Longrightarrow> invite_for p e b \<Longrightarrow> invite_for p e a \<or> invites_to C p e (event s s' D now rq x)"
  by (induction rule: rtranclp_induct) (auto dest: step_invite_for [where x = x])

lemma run_invite_for:
  assumes "access_run C s es t" "od_ok (users s)" "rooms_ok s" "invite_for p e t"
  shows "invite_for p e s \<or> (\<exists>ev \<in> set es. invites_to C p e ev)"
  using assms
proof (induction rule: access_run.induct)
  case (served s es t fs t' D now rq x u)
  have t: "od_ok (users t)" "rooms_ok t"
    using run_ok [OF served.hyps(1)] run_rooms_ok [OF served.hyps(1)] served.prems by simp_all
  have t': "od_ok (users t')" "rooms_ok t'" using run_ok [OF served.hyps(2)] run_rooms_ok [OF served.hyps(2)] t by simp_all
  from steps_invite_for [OF serve_steps [OF served.hyps(3) t'] served.prems(3), of x]
  consider "invite_for p e t'" | "invites_to C p e (event t t' D now rq x)" by blast
  then show ?case
  proof cases
    case 1
    with served.IH(2) t served.IH(1) served.prems show ?thesis by auto
  qed simp
qed simp

subsection \<open>Access\<close>

lemma write_invite_members: "write_invite i f a = Some b \<Longrightarrow> members b = members a \<and> projects b = projects a"
  by (auto simp: write_invite_def split: option.splits if_splits)

lemma insert_memberD: "insert_member p u r s = Some t \<Longrightarrow>
    members t = members s @ [\<lparr>of_project = p, of_user = u, role = r\<rparr>] \<and> invites t = invites s \<and> projects t = projects s"
  by (auto simp: insert_member_def split: if_splits)

lemma demoted_pairs:
  assumes "rooms_ok a" "find_member p u a \<noteq> None"
  shows "pair ` set (members (demoted p (current_owner p a) (update_role p u ''owner'' a))) = pair ` set (members a)"
proof -
  obtain u0 where u0: "owner_of p a = Some u0" using owner_column [OF assms(1) member_project [OF assms]] by blast
  then have "(p, u0) \<in> pair ` set (members a)" using owner_is_member [OF assms(1) u0] by (force dest: find_member_Some)
  then have "find_member p u0 (update_role p u ''owner'' a) \<noteq> None"
    using pairs_image [OF update_role_pairs, of p u "''owner''" a] by (simp add: find_member_None)
  then have "demoted p (current_owner p a) (update_role p u ''owner'' a) = update_role p u0 ''editor'' (update_role p u ''owner'' a)"
    using u0 by (simp add: demoted_def current_owner_def del: not_None_eq)
  then show ?thesis
    using pairs_image [OF update_role_pairs, of p u0 "''editor''" "update_role p u ''owner'' a"]
      pairs_image [OF update_role_pairs, of p u "''owner''" a] by simp
qed

lemma step_access:
  assumes "room_step C D now s s' rq a b" "rooms_ok a" "(p, u) \<in> pair ` set (members b)" "(p, u) \<notin> pair ` set (members a)"
    and "\<And>j w. (\<And>k i p m r. rq \<noteq> CreateInvite k i p m r) \<Longrightarrow> (j, w) \<in> set (invites a) \<Longrightarrow> inv_status w = ''pending'' \<Longrightarrow> (j, w) \<in> set (invites s')"
  shows "makes C p u (event s s' D now rq x) \<or> (\<exists>e. takes_up C p u e (event s s' D now rq x))"
  using assms(1)
proof (cases rule: room_step.cases)
  case (made k q name i m)
  with assms(3,4) have "q = p" "i = u" by (auto simp: with_project_def pair_def)
  with made show ?thesis by (auto simp: makes_def)
next
  case (accepts c j v w t)
  have t: "members t = members a" using write_invite_members [OF accepts(6)] by simp
  then have "b \<noteq> t" using assms(3,4) by auto
  with accepts(7) have "insert_member (inv_project v) w (inv_role v) t = Some b" by blast
  from insert_memberD [OF this] t assms(3,4) have p: "inv_project v = p" "w = u" by (auto simp: pair_def)
  have row: "(j, v) \<in> set (invites c)" using accepts(1) by (rule map_of_SomeD)
  have "rq \<noteq> CreateInvite k i q m r" for k i q m r using accepts(5) by auto
  then have "(j, v) \<in> set (invites s) \<or> (j, v) \<in> set (invites s')" using accepts(2,3) row assms(5) [of j v] by blast
  then have "open_invite D now p (norm_email (inv_email v)) s \<or> open_invite D now p (norm_email (inv_email v)) s'"
    using accepts(3,4) p(1) unfolding open_invite_def by blast
  with accepts(5) p(2) show ?thesis by (auto simp: takes_up_def)
next
  case (handed_over k q w i m)
  from demoted_pairs [OF assms(2) handed_over(6)] assms(3,4) show ?thesis by (simp add: handed_over)
next
  case (re_roled q w m r)
  with assms(3,4) pairs_image [OF update_role_pairs, of q w r a] show ?thesis by simp
next
  case kept
  with assms(3,4) show ?thesis by (simp add: same_rooms_def)
next
  case (revoked j)
  from write_invite_members [OF this] assms(3,4) show ?thesis by simp
next
  case (invited k j q mail r i m)
  with assms(3,4) show ?thesis by (auto simp: insert_invite_def split: if_splits)
qed (use assms(3,4) in \<open>auto simp: drop_projects_def drop_user_def delete_member_def Let_def\<close>)

lemma steps_access:
  assumes "room_steps C D now s s' rq s' t" "rooms_ok s" "rooms_ok s'" "(p, u) \<in> pair ` set (members t)" "(p, u) \<notin> pair ` set (members s')"
  shows "makes C p u (event s s' D now rq x) \<or> (\<exists>e. takes_up C p u e (event s s' D now rq x))"
  using assms(1,4)
proof (induction rule: rtranclp_induct)
  case base
  with assms(5) show ?case by simp
next
  case (step a b)
  show ?case
  proof (cases "(p, u) \<in> pair ` set (members a)")
    case False
    from step_access [OF step(2) steps_rooms_ok [OF step(1) assms(2,3)] step(4) False steps_pending [OF step(1)]] show ?thesis by blast
  qed (use step in blast)
qed

lemma takes_up_invite: "takes_up C p u e ev \<Longrightarrow> invite_for p e (ev_read ev) \<or> invite_for p e (ev_site ev)"
  by (auto simp: takes_up_def open_invite_def invite_for_def)

text \<open>
  C12. Nobody comes to a project but by creating it or by an invitation: whoever has a role that they did
  not have at the start has created the project, or has proved an address to which an invitation was
  pending and not expired, and that invitation was there at the start or an owner made it.
\<close>

theorem access_traced:
  assumes "access_run C s es t" and "od_ok (users s)" and "rooms_ok s" and "get_role p u t \<noteq> None" and "get_role p u s = None"
  shows "\<exists>ev \<in> set es. makes C p u ev \<or>
    (\<exists>a. takes_up C p u a ev \<and> (invite_for p a s \<or> (\<exists>ev' \<in> set es. invites_to C p a ev')))"
proof -
  have gain: "\<exists>ev \<in> set es. makes C p u ev \<or> (\<exists>a. takes_up C p u a ev \<and> (invite_for p a s \<or> (\<exists>ev' \<in> set es. invites_to C p a ev')))"
    if "access_run C s es t" "od_ok (users s)" "rooms_ok s" "(p, u) \<in> pair ` set (members t)" "(p, u) \<notin> pair ` set (members s)" for s es t
    using that
  proof (induction rule: access_run.induct)
    case (served s es t fs t' D now rq x v)
    let ?ev = "event t t' D now rq x" and ?all = "es @ fs @ [event t t' D now rq x]"
    have t: "od_ok (users t)" "rooms_ok t"
      using run_ok [OF served.hyps(1)] run_rooms_ok [OF served.hyps(1)] served.prems by simp_all
    have t': "od_ok (users t')" "rooms_ok t'" using run_ok [OF served.hyps(2)] run_rooms_ok [OF served.hyps(2)] t by simp_all
    have origin: "invite_for p a s \<or> (\<exists>ev' \<in> set ?all. invites_to C p a ev')" if "invite_for p a t" for a
      using run_invite_for [OF served.hyps(1) served.prems(1,2) that] by auto
    then have origin': "invite_for p a s \<or> (\<exists>ev' \<in> set ?all. invites_to C p a ev')" if "invite_for p a t'" for a
      using run_invite_for [OF served.hyps(2) t that] by auto
    consider "(p, u) \<in> pair ` set (members t)" | "(p, u) \<notin> pair ` set (members t)" "(p, u) \<in> pair ` set (members t')"
      | "(p, u) \<notin> pair ` set (members t')" by blast
    then show ?case
    proof cases
      case 1
      from served.IH(1) [OF served.prems(1,2) 1 served.prems(4)] show ?thesis by auto
    next
      case 2
      from served.IH(2) [OF t 2(2,1)] obtain ev where ev: "ev \<in> set fs" "makes C p u ev \<or>
        (\<exists>a. takes_up C p u a ev \<and> (invite_for p a t \<or> (\<exists>ev' \<in> set fs. invites_to C p a ev')))" by blast
      then have "makes C p u ev \<or> (\<exists>a. takes_up C p u a ev \<and> (invite_for p a s \<or> (\<exists>ev' \<in> set ?all. invites_to C p a ev')))"
        using origin by (metis UnI1 UnI2 set_append)
      with ev(1) show ?thesis by (intro bexI [of _ ev]) auto
    next
      case 3
      from steps_access [OF serve_steps [OF served.hyps(3) t'] t(2) t'(2) served.prems(3) 3, of x] 
      consider "makes C p u ?ev" | a where "takes_up C p u a ?ev" by blast
      then show ?thesis
      proof cases
        case 2
        from takes_up_invite [OF 2] have "invite_for p a t \<or> invite_for p a t'" by simp
        with origin origin' have "invite_for p a s \<or> (\<exists>ev' \<in> set ?all. invites_to C p a ev')" by blast
        with 2 show ?thesis by (intro bexI [of _ ?ev]) auto
      qed auto
    qed
  qed simp
  have "rooms_ok t" by (rule run_rooms_ok [OF assms(1-3)])
  then show ?thesis
    using gain [OF assms(1-3)] assms(4,5) has_role [of t p u] has_role [OF assms(3), of p u] by blast
qed

subsection \<open>Ownership\<close>

lemma map_of_set_owner: "map_of (projects (set_owner p u s)) q =
    (if q = p then map_option (\<lambda>r. r\<lparr>owner_id := Some u\<rparr>) (map_of (projects s) q) else map_of (projects s) q)"
proof -
  have "map_of (map (\<lambda>(q, r). if q = p then (q, r\<lparr>owner_id := Some u\<rparr>) else (q, r)) d) q =
      (if q = p then map_option (\<lambda>r. r\<lparr>owner_id := Some u\<rparr>) (map_of d q) else map_of d q)" for d :: "(string, project) odict"
    by (induction d) auto
  then show ?thesis by (simp add: set_owner_def)
qed

lemma demoted_same [simp]: "projects (demoted p c s) = projects s"
  by (simp add: demoted_def split: option.split)

lemma owner_kept_rows: "(\<And>r. map_of (projects b) p = Some r \<Longrightarrow> map_of (projects a) p = Some r) \<Longrightarrow> owner_of p b = Some u \<Longrightarrow> owner_of p a = Some u"
  by (auto simp: owner_of_def split: option.splits)

lemma step_owner:
  assumes "room_step C D now s s' rq a b" "rooms_ok a" "owner_of p b = Some u" "owner_of p a \<noteq> Some u"
  shows "makes C p u (event s s' D now rq x) \<or> hands_over C p u (event s s' D now rq x)"
  using assms(1)
proof (cases rule: room_step.cases)
  case (made k q name i m)
  have "q = p"
  proof (rule ccontr)
    assume ne: "q \<noteq> p"
    have "owner_of p a = Some u" by (rule owner_kept_rows [OF _ assms(3)]) (use ne made in \<open>auto simp: with_project_def map_add_Some_iff\<close>)
    with assms(4) show False by simp
  qed
  with assms(3) made have "i = u" by (auto simp: owner_of_def with_project_def map_of_keys [symmetric] map_add_def split: option.splits)
  with made \<open>q = p\<close> show ?thesis by (auto simp: makes_def)
next
  case (handed_over k q w i m)
  from assms(3,4) handed_over have "q = p" "w = u"
    by (auto simp: owner_of_def map_of_set_owner split: if_splits option.splits)
  moreover obtain u0 where "owner_of p a = Some u0"
    using owner_column [OF assms(2) member_project [OF assms(2)]] handed_over(6) calculation by blast
  moreover have "get_role p u a \<noteq> None" using handed_over(6) calculation by (simp add: role_is_row [OF assms(2)])
  ultimately show ?thesis using handed_over by (auto simp: hands_over_def current_owner_def)
next
  case (dropped k q i m)
  have "owner_of p a = Some u"
    by (rule owner_kept_rows [OF _ assms(3)])
      (use dropped assms(2) in \<open>simp add: drop_projects_def Let_def rooms_ok_def projects_ok_def map_of_od_filter split: option.splits if_splits\<close>)
  with assms(4) show ?thesis by simp
next
  case (user_gone k i m)
  have "owner_of p a = Some u"
    by (rule owner_kept_rows [OF _ assms(3)])
      (use user_gone assms(2) in \<open>simp add: drop_user_def drop_projects_def Let_def rooms_ok_def projects_ok_def map_of_od_filter split: option.splits if_splits\<close>)
  with assms(4) show ?thesis by simp
next
  case kept
  with assms(3,4) show ?thesis by (simp add: same_rooms_def owner_of_def)
next
  case (invited k j q mail r i m)
  with assms(3,4) show ?thesis by (auto simp: insert_invite_def owner_of_def split: if_splits)
next
  case (revoked j)
  from write_invite_members [OF this] assms(3,4) show ?thesis by (simp add: owner_of_def)
next
  case (accepts c j v w t)
  from write_invite_members [OF accepts(6)] insert_memberD accepts(7) have "projects b = projects a" by metis
  with assms(3,4) show ?thesis by (simp add: owner_of_def)
qed (use assms(3,4) in \<open>auto simp: delete_member_def owner_of_def\<close>)

lemma steps_owner:
  assumes "room_steps C D now s s' rq a b" "rooms_ok s" "rooms_ok a" "owner_of p b = Some u" "owner_of p a \<noteq> Some u"
  shows "makes C p u (event s s' D now rq x) \<or> hands_over C p u (event s s' D now rq x)"
  using assms(1,4)
proof (induction rule: rtranclp_induct)
  case (step c b)
  show ?case
  proof (cases "owner_of p c = Some u")
    case False
    from step_owner [OF step(2) steps_rooms_ok [OF step(1) assms(2,3)] step(4) False] show ?thesis .
  qed (use step in blast)
qed (use assms(5) in simp)

text \<open>
  C13. A project changes hands only by a transfer: whoever owns it and did not at the start has created it,
  or its owner of that moment or an administrator has handed it over to them, who had a role in it.
\<close>

theorem ownership_traced:
  assumes "access_run C s es t" and "od_ok (users s)" and "rooms_ok s" and "owner_of p t = Some u" and "owner_of p s \<noteq> Some u"
  shows "\<exists>ev \<in> set es. makes C p u ev \<or> hands_over C p u ev"
  using assms
proof (induction rule: access_run.induct)
  case (served s es t fs t' D now rq x v)
  have t: "od_ok (users t)" "rooms_ok t"
    using run_ok [OF served.hyps(1)] run_rooms_ok [OF served.hyps(1)] served.prems by simp_all
  have t': "od_ok (users t')" "rooms_ok t'" using run_ok [OF served.hyps(2)] run_rooms_ok [OF served.hyps(2)] t by simp_all
  consider "owner_of p t = Some u" | "owner_of p t \<noteq> Some u" "owner_of p t' = Some u" | "owner_of p t' \<noteq> Some u" by blast
  then show ?case
  proof cases
    case 3
    from steps_owner [OF serve_steps [OF served.hyps(3) t'] t(2) t'(2) served.prems(3) 3, of x] show ?thesis by auto
  qed (use served.IH served.prems t in auto)
qed simp

section \<open>Owners and roles\<close>



section \<open>Seats\<close>

definition for_seat :: "refusal + 'a \<Rightarrow> bool" where
  "for_seat x \<longleftrightarrow> (\<exists>c n. x = Inl (QuotaExceeded (''seats'', c, n)))"

lemma for_seat_simps [simp]: "\<not> for_seat (Inr a)" "\<not> for_seat (Inl (Http h))" "\<not> for_seat (Inl ServerError)"
  "for_seat (map_sum id f y) \<longleftrightarrow> for_seat y"
  by (cases y; auto simp: for_seat_def)+

lemma project_quota_seat: "enforce_project_quota D u s = Some e \<Longrightarrow> \<not> for_seat (Inl e)"
  by (auto simp: enforce_project_quota_def enforce_quota_def for_seat_def split: option.splits if_splits)

lemma user_seat: "get_current_user C now k s = Inl e \<Longrightarrow> \<not> for_seat (Inl e)"
  by (auto simp: get_current_user_def Let_def for_seat_def split: option.splits if_splits)

lemma role_seat: "require_role p u r s = Inl e \<Longrightarrow> \<not> for_seat (Inl e)"
  by (auto simp: require_role_def for_seat_def split: option.splits if_splits)

lemma as_user_seat: "(\<And>i e. get_current_user C now k s = Inr (i, e) \<Longrightarrow> \<not> for_seat (fst (f i e))) \<Longrightarrow> \<not> for_seat (fst (as_user C now k s f s'))"
  by (auto simp: as_user_def dest: user_seat split: sum.split)

lemma in_role_seat: "\<not> for_seat (fst r) \<Longrightarrow> \<not> for_seat (fst (in_role p i s s' r))"
  by (auto simp: in_role_def dest: role_seat split: sum.split)

lemma in_role_seatD: "for_seat (fst (in_role p i s s' r)) \<Longrightarrow> for_seat (fst r)"
  using in_role_seat by blast

lemma finished_seat [simp]: "for_seat (fst (finished r)) \<longleftrightarrow> for_seat (fst r)"
  by (auto simp: finished_def for_seat_def split: prod.split sum.split)

lemma found_seat [simp]: "for_seat (fst (found r)) \<longleftrightarrow> for_seat (fst r)"
  by (auto simp: found_def for_seat_def split: prod.split sum.split)

lemma invite_seat: "\<not> for_seat (fst (invite_address D now j p mail r i s' s))"
  by (simp add: invite_address_def create_invite_def Let_def split: option.split)

lemma transfer_seat: "\<not> for_seat (fst (transfer_ownership D p u i a s))"
  by (auto simp: transfer_ownership_def Let_def dest: project_quota_seat split: option.split)

lemma accept_seat: "\<not> for_seat (fst (accept_invite D now i u skip s' s))"
  by (simp add: accept_invite_def split: option.split)

lemma accept_each_seat: "\<not> for_seat (fst (accept_each D now u vs s))"
proof (induction vs arbitrary: s)
  case (Cons iv vs)
  obtain i v where iv: "iv = (i, v)" by (cases iv)
  show ?case using Cons.IH accept_seat [of D now i u True s s]
    by (auto simp: iv for_seat_def split: prod.split sum.split) (metis fst_conv)+
qed simp

lemma auto_seat: "\<not> for_seat (fst (auto_accept_for_user D now u e s))"
  unfolding auto_accept_for_user_def by (rule accept_each_seat)

lemma google_seat: "\<not> for_seat (fst (google_login C D now i cred c b n s' s))"
proof -
  have first: "\<not> for_seat (fst (find_or_create_google_user i g s' s))" for g
    by (auto simp: find_or_create_google_user_def write_user_def split: option.split)
  have "\<not> for_seat (fst (case find_or_create_google_user i g s' s of (Inl e, t) \<Rightarrow> (Inl e, t)
      | (Inr ((j, u), new), t) \<Rightarrow> (case auto_accept_for_user D now j (email u) t of
            (Inl e, t') \<Rightarrow> (Inl e, t') | (Inr ms, t') \<Rightarrow> (Inr (signed_in C D now j u), t'))))" for g
  proof -
    obtain y t where y: "find_or_create_google_user i g s' s = (y, t)" by fastforce
    show ?thesis
    proof (cases y)
      case (Inl e)
      with first [of g] y show ?thesis by (simp add: for_seat_def)
    next
      case (Inr r)
      then obtain j u new where r: "y = Inr ((j, u), new)" by (cases r) auto
      obtain z t' where z: "auto_accept_for_user D now j (email u) t = (z, t')" by fastforce
      with auto_seat [of D now j "email u" t] y r show ?thesis by (cases z) (simp_all add: for_seat_def)
    qed
  qed
  then show ?thesis by (auto simp: google_login_def split: option.split)
qed

lemma create_project_seat:
  assumes "rooms_ok s"
  shows "\<not> for_seat (fst (create_project D p name i s))"
proof -
  let ?a = "s\<lparr>projects := projects s @ [(p, \<lparr>project_name = name, owner_id = Some i\<rparr>)]\<rparr>"
  have "owner_row p ?a = None" if "p \<notin> set (od_keys (projects s))"
    using that assms by (auto simp: owner_row_def find_None_iff rooms_ok_def members_ok_def)
  then have "enforce_seat_cap D p ?a = None" if "p \<notin> set (od_keys (projects s))"
    using that by (simp add: enforce_seat_cap_def)
  then have "\<not> for_seat (fst (add_member D p i ''owner'' ?a ?a))" if "p \<notin> set (od_keys (projects s))"
    using that by (auto simp: add_member_def split: option.split)
  then show ?thesis
    by (auto simp: create_project_def Let_def dest: project_quota_seat split: option.split refusal.split)
qed

text \<open>
  C38. Seats are sold but no request is ever refused for want of one: the members that a project gets
  beyond its creator come by invitations, which do not ask for a seat.
\<close>

theorem seats_never_refuse:
  assumes "rooms_ok s'"
  shows "fst (serve C D now s' s rq) \<noteq> Inl (QuotaExceeded (''seats'', cap, used))"
proof -
  note seat = as_user_seat in_role_seat
  have "\<not> for_seat (fst (serve C D now s' s rq))"
  proof (cases rq)
    case (VerifyEmail tok)
    then show ?thesis
      by (auto simp: verify_address_def verify_email_def user_by_def scalar_one_or_none_def Let_def
          auto_seat split: option.split list.split)
  next
    case (GoogleLogin i cred c b n)
    with google_seat show ?thesis by simp
  next
    case (ResetPassword tok salt pw)
    then show ?thesis
      by (auto simp: reset_password_def user_by_def scalar_one_or_none_def split: option.split list.split)
  next
    case (CreateInvite k j p mail r)
    then show ?thesis using invite_seat by (auto intro!: seat)
  next
    case (TransferOwnership k p u)
    then show ?thesis using transfer_seat by (auto intro!: seat)
  next
    case (CreateProject k p name)
    then show ?thesis using create_project_seat [OF assms] by (auto intro!: seat)
  next
    case (AcceptInvite k j)
    then show ?thesis using accept_seat by (auto intro!: seat)
  qed (auto simp: register_def register_user_def resend_verification_def forgot_password_def login_def change_password_def refresh_def
      complete_onboarding_def issue_key_def revoke_key_def delete_project_def revoke_invite_def resend_invite_def decline_invite_def
      leave_project_def update_member_role_def remove_member_def Let_def intro!: seat dest!: in_role_seatD split: if_splits option.splits prod.splits)
  then show ?thesis by (auto simp: for_seat_def)
qed

section \<open>Members who come back\<close>

text \<open>The address has accepted an invitation to the project before: the unique triple is taken.\<close>

definition blocked :: "string \<Rightarrow> string \<Rightarrow> site \<Rightarrow> bool" where
  "blocked i j a \<longleftrightarrow> (\<exists>v w. map_of (invites a) i = Some v \<and> map_of (invites a) j = Some w \<and> i \<noteq> j \<and>
     invite_key w = (inv_project v, inv_email v, ''accepted''))"

lemma blocked_write: "blocked i j a \<Longrightarrow> write_invite i (accepted now) a = None"
proof -
  assume "blocked i j a"
  then obtain v w where v: "map_of (invites a) i = Some v" and w: "(j, w) \<in> set (invites a)" "j \<noteq> i"
      "invite_key w = (inv_project v, inv_email v, ''accepted'')"
    by (auto simp: blocked_def dest!: map_of_SomeD [of "invites a" j])
  then have "list_ex (\<lambda>(j, w). j \<noteq> i \<and> invite_key w = invite_key (accepted now v)) (invites a)"
    unfolding list_ex_iff by (intro bexI [OF _ w(1)]) (simp add: invite_key_def)
  with v show ?thesis by (simp add: write_invite_def)
qed

lemma blocked_accept: "blocked i j a \<Longrightarrow> \<exists>e. accept_invite D now i u skip a c = (Inl e, a)"
  by (auto simp: accept_invite_def blocked_write split: option.split)

lemma blocked_others:
  assumes "blocked i j a" "accept_invite D now k u True a a = (Inr m, b)"
  shows "blocked i j b"
proof -
  have "k \<noteq> i" using blocked_accept [OF assms(1), of D now u True a] assms(2) by auto
  moreover have "k \<noteq> j" using assms by (auto simp: blocked_def accept_invite_def invite_key_def split: option.splits if_splits)
  moreover have "invites b = invites a \<or> (\<exists>v. invites b = od_set k v (invites a))"
    using assms(2) by (auto simp: accept_invite_def write_invite_def dest!: insert_memberD split: option.splits if_splits)
  ultimately show ?thesis using assms(1) by (auto simp: blocked_def odict_simps)
qed

lemma blocked_each: "blocked i j a \<Longrightarrow> (i, v) \<in> set vs \<Longrightarrow> \<not> is_expired D now v \<Longrightarrow> \<exists>e b. accept_each D now u vs a = (Inl e, b)"
proof (induction vs arbitrary: a)
  case (Cons kw vs)
  obtain k w where kw: "kw = (k, w)" by (cases kw)
  show ?case
  proof (cases "is_expired D now w")
    case True
    with Cons.IH [OF Cons.prems(1)] Cons.prems kw show ?thesis by auto
  next
    case False
    obtain y c where acc: "accept_invite D now k u True a a = (y, c)" by fastforce
    show ?thesis
    proof (cases y)
      case (Inl e)
      with acc kw False show ?thesis by simp
    next
      case (Inr m)
      have "k \<noteq> i" using blocked_accept [OF Cons.prems(1), of D now u True a] acc Inr by auto
      then obtain e b where "accept_each D now u vs c = (Inl e, b)"
        using Cons.IH [OF blocked_others [OF Cons.prems(1) acc [unfolded Inr]]] Cons.prems(2,3) kw by auto
      with acc kw False Inr show ?thesis by simp
    qed
  qed
qed simp

lemma google_row: "find_or_create_google_user i g s' s = (Inr ((j, u), new), t) \<Longrightarrow> get_by_id j t = Some u"
  by (auto simp: find_or_create_google_user_def write_user_def get_insert(1) split: if_splits option.splits)

text \<open>
  C36. Whoever has accepted an invitation to a project cannot come back by another one: accepting it always
  fails, and while it is pending and not expired no sign-in with Google to an account of that address succeeds at all.
\<close>

theorem locked_out:
  assumes "od_ok (users s)" and "rooms_ok s" and "map_of (invites s) i = Some v" and "inv_status v = ''pending''" and "\<not> is_expired D now v"
    and "map_of (invites s) j = Some w" and "invite_key w = (inv_project v, inv_email v, ''accepted'')"
  shows "(\<exists>e. serve C D now s s (AcceptInvite k i) = (Inl e, s)) \<and>
    (\<forall>l cred c b n u tok t r. serve C D now s s (GoogleLogin l cred c b n) = (Inr (SignedIn u tok), t) \<longrightarrow> get_by_id u t = Some r \<longrightarrow>
      norm_email (email r) \<noteq> inv_email v)"
proof (intro conjI allI impI)
  have stuck: "blocked i j s"
    using assms(3,4,6,7) by (auto simp: blocked_def invite_key_def)
  show "\<exists>e. serve C D now s s (AcceptInvite k i) = (Inl e, s)"
  proof (cases "get_current_user C now k s")
    case (Inr um)
    obtain e where "accept_invite D now i (fst um) False s s = (Inl e, s)" using blocked_accept [OF stuck] by blast
    with Inr show ?thesis by (simp add: as_user_def finished_def split_beta)
  qed (simp add: as_user_def)
  fix l cred c b n u tok t r
  assume login: "serve C D now s s (GoogleLogin l cred c b n) = (Inr (SignedIn u tok), t)" and r: "get_by_id u t = Some r"
  show "norm_email (email r) \<noteq> inv_email v"
  proof
    assume e: "norm_email (email r) = inv_email v"
    from login obtain g where g: "verify_google C cred = Some g" "g_email_verified g"
      by (auto simp: google_login_def split: if_splits option.splits)
    with login obtain x new t1 ms where x: "find_or_create_google_user l g s s = (Inr ((u, x), new), t1)"
        and auto: "auto_accept_for_user D now u (email x) t1 = (Inr ms, t)"
      by (auto simp: google_login_def signed_in_def split: if_splits option.splits sum.splits prod.splits)
    have "get_by_id u t = get_by_id u t1" by (rule get_same [OF auto_accept_frame [OF auto]])
    with google_row [OF x] r have "x = r" by simp
    have inv: "invites t1 = invites s" using google_user_proved [OF x assms(1) g] by (simp add: same_rooms_def)
    then have "blocked i j t1" using stuck by (simp add: blocked_def)
    moreover have "(i, v) \<in> set (list_pending_for_email (email x) t1)"
      using map_of_SomeD [OF assms(3)] assms(4) e inv \<open>x = r\<close> by (simp add: list_pending_for_email_def rows_where_def)
    ultimately obtain e b where "accept_each D now u (list_pending_for_email (email x) t1) t1 = (Inl e, b)"
      using blocked_each [OF _ _ assms(5)] by blast
    with auto show False by (simp add: auto_accept_for_user_def)
  qed
qed

section \<open>Examples\<close>

definition room_crypto :: crypto where
  "room_crypto = sample_crypto\<lparr>decode_jwt := (\<lambda>now t. if t = ''o'' then Some \<lparr>c_sub = Some ''u1'', c_email = ''ann@x'', c_ver = PInt 0\<rparr>
     else if t = ''b'' then Some \<lparr>c_sub = Some ''u2'', c_email = ''bob@x'', c_ver = PInt 0\<rparr> else None)\<rparr>"

definition bearer_of :: "string \<Rightarrow> credentials" where
  "bearer_of t = \<lparr>authorization = Some (''Bearer '' @ t), session_cookie = [], safe_method = False, csrf_header = [], csrf_cookie = []\<rparr>"

definition verified_user :: "string \<Rightarrow> user" where
  "verified_user e = (new_email_user e ''h'' [])\<lparr>email_verified := True, can_create_projects := True\<rparr>"

definition two_users :: site where
  "two_users = empty_site\<lparr>users := [(''u1'', verified_user ''ann@x''), (''u2'', verified_user ''bob@x'')]\<rparr>"

definition serve_rooms :: "site \<Rightarrow> request \<Rightarrow> site" where
  "serve_rooms s rq = snd (serve room_crypto sample_deployment 0 s s rq)"

definition rooms1 :: site where "rooms1 = serve_rooms two_users (CreateProject (bearer_of ''o'') ''p'' ''P'')"
definition rooms2 :: site where "rooms2 = serve_rooms rooms1 (CreateInvite (bearer_of ''o'') ''i'' ''p'' ''Bob@x'' ''editor'')"
definition rooms3 :: site where "rooms3 = serve_rooms rooms2 (AcceptInvite (bearer_of ''b'') ''i'')"
definition rooms4 :: site where "rooms4 = serve_rooms rooms3 (TransferOwnership (bearer_of ''o'') ''p'' ''u2'')"
definition rooms5 :: site where "rooms5 = serve_rooms rooms3 (RemoveMember (bearer_of ''o'') ''p'' ''u2'')"
definition rooms6 :: site where "rooms6 = serve_rooms rooms5 (CreateInvite (bearer_of ''o'') ''j'' ''p'' ''Bob@x'' ''viewer'')"

lemma serve_rooms_run: "access_run room_crypto s es t \<Longrightarrow>
    access_run room_crypto s (es @ [event t t sample_deployment 0 rq (fst (serve room_crypto sample_deployment 0 t t rq))]) (serve_rooms t rq)"
  using access_run.served [OF _ access_run.idle, of room_crypto s es t sample_deployment 0 rq _ "serve_rooms t rq"]
  by (simp add: serve_rooms_def prod_eq_iff)

lemma rooms_runs: "\<exists>es. access_run room_crypto two_users es rooms3" "\<exists>es. access_run room_crypto two_users es rooms4"
  unfolding rooms4_def rooms3_def rooms2_def rooms1_def by (blast intro: serve_rooms_run access_run.idle)+

lemma two_users_ok: "od_ok (users two_users)" "rooms_ok two_users"
  by (simp_all add: two_users_def empty_site_def od_ok_def rooms_ok_def members_ok_def projects_ok_def invites_ok_def)

lemma access_traced_witness:
  "\<exists>es. access_run room_crypto two_users es rooms3 \<and> (\<exists>ev \<in> set es. makes room_crypto ''p'' ''u2'' ev \<or>
    (\<exists>a. takes_up room_crypto ''p'' ''u2'' a ev \<and> (invite_for ''p'' a two_users \<or> (\<exists>ev' \<in> set es. invites_to room_crypto ''p'' a ev'))))"
proof -
  obtain es where run: "access_run room_crypto two_users es rooms3" using rooms_runs(1) by blast
  have "get_role ''p'' ''u2'' rooms3 = Some ''editor''" by code_simp
  then have later: "get_role ''p'' ''u2'' rooms3 \<noteq> None" by simp
  have before: "get_role ''p'' ''u2'' two_users = None" by code_simp
  show ?thesis using access_traced [OF run two_users_ok later before] run by blast
qed

lemma ownership_traced_witness:
  "\<exists>es. access_run room_crypto two_users es rooms4 \<and> (\<exists>ev \<in> set es. makes room_crypto ''p'' ''u2'' ev \<or> hands_over room_crypto ''p'' ''u2'' ev)"
proof -
  obtain es where run: "access_run room_crypto two_users es rooms4" using rooms_runs(2) by blast
  have later: "owner_of ''p'' rooms4 = Some ''u2''" by code_simp
  have before: "owner_of ''p'' two_users \<noteq> Some ''u2''" by code_simp
  show ?thesis using ownership_traced [OF run two_users_ok later before] run by blast
qed


lemma rooms_ok_samples: "rooms_ok rooms3" "rooms_ok rooms6" "od_ok (users rooms6)"
  by code_simp+


lemma seats_never_refuse_witness:
  "fst (serve room_crypto sample_deployment 0 rooms3 rooms3 (CreateProject (bearer_of ''o'') ''q'' ''Q'')) \<noteq> Inl (QuotaExceeded (''seats'', 1, 1))"
  by (rule seats_never_refuse [OF rooms_ok_samples(1)])

lemma locked_out_witness: "\<exists>e. serve room_crypto sample_deployment 0 rooms6 rooms6 (AcceptInvite (bearer_of ''b'') ''j'') = (Inl e, rooms6)"
proof -
  have rows: "map_option (\<lambda>v. (invite_key v, is_expired sample_deployment 0 v)) (map_of (invites rooms6) ''j'') = Some ((''p'', ''bob@x'', ''pending''), False)"
    "map_option invite_key (map_of (invites rooms6) ''i'') = Some (''p'', ''bob@x'', ''accepted'')" by code_simp+
  then obtain v w where v: "map_of (invites rooms6) ''j'' = Some v" "invite_key v = (''p'', ''bob@x'', ''pending'')" "\<not> is_expired sample_deployment 0 v"
    and w: "map_of (invites rooms6) ''i'' = Some w" "invite_key w = (''p'', ''bob@x'', ''accepted'')" by auto
  have key: "inv_status v = ''pending''" "invite_key w = (inv_project v, inv_email v, ''accepted'')" using v(2) w(2) by (simp_all add: invite_key_def)
  show ?thesis using locked_out [OF rooms_ok_samples(3,2) v(1) key(1) v(3) w(1) key(2)] by blast
qed

end
