(* ===== verification/Spec2Isabelle.thy ===== *)
theory Spec2Isabelle
  imports Safety TtlCache QueryCache AgentLimiter WsTickets PipelineReplans ValidationRuns RunProperties LlmRouter BillingProperties Spending AccessProperties
begin

text \<open>
  A verification library of the backend of CheckMyData (\<^verbatim>\<open>backend/app\<close>, Python). The backend answers
  questions about a project's databases: a chat turn is turned into a plan of stages, the stages
  ask sub-agents, which write queries, which are guarded, run, checked and repaired, and their
  results are validated before they are put into words. Background runs index the repository
  and the databases of a project. The library models the parts of this that decide something
  themselves; language models, database drivers, Redis and other services answer through
  parameters, so every theorem holds whatever they answer.

  \<^bold>\<open>The parts and the theories that model them\<close> (paths below \<^verbatim>\<open>backend/app\<close>):

  \<^item> \<open>Prelude\<close>: ordered dictionaries (\<^verbatim>\<open>dict\<close>, \<^verbatim>\<open>OrderedDict\<close>), error sums, and the interfaces that
    the components implement as locales: \<open>machine\<close> (operations that keep an invariant), \<open>stepping\<close>
    (a loop with a measure), \<open>counted_loop\<close> (\<^verbatim>\<open>for ... in range\<close> with an early return),
    \<open>sound_cache\<close> (a lookup answers what was stored last). \<open>PyText\<close>, \<open>PyRegex\<close>, \<open>PyValue\<close>: the parts of
    Python's \<^verbatim>\<open>str\<close>, \<^verbatim>\<open>re\<close> and numbers that the code uses.
  \<^item> Guarding a query. \<open>SqlText\<close> (\<^verbatim>\<open>core/sql_text.py\<close>): the scanner of comments and quotes.
    \<open>Safety\<close> (\<^verbatim>\<open>core/safety.py\<close>): the guard; what read-only mode admits, what is refused anywhere,
    and concrete queries it does not see through.
  \<^item> Running a query. \<open>QueryErrors\<close> (\<^verbatim>\<open>core/error_types.py\<close>, \<^verbatim>\<open>error_classifier.py\<close>, \<^verbatim>\<open>query_validation.py\<close>,
    \<^verbatim>\<open>retry_strategy.py\<close>), \<open>SqlParser\<close> (\<^verbatim>\<open>core/sql_parser.py\<close>), \<open>SchemaHints\<close> (\<^verbatim>\<open>core/schema_hints.py\<close>),
    \<open>QueryValidators\<close> (\<^verbatim>\<open>core/pre_validator.py\<close>, \<^verbatim>\<open>explain_validator.py\<close>, \<^verbatim>\<open>post_validator.py\<close>),
    \<open>RequiredFilters\<close> (\<^verbatim>\<open>core/required_filter_guard.py\<close>), \<open>QueryRepair\<close> (\<^verbatim>\<open>core/context_enricher.py\<close>,
    \<^verbatim>\<open>query_repair.py\<close>), \<open>ValidationLoop\<close> (\<^verbatim>\<open>core/validation_loop.py\<close>): the loop of attempts; its state
    records what was sent to the database, the model and the clock. \<open>ValidationRuns\<close>: the invariant
    of its rounds; nothing is sent unguarded, a write is sent once, runs are bounded.
  \<^item> Remembering results. \<open>TtlCache\<close> (\<^verbatim>\<open>core/ttl_cache.py\<close>), \<open>QueryData\<close> (\<^verbatim>\<open>connectors/base.py\<close>),
    \<open>QueryCache\<close> (\<^verbatim>\<open>core/query_cache.py\<close>): capacity, lifetime, recency, and what a lookup answers.
  \<^item> Limits and tickets. \<open>AgentLimiter\<close> (\<^verbatim>\<open>core/agent_limiter.py\<close>), \<open>WsTickets\<close> (\<^verbatim>\<open>core/ws_tickets.py\<close>).
  \<^item> Plans. \<open>Kahn\<close>, \<open>Plans\<close> (\<^verbatim>\<open>agents/query_planner.py\<close>, \<^verbatim>\<open>stage_context.py\<close>): the structural check and
    its exactness, JSON and database forms. \<open>AdaptivePlanner\<close> (\<^verbatim>\<open>agents/adaptive_planner.py\<close>).
  \<^item> Running a plan. \<open>StageValidator\<close>, \<open>LayerChecker\<close>, \<open>DataGate\<close> (the files of \<^verbatim>\<open>agents\<close> of the same
    names), \<open>ResultValidation\<close> (\<^verbatim>\<open>agents/result_validation.py\<close>, \<^verbatim>\<open>validation.py\<close>, \<^verbatim>\<open>viz/chart_rules.py\<close>),
    \<open>Reconciliation\<close> (\<^verbatim>\<open>agents/sql_result_reconciliation.py\<close>): the checks of results. \<open>StageRunners\<close> and
    \<open>StageExecutor\<close> (\<^verbatim>\<open>agents/stage_executor.py\<close>): one stage, its retries, batches and the loop over
    them. \<open>PipelineRuns\<close>: dependencies first, executions bounded, results checked, never stuck.
    \<open>PipelineReplans\<close> (\<^verbatim>\<open>agents/orchestrator.py\<close>, the replan loop only): failed pipelines planned again.
  \<^item> Background runs. \<open>RunManifests\<close> (\<^verbatim>\<open>knowledge/run_manifests.py\<close>), \<open>ErrorLog\<close>
    (\<^verbatim>\<open>services/error_log_service.py\<close>), \<open>RunTable\<close> (\<^verbatim>\<open>models/indexing_run.py\<close>: rows, constraints, and
    sessions that write the columns they changed), \<open>RunCoordinator\<close> (\<^verbatim>\<open>services/run_coordinator.py\<close>),
    \<open>RunReaper\<close> (\<^verbatim>\<open>services/stale_run_reaper.py\<close>, \<^verbatim>\<open>ops/orphan_runs.py\<close>). \<open>RunInvariants\<close>: what every
    interleaving of processes and stale sessions keeps. \<open>RunLifecycle\<close>: the promised life of a run
    and its refinement by the operations, through the locale \<open>simulation\<close>. \<open>RunProperties\<close>: the
    behaviour of each operation.

  \<^item> Model access. \<open>LlmRouter\<close> (\<^verbatim>\<open>llm/router.py\<close>, \<^verbatim>\<open>llm/errors.py\<close>, \<^verbatim>\<open>llm/retry.py\<close>, \<^verbatim>\<open>core/retry.py\<close>,
    \<^verbatim>\<open>llm/usage_sink.py\<close>): the choice of providers, attempts, fallback, streams and usage.
  \<^item> Money. \<open>Credits\<close> (\<^verbatim>\<open>services/openrouter_credit_service.py\<close>), \<open>Billing\<close> (\<^verbatim>\<open>services/billing_service.py\<close>)
    with the locales \<open>transactional\<close> and \<open>session_law\<close>, \<open>BillingProperties\<close>: deliveries are atomic and
    credited once. \<open>Entitlements\<close> (\<^verbatim>\<open>services/plan_catalogue.py\<close>, \<^verbatim>\<open>entitlement_service.py\<close>,
    \<^verbatim>\<open>entitlements\<close>): what a plan allows. \<open>Spending\<close> (\<^verbatim>\<open>services/usage_service.py\<close>): ledger and gate.
  \<^item> Accounts, memberships and invitations. \<open>Accounts\<close> (\<^verbatim>\<open>services/auth_service.py\<close>,
    \<^verbatim>\<open>mcp_key_service.py\<close>, \<^verbatim>\<open>core/identity.py\<close>, \<^verbatim>\<open>mcp_server/auth.py\<close>, \<^verbatim>\<open>get_current_user\<close>), \<open>Membership\<close>
    (\<^verbatim>\<open>services/membership_service.py\<close>), \<open>Invites\<close> (\<^verbatim>\<open>services/invite_service.py\<close>), \<open>AccessRuns\<close>: the
    requests (\<open>serve\<close>) and their runs (\<open>access_run\<close>), in which others may get in between what a request
    reads and what it inserts. \<open>AccessRows\<close>: \<open>row_change\<close>, every change that the row of an account
    undergoes; \<open>AccountProperties\<close>: sessions, reset links, verified addresses. \<open>RoomSteps\<close>: \<open>room_step\<close>,
    every change of projects, members and invitations, and the invariant \<open>rooms_ok\<close> of these tables;
    \<open>RoomRuns\<close>: every request consists of such steps; \<open>AccessProperties\<close>: access, ownership and
    invitations traced to the requests that granted them.

  \<^bold>\<open>How state and operations correspond to the code.\<close> A data class is a record with the same fields,
  an enum or a tagged dictionary a datatype, a \<^verbatim>\<open>dict\<close> an association list in insertion order; a
  value whose type the code does not fix (a model's answer, a decoded JSON text, a cell) is a
  \<open>pyval\<close>. A method is a function from arguments and state to a result and a state; an exception
  that the code lets out is an \<open>Inl\<close>, one that it catches is the branch of its handler. An
  \<^verbatim>\<open>await\<close> on a service is a call of a parameter with what was sent so far; the clock is an argument.
  Loops over data are recursive functions; the loop over attempts counts, the loop over batches and
  the loop over replans take fuel.

  \<^bold>\<open>Bounds and fuel.\<close> The loop over the batches of a plan ends within one round more than the plan
  has stages (\<open>pipeline_ends\<close>), the replan loop within one round more than the configured number of
  replans (\<open>replans_bounded\<close>); both are proved to answer with that fuel, not only to be right if
  they do. The query loop makes the configured number of attempts at most (\<open>run_bounded\<close>). Regular
  expressions are matched by a terminating function (each repetition must advance).

  \<^bold>\<open>Conventions.\<close> Characters are code points below 256; a dash or an arrow of a fixed text is written
  in ASCII. A float is the rational it stands for: an operation rounds to 53 bits (\<open>fl\<close>), overflow
  to infinity is modelled where the code can meet it, subnormal numbers are not. Times of the run
  tables are whole microseconds, in which durations compare exactly. A lock makes an operation one
  step; where the code itself leaves a gap between a check and a write, the model takes what others
  do in the gap as an argument, or composes the two halves in a step relation.

  \<^bold>\<open>Not modelled\<close>, and why: the prompts and tool loops of the agents and most of the orchestrator
  (free text exchanged with a language model; the executor's model takes their answers as given);
  most HTTP routes, the worker and start-up code (frameworks and calls into services; the routes of
  accounts, memberships and invitations are modelled); drivers, SSH, vendor clients, provider
  adapters, embeddings and vector stores (third-party code behind parameters); the indexing
  pipelines of \<^verbatim>\<open>knowledge\<close> (tree-sitter, git and language models decide what they write); the
  insight engines of \<^verbatim>\<open>core\<close> (heuristic scores without a stated contract) and the services that only
  store and report rows; logging, metrics, rate limits, cookies and progress events; the frontend.
\<close>

end
